(* ===== verification/Prelude.thy ===== *)
theory Prelude
  imports Main "HOL-Library.AList" "HOL-Library.List_Lexorder" "HOL-Library.Char_ord"
begin

text \<open>
  What every component shares: decoded JSON values and Python dictionaries as
  association lists in insertion order, truthiness, the string operations the code
  uses (\<open>str\<close>, \<open>repr\<close>, \<open>startswith\<close>, \<open>strip\<close>), and the two control operators of
  fallible code: sequencing after a call that may raise, and a \<open>for\<close> loop whose
  body may raise.
\<close>

named_theorems frame_simps \<open>what an operation leaves unchanged\<close>

section \<open>Times\<close>

text \<open>
  The stores stamp rows with \<open>time.strftime("%Y-%m-%dT%H:%M:%SZ", time.gmtime())\<close>:
  fixed-width UTC strings, which SQL compares as text. That order is the order of the
  seconds they denote, so a time stamp is its epoch second.
\<close>

type_synonym timestamp = int

section \<open>JSON values and dictionaries\<close>

datatype json =
  JNull
| JBool bool
| JInt int
| JStr string
| JArr "json list"
| JObj "(string \<times> json) list"

type_synonym dict = "(string \<times> json) list"

definition dget :: "dict \<Rightarrow> string \<Rightarrow> json" where
  \<comment> \<open>\<open>d.get(k)\<close>: a missing key and a stored null both read as None\<close>
  "dget d k = (case map_of d k of None \<Rightarrow> JNull | Some v \<Rightarrow> v)"

definition dset :: "dict \<Rightarrow> string \<Rightarrow> json \<Rightarrow> dict" where
  \<comment> \<open>\<open>d[k] = v\<close>: an existing key keeps its place, a new one goes to the end\<close>
  "dset d k v = AList.update k v d"

definition dpop :: "dict \<Rightarrow> string \<Rightarrow> dict" where
  \<comment> \<open>\<open>d.pop(k, None)\<close>\<close>
  "dpop d k = AList.delete k d"

definition dhas :: "dict \<Rightarrow> string \<Rightarrow> bool" where
  "dhas d k \<longleftrightarrow> map_of d k \<noteq> None"

primrec dupdate :: "dict \<Rightarrow> dict \<Rightarrow> dict" where
  \<comment> \<open>\<open>d.update(e)\<close>, also \<open>{**d, **e}\<close>\<close>
  "dupdate d [] = d"
| "dupdate d (kv # e) = dupdate (dset d (fst kv) (snd kv)) e"

fun as_dict :: "json \<Rightarrow> dict option" where
  \<comment> \<open>\<open>isinstance(v, dict)\<close>\<close>
  "as_dict (JObj d) = Some d"
| "as_dict _ = None"

definition dict_or_empty :: "json \<Rightarrow> dict" where
  "dict_or_empty v = (case as_dict v of None \<Rightarrow> [] | Some d \<Rightarrow> d)"

fun as_list :: "json \<Rightarrow> json list option" where
  "as_list (JArr xs) = Some xs"
| "as_list _ = None"

fun truthy :: "json \<Rightarrow> bool" where
  "truthy JNull = False"
| "truthy (JBool b) = b"
| "truthy (JInt n) = (n \<noteq> 0)"
| "truthy (JStr s) = (s \<noteq> [])"
| "truthy (JArr xs) = (xs \<noteq> [])"
| "truthy (JObj d) = (d \<noteq> [])"

lemma dget_dset [simp]: "dget (dset d k v) k' = (if k' = k then v else dget d k')"
  by (auto simp: dget_def dset_def update_conv')

lemma dget_dpop [simp]: "dget (dpop d k) k' = (if k' = k then JNull else dget d k')"
  by (auto simp: dget_def dpop_def delete_conv')

lemma dget_Nil [simp]: "dget [] k = JNull"
  by (simp add: dget_def)

lemma dget_Cons [simp]: "dget ((k', v) # d) k = (if k = k' then v else dget d k)"
  by (simp add: dget_def)

lemma dhas_dset [simp]: "dhas (dset d k v) k' \<longleftrightarrow> k' = k \<or> dhas d k'"
  by (auto simp: dhas_def dset_def update_conv')

lemma dget_dupdate_other: "k \<notin> fst ` set e \<Longrightarrow> dget (dupdate d e) k = dget d k"
  by (induction e arbitrary: d) auto

lemma dget_dupdate: "distinct (map fst e) \<Longrightarrow> dhas e k \<Longrightarrow> dget (dupdate d e) k = dget e k"
proof (induction e arbitrary: d)
  case Nil
  then show ?case by (simp add: dhas_def)
next
  case (Cons kv e)
  show ?case
  proof (cases "k = fst kv")
    case True
    with Cons.prems have "k \<notin> fst ` set e" by auto
    with True show ?thesis by (cases kv) (simp add: dget_dupdate_other)
  next
    case False
    with Cons show ?thesis by (cases kv) (simp add: dhas_def)
  qed
qed

section \<open>Strings\<close>

definition str_or :: "string option \<Rightarrow> string \<Rightarrow> string" where
  \<comment> \<open>\<open>s or default\<close>: None and the empty string are both false\<close>
  "str_or s d = (case s of None \<Rightarrow> d | Some x \<Rightarrow> if x = [] then d else x)"

definition nonempty :: "string option \<Rightarrow> bool" where
  "nonempty s \<longleftrightarrow> (\<exists>x. s = Some x \<and> x \<noteq> [])"

lemma nonempty_code [code]: "nonempty s = (case s of None \<Rightarrow> False | Some x \<Rightarrow> x \<noteq> [])"
  by (auto simp: nonempty_def split: option.splits)

definition or_none :: "string \<Rightarrow> string option" where
  \<comment> \<open>\<open>s or None\<close>\<close>
  "or_none s = (if s = [] then None else Some s)"

definition startswith :: "string \<Rightarrow> string \<Rightarrow> bool" where
  "startswith s p \<longleftrightarrow> take (length p) s = p"

definition is_space :: "char \<Rightarrow> bool" where
  "is_space c \<longleftrightarrow> (let n = of_char c :: nat in (9 \<le> n \<and> n \<le> 13) \<or> (28 \<le> n \<and> n \<le> 32))"

definition strip :: "string \<Rightarrow> string" where
  "strip s = rev (dropWhile is_space (rev (dropWhile is_space s)))"

definition digit_char :: "nat \<Rightarrow> char" where
  "digit_char n = char_of (48 + n)"

fun nat_str :: "nat \<Rightarrow> string" where
  "nat_str n = (if n < 10 then [digit_char n] else nat_str (n div 10) @ [digit_char (n mod 10)])"

declare nat_str.simps [simp del]

definition int_str :: "int \<Rightarrow> string" where
  "int_str i = (if i < 0 then ''-'' @ nat_str (nat (- i)) else nat_str (nat i))"

definition hex_char :: "nat \<Rightarrow> char" where
  "hex_char n = (if n < 10 then char_of (48 + n) else char_of (87 + n))"

definition repr_char :: "char \<Rightarrow> char \<Rightarrow> string" where
  "repr_char quote c = (let n = of_char c :: nat in
     if c = quote \<or> n = 92 then [char_of (92::nat), c]
     else if n = 10 then [char_of (92::nat), CHR ''n'']
     else if n = 13 then [char_of (92::nat), CHR ''r'']
     else if n = 9 then [char_of (92::nat), CHR ''t'']
     else if n < 32 \<or> n = 127
       then [char_of (92::nat), CHR ''x'', hex_char (n div 16), hex_char (n mod 16)]
     else [c])"

definition py_repr :: "string \<Rightarrow> string" where
  \<comment> \<open>\<open>repr(s)\<close>: single quotes unless the text has one and no double quote\<close>
  "py_repr s = (let single = char_of (39::nat); double = char_of (34::nat);
       q = (if single \<in> set s \<and> double \<notin> set s then double else single)
     in [q] @ concat (map (repr_char q) s) @ [q])"

fun join :: "string \<Rightarrow> string list \<Rightarrow> string" where
  \<comment> \<open>\<open>sep.join(xs)\<close>\<close>
  "join sep [] = []"
| "join sep [x] = x"
| "join sep (x # y # xs) = x @ sep @ join sep (y # xs)"

fun json_repr :: "json \<Rightarrow> string" where
  \<comment> \<open>\<open>repr\<close> of a decoded value\<close>
  "json_repr JNull = ''None''"
| "json_repr (JBool b) = (if b then ''True'' else ''False'')"
| "json_repr (JInt n) = int_str n"
| "json_repr (JStr s) = py_repr s"
| "json_repr (JArr xs) = ''['' @ join '', '' (map json_repr xs) @ '']''"
| "json_repr (JObj d) =
     ''{'' @ join '', '' (map (\<lambda>kv. py_repr (fst kv) @ '': '' @ json_repr (snd kv)) d) @ ''}''"

fun json_str :: "json \<Rightarrow> string" where
  \<comment> \<open>\<open>str(v)\<close>: a string is itself, anything else its \<open>repr\<close>\<close>
  "json_str (JStr s) = s"
| "json_str v = json_repr v"

definition lower_char :: "char \<Rightarrow> char" where
  "lower_char c = (let n = of_char c :: nat in if 65 \<le> n \<and> n \<le> 90 then char_of (n + 32) else c)"

definition opt_json :: "string option \<Rightarrow> json" where
  "opt_json v = (case v of None \<Rightarrow> JNull | Some x \<Rightarrow> JStr x)"

definition or_text :: "json \<Rightarrow> string \<Rightarrow> string" where
  \<comment> \<open>\<open>str(v or default)\<close>\<close>
  "or_text v d = (if truthy v then json_str v else d)"

lemma nat_str_nonempty [simp]: "nat_str n \<noteq> []"
  by (subst nat_str.simps) simp

lemma json_str_nonempty: "truthy v \<Longrightarrow> json_str v \<noteq> []"
  by (cases v) (auto simp: int_str_def)

lemma or_text_nonempty: "d \<noteq> [] \<Longrightarrow> or_text v d \<noteq> []"
  by (simp add: or_text_def json_str_nonempty)

definition is_digit :: "char \<Rightarrow> bool" where
  "is_digit c \<longleftrightarrow> (let n = of_char c :: nat in 48 \<le> n \<and> n \<le> 57)"

fun int_digits :: "string \<Rightarrow> int \<Rightarrow> int option" where
  \<comment> \<open>decimal digits, with single underscores between them\<close>
  "int_digits [] acc = Some acc"
| "int_digits (c # cs) acc =
     (if is_digit c then int_digits cs (10 * acc + (of_char c - 48))
      else if c = CHR ''_'' \<and> cs \<noteq> [] \<and> is_digit (hd cs) then int_digits cs acc
      else None)"

definition unsigned_int :: "string \<Rightarrow> int option" where
  "unsigned_int s = (if s \<noteq> [] \<and> is_digit (hd s) then int_digits s 0 else None)"

definition parse_int :: "string \<Rightarrow> int option" where
  \<comment> \<open>\<open>int(text)\<close>\<close>
  "parse_int text = (case strip text of
       [] \<Rightarrow> None
     | c # cs \<Rightarrow> if c = CHR ''-'' then map_option uminus (unsigned_int cs)
         else if c = CHR ''+'' then unsigned_int cs else unsigned_int (c # cs))"

datatype py_error =
  PyValueError string
| PyTypeError
| PyKeyError string
| PyAttributeError

definition py_int :: "json \<Rightarrow> py_error + int" where
  \<comment> \<open>\<open>int(v)\<close>\<close>
  "py_int v = (case v of
       JInt n \<Rightarrow> Inr n
     | JBool b \<Rightarrow> Inr (if b then 1 else 0)
     | JStr s \<Rightarrow> (case parse_int s of Some n \<Rightarrow> Inr n
         | None \<Rightarrow> Inl (PyValueError (''invalid literal for int() with base 10: '' @ py_repr s)))
     | _ \<Rightarrow> Inl PyTypeError)"

lemma py_int_JInt [simp]: "py_int (JInt n) = Inr n"
  by (simp add: py_int_def)

section \<open>Time stamps as text\<close>

definition civil_date :: "int \<Rightarrow> int \<times> int \<times> int" where
  \<comment> \<open>\<open>time.gmtime\<close>: year, month and day of a day counted from 1970-01-01\<close>
  "civil_date days =
     (let z = days + 719468; era = z div 146097; doe = z mod 146097;
          yoe = (doe - doe div 1460 + doe div 36524 - doe div 146096) div 365;
          doy = doe - (365 * yoe + yoe div 4 - yoe div 100);
          mp = (5 * doy + 2) div 153;
          m = (if mp < 10 then mp + 3 else mp - 9)
      in (yoe + era * 400 + (if m \<le> 2 then 1 else 0), m, doy - (153 * mp + 2) div 5 + 1))"

definition pad :: "nat \<Rightarrow> int \<Rightarrow> string" where
  "pad width n = (let d = int_str n in replicate (width - length d) (CHR ''0'') @ d)"

definition iso_text :: "timestamp \<Rightarrow> string" where
  \<comment> \<open>\<open>time.strftime("%Y-%m-%dT%H:%M:%SZ", time.gmtime(now))\<close>\<close>
  "iso_text now =
     (case civil_date (now div 86400) of (y, m, d) \<Rightarrow>
       let sec = now mod 86400
       in pad 4 y @ ''-'' @ pad 2 m @ ''-'' @ pad 2 d @ ''T'' @ pad 2 (sec div 3600) @ '':''
          @ pad 2 (sec div 60 mod 60) @ '':'' @ pad 2 (sec mod 60) @ ''Z'')"

section \<open>Code that may raise\<close>

definition and_then :: "'e + 'a \<Rightarrow> ('a \<Rightarrow> 'e + 'b) \<Rightarrow> 'e + 'b" where
  "and_then r f = (case r of Inl e \<Rightarrow> Inl e | Inr a \<Rightarrow> f a)"

primrec for_each :: "('a \<Rightarrow> 's \<Rightarrow> 'e + 's) \<Rightarrow> 'a list \<Rightarrow> 's \<Rightarrow> 'e + 's" where
  "for_each f [] s = Inr s"
| "for_each f (x # xs) s = and_then (f x s) (for_each f xs)"

lemma and_then_simps [simp]:
  "and_then (Inl e) f = Inl e"
  "and_then (Inr a) f = f a"
  by (simp_all add: and_then_def)

lemma and_then_Inr_iff: "and_then r f = Inr b \<longleftrightarrow> (\<exists>a. r = Inr a \<and> f a = Inr b)"
  by (cases r) auto

lemma and_then_InrE:
  assumes "and_then r f = Inr b"
  obtains a where "r = Inr a" "f a = Inr b"
  using assms by (cases r) auto

primrec map_each :: "('a \<Rightarrow> 'e + 'b) \<Rightarrow> 'a list \<Rightarrow> 'e + 'b list" where
  \<comment> \<open>\<open>tuple(f(x) for x in xs)\<close> with an \<open>f\<close> that may raise\<close>
  "map_each f [] = Inr []"
| "map_each f (x # xs) = and_then (f x) (\<lambda>y. and_then (map_each f xs) (\<lambda>ys. Inr (y # ys)))"

lemma map_each_map: "(\<And>x. x \<in> set xs \<Longrightarrow> f (g x) = Inr (h x)) \<Longrightarrow> map_each f (map g xs) = Inr (map h xs)"
  by (induction xs) auto

lemma map_each_all: "map_each f xs = Inr ys \<Longrightarrow> y \<in> set ys \<Longrightarrow> \<exists>x\<in>set xs. f x = Inr y"
  by (induction xs arbitrary: ys) (auto simp: and_then_Inr_iff)

lemma for_each_preserves:
  assumes "for_each f xs s = Inr s'" and "I s"
    and "\<And>x s s'. x \<in> set xs \<Longrightarrow> I s \<Longrightarrow> f x s = Inr s' \<Longrightarrow> I s'"
  shows "I s'"
  using assms
proof (induction xs arbitrary: s)
  case Nil
  then show ?case by simp
next
  case (Cons x xs)
  from Cons.prems(1) obtain t where t: "f x s = Inr t" "for_each f xs t = Inr s'"
    by (auto elim: and_then_InrE)
  have "I t" using Cons.prems(3) [of x s t] Cons.prems(2) t(1) by simp
  show ?case
  proof (rule Cons.IH [OF t(2) \<open>I t\<close>])
    fix y u u' assume "y \<in> set xs" "I u" "f y u = Inr u'"
    then show "I u'" using Cons.prems(3) [of y u u'] by simp
  qed
qed

lemma for_each_mono:
  assumes "for_each f xs s = Inr s'" and "R s s"
    and "\<And>a b c. R a b \<Longrightarrow> R b c \<Longrightarrow> R a c"
    and "\<And>x s s'. x \<in> set xs \<Longrightarrow> f x s = Inr s' \<Longrightarrow> R s s'"
  shows "R s s'"
proof -
  have "R s s'"
    using assms(1)
  proof (rule for_each_preserves [where I = "R s"])
    show "R s s" by (rule assms(2))
    show "R s b" if "x \<in> set xs" "R s a" "f x a = Inr b" for x a b
      using assms(3) [OF that(2) assms(4) [OF that(1,3)]] .
  qed
  then show ?thesis .
qed

section \<open>Lists of rows\<close>

definition find_row :: "('r \<Rightarrow> bool) \<Rightarrow> 'r list \<Rightarrow> 'r option" where
  "find_row p xs = List.find p xs"

definition update_where :: "('r \<Rightarrow> bool) \<Rightarrow> ('r \<Rightarrow> 'r) \<Rightarrow> 'r list \<Rightarrow> 'r list" where
  \<comment> \<open>\<open>UPDATE t SET ... WHERE p\<close>\<close>
  "update_where p f xs = map (\<lambda>r. if p r then f r else r) xs"

definition sql_limit :: "int \<Rightarrow> 'r list \<Rightarrow> 'r list" where
  \<comment> \<open>\<open>LIMIT n\<close>: a negative limit is no limit\<close>
  "sql_limit n xs = (if n < 0 then xs else take (nat n) xs)"

definition counts :: "'k list \<Rightarrow> ('k \<times> nat) list" where
  \<comment> \<open>\<open>SELECT k, COUNT(*) ... GROUP BY k\<close>\<close>
  "counts ks = map (\<lambda>k. (k, length (filter (\<lambda>x. x = k) ks))) (remdups ks)"

lemma set_sql_limit: "set (sql_limit n xs) \<subseteq> set xs"
  by (simp add: sql_limit_def set_take_subset)

lemma map_of_counts:
  "map_of (counts ks) k = (if k \<in> set ks then Some (length (filter (\<lambda>x. x = k) ks)) else None)"
  by (simp add: counts_def map_of_map_restrict restrict_map_def)

lemma sum_counts: "sum_list (map snd (counts ks)) = length ks"
proof -
  have "sum_list (map snd (counts ks)) = (\<Sum>k\<in>set ks. length (filter (\<lambda>x. x = k) ks))"
    by (simp add: counts_def comp_def sum_list_distinct_conv_sum_set)
  also have "\<dots> = length ks"
    using sum_count_set [of ks "set ks"] by (simp add: count_list_eq_length_filter eq_commute)
  finally show ?thesis .
qed

lemma length_update_where [simp]: "length (update_where p f xs) = length xs"
  by (simp add: update_where_def)

lemma update_where_Nil [simp]: "update_where p f [] = []"
  by (simp add: update_where_def)

lemma update_where_Cons [simp]:
  "update_where p f (x # xs) = (if p x then f x else x) # update_where p f xs"
  by (simp add: update_where_def)

lemma set_update_where:
  "r \<in> set (update_where p f xs) \<longleftrightarrow>
     (\<exists>x\<in>set xs. r = (if p x then f x else x))"
  by (auto simp: update_where_def)

lemma map_update_where_same:
  "(\<And>x. k (f x) = k x) \<Longrightarrow> map k (update_where p f xs) = map k xs"
  by (induction xs) auto

lemma find_Some_in_set: "List.find p xs = Some x \<Longrightarrow> x \<in> set xs \<and> p x"
  by (induction xs) (auto split: if_splits)

end
