(* ===== verification/TaskStatus.thy ===== *)
theory TaskStatus
  imports Prelude
begin

text \<open>
  The status vocabulary of the durable task queue (\<open>terminal_mcp/queue_store.py\<close>):
  the fourteen task statuses, the table of allowed edges, the status groups the store
  tests against, the routing states, and who paused a lane.
\<close>

section \<open>Statuses\<close>

datatype status =
  QUEUED | PRECHECK | READY | DISPATCHING | DISPATCH_UNCERTAIN | RUNNING | VERIFYING
| COMPLETED | BLOCKED | FAILED | WAITING_SESSION | PAUSED | SKIPPED | CANCELLED

definition all_statuses :: "status list" where
  "all_statuses = [QUEUED, PRECHECK, READY, DISPATCHING, DISPATCH_UNCERTAIN, RUNNING,
     VERIFYING, COMPLETED, BLOCKED, FAILED, WAITING_SESSION, PAUSED, SKIPPED, CANCELLED]"

fun status_name :: "status \<Rightarrow> string" where
  \<comment> \<open>the constant's value, as the status column and the events hold it\<close>
  "status_name QUEUED = ''QUEUED''"
| "status_name PRECHECK = ''PRECHECK''"
| "status_name READY = ''READY''"
| "status_name DISPATCHING = ''DISPATCHING''"
| "status_name DISPATCH_UNCERTAIN = ''DISPATCH_UNCERTAIN''"
| "status_name RUNNING = ''RUNNING''"
| "status_name VERIFYING = ''VERIFYING''"
| "status_name COMPLETED = ''COMPLETED''"
| "status_name BLOCKED = ''BLOCKED''"
| "status_name FAILED = ''FAILED''"
| "status_name WAITING_SESSION = ''WAITING_SESSION''"
| "status_name PAUSED = ''PAUSED''"
| "status_name SKIPPED = ''SKIPPED''"
| "status_name CANCELLED = ''CANCELLED''"

fun valid_transitions :: "status \<Rightarrow> status list" where
  \<comment> \<open>\<open>VALID_TRANSITIONS\<close>\<close>
  "valid_transitions QUEUED =
     [PRECHECK, BLOCKED, COMPLETED, DISPATCHING, SKIPPED, CANCELLED, PAUSED]"
| "valid_transitions PRECHECK =
     [READY, QUEUED, BLOCKED, WAITING_SESSION, PAUSED, CANCELLED]"
| "valid_transitions READY = [DISPATCHING, WAITING_SESSION, BLOCKED, CANCELLED, PAUSED]"
| "valid_transitions DISPATCHING =
     [RUNNING, DISPATCH_UNCERTAIN, QUEUED, WAITING_SESSION, BLOCKED, FAILED, COMPLETED,
      CANCELLED, PAUSED]"
| "valid_transitions DISPATCH_UNCERTAIN = [RUNNING, CANCELLED, PAUSED]"
| "valid_transitions RUNNING =
     [VERIFYING, WAITING_SESSION, BLOCKED, FAILED, CANCELLED, PAUSED]"
| "valid_transitions VERIFYING =
     [COMPLETED, RUNNING, WAITING_SESSION, BLOCKED, FAILED, CANCELLED, PAUSED]"
| "valid_transitions BLOCKED = [QUEUED, SKIPPED, CANCELLED, COMPLETED]"
| "valid_transitions FAILED = [QUEUED, SKIPPED, CANCELLED]"
| "valid_transitions WAITING_SESSION = [QUEUED, CANCELLED]"
| "valid_transitions PAUSED =
     [QUEUED, PRECHECK, READY, DISPATCHING, DISPATCH_UNCERTAIN, RUNNING, VERIFYING,
      WAITING_SESSION, CANCELLED, COMPLETED]"
| "valid_transitions COMPLETED = []"
| "valid_transitions SKIPPED = []"
| "valid_transitions CANCELLED = []"

definition is_valid_transition :: "status \<Rightarrow> status \<Rightarrow> bool" where
  "is_valid_transition from_status to_status \<longleftrightarrow>
     to_status \<in> set (valid_transitions from_status)"

definition TERMINAL_STATUSES :: "status list" where
  "TERMINAL_STATUSES = [COMPLETED, SKIPPED, CANCELLED]"

definition MOVABLE_STATUSES :: "status list" where
  "MOVABLE_STATUSES = [QUEUED, BLOCKED, PAUSED, WAITING_SESSION]"

definition ACTIVE_STATUSES :: "status list" where
  "ACTIVE_STATUSES = [PRECHECK, READY, DISPATCHING, DISPATCH_UNCERTAIN, RUNNING, VERIFYING,
     WAITING_SESSION, PAUSED, BLOCKED, FAILED]"

definition LEASE_STATES :: "status list" where
  "LEASE_STATES = [PRECHECK, DISPATCHING, RUNNING, VERIFYING]"

definition MIGRATABLE_STATUSES :: "status list" where
  "MIGRATABLE_STATUSES = [QUEUED, WAITING_SESSION, BLOCKED, FAILED]"

definition PRE_DISPATCH_STATUSES :: "status list" where
  "PRE_DISPATCH_STATUSES = [QUEUED, PRECHECK, READY]"

lemmas status_groups =
  TERMINAL_STATUSES_def MOVABLE_STATUSES_def ACTIVE_STATUSES_def LEASE_STATES_def
  MIGRATABLE_STATUSES_def PRE_DISPATCH_STATUSES_def

section \<open>Routing states\<close>

datatype routing = UNROUTED | BOUND | SPAWNED | WAITING_RUNTIME

definition ROUTING_BOUND_STATES :: "routing option list" where
  "ROUTING_BOUND_STATES = [Some BOUND, Some SPAWNED]"

definition UNASSIGNED_LANE :: string where
  "UNASSIGNED_LANE = ''__unassigned__''"

section \<open>Who paused a lane\<close>

definition PAUSE_ORIGIN_COORDINATOR :: string where
  "PAUSE_ORIGIN_COORDINATOR = ''coordinator''"

definition PAUSE_ORIGIN_USER :: string where
  "PAUSE_ORIGIN_USER = ''user''"

definition PAUSE_ORIGIN_PROJECT :: string where
  "PAUSE_ORIGIN_PROJECT = ''project''"

definition LEGACY_PAUSE_PREFIXES :: "(string \<times> string) list" where
  "LEGACY_PAUSE_PREFIXES = [(PAUSE_ORIGIN_COORDINATOR, ''coordinator:''),
     (PAUSE_ORIGIN_PROJECT, ''project-pause['')]"

definition pause_origin :: "string option \<Rightarrow> string option \<Rightarrow> string option" where
  "pause_origin paused_origin paused_reason =
     (if nonempty paused_origin then paused_origin
      else map_option fst (List.find
        (\<lambda>(orig, prefix). nonempty paused_reason \<and> startswith (the paused_reason) prefix)
        LEGACY_PAUSE_PREFIXES))"

section \<open>The shape of the state machine\<close>

lemma all_statuses_complete: "set all_statuses = UNIV"
proof -
  have "s \<in> set all_statuses" for s by (cases s) (simp_all add: all_statuses_def)
  then show ?thesis by blast
qed

lemma status_name_inj: "status_name s = status_name t \<Longrightarrow> s = t"
  by (cases s; cases t) simp_all

lemma no_self_edge: "\<not> is_valid_transition s s"
  by (cases s) (simp_all add: is_valid_transition_def)

lemma terminal_no_edge: "s \<in> set TERMINAL_STATUSES \<Longrightarrow> \<not> is_valid_transition s t"
  by (auto simp: status_groups is_valid_transition_def)

lemma non_terminal_can_cancel:
  "s \<notin> set TERMINAL_STATUSES \<Longrightarrow> is_valid_transition s CANCELLED"
  by (cases s) (simp_all add: status_groups is_valid_transition_def)

lemma into_RUNNING:
  "is_valid_transition s RUNNING \<longleftrightarrow> s \<in> {DISPATCHING, DISPATCH_UNCERTAIN, VERIFYING, PAUSED}"
  by (cases s) (simp_all add: is_valid_transition_def)

lemma into_VERIFYING: "is_valid_transition s VERIFYING \<longleftrightarrow> s \<in> {RUNNING, PAUSED}"
  by (cases s) (simp_all add: is_valid_transition_def)

lemma into_COMPLETED:
  "is_valid_transition s COMPLETED \<longleftrightarrow> s \<in> {QUEUED, DISPATCHING, VERIFYING, BLOCKED, PAUSED}"
  by (cases s) (simp_all add: is_valid_transition_def)

lemma from_uncertain:
  "is_valid_transition DISPATCH_UNCERTAIN t \<longleftrightarrow> t \<in> {RUNNING, CANCELLED, PAUSED}"
  by (cases t) (simp_all add: is_valid_transition_def)

lemma pause_origin_stored: "nonempty o1 \<Longrightarrow> pause_origin o1 r = o1"
  by (simp add: pause_origin_def)

lemma pause_origin_unknown:
  "\<not> nonempty o1 \<Longrightarrow> \<not> nonempty r \<Longrightarrow> pause_origin o1 r = None"
  by (simp add: pause_origin_def LEGACY_PAUSE_PREFIXES_def)

end
