(* ===== verification/WorktreeCleanup.thy ===== *)
theory WorktreeCleanup
  imports TaskStatus
begin

text \<open>
  \<open>terminal_mcp/worktree_cleanup.py\<close>: what one status transition does to a task's
  worktree-cleanup record. Pure functions over the task's metadata, called from the one
  place that changes a status; nothing here deletes anything.
\<close>

definition METADATA_KEY :: string where "METADATA_KEY = ''worktree_cleanup''"
definition ISOLATION_KEY :: string where "ISOLATION_KEY = ''git_isolation''"

definition CLEANUP_PENDING :: string where "CLEANUP_PENDING = ''CLEANUP_PENDING''"
definition CLEANUP_REVIEW :: string where "CLEANUP_REVIEW = ''CLEANUP_REVIEW''"
definition CLEANUP_ELIGIBLE :: string where "CLEANUP_ELIGIBLE = ''CLEANUP_ELIGIBLE''"
definition CLEANUP_DONE :: string where "CLEANUP_DONE = ''CLEANUP_DONE''"

definition CANCELLABLE_STATES :: "json list" where
  "CANCELLABLE_STATES = [JStr CLEANUP_PENDING, JStr CLEANUP_REVIEW, JStr CLEANUP_ELIGIBLE]"

definition EVENT_MARKED :: string where "EVENT_MARKED = ''WORKTREE_CLEANUP_PENDING''"
definition EVENT_CLEARED :: string where "EVENT_CLEARED = ''WORKTREE_CLEANUP_CLEARED''"

lemmas cleanup_constants =
  METADATA_KEY_def ISOLATION_KEY_def CLEANUP_PENDING_def CLEANUP_REVIEW_def
  CLEANUP_ELIGIBLE_def CLEANUP_DONE_def CANCELLABLE_STATES_def EVENT_MARKED_def
  EVENT_CLEARED_def

datatype cleanup_action = Mark | Clear | NoAction

record decision =
  dec_action :: cleanup_action
  dec_state :: json
  dec_reason :: string
  dec_event_type :: "string option"

definition NONE :: decision where
  "NONE = \<lparr>dec_action = NoAction, dec_state = JNull, dec_reason = [], dec_event_type = None\<rparr>"

definition changes_record :: "decision \<Rightarrow> bool" where
  "changes_record d \<longleftrightarrow> dec_action d = Mark \<or> dec_action d = Clear"

definition cleanup_state :: "dict \<Rightarrow> json" where
  \<comment> \<open>\<open>existing.get("state")\<close> when the record is a mapping, else None\<close>
  "cleanup_state metadata =
     (case as_dict (dget metadata METADATA_KEY) of
        None \<Rightarrow> JNull | Some record \<Rightarrow> dget record ''state'')"

definition is_removed :: "dict \<Rightarrow> bool" where
  "is_removed metadata \<longleftrightarrow> cleanup_state metadata = JStr CLEANUP_DONE"

definition has_isolated_worktree :: "dict \<Rightarrow> bool" where
  "has_isolated_worktree metadata \<longleftrightarrow>
     (case as_dict (dget metadata ISOLATION_KEY) of
        None \<Rightarrow> False | Some isolation \<Rightarrow> truthy (dget isolation ''worktree_path''))"

definition is_terminal :: "status \<Rightarrow> int \<Rightarrow> int \<Rightarrow> status list \<Rightarrow> bool" where
  "is_terminal to_status attempt_count max_attempts terminal_statuses \<longleftrightarrow>
     (if to_status \<in> set terminal_statuses then True
      else if to_status = FAILED then attempt_count \<ge> max_attempts
      else False)"

definition decide :: "status \<Rightarrow> status \<Rightarrow> dict \<Rightarrow> int \<Rightarrow> int \<Rightarrow> status list \<Rightarrow> decision" where
  "decide from_status to_status metadata attempt_count max_attempts terminal_statuses =
     (let existing_state = cleanup_state metadata;
          edge = status_name from_status @ '' -> '' @ status_name to_status
      in if is_terminal to_status attempt_count max_attempts terminal_statuses then
           (if \<not> has_isolated_worktree metadata then NONE
            else if existing_state \<noteq> JNull then
              \<lparr>dec_action = NoAction, dec_state = existing_state,
               dec_reason = ''already recorded as '' @ json_str existing_state,
               dec_event_type = None\<rparr>
            else
              \<lparr>dec_action = Mark, dec_state = JStr CLEANUP_PENDING,
               dec_reason = edge @ '' is terminal'' @
                 (if to_status \<in> set terminal_statuses then []
                  else '' (retry budget spent: '' @ int_str attempt_count @ ''/''
                       @ int_str max_attempts @ '')''),
               dec_event_type = Some EVENT_MARKED\<rparr>)
         else if existing_state \<in> set CANCELLABLE_STATES then
           \<lparr>dec_action = Clear, dec_state = JNull,
            dec_reason = ''reopened: '' @ edge @ '' while cleanup was '' @ json_str existing_state,
            dec_event_type = Some EVENT_CLEARED\<rparr>
         else if existing_state = JStr CLEANUP_DONE then
           \<lparr>dec_action = NoAction, dec_state = JStr CLEANUP_DONE,
            dec_reason = ''worktree already removed; record kept so the ''
                         @ ''dispatch gate can refuse with WORKTREE_REMOVED'',
            dec_event_type = None\<rparr>
         else NONE)"

definition apply_decision :: "dict \<Rightarrow> decision \<Rightarrow> timestamp \<Rightarrow> dict" where
  \<comment> \<open>\<open>apply\<close>\<close>
  "apply_decision metadata d now =
     (case dec_action d of
        Mark \<Rightarrow> dset metadata METADATA_KEY (JObj
          [(''state'', dec_state d), (''classified_at'', JNull), (''eligible_at'', JNull),
           (''policy'', JNull), (''reasons'', JArr [JStr (dec_reason d)]),
           (''predicates'', JObj []), (''attempts'', JInt 0), (''last_error'', JNull),
           (''removed_at'', JNull), (''reclaimed_bytes'', JNull), (''evidence'', JObj []),
           (''marked_at'', JInt now)])
      | Clear \<Rightarrow> dpop metadata METADATA_KEY
      | NoAction \<Rightarrow> metadata)"

section \<open>Lemmas\<close>

lemma decide_mark_iff:
  "dec_action (decide f t m a mx ts) = Mark \<longleftrightarrow>
     is_terminal t a mx ts \<and> has_isolated_worktree m \<and> cleanup_state m = JNull"
  by (auto simp: decide_def NONE_def Let_def)

lemma decide_clear_iff:
  "dec_action (decide f t m a mx ts) = Clear \<longleftrightarrow>
     \<not> is_terminal t a mx ts \<and> cleanup_state m \<in> set CANCELLABLE_STATES"
  by (auto simp: decide_def NONE_def Let_def)

lemma apply_decision_other:
  "k \<noteq> METADATA_KEY \<Longrightarrow> dget (apply_decision m d now) k = dget m k"
  by (cases "dec_action d") (simp_all add: apply_decision_def)

lemma apply_mark_state:
  "dec_action d = Mark \<Longrightarrow> dec_state d = JStr CLEANUP_PENDING \<Longrightarrow>
     cleanup_state (apply_decision m d now) = JStr CLEANUP_PENDING"
  by (simp add: apply_decision_def cleanup_state_def)

lemma apply_clear_state:
  "dec_action d = Clear \<Longrightarrow> cleanup_state (apply_decision m d now) = JNull"
  by (simp add: apply_decision_def cleanup_state_def)

lemma not_changes_iff: "\<not> changes_record d \<longleftrightarrow> dec_action d = NoAction"
  by (cases "dec_action d") (simp_all add: changes_record_def)

lemma has_isolated_worktree_apply:
  "has_isolated_worktree (apply_decision m d now) = has_isolated_worktree m"
  by (simp add: has_isolated_worktree_def apply_decision_other ISOLATION_KEY_def METADATA_KEY_def)

text \<open>The record after one decision, by cases on what the transition means.\<close>

lemma cleanup_after_decision:
  fixes f t :: status and m :: dict and a mx now :: int and ts :: "status list"
  defines "m' \<equiv> apply_decision m (decide f t m a mx ts) now"
  shows "cleanup_state m' =
    (if is_terminal t a mx ts \<and> has_isolated_worktree m \<and> cleanup_state m = JNull
       then JStr CLEANUP_PENDING
     else if \<not> is_terminal t a mx ts \<and> cleanup_state m \<in> set CANCELLABLE_STATES then JNull
     else cleanup_state m)"
proof -
  let ?d = "decide f t m a mx ts"
  have st: "dec_state ?d = JStr CLEANUP_PENDING" if "dec_action ?d = Mark"
    using that by (auto simp: decide_def NONE_def Let_def split: if_splits)
  show ?thesis
  proof (cases "dec_action ?d")
    case Mark
    then show ?thesis
      using apply_mark_state [OF Mark st [OF Mark]] decide_mark_iff [of f t m a mx ts]
      by (simp add: m'_def)
  next
    case Clear
    then show ?thesis
      using apply_clear_state [OF Clear] decide_clear_iff [of f t m a mx ts]
      by (auto simp: m'_def)
  next
    case NoAction
    then show ?thesis
      using decide_mark_iff [of f t m a mx ts] decide_clear_iff [of f t m a mx ts]
      by (auto simp: m'_def apply_decision_def)
  qed
qed

end
