(* ===== verification/QueueModel.thy ===== *)
theory QueueModel
  imports WorktreeCleanup
begin

text \<open>
  The durable state of \<open>QueueStore\<close> (\<open>terminal_mcp/queue_store.py\<close>): the rows of
  its tables, the store that holds them, the transaction wrapper every operation runs in,
  and the two primitives everything else is made of: one appended event and one updated
  row. JSON columns are held decoded (\<open>json.loads (json.dumps x) = x\<close>), time stamps
  as epoch seconds, and rows in insertion order.
\<close>

section \<open>Rows\<close>

record task =
  t_id :: string
  t_session :: string
  t_position :: int
  t_title :: string
  t_prompt :: string
  t_status :: status
  t_created_at :: timestamp
  t_started_at :: "timestamp option"
  t_completed_at :: "timestamp option"
  t_attempt_count :: int
  t_max_attempts :: int
  t_completion_policy :: dict
  t_last_error :: "string option"
  t_correlation_id :: "string option"
  t_metadata :: dict
  t_updated_at :: timestamp
  t_paused_from_status :: "status option"
  t_priority :: int
  t_depends_on :: "string list"
  t_node_id :: "string option"
  t_claimed_by :: "string option"
  t_claim_token :: "string option"
  t_lease_expires_at :: "timestamp option"
  t_coordinator_decision :: dict
  t_coordinator_reason :: "string option"
  t_coordinator_checked_at :: "timestamp option"
  t_coordinator_attempts :: int
  t_verification_evidence :: dict
  t_verification_nonce :: "string option"
  t_dispatch_idempotency_key :: "string option"
  t_uncertain_or_waiting_since :: "timestamp option"
  t_inactive_observed_at :: "timestamp option"
  t_inactive_signature :: "string option"
  t_original_owner :: "string option"
  t_migration_history :: "dict list"
  t_at_risk :: bool
  t_project_id :: "string option"
  t_outcome_id :: "string option"
  t_request_key :: "string option"
  t_requirement_contract :: dict
  t_evidence_matrix :: dict
  t_deploy_state :: "string option"
  t_execution_session :: "string option"
  t_execution_node_id :: "string option"
  t_routing_state :: "routing option"
  t_routing_evidence :: dict
  t_agent_id :: "string option"
  t_skill_ids :: "string list"
  t_analysis :: dict

record lane =
  l_session :: string
  l_paused :: bool
  l_paused_reason :: "string option"
  l_paused_origin :: "string option"
  l_auto_dispatch_enabled :: bool
  l_project :: "string option"
  l_last_rebalance_at :: "timestamp option"
  l_created_at :: timestamp
  l_updated_at :: timestamp

record event =
  e_id :: nat
  e_timestamp :: timestamp
  e_session :: string
  e_task_id :: "string option"
  e_event_type :: string
  e_from_status :: "string option"
  e_to_status :: "string option"
  e_reason :: "string option"
  e_metadata :: dict

record sink_entry =
  \<comment> \<open>what \<open>_record_event_locked\<close> hands to the event sink\<close>
  k_queue_event_id :: nat
  k_session :: string
  k_task_id :: "string option"
  k_event_type :: string
  k_from_status :: "string option"
  k_to_status :: "string option"
  k_reason :: "string option"
  k_project_id :: "string option"
  k_outcome_id :: "string option"

datatype verify_status =
  VERIFY_PENDING | VERIFY_CLAIMED | VERIFY_RUNNING | VERIFIED_PASS | VERIFIED_FAIL
| NEEDS_REWORK | VERIFY_BLOCKED | VERIFY_CANCELLED

record verify_job =
  v_id :: string
  v_task_id :: string
  v_attempt :: int
  v_session :: string
  v_status :: verify_status
  v_created_at :: timestamp
  v_updated_at :: timestamp
  v_project_id :: "string option"
  v_backlog_id :: "string option"
  v_required_capabilities :: "string list"
  v_require_independent :: bool
  v_fallback :: string
  v_implementer :: "string option"
  v_branch :: "string option"
  v_commit_sha :: "string option"
  v_verifier :: "string option"
  v_verifier_node_id :: "string option"
  v_claim_token :: "string option"
  v_lease_expires_at :: "timestamp option"
  v_claim_count :: int
  v_evidence :: dict
  v_failure_summary :: dict
  v_block_reason :: "string option"
  v_history :: "dict list"
  v_claimed_at :: "timestamp option"
  v_completed_at :: "timestamp option"

record harness_row =
  \<comment> \<open>the columns of \<open>harness_runs\<close> the queue itself reads\<close>
  h_id :: string
  h_task_id :: string
  h_active :: bool
  h_stage :: string
  h_mode :: string
  h_write_authority :: string
  h_current_iteration :: int
  h_created_at :: timestamp

record store =
  s_tasks :: "task list"
  s_lanes :: "lane list"
  s_events :: "event list"
  s_verify_jobs :: "verify_job list"
  s_harness_runs :: "harness_row list"
  s_event_sink :: bool
  s_pending :: "sink_entry list"
  s_published :: "sink_entry list"

definition empty_store :: "bool \<Rightarrow> store" where
  "empty_store sink = \<lparr>s_tasks = [], s_lanes = [], s_events = [], s_verify_jobs = [],
     s_harness_runs = [], s_event_sink = sink, s_pending = [], s_published = []\<rparr>"

datatype queue_error =
  InvalidTransitionError string
| KeyError string
| ValueError string
| TypeError
| IntegrityError
| DependencyError string
| TaskAlreadyClaimedError string
| CompletionEvidenceError string
| RequirementsNotCoveredError string
| HarnessRunOwnsTask string
| HarnessRunNotMerged string
| ContractRefused string
| PyError py_error
| InvalidVerifyTransition string

type_synonym 'a txn = "queue_error + ('a \<times> store)"

section \<open>A newly enqueued row\<close>

record task_spec =
  \<comment> \<open>one entry of the \<open>tasks\<close> argument of \<open>set_tasks\<close>; a missing key reads as None\<close>
  p_id :: "string option"
  p_title :: "string option"
  p_prompt :: "string option"
  p_max_attempts :: "int option"
  p_completion_policy :: dict
  p_metadata :: json
  p_priority :: "int option"
  p_depends_on :: "string list"
  p_project_id :: "string option"
  p_request_key :: "string option"
  p_analysis :: dict

definition INTERNAL_TASK_METADATA_KEYS :: "string list" where
  "INTERNAL_TASK_METADATA_KEYS =
     [''execution_evidence'', ''dispatch_observation'', ''dispatch_reconciliation'']"

definition external_task_metadata :: "json \<Rightarrow> dict" where
  "external_task_metadata raw = fold (\<lambda>k d. dpop d k) INTERNAL_TASK_METADATA_KEYS (dict_or_empty raw)"

definition int_or :: "int option \<Rightarrow> int \<Rightarrow> int" where
  \<comment> \<open>\<open>int(v or default)\<close>\<close>
  "int_or v d = (case v of None \<Rightarrow> d | Some n \<Rightarrow> if n = 0 then d else n)"

definition inserted_row :: "timestamp \<Rightarrow> string \<Rightarrow> int \<Rightarrow> string \<Rightarrow> string \<Rightarrow> task_spec \<Rightarrow> task" where
  \<comment> \<open>the row \<open>INSERT INTO queue_tasks\<close> creates, columns not listed at their defaults\<close>
  "inserted_row now sess pos tid prompt sp = \<lparr>
     t_id = tid, t_session = sess, t_position = pos, t_title = str_or (p_title sp) [],
     t_prompt = prompt, t_status = QUEUED, t_created_at = now, t_started_at = None,
     t_completed_at = None, t_attempt_count = 0, t_max_attempts = int_or (p_max_attempts sp) 3,
     t_completion_policy = p_completion_policy sp, t_last_error = None, t_correlation_id = None,
     t_metadata = external_task_metadata (p_metadata sp), t_updated_at = now,
     t_paused_from_status = None, t_priority = int_or (p_priority sp) 0,
     t_depends_on = p_depends_on sp, t_node_id = None, t_claimed_by = None, t_claim_token = None,
     t_lease_expires_at = None, t_coordinator_decision = [], t_coordinator_reason = None,
     t_coordinator_checked_at = None, t_coordinator_attempts = 0, t_verification_evidence = [],
     t_verification_nonce = None, t_dispatch_idempotency_key = None,
     t_uncertain_or_waiting_since = None, t_inactive_observed_at = None,
     t_inactive_signature = None, t_original_owner = Some sess, t_migration_history = [],
     t_at_risk = False, t_project_id = p_project_id sp, t_outcome_id = None,
     t_request_key = Option.bind (p_request_key sp) or_none, t_requirement_contract = [],
     t_evidence_matrix = [], t_deploy_state = None, t_execution_session = None,
     t_execution_node_id = None, t_routing_state = None, t_routing_evidence = [],
     t_agent_id = None, t_skill_ids = [], t_analysis = p_analysis sp\<rparr>"

definition plain_spec :: task_spec where
  \<comment> \<open>a specification naming only a prompt\<close>
  "plain_spec = \<lparr>p_id = None, p_title = None, p_prompt = Some ''do it'', p_max_attempts = None,
     p_completion_policy = [], p_metadata = JNull, p_priority = None, p_depends_on = [],
     p_project_id = None, p_request_key = None, p_analysis = []\<rparr>"

section \<open>Reading rows\<close>

definition find_task :: "store \<Rightarrow> string \<Rightarrow> task option" where
  \<comment> \<open>\<open>SELECT * FROM queue_tasks WHERE id = ?\<close>\<close>
  "find_task s tid = List.find (\<lambda>t. t_id t = tid) (s_tasks s)"

definition find_lane :: "store \<Rightarrow> string \<Rightarrow> lane option" where
  "find_lane s sess = List.find (\<lambda>l. l_session l = sess) (s_lanes s)"

definition get_task :: "store \<Rightarrow> string \<Rightarrow> task option" where
  "get_task s tid = find_task s tid"

section \<open>Transactions and the event sink\<close>

definition queue_event :: "sink_entry \<Rightarrow> store \<Rightarrow> store" where
  "queue_event entry s =
     (if \<not> s_event_sink s then s else s\<lparr>s_pending := s_pending s @ [entry]\<rparr>)"

definition drain_events :: "store \<Rightarrow> store" where
  \<comment> \<open>a sink that raises is swallowed, so every pending entry is handed over once\<close>
  "drain_events s =
     (if \<not> s_event_sink s then s
      else s\<lparr>s_published := s_published s @ s_pending s, s_pending := []\<rparr>)"

definition discard_events :: "store \<Rightarrow> store" where
  "discard_events s = s\<lparr>s_pending := []\<rparr>"

definition with_connection ::
  "(store \<Rightarrow> 'a txn) \<Rightarrow> store \<Rightarrow> (queue_error + 'a) \<times> store" where
  \<comment> \<open>\<open>with self._connection() as connection\<close>: commit and publish, or roll back and forget\<close>
  "with_connection body s =
     (case body s of
        Inl e \<Rightarrow> (Inl e, discard_events s)
      | Inr (a, s') \<Rightarrow> (Inr a, drain_events s'))"

section \<open>The primitive writes\<close>

definition record_event_locked ::
  "timestamp \<Rightarrow> string \<Rightarrow> string option \<Rightarrow> string \<Rightarrow> string option \<Rightarrow> string option
   \<Rightarrow> string option \<Rightarrow> dict \<Rightarrow> store \<Rightarrow> store" where
  "record_event_locked now sess tid event_type reason from_status to_status metadata s =
     (let eid = Suc (length (s_events s));
          s' = s\<lparr>s_events := s_events s @
            [\<lparr>e_id = eid, e_timestamp = now, e_session = sess, e_task_id = tid,
              e_event_type = event_type, e_from_status = from_status,
              e_to_status = to_status, e_reason = reason, e_metadata = metadata\<rparr>]\<rparr>;
          row = (if nonempty tid then find_task s (the tid) else None)
      in queue_event
           \<lparr>k_queue_event_id = eid, k_session = sess, k_task_id = tid,
            k_event_type = event_type, k_from_status = from_status,
            k_to_status = to_status, k_reason = reason,
            k_project_id = Option.bind row t_project_id,
            k_outcome_id = Option.bind row t_outcome_id\<rparr> s')"

abbreviation log_event :: "timestamp \<Rightarrow> string \<Rightarrow> string option \<Rightarrow> string \<Rightarrow> string option \<Rightarrow> store \<Rightarrow> store" where
  \<comment> \<open>an event that is not a status change and carries no metadata\<close>
  "log_event now sess tid event_type reason \<equiv>
     record_event_locked now sess tid event_type reason None None []"

definition update_task :: "string \<Rightarrow> (task \<Rightarrow> task) \<Rightarrow> store \<Rightarrow> store" where
  \<comment> \<open>\<open>UPDATE queue_tasks SET ... WHERE id = ?\<close>\<close>
  "update_task tid f s = s\<lparr>s_tasks := update_where (\<lambda>t. t_id t = tid) f (s_tasks s)\<rparr>"

definition update_lane :: "string \<Rightarrow> (lane \<Rightarrow> lane) \<Rightarrow> store \<Rightarrow> store" where
  "update_lane sess f s = s\<lparr>s_lanes := update_where (\<lambda>l. l_session l = sess) f (s_lanes s)\<rparr>"

definition ensure_lane :: "timestamp \<Rightarrow> string \<Rightarrow> store \<Rightarrow> store" where
  \<comment> \<open>\<open>INSERT OR IGNORE INTO queue_lanes\<close>\<close>
  "ensure_lane now sess s =
     (if find_lane s sess \<noteq> None then s
      else s\<lparr>s_lanes := s_lanes s @
        [\<lparr>l_session = sess, l_paused = False, l_paused_reason = None, l_paused_origin = None,
          l_auto_dispatch_enabled = False, l_project = None, l_last_rebalance_at = None,
          l_created_at = now, l_updated_at = now\<rparr>]\<rparr>)"

definition rename_rows :: "timestamp \<Rightarrow> string \<Rightarrow> string \<Rightarrow> store \<Rightarrow> store" where
  \<comment> \<open>the four \<open>UPDATE\<close>s of \<open>rename_session\<close>: lanes, tasks, original owners, events\<close>
  "rename_rows now old new s = s\<lparr>
     s_lanes := update_where (\<lambda>l. l_session l = old)
                  (\<lambda>l. l\<lparr>l_session := new, l_updated_at := now\<rparr>) (s_lanes s),
     s_tasks := update_where (\<lambda>t. t_original_owner t = Some old)
                  (\<lambda>t. t\<lparr>t_original_owner := Some new\<rparr>)
                  (update_where (\<lambda>t. t_session t = old)
                     (\<lambda>t. t\<lparr>t_session := new, t_updated_at := now\<rparr>) (s_tasks s)),
     s_events := update_where (\<lambda>e. e_session e = old) (\<lambda>e. e\<lparr>e_session := new\<rparr>) (s_events s)\<rparr>"

definition bind_row ::
  "timestamp \<Rightarrow> string \<Rightarrow> string option \<Rightarrow> routing \<Rightarrow> dict \<Rightarrow> task \<Rightarrow> task" where
  \<comment> \<open>the \<open>UPDATE\<close> with which \<open>bind_task_to_session\<close> claims a runtime\<close>
  "bind_row now sess node state evidence t = t\<lparr>t_execution_session := Some sess,
     t_execution_node_id := node, t_routing_state := Some state, t_routing_evidence := evidence,
     t_node_id := (case node of None \<Rightarrow> t_node_id t | Some n \<Rightarrow> Some n), t_updated_at := now\<rparr>"

definition holds_runtime :: "string \<Rightarrow> task \<Rightarrow> bool" where
  \<comment> \<open>an unfinished task that claims \<open>sess\<close> as its runtime\<close>
  "holds_runtime sess t \<longleftrightarrow> t_execution_session t = Some sess
     \<and> t_routing_state t \<in> set ROUTING_BOUND_STATES \<and> t_status t \<notin> set TERMINAL_STATUSES"

definition insert_task :: "task \<Rightarrow> store \<Rightarrow> queue_error + store" where
  \<comment> \<open>\<open>INSERT INTO queue_tasks\<close>: the primary key and the partial unique index on the
     request key refuse a duplicate\<close>
  "insert_task t s =
     (if find_task s (t_id t) \<noteq> None
         \<or> (t_request_key t \<noteq> None \<and> (\<exists>u\<in>set (s_tasks s). t_request_key u = t_request_key t))
      then Inl IntegrityError
      else Inr (s\<lparr>s_tasks := s_tasks s @ [t]\<rparr>))"

definition record_event ::
  "timestamp \<Rightarrow> string \<Rightarrow> string option \<Rightarrow> string \<Rightarrow> string option \<Rightarrow> dict
   \<Rightarrow> store \<Rightarrow> (queue_error + unit) \<times> store" where
  "record_event now sess tid event_type reason metadata s =
     with_connection
       (\<lambda>s. Inr ((), record_event_locked now sess tid event_type reason None None metadata s)) s"

definition list_events :: "store \<Rightarrow> string \<Rightarrow> nat \<Rightarrow> event list" where
  \<comment> \<open>newest first, at most \<open>limit\<close>\<close>
  "list_events s sess limit =
     take limit (rev (filter (\<lambda>e. e_session e = sess) (s_events s)))"

definition max_position :: "store \<Rightarrow> string \<Rightarrow> int" where
  \<comment> \<open>\<open>SELECT COALESCE(MAX(position), -1) ... WHERE session = ?\<close>\<close>
  "max_position s sess =
     (case map t_position (filter (\<lambda>t. t_session t = sess) (s_tasks s)) of
        [] \<Rightarrow> -1 | p # ps \<Rightarrow> fold max ps p)"

section \<open>What the primitives change\<close>

lemma external_metadata_no_evidence:
  "dget (external_task_metadata raw) ''execution_evidence'' = JNull"
  by (simp add: external_task_metadata_def INTERNAL_TASK_METADATA_KEYS_def)

lemma fold_max_ge: "(x :: int) \<in> insert p (set ps) \<Longrightarrow> x \<le> fold max ps p"
  using Max_ge [of "set (p # ps)" x] by (simp only: Max.set_eq_fold [symmetric]) simp

lemma max_position_ge: "t \<in> set (s_tasks s) \<Longrightarrow> t_session t = sess \<Longrightarrow> t_position t \<le> max_position s sess"
proof -
  assume "t \<in> set (s_tasks s)" "t_session t = sess"
  then have "t_position t \<in> set (map t_position (filter (\<lambda>t. t_session t = sess) (s_tasks s)))" by auto
  then show ?thesis
    unfolding max_position_def by (cases "map t_position (filter (\<lambda>t. t_session t = sess) (s_tasks s))")
      (auto intro: fold_max_ge)
qed

lemma find_task_Some_iff:
  "find_task s tid = Some t \<Longrightarrow> t \<in> set (s_tasks s) \<and> t_id t = tid"
  unfolding find_task_def by (drule find_Some_in_set) simp

lemma find_task_None_iff: "find_task s tid = None \<longleftrightarrow> (\<forall>t\<in>set (s_tasks s). t_id t \<noteq> tid)"
  by (auto simp: find_task_def find_None_iff)

lemma find_task_cong: "s_tasks s = s_tasks s' \<Longrightarrow> find_task s tid = find_task s' tid"
  by (simp add: find_task_def)

lemma find_lane_cong: "s_lanes s = s_lanes s' \<Longrightarrow> find_lane s x = find_lane s' x"
  by (simp add: find_lane_def)

lemma record_event_frame [simp, frame_simps]:
  "s_tasks (record_event_locked now sess tid ty r f t m s) = s_tasks s"
  "s_lanes (record_event_locked now sess tid ty r f t m s) = s_lanes s"
  "s_verify_jobs (record_event_locked now sess tid ty r f t m s) = s_verify_jobs s"
  "s_harness_runs (record_event_locked now sess tid ty r f t m s) = s_harness_runs s"
  "s_event_sink (record_event_locked now sess tid ty r f t m s) = s_event_sink s"
  "s_published (record_event_locked now sess tid ty r f t m s) = s_published s"
  by (simp_all add: record_event_locked_def queue_event_def Let_def)

lemma record_event_events [simp]:
  "s_events (record_event_locked now sess tid ty r f t m s) = s_events s @
     [\<lparr>e_id = Suc (length (s_events s)), e_timestamp = now, e_session = sess, e_task_id = tid,
       e_event_type = ty, e_from_status = f, e_to_status = t, e_reason = r, e_metadata = m\<rparr>]"
  by (simp add: record_event_locked_def queue_event_def Let_def)

lemma find_task_record_event [simp]:
  "find_task (record_event_locked now sess tid ty r f t m s) x = find_task s x"
  by (rule find_task_cong) simp

lemma find_lane_record_event [simp]:
  "find_lane (record_event_locked now sess tid ty r f t m s) x = find_lane s x"
  by (rule find_lane_cong) simp

lemma update_task_frame [simp, frame_simps]:
  "s_lanes (update_task tid f s) = s_lanes s"
  "s_events (update_task tid f s) = s_events s"
  "s_verify_jobs (update_task tid f s) = s_verify_jobs s"
  "s_harness_runs (update_task tid f s) = s_harness_runs s"
  "s_event_sink (update_task tid f s) = s_event_sink s"
  "s_pending (update_task tid f s) = s_pending s"
  "s_published (update_task tid f s) = s_published s"
  by (simp_all add: update_task_def)

lemma update_lane_frame [simp, frame_simps]:
  "s_tasks (update_lane x f s) = s_tasks s"
  "s_events (update_lane x f s) = s_events s"
  "s_verify_jobs (update_lane x f s) = s_verify_jobs s"
  "s_harness_runs (update_lane x f s) = s_harness_runs s"
  "s_event_sink (update_lane x f s) = s_event_sink s"
  "s_pending (update_lane x f s) = s_pending s"
  "s_published (update_lane x f s) = s_published s"
  by (simp_all add: update_lane_def)

lemma ensure_lane_frame [simp, frame_simps]:
  "s_tasks (ensure_lane now x s) = s_tasks s"
  "s_events (ensure_lane now x s) = s_events s"
  "s_verify_jobs (ensure_lane now x s) = s_verify_jobs s"
  "s_harness_runs (ensure_lane now x s) = s_harness_runs s"
  "s_event_sink (ensure_lane now x s) = s_event_sink s"
  "s_pending (ensure_lane now x s) = s_pending s"
  "s_published (ensure_lane now x s) = s_published s"
  by (simp_all add: ensure_lane_def)

lemma drain_frame [simp, frame_simps]:
  "s_tasks (drain_events s) = s_tasks s"
  "s_lanes (drain_events s) = s_lanes s"
  "s_events (drain_events s) = s_events s"
  "s_verify_jobs (drain_events s) = s_verify_jobs s"
  "s_harness_runs (drain_events s) = s_harness_runs s"
  "s_event_sink (drain_events s) = s_event_sink s"
  by (simp_all add: drain_events_def)

lemma discard_frame [simp, frame_simps]:
  "s_tasks (discard_events s) = s_tasks s"
  "s_lanes (discard_events s) = s_lanes s"
  "s_events (discard_events s) = s_events s"
  "s_verify_jobs (discard_events s) = s_verify_jobs s"
  "s_harness_runs (discard_events s) = s_harness_runs s"
  "s_event_sink (discard_events s) = s_event_sink s"
  "s_published (discard_events s) = s_published s"
  by (simp_all add: discard_events_def)

lemma find_task_frames [simp]:
  "find_task (ensure_lane now x s) tid = find_task s tid"
  "find_task (update_lane x f s) tid = find_task s tid"
  "find_task (drain_events s) tid = find_task s tid"
  "find_task (discard_events s) tid = find_task s tid"
  by (rule find_task_cong, simp)+

lemma find_lane_frames [simp]:
  "find_lane (update_task tid g s) a = find_lane s a"
  "find_lane (drain_events s) a = find_lane s a"
  "find_lane (discard_events s) a = find_lane s a"
  by (rule find_lane_cong, simp)+

lemma find_update_where:
  "(\<And>x. k (f x) = k x) \<Longrightarrow>
     List.find (\<lambda>x. k x = a) (update_where (\<lambda>x. k x = b) f xs) =
       map_option (\<lambda>x. if a = b then f x else x) (List.find (\<lambda>x. k x = a) xs)"
  by (induction xs) auto

lemma find_task_update_task:
  "(\<And>t. t_id (f t) = t_id t) \<Longrightarrow>
     find_task (update_task tid f s) x = map_option (\<lambda>t. if x = tid then f t else t) (find_task s x)"
  by (simp add: find_task_def update_task_def find_update_where)

lemma find_lane_update_lane:
  "(\<And>l. l_session (f l) = l_session l) \<Longrightarrow>
     find_lane (update_lane a f s) x = map_option (\<lambda>l. if x = a then f l else l) (find_lane s x)"
  by (simp add: find_lane_def update_lane_def find_update_where)

lemma find_append: "List.find p (xs @ ys) = (case List.find p xs of None \<Rightarrow> List.find p ys | Some x \<Rightarrow> Some x)"
  by (induction xs) simp_all

lemma find_lane_ensure: "find_lane (ensure_lane now a s) a \<noteq> None"
  by (cases "find_lane s a") (simp_all add: ensure_lane_def find_lane_def find_append)

lemma with_connection_error: "body s = Inl e \<Longrightarrow> with_connection body s = (Inl e, discard_events s)"
  by (simp add: with_connection_def)

lemma with_connection_ok:
  "body s = Inr (a, s') \<Longrightarrow> with_connection body s = (Inr a, drain_events s')"
  by (simp add: with_connection_def)

lemma with_connection_cases:
  assumes "with_connection body s = (r, t)"
  obtains (raised) e where "body s = Inl e" "r = Inl e" "t = discard_events s"
    | (committed) a s' where "body s = Inr (a, s')" "r = Inr a" "t = drain_events s'"
  using assms by (auto simp: with_connection_def split: sum.splits)

section \<open>Sample rows\<close>

text \<open>Small concrete stores, on which the witnesses evaluate the operations.\<close>

definition sample_task :: "string \<Rightarrow> string \<Rightarrow> int \<Rightarrow> status \<Rightarrow> task" where
  "sample_task tid sess pos st = (inserted_row 0 sess pos tid ''do it'' plain_spec)\<lparr>t_status := st\<rparr>"

definition started_evidence :: dict where
  "started_evidence = [(''execution_evidence'',
     JObj [(''accepted'', JBool True), (''signal'', JStr ''process_started'')])]"

definition sample_started :: "string \<Rightarrow> string \<Rightarrow> int \<Rightarrow> status \<Rightarrow> task" where
  "sample_started tid sess pos st = (sample_task tid sess pos st)\<lparr>t_metadata := started_evidence\<rparr>"

definition sample_store :: "task list \<Rightarrow> store" where
  "sample_store ts = (empty_store True)\<lparr>s_tasks := ts\<rparr>"

lemma sample_task_simps [simp]:
  "t_id (sample_task tid sess pos st) = tid"
  "t_session (sample_task tid sess pos st) = sess"
  "t_position (sample_task tid sess pos st) = pos"
  "t_status (sample_task tid sess pos st) = st"
  "t_attempt_count (sample_task tid sess pos st) = 0"
  "t_max_attempts (sample_task tid sess pos st) = 3"
  "t_metadata (sample_task tid sess pos st) = []"
  "t_request_key (sample_task tid sess pos st) = None"
  "t_execution_session (sample_task tid sess pos st) = None"
  "t_routing_state (sample_task tid sess pos st) = None"
  "t_claimed_by (sample_task tid sess pos st) = None"
  "t_claim_token (sample_task tid sess pos st) = None"
  "t_lease_expires_at (sample_task tid sess pos st) = None"
  "t_paused_from_status (sample_task tid sess pos st) = None"
  "t_started_at (sample_task tid sess pos st) = None"
  "t_depends_on (sample_task tid sess pos st) = []"
  "t_priority (sample_task tid sess pos st) = 0"
  by (simp_all add: sample_task_def inserted_row_def plain_spec_def external_task_metadata_def
      dict_or_empty_def INTERNAL_TASK_METADATA_KEYS_def dpop_def int_or_def)

lemma sample_started_simps [simp]:
  "t_id (sample_started tid sess pos st) = tid"
  "t_session (sample_started tid sess pos st) = sess"
  "t_position (sample_started tid sess pos st) = pos"
  "t_status (sample_started tid sess pos st) = st"
  "t_attempt_count (sample_started tid sess pos st) = 0"
  "t_metadata (sample_started tid sess pos st) = started_evidence"
  "t_request_key (sample_started tid sess pos st) = None"
  "t_claimed_by (sample_started tid sess pos st) = None"
  "t_claim_token (sample_started tid sess pos st) = None"
  "t_lease_expires_at (sample_started tid sess pos st) = None"
  "t_paused_from_status (sample_started tid sess pos st) = None"
  by (simp_all add: sample_started_def)

lemma sample_store_simps [simp]:
  "s_tasks (sample_store ts) = ts"
  "s_lanes (sample_store ts) = []"
  "s_events (sample_store ts) = []"
  "s_verify_jobs (sample_store ts) = []"
  "s_harness_runs (sample_store ts) = []"
  "s_event_sink (sample_store ts)"
  "s_pending (sample_store ts) = []"
  "s_published (sample_store ts) = []"
  "find_task (sample_store ts) x = List.find (\<lambda>t. t_id t = x) ts"
  "find_lane (sample_store ts) x = None"
  by (simp_all add: sample_store_def empty_store_def find_task_def find_lane_def)

end
