(* ===== verification/AiReview.thy ===== *)
theory AiReview
  imports QueueModel
begin

text \<open>
  Who owns stuck work (\<open>terminal_mcp/ai_review.py\<close>): the bounded backoff, the four
  escalation classes recognised from the coordinator's own recorded pattern or an explicit
  marker, the ownership of a task and of a paused lane, and the summary.
  Ages and delays are whole seconds.
\<close>

section \<open>Vocabulary\<close>

datatype owner = OWNER_AI | OWNER_USER

datatype bucket = BUCKET_AI_REVIEW | BUCKET_NEEDS_APPROVAL | BUCKET_PAUSED_BY_USER

datatype approval =
  APPROVAL_CREDENTIALS | APPROVAL_DESTRUCTIVE | APPROVAL_PROTECTED_DEPLOY | APPROVAL_BUSINESS_DECISION

datatype next_step =
  ACTION_REVERIFY | ACTION_RETRY | ACTION_RESUME_SESSION | ACTION_DIAGNOSE
| ACTION_RECONCILE_PAUSE | ACTION_AWAIT_APPROVAL | ACTION_AWAIT_USER_RESUME

definition approval_name :: "approval \<Rightarrow> string" where
  "approval_name a = (case a of
     APPROVAL_CREDENTIALS \<Rightarrow> ''credentials_or_secrets''
   | APPROVAL_DESTRUCTIVE \<Rightarrow> ''destructive_action''
   | APPROVAL_PROTECTED_DEPLOY \<Rightarrow> ''protected_deploy_or_merge''
   | APPROVAL_BUSINESS_DECISION \<Rightarrow> ''business_decision'')"

section \<open>Backoff\<close>

definition AI_BACKOFF_BASE_SECONDS :: int where "AI_BACKOFF_BASE_SECONDS = 30"
definition AI_BACKOFF_CAP_SECONDS :: int where "AI_BACKOFF_CAP_SECONDS = 900"
definition AI_MAX_AUTOMATIC_ATTEMPTS :: int where "AI_MAX_AUTOMATIC_ATTEMPTS = 6"

definition backoff_seconds :: "int \<Rightarrow> int" where
  "backoff_seconds attempts =
     (if attempts \<le> 0 then AI_BACKOFF_BASE_SECONDS
      else min AI_BACKOFF_CAP_SECONDS (AI_BACKOFF_BASE_SECONDS * 2 ^ nat (min attempts 16)))"

definition retries_exhausted :: "int \<Rightarrow> bool" where
  "retries_exhausted attempts \<longleftrightarrow> attempts \<ge> AI_MAX_AUTOMATIC_ATTEMPTS"

section \<open>Escalation\<close>

primrec contains :: "string \<Rightarrow> string \<Rightarrow> bool" where
  \<comment> \<open>\<open>needle in text\<close>\<close>
  "contains needle [] = (needle = [])"
| "contains needle (c # cs) = (startswith (c # cs) needle \<or> contains needle cs)"

definition backslash :: char where "backslash = char_of (92 :: nat)"
definition newline :: char where "newline = char_of (10 :: nat)"
definition QUOTES :: "char list" where "QUOTES = [char_of (39 :: nat), char_of (34 :: nat)]"

fun unescape :: "string \<Rightarrow> string" where
  \<comment> \<open>every doubled backslash becomes one, from the left\<close>
  "unescape (a # b # cs) =
     (if a = backslash \<and> b = backslash then backslash # unescape cs else a # unescape (b # cs))"
| "unescape cs = cs"

primrec lazy_until :: "char \<Rightarrow> string \<Rightarrow> string \<Rightarrow> string option" where
  \<comment> \<open>\<open>.+?\<close> up to the quote and a closing bracket; a dot matches anything but a newline\<close>
  "lazy_until q got [] = None"
| "lazy_until q got (c # cs) =
     (if got \<noteq> [] \<and> c = q \<and> startswith cs '')'' then Some (rev got)
      else if c = newline then None
      else lazy_until q (c # got) cs)"

definition PATTERN_PREFIX :: string where
  "PATTERN_PREFIX = ''sensitive/destructive pattern (''"

definition match_here :: "string \<Rightarrow> string option" where
  "match_here s =
     (if startswith s PATTERN_PREFIX
      then (case drop (length PATTERN_PREFIX) s of
              q # rest \<Rightarrow> if q \<in> set QUOTES then lazy_until q [] rest else None
            | [] \<Rightarrow> None)
      else None)"

primrec search :: "string \<Rightarrow> string option" where
  \<comment> \<open>the \<open>pattern\<close> group of \<open>_SENSITIVE_REASON.search\<close>\<close>
  "search [] = match_here []"
| "search (c # cs) = (case match_here (c # cs) of Some p \<Rightarrow> Some p | None \<Rightarrow> search cs)"

definition word_pattern :: "string \<Rightarrow> string" where
  \<comment> \<open>a word between two word-boundary marks\<close>
  "word_pattern w = [backslash] @ ''b'' @ w @ [backslash] @ ''b''"

definition PATTERN_APPROVAL_CLASS :: "(string \<times> approval) list" where
  "PATTERN_APPROVAL_CLASS =
     [(''enter (your |the )?password'', APPROVAL_CREDENTIALS),
      (''enter (?:your |the )?password'', APPROVAL_CREDENTIALS),
      (''exfiltrat'', APPROVAL_CREDENTIALS),
      (''pastebin'', APPROVAL_CREDENTIALS),
      (''api[_ -]?key'', APPROVAL_CREDENTIALS),
      (''credential'', APPROVAL_CREDENTIALS),
      (word_pattern ''secret'', APPROVAL_CREDENTIALS),
      (word_pattern ''token'', APPROVAL_CREDENTIALS),
      (''.env'', APPROVAL_CREDENTIALS),
      (''force[ -]push'', APPROVAL_DESTRUCTIVE),
      (word_pattern ''rm -rf'', APPROVAL_DESTRUCTIVE),
      (''[a-z]*r[a-z]*f'', APPROVAL_DESTRUCTIVE),
      (''drop (table|database)'', APPROVAL_DESTRUCTIVE),
      (''(?:table|database)'', APPROVAL_DESTRUCTIVE),
      (''truncate'', APPROVAL_DESTRUCTIVE),
      (''mkfs'', APPROVAL_DESTRUCTIVE),
      (''if='', APPROVAL_DESTRUCTIVE),
      (''777'', APPROVAL_DESTRUCTIVE),
      (word_pattern ''sudo'', APPROVAL_DESTRUCTIVE),
      (''sudo'', APPROVAL_DESTRUCTIVE),
      (''reset --hard'', APPROVAL_DESTRUCTIVE),
      (''--hard'', APPROVAL_DESTRUCTIVE),
      (word_pattern ''git clean'', APPROVAL_DESTRUCTIVE),
      (''clean'', APPROVAL_DESTRUCTIVE),
      (''merge (to |into )?main'', APPROVAL_PROTECTED_DEPLOY),
      (''push (to |origin )?main'', APPROVAL_PROTECTED_DEPLOY),
      (''(?:main|master)'', APPROVAL_PROTECTED_DEPLOY),
      (''(?:prod|production)'', APPROVAL_PROTECTED_DEPLOY),
      (''deploy'', APPROVAL_PROTECTED_DEPLOY)]"

definition approval_class_for_reason :: "string option \<Rightarrow> approval option" where
  "approval_class_for_reason reason =
     (if \<not> nonempty reason then None
      else case search (the reason) of
             None \<Rightarrow> None
           | Some pat \<Rightarrow> map_option snd (List.find
               (\<lambda>(needle, a). contains needle (unescape pat) \<or> contains needle pat)
               PATTERN_APPROVAL_CLASS))"

definition BUSINESS_DECISION_KEYS :: "string list" where
  "BUSINESS_DECISION_KEYS = [''needs_human_decision'', ''needs_business_decision'']"

definition names_decision :: "json \<Rightarrow> bool" where
  "names_decision b = (case b of
     JStr s \<Rightarrow> map lower_char (strip s) \<in> set BUSINESS_DECISION_KEYS | _ \<Rightarrow> False)"

definition source_asks :: "dict \<Rightarrow> bool" where
  "source_asks src \<longleftrightarrow>
     list_ex (\<lambda>k. truthy (dget src k)) BUSINESS_DECISION_KEYS
     \<or> (case as_list (dget src ''blockers'') of None \<Rightarrow> False | Some bs \<Rightarrow> list_ex names_decision bs)"

definition business_decision_requested :: "task \<Rightarrow> bool" where
  "business_decision_requested t \<longleftrightarrow>
     source_asks (t_metadata t) \<or> source_asks (t_coordinator_decision t)"

fun json_text :: "json \<Rightarrow> string option" where
  "json_text (JStr s) = Some s"
| "json_text _ = None"

definition approval_class_for_task :: "task \<Rightarrow> approval option" where
  "approval_class_for_task t =
     (if business_decision_requested t then Some APPROVAL_BUSINESS_DECISION
      else approval_class_for_reason
        (if nonempty (t_coordinator_reason t) then t_coordinator_reason t
         else json_text (dget (t_coordinator_decision t) ''reason'')))"

section \<open>Ownership\<close>

record attention =
  a_task_id :: "string option"
  a_session :: string
  a_status :: string
  a_owner :: owner
  a_bucket :: bucket
  a_diagnosis :: string
  a_next_action :: next_step
  a_attempts :: int
  a_age_seconds :: "int option"
  a_last_check :: "timestamp option"
  a_next_check_at :: "timestamp option"
  a_approval_class :: "approval option"
  a_retries_exhausted :: bool

definition last_check :: "task \<Rightarrow> timestamp" where
  "last_check t = (case t_coordinator_checked_at t of None \<Rightarrow> t_updated_at t | Some c \<Rightarrow> c)"

definition attempts_of :: "task \<Rightarrow> int" where
  "attempts_of t = max (t_attempt_count t) (t_coordinator_attempts t)"

definition attention_item ::
  "timestamp \<Rightarrow> task \<Rightarrow> owner \<Rightarrow> bucket \<Rightarrow> string \<Rightarrow> next_step \<Rightarrow> approval option \<Rightarrow> attention" where
  \<comment> \<open>the local function \<open>item\<close>\<close>
  "attention_item now t own buc diagnosis action approved =
     \<lparr>a_task_id = Some (t_id t), a_session = t_session t, a_status = status_name (t_status t),
      a_owner = own, a_bucket = buc, a_diagnosis = diagnosis, a_next_action = action,
      a_attempts = attempts_of t, a_age_seconds = Some (max 0 (now - t_updated_at t)),
      a_last_check = Some (last_check t),
      a_next_check_at = (if approved \<noteq> None \<or> buc \<noteq> BUCKET_AI_REVIEW then None
                         else Some (last_check t + backoff_seconds (attempts_of t))),
      a_approval_class = approved, a_retries_exhausted = retries_exhausted (attempts_of t)\<rparr>"

definition lane_pause_origin :: "lane option \<Rightarrow> string option" where
  "lane_pause_origin l = (case l of None \<Rightarrow> pause_origin None None
     | Some x \<Rightarrow> pause_origin (l_paused_origin x) (l_paused_reason x))"

definition classify_blocked :: "timestamp \<Rightarrow> task \<Rightarrow> attention" where
  \<comment> \<open>the tail of \<open>classify_task\<close>: escalate on one of the four classes, else the AI owns it\<close>
  "classify_blocked now t = (case approval_class_for_task t of
     Some a \<Rightarrow> attention_item now t OWNER_USER BUCKET_NEEDS_APPROVAL
       (''requires human authorization ('' @ approval_name a @ '')'') ACTION_AWAIT_APPROVAL (Some a)
   | None \<Rightarrow> attention_item now t OWNER_AI BUCKET_AI_REVIEW
       (take 400 (str_or (t_coordinator_reason t)
          (str_or (t_last_error t) ''blocked without a recorded reason'')))
       (if retries_exhausted (attempts_of t) then ACTION_DIAGNOSE else ACTION_RETRY) None)"

definition classify_task :: "timestamp \<Rightarrow> task \<Rightarrow> lane option \<Rightarrow> attention option" where
  "classify_task now t l =
     (let exhausted = retries_exhausted (attempts_of t); orig = lane_pause_origin l
      in if t_status t \<notin> {VERIFYING, WAITING_SESSION, DISPATCH_UNCERTAIN, BLOCKED, FAILED, PAUSED} then None
         else if t_status t = PAUSED \<and> orig = Some PAUSE_ORIGIN_COORDINATOR
         then Some (case approval_class_for_task t of
             Some a \<Rightarrow> attention_item now t OWNER_USER BUCKET_NEEDS_APPROVAL
               (''coordinator refused pending human approval ('' @ approval_name a @ '')'')
               ACTION_AWAIT_APPROVAL (Some a)
           | None \<Rightarrow> attention_item now t OWNER_AI BUCKET_AI_REVIEW
               ''lane paused by a coordinator guard; re-evaluate the refusal''
               (if exhausted then ACTION_DIAGNOSE else ACTION_RETRY) None)
         else if t_status t = PAUSED \<and> orig \<in> {Some PAUSE_ORIGIN_USER, Some PAUSE_ORIGIN_PROJECT, None}
         then Some (attention_item now t OWNER_USER BUCKET_PAUSED_BY_USER
               ''lane paused explicitly; only an operator resume lifts it'' ACTION_AWAIT_USER_RESUME None)
         else if t_status t = VERIFYING
         then Some (attention_item now t OWNER_AI BUCKET_AI_REVIEW
               ''awaiting verification evidence; no completion without evidence''
               (if exhausted then ACTION_DIAGNOSE else ACTION_REVERIFY) None)
         else if t_status t \<in> {WAITING_SESSION, DISPATCH_UNCERTAIN}
         then Some (attention_item now t OWNER_AI BUCKET_AI_REVIEW
               (if t_status t = WAITING_SESSION
                then ''session or node unreachable; awaiting recovery or reassignment''
                else ''delivery outcome unproven; re-checking for real activity'')
               (if exhausted then ACTION_DIAGNOSE else ACTION_RESUME_SESSION) None)
         else Some (classify_blocked now t))"

definition classify_lane_pause :: "lane \<Rightarrow> attention option" where
  "classify_lane_pause l =
     (let why = str_or (l_paused_reason l) ''no reason recorded'';
          mk = (\<lambda>own buc diagnosis action.
            \<lparr>a_task_id = None, a_session = l_session l, a_status = ''LANE_PAUSED'', a_owner = own,
             a_bucket = buc, a_diagnosis = take 400 diagnosis, a_next_action = action, a_attempts = 0,
             a_age_seconds = None, a_last_check = None, a_next_check_at = None,
             a_approval_class = None, a_retries_exhausted = False\<rparr>)
      in if \<not> l_paused l then None
         else if pause_origin (l_paused_origin l) (l_paused_reason l) = Some PAUSE_ORIGIN_COORDINATOR
         then Some (mk OWNER_AI BUCKET_AI_REVIEW (''coordinator lane pause: '' @ why) ACTION_RECONCILE_PAUSE)
         else Some (mk OWNER_USER BUCKET_PAUSED_BY_USER (''explicit pause: '' @ why) ACTION_AWAIT_USER_RESUME))"

section \<open>The summary\<close>

record review_summary =
  y_ai_owned :: nat
  y_needs_approval :: nat
  y_paused_by_user :: nat
  y_human_owned :: nat
  y_approvals :: "(approval \<times> nat) list"
  y_retries_exhausted :: nat
  y_oldest_age_seconds :: "int option"

definition count_of :: "('a \<Rightarrow> bool) \<Rightarrow> 'a list \<Rightarrow> nat" where
  "count_of p xs = length (filter p xs)"

primrec oldest_age :: "attention list \<Rightarrow> int option \<Rightarrow> int option" where
  "oldest_age [] old = old"
| "oldest_age (e # es) old = oldest_age es (case a_age_seconds e of
     None \<Rightarrow> old
   | Some a \<Rightarrow> Some (case old of None \<Rightarrow> a | Some x \<Rightarrow> max x a))"

definition summarize :: "attention list \<Rightarrow> review_summary" where
  "summarize items = \<lparr>
     y_ai_owned = count_of (\<lambda>e. a_bucket e = BUCKET_AI_REVIEW) items,
     y_needs_approval = count_of (\<lambda>e. a_bucket e = BUCKET_NEEDS_APPROVAL) items,
     y_paused_by_user = count_of (\<lambda>e. a_bucket e = BUCKET_PAUSED_BY_USER) items,
     y_human_owned = count_of (\<lambda>e. a_bucket e = BUCKET_NEEDS_APPROVAL) items
       + count_of (\<lambda>e. a_bucket e = BUCKET_PAUSED_BY_USER) items,
     y_approvals = map (\<lambda>a. (a, count_of (\<lambda>e. a_approval_class e = Some a) items))
       [APPROVAL_CREDENTIALS, APPROVAL_DESTRUCTIVE, APPROVAL_PROTECTED_DEPLOY, APPROVAL_BUSINESS_DECISION],
     y_retries_exhausted = count_of a_retries_exhausted items,
     y_oldest_age_seconds = oldest_age items None\<rparr>"

section \<open>Lemmas\<close>

lemma backoff_bounds: "30 \<le> backoff_seconds n" "backoff_seconds n \<le> 900"
proof -
  have p: "(1 :: int) \<le> 2 ^ nat (min n 16)" by simp
  show "30 \<le> backoff_seconds n"
    using p by (simp add: backoff_seconds_def AI_BACKOFF_BASE_SECONDS_def AI_BACKOFF_CAP_SECONDS_def)
  show "backoff_seconds n \<le> 900"
    by (simp add: backoff_seconds_def AI_BACKOFF_BASE_SECONDS_def AI_BACKOFF_CAP_SECONDS_def)
qed

lemma backoff_mono: "m \<le> n \<Longrightarrow> backoff_seconds m \<le> backoff_seconds n"
proof (cases "m \<le> 0")
  case True
  then show ?thesis using backoff_bounds(1) [of n]
    by (simp add: backoff_seconds_def [of m] AI_BACKOFF_BASE_SECONDS_def)
next
  case False
  assume "m \<le> n"
  then have "nat (min m 16) \<le> nat (min n 16)" by auto
  then have "(2 :: int) ^ nat (min m 16) \<le> 2 ^ nat (min n 16)" by (rule power_increasing) simp
  then have "min 900 (30 * 2 ^ nat (min m 16)) \<le> min 900 (30 * (2 :: int) ^ nat (min n 16))"
    by (intro min.mono) simp_all
  then show ?thesis
    using False \<open>m \<le> n\<close>
    by (simp only: backoff_seconds_def AI_BACKOFF_BASE_SECONDS_def AI_BACKOFF_CAP_SECONDS_def) simp
qed

text \<open>
  The retry backoff is bounded, 30 seconds to 15 minutes, never decreases with the
  attempts, and reaches its cap by the fifth attempt, before retries stop at the sixth.
\<close>

theorem backoff_seconds_bounded_monotone:
  "30 \<le> backoff_seconds n \<and> backoff_seconds n \<le> 900
   \<and> (m \<le> n \<longrightarrow> backoff_seconds m \<le> backoff_seconds n)
   \<and> (backoff_seconds n = 900 \<longleftrightarrow> 5 \<le> n) \<and> (retries_exhausted n \<longleftrightarrow> 6 \<le> n)"
proof -
  have five: "backoff_seconds 5 = 900" and four: "backoff_seconds 4 = 480" by code_simp+
  have "backoff_seconds n = 900 \<longleftrightarrow> 5 \<le> n"
  proof
    assume "5 \<le> n"
    then show "backoff_seconds n = 900" using backoff_mono [of 5 n] backoff_bounds(2) [of n] five by simp
  next
    assume "backoff_seconds n = 900"
    then show "5 \<le> n" using backoff_mono [of n 4] four by (cases "5 \<le> n") auto
  qed
  then show ?thesis using backoff_bounds backoff_mono by (simp add: retries_exhausted_def AI_MAX_AUTOMATIC_ATTEMPTS_def)
qed

text \<open>
  Every stuck task has exactly one owner and bucket. A human owns it only for one of
  the four escalation classes or because its lane was paused by a user, a project or
  someone unknown; in particular, running out of retries never moves it to a human.
\<close>

theorem classify_task_ownership:
  "case classify_task now t l of
     None \<Rightarrow> t_status t \<notin> {VERIFYING, WAITING_SESSION, DISPATCH_UNCERTAIN, BLOCKED, FAILED, PAUSED}
   | Some i \<Rightarrow> a_task_id i = Some (t_id t)
       \<and> (a_owner i = OWNER_USER \<longleftrightarrow> a_bucket i \<noteq> BUCKET_AI_REVIEW)
       \<and> (a_bucket i = BUCKET_PAUSED_BY_USER \<longleftrightarrow> t_status t = PAUSED \<and>
            lane_pause_origin l \<in> {Some PAUSE_ORIGIN_USER, Some PAUSE_ORIGIN_PROJECT, None})
       \<and> (a_bucket i = BUCKET_NEEDS_APPROVAL \<longleftrightarrow> a_approval_class i \<noteq> None)
       \<and> (a_bucket i = BUCKET_NEEDS_APPROVAL \<longrightarrow>
            a_approval_class i = approval_class_for_task t \<and> t_status t \<in> {PAUSED, BLOCKED, FAILED})
       \<and> (a_retries_exhausted i \<and> a_owner i = OWNER_AI \<longrightarrow> a_next_action i = ACTION_DIAGNOSE)"
  by (cases "t_status t")
     (auto simp: classify_task_def classify_blocked_def attention_item_def Let_def
        PAUSE_ORIGIN_COORDINATOR_def PAUSE_ORIGIN_USER_def PAUSE_ORIGIN_PROJECT_def split: option.splits)

lemma oldest_age_fold:
  "oldest_age es old = None \<longleftrightarrow> old = None \<and> (\<forall>e\<in>set es. a_age_seconds e = None)"
  "oldest_age es old = Some m \<Longrightarrow> (old = Some m \<or> (\<exists>e\<in>set es. a_age_seconds e = Some m))
     \<and> (\<forall>e\<in>set es. \<forall>a. a_age_seconds e = Some a \<longrightarrow> a \<le> m) \<and> (\<forall>x. old = Some x \<longrightarrow> x \<le> m)"
proof (induction es arbitrary: old)
  case Nil
  { case 1 then show ?case by simp }
  { case 2 then show ?case by simp }
next
  case (Cons e es)
  { case 1
    show ?case by (auto simp: Cons.IH(1) split: option.splits) }
  { case 2
    then have "oldest_age es (case a_age_seconds e of None \<Rightarrow> old
        | Some a \<Rightarrow> Some (case old of None \<Rightarrow> a | Some x \<Rightarrow> max x a)) = Some m" by simp
    from Cons.IH(2) [OF this] show ?case
      by (cases "a_age_seconds e"; cases old) (auto simp: max_def split: if_splits) }
qed

lemma count_buckets:
  "count_of (\<lambda>e. a_bucket e = BUCKET_AI_REVIEW) items + count_of (\<lambda>e. a_bucket e = BUCKET_NEEDS_APPROVAL) items
     + count_of (\<lambda>e. a_bucket e = BUCKET_PAUSED_BY_USER) items = length items"
proof (induction items)
  case Nil
  then show ?case by (simp add: count_of_def)
next
  case (Cons e items)
  then show ?case by (cases "a_bucket e") (simp_all add: count_of_def)
qed

text \<open>
  The summary counts every item in exactly one bucket, its human share is the two
  human buckets, and the reported oldest age is the age of an item and no item is older.
\<close>

theorem summarize_accounts_for_every_item:
  "y_ai_owned (summarize items) + y_human_owned (summarize items) = length items
   \<and> y_human_owned (summarize items) = y_needs_approval (summarize items) + y_paused_by_user (summarize items)
   \<and> (case y_oldest_age_seconds (summarize items) of
        None \<Rightarrow> \<forall>e\<in>set items. a_age_seconds e = None
      | Some m \<Rightarrow> (\<exists>e\<in>set items. a_age_seconds e = Some m)
          \<and> (\<forall>e\<in>set items. \<forall>a. a_age_seconds e = Some a \<longrightarrow> a \<le> m))"
proof (cases "oldest_age items None")
  case None
  then show ?thesis
    using oldest_age_fold(1) [of items None] count_buckets [of items] by (simp add: summarize_def)
next
  case (Some m)
  then show ?thesis
    using oldest_age_fold(2) [OF Some] count_buckets [of items] by (simp add: summarize_def)
qed

section \<open>Witnesses\<close>

lemma backoff_seconds_bounded_monotone_witness:
  "backoff_seconds 2 \<le> backoff_seconds 3 \<and> backoff_seconds 3 \<le> 900"
  using backoff_seconds_bounded_monotone [of 3 2] by simp

lemma classify_task_ownership_witness:
  "\<exists>i. classify_task 9 (sample_task ''t1'' ''a'' 0 BLOCKED) None = Some i \<and> a_owner i = OWNER_AI"
proof -
  have "map_option a_owner (classify_task 9 (sample_task ''t1'' ''a'' 0 BLOCKED) None) = Some OWNER_AI" by code_simp
  then show ?thesis
    using classify_task_ownership [where now = 9 and t = "sample_task ''t1'' ''a'' 0 BLOCKED" and l = None] by (auto split: option.splits)
qed

lemma summarize_accounts_for_every_item_witness:
  "y_ai_owned (summarize [classify_blocked 9 (sample_task ''t1'' ''a'' 0 BLOCKED)])
     + y_human_owned (summarize [classify_blocked 9 (sample_task ''t1'' ''a'' 0 BLOCKED)]) = 1"
  using summarize_accounts_for_every_item [of "[classify_blocked 9 (sample_task ''t1'' ''a'' 0 BLOCKED)]"] by simp

end
