(* ===== verification/JsonText.thy ===== *)
theory JsonText
  imports Prelude
begin

text \<open>
  \<open>json.dumps\<close> as the stores use it: the default layout with the text as it is
  (\<open>ensure_ascii=False\<close>), and the canonical one (sorted keys, no spaces, ASCII only) whose
  digest names a contract.
\<close>

definition hex4 :: "nat \<Rightarrow> string" where
  \<comment> \<open>the escape of one code point below 256\<close>
  "hex4 n = [char_of (92::nat), CHR ''u'', CHR ''0'', CHR ''0'', hex_char (n div 16), hex_char (n mod 16)]"

definition json_escape :: "bool \<Rightarrow> char \<Rightarrow> string" where
  "json_escape ascii c = (let n = of_char c :: nat in
     if n = 34 \<or> n = 92 then [char_of (92::nat), c]
     else if n = 10 then [char_of (92::nat), CHR ''n'']
     else if n = 13 then [char_of (92::nat), CHR ''r'']
     else if n = 9 then [char_of (92::nat), CHR ''t'']
     else if n = 12 then [char_of (92::nat), CHR ''f'']
     else if n = 8 then [char_of (92::nat), CHR ''b'']
     else if n < 32 \<or> ascii \<and> 126 < n then hex4 n
     else [c])"

definition json_string :: "bool \<Rightarrow> string \<Rightarrow> string" where
  "json_string ascii s = [char_of (34::nat)] @ concat (map (json_escape ascii) s) @ [char_of (34::nat)]"

fun json_dumps :: "json \<Rightarrow> string" where
  \<comment> \<open>\<open>json.dumps(v, ensure_ascii=False)\<close>\<close>
  "json_dumps JNull = ''null''"
| "json_dumps (JBool b) = (if b then ''true'' else ''false'')"
| "json_dumps (JInt n) = int_str n"
| "json_dumps (JStr s) = json_string False s"
| "json_dumps (JArr xs) = ''['' @ join '', '' (map json_dumps xs) @ '']''"
| "json_dumps (JObj d) =
     ''{'' @ join '', '' (map (\<lambda>kv. json_string False (fst kv) @ '': '' @ json_dumps (snd kv)) d) @ ''}''"

fun json_canonical :: "json \<Rightarrow> string" where
  \<comment> \<open>\<open>json.dumps(v, sort_keys=True, separators=(",", ":"))\<close>\<close>
  "json_canonical JNull = ''null''"
| "json_canonical (JBool b) = (if b then ''true'' else ''false'')"
| "json_canonical (JInt n) = int_str n"
| "json_canonical (JStr s) = json_string True s"
| "json_canonical (JArr xs) = ''['' @ join '','' (map json_canonical xs) @ '']''"
| "json_canonical (JObj d) =
     ''{'' @ join '','' (map snd (sort_key fst
        (map (\<lambda>kv. (fst kv, json_string True (fst kv) @ '':'' @ json_canonical (snd kv))) d))) @ ''}''"

end
