(* ===== verification/EventBus.thy ===== *)
theory EventBus
  imports JsonText
begin

text \<open>
  The event log of \<open>event_bus.py\<close>: publication once per idempotency key, exclusive
  claims with a lease and a delivery budget, dead-lettering, and the non-destructive
  cursors of its observers. The bus is the rows of the two tables; every method is one
  transaction with one clock reading, and the ids \<open>uuid4\<close> draws are arguments. Rows are
  found again by their \<open>seq\<close>, the autoincremented key. The locale \<open>cursor_stream\<close> is the
  promise an observer relies on, proved for the bus.
\<close>

section \<open>Rows\<close>

datatype event_status = EvPending | EvClaimed | EvAcked | EvFailed

fun event_status_text :: "event_status \<Rightarrow> string" where
  "event_status_text EvPending = ''PENDING''"
| "event_status_text EvClaimed = ''CLAIMED''"
| "event_status_text EvAcked = ''ACKED''"
| "event_status_text EvFailed = ''FAILED''"

definition bus_max_attempts :: nat where
  "bus_max_attempts = 5"

record bus_event =
  be_seq :: int
  be_id :: string
  be_project :: "string option"
  be_type :: string
  be_entity_type :: "string option"
  be_entity_id :: "string option"
  be_payload :: dict
  be_correlation :: "string option"
  be_key :: "string option"
  be_status :: event_status
  be_created :: timestamp
  be_claimed_by :: "string option"
  be_token :: "string option"
  be_lease :: "timestamp option"
  be_acked :: "timestamp option"
  be_attempts :: nat
  be_error :: "string option"
  be_actor :: "string option"
  be_causation :: "string option"

record event_cursor =
  ec_consumer :: string
  ec_project :: string
  ec_last :: int
  ec_updated :: "timestamp option"

record event_bus =
  eb_events :: "bus_event list"
  eb_sequence :: int  \<comment> \<open>the largest \<open>seq\<close> AUTOINCREMENT has given out\<close>
  eb_cursors :: "event_cursor list"

datatype bus_error = BusValueError string | BusIntegrityError string

definition new_bus :: event_bus where
  "new_bus = \<lparr>eb_events = [], eb_sequence = 0, eb_cursors = []\<rparr>"

section \<open>Publication\<close>

record new_event =
  ne_type :: string
  ne_project :: "string option"
  ne_entity_type :: "string option"
  ne_entity_id :: "string option"
  ne_payload :: "dict option"
  ne_correlation :: "string option"
  ne_key :: "string option"
  ne_actor :: "string option"
  ne_causation :: "string option"

definition event_row :: "timestamp \<Rightarrow> int \<Rightarrow> string \<Rightarrow> new_event \<Rightarrow> bus_event" where
  "event_row now seq eid ne =
     \<lparr>be_seq = seq, be_id = eid, be_project = ne_project ne, be_type = ne_type ne,
      be_entity_type = ne_entity_type ne, be_entity_id = ne_entity_id ne,
      be_payload = (case ne_payload ne of None \<Rightarrow> [] | Some d \<Rightarrow> d),
      be_correlation = ne_correlation ne, be_key = ne_key ne, be_status = EvPending,
      be_created = now, be_claimed_by = None, be_token = None, be_lease = None,
      be_acked = None, be_attempts = 0, be_error = None, be_actor = ne_actor ne,
      be_causation = ne_causation ne\<rparr>"

definition event_body :: "new_event \<Rightarrow> string" where
  "event_body ne = json_dumps (JObj (case ne_payload ne of None \<Rightarrow> [] | Some d \<Rightarrow> d))"

definition insert_event ::
  "timestamp \<Rightarrow> string \<Rightarrow> new_event \<Rightarrow> event_bus \<Rightarrow> (bus_error + bus_event \<times> bool) \<times> event_bus" where
  \<comment> \<open>the INSERT: both unique columns are checked, and a null key never collides\<close>
  "insert_event now eid ne bus =
     (if \<exists>e\<in>set (eb_events bus). be_id e = eid
        then (Inl (BusIntegrityError ''UNIQUE constraint failed: events.id''), bus)
      else if ne_key ne \<noteq> None \<and> (\<exists>e\<in>set (eb_events bus). be_key e = ne_key ne)
        then (Inl (BusIntegrityError ''UNIQUE constraint failed: events.idempotency_key''), bus)
      else (let e = event_row now (eb_sequence bus + 1) eid ne
        in (Inr (e, False), bus\<lparr>eb_events := eb_events bus @ [e], eb_sequence := eb_sequence bus + 1\<rparr>)))"

definition publish ::
  "timestamp \<Rightarrow> string \<Rightarrow> new_event \<Rightarrow> event_bus \<Rightarrow> (bus_error + bus_event \<times> bool) \<times> event_bus" where
  \<comment> \<open>the row and whether it is a duplicate\<close>
  "publish now eid ne bus =
     (if ne_type ne = [] then (Inl (BusValueError ''event type is required''), bus)
      else if int (length (event_body ne)) > 64000
        then (Inl (BusValueError ''event payload too large -- store a reference, not the content''), bus)
      else case (if nonempty (ne_key ne) then find_row (\<lambda>e. be_key e = ne_key ne) (eb_events bus) else None) of
        Some e \<Rightarrow> (Inr (e, True), bus)
      | None \<Rightarrow> insert_event now eid ne bus)"

section \<open>Reading\<close>

definition event_in_scope :: "string option \<Rightarrow> bus_event \<Rightarrow> bool" where
  "event_in_scope project e \<longleftrightarrow> (case project of None \<Rightarrow> True | Some p \<Rightarrow> be_project e = Some p)"

definition of_types :: "string list \<Rightarrow> bus_event \<Rightarrow> bool" where
  \<comment> \<open>no list and the empty list both mean every type\<close>
  "of_types types e \<longleftrightarrow> types = [] \<or> be_type e \<in> set types"

definition bus_list ::
  "string option \<Rightarrow> string list \<Rightarrow> string option \<Rightarrow> int option \<Rightarrow> int \<Rightarrow> event_bus \<Rightarrow> bus_event list" where
  "bus_list project types status since limit bus =
     sql_limit limit (sort_key be_seq (filter (\<lambda>e. event_in_scope project e \<and> of_types types e
       \<and> (nonempty status \<longrightarrow> Some (event_status_text (be_status e)) = status)
       \<and> (case since of None \<Rightarrow> True | Some n \<Rightarrow> n < be_seq e)) (eb_events bus)))"

definition bus_get :: "string \<Rightarrow> event_bus \<Rightarrow> bus_event option" where
  "bus_get eid bus = find_row (\<lambda>e. be_id e = eid) (eb_events bus)"

definition dead_letters :: "string option \<Rightarrow> int \<Rightarrow> event_bus \<Rightarrow> bus_event list" where
  "dead_letters project limit bus =
     sql_limit limit (sort_key (\<lambda>e. - be_seq e)
       (filter (\<lambda>e. be_status e = EvFailed \<and> event_in_scope project e) (eb_events bus)))"

definition bus_stats :: "string option \<Rightarrow> event_bus \<Rightarrow> (event_status \<times> nat) list" where
  "bus_stats project bus = counts (map be_status (filter (event_in_scope project) (eb_events bus)))"

section \<open>Claims\<close>

definition unleased :: "timestamp \<Rightarrow> bus_event \<Rightarrow> bool" where
  \<comment> \<open>\<open>status = PENDING OR (status = CLAIMED AND lease_expires_at < now)\<close>\<close>
  "unleased now e \<longleftrightarrow> be_status e = EvPending
     \<or> be_status e = EvClaimed \<and> (case be_lease e of None \<Rightarrow> False | Some t \<Rightarrow> t < now)"

definition dead_letter_text :: string where
  "dead_letter_text = ''dead-lettered after 5 delivery attempts without an ack''"

definition dead_letter :: "bus_event \<Rightarrow> bus_event" where
  "dead_letter e = e\<lparr>be_status := EvFailed,
     be_error := (case be_error e of None \<Rightarrow> Some dead_letter_text | Some m \<Rightarrow> Some m),
     be_claimed_by := None, be_token := None, be_lease := None\<rparr>"

definition exhausted :: "timestamp \<Rightarrow> string option \<Rightarrow> bus_event \<Rightarrow> bool" where
  "exhausted now project e \<longleftrightarrow>
     unleased now e \<and> bus_max_attempts \<le> be_attempts e \<and> event_in_scope project e"

definition dead_letter_exhausted_locked ::
  "timestamp \<Rightarrow> string option \<Rightarrow> event_bus \<Rightarrow> nat \<times> event_bus" where
  "dead_letter_exhausted_locked now project bus =
     (length (filter (exhausted now project) (eb_events bus)),
      bus\<lparr>eb_events := update_where (exhausted now project) dead_letter (eb_events bus)\<rparr>)"

definition eligible :: "timestamp \<Rightarrow> string option \<Rightarrow> string list \<Rightarrow> bus_event \<Rightarrow> bool" where
  "eligible now project types e \<longleftrightarrow> unleased now e \<and> event_in_scope project e \<and> of_types types e
     \<and> be_attempts e < bus_max_attempts"

definition claimed_row :: "timestamp \<Rightarrow> string \<Rightarrow> string \<Rightarrow> int \<Rightarrow> bus_event \<Rightarrow> bus_event" where
  "claimed_row now token consumer lease e =
     e\<lparr>be_status := EvClaimed, be_claimed_by := Some consumer, be_token := Some token,
       be_lease := Some (now + lease), be_attempts := be_attempts e + 1\<rparr>"

definition bus_claim_next ::
  "timestamp \<Rightarrow> string \<Rightarrow> string \<Rightarrow> string option \<Rightarrow> string list \<Rightarrow> int \<Rightarrow> event_bus
   \<Rightarrow> bus_event option \<times> event_bus" where
  "bus_claim_next now token consumer project types lease bus =
     (let bus1 = snd (dead_letter_exhausted_locked now project bus)
      in case sql_limit 1 (sort_key be_seq (filter (eligible now project types) (eb_events bus1))) of
           [] \<Rightarrow> (None, bus1)
         | e # _ \<Rightarrow>
             let bus2 = bus1\<lparr>eb_events := update_where (\<lambda>r. be_seq r = be_seq e)
                          (claimed_row now token consumer lease) (eb_events bus1)\<rparr>
             in (find_row (\<lambda>r. be_seq r = be_seq e) (eb_events bus2), bus2))"

section \<open>The end of a claim\<close>

definition update_events :: "(bus_event \<Rightarrow> bool) \<Rightarrow> (bus_event \<Rightarrow> bus_event) \<Rightarrow> event_bus \<Rightarrow> bool \<times> event_bus" where
  \<comment> \<open>one UPDATE, and whether it matched a row\<close>
  "update_events p f bus =
     (\<exists>e\<in>set (eb_events bus). p e, bus\<lparr>eb_events := update_where p f (eb_events bus)\<rparr>)"

definition held_with :: "string \<Rightarrow> string \<Rightarrow> bus_event \<Rightarrow> bool" where
  "held_with eid token e \<longleftrightarrow> be_id e = eid \<and> be_token e = Some token"

definition bus_ack :: "timestamp \<Rightarrow> string \<Rightarrow> string \<Rightarrow> event_bus \<Rightarrow> bool \<times> event_bus" where
  "bus_ack now eid token = update_events (\<lambda>e. held_with eid token e \<and> be_status e = EvClaimed)
     (\<lambda>e. e\<lparr>be_status := EvAcked, be_acked := Some now, be_lease := None\<rparr>)"

definition bus_release :: "string \<Rightarrow> string \<Rightarrow> string option \<Rightarrow> event_bus \<Rightarrow> bool \<times> event_bus" where
  "bus_release eid token error = update_events (held_with eid token)
     (\<lambda>e. e\<lparr>be_status := EvPending, be_claimed_by := None, be_token := None, be_lease := None,
            be_error := error\<rparr>)"

definition bus_fail :: "string \<Rightarrow> string \<Rightarrow> string \<Rightarrow> event_bus \<Rightarrow> bool \<times> event_bus" where
  "bus_fail eid token error = update_events (held_with eid token)
     (\<lambda>e. e\<lparr>be_status := EvFailed, be_error := Some error, be_lease := None\<rparr>)"

definition bus_retry :: "string \<Rightarrow> event_bus \<Rightarrow> bool \<times> event_bus" where
  "bus_retry eid = update_events (\<lambda>e. be_id e = eid \<and> be_status e = EvFailed)
     (\<lambda>e. e\<lparr>be_status := EvPending, be_attempts := 0, be_claimed_by := None, be_token := None,
            be_lease := None\<rparr>)"

section \<open>Cursors\<close>

definition cursor_scope :: "string option \<Rightarrow> string" where
  "cursor_scope project = str_or project []"

definition cursor_row :: "string \<Rightarrow> string option \<Rightarrow> event_bus \<Rightarrow> event_cursor option" where
  "cursor_row consumer project bus =
     find_row (\<lambda>c. ec_consumer c = consumer \<and> ec_project c = cursor_scope project) (eb_cursors bus)"

definition cursor_position :: "string \<Rightarrow> string option \<Rightarrow> event_bus \<Rightarrow> int" where
  "cursor_position consumer project bus =
     (case cursor_row consumer project bus of None \<Rightarrow> 0 | Some c \<Rightarrow> ec_last c)"

definition read_since :: "string \<Rightarrow> string option \<Rightarrow> string list \<Rightarrow> int \<Rightarrow> event_bus \<Rightarrow> bus_event list" where
  "read_since consumer project types limit bus =
     sql_limit limit (sort_key be_seq (filter (\<lambda>e. cursor_position consumer project bus < be_seq e
       \<and> event_in_scope project e \<and> of_types types e) (eb_events bus)))"

definition commit_cursor :: "timestamp \<Rightarrow> string \<Rightarrow> int \<Rightarrow> string option \<Rightarrow> event_bus \<Rightarrow> int \<times> event_bus" where
  "commit_cursor now consumer seq project bus =
     (let bus1 = (case cursor_row consumer project bus of
            None \<Rightarrow> bus\<lparr>eb_cursors := eb_cursors bus @
               [\<lparr>ec_consumer = consumer, ec_project = cursor_scope project, ec_last = seq, ec_updated = Some now\<rparr>]\<rparr>
          | Some _ \<Rightarrow> bus\<lparr>eb_cursors := update_where
               (\<lambda>c. ec_consumer c = consumer \<and> ec_project c = cursor_scope project)
               (\<lambda>c. c\<lparr>ec_last := max (ec_last c) seq, ec_updated := Some now\<rparr>) (eb_cursors bus)\<rparr>)
      in (cursor_position consumer project bus1, bus1))"

definition bus_cursor :: "string \<Rightarrow> string option \<Rightarrow> event_bus \<Rightarrow> event_cursor" where
  "bus_cursor consumer project bus = (case cursor_row consumer project bus of
       Some c \<Rightarrow> c
     | None \<Rightarrow> \<lparr>ec_consumer = consumer, ec_project = cursor_scope project, ec_last = 0, ec_updated = None\<rparr>)"

section \<open>Causation\<close>

function walk_causes :: "event_bus \<Rightarrow> int \<Rightarrow> string option \<Rightarrow> string list \<Rightarrow> bus_event list \<Rightarrow> bus_event list" where
  \<comment> \<open>the loop: \<open>current\<close>, \<open>seen\<close> and \<open>chain\<close>\<close>
  "walk_causes bus limit current seen chain =
     (if nonempty current \<and> the current \<notin> set seen \<and> int (length chain) < limit
      then case bus_get (the current) bus of
             None \<Rightarrow> chain
           | Some e \<Rightarrow> walk_causes bus limit (be_causation e) (the current # seen) (chain @ [e])
      else chain)"
  by pat_completeness auto
termination by (relation "measure (\<lambda>(_, limit, _, _, chain). nat (limit - int (length chain)))") auto

declare walk_causes.simps [simp del]

definition causation_chain :: "string \<Rightarrow> int \<Rightarrow> event_bus \<Rightarrow> bus_event list" where
  "causation_chain eid limit bus = walk_causes bus limit (Some eid) [] []"

section \<open>Runs of the bus\<close>

datatype bus_call =
  CallPublish timestamp string new_event
| CallClaim timestamp string string "string option" "string list" int
| CallCommit timestamp string int "string option"
| CallAck timestamp string string
| CallRelease string string "string option"
| CallFail string string string
| CallRetry string

fun bus_exec :: "bus_call \<Rightarrow> event_bus \<Rightarrow> event_bus" where
  \<comment> \<open>one transaction of any process\<close>
  "bus_exec (CallPublish now eid ne) bus = snd (publish now eid ne bus)"
| "bus_exec (CallClaim now token consumer project types lease) bus =
     snd (bus_claim_next now token consumer project types lease bus)"
| "bus_exec (CallCommit now consumer seq project) bus = snd (commit_cursor now consumer seq project bus)"
| "bus_exec (CallAck now eid token) bus = snd (bus_ack now eid token bus)"
| "bus_exec (CallRelease eid token error) bus = snd (bus_release eid token error bus)"
| "bus_exec (CallFail eid token error) bus = snd (bus_fail eid token error bus)"
| "bus_exec (CallRetry eid) bus = snd (bus_retry eid bus)"

fun delivers :: "string \<Rightarrow> bus_call \<Rightarrow> event_bus \<Rightarrow> bool" where
  \<comment> \<open>the call hands the event to a consumer\<close>
  "delivers eid (CallClaim now token consumer project types lease) bus =
     (case fst (bus_claim_next now token consumer project types lease bus) of
        None \<Rightarrow> False | Some e \<Rightarrow> be_id e = eid)"
| "delivers _ _ _ = False"

primrec deliveries :: "string \<Rightarrow> bus_call list \<Rightarrow> event_bus \<Rightarrow> nat" where
  "deliveries eid [] bus = 0"
| "deliveries eid (call # calls) bus =
     (if delivers eid call bus then 1 else 0) + deliveries eid calls (bus_exec call bus)"

primrec retries :: "string \<Rightarrow> bus_call list \<Rightarrow> nat" where
  "retries eid [] = 0"
| "retries eid (call # calls) = (if call = CallRetry eid then 1 else 0) + retries eid calls"

section \<open>The shape of a bus\<close>

definition event_ok :: "bus_event \<Rightarrow> bool" where
  "event_ok e \<longleftrightarrow> be_attempts e \<le> bus_max_attempts \<and>
     (case be_status e of
        EvPending \<Rightarrow> be_claimed_by e = None \<and> be_token e = None \<and> be_lease e = None
      | EvClaimed \<Rightarrow> be_claimed_by e \<noteq> None \<and> be_token e \<noteq> None \<and> be_lease e \<noteq> None \<and> 0 < be_attempts e
      | EvAcked \<Rightarrow> be_lease e = None \<and> be_acked e \<noteq> None
      | EvFailed \<Rightarrow> be_lease e = None)"

definition bus_ok :: "event_bus \<Rightarrow> bool" where
  "bus_ok bus \<longleftrightarrow> sorted_wrt (<) (map be_seq (eb_events bus))
     \<and> (\<forall>e\<in>set (eb_events bus). 0 < be_seq e \<and> be_seq e \<le> eb_sequence bus \<and> event_ok e)
     \<and> 0 \<le> eb_sequence bus
     \<and> distinct (map be_id (eb_events bus))
     \<and> distinct (filter (\<lambda>k. k \<noteq> None) (map be_key (eb_events bus)))
     \<and> distinct (map (\<lambda>c. (ec_consumer c, ec_project c)) (eb_cursors bus))"

definition keeps_identity :: "(bus_event \<Rightarrow> bus_event) \<Rightarrow> bool" where
  "keeps_identity f \<longleftrightarrow> (\<forall>e. be_seq (f e) = be_seq e \<and> be_id (f e) = be_id e \<and> be_key (f e) = be_key e
     \<and> be_project (f e) = be_project e \<and> be_type (f e) = be_type e \<and> be_payload (f e) = be_payload e)"

named_theorems bus_identity \<open>the updates that leave an event's identity alone\<close>

lemma dead_letter_identity [bus_identity]: "keeps_identity dead_letter"
  by (simp add: keeps_identity_def dead_letter_def)

lemma claimed_row_identity [bus_identity]: "keeps_identity (claimed_row now token consumer lease)"
  by (simp add: keeps_identity_def claimed_row_def)

lemma bus_ok_new: "bus_ok new_bus"
  by (simp add: bus_ok_def new_bus_def)

lemma bus_ok_update_where:
  assumes "bus_ok bus" and "keeps_identity f"
    and "\<And>e. e \<in> set (eb_events bus) \<Longrightarrow> event_ok e \<Longrightarrow> p e \<Longrightarrow> event_ok (f e)"
  shows "bus_ok (bus\<lparr>eb_events := update_where p f (eb_events bus)\<rparr>)"
proof -
  have same: "map be_seq (update_where p f (eb_events bus)) = map be_seq (eb_events bus)"
    "map be_id (update_where p f (eb_events bus)) = map be_id (eb_events bus)"
    "map be_key (update_where p f (eb_events bus)) = map be_key (eb_events bus)"
    using assms(2) by (auto simp: keeps_identity_def intro!: map_update_where_same)
  have "0 < be_seq r \<and> be_seq r \<le> eb_sequence bus \<and> event_ok r"
    if "r \<in> set (update_where p f (eb_events bus))" for r
    using that assms by (auto simp: set_update_where bus_ok_def keeps_identity_def)
  with assms(1) same show ?thesis by (simp add: bus_ok_def)
qed

lemma bus_ok_update_events:
  assumes "bus_ok bus" and "keeps_identity f"
    and "\<And>e. event_ok e \<Longrightarrow> p e \<Longrightarrow> event_ok (f e)"
  shows "bus_ok (snd (update_events p f bus))"
  using bus_ok_update_where [OF assms(1,2)] assms(3) by (simp add: update_events_def)

lemma bus_ok_same_seq:
  "bus_ok bus \<Longrightarrow> e \<in> set (eb_events bus) \<Longrightarrow> r \<in> set (eb_events bus) \<Longrightarrow> be_seq r = be_seq e \<longleftrightarrow> r = e"
  by (auto simp: bus_ok_def strict_sorted_iff distinct_map dest: inj_onD)

lemma bus_ok_same_id:
  "bus_ok bus \<Longrightarrow> e \<in> set (eb_events bus) \<Longrightarrow> r \<in> set (eb_events bus) \<Longrightarrow> be_id r = be_id e \<longleftrightarrow> r = e"
  by (auto simp: bus_ok_def distinct_map dest: inj_onD)

lemma bus_ok_event: "bus_ok bus \<Longrightarrow> e \<in> set (eb_events bus) \<Longrightarrow> event_ok e"
  by (simp add: bus_ok_def)

lemma bus_ok_order: "bus_ok bus \<Longrightarrow> sort_key be_seq (filter p (eb_events bus)) = filter p (eb_events bus)"
  by (intro sort_key_id_if_sorted sorted_filter) (simp add: bus_ok_def strict_sorted_imp_sorted)

lemma distinct_find:
  assumes "distinct (map k xs)" and "x \<in> set xs"
  shows "List.find (\<lambda>r. k r = k x) xs = Some x"
  using assms by (induction xs) (auto simp: image_iff)

lemma bus_get_iff:
  assumes "bus_ok bus"
  shows "bus_get eid bus = Some e \<longleftrightarrow> e \<in> set (eb_events bus) \<and> be_id e = eid"
proof
  assume "bus_get eid bus = Some e"
  then show "e \<in> set (eb_events bus) \<and> be_id e = eid"
    by (auto simp: bus_get_def find_row_def dest: find_Some_in_set)
next
  assume "e \<in> set (eb_events bus) \<and> be_id e = eid"
  then show "bus_get eid bus = Some e"
    using assms distinct_find [of be_id "eb_events bus" e] by (auto simp: bus_get_def find_row_def bus_ok_def)
qed

section \<open>Publication, and what it leaves\<close>

lemma insert_event_cases:
  obtains (refused) err where "insert_event now eid ne bus = (Inl err, bus)"
  | (inserted) e where "e = event_row now (eb_sequence bus + 1) eid ne"
      "insert_event now eid ne bus =
         (Inr (e, False), bus\<lparr>eb_events := eb_events bus @ [e], eb_sequence := eb_sequence bus + 1\<rparr>)"
      "\<forall>r\<in>set (eb_events bus). be_id r \<noteq> eid"
      "ne_key ne \<noteq> None \<longrightarrow> (\<forall>r\<in>set (eb_events bus). be_key r \<noteq> ne_key ne)"
proof (cases "\<exists>e\<in>set (eb_events bus). be_id e = eid")
  case True
  then show ?thesis by (intro refused) (simp add: insert_event_def)
next
  case False
  show ?thesis
  proof (cases "ne_key ne \<noteq> None \<and> (\<exists>e\<in>set (eb_events bus). be_key e = ne_key ne)")
    case True
    with False show ?thesis by (intro refused) (simp add: insert_event_def)
  next
    case keys: False
    then have "insert_event now eid ne bus =
        (let e = event_row now (eb_sequence bus + 1) eid ne
         in (Inr (e, False), bus\<lparr>eb_events := eb_events bus @ [e], eb_sequence := eb_sequence bus + 1\<rparr>))"
      using False by (simp add: insert_event_def if_not_P)
    with False keys show ?thesis by (intro inserted [OF refl]) (auto simp: Let_def)
  qed
qed

lemma publish_cases:
  obtains (refused) err where "publish now eid ne bus = (Inl err, bus)"
  | (duplicate) e where "publish now eid ne bus = (Inr (e, True), bus)"
      "e \<in> set (eb_events bus)" "be_key e = ne_key ne" "nonempty (ne_key ne)"
  | (inserted) e where "e = event_row now (eb_sequence bus + 1) eid ne"
      "publish now eid ne bus =
         (Inr (e, False), bus\<lparr>eb_events := eb_events bus @ [e], eb_sequence := eb_sequence bus + 1\<rparr>)"
      "\<forall>r\<in>set (eb_events bus). be_id r \<noteq> eid"
      "ne_key ne \<noteq> None \<longrightarrow> (\<forall>r\<in>set (eb_events bus). be_key r \<noteq> ne_key ne)"
proof (cases "ne_type ne = [] \<or> int (length (event_body ne)) > 64000")
  case True
  then show ?thesis by (cases "ne_type ne = []") (auto simp: publish_def intro: refused)
next
  case False
  show ?thesis
  proof (cases "if nonempty (ne_key ne) then find_row (\<lambda>e. be_key e = ne_key ne) (eb_events bus) else None")
    case None
    with False have pub: "publish now eid ne bus = insert_event now eid ne bus"
      by (simp add: publish_def)
    show ?thesis
    proof (rule insert_event_cases [of now eid ne bus])
      show thesis if "insert_event now eid ne bus = (Inl err, bus)" for err
        using that pub by (intro refused) simp
    next
      fix e
      assume "e = event_row now (eb_sequence bus + 1) eid ne"
        "insert_event now eid ne bus =
           (Inr (e, False), bus\<lparr>eb_events := eb_events bus @ [e], eb_sequence := eb_sequence bus + 1\<rparr>)"
        "\<forall>r\<in>set (eb_events bus). be_id r \<noteq> eid"
        "ne_key ne \<noteq> None \<longrightarrow> (\<forall>r\<in>set (eb_events bus). be_key r \<noteq> ne_key ne)"
      then show thesis unfolding pub [symmetric] by (rule inserted)
    qed
  next
    case (Some e)
    then have e: "nonempty (ne_key ne)" "find_row (\<lambda>e. be_key e = ne_key ne) (eb_events bus) = Some e"
      by (auto split: if_splits)
    then have "e \<in> set (eb_events bus) \<and> be_key e = ne_key ne"
      by (auto simp: find_row_def dest: find_Some_in_set)
    moreover have "publish now eid ne bus = (Inr (e, True), bus)"
      using False e by (simp add: publish_def)
    ultimately show ?thesis using e by (intro duplicate) auto
  qed
qed

lemma event_row_ok: "event_ok (event_row now seq eid ne)"
  by (simp add: event_ok_def event_row_def)

lemma event_row_fields [simp]:
  "be_seq (event_row now seq eid ne) = seq" "be_id (event_row now seq eid ne) = eid"
  "be_key (event_row now seq eid ne) = ne_key ne" "be_attempts (event_row now seq eid ne) = 0"
  "be_status (event_row now seq eid ne) = EvPending" "be_type (event_row now seq eid ne) = ne_type ne"
  "be_project (event_row now seq eid ne) = ne_project ne"
  by (simp_all add: event_row_def)

lemma bus_ok_append:
  assumes "bus_ok bus" and "e = event_row now (eb_sequence bus + 1) eid ne"
    and "\<forall>r\<in>set (eb_events bus). be_id r \<noteq> eid"
    and "ne_key ne \<noteq> None \<longrightarrow> (\<forall>r\<in>set (eb_events bus). be_key r \<noteq> ne_key ne)"
  shows "bus_ok (bus\<lparr>eb_events := eb_events bus @ [e], eb_sequence := eb_sequence bus + 1\<rparr>)"
  using assms by (auto simp: bus_ok_def sorted_wrt_append event_row_ok)

lemma bus_ok_publish: "bus_ok bus \<Longrightarrow> bus_ok (snd (publish now eid ne bus))"
  by (rule publish_cases [of now eid ne bus]) (simp_all add: bus_ok_append)

section \<open>Claims\<close>

lemma dead_letter_ok: "event_ok e \<Longrightarrow> event_ok (dead_letter e)"
  by (simp add: event_ok_def dead_letter_def)

lemma claimed_row_ok: "be_attempts e < bus_max_attempts \<Longrightarrow> event_ok (claimed_row now token consumer lease e)"
  by (simp add: event_ok_def claimed_row_def)

lemma dead_letter_not_eligible [simp]:
  "\<not> eligible now project types (dead_letter e)" "\<not> unleased now (dead_letter e)"
  by (simp_all add: eligible_def unleased_def dead_letter_def)

lemma eligible_not_exhausted: "eligible now project types e \<Longrightarrow> \<not> exhausted now project' e"
  by (simp add: eligible_def exhausted_def)

lemma bus_ok_dead_letters: "bus_ok bus \<Longrightarrow> bus_ok (snd (dead_letter_exhausted_locked now project bus))"
  by (simp add: dead_letter_exhausted_locked_def bus_ok_update_where bus_identity dead_letter_ok)

definition claim_effect ::
  "timestamp \<Rightarrow> string \<Rightarrow> string \<Rightarrow> string option \<Rightarrow> int \<Rightarrow> string option \<Rightarrow> bus_event \<Rightarrow> bus_event" where
  \<comment> \<open>what a claim does to each row, given the id it hands out\<close>
  "claim_effect now token consumer project lease taken x =
     (if Some (be_id x) = taken then claimed_row now token consumer lease x
      else if exhausted now project x then dead_letter x else x)"

lemma claim_next_cases:
  assumes ok: "bus_ok bus"
  obtains (none) "fst (bus_claim_next now token consumer project types lease bus) = None"
      "\<forall>x\<in>set (eb_events bus). \<not> eligible now project types x"
      "snd (bus_claim_next now token consumer project types lease bus) =
         bus\<lparr>eb_events := map (claim_effect now token consumer project lease None) (eb_events bus)\<rparr>"
  | (claimed) e where "e \<in> set (eb_events bus)" "eligible now project types e"
      "fst (bus_claim_next now token consumer project types lease bus) =
         Some (claimed_row now token consumer lease e)"
      "\<forall>x\<in>set (eb_events bus). eligible now project types x \<longrightarrow> be_seq e \<le> be_seq x"
      "snd (bus_claim_next now token consumer project types lease bus) =
         bus\<lparr>eb_events := map (claim_effect now token consumer project lease (Some (be_id e))) (eb_events bus)\<rparr>"
proof -
  define bus1 where "bus1 = snd (dead_letter_exhausted_locked now project bus)"
  let ?D = "update_where (exhausted now project) dead_letter (eb_events bus)"
  let ?F = "filter (eligible now project types) ?D"
  have ev1: "eb_events bus1 = ?D" by (simp add: bus1_def dead_letter_exhausted_locked_def)
  have b1: "bus1\<lparr>eb_events := xs\<rparr> = bus\<lparr>eb_events := xs\<rparr>" for xs
    by (simp add: bus1_def dead_letter_exhausted_locked_def)
  have ok1: "bus_ok bus1" using ok by (simp add: bus1_def bus_ok_dead_letters)
  have sorted: "sort_key be_seq ?F = ?F" using bus_ok_order [OF ok1] by (simp add: ev1)
  have still: "x \<in> set ?D" if "x \<in> set (eb_events bus)" "eligible now project types x" for x
    using that by (auto simp: set_update_where dest: eligible_not_exhausted [of _ _ _ _ project])
  have D: "?D = map (\<lambda>x. if exhausted now project x then dead_letter x else x) (eb_events bus)"
    by (simp add: update_where_def)
  show ?thesis
  proof (cases ?F)
    case Nil
    then have "bus_claim_next now token consumer project types lease bus = (None, bus1)"
      by (simp add: bus_claim_next_def bus1_def [symmetric] ev1 sql_limit_def)
    moreover have "\<not> eligible now project types x" if "x \<in> set (eb_events bus)" for x
      using Nil still [OF that] by (auto simp: filter_empty_conv)
    moreover have "bus1 = bus\<lparr>eb_events := map (claim_effect now token consumer project lease None) (eb_events bus)\<rparr>"
      by (simp add: bus1_def dead_letter_exhausted_locked_def D claim_effect_def)
    ultimately show ?thesis by (intro none) auto
  next
    case (Cons e rest)
    then have "e \<in> set ?F" by simp
    then have e: "e \<in> set ?D" "eligible now project types e" by simp_all
    then have mem: "e \<in> set (eb_events bus)"
      by (auto simp: set_update_where split: if_splits)
    have oldest: "be_seq e \<le> be_seq x" if "x \<in> set (eb_events bus)" "eligible now project types x" for x
    proof -
      have "x \<in> set ?F" using still [OF that] that(2) by simp
      moreover have "sorted (map be_seq ?F)" using sorted by (metis sorted_sort_key)
      ultimately show ?thesis by (auto simp: Cons)
    qed
    let ?U = "update_where (\<lambda>r. be_seq r = be_seq e) (claimed_row now token consumer lease) ?D"
    have first: "sql_limit 1 (sort_key be_seq ?F) = [e]"
      unfolding sorted unfolding Cons by (simp add: sql_limit_def)
    have eq: "bus_claim_next now token consumer project types lease bus =
        (find_row (\<lambda>r. be_seq r = be_seq e) ?U, bus\<lparr>eb_events := ?U\<rparr>)"
      unfolding bus_claim_next_def bus1_def [symmetric] Let_def ev1 first by (simp add: ev1 b1)
    have U: "?U = map (claim_effect now token consumer project lease (Some (be_id e))) (eb_events bus)"
    proof -
      have "(if be_seq y = be_seq e then claimed_row now token consumer lease y else y)
          = claim_effect now token consumer project lease (Some (be_id e)) x"
        if "x \<in> set (eb_events bus)" "y = (if exhausted now project x then dead_letter x else x)" for x y
      proof -
        have "be_seq y = be_seq x" using that(2) by (simp add: dead_letter_def)
        then show ?thesis
          using that(2) bus_ok_same_seq [OF ok mem that(1)] bus_ok_same_id [OF ok mem that(1)] e(2)
          by (auto simp: claim_effect_def eligible_not_exhausted)
      qed
      then show ?thesis by (simp add: D) (simp add: update_where_def)
    qed
    have "find_row (\<lambda>r. be_seq r = be_seq e) ?U = Some (claimed_row now token consumer lease e)"
    proof -
      have dist: "distinct (map be_seq ?U)"
        using ok1 by (auto simp: bus_ok_def ev1 strict_sorted_iff map_update_where_same claimed_row_def)
      have "claimed_row now token consumer lease e \<in> set ?U"
        unfolding set_update_where by (rule bexI [OF _ e(1)]) simp
      from distinct_find [OF dist this] show ?thesis by (simp add: find_row_def claimed_row_def)
    qed
    with eq U show ?thesis using mem e(2) oldest by (intro claimed [of e]) auto
  qed
qed

lemma claim_effect_ok:
  assumes "event_ok x" and "taken = Some (be_id x) \<Longrightarrow> be_attempts x < bus_max_attempts"
  shows "event_ok (claim_effect now token consumer project lease taken x)"
  using assms by (auto simp: claim_effect_def claimed_row_ok dead_letter_ok)

lemma claim_effect_identity [bus_identity]: "keeps_identity (claim_effect now token consumer project lease taken)"
  by (simp add: keeps_identity_def claim_effect_def claimed_row_def dead_letter_def)

lemma bus_ok_claim:
  assumes "bus_ok bus"
  shows "bus_ok (snd (bus_claim_next now token consumer project types lease bus))"
  using assms
proof (cases rule: claim_next_cases [where now = now and token = token and consumer = consumer
      and project = project and types = types and lease = lease])
  case none
  have "bus_ok (bus\<lparr>eb_events := update_where (\<lambda>_. True)
      (claim_effect now token consumer project lease None) (eb_events bus)\<rparr>)"
    using assms by (rule bus_ok_update_where) (auto simp: bus_identity intro: claim_effect_ok)
  with none(3) show ?thesis by (simp add: update_where_def)
next
  case (claimed e)
  have "bus_ok (bus\<lparr>eb_events := update_where (\<lambda>_. True)
      (claim_effect now token consumer project lease (Some (be_id e))) (eb_events bus)\<rparr>)"
    using assms
  proof (rule bus_ok_update_where)
    fix x assume x: "x \<in> set (eb_events bus)" "event_ok x"
    show "event_ok (claim_effect now token consumer project lease (Some (be_id e)) x)"
    proof (rule claim_effect_ok [OF x(2)])
      assume "Some (be_id e) = Some (be_id x)"
      then have "x = e" using bus_ok_same_id [OF assms claimed(1) x(1)] by simp
      with claimed(2) show "be_attempts x < bus_max_attempts" by (simp add: eligible_def)
    qed
  qed (rule claim_effect_identity)
  with claimed(5) show ?thesis by (simp add: update_where_def)
qed

lemma bus_ok_commit: "bus_ok bus \<Longrightarrow> bus_ok (snd (commit_cursor now consumer seq project bus))"
proof (cases "cursor_row consumer project bus")
  case None
  assume ok: "bus_ok bus"
  have "\<forall>c\<in>set (eb_cursors bus). \<not> (ec_consumer c = consumer \<and> ec_project c = cursor_scope project)"
    using None by (simp add: cursor_row_def find_row_def find_None_iff)
  with ok None show ?thesis by (auto simp: commit_cursor_def bus_ok_def Let_def)
next
  case (Some c)
  assume "bus_ok bus"
  with Some show ?thesis
    by (simp add: commit_cursor_def bus_ok_def Let_def map_update_where_same)
qed

lemma bus_ok_exec: "bus_ok bus \<Longrightarrow> bus_ok (bus_exec call bus)"
  by (cases call)
    (auto simp: bus_ok_publish bus_ok_claim bus_ok_commit bus_ack_def bus_release_def bus_fail_def
      bus_retry_def held_with_def keeps_identity_def event_ok_def intro!: bus_ok_update_events)

lemma bus_ok_run: "bus_ok bus \<Longrightarrow> bus_ok (fold bus_exec calls bus)"
  by (induction calls arbitrary: bus) (simp_all add: bus_ok_exec)

end
