(* ===== verification/EventDelivery.thy ===== *)
theory EventDelivery
  imports EventBus
begin

text \<open>
  What the event log promises: publication once per key, claims that hand out the oldest
  eligible event to one consumer and count against a delivery budget, visible dead
  letters, observers that read every event once and in order, and causation chains that
  end. A run is any list of calls of any processes, applied one transaction at a time.
\<close>

lemma update_events_mem:
  "x \<in> set (eb_events bus) \<Longrightarrow> \<not> p x \<Longrightarrow> x \<in> set (eb_events (snd (update_events p f bus)))"
  by (auto simp: update_events_def set_update_where)

lemma commit_keeps_events [frame_simps]:
  "eb_events (snd (commit_cursor now consumer seq project bus)) = eb_events bus"
  by (simp add: commit_cursor_def Let_def split: option.splits)

lemma publish_keeps_events:
  "x \<in> set (eb_events bus) \<Longrightarrow> x \<in> set (eb_events (snd (publish now eid ne bus)))"
  by (rule publish_cases [of now eid ne bus]) simp_all

lemma claim_next_row:
  assumes "bus_ok bus" and "x \<in> set (eb_events bus)"
  shows "\<exists>taken. claim_effect now token consumer project lease taken x
      \<in> set (eb_events (snd (bus_claim_next now token consumer project types lease bus)))
    \<and> (taken \<noteq> None \<longrightarrow> (\<exists>e\<in>set (eb_events bus). taken = Some (be_id e) \<and> eligible now project types e
        \<and> fst (bus_claim_next now token consumer project types lease bus)
            = Some (claimed_row now token consumer lease e)))
    \<and> (taken = None \<longrightarrow> fst (bus_claim_next now token consumer project types lease bus) = None)"
  using assms(1)
proof (cases rule: claim_next_cases [where now = now and token = token and consumer = consumer
      and project = project and types = types and lease = lease])
  case none
  then show ?thesis using assms(2) by (intro exI [of _ None]) simp
next
  case (claimed e)
  then show ?thesis using assms(2) by (intro exI [of _ "Some (be_id e)"]) auto
qed

lemma claim_keeps_busy:
  assumes "bus_ok bus" and "x \<in> set (eb_events bus)" and "\<not> unleased now x"
  shows "x \<in> set (eb_events (snd (bus_claim_next now token consumer project types lease bus)))"
proof -
  obtain taken where t: "claim_effect now token consumer project lease taken x
      \<in> set (eb_events (snd (bus_claim_next now token consumer project types lease bus)))"
    "taken \<noteq> None \<Longrightarrow> \<exists>e\<in>set (eb_events bus). taken = Some (be_id e) \<and> eligible now project types e"
    using claim_next_row [OF assms(1,2), of now token consumer project lease types] by blast
  have "taken \<noteq> Some (be_id x)"
    using t(2) bus_ok_same_id [OF assms(1) _ assms(2)] assms(3) by (auto simp: eligible_def)
  then have "claim_effect now token consumer project lease taken x = x"
    using assms(3) by (simp add: claim_effect_def exhausted_def)
  with t(1) show ?thesis by simp
qed

section \<open>Claims\<close>

text \<open>
  C21: \<open>claim_next\<close> hands out the oldest event that is unleased, in scope, of a wanted type and
  under its delivery budget, marks it claimed by the caller until the lease ends and counts the
  delivery; it returns nothing exactly when there is no such event. Of the other rows it changes
  those alone that have spent their budget and are not leased: they become dead letters.\<close>

theorem event_claim_contract:
  assumes "bus_ok bus"
    and "bus_claim_next now token consumer project types lease bus = (r, bus')"
  shows "bus_ok bus'
    \<and> (case r of
         None \<Rightarrow> \<forall>x\<in>set (eb_events bus). \<not> eligible now project types x
       | Some c \<Rightarrow> \<exists>e\<in>set (eb_events bus). eligible now project types e
           \<and> c = claimed_row now token consumer lease e
           \<and> (\<forall>x\<in>set (eb_events bus). eligible now project types x \<longrightarrow> be_seq e \<le> be_seq x))
    \<and> eb_events bus' = map (\<lambda>x. if Some (be_id x) = map_option be_id r
           then claimed_row now token consumer lease x
           else if exhausted now project x then dead_letter x else x) (eb_events bus)"
proof -
  have eqs: "r = fst (bus_claim_next now token consumer project types lease bus)"
    "bus' = snd (bus_claim_next now token consumer project types lease bus)"
    using assms(2) by simp_all
  have "bus_ok bus'" using assms(1) by (simp add: eqs bus_ok_claim)
  moreover have "(case r of
         None \<Rightarrow> \<forall>x\<in>set (eb_events bus). \<not> eligible now project types x
       | Some c \<Rightarrow> \<exists>e\<in>set (eb_events bus). eligible now project types e
           \<and> c = claimed_row now token consumer lease e
           \<and> (\<forall>x\<in>set (eb_events bus). eligible now project types x \<longrightarrow> be_seq e \<le> be_seq x))
    \<and> eb_events bus' = map (claim_effect now token consumer project lease (map_option be_id r)) (eb_events bus)"
    using assms(1)
  proof (cases rule: claim_next_cases [where now = now and token = token and consumer = consumer
        and project = project and types = types and lease = lease])
    case none
    then show ?thesis by (simp add: eqs)
  next
    case (claimed e)
    then have "be_id (claimed_row now token consumer lease e) = be_id e"
      by (simp add: claimed_row_def)
    with claimed show ?thesis by (auto simp: eqs)
  qed
  ultimately show ?thesis by (simp add: claim_effect_def [abs_def])
qed

fun call_clock :: "bus_call \<Rightarrow> timestamp option" where
  \<comment> \<open>the clock a claim compares leases with\<close>
  "call_clock (CallClaim now token consumer project types lease) = Some now"
| "call_clock _ = None"

fun call_token :: "bus_call \<Rightarrow> (string \<times> string) option" where
  \<comment> \<open>the claim a call presents\<close>
  "call_token (CallAck now eid token) = Some (eid, token)"
| "call_token (CallRelease eid token error) = Some (eid, token)"
| "call_token (CallFail eid token error) = Some (eid, token)"
| "call_token _ = None"

lemma exec_keeps_busy:
  assumes "bus_ok bus" and "x \<in> set (eb_events bus)"
    and "be_status x \<noteq> EvFailed"
    and "call_token call \<noteq> Some (be_id x, token)" and "be_token x = Some token"
    and "\<And>now. call_clock call = Some now \<Longrightarrow> \<not> unleased now x"
  shows "x \<in> set (eb_events (bus_exec call bus))"
  using assms(2-)
  by (cases call)
    (auto simp: publish_keeps_events frame_simps claim_keeps_busy assms(1) bus_ack_def bus_release_def
      bus_fail_def bus_retry_def held_with_def intro!: update_events_mem)

text \<open>
  C22: A live claim is exclusive: whatever calls any processes make, as long as none of them
  presents the claim's own token and no claim is attempted with a clock past the lease, the claimed
  event keeps its holder, its token, its lease and its attempt count; it is neither handed out again
  nor acknowledged, released, failed or dead-lettered.\<close>

theorem live_claim_exclusive:
  assumes "bus_ok bus" and "x \<in> set (eb_events bus)" and "be_status x = EvClaimed"
    and "be_token x = Some token" and "be_lease x = Some until"
    and "\<forall>call\<in>set calls. call_token call \<noteq> Some (be_id x, token)
           \<and> (\<forall>now. call_clock call = Some now \<longrightarrow> now \<le> until)"
  shows "bus_get (be_id x) (fold bus_exec calls bus) = Some x"
proof -
  have "x \<in> set (eb_events (fold bus_exec calls bus))"
    using assms(1,2,6)
  proof (induction calls arbitrary: bus)
    case Nil
    then show ?case by simp
  next
    case (Cons call calls)
    have "x \<in> set (eb_events (bus_exec call bus))"
      using Cons.prems assms(3-5)
      by (intro exec_keeps_busy) (auto simp: unleased_def)
    with Cons show ?case by (simp add: bus_ok_exec)
  qed
  with bus_get_iff [OF bus_ok_run [OF assms(1)]] show ?thesis by blast
qed

text \<open>
  An acknowledged event is final, except to its own token: no publication, claim, cursor,
  retry or call with another token changes it, whatever the clock; but \<open>release\<close> with the token
  that acknowledged it matches the row too and makes the event pending again.\<close>

theorem acked_event_final_but_for_release:
  assumes "bus_ok bus" and "x \<in> set (eb_events bus)" and "be_status x = EvAcked"
    and "be_token x = Some token"
    and "\<forall>call\<in>set calls. call_token call \<noteq> Some (be_id x, token)"
  shows "bus_get (be_id x) (fold bus_exec calls bus) = Some x
    \<and> bus_get (be_id x) (snd (bus_release (be_id x) token error bus)) =
           Some (x\<lparr>be_status := EvPending, be_claimed_by := None, be_token := None, be_lease := None,
                   be_error := error\<rparr>)"
proof
  show "bus_get (be_id x) (fold bus_exec calls bus) = Some x"
  proof -
    have "x \<in> set (eb_events (fold bus_exec calls bus))"
      using assms(1,2,5)
    proof (induction calls arbitrary: bus)
      case Nil
      then show ?case by simp
    next
      case (Cons call calls)
      have "x \<in> set (eb_events (bus_exec call bus))"
        using Cons.prems assms(3,4) by (intro exec_keeps_busy) (auto simp: unleased_def)
      with Cons show ?case by (simp add: bus_ok_exec)
    qed
    with bus_get_iff [OF bus_ok_run [OF assms(1)]] show ?thesis by blast
  qed
next
  let ?f = "\<lambda>e. e\<lparr>be_status := EvPending, be_claimed_by := None, be_token := None, be_lease := None,
                   be_error := error\<rparr>"
  have "?f x \<in> set (eb_events (snd (bus_release (be_id x) token error bus)))"
    unfolding bus_release_def update_events_def
    by (simp add: set_update_where) (use assms(2,4) in \<open>auto simp: held_with_def intro!: bexI [of _ x]\<close>)
  moreover have "bus_ok (snd (bus_release (be_id x) token error bus))"
    using bus_ok_exec [OF assms(1), of "CallRelease (be_id x) token error"] by simp
  ultimately show "bus_get (be_id x) (snd (bus_release (be_id x) token error bus)) = Some (?f x)"
    by (simp add: bus_get_iff)
qed

section \<open>The delivery budget\<close>

definition event_attempts :: "string \<Rightarrow> event_bus \<Rightarrow> nat" where
  "event_attempts eid bus = (case bus_get eid bus of None \<Rightarrow> 0 | Some e \<Rightarrow> be_attempts e)"

lemma attempts_bound: "bus_ok bus \<Longrightarrow> event_attempts eid bus \<le> bus_max_attempts"
  by (auto simp: event_attempts_def bus_get_iff bus_ok_def event_ok_def split: option.splits)

lemma find_map: "List.find p (map f xs) = map_option f (List.find (\<lambda>x. p (f x)) xs)"
  by (induction xs) auto

lemma bus_get_map:
  "(\<And>x. be_id (f x) = be_id x) \<Longrightarrow>
   bus_get eid (bus\<lparr>eb_events := map f (eb_events bus)\<rparr>) = map_option f (bus_get eid bus)"
  by (simp add: bus_get_def find_row_def find_map)

lemma attempts_update:
  assumes "\<And>e. be_id (f e) = be_id e" and "\<And>e. be_attempts (f e) = be_attempts e"
  shows "event_attempts eid (snd (update_events p f bus)) = event_attempts eid bus"
proof -
  have "bus_get eid (snd (update_events p f bus)) = map_option (\<lambda>r. if p r then f r else r) (bus_get eid bus)"
    using assms(1) by (simp add: update_events_def update_where_def bus_get_map)
  then show ?thesis using assms(2) by (simp add: event_attempts_def split: option.splits)
qed

lemma bus_get_id: "bus_get eid bus = Some e \<Longrightarrow> be_id e = eid"
  by (auto simp: bus_get_def find_row_def dest: find_Some_in_set)

lemma attempts_retry_other:
  assumes "rid \<noteq> eid"
  shows "event_attempts eid (snd (bus_retry rid bus)) = event_attempts eid bus"
proof -
  have "bus_get eid (snd (bus_retry rid bus)) = map_option (\<lambda>r. if be_id r = rid \<and> be_status r = EvFailed
      then r\<lparr>be_status := EvPending, be_attempts := 0, be_claimed_by := None, be_token := None,
             be_lease := None\<rparr> else r) (bus_get eid bus)"
    by (simp add: bus_retry_def update_events_def update_where_def bus_get_map)
  with assms show ?thesis
    by (cases "bus_get eid bus") (auto simp: event_attempts_def dest: bus_get_id)
qed

lemma attempts_claim:
  assumes "bus_ok bus"
  shows "event_attempts eid (snd (bus_claim_next now token consumer project types lease bus)) =
     event_attempts eid bus + (if delivers eid (CallClaim now token consumer project types lease) bus then 1 else 0)"
  using assms
proof (cases rule: claim_next_cases [where now = now and token = token and consumer = consumer
      and project = project and types = types and lease = lease])
  case none
  then show ?thesis
    by (simp add: event_attempts_def bus_get_map claim_effect_def dead_letter_def split: option.splits)
next
  case (claimed e)
  have same: "be_id (claim_effect now token consumer project lease taken x) = be_id x" for taken x
    by (simp add: claim_effect_def claimed_row_def dead_letter_def)
  have got: "bus_get (be_id e) bus = Some e" using claimed(1) assms by (simp add: bus_get_iff)
  have attempts: "be_attempts (claim_effect now token consumer project lease (Some (be_id e)) x)
      = be_attempts x + (if be_id x = be_id e then 1 else 0)" for x
    by (simp add: claim_effect_def claimed_row_def dead_letter_def)
  have new: "bus_get eid (snd (bus_claim_next now token consumer project types lease bus)) =
      map_option (claim_effect now token consumer project lease (Some (be_id e))) (bus_get eid bus)"
    using claimed(5) by (simp add: bus_get_map same)
  have del: "delivers eid (CallClaim now token consumer project types lease) bus \<longleftrightarrow> be_id e = eid"
    using claimed(3) by (simp add: claimed_row_def)
  show ?thesis
  proof (cases "be_id e = eid")
    case True
    with got have "bus_get eid bus = Some e" by simp
    with new del attempts True show ?thesis by (simp add: event_attempts_def)
  next
    case False
    have "be_id x \<noteq> be_id e" if "bus_get eid bus = Some x" for x
      using that False assms by (simp add: bus_get_iff)
    with new del attempts False show ?thesis by (simp add: event_attempts_def split: option.splits)
  qed
qed

lemma attempts_publish: "event_attempts eid (snd (publish now nid ne bus)) = event_attempts eid bus"
proof (rule publish_cases [of now nid ne bus])
  fix e
  assume e: "e = event_row now (eb_sequence bus + 1) nid ne"
    "publish now nid ne bus =
       (Inr (e, False), bus\<lparr>eb_events := eb_events bus @ [e], eb_sequence := eb_sequence bus + 1\<rparr>)"
  have "List.find p (xs @ [e]) = (case List.find p xs of None \<Rightarrow> if p e then Some e else None | Some y \<Rightarrow> Some y)"
    for p and xs :: "bus_event list"
    by (induction xs) auto
  then show ?thesis
    by (simp add: event_attempts_def bus_get_def find_row_def e split: option.splits)
qed simp_all

lemma attempts_commit: "event_attempts eid (snd (commit_cursor now consumer seq project bus)) = event_attempts eid bus"
  by (simp add: event_attempts_def bus_get_def frame_simps)

lemma attempts_step:
  assumes "bus_ok bus"
  shows "(if delivers eid call bus then 1 else 0) + event_attempts eid bus
    \<le> event_attempts eid (bus_exec call bus) + bus_max_attempts * (if call = CallRetry eid then 1 else 0)"
proof (cases call)
  case (CallRetry rid)
  have "rid \<noteq> eid \<Longrightarrow> event_attempts eid (snd (bus_retry rid bus)) = event_attempts eid bus"
    by (rule attempts_retry_other)
  then show ?thesis using attempts_bound [OF assms] CallRetry by (auto simp: trans_le_add2)
qed (simp_all add: attempts_publish attempts_claim [OF assms] attempts_commit attempts_update
    bus_ack_def bus_release_def bus_fail_def)

lemma deliveries_bounded:
  "bus_ok bus \<Longrightarrow> deliveries eid calls bus + event_attempts eid bus \<le> bus_max_attempts * (1 + retries eid calls)"
proof (induction calls arbitrary: bus)
  case Nil
  then show ?case by (simp add: attempts_bound)
next
  case (Cons call calls)
  from Cons.IH [OF bus_ok_exec [OF Cons.prems, of call]] attempts_step [OF Cons.prems, of eid call]
  show ?case by (auto simp: algebra_simps)
qed

text \<open>
  C23: No poison event loops: in every run of the bus, an event is handed to a consumer at most
  five times for each life it has had, and it gets a further life only from an operator's retry.\<close>

theorem deliveries_within_budget:
  "deliveries eid calls new_bus \<le> 5 * (1 + retries eid calls)"
  using deliveries_bounded [OF bus_ok_new, of eid calls] by (simp add: bus_max_attempts_def)

section \<open>Publication\<close>

definition event_kept :: "bus_event \<Rightarrow> bus_event \<Rightarrow> bool" where
  "event_kept x y \<longleftrightarrow> be_seq y = be_seq x \<and> be_id y = be_id x \<and> be_key y = be_key x
     \<and> be_project y = be_project x \<and> be_type y = be_type x \<and> be_payload y = be_payload x"

lemma event_kept_refl [simp]: "event_kept x x"
  by (simp add: event_kept_def)

lemma event_kept_trans: "event_kept x y \<Longrightarrow> event_kept y z \<Longrightarrow> event_kept x z"
  by (simp add: event_kept_def)

lemma keeps_identity_same: "keeps_identity f \<Longrightarrow> event_kept x (f x)"
  by (simp add: keeps_identity_def event_kept_def)

lemma stream_update_events:
  "keeps_identity f \<Longrightarrow> list_all2 event_kept (eb_events bus) (eb_events (snd (update_events p f bus)))"
  by (auto simp: update_events_def update_where_def list_all2_conv_all_nth keeps_identity_same)

lemma stream_grows:
  assumes "bus_ok bus"
  shows "\<exists>new. list_all2 event_kept (eb_events bus @ new) (eb_events (bus_exec call bus))"
proof (cases call)
  case (CallPublish now eid ne)
  show ?thesis
  proof (rule publish_cases [of now eid ne bus])
    show ?thesis if "publish now eid ne bus = (Inl err, bus)" for err
      using that CallPublish by (auto simp: list_all2_refl intro: exI [of _ "[]"])
    show ?thesis if "publish now eid ne bus = (Inr (e, True), bus)" for e
      using that CallPublish by (auto simp: list_all2_refl intro: exI [of _ "[]"])
  next
    fix e
    assume "publish now eid ne bus =
       (Inr (e, False), bus\<lparr>eb_events := eb_events bus @ [e], eb_sequence := eb_sequence bus + 1\<rparr>)"
    then show ?thesis using CallPublish by (intro exI [of _ "[e]"]) (simp add: list_all2_refl)
  qed
next
  case (CallClaim now token consumer project types lease)
  have "list_all2 event_kept xs (map (claim_effect now token consumer project lease taken) xs)" for xs taken
    by (simp add: list_all2_conv_all_nth keeps_identity_same claim_effect_identity)
  then have "list_all2 event_kept (eb_events bus)
      (eb_events (snd (bus_claim_next now token consumer project types lease bus)))"
    using assms
    by (cases rule: claim_next_cases [OF assms, where now = now and token = token and consumer = consumer
          and project = project and types = types and lease = lease]) simp_all
  then show ?thesis using CallClaim by (intro exI [of _ "[]"]) simp
next
  case (CallCommit now consumer seq project)
  then show ?thesis by (intro exI [of _ "[]"]) (simp add: frame_simps list_all2_refl)
qed (auto simp: bus_ack_def bus_release_def bus_fail_def bus_retry_def keeps_identity_def
    intro!: exI [of _ "[]"] stream_update_events)

lemma event_kept_exec:
  assumes "bus_ok bus" and "x \<in> set (eb_events bus)"
  shows "\<exists>y\<in>set (eb_events (bus_exec call bus)). event_kept x y"
proof -
  obtain new where "list_all2 event_kept (eb_events bus @ new) (eb_events (bus_exec call bus))"
    using stream_grows [OF assms(1)] by blast
  with assms(2) show ?thesis
    by (metis UnI1 in_set_conv_nth list_all2_conv_all_nth set_append)
qed

lemma event_kept_run:
  "bus_ok bus \<Longrightarrow> x \<in> set (eb_events bus) \<Longrightarrow> \<exists>y\<in>set (eb_events (fold bus_exec calls bus)). event_kept x y"
proof (induction calls arbitrary: bus x)
  case (Cons call calls)
  obtain y where "y \<in> set (eb_events (bus_exec call bus))" "event_kept x y"
    using event_kept_exec [OF Cons.prems] by blast
  moreover obtain z where "z \<in> set (eb_events (fold bus_exec calls (bus_exec call bus)))" "event_kept y z"
    using Cons.IH [OF bus_ok_exec [OF Cons.prems(1)] calculation(1)] by blast
  ultimately show ?case by (auto intro: event_kept_trans)
qed (auto intro: event_kept_refl)

lemma filter_some_key:
  assumes "distinct (filter (\<lambda>k. k \<noteq> None) (map key xs))" and "x \<in> set xs" and "key x = Some k"
  shows "filter (\<lambda>r. key r = Some k) xs = [x]"
  using assms
proof (induction xs)
  case (Cons y ys)
  show ?case
  proof (cases "key y = Some k")
    case True
    then have others: "\<forall>r\<in>set ys. key r \<noteq> Some k" using Cons.prems(1) by (force simp: image_iff)
    then have "y = x" using Cons.prems(2,3) by auto
    with others True show ?thesis by (simp add: filter_empty_conv)
  next
    case False
    then have "x \<in> set ys" using Cons.prems(2,3) by auto
    moreover have "distinct (filter (\<lambda>k. k \<noteq> None) (map key ys))"
      using Cons.prems(1) by (cases "key y") auto
    ultimately show ?thesis using Cons.IH Cons.prems(3) False by simp
  qed
qed simp

lemma one_row_per_key:
  "bus_ok bus \<Longrightarrow> x \<in> set (eb_events bus) \<Longrightarrow> be_key x = Some k \<Longrightarrow>
   filter (\<lambda>r. be_key r = Some k) (eb_events bus) = [x]"
  by (rule filter_some_key) (simp_all add: bus_ok_def)

lemma find_Some_filter: "filter p xs = x # rest \<Longrightarrow> List.find p xs = Some x"
  by (induction xs) (auto split: if_splits)

lemma publish_makes_row:
  assumes "publish now eid ne bus = (Inr (e, d), bus')"
  shows "e \<in> set (eb_events bus') \<and> be_key e = ne_key ne"
  using assms by (cases rule: publish_cases [of now eid ne bus]) auto

text \<open>
  A retried producer cannot duplicate work: once a publication with an idempotency key has
  succeeded, then after any calls of any processes exactly one row carries the key, it is the same
  event, and publishing again with that key (whatever the new type, payload or id) returns
  that row as a duplicate and changes nothing.\<close>

theorem publish_once_per_key:
  assumes "bus_ok bus" and "publish now eid ne bus = (Inr (e, d), bus')"
    and "nonempty (ne_key ne)" and "ne_key ne' = ne_key ne"
    and "ne_type ne' \<noteq> []" and "int (length (event_body ne')) \<le> 64000"
  shows "\<exists>r. filter (\<lambda>r. be_key r = ne_key ne) (eb_events (fold bus_exec calls bus')) = [r] \<and> event_kept e r
    \<and> publish now' eid' ne' (fold bus_exec calls bus') = (Inr (r, True), fold bus_exec calls bus')"
proof -
  let ?later = "fold bus_exec calls bus'"
  have ok': "bus_ok bus'" using bus_ok_publish [OF assms(1), of now eid ne] assms(2) by simp
  then have ok: "bus_ok ?later" by (rule bus_ok_run)
  have "e \<in> set (eb_events bus')" and key: "be_key e = ne_key ne"
    using publish_makes_row [OF assms(2)] by auto
  then obtain r where r: "r \<in> set (eb_events ?later)" "event_kept e r"
    using event_kept_run [OF ok'] by blast
  then have rkey: "be_key r = ne_key ne" using key by (simp add: event_kept_def)
  obtain k where k: "ne_key ne = Some k" using assms(3) by (auto simp: nonempty_def)
  have one: "filter (\<lambda>r. be_key r = ne_key ne) (eb_events ?later) = [r]"
    using one_row_per_key [OF ok r(1)] rkey k by simp
  then have "find_row (\<lambda>e. be_key e = ne_key ne) (eb_events ?later) = Some r"
    by (auto simp: find_row_def find_Some_filter)
  then have "publish now' eid' ne' ?later = (Inr (r, True), ?later)"
    using assms(3-6) by (simp add: publish_def)
  with one r(2) show ?thesis by blast
qed

section \<open>Dead letters\<close>

lemma dead_letters_all:
  "x \<in> set (dead_letters project (- 1) bus) \<longleftrightarrow> x \<in> set (eb_events bus) \<and> be_status x = EvFailed \<and> event_in_scope project x"
  by (auto simp: dead_letters_def sql_limit_def)

lemma exec_keeps_dead:
  assumes "bus_ok bus" and "x \<in> set (eb_events bus)" and "be_status x = EvFailed" and "be_token x = None"
    and "call \<noteq> CallRetry (be_id x)"
  shows "x \<in> set (eb_events (bus_exec call bus))"
  using assms(2-)
  by (cases call)
    (auto simp: publish_keeps_events frame_simps claim_keeps_busy [OF assms(1)] unleased_def bus_ack_def
      bus_release_def bus_fail_def bus_retry_def held_with_def intro!: update_events_mem)

text \<open>
  A poison event becomes visible and stays so: the next claim over its scope turns an
  event that has spent its budget and is not leased into a dead letter with a reason, listed by
  \<open>dead_letters\<close>, and whatever calls follow, it stays exactly that until an operator retries it.\<close>

theorem poison_event_dead_lettered:
  assumes "bus_ok bus" and "x \<in> set (eb_events bus)" and "exhausted now project x"
    and "CallRetry (be_id x) \<notin> set calls"
  shows "dead_letter x \<in> set (dead_letters project (- 1)
           (fold bus_exec calls (snd (bus_claim_next now token consumer project types lease bus))))
       \<and> be_error (dead_letter x) \<noteq> None"
proof -
  let ?bus1 = "snd (bus_claim_next now token consumer project types lease bus)"
  obtain taken where t: "claim_effect now token consumer project lease taken x \<in> set (eb_events ?bus1)"
    "taken \<noteq> None \<Longrightarrow> \<exists>e\<in>set (eb_events bus). taken = Some (be_id e) \<and> eligible now project types e"
    using claim_next_row [OF assms(1,2), of now token consumer project lease types] by blast
  have "taken \<noteq> Some (be_id x)"
    using t(2) bus_ok_same_id [OF assms(1) _ assms(2)] assms(3) by (auto simp: eligible_def exhausted_def)
  then have "claim_effect now token consumer project lease taken x = dead_letter x"
    using assms(3) by (simp add: claim_effect_def)
  then have mem: "dead_letter x \<in> set (eb_events ?bus1)" using t(1) by simp
  have dead: "be_status (dead_letter x) = EvFailed" "be_token (dead_letter x) = None"
    "be_id (dead_letter x) = be_id x" "event_in_scope project (dead_letter x)"
    using assms(3) by (simp_all add: dead_letter_def exhausted_def event_in_scope_def split: option.splits)
  have "dead_letter x \<in> set (eb_events (fold bus_exec calls ?bus1))"
    using bus_ok_claim [OF assms(1)] mem assms(4)
  proof (induction calls arbitrary: bus rule: rev_induct)
    case (snoc call calls)
    then show ?case
      using exec_keeps_dead [OF bus_ok_run, of _ "dead_letter x" calls call] dead by auto
  qed simp
  moreover have "be_error (dead_letter x) \<noteq> None"
    by (simp add: dead_letter_def split: option.splits)
  ultimately show ?thesis using dead by (simp add: dead_letters_all)
qed

section \<open>Causation chains\<close>

definition caused_by :: "bus_event \<Rightarrow> bus_event \<Rightarrow> bool" where
  "caused_by x y \<longleftrightarrow> be_causation x = Some (be_id y)"

definition chain_ok :: "event_bus \<Rightarrow> int \<Rightarrow> bus_event list \<Rightarrow> bool" where
  "chain_ok bus limit chain \<longleftrightarrow> set chain \<subseteq> set (eb_events bus) \<and> distinct (map be_id chain)
     \<and> int (length chain) \<le> max 0 limit \<and> successively caused_by chain"

lemma walk_causes_ok:
  assumes "bus_ok bus" and "chain_ok bus limit chain" and "seen = rev (map be_id chain)"
    and "chain \<noteq> [] \<Longrightarrow> current = be_causation (last chain)"
  shows "\<exists>more. walk_causes bus limit current seen chain = chain @ more
    \<and> chain_ok bus limit (chain @ more)
    \<and> (more \<noteq> [] \<longrightarrow> current = Some (be_id (hd more)))
    \<and> (let next = (if more = [] then current else be_causation (last more)) in
         nonempty next \<longrightarrow> limit \<le> int (length (chain @ more))
           \<or> the next \<in> be_id ` set (chain @ more) \<or> bus_get (the next) bus = None)"
  using assms
proof (induction bus limit current seen chain rule: walk_causes.induct)
  case (1 bus limit current seen chain)
  let ?go = "nonempty current \<and> the current \<notin> set seen \<and> int (length chain) < limit"
  show ?case
  proof (cases "?go \<and> bus_get (the current) bus \<noteq> None")
    case False
    then have "walk_causes bus limit current seen chain = chain"
      by (subst walk_causes.simps) auto
    with False "1.prems" show ?thesis by (intro exI [of _ "[]"]) (auto simp: Let_def)
  next
    case True
    then obtain e where e: "bus_get (the current) bus = Some e" by auto
    have cur: "current = Some (be_id e)"
      using True bus_get_id [OF e] by (auto simp: nonempty_def)
    have mem: "e \<in> set (eb_events bus)" using e "1.prems"(1) by (simp add: bus_get_iff)
    have step: "walk_causes bus limit current seen chain =
        walk_causes bus limit (be_causation e) (the current # seen) (chain @ [e])"
      using True e by (subst walk_causes.simps) simp
    have "chain_ok bus limit (chain @ [e])"
      using "1.prems" True mem cur
      by (auto simp: chain_ok_def successively_append_iff caused_by_def)
    moreover have "the current # seen = rev (map be_id (chain @ [e]))" using "1.prems"(3) cur by simp
    ultimately obtain more where more: "walk_causes bus limit (be_causation e) (the current # seen) (chain @ [e])
        = (chain @ [e]) @ more" "chain_ok bus limit ((chain @ [e]) @ more)"
      "more \<noteq> [] \<longrightarrow> be_causation e = Some (be_id (hd more))"
      "let next = (if more = [] then be_causation e else be_causation (last more)) in
         nonempty next \<longrightarrow> limit \<le> int (length ((chain @ [e]) @ more))
           \<or> the next \<in> be_id ` set ((chain @ [e]) @ more) \<or> bus_get (the next) bus = None"
      using "1.IH" [OF conjunct1 [OF True] e "1.prems"(1)] by fastforce
    then show ?thesis using step cur
      by (intro exI [of _ "e # more"]) (auto simp: Let_def)
  qed
qed

text \<open>
  \<open>causation_chain\<close> returns, and what it returns explains the event: distinct events of the
  log, the first the one asked for, each caused by the next, at most \<open>limit\<close> of them; it is cut
  short only where the log itself ends (no recorded cause, or one the log does not hold) or where
  the causes form a loop.\<close>

theorem causation_chain_explains:
  assumes "bus_ok bus" and "chain = causation_chain eid limit bus"
  shows "set chain \<subseteq> set (eb_events bus) \<and> distinct (map be_id chain)
    \<and> int (length chain) \<le> max 0 limit \<and> successively caused_by chain
    \<and> (case chain of
         [] \<Rightarrow> limit \<le> 0 \<or> eid = [] \<or> bus_get eid bus = None
       | e # _ \<Rightarrow> be_id e = eid \<and> (case be_causation (last chain) of
             None \<Rightarrow> True
           | Some c \<Rightarrow> int (length chain) = limit \<or> c = [] \<or> c \<in> be_id ` set chain \<or> bus_get c bus = None))"
proof -
  have "chain_ok bus limit []" by (simp add: chain_ok_def)
  then obtain more where more: "walk_causes bus limit (Some eid) [] [] = [] @ more" "chain_ok bus limit more"
    "more \<noteq> [] \<longrightarrow> Some eid = Some (be_id (hd more))"
    "let next = (if more = [] then Some eid else be_causation (last more)) in
       nonempty next \<longrightarrow> limit \<le> int (length more)
         \<or> the next \<in> be_id ` set more \<or> bus_get (the next) bus = None"
    using walk_causes_ok [OF assms(1), of limit "[]" "[]" "Some eid"] by auto
  then have chain: "chain = more" by (simp add: assms(2) causation_chain_def)
  have "max 0 limit = limit" if "more \<noteq> []"
    using that more(2) by (cases more) (auto simp: chain_ok_def max_def split: if_splits)
  with more chain show ?thesis
    by (auto simp: chain_ok_def nonempty_def Let_def split: list.split option.split)
qed

section \<open>Observers\<close>

primrec observe ::
  "('s \<Rightarrow> 'e list) \<Rightarrow> ('e \<Rightarrow> int) \<Rightarrow> (int \<Rightarrow> 's \<Rightarrow> 's) \<Rightarrow> ('c \<Rightarrow> 's \<Rightarrow> 's) \<Rightarrow> 'c list \<Rightarrow> 's \<Rightarrow> 'e list \<times> 's" where
  \<comment> \<open>an observer that reads a batch, handles it and commits the position of its last event, once
      before each call of the other processes\<close>
  "observe read pos commit act [] s = ([], s)"
| "observe read pos commit act (c # cs) s =
     (let b = read s;
          s1 = (if b = [] then s else commit (pos (last b)) s);
          (more, s2) = observe read pos commit act cs (act c s1)
      in (b @ more, s2))"

locale cursor_stream =
  fixes ok :: "'s \<Rightarrow> bool" and stream :: "'s \<Rightarrow> 'e list" and pos :: "'e \<Rightarrow> int"
    and position :: "'s \<Rightarrow> int" and read :: "'s \<Rightarrow> 'e list" and commit :: "int \<Rightarrow> 's \<Rightarrow> 's"
    and act :: "'c \<Rightarrow> 's \<Rightarrow> 's" and other :: "'c \<Rightarrow> bool" and n :: nat
  assumes ordered: "ok s \<Longrightarrow> sorted_wrt (<) (map pos (stream s))"
    and read: "ok s \<Longrightarrow> read s = take (Suc n) (filter (\<lambda>e. position s < pos e) (stream s))"
    and commit: "ok s \<Longrightarrow> e \<in> set (stream s) \<Longrightarrow> position s < pos e \<Longrightarrow>
          ok (commit (pos e) s) \<and> stream (commit (pos e) s) = stream s \<and> position (commit (pos e) s) = pos e"
    and act: "ok s \<Longrightarrow> other c \<Longrightarrow> ok (act c s) \<and> position (act c s) = position s
          \<and> (\<exists>new. map pos (stream (act c s)) = map pos (stream s) @ new)"
begin

definition unread :: "'s \<Rightarrow> int list" where
  "unread s = filter (\<lambda>k. position s < k) (map pos (stream s))"

lemma read_unread: "ok s \<Longrightarrow> map pos (read s) = take (Suc n) (unread s)"
  by (simp add: read unread_def filter_map take_map comp_def)

lemma after_take:
  "sorted_wrt (<) (xs :: int list) \<Longrightarrow> xs \<noteq> [] \<Longrightarrow> filter (\<lambda>k. last (take (Suc m) xs) < k) xs = drop (Suc m) xs"
proof (induction xs arbitrary: m)
  case (Cons x xs)
  show ?case
  proof (cases m)
    case 0
    with Cons.prems show ?thesis by (simp add: filter_id_conv)
  next
    case (Suc j)
    show ?thesis
    proof (cases "xs = []")
      case False
      have "x < last (take (Suc j) xs)"
      proof -
        have "last (take (Suc j) xs) \<in> set xs"
          by (rule in_set_takeD [OF last_in_set]) (use False in simp)
        with Cons.prems show ?thesis by simp
      qed
      with Cons False Suc show ?thesis by simp
    qed simp
  qed
qed simp

lemma commit_reads:
  assumes "ok s"
  shows "let b = read s; s1 = (if b = [] then s else commit (pos (last b)) s) in
     ok s1 \<and> stream s1 = stream s \<and> unread s = map pos b @ unread s1
     \<and> (b \<noteq> [] \<longrightarrow> position s < position s1 \<and> position s1 \<in> pos ` set (stream s))"
proof (cases "read s = []")
  case True
  then show ?thesis using assms by simp
next
  case False
  define e where "e = last (read s)"
  have "e \<in> set (read s)" using False by (simp add: e_def)
  then have e: "e \<in> set (stream s)" "position s < pos e"
    using assms by (auto simp: read dest: in_set_takeD)
  note after = commit [OF assms e]
  have last: "last (take (Suc n) (unread s)) = pos e"
    using read_unread [OF assms] last_map [OF False, of pos] by (simp add: e_def)
  have sorted: "sorted_wrt (<) (unread s)"
    using ordered [OF assms] by (simp add: unread_def sorted_wrt_filter)
  have ne: "unread s \<noteq> []" using read_unread [OF assms] False by auto
  have "unread (commit (pos e) s) = filter (\<lambda>k. pos e < k) (unread s)"
    using after e(2) by (auto simp: unread_def intro!: filter_cong)
  also have "\<dots> = drop (Suc n) (unread s)" using after_take [OF sorted ne, of n] last by simp
  finally have "unread s = map pos (read s) @ unread (commit (pos e) s)"
    by (simp add: read_unread [OF assms])
  with after False e show ?thesis by (simp add: e_def)
qed

lemma observe_unread:
  assumes "ok s" and "\<forall>c\<in>set cs. other c"
  shows "case observe read pos commit act cs s of (seen, s') \<Rightarrow>
     ok s' \<and> (\<exists>new. map pos (stream s') = map pos (stream s) @ new)
       \<and> map pos seen @ unread s' = filter (\<lambda>k. position s < k) (map pos (stream s'))"
  using assms
proof (induction cs arbitrary: s)
  case Nil
  then show ?case by (simp add: unread_def)
next
  case (Cons c cs)
  define s1 where "s1 = (if read s = [] then s else commit (pos (last (read s))) s)"
  have s1: "ok s1" "stream s1 = stream s" "unread s = map pos (read s) @ unread s1"
    "read s \<noteq> [] \<Longrightarrow> position s < position s1 \<and> position s1 \<in> pos ` set (stream s)"
    using commit_reads [OF Cons.prems(1)] by (simp_all add: s1_def Let_def)
  have "other c" using Cons.prems(2) by simp
  then obtain new where s2: "ok (act c s1)" "position (act c s1) = position s1"
    "map pos (stream (act c s1)) = map pos (stream s1) @ new"
    using act [OF s1(1)] by blast
  obtain seen s' where rest: "observe read pos commit act cs (act c s1) = (seen, s')" by fastforce
  obtain new' where IH: "ok s'" "map pos (stream s') = map pos (stream (act c s1)) @ new'"
    "map pos seen @ unread s' = filter (\<lambda>k. position s1 < k) (map pos (stream s'))"
    using Cons.IH [OF s2(1)] Cons.prems(2) rest s2(2) by auto
  have L: "map pos (stream s') = map pos (stream s) @ new @ new'"
    using IH(2) s2(3) s1(2) by simp
  have "filter (\<lambda>k. position s < k) (map pos (stream s')) =
      map pos (read s) @ filter (\<lambda>k. position s1 < k) (map pos (stream s'))"
  proof (cases "read s = []")
    case True
    then show ?thesis by (simp add: s1_def)
  next
    case False
    have "sorted_wrt (<) (map pos (stream s) @ new @ new')"
      using ordered [OF IH(1)] by (simp add: L)
    then have late: "\<forall>k\<in>set (new @ new'). position s1 < k"
      using s1(4) [OF False] by (auto simp: sorted_wrt_append)
    then have late': "\<forall>k\<in>set (new @ new'). position s < k"
      using s1(4) [OF False] by fastforce
    have ids: "filter (\<lambda>k. position s1 < k) (new @ new') = new @ new'"
      "filter (\<lambda>k. position s < k) (new @ new') = new @ new'"
      using late late' by (simp_all add: filter_id_conv)
    have "filter (\<lambda>k. position s < k) (map pos (stream s')) = unread s @ new @ new'"
      unfolding L filter_append [of _ "map pos (stream s)"] ids by (simp add: unread_def)
    moreover have "filter (\<lambda>k. position s1 < k) (map pos (stream s')) = unread s1 @ new @ new'"
      unfolding L filter_append [of _ "map pos (stream s)"] ids by (simp add: unread_def s1(2))
    ultimately show ?thesis using s1(3) by simp
  qed
  then have "map pos (read s @ seen) @ unread s' = filter (\<lambda>k. position s < k) (map pos (stream s'))"
    using IH(3) by (simp only: map_append append_assoc)
  moreover have "observe read pos commit act (c # cs) s = (read s @ seen, s')"
    using rest by (simp add: Let_def s1_def [symmetric])
  ultimately show ?case using IH(1) L by auto
qed

end

fun commits_for :: "string \<Rightarrow> string option \<Rightarrow> bus_call \<Rightarrow> bool" where
  \<comment> \<open>another process moves the observer's own cursor\<close>
  "commits_for consumer project (CallCommit now c seq p) \<longleftrightarrow> c = consumer \<and> cursor_scope p = cursor_scope project"
| "commits_for _ _ _ = False"

lemma find_row_append:
  "find_row p (xs @ [y]) = (case find_row p xs of None \<Rightarrow> if p y then Some y else None | Some x \<Rightarrow> Some x)"
  by (induction xs) (auto simp: find_row_def)

lemma find_row_update:
  "(\<And>x. p (f x) = p x) \<Longrightarrow> find_row p (update_where q f xs) = map_option (\<lambda>x. if q x then f x else x) (find_row p xs)"
  by (induction xs) (auto simp: find_row_def)

lemma cursor_row_commit:
  "cursor_row consumer project (snd (commit_cursor now c seq p bus)) =
     (if c = consumer \<and> cursor_scope p = cursor_scope project
      then Some (case cursor_row consumer project bus of
          None \<Rightarrow> \<lparr>ec_consumer = c, ec_project = cursor_scope p, ec_last = seq, ec_updated = Some now\<rparr>
        | Some r \<Rightarrow> r\<lparr>ec_last := max (ec_last r) seq, ec_updated := Some now\<rparr>)
      else cursor_row consumer project bus)"
  unfolding commit_cursor_def cursor_row_def
  by (auto simp: Let_def find_row_append find_row_update split: option.splits
      dest!: find_Some_in_set [of _ _ "_", folded find_row_def])

lemma commit_position:
  assumes "cursor_position consumer project bus \<le> seq"
  shows "cursor_position consumer project (snd (commit_cursor now consumer seq project bus)) = seq"
  using assms by (simp add: cursor_position_def cursor_row_commit split: option.splits)

lemma exec_keeps_cursor:
  assumes "\<not> commits_for consumer project call"
  shows "cursor_row consumer project (bus_exec call bus) = cursor_row consumer project bus"
proof (cases call)
  case (CallPublish now eid ne)
  show ?thesis
    by (rule publish_cases [of now eid ne bus]) (simp_all add: CallPublish cursor_row_def)
next
  case (CallClaim now token c p types lease)
  then show ?thesis
    by (simp add: cursor_row_def bus_claim_next_def dead_letter_exhausted_locked_def Let_def split: list.split)
next
  case (CallCommit now c seq p)
  then show ?thesis using assms by (auto simp: cursor_row_commit)
qed (simp_all add: cursor_row_def bus_ack_def bus_release_def bus_fail_def bus_retry_def update_events_def)

lemma event_kept_scope: "event_kept x y \<Longrightarrow> event_in_scope project y = event_in_scope project x \<and> of_types types y = of_types types x"
  by (simp add: event_kept_def event_in_scope_def of_types_def split: option.splits)

lemma event_kept_filter:
  "list_all2 event_kept xs ys \<Longrightarrow> map be_seq (filter (\<lambda>e. event_in_scope project e \<and> of_types types e) ys)
     = map be_seq (filter (\<lambda>e. event_in_scope project e \<and> of_types types e) xs)"
proof (induction rule: list_all2_induct)
  case (Cons x xs y ys)
  have "be_seq y = be_seq x" using Cons.hyps(1) by (simp add: event_kept_def)
  with Cons.IH event_kept_scope [OF Cons.hyps(1), of project types] show ?case by simp
qed simp

interpretation bus_stream: cursor_stream bus_ok
  "\<lambda>bus. filter (\<lambda>e. event_in_scope project e \<and> of_types types e) (eb_events bus)" be_seq
  "cursor_position consumer project" "read_since consumer project types (int (Suc n))"
  "\<lambda>k bus. snd (commit_cursor now consumer k project bus)" bus_exec
  "\<lambda>call. \<not> commits_for consumer project call" n
  for consumer project types n now
proof
  fix bus :: event_bus assume ok: "bus_ok bus"
  then show "sorted_wrt (<) (map be_seq (filter (\<lambda>e. event_in_scope project e \<and> of_types types e) (eb_events bus)))"
    by (simp add: bus_ok_def sorted_wrt_map sorted_wrt_filter)
  show "read_since consumer project types (int (Suc n)) bus = take (Suc n)
      (filter (\<lambda>e. cursor_position consumer project bus < be_seq e)
        (filter (\<lambda>e. event_in_scope project e \<and> of_types types e) (eb_events bus)))"
    using bus_ok_order [OF ok] by (simp add: read_since_def sql_limit_def nat_add_distrib conj_commute)
next
  fix bus e
  assume "bus_ok bus" "cursor_position consumer project bus < be_seq e"
  then show "bus_ok (snd (commit_cursor now consumer (be_seq e) project bus))
    \<and> filter (\<lambda>e. event_in_scope project e \<and> of_types types e) (eb_events (snd (commit_cursor now consumer (be_seq e) project bus)))
      = filter (\<lambda>e. event_in_scope project e \<and> of_types types e) (eb_events bus)
    \<and> cursor_position consumer project (snd (commit_cursor now consumer (be_seq e) project bus)) = be_seq e"
    by (simp add: bus_ok_commit frame_simps commit_position)
next
  fix bus call
  assume ok: "bus_ok bus" and other: "\<not> commits_for consumer project call"
  obtain new where grown: "list_all2 event_kept (eb_events bus @ new) (eb_events (bus_exec call bus))"
    using stream_grows [OF ok] by blast
  have "cursor_position consumer project (bus_exec call bus) = cursor_position consumer project bus"
    using exec_keeps_cursor [OF other] by (simp add: cursor_position_def)
  then show "bus_ok (bus_exec call bus)
    \<and> cursor_position consumer project (bus_exec call bus) = cursor_position consumer project bus
    \<and> (\<exists>new. map be_seq (filter (\<lambda>e. event_in_scope project e \<and> of_types types e) (eb_events (bus_exec call bus))) =
         map be_seq (filter (\<lambda>e. event_in_scope project e \<and> of_types types e) (eb_events bus)) @ new)"
    using bus_ok_exec [OF ok] event_kept_filter [OF grown, of project types]
    by (simp add: exI)
qed

text \<open>
  C24: At-least-once observation without loss: an observer that repeatedly reads a batch since its
  cursor and commits the last event it handled, while any other processes publish, claim, acknowledge,
  fail, retry and move other cursors in between, has seen, together with what it would read next,
  exactly the events of its scope and types past its starting cursor: each once, in order, none
  skipped.\<close>

theorem observer_sees_every_event:
  assumes "bus_ok bus" and "0 < limit" and "\<forall>call\<in>set calls. \<not> commits_for consumer project call"
    and "observe (read_since consumer project types limit) be_seq
           (\<lambda>k b. snd (commit_cursor now consumer k project b)) bus_exec calls bus = (seen, bus')"
  shows "map be_seq (seen @ read_since consumer project types (- 1) bus') =
    map be_seq (filter (\<lambda>e. cursor_position consumer project bus < be_seq e \<and> event_in_scope project e \<and> of_types types e)
      (eb_events bus'))"
proof -
  obtain n where n: "limit = int (Suc n)"
    using assms(2) by (metis Suc_pred nat_0_iff nat_int not_le pos_int_cases zero_less_iff_neq_zero)
  have all: "bus_ok bus' \<and> map be_seq seen @ bus_stream.unread project types consumer bus' =
      filter (\<lambda>k. cursor_position consumer project bus < k)
        (map be_seq (filter (\<lambda>e. event_in_scope project e \<and> of_types types e) (eb_events bus')))"
    using bus_stream.observe_unread [OF assms(1,3), of types n now] assms(4) by (auto simp: n)
  moreover have "read_since consumer project types (- 1) bus' = filter (\<lambda>e. cursor_position consumer project bus' < be_seq e
      \<and> event_in_scope project e \<and> of_types types e) (eb_events bus')"
    using all bus_ok_order by (simp add: read_since_def sql_limit_def)
  ultimately show ?thesis
    by (simp add: bus_stream.unread_def filter_map comp_def conj_commute)
qed

section \<open>A sample log\<close>

definition sample_new :: "string option \<Rightarrow> string option \<Rightarrow> new_event" where
  "sample_new key cause =
     \<lparr>ne_type = ''TASK_READY'', ne_project = Some ''p'', ne_entity_type = None, ne_entity_id = None,
      ne_payload = Some [(''task'', JInt 7)], ne_correlation = None, ne_key = key, ne_actor = Some ''planner'',
      ne_causation = cause\<rparr>"

definition sample_log :: event_bus where
  "sample_log = fold bus_exec [CallPublish 10 ''e1'' (sample_new (Some ''k'') None),
     CallPublish 11 ''e2'' (sample_new None (Some ''e1''))] new_bus"

definition claim_call :: "timestamp \<Rightarrow> string \<Rightarrow> bus_call" where
  "claim_call now token = CallClaim now token ''worker'' (Some ''p'') [''TASK_READY''] 300"

definition claimed_log :: event_bus where
  "claimed_log = bus_exec (claim_call 20 ''t1'') sample_log"

lemma sample_log_ok: "bus_ok sample_log"
  unfolding sample_log_def by (intro bus_ok_run bus_ok_new)

lemma claimed_log_ok: "bus_ok claimed_log"
  unfolding claimed_log_def by (intro bus_ok_exec sample_log_ok)

lemma sample_log_events: "eb_events sample_log =
    [event_row 10 1 ''e1'' (sample_new (Some ''k'') None), event_row 11 2 ''e2'' (sample_new None (Some ''e1''))]"
  by code_simp

lemma claimed_log_events: "eb_events claimed_log =
    [claimed_row 20 ''t1'' ''worker'' 300 (event_row 10 1 ''e1'' (sample_new (Some ''k'') None)),
     event_row 11 2 ''e2'' (sample_new None (Some ''e1''))]"
  by code_simp

lemma event_claim_contract_witness:
  "bus_ok (snd (bus_claim_next 20 ''t1'' ''worker'' (Some ''p'') [] 300 sample_log))
   \<and> map_option be_id (fst (bus_claim_next 20 ''t1'' ''worker'' (Some ''p'') [] 300 sample_log)) = Some ''e1''"
proof
  show "bus_ok (snd (bus_claim_next 20 ''t1'' ''worker'' (Some ''p'') [] 300 sample_log))"
    using event_claim_contract [OF sample_log_ok surjective_pairing] by simp
  show "map_option be_id (fst (bus_claim_next 20 ''t1'' ''worker'' (Some ''p'') [] 300 sample_log)) = Some ''e1''"
    by code_simp
qed

lemma live_claim_exclusive_witness:
  "map_option be_status (bus_get ''e1'' (fold bus_exec [claim_call 320 ''t2'', CallAck 30 ''e1'' ''t2''] claimed_log))
     = Some EvClaimed"
proof -
  let ?x = "claimed_row 20 ''t1'' ''worker'' 300 (event_row 10 1 ''e1'' (sample_new (Some ''k'') None))"
  have "bus_get (be_id ?x) (fold bus_exec [claim_call 320 ''t2'', CallAck 30 ''e1'' ''t2''] claimed_log) = Some ?x"
    by (rule live_claim_exclusive [where token = "''t1''" and until = 320])
      (simp_all add: claimed_log_ok claimed_log_events claimed_row_def claim_call_def)
  then show ?thesis by (simp add: claimed_row_def)
qed

definition acked_log :: event_bus where
  "acked_log = bus_exec (CallAck 30 ''e1'' ''t1'') claimed_log"

lemma acked_event_final_but_for_release_witness:
  "map_option be_status (bus_get ''e1'' (bus_exec (claim_call 900 ''t2'') acked_log)) = Some EvAcked
   \<and> map_option be_status (bus_get ''e1'' (bus_exec (CallRelease ''e1'' ''t1'' None) acked_log)) = Some EvPending"
proof -
  let ?x = "(claimed_row 20 ''t1'' ''worker'' 300 (event_row 10 1 ''e1'' (sample_new (Some ''k'') None)))
     \<lparr>be_status := EvAcked, be_acked := Some 30, be_lease := None\<rparr>"
  have ev: "eb_events acked_log = [?x, event_row 11 2 ''e2'' (sample_new None (Some ''e1''))]"
    by code_simp
  have "bus_ok acked_log" unfolding acked_log_def by (intro bus_ok_exec claimed_log_ok)
  then have "bus_get (be_id ?x) (fold bus_exec [claim_call 900 ''t2''] acked_log) = Some ?x
    \<and> bus_get (be_id ?x) (snd (bus_release (be_id ?x) ''t1'' None acked_log)) =
        Some (?x\<lparr>be_status := EvPending, be_claimed_by := None, be_token := None, be_lease := None,
                 be_error := None\<rparr>)"
    by (rule acked_event_final_but_for_release)
      (simp_all add: ev claimed_row_def claim_call_def)
  then show ?thesis by (simp add: claimed_row_def)
qed

lemma publish_once_per_key_witness:
  "length (filter (\<lambda>r. be_key r = Some ''k'') (eb_events (fold bus_exec [claim_call 20 ''t1'', CallAck 30 ''e1'' ''t1'']
      (snd (publish 10 ''e1'' (sample_new (Some ''k'') None) new_bus))))) = 1"
proof -
  have first: "publish 10 ''e1'' (sample_new (Some ''k'') None) new_bus =
     (Inr (event_row 10 1 ''e1'' (sample_new (Some ''k'') None), False),
      snd (publish 10 ''e1'' (sample_new (Some ''k'') None) new_bus))"
    by code_simp
  have body: "int (length (event_body (sample_new (Some ''k'') None))) \<le> 64000" by code_simp
  show ?thesis
    using publish_once_per_key [OF bus_ok_new first _ refl _ body,
        of "[claim_call 20 ''t1'', CallAck 30 ''e1'' ''t1'']" 40 "''e9''"]
    by (auto simp: nonempty_def sample_new_def)
qed

definition spent_log :: event_bus where
  "spent_log = fold bus_exec [claim_call 1000 ''t1'', claim_call 2000 ''t2'', claim_call 3000 ''t3'',
     claim_call 4000 ''t4'', claim_call 5000 ''t5''] (bus_exec (CallPublish 10 ''e1'' (sample_new None None)) new_bus)"

lemma poison_event_dead_lettered_witness:
  "map be_id (dead_letters (Some ''p'') (- 1) (fold bus_exec [CallAck 6100 ''e1'' ''t5'']
     (snd (bus_claim_next 6000 ''t6'' ''worker'' (Some ''p'') [] 300 spent_log)))) = [''e1'']"
proof -
  let ?x = "(claimed_row 5000 ''t5'' ''worker'' 300 (event_row 10 1 ''e1'' (sample_new None None)))\<lparr>be_attempts := 5\<rparr>"
  have ev: "eb_events spent_log = [?x]" by code_simp
  have ok: "bus_ok spent_log" unfolding spent_log_def by (intro bus_ok_run bus_ok_exec bus_ok_new)
  have ex: "exhausted 6000 (Some ''p'') ?x" by code_simp
  have "dead_letter ?x \<in> set (dead_letters (Some ''p'') (- 1) (fold bus_exec [CallAck 6100 ''e1'' ''t5'']
     (snd (bus_claim_next 6000 ''t6'' ''worker'' (Some ''p'') [] 300 spent_log)))) \<and> be_error (dead_letter ?x) \<noteq> None"
    by (rule poison_event_dead_lettered [OF ok _ ex]) (simp_all add: ev)
  moreover have "length (dead_letters (Some ''p'') (- 1) (fold bus_exec [CallAck 6100 ''e1'' ''t5'']
     (snd (bus_claim_next 6000 ''t6'' ''worker'' (Some ''p'') [] 300 spent_log)))) = 1"
    by code_simp
  ultimately show ?thesis
    by (auto simp: length_Suc_conv dead_letter_def claimed_row_def)
qed

lemma causation_chain_explains_witness:
  "map be_id (causation_chain ''e2'' 50 sample_log) = [''e2'', ''e1'']
   \<and> successively caused_by (causation_chain ''e2'' 50 sample_log)"
proof
  show "map be_id (causation_chain ''e2'' 50 sample_log) = [''e2'', ''e1'']" by code_simp
  show "successively caused_by (causation_chain ''e2'' 50 sample_log)"
    using causation_chain_explains [OF sample_log_ok refl, of "''e2''" 50] by simp
qed

lemma observer_sees_every_event_witness:
  "map be_seq (fst (observe (read_since ''dash'' None [] 1) be_seq
     (\<lambda>k b. snd (commit_cursor 5 ''dash'' k None b)) bus_exec
     [CallPublish 12 ''e3'' (sample_new None None), claim_call 20 ''t1'', CallRetry ''e1''] sample_log)) = [1, 2, 3]"
proof -
  let ?calls = "[CallPublish 12 ''e3'' (sample_new None None), claim_call 20 ''t1'', CallRetry ''e1'']"
  let ?run = "observe (read_since ''dash'' None [] 1) be_seq
     (\<lambda>k b. snd (commit_cursor 5 ''dash'' k None b)) bus_exec ?calls sample_log"
  have "map be_seq (fst ?run @ read_since ''dash'' None [] (- 1) (snd ?run)) =
    map be_seq (filter (\<lambda>e. cursor_position ''dash'' None sample_log < be_seq e \<and> event_in_scope None e \<and> of_types [] e)
      (eb_events (snd ?run)))"
    by (rule observer_sees_every_event [OF sample_log_ok _ _ surjective_pairing, where limit = 1])
      (simp_all add: claim_call_def)
  moreover have "read_since ''dash'' None [] (- 1) (snd ?run) = []" by code_simp
  moreover have "map be_seq (filter (\<lambda>e. cursor_position ''dash'' None sample_log < be_seq e \<and> event_in_scope None e \<and> of_types [] e)
      (eb_events (snd ?run))) = [1, 2, 3]" by code_simp
  ultimately show ?thesis by simp
qed

end
