(* ===== verification/Lease.thy ===== *)
theory Lease
  imports Prelude
begin

text \<open>
  The durable leases of \<open>lease.py\<close>: the check-and-set table both stores share, the pane lease
  that serialises sends to one terminal pane, and the named resource locks with their
  all-or-nothing acquisition and their audited override. A clock reading is an integer (ISO
  texts of one time zone compare like the instants they name), a time to live is counted in
  the same unit, and each SQL statement is one step. The locale \<open>lease_table\<close> is the promise
  the users of a lease rely on, proved for both stores.
\<close>

section \<open>The shared table\<close>

record lease_row =
  l_key :: string
  l_owner :: string
  l_acquired :: timestamp
  l_expires :: timestamp
  l_renewed :: timestamp

definition find_lease :: "string \<Rightarrow> 'x lease_row_scheme list \<Rightarrow> 'x lease_row_scheme option" where
  "find_lease key rows = find_row (\<lambda>r. l_key r = key) rows"

definition excluded_row ::
  "timestamp \<Rightarrow> string \<Rightarrow> string \<Rightarrow> int \<Rightarrow> 'x \<Rightarrow> 'x lease_row_scheme" where
  "excluded_row now key owner ttl extras =
     \<lparr>l_key = key, l_owner = owner, l_acquired = now, l_expires = now + ttl, l_renewed = now,
      \<dots> = extras\<rparr>"

definition acquire_locked ::
  "timestamp \<Rightarrow> string \<Rightarrow> string \<Rightarrow> int \<Rightarrow> 'x \<Rightarrow> 'x lease_row_scheme list
   \<Rightarrow> bool \<times> 'x lease_row_scheme list" where
  \<comment> \<open>one \<open>INSERT ... ON CONFLICT DO UPDATE ... WHERE\<close>: the whole check-and-set\<close>
  "acquire_locked now key owner ttl extras rows =
     (case find_lease key rows of
        None \<Rightarrow> (True, rows @ [excluded_row now key owner ttl extras])
      | Some r \<Rightarrow> if l_owner r = owner \<or> l_expires r < now
          then (True, update_where (\<lambda>r. l_key r = key) (\<lambda>_. excluded_row now key owner ttl extras) rows)
          else (False, rows))"

definition renewable :: "timestamp \<Rightarrow> string \<Rightarrow> string \<Rightarrow> 'x lease_row_scheme \<Rightarrow> bool" where
  "renewable now key owner r \<longleftrightarrow> l_key r = key \<and> l_owner r = owner \<and> now \<le> l_expires r"

definition renew_locked ::
  "timestamp \<Rightarrow> string \<Rightarrow> string \<Rightarrow> int \<Rightarrow> 'x lease_row_scheme list \<Rightarrow> bool \<times> 'x lease_row_scheme list" where
  "renew_locked now key owner ttl rows =
     (\<exists>r\<in>set rows. renewable now key owner r,
      update_where (renewable now key owner) (\<lambda>r. r\<lparr>l_expires := now + ttl, l_renewed := now\<rparr>) rows)"

definition release_locked ::
  "string \<Rightarrow> string \<Rightarrow> 'x lease_row_scheme list \<Rightarrow> bool \<times> 'x lease_row_scheme list" where
  "release_locked key owner rows =
     (\<exists>r\<in>set rows. l_key r = key \<and> l_owner r = owner,
      filter (\<lambda>r. \<not> (l_key r = key \<and> l_owner r = owner)) rows)"

definition prune_expired :: "timestamp \<Rightarrow> int \<Rightarrow> 'x lease_row_scheme list \<Rightarrow> nat \<times> 'x lease_row_scheme list" where
  "prune_expired now grace rows =
     (length (filter (\<lambda>r. l_expires r < now - grace) rows),
      filter (\<lambda>r. \<not> l_expires r < now - grace) rows)"

datatype 'x lease_call =
  Acquire timestamp string string int 'x
| Renew timestamp string string int
| Release string string
| Prune timestamp int

fun exec_call :: "'x lease_call \<Rightarrow> 'x lease_row_scheme list \<Rightarrow> bool \<times> 'x lease_row_scheme list" where
  \<comment> \<open>one statement of any process, and whether it changed a row\<close>
  "exec_call (Acquire now key owner ttl extras) rows = acquire_locked now key owner ttl extras rows"
| "exec_call (Renew now key owner ttl) rows = renew_locked now key owner ttl rows"
| "exec_call (Release key owner) rows = release_locked key owner rows"
| "exec_call (Prune now grace) rows = (fst (prune_expired now grace rows) > 0, snd (prune_expired now grace rows))"

definition lease_view :: "'x lease_row_scheme list \<Rightarrow> string \<Rightarrow> (string \<times> timestamp) option" where
  \<comment> \<open>who holds a key, and until when\<close>
  "lease_view rows key = map_option (\<lambda>r. (l_owner r, l_expires r)) (find_lease key rows)"

section \<open>Pane leases\<close>

type_synonym pane_table = "lease_row list"

definition pane_acquire :: "timestamp \<Rightarrow> string \<Rightarrow> string \<Rightarrow> int \<Rightarrow> pane_table \<Rightarrow> bool \<times> pane_table" where
  "pane_acquire now key owner ttl rows = acquire_locked now key owner ttl () rows"

definition pane_renew :: "timestamp \<Rightarrow> string \<Rightarrow> string \<Rightarrow> int \<Rightarrow> pane_table \<Rightarrow> bool \<times> pane_table" where
  "pane_renew now key owner ttl rows = renew_locked now key owner ttl rows"

definition pane_release :: "string \<Rightarrow> string \<Rightarrow> pane_table \<Rightarrow> bool \<times> pane_table" where
  "pane_release key owner rows = release_locked key owner rows"

definition pane_holder :: "string \<Rightarrow> pane_table \<Rightarrow> lease_row option" where
  "pane_holder key rows = find_lease key rows"

section \<open>Resource locks\<close>

record lock_row = lease_row +
  lk_project :: string
  lk_resource :: string
  lk_reason :: "string option"

record lock_override =
  ov_id :: nat
  ov_project :: string
  ov_resource :: string
  ov_previous_owner :: "string option"
  ov_previous_reason :: "string option"
  ov_actor :: string
  ov_reason :: string
  ov_at :: timestamp

record lock_store =
  ls_locks :: "lock_row list"
  ls_overrides :: "lock_override list"

datatype lease_error = LeaseValueError string

definition control_char :: "char \<Rightarrow> bool" where
  "control_char c \<longleftrightarrow> (of_char c :: nat) < 32 \<or> (of_char c :: nat) = 127"

definition validate_part :: "string \<Rightarrow> string \<Rightarrow> lease_error + string" where
  "validate_part name raw =
     (let v = strip raw in
      if v = [] then Inl (LeaseValueError (name @ '' must be a non-empty string''))
      else if list_ex control_char v
      then Inl (LeaseValueError (name @ '' must not contain control characters''))
      else if length v > 512 then Inl (LeaseValueError (name @ '' exceeds 512 characters''))
      else Inr v)"

definition RESOURCE_KEY_SEPARATOR :: string where
  "RESOURCE_KEY_SEPARATOR = [char_of (31::nat)]"

definition resource_lock_key :: "string \<Rightarrow> string \<Rightarrow> lease_error + string" where
  "resource_lock_key project resource =
     and_then (validate_part ''project_id'' project) (\<lambda>p.
     and_then (validate_part ''resource_key'' resource) (\<lambda>r.
       Inr (p @ RESOURCE_KEY_SEPARATOR @ r)))"

record lock_public =
  lp_project :: string
  lp_resource :: string
  lp_owner :: string
  lp_reason :: "string option"
  lp_acquired :: timestamp
  lp_renewed :: timestamp
  lp_expires :: timestamp
  lp_expired :: bool

definition public_row :: "timestamp \<Rightarrow> lock_row \<Rightarrow> lock_public" where
  "public_row now r = \<lparr>lp_project = lk_project r, lp_resource = lk_resource r, lp_owner = l_owner r,
     lp_reason = lk_reason r, lp_acquired = l_acquired r, lp_renewed = l_renewed r,
     lp_expires = l_expires r, lp_expired = l_expires r < now\<rparr>"

definition public_holder :: "timestamp \<Rightarrow> string \<Rightarrow> lock_store \<Rightarrow> lock_public option" where
  \<comment> \<open>\<open>self._public(self._holder_row(key))\<close>\<close>
  "public_holder now key s = map_option (public_row now) (find_lease key (ls_locks s))"

definition lock_extras :: "string \<Rightarrow> string \<Rightarrow> string option \<Rightarrow> unit lock_row_ext" where
  "lock_extras project resource reason = lock_row.fields project resource reason"

datatype acquire_answer =
  Acquired "lock_public option"
| HeldBy "lock_public option" string string

definition lock_acquire ::
  "timestamp \<Rightarrow> string \<Rightarrow> string \<Rightarrow> string \<Rightarrow> int \<Rightarrow> string option \<Rightarrow> lock_store
   \<Rightarrow> (lease_error + acquire_answer) \<times> lock_store" where
  "lock_acquire now project resource owner ttl reason s =
     (case and_then (validate_part ''project_id'' project) (\<lambda>p.
           and_then (validate_part ''resource_key'' resource) (\<lambda>r.
           and_then (validate_part ''owner_id'' owner) (\<lambda>w.
           and_then (resource_lock_key p r) (\<lambda>key. Inr (p, r, w, key))))) of
        Inl e \<Rightarrow> (Inl e, s)
      | Inr (p, r, w, key) \<Rightarrow>
          (case acquire_locked now key w ttl (lock_extras p r reason) (ls_locks s) of
             (won, rows) \<Rightarrow> let s' = s\<lparr>ls_locks := rows\<rparr> in
               (Inr (if won then Acquired (public_holder now key s')
                     else HeldBy (public_holder now key s') p r), s')))"

datatype lock_conflict = Conflict (conflict_key: string) (conflict_holder: "lock_row option")

fun acquire_each ::
  "timestamp \<Rightarrow> string \<Rightarrow> string \<Rightarrow> int \<Rightarrow> string option \<Rightarrow> string list \<Rightarrow> lock_row list
   \<Rightarrow> lease_error + (lock_conflict + lock_row list)" where
  \<comment> \<open>the loop of \<open>acquire_many\<close>, until a key is refused\<close>
  "acquire_each now p w ttl reason [] rows = Inr (Inr rows)"
| "acquire_each now p w ttl reason (r # rs) rows =
     and_then (resource_lock_key p r) (\<lambda>key.
       case acquire_locked now key w ttl (lock_extras p r reason) rows of
         (True, rows') \<Rightarrow> acquire_each now p w ttl reason rs rows'
       | (False, rows') \<Rightarrow> Inr (Inl (Conflict r (find_lease key rows'))))"

datatype many_answer =
  AllAcquired string "string list" "lock_public option list"
| NoneAcquired (refused_key: string) (refused_holder: "lock_public option") "string list" string

definition wanted_keys :: "string list \<Rightarrow> lease_error + string list" where
  \<comment> \<open>\<open>sorted({validate(key) for key in resource_keys})\<close>, which must not be empty\<close>
  "wanted_keys keys = and_then (map_each (validate_part ''resource_key'') keys) (\<lambda>ks.
     if ks = [] then Inl (LeaseValueError ''resource_keys must contain at least one key'')
     else Inr (sort (remdups ks)))"

definition key_of_lock :: "string \<Rightarrow> string \<Rightarrow> string" where
  "key_of_lock project resource =
     (case resource_lock_key project resource of Inl _ \<Rightarrow> [] | Inr key \<Rightarrow> key)"

definition lock_acquire_many ::
  "timestamp \<Rightarrow> string \<Rightarrow> string list \<Rightarrow> string \<Rightarrow> int \<Rightarrow> string option \<Rightarrow> lock_store
   \<Rightarrow> (lease_error + many_answer) \<times> lock_store" where
  "lock_acquire_many now project keys owner ttl reason s =
     (case and_then (validate_part ''project_id'' project) (\<lambda>p.
           and_then (validate_part ''owner_id'' owner) (\<lambda>w.
           and_then (wanted_keys keys) (\<lambda>wanted. Inr (p, w, wanted)))) of
        Inl e \<Rightarrow> (Inl e, s)
      | Inr (p, w, wanted) \<Rightarrow>
          (case acquire_each now p w ttl reason wanted (ls_locks s) of
             Inl e \<Rightarrow> (Inl e, s)
           | Inr (Inl c) \<Rightarrow> (Inr (NoneAcquired (conflict_key c)
               (map_option (public_row now) (conflict_holder c)) wanted p), s)
           | Inr (Inr rows) \<Rightarrow> let s' = s\<lparr>ls_locks := rows\<rparr> in
               (Inr (AllAcquired p wanted
                  (map (\<lambda>k. public_holder now (key_of_lock p k) s') wanted)), s')))"

datatype renew_answer = Renewed "lock_public option" | NotRenewed "lock_public option"

definition lock_renew ::
  "timestamp \<Rightarrow> string \<Rightarrow> string \<Rightarrow> string \<Rightarrow> int \<Rightarrow> lock_store
   \<Rightarrow> (lease_error + renew_answer) \<times> lock_store" where
  "lock_renew now project resource owner ttl s =
     (case resource_lock_key project resource of
        Inl e \<Rightarrow> (Inl e, s)
      | Inr key \<Rightarrow> (case renew_locked now key owner ttl (ls_locks s) of
          (ok, rows) \<Rightarrow> let s' = s\<lparr>ls_locks := rows\<rparr> in
            (Inr (if ok then Renewed (public_holder now key s') else NotRenewed (public_holder now key s')), s')))"

definition lock_release ::
  "string \<Rightarrow> string \<Rightarrow> string \<Rightarrow> lock_store \<Rightarrow> (lease_error + bool) \<times> lock_store" where
  "lock_release project resource owner s =
     (case resource_lock_key project resource of
        Inl e \<Rightarrow> (Inl e, s)
      | Inr key \<Rightarrow> (case release_locked key owner (ls_locks s) of
          (ok, rows) \<Rightarrow> (Inr ok, s\<lparr>ls_locks := rows\<rparr>)))"

definition owned_in :: "string \<Rightarrow> string option \<Rightarrow> lock_row \<Rightarrow> bool" where
  "owned_in owner project r \<longleftrightarrow> l_owner r = owner \<and> (\<not> nonempty project \<or> Some (lk_project r) = project)"

definition lock_release_all ::
  "string \<Rightarrow> string option \<Rightarrow> lock_store \<Rightarrow> (lease_error + nat) \<times> lock_store" where
  "lock_release_all owner project s =
     (case validate_part ''owner_id'' owner of
        Inl e \<Rightarrow> (Inl e, s)
      | Inr w \<Rightarrow> (Inr (length (filter (owned_in w project) (ls_locks s))),
          s\<lparr>ls_locks := filter (\<lambda>r. \<not> owned_in w project r) (ls_locks s)\<rparr>))"

definition lock_holder :: "timestamp \<Rightarrow> string \<Rightarrow> string \<Rightarrow> lock_store \<Rightarrow> lease_error + lock_public option" where
  "lock_holder now project resource s =
     and_then (resource_lock_key project resource) (\<lambda>key. Inr (public_holder now key s))"

definition list_locks ::
  "timestamp \<Rightarrow> string option \<Rightarrow> string option \<Rightarrow> bool \<Rightarrow> lock_store \<Rightarrow> lock_public list" where
  \<comment> \<open>ordered by project, then by resource\<close>
  "list_locks now project owner include_expired s = map (public_row now)
     (sort_key lk_project (sort_key lk_resource (filter (\<lambda>r.
        (\<not> nonempty project \<or> Some (lk_project r) = project)
        \<and> (\<not> nonempty owner \<or> Some (l_owner r) = owner)
        \<and> (include_expired \<or> now \<le> l_expires r)) (ls_locks s))))"

record force_answer =
  fa_released :: bool
  fa_previous :: "lock_public option"
  fa_actor :: string
  fa_reason :: string
  fa_project :: string
  fa_resource :: string

definition override_row ::
  "timestamp \<Rightarrow> string \<Rightarrow> string \<Rightarrow> lock_public option \<Rightarrow> string \<Rightarrow> string \<Rightarrow> lock_store \<Rightarrow> lock_override" where
  \<comment> \<open>no row of this table is ever deleted, so the next id is one more than their number\<close>
  "override_row now project resource previous actor reason s =
     \<lparr>ov_id = Suc (length (ls_overrides s)), ov_project = project, ov_resource = resource,
      ov_previous_owner = map_option lp_owner previous,
      ov_previous_reason = Option.bind previous lp_reason,
      ov_actor = actor, ov_reason = reason, ov_at = now\<rparr>"

definition force_release ::
  "timestamp \<Rightarrow> string \<Rightarrow> string \<Rightarrow> string \<Rightarrow> string \<Rightarrow> lock_store
   \<Rightarrow> (lease_error + force_answer) \<times> lock_store" where
  "force_release now project resource actor reason s =
     (case and_then (validate_part ''actor'' actor) (\<lambda>_.
           and_then (validate_part ''reason'' reason) (\<lambda>_. resource_lock_key project resource)) of
        Inl e \<Rightarrow> (Inl e, s)
      | Inr key \<Rightarrow>
          (let previous = public_holder now key s;
               gone = (\<exists>r\<in>set (ls_locks s). l_key r = key);
               s1 = s\<lparr>ls_locks := filter (\<lambda>r. l_key r \<noteq> key) (ls_locks s)\<rparr>;
               s2 = (if gone then s1\<lparr>ls_overrides := ls_overrides s1
                       @ [override_row now project resource previous actor reason s1]\<rparr> else s1)
           in (Inr \<lparr>fa_released = gone, fa_previous = previous, fa_actor = actor, fa_reason = reason,
                    fa_project = project, fa_resource = resource\<rparr>, s2)))"

definition force_release_overlapped ::
  "timestamp \<Rightarrow> string \<Rightarrow> string \<Rightarrow> string \<Rightarrow> string \<Rightarrow> lock_store \<Rightarrow> lock_store
   \<Rightarrow> (lease_error + force_answer) \<times> lock_store" where
  \<comment> \<open>the holder is read in a transaction of its own, before the one that deletes: it is the holder in \<open>q\<close>\<close>
  "force_release_overlapped now project resource actor reason q s =
     (case and_then (validate_part ''actor'' actor) (\<lambda>_.
           and_then (validate_part ''reason'' reason) (\<lambda>_. resource_lock_key project resource)) of
        Inl e \<Rightarrow> (Inl e, s)
      | Inr key \<Rightarrow>
          (let previous = public_holder now key q;
               gone = (\<exists>r\<in>set (ls_locks s). l_key r = key);
               s1 = s\<lparr>ls_locks := filter (\<lambda>r. l_key r \<noteq> key) (ls_locks s)\<rparr>;
               s2 = (if gone then s1\<lparr>ls_overrides := ls_overrides s1
                       @ [override_row now project resource previous actor reason s1]\<rparr> else s1)
           in (Inr \<lparr>fa_released = gone, fa_previous = previous, fa_actor = actor, fa_reason = reason,
                    fa_project = project, fa_resource = resource\<rparr>, s2)))"

lemma force_release_undisturbed:
  "force_release_overlapped now project resource actor reason s s = force_release now project resource actor reason s"
  by (simp add: force_release_overlapped_def force_release_def)

lemma force_release_names_the_holder_read:
  \<comment> \<open>another lock may have been taken on the key meanwhile; it is the one that is broken\<close>
  assumes "force_release_overlapped now project resource actor reason q s = (Inr a, s')" and "fa_released a"
  shows "\<exists>key v. resource_lock_key project resource = Inr key \<and> ls_overrides s' = ls_overrides s @ [v]
    \<and> ov_previous_owner v = map_option lp_owner (public_holder now key q)
    \<and> ls_locks s' = filter (\<lambda>r. l_key r \<noteq> key) (ls_locks s)"
  using assms
  by (auto simp: force_release_overlapped_def Let_def override_row_def and_then_Inr_iff split: sum.splits)

definition override_history :: "string option \<Rightarrow> int \<Rightarrow> lock_store \<Rightarrow> lock_override list" where
  "override_history project limit s = sql_limit limit
     (rev (filter (\<lambda>v. \<not> nonempty project \<or> Some (ov_project v) = project) (ls_overrides s)))"

section \<open>The contract of a lease\<close>

abbreviation keys_distinct :: "'x lease_row_scheme list \<Rightarrow> bool" where
  \<comment> \<open>\<open>PRIMARY KEY\<close>\<close>
  "keys_distinct rows \<equiv> distinct (map l_key rows)"

fun foreign_call :: "string \<Rightarrow> string \<Rightarrow> timestamp \<Rightarrow> 'x lease_call \<Rightarrow> bool" where
  \<comment> \<open>a statement run while the clock is at most \<open>e\<close> that is not the holder's own on its key\<close>
  "foreign_call key w e (Acquire now k p ttl x) \<longleftrightarrow> now \<le> e \<and> \<not> (k = key \<and> p = w)"
| "foreign_call key w e (Renew now k p ttl) \<longleftrightarrow> \<not> (k = key \<and> p = w)"
| "foreign_call key w e (Release k p) \<longleftrightarrow> \<not> (k = key \<and> p = w)"
| "foreign_call key w e (Prune now grace) \<longleftrightarrow> now - grace \<le> e"

locale lease_table =
  fixes exec :: "'x lease_call \<Rightarrow> 't \<Rightarrow> bool \<times> 't"
    and view :: "'t \<Rightarrow> string \<Rightarrow> (string \<times> timestamp) option"
    and wf :: "'t \<Rightarrow> bool"
  assumes wf_exec: "wf T \<Longrightarrow> wf (snd (exec c T))"
    and acquire_wins: "wf T \<Longrightarrow> fst (exec (Acquire now k w ttl x) T) \<longleftrightarrow>
      (case view T k of None \<Rightarrow> True | Some (p, e) \<Rightarrow> p = w \<or> e < now)"
    and acquire_view: "wf T \<Longrightarrow> view (snd (exec (Acquire now k w ttl x) T)) =
      (if fst (exec (Acquire now k w ttl x) T) then (view T)(k \<mapsto> (w, now + ttl)) else view T)"
    and renew_view: "wf T \<Longrightarrow> view (snd (exec (Renew now k w ttl) T)) =
      (case view T k of None \<Rightarrow> view T
       | Some (p, e) \<Rightarrow> if p = w \<and> now \<le> e then (view T)(k \<mapsto> (w, now + ttl)) else view T)"
    and release_view: "wf T \<Longrightarrow> view (snd (exec (Release k w) T)) =
      (case view T k of None \<Rightarrow> view T | Some (p, e) \<Rightarrow> if p = w then (view T)(k := None) else view T)"
    and prune_view: "wf T \<Longrightarrow> view (snd (exec (Prune now grace) T)) k =
      (case view T k of None \<Rightarrow> None | Some (p, e) \<Rightarrow> if e < now - grace then None else Some (p, e))"
begin

lemma wf_fold: "wf T \<Longrightarrow> wf (fold (\<lambda>c T. snd (exec c T)) cs T)"
  by (induction cs arbitrary: T) (auto intro: wf_exec)

lemma foreign_keeps:
  assumes "wf T" "view T k = Some (w, e)" "foreign_call k w e c"
  shows "view (snd (exec c T)) k = Some (w, e)"
  using assms
  by (cases c) (auto simp: acquire_view acquire_wins renew_view release_view prune_view split: option.splits)

lemma foreign_keeps_all:
  assumes "wf T" "view T k = Some (w, e)" "\<forall>c\<in>set cs. foreign_call k w e c"
  shows "view (fold (\<lambda>c T. snd (exec c T)) cs T) k = Some (w, e)"
  using assms by (induction cs arbitrary: T) (auto intro: wf_exec foreign_keeps)

lemma mutual_exclusion:
  assumes "wf T" "fst (exec (Acquire now k w ttl x) T)"
    and "\<forall>c\<in>set cs. foreign_call k w (now + ttl) c"
    and "p \<noteq> w" "later \<le> now + ttl"
  shows "\<not> fst (exec (Acquire later k p ttl' x')
           (fold (\<lambda>c T. snd (exec c T)) cs (snd (exec (Acquire now k w ttl x) T))))"
proof -
  have "view (snd (exec (Acquire now k w ttl x) T)) k = Some (w, now + ttl)"
    using assms(1,2) by (simp add: acquire_view)
  from foreign_keeps_all [OF wf_exec [OF assms(1)] this assms(3)] assms(4,5) show ?thesis
    by (simp add: acquire_wins wf_fold wf_exec assms(1))
qed

lemma reclaim:
  assumes "wf T" "view T k = Some (w, e)" "e < now"
  shows "fst (exec (Acquire now k p ttl x) T)"
  using assms by (simp add: acquire_wins)

end

subsection \<open>The shared table keeps it\<close>

lemma find_lease_simps [simp]:
  "find_lease k [] = None"
  "find_lease k (r # rows) = (if l_key r = k then Some r else find_lease k rows)"
  by (simp_all add: find_lease_def find_row_def)

lemma find_lease_None: "find_lease k rows = None \<longleftrightarrow> k \<notin> l_key ` set rows"
  by (induction rows) auto

lemma find_lease_SomeD: "find_lease k rows = Some r \<Longrightarrow> r \<in> set rows \<and> l_key r = k"
  by (induction rows) (auto split: if_splits)

lemma find_lease_append: "find_lease k (xs @ ys) = (case find_lease k xs of None \<Rightarrow> find_lease k ys | Some r \<Rightarrow> Some r)"
  by (induction xs) auto

lemma find_lease_update:
  assumes "\<And>r. p r \<Longrightarrow> l_key (f r) = l_key r"
  shows "find_lease k (update_where p f rows) = map_option (\<lambda>r. if p r then f r else r) (find_lease k rows)"
  using assms by (induction rows) auto

lemma find_lease_filter:
  assumes "keys_distinct rows"
  shows "find_lease k (filter p rows) =
    (case find_lease k rows of None \<Rightarrow> None | Some r \<Rightarrow> if p r then Some r else None)"
  using assms
proof (induction rows)
  case (Cons r rows)
  then have "find_lease (l_key r) rows = None" by (auto simp: find_lease_None)
  with Cons show ?case by (cases "l_key r = k") auto
qed simp

lemma find_lease_distinct: "keys_distinct rows \<Longrightarrow> r \<in> set rows \<Longrightarrow> find_lease (l_key r) rows = Some r"
  by (induction rows) (auto simp: image_iff)

lemma map_key_update [simp]:
  "(\<And>r. p r \<Longrightarrow> l_key (f r) = l_key r) \<Longrightarrow> map l_key (update_where p f rows) = map l_key rows"
  by (induction rows) auto

lemma excluded_fields [simp]:
  "l_key (excluded_row now k w ttl x) = k" "l_owner (excluded_row now k w ttl x) = w"
  "l_expires (excluded_row now k w ttl x) = now + ttl"
  by (simp_all add: excluded_row_def)

lemma acquire_distinct: "keys_distinct rows \<Longrightarrow> keys_distinct (snd (acquire_locked now k w ttl x rows))"
  by (auto simp: acquire_locked_def find_lease_None split: option.splits)

lemma exec_distinct: "keys_distinct rows \<Longrightarrow> keys_distinct (snd (exec_call c rows))"
proof (cases c)
  case (Renew now k w ttl)
  moreover assume "keys_distinct rows"
  ultimately show ?thesis by (simp add: renew_locked_def)
qed (auto simp: acquire_distinct release_locked_def prune_expired_def distinct_map_filter)

lemma acquire_fst:
  "fst (acquire_locked now k w ttl x rows) \<longleftrightarrow>
     (case lease_view rows k of None \<Rightarrow> True | Some (p, e) \<Rightarrow> p = w \<or> e < now)"
  by (auto simp: acquire_locked_def lease_view_def split: option.splits)

lemma acquire_find:
  "find_lease j (snd (acquire_locked now k w ttl x rows)) =
     (if j = k \<and> fst (acquire_locked now k w ttl x rows) then Some (excluded_row now k w ttl x)
      else find_lease j rows)"
proof (cases "find_lease k rows")
  case None
  then show ?thesis by (auto simp: acquire_locked_def find_lease_append split: option.splits)
next
  case (Some r)
  note same = find_lease_SomeD [OF Some]
  have "find_lease j (update_where (\<lambda>r. l_key r = k) (\<lambda>_. excluded_row now k w ttl x) rows) =
      (if j = k then Some (excluded_row now k w ttl x) else find_lease j rows)"
    using Some by (subst find_lease_update) (auto simp: map_option_case split: option.splits dest: find_lease_SomeD)
  with Some show ?thesis by (auto simp: acquire_locked_def)
qed

lemma acquire_view_rows:
  "lease_view (snd (acquire_locked now k w ttl x rows)) =
     (if fst (acquire_locked now k w ttl x rows) then (lease_view rows)(k \<mapsto> (w, now + ttl)) else lease_view rows)"
  by (rule ext) (simp add: lease_view_def acquire_find)

lemma renew_view_rows:
  "lease_view (snd (renew_locked now k w ttl rows)) =
     (case lease_view rows k of None \<Rightarrow> lease_view rows
      | Some (p, e) \<Rightarrow> if p = w \<and> now \<le> e then (lease_view rows)(k \<mapsto> (w, now + ttl)) else lease_view rows)"
proof (rule ext)
  fix j
  have *: "find_lease j (snd (renew_locked now k w ttl rows)) =
      map_option (\<lambda>r. if renewable now k w r then r\<lparr>l_expires := now + ttl, l_renewed := now\<rparr> else r) (find_lease j rows)"
    unfolding renew_locked_def by (simp add: find_lease_update)
  show "lease_view (snd (renew_locked now k w ttl rows)) j =
     (case lease_view rows k of None \<Rightarrow> lease_view rows
      | Some (p, e) \<Rightarrow> if p = w \<and> now \<le> e then (lease_view rows)(k \<mapsto> (w, now + ttl)) else lease_view rows) j"
    unfolding lease_view_def *
    using find_lease_SomeD [of j rows]
    by (cases "j = k"; cases "find_lease j rows"; cases "find_lease k rows") (simp_all add: renewable_def)
qed

lemma release_view_rows:
  assumes "keys_distinct rows"
  shows "lease_view (snd (release_locked k w rows)) =
     (case lease_view rows k of None \<Rightarrow> lease_view rows
      | Some (p, e) \<Rightarrow> if p = w then (lease_view rows)(k := None) else lease_view rows)"
  by (rule ext)
    (auto simp: release_locked_def lease_view_def find_lease_filter [OF assms] split: option.splits
      dest: find_lease_SomeD)

lemma prune_view_rows:
  assumes "keys_distinct rows"
  shows "lease_view (snd (prune_expired now grace rows)) k =
     (case lease_view rows k of None \<Rightarrow> None | Some (p, e) \<Rightarrow> if e < now - grace then None else Some (p, e))"
  by (auto simp: prune_expired_def lease_view_def find_lease_filter [OF assms] split: option.splits)

interpretation lease: lease_table exec_call lease_view keys_distinct
proof
  fix T :: "'x lease_row_scheme list" and c now k w ttl x grace
  assume T: "keys_distinct T"
  show "keys_distinct (snd (exec_call c T))" by (rule exec_distinct [OF T])
  show "fst (exec_call (Acquire now k w ttl x) T) \<longleftrightarrow>
      (case lease_view T k of None \<Rightarrow> True | Some (p, e) \<Rightarrow> p = w \<or> e < now)"
    by (simp add: acquire_fst)
  show "lease_view (snd (exec_call (Acquire now k w ttl x) T)) =
      (if fst (exec_call (Acquire now k w ttl x) T) then (lease_view T)(k \<mapsto> (w, now + ttl)) else lease_view T)"
    by (simp add: acquire_view_rows)
  show "lease_view (snd (exec_call (Renew now k w ttl) T)) =
      (case lease_view T k of None \<Rightarrow> lease_view T
       | Some (p, e) \<Rightarrow> if p = w \<and> now \<le> e then (lease_view T)(k \<mapsto> (w, now + ttl)) else lease_view T)"
    by (simp add: renew_view_rows)
  show "lease_view (snd (exec_call (Release k w) T)) =
      (case lease_view T k of None \<Rightarrow> lease_view T
       | Some (p, e) \<Rightarrow> if p = w then (lease_view T)(k := None) else lease_view T)"
    by (simp add: release_view_rows [OF T])
  show "lease_view (snd (exec_call (Prune now grace) T)) k =
      (case lease_view T k of None \<Rightarrow> None | Some (p, e) \<Rightarrow> if e < now - grace then None else Some (p, e))"
    by (simp add: prune_view_rows [OF T])
qed

section \<open>Keys of resources\<close>

lemma strip_strip [simp]: "strip (strip v) = strip v"
proof -
  define y where "y = dropWhile is_space v"
  define z where "z = rev (dropWhile is_space (rev y))"
  have "rev y = takeWhile is_space (rev y) @ rev z" by (simp add: z_def)
  then have "y = z @ rev (takeWhile is_space (rev y))" by (metis rev_append rev_rev_ident)
  then have hd: "z \<noteq> [] \<Longrightarrow> hd z = hd y" by (metis hd_append2)
  have "y \<noteq> [] \<Longrightarrow> \<not> is_space (hd y)" unfolding y_def by (rule hd_dropWhile)
  then have *: "dropWhile is_space z = z"
    using hd by (cases "z = []"; cases "y = []") (auto simp: dropWhile_eq_self_iff, simp add: z_def)
  have "strip v = z" by (simp add: strip_def y_def z_def)
  moreover have "strip z = z" unfolding strip_def * by (simp add: z_def)
  ultimately show ?thesis by simp
qed

lemma validate_part_Inr:
  "validate_part name raw = Inr v \<longleftrightarrow>
     v = strip raw \<and> v \<noteq> [] \<and> \<not> list_ex control_char v \<and> length v \<le> 512"
  by (auto simp: validate_part_def Let_def)

lemma validate_again: "validate_part name raw = Inr v \<Longrightarrow> validate_part name' v = Inr v"
  by (simp add: validate_part_Inr) (metis strip_strip)

lemma resource_lock_key_Inr:
  "resource_lock_key project resource = Inr key \<longleftrightarrow>
     (\<exists>p r. validate_part ''project_id'' project = Inr p \<and> validate_part ''resource_key'' resource = Inr r
        \<and> key = p @ RESOURCE_KEY_SEPARATOR @ r)"
  by (auto simp: resource_lock_key_def and_then_Inr_iff)

lemma separator_control: "control_char (char_of (31::nat))"
  by (simp add: control_char_def)

lemma key_parts:
  assumes "\<not> list_ex control_char p" "\<not> list_ex control_char p'"
    and "p @ RESOURCE_KEY_SEPARATOR @ r = p' @ RESOURCE_KEY_SEPARATOR @ r'"
  shows "p = p' \<and> r = r'"
proof -
  have *: "takeWhile (\<lambda>c. \<not> control_char c) (q @ RESOURCE_KEY_SEPARATOR @ t) = q" if "\<not> list_ex control_char q" for q t
    using that separator_control
    by (subst takeWhile_append2) (auto simp: list_ex_iff RESOURCE_KEY_SEPARATOR_def)
  have "p = p'" using *[OF assms(1), of r] *[OF assms(2), of r'] assms(3) by simp
  with assms(3) show ?thesis by simp
qed

lemma lock_key_inject:
  assumes "resource_lock_key p r = Inr key" "resource_lock_key p' r' = Inr key"
  shows "strip p = strip p' \<and> strip r = strip r'"
  using assms key_parts by (auto simp: resource_lock_key_Inr validate_part_Inr)

lemma lock_key_valid:
  assumes "validate_part ''project_id'' project = Inr p" "validate_part ''resource_key'' resource = Inr r"
  shows "resource_lock_key p r = Inr (p @ RESOURCE_KEY_SEPARATOR @ r)"
  using assms[THEN validate_again] by (simp add: resource_lock_key_def)

lemma lock_acquire_eq:
  assumes "validate_part ''project_id'' project = Inr p" "validate_part ''resource_key'' resource = Inr r"
    "validate_part ''owner_id'' owner = Inr w"
  shows "lock_acquire now project resource owner ttl reason s =
    (let key = p @ RESOURCE_KEY_SEPARATOR @ r;
         s' = s\<lparr>ls_locks := snd (acquire_locked now key w ttl (lock_extras p r reason) (ls_locks s))\<rparr>
     in (Inr (if fst (acquire_locked now key w ttl (lock_extras p r reason) (ls_locks s))
              then Acquired (public_holder now key s') else HeldBy (public_holder now key s') p r), s'))"
  using assms lock_key_valid [OF assms(1,2)] by (simp add: lock_acquire_def Let_def split: prod.splits)

section \<open>All or nothing\<close>

definition free_for :: "timestamp \<Rightarrow> string \<Rightarrow> string \<Rightarrow> 'x lease_row_scheme list \<Rightarrow> bool" where
  \<comment> \<open>the owner may take the key: it is free, its own, or expired\<close>
  "free_for now key w rows \<longleftrightarrow> (case lease_view rows key of None \<Rightarrow> True | Some (p, e) \<Rightarrow> p = w \<or> e < now)"

lemma acquire_free: "fst (acquire_locked now k w ttl x rows) \<longleftrightarrow> free_for now k w rows"
  by (simp add: acquire_fst free_for_def)

lemma acquire_lost: "\<not> fst (acquire_locked now k w ttl x rows) \<Longrightarrow> snd (acquire_locked now k w ttl x rows) = rows"
  by (cases "find_lease k rows") (auto simp: acquire_locked_def)

lemma free_for_find: "find_lease k rows = find_lease k rows' \<Longrightarrow> free_for now k w rows = free_for now k w rows'"
  by (simp add: free_for_def lease_view_def)

lemma acquire_each_Cons:
  assumes "resource_lock_key p r = Inr key"
  shows "acquire_each now p w ttl reason (r # rs) rows =
    (if free_for now key w rows
     then acquire_each now p w ttl reason rs (snd (acquire_locked now key w ttl (lock_extras p r reason) rows))
     else Inr (Inl (Conflict r (find_lease key rows))))"
  using assms acquire_free [of now key w ttl "lock_extras p r reason" rows]
    acquire_lost [of now key w ttl "lock_extras p r reason" rows]
  by (cases "acquire_locked now key w ttl (lock_extras p r reason) rows"; cases "free_for now key w rows") simp_all

definition lock_key :: "string \<Rightarrow> string \<Rightarrow> string" where
  "lock_key p r = p @ RESOURCE_KEY_SEPARATOR @ r"

definition valid_part :: "string \<Rightarrow> bool" where
  "valid_part v \<longleftrightarrow> v \<noteq> [] \<and> strip v = v \<and> \<not> list_ex control_char v \<and> length v \<le> 512"

lemma validate_valid: "validate_part name raw = Inr v \<Longrightarrow> valid_part v"
  by (auto simp: validate_part_Inr valid_part_def)

lemma valid_validate: "valid_part v \<Longrightarrow> validate_part name v = Inr v"
  by (simp add: validate_part_Inr valid_part_def)

lemma valid_key: "valid_part p \<Longrightarrow> valid_part r \<Longrightarrow> resource_lock_key p r = Inr (lock_key p r)"
  by (simp add: resource_lock_key_def valid_validate lock_key_def)

lemma lock_key_eq: "valid_part r \<Longrightarrow> valid_part r' \<Longrightarrow> lock_key p r = lock_key p r' \<longleftrightarrow> r = r'"
  by (auto simp: lock_key_def)

lemma acquire_each_wins:
  assumes "valid_part p" "\<forall>r\<in>set rs. valid_part r" "distinct rs"
    and "\<forall>r\<in>set rs. free_for now (lock_key p r) w rows"
  shows "\<exists>rows'. acquire_each now p w ttl reason rs rows = Inr (Inr rows')
    \<and> (\<forall>r\<in>set rs. find_lease (lock_key p r) rows'
         = Some (excluded_row now (lock_key p r) w ttl (lock_extras p r reason)))
    \<and> (\<forall>k. k \<notin> lock_key p ` set rs \<longrightarrow> find_lease k rows' = find_lease k rows)"
  using assms(2-4)
proof (induction rs arbitrary: rows)
  case (Cons r rs)
  let ?rows = "snd (acquire_locked now (lock_key p r) w ttl (lock_extras p r reason) rows)"
  have free: "free_for now (lock_key p r) w rows" using Cons.prems(3) by simp
  have other: "lock_key p r' \<noteq> lock_key p r" if "r' \<in> set rs" for r'
    using that Cons.prems by (auto simp: lock_key_eq)
  have "\<forall>r'\<in>set rs. free_for now (lock_key p r') w ?rows"
    using Cons.prems(3) other by (auto simp: acquire_find cong: free_for_find)
  then obtain rows' where rows': "acquire_each now p w ttl reason rs ?rows = Inr (Inr rows')"
    "\<forall>r\<in>set rs. find_lease (lock_key p r) rows' = Some (excluded_row now (lock_key p r) w ttl (lock_extras p r reason))"
    "\<forall>k. k \<notin> lock_key p ` set rs \<longrightarrow> find_lease k rows' = find_lease k ?rows"
    using Cons.IH Cons.prems(1,2) by force
  have "acquire_each now p w ttl reason (r # rs) rows = Inr (Inr rows')"
    using Cons.prems(1) free rows'(1) by (simp add: acquire_each_Cons [OF valid_key [OF assms(1)]] del: acquire_each.simps)
  moreover have "find_lease (lock_key p r) rows' = Some (excluded_row now (lock_key p r) w ttl (lock_extras p r reason))"
    using rows'(3) [rule_format, of "lock_key p r"] other free by (fastforce simp: acquire_find acquire_free)
  ultimately show ?case using rows'(2,3) by (auto simp: acquire_find)
qed simp

lemma acquire_each_loses:
  assumes "valid_part p" "\<forall>r\<in>set rs. valid_part r" "distinct rs"
    and "\<not> (\<forall>r\<in>set rs. free_for now (lock_key p r) w rows)"
  shows "\<exists>r\<in>set rs. \<not> free_for now (lock_key p r) w rows
    \<and> acquire_each now p w ttl reason rs rows = Inr (Inl (Conflict r (find_lease (lock_key p r) rows)))"
  using assms(2-4)
proof (induction rs arbitrary: rows)
  case (Cons r rs)
  let ?rows = "snd (acquire_locked now (lock_key p r) w ttl (lock_extras p r reason) rows)"
  note step = acquire_each_Cons [OF valid_key [OF assms(1)]]
  show ?case
  proof (cases "free_for now (lock_key p r) w rows")
    case False
    with Cons.prems(1) show ?thesis by (simp add: step del: acquire_each.simps)
  next
    case True
    have same: "find_lease (lock_key p r') ?rows = find_lease (lock_key p r') rows" if "r' \<in> set rs" for r'
      using that Cons.prems by (auto simp: acquire_find lock_key_eq)
    have "\<not> (\<forall>r'\<in>set rs. free_for now (lock_key p r') w ?rows)"
      using Cons.prems(3) True same free_for_find by (metis set_ConsD)
    then obtain r' where "r' \<in> set rs" "\<not> free_for now (lock_key p r') w ?rows"
      "acquire_each now p w ttl reason rs ?rows = Inr (Inl (Conflict r' (find_lease (lock_key p r') ?rows)))"
      using Cons.IH [of ?rows] Cons.prems(1,2) by auto
    moreover from this(1,2) have "\<not> free_for now (lock_key p r') w rows"
      using same free_for_find by metis
    ultimately show ?thesis using True same Cons.prems(1)
      by (auto simp: step simp del: acquire_each.simps)
  qed
qed simp


lemma wanted_valid:
  assumes "wanted_keys keys = Inr wanted"
  shows "distinct wanted" "\<forall>r\<in>set wanted. valid_part r" "wanted \<noteq> []" "sorted wanted"
    "set wanted = strip ` set keys"
proof -
  from assms obtain ks where ks: "map_each (validate_part ''resource_key'') keys = Inr ks"
      "ks \<noteq> []" "wanted = sort (remdups ks)"
    by (auto simp: wanted_keys_def and_then_Inr_iff split: if_splits)
  have "ks = map strip keys"
    using ks(1) by (induction keys arbitrary: ks) (auto simp: and_then_Inr_iff validate_part_Inr)
  moreover have "\<forall>r\<in>set ks. valid_part r" using map_each_all [OF ks(1)] validate_valid by blast
  moreover have len: "length wanted \<noteq> 0" using ks(2,3) by (simp add: length_remdups_card_conv)
  moreover from len have "wanted \<noteq> []" by auto
  ultimately show "distinct wanted" "\<forall>r\<in>set wanted. valid_part r" "wanted \<noteq> []" "sorted wanted"
    "set wanted = strip ` set keys"
    using ks(3) by auto
qed

text \<open>
  C30: \<open>acquire_many\<close> takes every requested key or none. When each normalised key is free, expired
  or already the owner's, the answer is the sorted list of keys and exactly those keys are now held
  by the owner until the new expiry. Otherwise nothing is stored at all, and the answer names a
  requested key that a live other owner holds, with that holder.
\<close>

theorem acquire_many_all_or_nothing:
  assumes "validate_part ''project_id'' project = Inr p" "validate_part ''owner_id'' owner = Inr w"
    and "wanted_keys keys = Inr wanted"
  shows "case lock_acquire_many now project keys owner ttl reason s of (answer, s') \<Rightarrow>
    (if \<forall>r\<in>set wanted. free_for now (lock_key p r) w (ls_locks s)
     then (\<exists>locks. answer = Inr (AllAcquired p wanted locks))
        \<and> (\<forall>k. lease_view (ls_locks s') k =
              (if k \<in> lock_key p ` set wanted then Some (w, now + ttl) else lease_view (ls_locks s) k))
        \<and> ls_overrides s' = ls_overrides s
     else s' = s \<and> (\<exists>r\<in>set wanted. \<not> free_for now (lock_key p r) w (ls_locks s)
        \<and> answer = Inr (NoneAcquired r (public_holder now (lock_key p r) s) wanted p)))"
proof -
  note parts = validate_valid [OF assms(1)] wanted_valid(2,1) [OF assms(3)]
  have eq: "and_then (validate_part ''project_id'' project) (\<lambda>p. and_then (validate_part ''owner_id'' owner)
      (\<lambda>w. and_then (wanted_keys keys) (\<lambda>wanted. Inr (p, w, wanted)))) = Inr (p, w, wanted)"
    by (simp add: assms)
  show ?thesis
  proof (cases "\<forall>r\<in>set wanted. free_for now (lock_key p r) w (ls_locks s)")
    case True
    from acquire_each_wins [OF parts True, of ttl reason] obtain rows where rows:
      "acquire_each now p w ttl reason wanted (ls_locks s) = Inr (Inr rows)"
      "\<forall>r\<in>set wanted. find_lease (lock_key p r) rows
         = Some (excluded_row now (lock_key p r) w ttl (lock_extras p r reason))"
      "\<forall>k. k \<notin> lock_key p ` set wanted \<longrightarrow> find_lease k rows = find_lease k (ls_locks s)"
      by blast
    have "lease_view rows k = (if k \<in> lock_key p ` set wanted then Some (w, now + ttl)
        else lease_view (ls_locks s) k)" for k
      using rows(2,3) by (auto simp: lease_view_def)
    with True rows(1) show ?thesis by (simp add: lock_acquire_many_def eq Let_def)
  next
    case False
    from acquire_each_loses [OF parts False, of ttl reason] False show ?thesis
      by (auto simp: lock_acquire_many_def eq public_holder_def)
  qed
qed

section \<open>What loses a live lock\<close>

datatype lock_op =
  OpAcquire timestamp string string string int "string option"
| OpAcquireMany timestamp string "string list" string int "string option"
| OpRenew timestamp string string string int
| OpRelease string string string
| OpReleaseAll string "string option"
| OpForce timestamp string string string string
| OpPrune timestamp int

fun run_lock_op :: "lock_op \<Rightarrow> lock_store \<Rightarrow> lock_store" where
  "run_lock_op (OpAcquire now p r w ttl reason) s = snd (lock_acquire now p r w ttl reason s)"
| "run_lock_op (OpAcquireMany now p rs w ttl reason) s = snd (lock_acquire_many now p rs w ttl reason s)"
| "run_lock_op (OpRenew now p r w ttl) s = snd (lock_renew now p r w ttl s)"
| "run_lock_op (OpRelease p r w) s = snd (lock_release p r w s)"
| "run_lock_op (OpReleaseAll w p) s = snd (lock_release_all w p s)"
| "run_lock_op (OpForce now p r actor reason) s = snd (force_release now p r actor reason s)"
| "run_lock_op (OpPrune now grace) s = s\<lparr>ls_locks := snd (prune_expired now grace (ls_locks s))\<rparr>"

fun foreign_op :: "string \<Rightarrow> timestamp \<Rightarrow> lock_op \<Rightarrow> bool" where
  \<comment> \<open>not an operation of owner \<open>w\<close>, run while its lease has not expired\<close>
  "foreign_op w e (OpAcquire now p r q ttl reason) \<longleftrightarrow> now \<le> e \<and> strip q \<noteq> w"
| "foreign_op w e (OpAcquireMany now p rs q ttl reason) \<longleftrightarrow> now \<le> e \<and> strip q \<noteq> w"
| "foreign_op w e (OpRenew now p r q ttl) \<longleftrightarrow> q \<noteq> w"
| "foreign_op w e (OpRelease p r q) \<longleftrightarrow> q \<noteq> w"
| "foreign_op w e (OpReleaseAll q p) \<longleftrightarrow> strip q \<noteq> w"
| "foreign_op w e (OpForce now p r actor reason) \<longleftrightarrow> True"
| "foreign_op w e (OpPrune now grace) \<longleftrightarrow> now - grace \<le> e"

fun breaks :: "lock_op \<Rightarrow> string option" where
  \<comment> \<open>the key an operator override is aimed at\<close>
  "breaks (OpForce now p r actor reason) =
     (case and_then (validate_part ''actor'' actor) (\<lambda>_.
           and_then (validate_part ''reason'' reason) (\<lambda>_. resource_lock_key p r)) of
        Inl _ \<Rightarrow> None | Inr key \<Rightarrow> Some key)"
| "breaks op = None"

abbreviation after :: "'x lease_call list \<Rightarrow> 'x lease_row_scheme list \<Rightarrow> 'x lease_row_scheme list" where
  "after cs rows \<equiv> fold (\<lambda>c T. snd (exec_call c T)) cs rows"

lemma acquire_each_calls:
  "acquire_each now p w ttl reason rs rows = Inr (Inr rows') \<Longrightarrow>
     \<exists>cs. rows' = after cs rows \<and> (\<forall>c\<in>set cs. \<exists>k x. c = Acquire now k w ttl x)"
proof (induction rs arbitrary: rows)
  case Nil
  then show ?case by (auto intro: exI [of _ "[]"])
next
  case (Cons r rs)
  from Cons.prems obtain key where key: "resource_lock_key p r = Inr key"
    by (auto simp: and_then_Inr_iff)
  with Cons.prems have "acquire_each now p w ttl reason rs
      (snd (acquire_locked now key w ttl (lock_extras p r reason) rows)) = Inr (Inr rows')"
    by (simp add: acquire_each_Cons del: acquire_each.simps split: if_splits)
  from Cons.IH [OF this] obtain cs where
    "rows' = after cs (snd (acquire_locked now key w ttl (lock_extras p r reason) rows))"
    "\<forall>c\<in>set cs. \<exists>k x. c = Acquire now k w ttl x" by blast
  then show ?case by (intro exI [of _ "Acquire now key w ttl (lock_extras p r reason) # cs"]) auto
qed

lemma lock_acquire_rows:
  "\<exists>cs. ls_locks (snd (lock_acquire now p r q ttl reason s)) = after cs (ls_locks s)
     \<and> (\<forall>c\<in>set cs. \<exists>k x. c = Acquire now k (strip q) ttl x)"
proof (cases "\<exists>p' r' w. validate_part ''project_id'' p = Inr p' \<and> validate_part ''resource_key'' r = Inr r'
    \<and> validate_part ''owner_id'' q = Inr w")
  case True
  then obtain p' r' w where v: "validate_part ''project_id'' p = Inr p'"
    "validate_part ''resource_key'' r = Inr r'" "validate_part ''owner_id'' q = Inr w" by blast
  from v(3) have "w = strip q" by (simp add: validate_part_Inr)
  then show ?thesis
    by (intro exI [of _ "[Acquire now (p' @ RESOURCE_KEY_SEPARATOR @ r') w ttl (lock_extras p' r' reason)]"])
      (simp add: lock_acquire_eq [OF v] Let_def)
next
  case False
  then have "ls_locks (snd (lock_acquire now p r q ttl reason s)) = ls_locks s"
    by (cases "validate_part ''project_id'' p"; cases "validate_part ''resource_key'' r";
        cases "validate_part ''owner_id'' q") (auto simp: lock_acquire_def)
  then show ?thesis by (intro exI [of _ "[]"]) simp
qed

lemma lock_acquire_many_rows:
  "\<exists>cs. ls_locks (snd (lock_acquire_many now p rs q ttl reason s)) = after cs (ls_locks s)
     \<and> (\<forall>c\<in>set cs. \<exists>k x. c = Acquire now k (strip q) ttl x)"
proof (cases "\<exists>p' w wanted rows. validate_part ''project_id'' p = Inr p' \<and> validate_part ''owner_id'' q = Inr w
    \<and> wanted_keys rs = Inr wanted \<and> acquire_each now p' w ttl reason wanted (ls_locks s) = Inr (Inr rows)")
  case True
  then obtain p' w wanted rows where v: "validate_part ''project_id'' p = Inr p'"
    "validate_part ''owner_id'' q = Inr w" "wanted_keys rs = Inr wanted"
    "acquire_each now p' w ttl reason wanted (ls_locks s) = Inr (Inr rows)" by blast
  from v(2) have "w = strip q" by (simp add: validate_part_Inr)
  moreover have "ls_locks (snd (lock_acquire_many now p rs q ttl reason s)) = rows"
    by (simp add: lock_acquire_many_def v Let_def)
  ultimately show ?thesis using acquire_each_calls [OF v(4)] by simp
next
  case False
  then have "ls_locks (snd (lock_acquire_many now p rs q ttl reason s)) = ls_locks s"
    by (cases "validate_part ''project_id'' p"; cases "validate_part ''owner_id'' q"; cases "wanted_keys rs")
      (auto simp: lock_acquire_many_def split: sum.splits)
  then show ?thesis by (intro exI [of _ "[]"]) simp
qed

lemma lock_renew_rows:
  "\<exists>cs. ls_locks (snd (lock_renew now p r q ttl s)) = after cs (ls_locks s)
     \<and> (\<forall>c\<in>set cs. \<exists>k. c = Renew now k q ttl)"
proof (cases "resource_lock_key p r")
  case (Inr key)
  then show ?thesis
    by (intro exI [of _ "[Renew now key q ttl]"]) (simp add: lock_renew_def Let_def split_def)
qed (auto simp: lock_renew_def intro: exI [of _ "[]"])

lemma lock_release_rows:
  "\<exists>cs. ls_locks (snd (lock_release p r q s)) = after cs (ls_locks s)
     \<and> (\<forall>c\<in>set cs. \<exists>k. c = Release k q)"
proof (cases "resource_lock_key p r")
  case (Inr key)
  then show ?thesis
    by (intro exI [of _ "[Release key q]"]) (simp add: lock_release_def split_def)
qed (auto simp: lock_release_def intro: exI [of _ "[]"])

lemma op_rows:
  \<comment> \<open>but for the two bulk deletions, an operation is a sequence of statements of the shared table\<close>
  obtains cs where "ls_locks (run_lock_op op s) = after cs (ls_locks s)"
      "\<forall>c\<in>set cs. foreign_op w e op \<longrightarrow> foreign_call key w e c"
  | owner p where "op = OpReleaseAll owner p"
  | now p r actor reason where "op = OpForce now p r actor reason"
proof (cases op)
  case (OpAcquire now p r q ttl reason)
  with lock_acquire_rows [of now p r q ttl reason s] that(1) show ?thesis by force
next
  case (OpAcquireMany now p rs q ttl reason)
  with lock_acquire_many_rows [of now p rs q ttl reason s] that(1) show ?thesis by force
next
  case (OpRenew now p r q ttl)
  with lock_renew_rows [of now p r q ttl s] that(1) show ?thesis by force
next
  case (OpRelease p r q)
  with lock_release_rows [of p r q s] that(1) show ?thesis by force
next
  case (OpPrune now grace)
  with that(1) [of "[Prune now grace]"] show ?thesis by simp
qed (use that in auto)

lemma foreign_op_keeps:
  assumes "foreign_op w e op" "breaks op \<noteq> Some key" "keys_distinct (ls_locks s)"
    and held: "lease_view (ls_locks s) key = Some (w, e)"
  shows "lease_view (ls_locks (run_lock_op op s)) key = Some (w, e)"
proof (cases rule: op_rows [of op s w e key])
  case (1 cs)
  with lease.foreign_keeps_all [OF assms(3) held, of cs] assms(1) show ?thesis by simp
next
  case (2 q p)
  with assms show ?thesis
    by (auto simp: lock_release_all_def lease_view_def find_lease_filter owned_in_def validate_part_Inr
        split: sum.splits option.splits)
next
  case (3 now p r actor reason)
  with assms show ?thesis
    by (auto simp: force_release_def Let_def lease_view_def find_lease_filter split: sum.splits option.splits
        dest: find_lease_SomeD)
qed

lemma run_distinct: "keys_distinct (ls_locks s) \<Longrightarrow> keys_distinct (ls_locks (run_lock_op op s))"
  by (cases rule: op_rows [of op s])
    (auto simp: lease.wf_fold lock_release_all_def force_release_def Let_def distinct_map_filter split: sum.splits)

lemma run_overrides:
  "\<exists>new. ls_overrides (run_lock_op op s) = ls_overrides s @ new
     \<and> (breaks op = Some key \<longrightarrow> lease_view (ls_locks s) key = Some (w, e) \<longrightarrow>
          (\<exists>v\<in>set new. resource_lock_key (ov_project v) (ov_resource v) = Inr key \<and> ov_previous_owner v = Some w))"
proof (cases op)
  case (OpForce now p r actor reason)
  then show ?thesis
    by (auto simp: force_release_def Let_def override_row_def lease_view_def public_holder_def public_row_def
        and_then_Inr_iff split: sum.splits dest: find_lease_SomeD)
next
  case (OpAcquire now p r q ttl reason)
  then show ?thesis by (auto simp: lock_acquire_def Let_def split: sum.splits prod.splits)
next
  case (OpAcquireMany now p rs q ttl reason)
  then show ?thesis by (auto simp: lock_acquire_many_def Let_def split: sum.splits prod.splits)
qed (auto simp: lock_renew_def lock_release_def lock_release_all_def Let_def split: sum.splits prod.splits)


lemma overrides_grow: "\<exists>new. ls_overrides (fold run_lock_op ops s) = ls_overrides s @ new"
proof (induction ops arbitrary: s)
  case (Cons op ops)
  from Cons.IH [of "run_lock_op op s"] run_overrides [of op s] show ?case by fastforce
qed simp

lemma live_lock_step:
  assumes "keys_distinct (ls_locks s)" "lease_view (ls_locks s) key = Some (w, e)" "\<forall>op\<in>set ops. foreign_op w e op"
  shows "lease_view (ls_locks (fold run_lock_op ops s)) key = Some (w, e)
    \<or> (\<exists>new v. ls_overrides (fold run_lock_op ops s) = ls_overrides s @ new \<and> v \<in> set new
         \<and> resource_lock_key (ov_project v) (ov_resource v) = Inr key \<and> ov_previous_owner v = Some w)"
  using assms
proof (induction ops arbitrary: s)
  case (Cons op ops)
  obtain new where new: "ls_overrides (run_lock_op op s) = ls_overrides s @ new"
    "breaks op = Some key \<longrightarrow> (\<exists>v\<in>set new. resource_lock_key (ov_project v) (ov_resource v) = Inr key
       \<and> ov_previous_owner v = Some w)"
    using run_overrides [of op s key w e] Cons.prems(2) by auto
  obtain more where more: "ls_overrides (fold run_lock_op ops (run_lock_op op s)) = ls_overrides s @ new @ more"
    using overrides_grow [of ops "run_lock_op op s"] new(1) by auto
  show ?case
  proof (cases "breaks op = Some key")
    case True
    with new(2) more show ?thesis by auto
  next
    case False
    with Cons.prems have "lease_view (ls_locks (run_lock_op op s)) key = Some (w, e)"
      by (intro foreign_op_keeps) auto
    from Cons.IH [OF run_distinct [OF Cons.prems(1)] this] Cons.prems(3) new(1) show ?thesis by auto
  qed
qed simp

text \<open>
  C29: A live resource lock is never lost silently. From any store, run any sequence of acquisitions,
  bulk acquisitions, renewals, releases, overrides and housekeeping that are not the holder's own,
  while its lease has not expired: afterwards either the holder still holds the key until the same
  expiry, or the audit table has gained a row naming this resource and this previous owner.
\<close>

theorem live_lock_lost_only_by_override:
  assumes "distinct (map l_key (ls_locks s))" and "lease_view (ls_locks s) key = Some (w, e)"
    and "\<forall>op\<in>set ops. foreign_op w e op"
  shows "lease_view (ls_locks (fold run_lock_op ops s)) key = Some (w, e)
    \<or> (\<exists>new v. ls_overrides (fold run_lock_op ops s) = ls_overrides s @ new \<and> v \<in> set new
         \<and> resource_lock_key (ov_project v) (ov_resource v) = Inr key \<and> ov_previous_owner v = Some w)"
  by (rule live_lock_step [OF assms])

text \<open>
  C28: A pane lease excludes every other sender until it expires, and no longer. Once an owner has
  acquired a pane, whatever statements other processes run while the clock is at most the expiry,
  another owner's later acquisition succeeds exactly when the lease has expired by then: no send is
  interleaved, and a crashed holder never pins the pane.
\<close>

theorem pane_lease_exclusive:
  assumes "distinct (map l_key rows)" "pane_acquire now pane w ttl rows = (True, held)"
    and "\<forall>c\<in>set cs. foreign_call pane w (now + ttl) c" "p \<noteq> w"
  shows "fst (pane_acquire later pane p ttl' (fold (\<lambda>c T. snd (exec_call c T)) cs held)) \<longleftrightarrow> now + ttl < later"
proof -
  have won: "fst (exec_call (Acquire now pane w ttl ()) rows)"
    and held: "held = snd (exec_call (Acquire now pane w ttl ()) rows)"
    using assms(2) by (simp_all add: pane_acquire_def)
  have view: "lease_view held pane = Some (w, now + ttl)"
    using won by (simp add: held lease.acquire_view [OF assms(1)] del: exec_call.simps)
  have wf: "distinct (map l_key held)" unfolding held by (rule lease.wf_exec [OF assms(1)])
  have "lease_view (fold (\<lambda>c T. snd (exec_call c T)) cs held) pane = Some (w, now + ttl)"
    by (rule lease.foreign_keeps_all [OF wf view assms(3)])
  then show ?thesis using assms(4) by (simp add: pane_acquire_def acquire_fst)
qed

text \<open>
  An owner that acquired a resource lock can renew and release it under the name it used exactly
  when that name has no surrounding white space: the acquisition stores the trimmed name, the
  other two verbs compare the name as given, so a holder named with a trailing space is refused
  both, and its lock stays until the expiry.
\<close>

theorem untrimmed_owner_is_locked_out:
  assumes "lock_acquire now project resource owner ttl reason s = (Inr (Acquired lock), s')"
    and "distinct (map l_key (ls_locks s))" "later \<le> now + ttl"
  shows "((\<exists>again. fst (lock_renew later project resource owner ttl' s') = Inr (Renewed again))
      \<longleftrightarrow> strip owner = owner)
    \<and> fst (lock_release project resource owner s') = Inr (strip owner = owner)"
proof -
  from assms(1) obtain p r w where v: "validate_part ''project_id'' project = Inr p"
    "validate_part ''resource_key'' resource = Inr r" "validate_part ''owner_id'' owner = Inr w"
    by (auto simp: lock_acquire_def and_then_def split: sum.splits)
  let ?key = "p @ RESOURCE_KEY_SEPARATOR @ r"
  have w: "w = strip owner" using v(3) by (simp add: validate_part_Inr)
  have key: "resource_lock_key project resource = Inr ?key" using v(1,2) by (simp add: resource_lock_key_def)
  have find: "find_lease ?key (ls_locks s') = Some (excluded_row now ?key w ttl (lock_extras p r reason))"
    using assms(1) by (auto simp: lock_acquire_eq [OF v] Let_def acquire_find split: if_splits)
  have wf: "distinct (map l_key (ls_locks s'))"
    using run_distinct [OF assms(2), of "OpAcquire now project resource owner ttl reason"] assms(1) by simp
  let ?row = "excluded_row now ?key w ttl (lock_extras p r reason)"
  have one: "(\<exists>r'\<in>set (ls_locks s'). l_key r' = ?key \<and> Q r') \<longleftrightarrow> Q ?row" for Q
    using find find_lease_SomeD [OF find] find_lease_distinct [OF wf] by (metis option.inject)
  have "(\<exists>r'\<in>set (ls_locks s'). renewable later ?key owner r') \<longleftrightarrow> strip owner = owner"
    unfolding renewable_def one using assms(3) w by simp
  moreover have "(\<exists>r'\<in>set (ls_locks s'). l_key r' = ?key \<and> l_owner r' = owner) \<longleftrightarrow> strip owner = owner"
    unfolding one using w by simp
  ultimately show ?thesis
    by (simp add: lock_renew_def lock_release_def key renew_locked_def release_locked_def Let_def)
qed

section \<open>Instances\<close>

abbreviation locks_after :: "lock_op list \<Rightarrow> lock_store" where
  "locks_after ops \<equiv> fold run_lock_op ops \<lparr>ls_locks = [], ls_overrides = []\<rparr>"

abbreviation locked_store :: lock_store where
  "locked_store \<equiv> locks_after [OpAcquire 100 ''p'' ''src/app.py'' ''w1'' 300 None]"

lemma acquire_many_all_or_nothing_witness:
  "case lock_acquire_many 150 ''p'' ['' b'', ''src/app.py'', ''b''] ''w2'' 300 None locked_store of (answer, s') \<Rightarrow>
     s' = locked_store \<and> (\<exists>r\<in>set [''b'', ''src/app.py'']. \<not> free_for 150 (lock_key ''p'' r) ''w2'' (ls_locks locked_store)
       \<and> answer = Inr (NoneAcquired r (public_holder 150 (lock_key ''p'' r) locked_store) [''b'', ''src/app.py''] ''p''))"
proof -
  have parts: "validate_part ''project_id'' ''p'' = Inr ''p''" "validate_part ''owner_id'' ''w2'' = Inr ''w2''"
    "wanted_keys ['' b'', ''src/app.py'', ''b''] = Inr [''b'', ''src/app.py'']"
    by code_simp+
  have "\<not> (\<forall>r\<in>set [''b'', ''src/app.py'']. free_for 150 (lock_key ''p'' r) ''w2'' (ls_locks locked_store))"
    by code_simp
  with acquire_many_all_or_nothing [OF parts, where now = 150 and ttl = 300 and reason = None and s = locked_store] show ?thesis
    by (simp only: if_False split: prod.splits)
qed

lemma live_lock_lost_only_by_override_witness:
  "let key = lock_key ''p'' ''src/app.py'';
       ops = [OpAcquire 200 ''p'' ''src/app.py'' ''w2'' 300 None, OpPrune 300 0, OpForce 350 ''p'' ''src/app.py'' ''root'' ''dead'']
   in \<exists>new v. ls_overrides (fold run_lock_op ops locked_store) = ls_overrides locked_store @ new \<and> v \<in> set new
         \<and> resource_lock_key (ov_project v) (ov_resource v) = Inr key \<and> ov_previous_owner v = Some ''w1''"
proof -
  let ?key = "lock_key ''p'' ''src/app.py''"
  let ?ops = "[OpAcquire 200 ''p'' ''src/app.py'' ''w2'' 300 None, OpPrune 300 0, OpForce 350 ''p'' ''src/app.py'' ''root'' ''dead'']"
  have "distinct (map l_key (ls_locks locked_store))" "lease_view (ls_locks locked_store) ?key = Some (''w1'', 400)"
    "\<forall>op\<in>set ?ops. foreign_op ''w1'' 400 op" by code_simp+
  from live_lock_lost_only_by_override [OF this]
  have "lease_view (ls_locks (fold run_lock_op ?ops locked_store)) ?key = Some (''w1'', 400) \<or> ?thesis"
    by (simp only: Let_def)
  moreover have "lease_view (ls_locks (fold run_lock_op ?ops locked_store)) ?key = None" by code_simp
  ultimately show ?thesis by simp
qed

lemma pane_lease_exclusive_witness:
  "\<not> fst (pane_acquire 110 ''%1'' ''b'' 20 (snd (exec_call (Renew 105 ''%1'' ''c'' 20) (snd (pane_acquire 100 ''%1'' ''a'' 20 [])))))"
proof -
  let ?got = "pane_acquire 100 ''%1'' ''a'' 20 []"
  have "fst ?got" by code_simp
  then obtain held where held: "?got = (True, held)" by (cases ?got) simp
  have "fst (pane_acquire 110 ''%1'' ''b'' 20 (fold (\<lambda>c T. snd (exec_call c T)) [Renew 105 ''%1'' ''c'' 20] held))
      \<longleftrightarrow> 100 + 20 < (110 :: int)"
    by (rule pane_lease_exclusive [OF _ held]) simp_all
  with held show ?thesis by simp
qed

lemma untrimmed_owner_is_locked_out_witness:
  "fst (lock_release ''p'' ''f'' ''w '' (locks_after [OpAcquire 100 ''p'' ''f'' ''w '' 300 None])) = Inr False"
proof -
  let ?got = "lock_acquire 100 ''p'' ''f'' ''w '' 300 None \<lparr>ls_locks = [], ls_overrides = []\<rparr>"
  have "case fst ?got of Inr (Acquired lock) \<Rightarrow> True | _ \<Rightarrow> False" by code_simp
  then obtain lock where "?got = (Inr (Acquired lock), locks_after [OpAcquire 100 ''p'' ''f'' ''w '' 300 None])"
    by (cases ?got) (auto split: sum.splits acquire_answer.splits)
  from untrimmed_owner_is_locked_out [OF this, where later = 200]
  have "fst (lock_release ''p'' ''f'' ''w '' (locks_after [OpAcquire 100 ''p'' ''f'' ''w '' 300 None])) = Inr (strip ''w '' = ''w '')"
    by simp
  moreover have "strip ''w '' \<noteq> ''w ''" by code_simp
  ultimately show ?thesis by simp
qed

end
