(* ===== verification/HarnessState.thy ===== *)
theory HarnessState
  imports Prelude Complex_Main
begin

text \<open>
  The stages of a harness run (\<open>harness_state.py\<close>) and the pure policy over them
  (\<open>harness_policy.py\<close>): the table of edges, the label the task board shows, modes and write
  authorities, the closed list of human decisions, the context and budget ladders, the model
  tier of a role and what a run may skip. Percentages and budget ratios are rational numbers.
  The difficulty triage \<open>mode_for\<close> takes the verdict of \<open>task_classifier\<close> as an argument.
\<close>

section \<open>Stages\<close>

datatype stage =
  INIT | PLANNING | PLAN_READY | BUILDING | EVALUATING | REVISING | MERGE_READY | MERGED | DONE
| BLOCKED | NEEDS_REDEFINE | RECOVERY_REQUIRED | CONTEXT_ROLLOVER | FAILED_INFRA | CANCELLED

definition STAGES :: "stage list" where
  "STAGES = [INIT, PLANNING, PLAN_READY, BUILDING, EVALUATING, REVISING, MERGE_READY, MERGED, DONE,
     BLOCKED, NEEDS_REDEFINE, RECOVERY_REQUIRED, CONTEXT_ROLLOVER, FAILED_INFRA, CANCELLED]"

definition TERMINAL_STAGES :: "stage list" where
  "TERMINAL_STAGES = [DONE, CANCELLED]"

definition ACTIVE_STAGES :: "stage list" where
  "ACTIVE_STAGES = [PLANNING, PLAN_READY, BUILDING, EVALUATING, REVISING]"

definition RESUMABLE_STAGES :: "stage list" where
  "RESUMABLE_STAGES = [PLANNING, PLAN_READY, BUILDING, EVALUATING, REVISING, MERGE_READY]"

fun stage_edges :: "stage \<Rightarrow> stage list" where
  \<comment> \<open>\<open>VALID_TRANSITIONS\<close>\<close>
  "stage_edges INIT = [PLANNING, PLAN_READY, BLOCKED, CANCELLED, FAILED_INFRA]"
| "stage_edges PLANNING =
     [PLAN_READY, NEEDS_REDEFINE, BLOCKED, CANCELLED, FAILED_INFRA, RECOVERY_REQUIRED, CONTEXT_ROLLOVER]"
| "stage_edges PLAN_READY = [BUILDING, NEEDS_REDEFINE, BLOCKED, CANCELLED, FAILED_INFRA]"
| "stage_edges BUILDING =
     [EVALUATING, RECOVERY_REQUIRED, CONTEXT_ROLLOVER, FAILED_INFRA, BLOCKED, NEEDS_REDEFINE, CANCELLED]"
| "stage_edges EVALUATING =
     [MERGE_READY, REVISING, NEEDS_REDEFINE, BLOCKED, RECOVERY_REQUIRED, CONTEXT_ROLLOVER, FAILED_INFRA, CANCELLED]"
| "stage_edges REVISING = [BUILDING, NEEDS_REDEFINE, BLOCKED, CANCELLED, FAILED_INFRA]"
| "stage_edges MERGE_READY = [MERGED, BLOCKED, CANCELLED, REVISING]"
| "stage_edges MERGED = [DONE, BLOCKED]"
| "stage_edges DONE = []"
| "stage_edges RECOVERY_REQUIRED = [PLANNING, PLAN_READY, BUILDING, EVALUATING, REVISING, BLOCKED, CANCELLED]"
| "stage_edges CONTEXT_ROLLOVER = [PLANNING, PLAN_READY, BUILDING, EVALUATING, REVISING, BLOCKED, CANCELLED]"
| "stage_edges FAILED_INFRA =
     [PLANNING, PLAN_READY, BUILDING, EVALUATING, REVISING, MERGE_READY, BLOCKED, CANCELLED]"
| "stage_edges NEEDS_REDEFINE = [PLANNING, BLOCKED, CANCELLED]"
| "stage_edges BLOCKED =
     [PLANNING, PLAN_READY, BUILDING, EVALUATING, REVISING, MERGE_READY, NEEDS_REDEFINE, CANCELLED]"
| "stage_edges CANCELLED = []"

definition stage_edge :: "stage \<Rightarrow> stage \<Rightarrow> bool" where
  \<comment> \<open>\<open>is_valid_transition\<close>\<close>
  "stage_edge a b \<longleftrightarrow> b \<in> set (stage_edges a)"

definition stage_terminal :: "stage \<Rightarrow> bool" where
  "stage_terminal st \<longleftrightarrow> st \<in> set TERMINAL_STAGES"

datatype verdict = PASS | FAIL | BLOCKED_VERDICT | NEEDS_REDEFINE_VERDICT

fun verdict_text :: "verdict \<Rightarrow> string" where
  "verdict_text PASS = ''pass''"
| "verdict_text FAIL = ''fail''"
| "verdict_text BLOCKED_VERDICT = ''blocked''"
| "verdict_text NEEDS_REDEFINE_VERDICT = ''needs_redefine''"

fun verdict_of :: "string \<Rightarrow> verdict option" where
  "verdict_of s = (if s = ''pass'' then Some PASS else if s = ''fail'' then Some FAIL
     else if s = ''blocked'' then Some BLOCKED_VERDICT
     else if s = ''needs_redefine'' then Some NEEDS_REDEFINE_VERDICT else None)"

datatype failure_class = INFRA_FAILURE | PRODUCT_FAILURE | CONTRACT_FAILURE

datatype board_label = L_PLANNING | L_BUILDING | L_EVALUATING | L_REVISING | L_MERGE_READY | L_BLOCKED | L_DONE

fun project_stage :: "stage \<Rightarrow> board_label" where
  "project_stage INIT = L_PLANNING"
| "project_stage PLANNING = L_PLANNING"
| "project_stage PLAN_READY = L_PLANNING"
| "project_stage BUILDING = L_BUILDING"
| "project_stage EVALUATING = L_EVALUATING"
| "project_stage REVISING = L_REVISING"
| "project_stage MERGE_READY = L_MERGE_READY"
| "project_stage MERGED = L_MERGE_READY"
| "project_stage DONE = L_DONE"
| "project_stage BLOCKED = L_BLOCKED"
| "project_stage NEEDS_REDEFINE = L_BLOCKED"
| "project_stage RECOVERY_REQUIRED = L_BUILDING"
| "project_stage CONTEXT_ROLLOVER = L_BUILDING"
| "project_stage FAILED_INFRA = L_BUILDING"
| "project_stage CANCELLED = L_DONE"

section \<open>Modes, authorities, human decisions\<close>

datatype run_mode = LIGHT | STANDARD | CRITICAL

definition MODES :: "run_mode list" where
  "MODES = [LIGHT, STANDARD, CRITICAL]"

fun mode_name :: "run_mode \<Rightarrow> string" where
  "mode_name LIGHT = ''light''"
| "mode_name STANDARD = ''standard''"
| "mode_name CRITICAL = ''critical''"

fun mode_iterations :: "run_mode \<Rightarrow> int" where
  \<comment> \<open>\<open>MAX_ITERATIONS\<close>\<close>
  "mode_iterations LIGHT = 1"
| "mode_iterations STANDARD = 3"
| "mode_iterations CRITICAL = 6"

fun mode_uses_planner :: "run_mode \<Rightarrow> bool" where
  "mode_uses_planner LIGHT = False"
| "mode_uses_planner STANDARD = True"
| "mode_uses_planner CRITICAL = True"

fun independent_evaluator :: "run_mode \<Rightarrow> bool" where
  "independent_evaluator LIGHT = False"
| "independent_evaluator STANDARD = False"
| "independent_evaluator CRITICAL = True"

datatype authority = SHADOW | SUPERVISED | AUTONOMOUS

fun authority_name :: "authority \<Rightarrow> string" where
  "authority_name SHADOW = ''shadow''"
| "authority_name SUPERVISED = ''supervised''"
| "authority_name AUTONOMOUS = ''autonomous''"

fun writes_queue_status :: "authority \<Rightarrow> bool" where
  "writes_queue_status SHADOW = False"
| "writes_queue_status SUPERVISED = True"
| "writes_queue_status AUTONOMOUS = True"

fun may_self_approve_merge :: "authority \<Rightarrow> bool" where
  "may_self_approve_merge SHADOW = False"
| "may_self_approve_merge SUPERVISED = False"
| "may_self_approve_merge AUTONOMOUS = True"

definition HUMAN_DECISION_REASONS :: "string list" where
  "HUMAN_DECISION_REASONS =
     [''missing_credential'', ''missing_human_input'', ''permission_required'', ''destructive_action'',
      ''legal_license_or_data'', ''ambiguous_product_decision'', ''max_iterations_reached'',
      ''repeated_infra_failure'', ''contradictory_architecture'']"

definition INFRA_FAILURE_ESCALATION_THRESHOLD :: int where
  "INFRA_FAILURE_ESCALATION_THRESHOLD = 3"

section \<open>Ladders\<close>

datatype context_step = CONTINUE | WATCH | CHECKPOINT_AFTER_SLICE | ROLLOVER | REPLACE_SESSION

definition CONTEXT_LADDER :: "(rat \<times> context_step) list" where
  "CONTEXT_LADDER = [(70, CONTINUE), (85, WATCH), (92, CHECKPOINT_AFTER_SLICE), (97, ROLLOVER)]"

fun climb :: "(rat \<times> 'a) list \<Rightarrow> 'a \<Rightarrow> rat \<Rightarrow> 'a" where
  \<comment> \<open>the first rung whose ceiling lies above the value\<close>
  "climb [] highest x = highest"
| "climb ((bound, rung) # ladder) highest x = (if x < bound then rung else climb ladder highest x)"

definition context_action :: "rat option \<Rightarrow> context_step" where
  "context_action percent = (case percent of None \<Rightarrow> CONTINUE
     | Some p \<Rightarrow> climb CONTEXT_LADDER REPLACE_SESSION p)"

definition forces_checkpoint :: "context_step \<Rightarrow> bool" where
  "forces_checkpoint a \<longleftrightarrow> a \<in> {CHECKPOINT_AFTER_SLICE, ROLLOVER, REPLACE_SESSION}"

definition may_reuse_builder :: "rat option \<Rightarrow> bool" where
  "may_reuse_builder percent = (case percent of None \<Rightarrow> True | Some p \<Rightarrow> p < 85)"

datatype budget_step = BUDGET_OK | BUDGET_NARROW | BUDGET_CHECKPOINT | BUDGET_ESCALATE

definition BUDGET_LADDER :: "(rat \<times> budget_step) list" where
  "BUDGET_LADDER = [(3 / 4, BUDGET_OK), (9 / 10, BUDGET_NARROW), (1, BUDGET_CHECKPOINT)]"

definition budget_action :: "int \<Rightarrow> int option \<Rightarrow> budget_step" where
  "budget_action spent budget = (case budget of None \<Rightarrow> BUDGET_OK
     | Some b \<Rightarrow> if b \<le> 0 then BUDGET_OK
         else climb BUDGET_LADDER BUDGET_ESCALATE (of_int spent / of_int b))"

fun soft_token_budget :: "run_mode \<Rightarrow> int" where
  "soft_token_budget LIGHT = 60000"
| "soft_token_budget STANDARD = 250000"
| "soft_token_budget CRITICAL = 700000"

section \<open>Who runs what\<close>

datatype tier = TIER_ECONOMY | TIER_BALANCED | TIER_FRONTIER

datatype role = PLANNER | BUILDER | EVALUATOR

fun tier_matrix :: "run_mode \<Rightarrow> role \<Rightarrow> tier" where
  "tier_matrix LIGHT PLANNER = TIER_ECONOMY"
| "tier_matrix LIGHT BUILDER = TIER_BALANCED"
| "tier_matrix LIGHT EVALUATOR = TIER_ECONOMY"
| "tier_matrix STANDARD PLANNER = TIER_BALANCED"
| "tier_matrix STANDARD BUILDER = TIER_BALANCED"
| "tier_matrix STANDARD EVALUATOR = TIER_ECONOMY"
| "tier_matrix CRITICAL PLANNER = TIER_FRONTIER"
| "tier_matrix CRITICAL BUILDER = TIER_BALANCED"
| "tier_matrix CRITICAL EVALUATOR = TIER_BALANCED"

definition tier_for :: "run_mode \<Rightarrow> role \<Rightarrow> int \<Rightarrow> bool \<Rightarrow> tier" where
  "tier_for mode rl failed ambiguous =
     (if ambiguous \<or> 2 \<le> failed then TIER_FRONTIER else tier_matrix mode rl)"

definition planner_required :: "run_mode \<Rightarrow> string list \<Rightarrow> string list \<Rightarrow> string \<Rightarrow> bool \<times> string" where
  "planner_required mode acceptance checks scope =
     (if mode = LIGHT then (False, ''LIGHT mode builds against the task's own declared acceptance'')
      else if mode = CRITICAL then (True, ''CRITICAL mode always plans before building'')
      else let missing = (if acceptance = [] then [''acceptance''] else [])
             @ (if checks = [] then [''checks''] else [])
             @ (if strip scope = [] then [''scope''] else [])
        in if missing \<noteq> [] then (True, ''task definition lacks '' @ join '', '' missing)
           else (False, ''deterministic contract template covers this task definition''))"

definition evaluator_required :: "run_mode \<Rightarrow> bool \<times> string" where
  "evaluator_required mode =
     (if independent_evaluator mode then (True, ''CRITICAL mode requires an independent evaluator context'')
      else (False, mode_name mode @ '' mode verifies through declared checks in the builder session''))"

section \<open>Triage\<close>

datatype class_mode = FAST_FIX | NORMAL | SAFE

record classification =
  cl_mode :: class_mode
  cl_exclusions :: "string list"

fun area_for_exclusion :: "string \<Rightarrow> string option" where
  "area_for_exclusion hit =
     (if hit = ''auth/authorization'' then Some ''auth''
      else if hit = ''payment'' then Some ''risk''
      else if hit = ''database/schema/migration'' then Some ''migration''
      else if hit = ''destructive data'' then Some ''risk''
      else if hit = ''credentials/secrets'' then Some ''security''
      else if hit = ''session consistency/concurrency'' then Some ''risk''
      else if hit = ''security-sensitive'' then Some ''security''
      else if hit = ''broad infrastructure'' then Some ''deploy''
      else None)"

primrec collect_areas :: "string list \<Rightarrow> string list \<Rightarrow> string list" where
  "collect_areas [] areas = areas"
| "collect_areas (hit # hits) areas = collect_areas hits
     (case area_for_exclusion hit of None \<Rightarrow> areas
      | Some a \<Rightarrow> if a \<in> set areas then areas else areas @ [a])"

fun class_mode_name :: "class_mode \<Rightarrow> string" where
  "class_mode_name FAST_FIX = ''FAST_FIX''"
| "class_mode_name NORMAL = ''NORMAL''"
| "class_mode_name SAFE = ''SAFE''"

fun mode_index :: "run_mode \<Rightarrow> nat" where
  "mode_index LIGHT = 0"
| "mode_index STANDARD = 1"
| "mode_index CRITICAL = 2"

fun mode_of :: "string \<Rightarrow> run_mode option" where
  "mode_of s = (if s = ''light'' then Some LIGHT else if s = ''standard'' then Some STANDARD
     else if s = ''critical'' then Some CRITICAL else None)"

definition triage :: "classification \<Rightarrow> string list \<Rightarrow> bool \<Rightarrow> run_mode \<times> string list" where
  \<comment> \<open>the mode the triage chooses, with its reasons; the flag is \<open>acceptance or checks\<close>\<close>
  "triage cl areas declared =
     (if areas \<noteq> [] then (CRITICAL, [])
      else if cl_mode cl = FAST_FIX \<and> declared
        then (LIGHT, [''fast fix with declared acceptance and checks''])
      else if cl_mode cl = SAFE then (CRITICAL, [''classifier escalated to SAFE''])
      else (STANDARD, [''classifier mode '' @ class_mode_name (cl_mode cl)]))"

definition mode_for :: "classification \<Rightarrow> string option \<Rightarrow> string list \<Rightarrow> string list
    \<Rightarrow> run_mode \<times> string list \<times> string list" where
  \<comment> \<open>mode, critical areas, reasons\<close>
  "mode_for cl requested acceptance checks =
     (let areas = collect_areas (cl_exclusions cl) [];
          (chosen, why) = triage cl areas (acceptance \<noteq> [] \<or> checks \<noteq> []);
          reasons = map (\<lambda>hit. ''risk area: '' @ hit) (cl_exclusions cl) @ why
      in if \<not> nonempty requested then (chosen, areas, reasons)
         else case mode_of (map lower_char (the requested)) of
           None \<Rightarrow> (chosen, areas, reasons @ [''ignored unknown requested mode '' @ py_repr (the requested)])
         | Some want \<Rightarrow>
             if mode_index chosen < mode_index want
               then (want, areas, reasons @ [''escalated by request from '' @ mode_name chosen @ '' to '' @ mode_name want])
             else if mode_index want < mode_index chosen
               then (chosen, areas, reasons @ [''refused de-escalation to '' @ mode_name want
                       @ '': triage requires '' @ mode_name chosen])
             else (chosen, areas, reasons))"

fun authority_of :: "string \<Rightarrow> authority option" where
  "authority_of s = (if s = ''shadow'' then Some SHADOW else if s = ''supervised'' then Some SUPERVISED
     else if s = ''autonomous'' then Some AUTONOMOUS else None)"

record run_policy =
  rp_mode :: run_mode
  rp_authority :: authority
  rp_max_iterations :: int
  rp_independent :: bool
  rp_uses_planner :: bool
  rp_areas :: "string list"
  rp_reasons :: "string list"

definition default_policy :: run_policy where
  "default_policy = \<lparr>rp_mode = STANDARD, rp_authority = SHADOW, rp_max_iterations = 3,
     rp_independent = False, rp_uses_planner = True, rp_areas = [], rp_reasons = []\<rparr>"

definition policy_for ::
  "classification \<Rightarrow> string option \<Rightarrow> string option \<Rightarrow> string list \<Rightarrow> string list \<Rightarrow> run_policy" where
  "policy_for cl requested write_authority acceptance checks =
     (let (mode, areas, reasons) = mode_for cl requested acceptance checks;
          text = map lower_char (str_or write_authority ''shadow'');
          (auth, extra) = (case authority_of text of
              Some a \<Rightarrow> (a, [])
            | None \<Rightarrow> (SHADOW, [''unknown write_authority '' @ py_repr (the write_authority) @ ''; using shadow'']))
      in \<lparr>rp_mode = mode, rp_authority = auth, rp_max_iterations = mode_iterations mode,
          rp_independent = independent_evaluator mode, rp_uses_planner = mode_uses_planner mode,
          rp_areas = areas, rp_reasons = reasons @ extra\<rparr>)"

section \<open>The table of edges\<close>

lemma stage_edges_closed: "set (stage_edges st) \<subseteq> set STAGES"
  by (cases st) (auto simp: STAGES_def)

lemma no_edge_into_init: "\<not> stage_edge st INIT"
  by (cases st) (auto simp: stage_edge_def)

lemma edge_into_merged: "stage_edge st MERGED \<longleftrightarrow> st = MERGE_READY"
  by (cases st) (auto simp: stage_edge_def)

lemma edge_into_done: "stage_edge st DONE \<longleftrightarrow> st = MERGED"
  by (cases st) (auto simp: stage_edge_def)

lemma edge_from_terminal: "stage_terminal st \<Longrightarrow> \<not> stage_edge st st'"
  by (auto simp: stage_terminal_def TERMINAL_STAGES_def stage_edge_def)

section \<open>The triage only escalates\<close>

lemma collect_areas_grow: "areas \<noteq> [] \<Longrightarrow> collect_areas hits areas \<noteq> []"
  by (induction hits arbitrary: areas) (auto split: option.split)

lemma collect_areas_hit:
  "hit \<in> set hits \<Longrightarrow> area_for_exclusion hit \<noteq> None \<Longrightarrow> collect_areas hits areas \<noteq> []"
proof (induction hits arbitrary: areas)
  case (Cons h hits)
  show ?case
  proof (cases "h = hit")
    case True
    with Cons.prems(2) obtain a where "area_for_exclusion h = Some a" by auto
    then show ?thesis
      using collect_areas_grow [of areas hits] collect_areas_grow [of "areas @ [a]" hits]
      by (cases areas) (auto simp del: area_for_exclusion.simps)
  next
    case False
    with Cons show ?thesis by auto
  qed
qed simp

lemma mode_for_mode:
  "fst (mode_for cl requested acceptance checks) =
     (let chosen = fst (triage cl (collect_areas (cl_exclusions cl) []) (acceptance \<noteq> [] \<or> checks \<noteq> []))
      in case (if nonempty requested then mode_of (map lower_char (the requested)) else None) of
           None \<Rightarrow> chosen
         | Some want \<Rightarrow> if mode_index chosen < mode_index want then want else chosen)"
  by (auto simp: mode_for_def Let_def split: prod.splits option.splits simp del: mode_of.simps)

text \<open>
  The difficulty triage only escalates: the mode of a run is at least the one the classifier's
  verdict requires and at least the one requested (when it is a mode at all), and it is one of the two; work in
  a risk area with a rule is CRITICAL whatever the caller asks for.\<close>

theorem triage_only_escalates:
  shows "(let chosen = fst (triage cl (collect_areas (cl_exclusions cl) []) (acceptance \<noteq> [] \<or> checks \<noteq> []));
              mode = fst (mode_for cl requested acceptance checks)
          in mode_index chosen \<le> mode_index mode
           \<and> (case (if nonempty requested then mode_of (map lower_char (the requested)) else None) of
                None \<Rightarrow> mode = chosen
              | Some want \<Rightarrow> mode_index want \<le> mode_index mode \<and> mode \<in> {chosen, want})
           \<and> (if \<exists>hit\<in>set (cl_exclusions cl). area_for_exclusion hit \<noteq> None then mode = CRITICAL else True))"
proof -
  define chosen where "chosen = fst (triage cl (collect_areas (cl_exclusions cl) []) (acceptance \<noteq> [] \<or> checks \<noteq> []))"
  define mode where "mode = fst (mode_for cl requested acceptance checks)"
  define want where "want = (if nonempty requested then mode_of (map lower_char (the requested)) else None)"
  have m: "mode = (case want of None \<Rightarrow> chosen
      | Some w \<Rightarrow> if mode_index chosen < mode_index w then w else chosen)"
    unfolding mode_def want_def chosen_def mode_for_mode Let_def ..
  have "chosen = CRITICAL" if "\<exists>hit\<in>set (cl_exclusions cl). area_for_exclusion hit \<noteq> None"
    using that collect_areas_hit by (auto simp: chosen_def triage_def simp del: area_for_exclusion.simps)
  moreover have "mode = CRITICAL" if "chosen = CRITICAL"
  proof -
    have "\<not> 2 < mode_index w" for w by (cases w) auto
    with that show ?thesis by (simp add: m split: option.split)
  qed
  moreover have "mode_index chosen \<le> mode_index mode" by (simp add: m split: option.split)
  moreover have "case want of None \<Rightarrow> mode = chosen
      | Some w \<Rightarrow> mode_index w \<le> mode_index mode \<and> mode \<in> {chosen, w}"
    by (simp add: m split: option.split)
  ultimately show ?thesis unfolding Let_def chosen_def [symmetric] mode_def [symmetric] want_def [symmetric]
    by simp
qed

lemma triage_only_escalates_witness:
  "fst (mode_for \<lparr>cl_mode = FAST_FIX, cl_exclusions = [''payment'']\<rparr> (Some ''light'') [''a''] []) = CRITICAL"
proof -
  have "\<exists>hit\<in>set [''payment'']. area_for_exclusion hit \<noteq> None" by simp
  then show ?thesis
    using triage_only_escalates[of "\<lparr>cl_mode = FAST_FIX, cl_exclusions = [''payment'']\<rparr>" "[''a'']" "[]" "Some ''light''"]
    unfolding Let_def by simp
qed

end
