(* ===== verification/HarnessContract.thy ===== *)
theory HarnessContract
  imports HarnessState JsonText
begin

text \<open>
  The execution contract and the verdict that judges it (\<open>harness_contract.py\<close>): how a
  contract is normalised and refused when it is not decidable, its content hash, the list of
  criteria an evaluator must answer, and the parser of a verdict, which demands one evidenced
  answer per criterion and checks the overall result against them. The digest
  \<open>hashlib.sha256(text).hexdigest()\<close> is an argument. The problems a refused verdict lists are
  values of a type; their English text is a rendering of them.
\<close>

section \<open>Contracts\<close>

record exec_contract =
  xc_id :: string
  xc_run :: string
  xc_task :: string
  xc_version :: int
  xc_scope :: string
  xc_out_of_scope :: "string list"
  xc_areas :: "string list"
  xc_dependencies :: "string list"
  xc_functional :: "string list"
  xc_visual :: "string list"
  xc_performance :: "string list"
  xc_security :: "string list"
  xc_checks :: "string list"
  xc_manual :: "string list"
  xc_dev_command :: "string option"
  xc_test_command :: "string option"
  xc_build_command :: "string option"
  xc_created :: timestamp
  xc_planner :: "string option"
  xc_frozen :: bool

definition jstrs :: "string list \<Rightarrow> json" where
  "jstrs xs = JArr (map JStr xs)"

definition contract_content :: "exec_contract \<Rightarrow> dict" where
  "contract_content c =
     [(''task_id'', JStr (xc_task c)), (''scope'', JStr (xc_scope c)),
      (''out_of_scope'', jstrs (xc_out_of_scope c)), (''affected_areas'', jstrs (xc_areas c)),
      (''dependencies'', jstrs (xc_dependencies c)),
      (''functional_acceptance'', jstrs (xc_functional c)), (''visual_acceptance'', jstrs (xc_visual c)),
      (''performance_acceptance'', jstrs (xc_performance c)), (''security_acceptance'', jstrs (xc_security c)),
      (''required_checks'', jstrs (xc_checks c)), (''manual_checks'', jstrs (xc_manual c)),
      (''dev_command'', opt_json (xc_dev_command c)), (''test_command'', opt_json (xc_test_command c)),
      (''build_command'', opt_json (xc_build_command c))]"

definition content_hash :: "(string \<Rightarrow> string) \<Rightarrow> exec_contract \<Rightarrow> string" where
  "content_hash sha c = sha (json_canonical (JObj (contract_content c)))"

definition contract_criteria :: "exec_contract \<Rightarrow> (string \<times> string) list" where
  "contract_criteria c = map (Pair ''functional'') (xc_functional c) @ map (Pair ''visual'') (xc_visual c)
     @ map (Pair ''performance'') (xc_performance c) @ map (Pair ''security'') (xc_security c)"

definition criterion_id :: "(string \<Rightarrow> string) \<Rightarrow> string \<Rightarrow> string \<Rightarrow> string" where
  "criterion_id sha kind txt = kind @ '':'' @ take 12 (sha (kind @ [char_of (31::nat)] @ txt))"

definition nonblank :: "string list \<Rightarrow> string list" where
  "nonblank xs = filter (\<lambda>x. x \<noteq> []) (map strip xs)"

definition normalise_values :: "json \<Rightarrow> py_error + string list" where
  \<comment> \<open>\<open>_normalise\<close>: a lone string is one value, a dictionary is iterated by its keys\<close>
  "normalise_values v =
     (if \<not> truthy v then Inr []
      else case v of
        JStr s \<Rightarrow> Inr (nonblank [s])
      | JArr xs \<Rightarrow> Inr (nonblank (map json_str xs))
      | JObj d \<Rightarrow> Inr (nonblank (map fst d))
      | _ \<Rightarrow> Inl PyTypeError)"

datatype spec_error = InsufficientSpecification "string list" | ContractRaised py_error

definition lift_error :: "('e \<Rightarrow> 'f) \<Rightarrow> 'e + 'a \<Rightarrow> 'f + 'a" where
  "lift_error h r = (case r of Inl e \<Rightarrow> Inl (h e) | Inr a \<Rightarrow> Inr a)"

definition SEQUENCE_FIELDS :: "string list" where
  "SEQUENCE_FIELDS = [''out_of_scope'', ''affected_areas'', ''dependencies'', ''functional_acceptance'',
     ''visual_acceptance'', ''performance_acceptance'', ''security_acceptance'', ''required_checks'',
     ''manual_checks'']"

definition command_field :: "dict \<Rightarrow> string \<Rightarrow> string option" where
  "command_field given name =
     (let v = dget given name in if truthy v then Some (strip (json_str v)) else None)"

definition missing_parts :: "string \<Rightarrow> exec_contract \<Rightarrow> string list" where
  "missing_parts scope c =
     (if strip scope = [] then [''scope''] else [])
     @ (if xc_functional c = [] \<and> xc_visual c = [] \<and> xc_performance c = [] \<and> xc_security c = []
        then [''acceptance criteria''] else [])
     @ (if xc_checks c = [] then [''required checks''] else [])"

definition build_contract ::
  "string \<Rightarrow> timestamp \<Rightarrow> string \<Rightarrow> string \<Rightarrow> string \<Rightarrow> dict \<Rightarrow> spec_error + exec_contract" where
  \<comment> \<open>\<open>ExecutionContract.build\<close> with the id and the clock its defaults draw; no caller passes a
      version, a planner, an id, a creation time or a frozen flag\<close>
  "build_contract cid now run task scope given =
     and_then (lift_error ContractRaised (map_each (\<lambda>name. normalise_values (dget given name)) SEQUENCE_FIELDS))
       (\<lambda>vs. let c = \<lparr>xc_id = cid, xc_run = run, xc_task = task, xc_version = 1, xc_scope = strip scope,
             xc_out_of_scope = vs ! 0, xc_areas = vs ! 1, xc_dependencies = vs ! 2,
             xc_functional = vs ! 3, xc_visual = vs ! 4, xc_performance = vs ! 5, xc_security = vs ! 6,
             xc_checks = vs ! 7, xc_manual = vs ! 8,
             xc_dev_command = command_field given ''dev_command'',
             xc_test_command = command_field given ''test_command'',
             xc_build_command = command_field given ''build_command'',
             xc_created = now, xc_planner = None, xc_frozen = False\<rparr>
          in if missing_parts scope c \<noteq> [] then Inl (InsufficientSpecification (missing_parts scope c))
             else Inr c)"

section \<open>Verdicts\<close>

record criterion_result =
  cr_id :: string
  cr_kind :: string
  cr_text :: string
  cr_result :: verdict
  cr_evidence :: string
  cr_artifact :: "string option"

record evaluation =
  hv_id :: string
  hv_run :: string
  hv_iteration :: int
  hv_contract :: string
  hv_hash :: string
  hv_result :: verdict
  hv_criteria :: "criterion_result list"
  hv_agent :: "string option"
  hv_session :: "string option"
  hv_commit :: "string option"
  hv_summary :: string
  hv_failure :: "failure_class option"
  hv_created :: timestamp

definition failed_criteria :: "evaluation \<Rightarrow> criterion_result list" where
  "failed_criteria ev = filter (\<lambda>c. cr_result c \<noteq> PASS) (hv_criteria ev)"

record feedback =
  fb_fix_only :: "criterion_result list"
  fb_already_passing :: "string list"

definition feedback_of :: "evaluation \<Rightarrow> feedback" where
  "feedback_of ev = \<lparr>fb_fix_only = failed_criteria ev,
     fb_already_passing = map cr_id (filter (\<lambda>c. cr_result c = PASS) (hv_criteria ev))\<rparr>"

definition NON_ANSWERS :: "string list" where
  "NON_ANSWERS = [''looks good'', ''lgtm'', ''ok'', ''fine'', ''seems fine'', ''works'', ''all good'', ''good'', ''done'']"

definition lower :: "string \<Rightarrow> string" where
  "lower s = map lower_char s"

datatype verdict_problem =
  NonAnswer string
| Prose
| NotAnObject
| NoCriteria nat
| EntryNotObject nat
| Undeclared nat string
| BadResult nat string
| NoEvidence nat string
| NotEvidence nat string string
| Unanswered "string list"
| BadOverall string
| Contradiction string string

definition declared_criteria :: "(string \<Rightarrow> string) \<Rightarrow> exec_contract \<Rightarrow> (string \<times> (string \<times> string)) list" where
  \<comment> \<open>the dictionary of criterion ids\<close>
  "declared_criteria sha c =
     fold (\<lambda>kt d. AList.update (criterion_id sha (fst kt) (snd kt)) kt d) (contract_criteria c) []"

definition entry_id :: "(string \<Rightarrow> string) \<Rightarrow> dict \<Rightarrow> string" where
  "entry_id sha entry =
     (let cid = strip (or_text (dget entry ''criterion_id'') []) in
      if cid \<noteq> [] then cid
      else let txt = strip (or_text (dget entry ''text'') [])
        in if txt \<noteq> [] then criterion_id sha (or_text (dget entry ''kind'') ''functional'') txt else [])"

definition read_answer ::
  "(string \<Rightarrow> string) \<Rightarrow> (string \<times> (string \<times> string)) list \<Rightarrow> nat \<Rightarrow> json \<Rightarrow> verdict_problem + criterion_result" where
  \<comment> \<open>one turn of the loop over \<open>payload["criteria"]\<close>\<close>
  "read_answer sha declared i answer = (case as_dict answer of
       None \<Rightarrow> Inl (EntryNotObject i)
     | Some entry \<Rightarrow>
         let cid = entry_id sha entry in
         case map_of declared cid of
           None \<Rightarrow> Inl (Undeclared i (if cid = [] then ''(unidentified)'' else cid))
         | Some kt \<Rightarrow>
             let result = lower (strip (or_text (dget entry ''result'') [])) in
             case verdict_of result of
               None \<Rightarrow> Inl (BadResult i result)
             | Some NEEDS_REDEFINE_VERDICT \<Rightarrow> Inl (BadResult i result)
             | Some v \<Rightarrow>
                 let evidence = strip (or_text (dget entry ''evidence'') []) in
                 if evidence = [] then Inl (NoEvidence i cid)
                 else if lower evidence \<in> set NON_ANSWERS then Inl (NotEvidence i cid evidence)
                 else Inr \<lparr>cr_id = cid, cr_kind = fst kt, cr_text = snd kt, cr_result = v, cr_evidence = evidence,
                   cr_artifact = (if truthy (dget entry ''artifact'') then Some (json_str (dget entry ''artifact'')) else None)\<rparr>)"

primrec read_answers ::
  "(string \<Rightarrow> string) \<Rightarrow> (string \<times> (string \<times> string)) list \<Rightarrow> nat \<Rightarrow> json list \<Rightarrow> (string \<times> criterion_result) list
   \<Rightarrow> verdict_problem list \<times> (string \<times> criterion_result) list" where
  "read_answers sha declared i [] seen = ([], seen)"
| "read_answers sha declared i (a # answers) seen = (case read_answer sha declared i a of
       Inl p \<Rightarrow> (case read_answers sha declared (Suc i) answers seen of (ps, s) \<Rightarrow> (p # ps, s))
     | Inr r \<Rightarrow> read_answers sha declared (Suc i) answers (AList.update (cr_id r) r seen))"

definition result_from_criteria :: "criterion_result list \<Rightarrow> verdict" where
  "result_from_criteria cs =
     (if \<exists>c\<in>set cs. cr_result c = BLOCKED_VERDICT then BLOCKED_VERDICT
      else if \<exists>c\<in>set cs. cr_result c = FAIL then FAIL else PASS)"

definition overall_result :: "string \<Rightarrow> verdict \<Rightarrow> verdict_problem + verdict" where
  "overall_result stated computed =
     (if stated = [] then Inr computed
      else case verdict_of stated of
        None \<Rightarrow> Inl (BadOverall stated)
      | Some NEEDS_REDEFINE_VERDICT \<Rightarrow> Inr NEEDS_REDEFINE_VERDICT
      | Some v \<Rightarrow> if v = computed then Inr computed else Inl (Contradiction stated (verdict_text computed)))"

record verdict_meta =
  vm_id :: string
  vm_now :: timestamp
  vm_iteration :: int
  vm_agent :: "string option"
  vm_session :: "string option"
  vm_commit :: "string option"

definition judged ::
  "(string \<Rightarrow> string) \<Rightarrow> verdict_meta \<Rightarrow> exec_contract \<Rightarrow> dict \<Rightarrow> (string \<times> criterion_result) list
   \<Rightarrow> verdict_problem list + evaluation" where
  \<comment> \<open>the end of \<open>parse_verdict\<close>, once every criterion has its answer\<close>
  "judged sha meta c payload seen =
     (case overall_result (lower (strip (or_text (dget payload ''result'') [])))
             (result_from_criteria (map snd seen)) of
        Inl p \<Rightarrow> Inl [p]
      | Inr v \<Rightarrow> Inr \<lparr>hv_id = vm_id meta, hv_run = xc_run c, hv_iteration = vm_iteration meta,
          hv_contract = xc_id c, hv_hash = content_hash sha c, hv_result = v,
          hv_criteria = List.map_filter (\<lambda>d. map_of seen (fst d)) (declared_criteria sha c),
          hv_agent = vm_agent meta, hv_session = vm_session meta, hv_commit = vm_commit meta,
          hv_summary = strip (or_text (dget payload ''summary'') []), hv_failure = None,
          hv_created = vm_now meta\<rparr>)"

definition parse_verdict ::
  "(string \<Rightarrow> string) \<Rightarrow> verdict_meta \<Rightarrow> json \<Rightarrow> exec_contract \<Rightarrow> verdict_problem list + evaluation" where
  "parse_verdict sha meta payload c =
     (let declared = declared_criteria sha c in
      case payload of
        JStr s \<Rightarrow> if lower (strip s) \<in> set NON_ANSWERS then Inl [NonAnswer (strip s)] else Inl [Prose]
      | JObj d \<Rightarrow> (case as_list (dget d ''criteria'') of
            None \<Rightarrow> Inl [NoCriteria (length declared)]
          | Some [] \<Rightarrow> Inl [NoCriteria (length declared)]
          | Some answers \<Rightarrow> (case read_answers sha declared 0 answers [] of (problems, seen) \<Rightarrow>
              let unanswered = filter (\<lambda>cid. map_of seen cid = None) (map fst declared);
                  all = problems @ (if unanswered = [] then [] else [Unanswered (sort unanswered)])
              in if all \<noteq> [] then Inl all else judged sha meta c d seen))
      | _ \<Rightarrow> Inl [NotAnObject])"

definition run_request_key :: "string \<Rightarrow> string \<Rightarrow> string \<Rightarrow> string" where
  "run_request_key project task digest = ''run:'' @ project @ '':'' @ task @ '':'' @ digest"

definition iteration_request_key :: "string \<Rightarrow> int \<Rightarrow> string" where
  "iteration_request_key run iteration = ''run:'' @ run @ '':iteration:'' @ int_str iteration"

definition contract_request_key :: "string \<Rightarrow> string \<Rightarrow> string \<Rightarrow> string" where
  "contract_request_key project task digest = ''run:'' @ project @ '':'' @ task @ '':'' @ digest"

definition builder_request_key :: "string \<Rightarrow> int \<Rightarrow> string" where
  "builder_request_key run iteration = ''builder:'' @ run @ '':'' @ int_str iteration"

definition evaluator_request_key :: "string \<Rightarrow> int \<Rightarrow> string option \<Rightarrow> string" where
  "evaluator_request_key run iteration commit =
     ''evaluator:'' @ run @ '':'' @ int_str iteration @ '':'' @ str_or commit ''nocommit''"

definition definition_hash ::
  "(string \<Rightarrow> string) \<Rightarrow> string \<Rightarrow> string \<Rightarrow> run_mode \<Rightarrow> string \<Rightarrow> string list \<Rightarrow> string list \<Rightarrow> string" where
  "definition_hash sha project task mode prompt acceptance checks =
     take 24 (sha (json_canonical (JObj
       [(''project_id'', JStr project), (''task_id'', JStr task), (''mode'', JStr (mode_name mode)),
        (''prompt'', JStr prompt), (''acceptance'', jstrs (nonblank acceptance)),
        (''checks'', jstrs (nonblank checks))])))"

section \<open>What an accepted verdict says\<close>

definition sound_answer :: "(string \<times> (string \<times> string)) list \<Rightarrow> criterion_result \<Rightarrow> bool" where
  \<comment> \<open>the answer is about a declared criterion, decides it, and carries evidence\<close>
  "sound_answer declared r \<longleftrightarrow> map_of declared (cr_id r) = Some (cr_kind r, cr_text r)
     \<and> cr_result r \<noteq> NEEDS_REDEFINE_VERDICT
     \<and> cr_evidence r \<noteq> [] \<and> lower (cr_evidence r) \<notin> set NON_ANSWERS"

lemma read_answer_sound: "read_answer sha declared i a = Inr r \<Longrightarrow> sound_answer declared r"
  unfolding read_answer_def Let_def
  by (auto simp: sound_answer_def split: option.splits verdict.splits if_splits simp del: verdict_of.simps)

lemma set_update: "x \<in> set (AList.update k v al) \<Longrightarrow> x = (k, v) \<or> x \<in> set al"
  by (induction al) (auto split: if_splits)

lemma read_answers_sound:
  assumes "read_answers sha declared i answers seen = (problems, seen')"
    and "distinct (map fst seen)" and "\<forall>(k, r)\<in>set seen. cr_id r = k \<and> sound_answer declared r"
  shows "distinct (map fst seen') \<and> (\<forall>(k, r)\<in>set seen'. cr_id r = k \<and> sound_answer declared r)"
  using assms
proof (induction answers arbitrary: i seen problems seen')
  case Nil
  then show ?case by simp
next
  case (Cons a answers)
  show ?case
  proof (cases "read_answer sha declared i a")
    case (Inl p)
    then obtain ps where "read_answers sha declared (Suc i) answers seen = (ps, seen')"
      using Cons.prems(1) by (auto split: prod.splits)
    from Cons.IH [OF this Cons.prems(2,3)] show ?thesis .
  next
    case (Inr r)
    then have step: "read_answers sha declared (Suc i) answers (AList.update (cr_id r) r seen) = (problems, seen')"
      using Cons.prems(1) by simp
    have "\<forall>(k, x)\<in>set (AList.update (cr_id r) r seen). cr_id x = k \<and> sound_answer declared x"
      using Cons.prems(3) read_answer_sound [OF Inr] by (auto dest!: set_update)
    with step Cons.prems(2) show ?thesis by (intro Cons.IH [OF step]) (simp_all add: distinct_update)
  qed
qed

lemma read_answers_problem_free:
  "read_answers sha declared i answers seen = ([], seen') \<Longrightarrow>
   \<forall>a\<in>set answers. \<exists>j r. read_answer sha declared j a = Inr r"
proof (induction answers arbitrary: i seen)
  case (Cons a answers)
  then show ?case by (cases "read_answer sha declared i a") (auto split: prod.splits)
qed simp

lemma parse_verdict_Inr:
  assumes "parse_verdict sha meta payload c = Inr ev"
  obtains d answers seen where "payload = JObj d" "dget d ''criteria'' = JArr answers" "answers \<noteq> []"
    "read_answers sha (declared_criteria sha c) 0 answers [] = ([], seen)"
    "\<forall>cid\<in>set (map fst (declared_criteria sha c)). map_of seen cid \<noteq> None"
    "judged sha meta c d seen = Inr ev"
proof -
  from assms obtain d where d: "payload = JObj d" by (cases payload) (auto simp: parse_verdict_def Let_def split: if_splits)
  from assms obtain answers where a: "dget d ''criteria'' = JArr answers" "answers \<noteq> []"
    by (cases "dget d ''criteria''") (auto simp: parse_verdict_def Let_def d split: list.splits)
  obtain problems seen where r: "read_answers sha (declared_criteria sha c) 0 answers [] = (problems, seen)"
    by fastforce
  define unanswered where "unanswered = filter (\<lambda>cid. map_of seen cid = None) (map fst (declared_criteria sha c))"
  have "(if problems @ (if unanswered = [] then [] else [Unanswered (sort unanswered)]) \<noteq> []
      then Inl (problems @ (if unanswered = [] then [] else [Unanswered (sort unanswered)]))
      else judged sha meta c d seen) = Inr ev"
  proof -
    obtain x xs where x: "answers = x # xs" using a(2) by (cases answers) auto
    show ?thesis
      using assms a(1) r
      by (auto simp: parse_verdict_def Let_def d x unanswered_def simp del: read_answers.simps split: if_splits)
  qed
  then have "problems = []" "unanswered = []" "judged sha meta c d seen = Inr ev"
    by (auto split: if_splits)
  moreover from \<open>unanswered = []\<close> have "\<forall>cid\<in>set (map fst (declared_criteria sha c)). map_of seen cid \<noteq> None"
    unfolding unanswered_def filter_empty_conv by simp
  ultimately show ?thesis using that d a r by blast
qed

lemma map_filter_all_Some:
  "\<forall>x\<in>set xs. f x \<noteq> None \<Longrightarrow> List.map_filter f xs = map (\<lambda>x. the (f x)) xs"
  by (induction xs) (auto simp: map_filter_simps)

lemma declared_distinct: "distinct (map fst (declared_criteria sha c))"
proof -
  have "distinct (map fst (fold (\<lambda>kt d. AList.update (criterion_id sha (fst kt) (snd kt)) kt d) xs d))"
    if "distinct (map fst d)" for xs d
    using that by (induction xs arbitrary: d) (simp_all add: distinct_update)
  then show ?thesis by (simp add: declared_criteria_def)
qed

lemma accepted_criteria:
  assumes "parse_verdict sha meta (JObj d) c = Inr ev"
  obtains seen :: "(string \<times> criterion_result) list" where "map cr_id (hv_criteria ev) = map fst (declared_criteria sha c)"
    "\<forall>r\<in>set (hv_criteria ev). sound_answer (declared_criteria sha c) r"
    "set (hv_criteria ev) = snd ` set seen"
    "overall_result (lower (strip (or_text (dget d ''result'') [])))
       (result_from_criteria (map snd seen)) = Inr (hv_result ev)"
    "hv_hash ev = content_hash sha c"
proof -
  let ?declared = "declared_criteria sha c"
  from assms obtain answers seen where p: "answers \<noteq> []"
    "read_answers sha ?declared 0 answers [] = ([], seen)"
    "\<forall>cid\<in>set (map fst ?declared). map_of seen cid \<noteq> None" "judged sha meta c d seen = Inr ev"
    by (rule parse_verdict_Inr) blast
  have seen: "distinct (map fst seen)" "\<forall>(k, r)\<in>set seen. cr_id r = k \<and> sound_answer ?declared r"
    using read_answers_sound [OF p(2)] by auto
  have crit: "hv_criteria ev = map (\<lambda>x. the (map_of seen (fst x))) ?declared"
    using p(3,4) by (auto simp: judged_def map_filter_all_Some split: sum.splits)
  have hash: "hv_hash ev = content_hash sha c"
    and overall: "overall_result (lower (strip (or_text (dget d ''result'') [])))
       (result_from_criteria (map snd seen)) = Inr (hv_result ev)"
    using p(4) by (auto simp: judged_def split: sum.splits)
  have at: "\<exists>r. map_of seen k = Some r \<and> (k, r) \<in> set seen \<and> cr_id r = k \<and> sound_answer ?declared r"
    if "k \<in> fst ` set ?declared" for k
    using that p(3) seen(2) by (fastforce dest: map_of_SomeD)
  have ids: "map cr_id (hv_criteria ev) = map fst ?declared"
  proof -
    have "cr_id (the (map_of seen (fst x))) = fst x" if "x \<in> set ?declared" for x
      using at [of "fst x"] that by auto
    then show ?thesis unfolding crit by simp
  qed
  have sub: "set (hv_criteria ev) \<subseteq> snd ` set seen"
  proof
    fix r assume "r \<in> set (hv_criteria ev)"
    then obtain x where x: "x \<in> set ?declared" "r = the (map_of seen (fst x))" unfolding crit by auto
    then have "fst x \<in> fst ` set ?declared" by simp
    from at [OF this] x(2) show "r \<in> snd ` set seen" by force
  qed
  have sup: "snd ` set seen \<subseteq> set (hv_criteria ev)"
  proof
    fix r assume "r \<in> snd ` set seen"
    then obtain k where k: "(k, r) \<in> set seen" by auto
    then have "map_of seen k = Some r" "cr_id r = k" "sound_answer ?declared r" using seen by auto
    then obtain x where "x \<in> set ?declared" "fst x = k"
      using map_of_SomeD [of ?declared k] by (fastforce simp: sound_answer_def)
    moreover have "the (map_of seen k) = r" using \<open>map_of seen k = Some r\<close> by simp
    ultimately show "r \<in> set (hv_criteria ev)" unfolding crit by auto
  qed
  have sound: "\<forall>r\<in>set (hv_criteria ev). sound_answer ?declared r"
  proof
    fix r assume "r \<in> set (hv_criteria ev)"
    then obtain k where "(k, r) \<in> set seen" using sub by auto
    with seen(2) show "sound_answer ?declared r" by auto
  qed
  have same: "set (hv_criteria ev) = snd ` set seen" using sub sup by (rule subset_antisym)
  show ?thesis by (rule that [OF ids sound same overall hash])
qed

text \<open>
  C12: A verdict that is accepted has been checked: it answers every declared criterion of the
  contract, once and in order, each answer with evidence that is not a stock phrase; it passes exactly when every
  answer passes (and the evaluator does not ask for a redefinition), fails only on a failing answer,
  and is bound to the hash of the contract it judges.\<close>

theorem accepted_verdict_checked:
  assumes "parse_verdict sha meta (JObj d) c = Inr ev"
  shows "map cr_id (hv_criteria ev) = map fst (declared_criteria sha c)
    \<and> (\<forall>r\<in>set (hv_criteria ev). sound_answer (declared_criteria sha c) r)
    \<and> hv_hash ev = content_hash sha c
    \<and> hv_result ev = (if lower (strip (or_text (dget d ''result'') [])) = ''needs_redefine'' then NEEDS_REDEFINE_VERDICT
        else if \<exists>r\<in>set (hv_criteria ev). cr_result r = BLOCKED_VERDICT then BLOCKED_VERDICT
        else if \<exists>r\<in>set (hv_criteria ev). cr_result r \<noteq> PASS then FAIL else PASS)"
proof -
  obtain seen :: "(string \<times> criterion_result) list" where s: "map cr_id (hv_criteria ev) = map fst (declared_criteria sha c)"
    "\<forall>r\<in>set (hv_criteria ev). sound_answer (declared_criteria sha c) r"
    "set (hv_criteria ev) = snd ` set seen"
    "overall_result (lower (strip (or_text (dget d ''result'') []))) (result_from_criteria (map snd seen)) = Inr (hv_result ev)"
    "hv_hash ev = content_hash sha c"
    by (rule accepted_criteria [OF assms]) blast
  have "result_from_criteria (map snd seen) = (if \<exists>r\<in>set (hv_criteria ev). cr_result r = BLOCKED_VERDICT then BLOCKED_VERDICT
        else if \<exists>r\<in>set (hv_criteria ev). cr_result r = FAIL then FAIL else PASS)"
    by (simp add: result_from_criteria_def s(3))
  moreover have "cr_result r \<noteq> PASS \<longleftrightarrow> cr_result r = FAIL \<or> cr_result r = BLOCKED_VERDICT"
    if "r \<in> set (hv_criteria ev)" for r
    using s(2) that by (cases "cr_result r") (auto simp: sound_answer_def)
  ultimately have computed: "result_from_criteria (map snd seen) =
      (if \<exists>r\<in>set (hv_criteria ev). cr_result r = BLOCKED_VERDICT then BLOCKED_VERDICT
        else if \<exists>r\<in>set (hv_criteria ev). cr_result r \<noteq> PASS then FAIL else PASS)"
    by (auto split: if_splits)
  have "hv_result ev = (if lower (strip (or_text (dget d ''result'') [])) = ''needs_redefine'' then NEEDS_REDEFINE_VERDICT
      else result_from_criteria (map snd seen))"
    using s(4) by (auto simp: overall_result_def split: if_splits option.splits verdict.splits)
  then show ?thesis unfolding computed using s(1,2,5) by blast
qed

section \<open>Witnesses\<close>

definition sample_contract :: exec_contract where
  "sample_contract = \<lparr>xc_id = ''c'', xc_run = ''hrn_0'', xc_task = ''t'', xc_version = 1, xc_scope = ''s'',
     xc_out_of_scope = [], xc_areas = [], xc_dependencies = [], xc_functional = [''A'', ''B''], xc_visual = [],
     xc_performance = [], xc_security = [], xc_checks = [''k''], xc_manual = [], xc_dev_command = None,
     xc_test_command = None, xc_build_command = None, xc_created = 0, xc_planner = None, xc_frozen = False\<rparr>"

definition sample_meta :: verdict_meta where
  "sample_meta = \<lparr>vm_id = ''e'', vm_now = 1, vm_iteration = 1, vm_agent = None, vm_session = None, vm_commit = None\<rparr>"

definition answer :: "string \<Rightarrow> string \<Rightarrow> string \<Rightarrow> json" where
  "answer txt result evidence =
     JObj [(''text'', JStr txt), (''result'', JStr result), (''evidence'', JStr evidence)]"

definition verdict_on :: "json list \<Rightarrow> verdict_problem list + evaluation" where
  "verdict_on answers = parse_verdict (\<lambda>s. s) sample_meta (JObj [(''criteria'', JArr answers)]) sample_contract"

lemma accepted_verdict_checked_witness:
  "\<exists>ev. parse_verdict (\<lambda>s. s) sample_meta
      (JObj [(''criteria'', JArr [answer ''B'' ''fail'' ''x'', answer ''A'' ''pass'' ''y''])]) sample_contract = Inr ev
    \<and> map cr_id (hv_criteria ev) = map fst (declared_criteria (\<lambda>s. s) sample_contract) \<and> hv_result ev = FAIL"
proof -
  let ?d = "[(''criteria'', JArr [answer ''B'' ''fail'' ''x'', answer ''A'' ''pass'' ''y''])]"
  have "\<not> isl (parse_verdict (\<lambda>s. s) sample_meta (JObj ?d) sample_contract)" by code_simp
  then obtain ev where ev: "parse_verdict (\<lambda>s. s) sample_meta (JObj ?d) sample_contract = Inr ev"
    by (metis sum.collapse(2))
  have "map_option hv_result (case parse_verdict (\<lambda>s. s) sample_meta (JObj ?d) sample_contract of Inl e \<Rightarrow> None | Inr ev \<Rightarrow> Some ev)
    = Some FAIL" by code_simp
  then show ?thesis using ev accepted_verdict_checked[OF ev] by simp
qed

text \<open>
  Of two answers to one criterion the last counts, without a word. A verdict that first fails a
  criterion with evidence and then passes it is accepted, and passes.
\<close>

theorem contradictory_answer_last_wins:
  "(case verdict_on [answer ''A'' ''pass'' ''y'', answer ''B'' ''fail'' ''broken'', answer ''B'' ''pass'' ''x''] of
      Inr ev \<Rightarrow> hv_result ev = PASS \<and> map cr_evidence (hv_criteria ev) = [''y'', ''x'']
    | Inl _ \<Rightarrow> False)
   \<and> (case verdict_on [answer ''A'' ''pass'' ''y'', answer ''B'' ''pass'' ''x'', answer ''B'' ''fail'' ''broken''] of
      Inr ev \<Rightarrow> hv_result ev = FAIL \<and> map cr_evidence (hv_criteria ev) = [''y'', ''broken'']
    | Inl _ \<Rightarrow> False)"
  by code_simp

end
