(* ===== verification/HarnessStore.thy ===== *)
theory HarnessStore
  imports HarnessContract
begin

text \<open>
  The durable half of the harness (\<open>harness_store.py\<close> and the tables of \<open>harness_schema.py\<close>):
  runs with their stage chokepoint \<open>advance\<close> and their lease, the append-only event log,
  contract versions, iterations, evaluations, checkpoints, human decisions, policy overrides,
  efficiency counters, the context cache and the dispatch records. Every operation is one
  transaction: it answers an error and the tables as they were, or a value and the new tables.
  One clock reading per operation; \<open>uuid4\<close> ids are numbered by the tables themselves, so that
  they never repeat. The JSON an event, a decision or an artifact carries for its readers
  (\<open>metadata\<close>, \<open>detail\<close>) is never read back and is left out.
\<close>

section \<open>Tables\<close>

record stored_policy = run_policy +
  sp_acceptance :: "string list"
  sp_checks :: "string list"
  sp_manual :: "string list"
  sp_changed :: "string list"
  sp_inherited :: "string option"

record cost_policy =
  co_budget :: int
  co_planner :: tier
  co_builder :: tier
  co_evaluator :: tier

datatype run_status = Active | Terminal

record harness_run =
  hr_id :: string
  hr_task :: string
  hr_project :: "string option"
  hr_title :: string
  hr_prompt :: string
  hr_mode :: run_mode
  hr_stage :: stage
  hr_status :: run_status
  hr_authority :: authority
  hr_policy :: stored_policy
  hr_planner :: "string option"
  hr_builder :: "string option"
  hr_evaluator :: "string option"
  hr_node :: "string option"
  hr_builder_session :: "string option"
  hr_evaluator_session :: "string option"
  hr_branch :: "string option"
  hr_worktree :: "string option"
  hr_base_commit :: "string option"
  hr_result_commit :: "string option"
  hr_max_iterations :: int
  hr_iteration :: int
  hr_request_key :: "string option"
  hr_definition_hash :: "string option"
  hr_contract_key :: "string option"
  hr_contract :: "string option"
  hr_contract_hash :: "string option"
  hr_lease_owner :: "string option"
  hr_lease_expires :: "timestamp option"
  hr_resume :: "stage option"
  hr_infra_failures :: int
  hr_checkpoint :: "string option"
  hr_budget :: "int option"
  hr_tokens :: int
  hr_cost :: cost_policy
  hr_last_error :: "string option"
  hr_blocked_reason :: "string option"
  hr_shadow :: "board_label option"
  hr_created :: timestamp
  hr_started :: "timestamp option"
  hr_updated :: timestamp
  hr_completed :: "timestamp option"

record harness_event =
  he_id :: int
  he_run :: string
  he_at :: timestamp
  he_type :: string
  he_from :: "stage option"
  he_to :: "stage option"
  he_iteration :: "int option"
  he_actor :: "string option"
  he_reason :: "string option"

record stored_contract = exec_contract +
  xs_hash :: string

record iteration =
  it_id :: string
  it_run :: string
  it_number :: int
  it_key :: "string option"
  it_builder :: "string option"
  it_evaluator :: "string option"
  it_builder_session :: "string option"
  it_evaluator_session :: "string option"
  it_base_commit :: "string option"
  it_result_commit :: "string option"
  it_started :: timestamp
  it_completed :: "timestamp option"
  it_verdict :: "verdict option"
  it_failure :: "failure_class option"
  it_feedback :: "string option"
  it_artifact :: "string option"

record checkpoint =
  ck_id :: string
  ck_run :: string
  ck_task :: string
  ck_iteration :: int
  ck_branch :: "string option"
  ck_commit :: "string option"
  ck_worktree :: "string option"
  ck_session :: "string option"
  ck_checks :: "string list"
  ck_remaining :: "string list"
  ck_note :: string
  ck_created :: timestamp

record human_decision =
  hd_id :: string
  hd_run :: "string option"
  hd_task :: "string option"
  hd_project :: "string option"
  hd_reason :: string
  hd_question :: string
  hd_status :: string
  hd_created :: timestamp
  hd_resolved_at :: "timestamp option"
  hd_resolved_by :: "string option"
  hd_resolution :: "string option"

record policy_override =
  po_id :: string
  po_scope :: string
  po_key :: string
  po_mode :: "run_mode option"
  po_authority :: "authority option"
  po_max_iterations :: "int option"
  po_updated :: timestamp
  po_updated_by :: "string option"

record artifact =
  af_id :: string
  af_run :: string
  af_iteration :: "int option"
  af_kind :: string
  af_path :: string
  af_created :: timestamp

datatype counter =
  LLM_CALLS | PROMPT_TOKENS_ESTIMATE | CONTEXT_BYTES | REUSED_CONTEXT_HITS | CONTEXT_CACHE_MISSES
| PLANNER_SKIPPED | EVALUATOR_SKIPPED | SESSION_REUSED | SESSIONS_SPAWNED | ROLLOVER_COUNT
| DELTA_PROMPTS | FULL_PROMPTS | SKILLS_INJECTED | SKILL_BYTES

record efficiency =
  ef_run :: string
  ef_counts :: "counter \<Rightarrow> int"
  ef_decisions :: "(timestamp \<times> string) list"
  ef_updated :: timestamp

record cache_entry =
  cc_key :: string
  cc_project :: "string option"
  cc_modules :: "string list"
  cc_payload :: json
  cc_bytes :: int
  cc_hits :: int
  cc_created :: timestamp
  cc_last_used :: timestamp

record dispatch =
  ds_id :: string
  ds_run :: string
  ds_task :: string
  ds_iteration :: int
  ds_role :: role
  ds_attempt :: int
  ds_state :: string
  ds_session :: "string option"
  ds_node :: "string option"
  ds_worktree :: "string option"
  ds_branch :: "string option"
  ds_key :: string
  ds_nonce :: string
  ds_artifact_path :: "string option"
  ds_reused :: bool
  ds_error :: "string option"
  ds_created :: timestamp
  ds_completed :: "timestamp option"

record harness_db =
  db_runs :: "harness_run list"
  db_events :: "harness_event list"
  db_sequence :: int  \<comment> \<open>the largest event id AUTOINCREMENT has given out\<close>
  db_contracts :: "stored_contract list"
  db_iterations :: "iteration list"
  db_evaluations :: "evaluation list"
  db_checkpoints :: "checkpoint list"
  db_decisions :: "human_decision list"
  db_policies :: "policy_override list"
  db_artifacts :: "artifact list"
  db_efficiency :: "efficiency list"
  db_cache :: "cache_entry list"
  db_dispatches :: "dispatch list"
  db_ids :: nat  \<comment> \<open>how many ids \<open>new_id\<close> has drawn\<close>

datatype harness_error =
  RunNotFound string
| InvalidStageTransition stage stage
| LeaseNotHeld string "string option" "string option"
| NotAHumanDecision string
| HarnessValueError string
| HarnessLookupError string
| HarnessIntegrityError string
| HarnessError string
| NoContract string
| ContractRefused spec_error

definition empty_db :: harness_db where
  "empty_db = \<lparr>db_runs = [], db_events = [], db_sequence = 0, db_contracts = [], db_iterations = [],
     db_evaluations = [], db_checkpoints = [], db_decisions = [], db_policies = [], db_artifacts = [],
     db_efficiency = [], db_cache = [], db_dispatches = [], db_ids = 0\<rparr>"

section \<open>Transactions in sequence\<close>

type_synonym 'a htx = "harness_db \<Rightarrow> (harness_error + 'a) \<times> harness_db"

definition hreturn :: "'a \<Rightarrow> 'a htx" where
  "hreturn a db = (Inr a, db)"

definition hraise :: "harness_error \<Rightarrow> 'a htx" where
  "hraise e db = (Inl e, db)"

definition hbind :: "'a htx \<Rightarrow> ('a \<Rightarrow> 'b htx) \<Rightarrow> 'b htx" where
  \<comment> \<open>one transaction after another: what the first committed stays when the second raises\<close>
  "hbind m f db = (case m db of (Inl e, db1) \<Rightarrow> (Inl e, db1) | (Inr a, db1) \<Rightarrow> f a db1)"

definition hseq :: "'a htx \<Rightarrow> 'b htx \<Rightarrow> 'b htx" where
  "hseq m n = hbind m (\<lambda>_. n)"

definition new_id :: "string \<Rightarrow> harness_db \<Rightarrow> string" where
  "new_id prefix db = prefix @ ''_'' @ nat_str (db_ids db)"

definition drawn :: "harness_db \<Rightarrow> harness_db" where
  "drawn db = db\<lparr>db_ids := Suc (db_ids db)\<rparr>"

section \<open>Events\<close>

definition event_locked ::
  "timestamp \<Rightarrow> string \<Rightarrow> string \<Rightarrow> stage option \<Rightarrow> stage option \<Rightarrow> int option \<Rightarrow> string option \<Rightarrow> string option
   \<Rightarrow> harness_db \<Rightarrow> harness_db" where
  "event_locked now run etype from_stage to_stage iter actor reason db =
     db\<lparr>db_events := db_events db @ [\<lparr>he_id = db_sequence db + 1, he_run = run, he_at = now,
          he_type = etype, he_from = from_stage, he_to = to_stage, he_iteration = iter,
          he_actor = actor, he_reason = reason\<rparr>],
        db_sequence := db_sequence db + 1\<rparr>"

definition note_locked ::
  "timestamp \<Rightarrow> string \<Rightarrow> string \<Rightarrow> int option \<Rightarrow> string option \<Rightarrow> string option \<Rightarrow> harness_db \<Rightarrow> harness_db" where
  \<comment> \<open>an event that is not a change of stage\<close>
  "note_locked now run etype iter actor reason = event_locked now run etype None None iter actor reason"

definition record_harness_event ::
  "timestamp \<Rightarrow> string \<Rightarrow> string \<Rightarrow> int option \<Rightarrow> string option \<Rightarrow> string option \<Rightarrow> unit htx" where
  "record_harness_event now run etype iter actor reason db =
     (Inr (), note_locked now run etype iter actor reason db)"

definition harness_events :: "string \<Rightarrow> int \<Rightarrow> int \<Rightarrow> harness_db \<Rightarrow> harness_event list" where
  "harness_events run limit since db =
     sql_limit limit (sort_key he_id (filter (\<lambda>e. he_run e = run \<and> since < he_id e) (db_events db)))"

section \<open>Runs\<close>

definition get_run :: "string \<Rightarrow> harness_db \<Rightarrow> harness_run option" where
  "get_run i db = find_row (\<lambda>r. hr_id r = i) (db_runs db)"

definition require_run :: "string \<Rightarrow> harness_run htx" where
  "require_run i db = (case get_run i db of None \<Rightarrow> (Inl (RunNotFound i), db) | Some r \<Rightarrow> (Inr r, db))"

definition update_run :: "string \<Rightarrow> (harness_run \<Rightarrow> harness_run) \<Rightarrow> harness_db \<Rightarrow> harness_db" where
  "update_run i f db = db\<lparr>db_runs := update_where (\<lambda>r. hr_id r = i) f (db_runs db)\<rparr>"

definition zero_counts :: "counter \<Rightarrow> int" where
  "zero_counts = (\<lambda>_. 0)"

definition ensure_efficiency :: "timestamp \<Rightarrow> string \<Rightarrow> harness_db \<Rightarrow> harness_db" where
  \<comment> \<open>\<open>INSERT OR IGNORE\<close>\<close>
  "ensure_efficiency now i db =
     (if find_row (\<lambda>e. ef_run e = i) (db_efficiency db) = None
      then db\<lparr>db_efficiency := db_efficiency db @
        [\<lparr>ef_run = i, ef_counts = zero_counts, ef_decisions = [], ef_updated = now\<rparr>]\<rparr>
      else db)"

definition cost_policy_for :: "run_mode \<Rightarrow> int \<Rightarrow> bool \<Rightarrow> int option \<Rightarrow> cost_policy" where
  "cost_policy_for mode failed ambiguous budget =
     \<lparr>co_budget = (case budget of None \<Rightarrow> soft_token_budget mode
        | Some b \<Rightarrow> if b = 0 then soft_token_budget mode else b),
      co_planner = tier_for mode PLANNER failed ambiguous,
      co_builder = tier_for mode BUILDER failed ambiguous,
      co_evaluator = tier_for mode EVALUATOR failed ambiguous\<rparr>"

record new_run =
  nr_task :: string
  nr_prompt :: string
  nr_title :: string
  nr_project :: "string option"
  nr_policy :: run_policy
  nr_cost :: cost_policy
  nr_request_key :: "string option"
  nr_definition_hash :: "string option"
  nr_node :: "string option"
  nr_actor :: "string option"

definition run_row :: "timestamp \<Rightarrow> string \<Rightarrow> new_run \<Rightarrow> harness_run" where
  "run_row now i nr =
     \<lparr>hr_id = i, hr_task = nr_task nr, hr_project = nr_project nr, hr_title = nr_title nr,
      hr_prompt = nr_prompt nr, hr_mode = rp_mode (nr_policy nr), hr_stage = INIT, hr_status = Active,
      hr_authority = rp_authority (nr_policy nr),
      hr_policy = run_policy.extend (nr_policy nr)
        \<lparr>sp_acceptance = [], sp_checks = [], sp_manual = [], sp_changed = [], sp_inherited = None\<rparr>,
      hr_planner = None, hr_builder = None, hr_evaluator = None, hr_node = nr_node nr,
      hr_builder_session = None, hr_evaluator_session = None, hr_branch = None, hr_worktree = None,
      hr_base_commit = None, hr_result_commit = None, hr_max_iterations = rp_max_iterations (nr_policy nr),
      hr_iteration = 0, hr_request_key = nr_request_key nr, hr_definition_hash = nr_definition_hash nr,
      hr_contract_key = None, hr_contract = None, hr_contract_hash = None, hr_lease_owner = None,
      hr_lease_expires = None, hr_resume = None, hr_infra_failures = 0, hr_checkpoint = None,
      hr_budget = Some (co_budget (nr_cost nr)), hr_tokens = 0, hr_cost = nr_cost nr, hr_last_error = None,
      hr_blocked_reason = None, hr_shadow = None, hr_created = now, hr_started = None, hr_updated = now,
      hr_completed = None\<rparr>"

definition create_run :: "timestamp \<Rightarrow> new_run \<Rightarrow> (harness_run \<times> bool) htx" where
  "create_run now nr db =
     (let i = new_id ''hrn'' db in
      case (if nonempty (nr_request_key nr)
            then find_row (\<lambda>r. hr_request_key r = nr_request_key nr) (db_runs db) else None) of
        Some r \<Rightarrow> (Inr (r, False), drawn db)
      | None \<Rightarrow>
          if nr_request_key nr \<noteq> None \<and> (\<exists>r\<in>set (db_runs db). hr_request_key r = nr_request_key nr)
          then (Inl (HarnessIntegrityError ''UNIQUE constraint failed: harness_runs.request_key''), drawn db)
          else let r = run_row now i nr
            in (Inr (r, True), event_locked now i ''RUN_CREATED'' None (Some INIT) None (nr_actor nr)
                  (Some (''mode='' @ mode_name (rp_mode (nr_policy nr)) @ '' authority=''
                         @ authority_name (rp_authority (nr_policy nr))))
                  (ensure_efficiency now i ((drawn db)\<lparr>db_runs := db_runs db @ [r]\<rparr>))))"

definition newest :: "('a \<Rightarrow> int) \<Rightarrow> 'a list \<Rightarrow> 'a option" where
  \<comment> \<open>\<open>ORDER BY k DESC LIMIT 1\<close>\<close>
  "newest k xs = (case sort_key (\<lambda>x. - k x) xs of [] \<Rightarrow> None | x # _ \<Rightarrow> Some x)"

definition run_for_task :: "string \<Rightarrow> bool \<Rightarrow> harness_db \<Rightarrow> harness_run option" where
  "run_for_task task active_only db =
     newest hr_created (filter (\<lambda>r. hr_task r = task \<and> (\<not> active_only \<or> hr_status r = Active)) (db_runs db))"

definition runs_for_tasks :: "string list \<Rightarrow> harness_db \<Rightarrow> (string \<times> harness_run) list" where
  \<comment> \<open>ascending by creation, the last write wins; the chunks of the query keep to one task each\<close>
  "runs_for_tasks tasks db =
     fold (\<lambda>r m. AList.update (hr_task r) r m)
       (sort_key hr_created (filter (\<lambda>r. hr_task r \<in> set (filter (\<lambda>t. t \<noteq> []) tasks)) (db_runs db))) []"

definition list_runs ::
  "string option \<Rightarrow> run_status option \<Rightarrow> stage option \<Rightarrow> int \<Rightarrow> harness_db \<Rightarrow> harness_run list" where
  "list_runs project status st limit db =
     sql_limit limit (sort_key (\<lambda>r. - hr_created r) (filter (\<lambda>r.
        (\<not> nonempty project \<or> hr_project r = project)
        \<and> (case status of None \<Rightarrow> True | Some s \<Rightarrow> hr_status r = s)
        \<and> (case st of None \<Rightarrow> True | Some s \<Rightarrow> hr_stage r = s)) (db_runs db)))"

subsection \<open>Patches\<close>

datatype run_field =
  PTitle string | PPrompt string | PMode run_mode | PAuthority authority
| PPlanner "string option" | PBuilder "string option" | PEvaluator "string option" | PNode "string option"
| PBuilderSession "string option" | PEvaluatorSession "string option" | PBranch "string option"
| PWorktree "string option" | PBaseCommit "string option" | PResultCommit "string option"
| PMaxIterations int | PIteration int | PContract "string option" | PContractHash "string option"
| PContractKey "string option" | PResume "stage option" | PInfraFailures int | PCheckpoint "string option"
| PBudget "int option" | PTokens int | PLastError "string option" | PBlockedReason "string option"
| PShadow "board_label option" | PStarted "timestamp option" | PProject "string option"
| PPolicy stored_policy | PCost cost_policy
| PColumn string  \<comment> \<open>any other keyword: \<open>stage\<close>, \<open>status\<close>, or a name off the allowlist\<close>

fun patch_field :: "run_field \<Rightarrow> harness_run \<Rightarrow> harness_run" where
  "patch_field (PTitle v) r = r\<lparr>hr_title := v\<rparr>"
| "patch_field (PPrompt v) r = r\<lparr>hr_prompt := v\<rparr>"
| "patch_field (PMode v) r = r\<lparr>hr_mode := v\<rparr>"
| "patch_field (PAuthority v) r = r\<lparr>hr_authority := v\<rparr>"
| "patch_field (PPlanner v) r = r\<lparr>hr_planner := v\<rparr>"
| "patch_field (PBuilder v) r = r\<lparr>hr_builder := v\<rparr>"
| "patch_field (PEvaluator v) r = r\<lparr>hr_evaluator := v\<rparr>"
| "patch_field (PNode v) r = r\<lparr>hr_node := v\<rparr>"
| "patch_field (PBuilderSession v) r = r\<lparr>hr_builder_session := v\<rparr>"
| "patch_field (PEvaluatorSession v) r = r\<lparr>hr_evaluator_session := v\<rparr>"
| "patch_field (PBranch v) r = r\<lparr>hr_branch := v\<rparr>"
| "patch_field (PWorktree v) r = r\<lparr>hr_worktree := v\<rparr>"
| "patch_field (PBaseCommit v) r = r\<lparr>hr_base_commit := v\<rparr>"
| "patch_field (PResultCommit v) r = r\<lparr>hr_result_commit := v\<rparr>"
| "patch_field (PMaxIterations v) r = r\<lparr>hr_max_iterations := v\<rparr>"
| "patch_field (PIteration v) r = r\<lparr>hr_iteration := v\<rparr>"
| "patch_field (PContract v) r = r\<lparr>hr_contract := v\<rparr>"
| "patch_field (PContractHash v) r = r\<lparr>hr_contract_hash := v\<rparr>"
| "patch_field (PContractKey v) r = r\<lparr>hr_contract_key := v\<rparr>"
| "patch_field (PResume v) r = r\<lparr>hr_resume := v\<rparr>"
| "patch_field (PInfraFailures v) r = r\<lparr>hr_infra_failures := v\<rparr>"
| "patch_field (PCheckpoint v) r = r\<lparr>hr_checkpoint := v\<rparr>"
| "patch_field (PBudget v) r = r\<lparr>hr_budget := v\<rparr>"
| "patch_field (PTokens v) r = r\<lparr>hr_tokens := v\<rparr>"
| "patch_field (PLastError v) r = r\<lparr>hr_last_error := v\<rparr>"
| "patch_field (PBlockedReason v) r = r\<lparr>hr_blocked_reason := v\<rparr>"
| "patch_field (PShadow v) r = r\<lparr>hr_shadow := v\<rparr>"
| "patch_field (PStarted v) r = r\<lparr>hr_started := v\<rparr>"
| "patch_field (PProject v) r = r\<lparr>hr_project := v\<rparr>"
| "patch_field (PPolicy v) r = r\<lparr>hr_policy := v\<rparr>"
| "patch_field (PCost v) r = r\<lparr>hr_cost := v\<rparr>"
| "patch_field (PColumn v) r = r"

fun off_allowlist :: "run_field \<Rightarrow> string option" where
  "off_allowlist (PColumn v) = Some v"
| "off_allowlist _ = None"

definition patch_fields :: "timestamp \<Rightarrow> run_field list \<Rightarrow> harness_run \<Rightarrow> harness_run" where
  "patch_fields now fs r = (fold patch_field fs r)\<lparr>hr_updated := now\<rparr>"

definition apply_patch_locked :: "timestamp \<Rightarrow> string \<Rightarrow> run_field list \<Rightarrow> harness_run htx" where
  "apply_patch_locked now i fs db =
     (case get_run i db of
        None \<Rightarrow> (Inl (RunNotFound i), db)
      | Some r \<Rightarrow> (case List.map_filter off_allowlist fs of
            name # _ \<Rightarrow> (Inl (HarnessValueError (py_repr name @ '' is not a patchable harness_runs column'')), db)
          | [] \<Rightarrow> (Inr (patch_fields now fs r), update_run i (patch_fields now fs) db)))"

definition patch_run :: "timestamp \<Rightarrow> string \<Rightarrow> run_field list \<Rightarrow> harness_run htx" where
  "patch_run now i fs db =
     (if PColumn ''stage'' \<in> set fs \<or> PColumn ''status'' \<in> set fs
      then (Inl (HarnessValueError ''stage/status change must go through advance()''), db)
      else apply_patch_locked now i fs db)"

subsection \<open>The chokepoint and the lease\<close>

definition run_lease_live :: "timestamp \<Rightarrow> harness_run \<Rightarrow> bool" where
  "run_lease_live now r \<longleftrightarrow> nonempty (hr_lease_owner r)
     \<and> (case hr_lease_expires r of None \<Rightarrow> False | Some t \<Rightarrow> now < t)"

definition lease_refused :: "timestamp \<Rightarrow> string option \<Rightarrow> harness_run \<Rightarrow> bool" where
  \<comment> \<open>\<open>_require_lease_locked\<close>\<close>
  "lease_refused now owner r \<longleftrightarrow> owner \<noteq> None \<and> run_lease_live now r \<and> hr_lease_owner r \<noteq> owner"

definition set_default :: "('a \<Rightarrow> bool) \<Rightarrow> 'a \<Rightarrow> 'a list \<Rightarrow> 'a list" where
  \<comment> \<open>\<open>patch.setdefault\<close>: the caller's own value for the column stays\<close>
  "set_default same v fs = (if list_ex same fs then fs else fs @ [v])"

fun is_blocked_reason :: "run_field \<Rightarrow> bool" where
  "is_blocked_reason (PBlockedReason v) = True"
| "is_blocked_reason _ = False"

fun is_started :: "run_field \<Rightarrow> bool" where
  "is_started (PStarted v) = True"
| "is_started _ = False"

fun is_resume :: "run_field \<Rightarrow> bool" where
  "is_resume (PResume v) = True"
| "is_resume _ = False"

definition stage_patch :: "timestamp \<Rightarrow> harness_run \<Rightarrow> stage \<Rightarrow> string option \<Rightarrow> run_field list \<Rightarrow> run_field list" where
  "stage_patch now r to_stage reason fs =
     (let fs1 = (if to_stage = BLOCKED \<and> nonempty reason
                 then set_default is_blocked_reason (PBlockedReason reason) fs else fs);
          fs2 = (if hr_started r = None \<and> to_stage \<in> set ACTIVE_STAGES
                 then set_default is_started (PStarted (Some now)) fs1 else fs1)
      in if to_stage \<in> set RESUMABLE_STAGES then set_default is_resume (PResume (Some to_stage)) fs2 else fs2)"

definition enter_stage :: "timestamp \<Rightarrow> stage \<Rightarrow> harness_run \<Rightarrow> harness_run" where
  "enter_stage now to_stage r =
     r\<lparr>hr_stage := to_stage, hr_status := (if stage_terminal to_stage then Terminal else Active),
       hr_updated := now,
       hr_completed := (if stage_terminal to_stage then Some now else hr_completed r)\<rparr>"

definition advance ::
  "timestamp \<Rightarrow> string \<Rightarrow> stage \<Rightarrow> string option \<Rightarrow> string option \<Rightarrow> string option \<Rightarrow> run_field list \<Rightarrow> harness_run htx" where
  \<comment> \<open>the one place a stage changes: actor, reason, owner, further columns\<close>
  "advance now i to_stage actor reason owner fs db =
     (case get_run i db of
        None \<Rightarrow> (Inl (RunNotFound i), db)
      | Some r \<Rightarrow>
          if lease_refused now owner r then (Inl (LeaseNotHeld i owner (hr_lease_owner r)), db)
          else if \<not> stage_edge (hr_stage r) to_stage
            then (Inl (InvalidStageTransition (hr_stage r) to_stage), db)
          else let patch = stage_patch now r to_stage reason fs in
            case (if patch = [] then (Inr r, db) else apply_patch_locked now i patch db) of
              (Inl e, _) \<Rightarrow> (Inl e, db)
            | (Inr r1, db1) \<Rightarrow>
                (Inr (enter_stage now to_stage r1),
                 event_locked now i ''STAGE'' (Some (hr_stage r)) (Some to_stage) (Some (hr_iteration r)) actor reason
                   (update_run i (enter_stage now to_stage) db1)))"

definition acquire_run_lease :: "timestamp \<Rightarrow> string \<Rightarrow> string \<Rightarrow> int \<Rightarrow> bool htx" where
  "acquire_run_lease now i owner ttl db =
     (case get_run i db of
        None \<Rightarrow> (Inl (RunNotFound i), db)
      | Some r \<Rightarrow>
          if run_lease_live now r \<and> hr_lease_owner r \<noteq> Some owner then (Inr False, db)
          else (Inr True, note_locked now i ''LEASE_ACQUIRED'' None (Some owner)
                  (Some (''ttl='' @ int_str ttl @ ''s''))
                  (update_run i (\<lambda>r. r\<lparr>hr_lease_owner := Some owner, hr_lease_expires := Some (now + ttl),
                     hr_updated := now\<rparr>) db)))"

definition release_run_lease :: "timestamp \<Rightarrow> string \<Rightarrow> string \<Rightarrow> bool htx" where
  "release_run_lease now i owner db =
     (case get_run i db of
        None \<Rightarrow> (Inl (RunNotFound i), db)
      | Some r \<Rightarrow>
          if hr_lease_owner r \<noteq> None \<and> hr_lease_owner r \<noteq> Some owner then (Inr False, db)
          else (Inr True, note_locked now i ''LEASE_RELEASED'' None (Some owner) None
                  (update_run i (\<lambda>r. r\<lparr>hr_lease_owner := None, hr_lease_expires := None, hr_updated := now\<rparr>) db)))"

subsection \<open>The same without the write lock\<close>

text \<open>
  The store opens no transaction before it reads: SQLite's deferred isolation takes the write lock at the
  first UPDATE. The row a call has read may be out of date when it writes, and the UPDATE names the run
  only by its id. Here the row that the SELECT answered is an argument (\<open>row\<close>); the definitions above are the
  calls whose row is still the one in the table.
\<close>

definition advance_from ::
  "harness_run option \<Rightarrow> timestamp \<Rightarrow> string \<Rightarrow> stage \<Rightarrow> string option \<Rightarrow> string option \<Rightarrow> string option \<Rightarrow> run_field list
   \<Rightarrow> harness_run htx" where
  \<comment> \<open>lease and table are checked on the row that was read; a run is never deleted, so its row is still there\<close>
  "advance_from row now i to_stage actor reason owner fs db =
     (case row of
        None \<Rightarrow> (Inl (RunNotFound i), db)
      | Some r \<Rightarrow>
          if lease_refused now owner r then (Inl (LeaseNotHeld i owner (hr_lease_owner r)), db)
          else if \<not> stage_edge (hr_stage r) to_stage
            then (Inl (InvalidStageTransition (hr_stage r) to_stage), db)
          else let patch = stage_patch now r to_stage reason fs in
            case (if patch = [] then require_run i db else apply_patch_locked now i patch db) of
              (Inl e, _) \<Rightarrow> (Inl e, db)
            | (Inr r1, db1) \<Rightarrow>
                (Inr (enter_stage now to_stage r1),
                 event_locked now i ''STAGE'' (Some (hr_stage r)) (Some to_stage) (Some (hr_iteration r)) actor reason
                   (update_run i (enter_stage now to_stage) db1)))"

definition acquire_from :: "harness_run option \<Rightarrow> timestamp \<Rightarrow> string \<Rightarrow> string \<Rightarrow> int \<Rightarrow> bool htx" where
  "acquire_from row now i owner ttl db =
     (case row of
        None \<Rightarrow> (Inl (RunNotFound i), db)
      | Some r \<Rightarrow>
          if run_lease_live now r \<and> hr_lease_owner r \<noteq> Some owner then (Inr False, db)
          else (Inr True, note_locked now i ''LEASE_ACQUIRED'' None (Some owner)
                  (Some (''ttl='' @ int_str ttl @ ''s''))
                  (update_run i (\<lambda>r. r\<lparr>hr_lease_owner := Some owner, hr_lease_expires := Some (now + ttl),
                     hr_updated := now\<rparr>) db)))"

definition release_from :: "harness_run option \<Rightarrow> timestamp \<Rightarrow> string \<Rightarrow> string \<Rightarrow> bool htx" where
  "release_from row now i owner db =
     (case row of
        None \<Rightarrow> (Inl (RunNotFound i), db)
      | Some r \<Rightarrow>
          if hr_lease_owner r \<noteq> None \<and> hr_lease_owner r \<noteq> Some owner then (Inr False, db)
          else (Inr True, note_locked now i ''LEASE_RELEASED'' None (Some owner) None
                  (update_run i (\<lambda>r. r\<lparr>hr_lease_owner := None, hr_lease_expires := None, hr_updated := now\<rparr>) db)))"

lemma run_calls_undisturbed:
  "advance_from (get_run i db) now i st actor reason owner fs db = advance now i st actor reason owner fs db"
  "acquire_from (get_run i db) now i who ttl db = acquire_run_lease now i who ttl db"
  "release_from (get_run i db) now i who db = release_run_lease now i who db"
  by (simp_all add: advance_from_def advance_def acquire_from_def acquire_run_lease_def release_from_def
      release_run_lease_def require_run_def Let_def split: option.split)

section \<open>Contracts\<close>

definition save_contract :: "(string \<Rightarrow> string) \<Rightarrow> timestamp \<Rightarrow> exec_contract \<Rightarrow> string option \<Rightarrow> exec_contract htx" where
  "save_contract sha now c actor db =
     (if \<exists>x\<in>set (db_contracts db). xc_run x = xc_run c \<and> xc_version x = xc_version c
      then (Inl (HarnessValueError (''contract version '' @ int_str (xc_version c) @ '' already exists for run ''
              @ xc_run c @ ''; a change is a new version, not an edit'')), db)
      else (Inr c, note_locked now (xc_run c) ''CONTRACT_WRITTEN'' None actor (Some (''v'' @ int_str (xc_version c)))
              (update_run (xc_run c) (\<lambda>r. r\<lparr>hr_contract := Some (xc_id c),
                   hr_contract_hash := Some (content_hash sha c), hr_updated := now\<rparr>)
                 (db\<lparr>db_contracts := db_contracts db @ [exec_contract.extend c \<lparr>xs_hash = content_hash sha c\<rparr>]\<rparr>))))"

definition freeze_contract :: "timestamp \<Rightarrow> string \<Rightarrow> string option \<Rightarrow> unit htx" where
  "freeze_contract now cid actor db =
     (case find_row (\<lambda>x. xc_id x = cid) (db_contracts db) of
        None \<Rightarrow> (Inl (HarnessLookupError (''no contract '' @ cid)), db)
      | Some x \<Rightarrow> (Inr (), note_locked now (xc_run x) ''CONTRACT_FROZEN'' None actor
              (Some (''v'' @ int_str (xc_version x)))
              (db\<lparr>db_contracts := update_where (\<lambda>x. xc_id x = cid) (\<lambda>x. x\<lparr>xc_frozen := True\<rparr>) (db_contracts db)\<rparr>)))"

definition get_contract :: "string \<Rightarrow> int option \<Rightarrow> harness_db \<Rightarrow> exec_contract option" where
  "get_contract run version db = map_option exec_contract.truncate
     (newest xc_version (filter (\<lambda>x. xc_run x = run
        \<and> (case version of None \<Rightarrow> True | Some v \<Rightarrow> xc_version x = v)) (db_contracts db)))"

definition contract_versions :: "string \<Rightarrow> harness_db \<Rightarrow> stored_contract list" where
  "contract_versions run db = sort_key xc_version (filter (\<lambda>x. xc_run x = run) (db_contracts db))"

section \<open>Iterations, evaluations, checkpoints\<close>

definition find_iteration :: "string \<Rightarrow> int \<Rightarrow> harness_db \<Rightarrow> iteration option" where
  "find_iteration run n db = find_row (\<lambda>x. it_run x = run \<and> it_number x = n) (db_iterations db)"

definition start_iteration ::
  "timestamp \<Rightarrow> string \<Rightarrow> int \<Rightarrow> string option \<Rightarrow> string option \<Rightarrow> string option \<Rightarrow> string option \<Rightarrow> iteration htx" where
  "start_iteration now run n builder session base key db =
     (case find_iteration run n db of
        Some x \<Rightarrow> (Inr x, db)
      | None \<Rightarrow>
          let x = \<lparr>it_id = new_id ''itr'' db, it_run = run, it_number = n, it_key = key, it_builder = builder,
                it_evaluator = None, it_builder_session = session, it_evaluator_session = None,
                it_base_commit = base, it_result_commit = None, it_started = now, it_completed = None,
                it_verdict = None, it_failure = None, it_feedback = None, it_artifact = None\<rparr>
          in (Inr x, note_locked now run ''ITERATION_STARTED'' (Some n) builder None
                (update_run run (\<lambda>r. r\<lparr>hr_iteration := n, hr_updated := now\<rparr>)
                  ((drawn db)\<lparr>db_iterations := db_iterations db @ [x]\<rparr>))))"

definition coalesce :: "'a option \<Rightarrow> 'a option \<Rightarrow> 'a option" where
  "coalesce v old = (case v of None \<Rightarrow> old | Some x \<Rightarrow> Some x)"

definition complete_iteration ::
  "timestamp \<Rightarrow> string \<Rightarrow> int \<Rightarrow> verdict option \<Rightarrow> failure_class option \<Rightarrow> string option \<Rightarrow> string option
   \<Rightarrow> string option \<Rightarrow> iteration option htx" where
  "complete_iteration now run n verdict failure commit evaluator session db =
     (let db1 = note_locked now run ''ITERATION_COMPLETED'' (Some n) None (map_option verdict_text verdict)
            (db\<lparr>db_iterations := update_where (\<lambda>x. it_run x = run \<and> it_number x = n)
               (\<lambda>x. x\<lparr>it_completed := Some now, it_verdict := verdict, it_failure := failure,
                  it_result_commit := coalesce commit (it_result_commit x),
                  it_evaluator := coalesce evaluator (it_evaluator x),
                  it_evaluator_session := coalesce session (it_evaluator_session x)\<rparr>) (db_iterations db)\<rparr>)
      in (Inr (find_iteration run n db1), db1))"

definition iterations_of :: "string \<Rightarrow> harness_db \<Rightarrow> iteration list" where
  "iterations_of run db = sort_key it_number (filter (\<lambda>x. it_run x = run) (db_iterations db))"

definition record_evaluation :: "timestamp \<Rightarrow> evaluation \<Rightarrow> evaluation htx" where
  "record_evaluation now ev db =
     (if \<exists>x\<in>set (db_evaluations db). hv_id x = hv_id ev
      then (Inl (HarnessIntegrityError ''UNIQUE constraint failed: harness_evaluations.id''), db)
      else (Inr ev, note_locked now (hv_run ev) ''EVALUATION'' (Some (hv_iteration ev)) (hv_agent ev)
              (Some (verdict_text (hv_result ev)))
              (db\<lparr>db_evaluations := db_evaluations db @ [ev]\<rparr>)))"

definition evaluations_of :: "string \<Rightarrow> harness_db \<Rightarrow> evaluation list" where
  "evaluations_of run db =
     sort_key hv_iteration (sort_key hv_created (filter (\<lambda>x. hv_run x = run) (db_evaluations db)))"

definition latest_evaluation :: "string \<Rightarrow> int option \<Rightarrow> harness_db \<Rightarrow> evaluation option" where
  \<comment> \<open>\<open>ORDER BY iteration DESC, created_at DESC LIMIT 1\<close>\<close>
  "latest_evaluation run n db =
     newest hv_iteration (sort_key (\<lambda>x. - hv_created x)
       (filter (\<lambda>x. hv_run x = run \<and> (case n of None \<Rightarrow> True | Some k \<Rightarrow> hv_iteration x = k)) (db_evaluations db)))"

definition save_checkpoint ::
  "timestamp \<Rightarrow> string \<Rightarrow> string \<Rightarrow> int \<Rightarrow> string option \<Rightarrow> string option \<Rightarrow> string option \<Rightarrow> string option
   \<Rightarrow> string list \<Rightarrow> string list \<Rightarrow> string \<Rightarrow> checkpoint htx" where
  "save_checkpoint now run task n branch commit worktree session checks remaining remark db =
     (let x = \<lparr>ck_id = new_id ''ckp'' db, ck_run = run, ck_task = task, ck_iteration = n, ck_branch = branch,
            ck_commit = commit, ck_worktree = worktree, ck_session = session, ck_checks = checks,
            ck_remaining = remaining, ck_note = remark, ck_created = now\<rparr>
      in (Inr x, note_locked now run ''CHECKPOINT'' (Some n) session (Some remark)
            (update_run run (\<lambda>r. r\<lparr>hr_checkpoint := Some (ck_id x), hr_updated := now\<rparr>)
              ((drawn db)\<lparr>db_checkpoints := db_checkpoints db @ [x]\<rparr>))))"

definition latest_checkpoint :: "string \<Rightarrow> harness_db \<Rightarrow> checkpoint option" where
  \<comment> \<open>\<open>ORDER BY iteration DESC, created_at DESC, rowid DESC LIMIT 1\<close>\<close>
  "latest_checkpoint run db =
     newest ck_iteration (sort_key (\<lambda>x. - ck_created x)
       (rev (filter (\<lambda>x. ck_run x = run) (db_checkpoints db))))"

section \<open>Human decisions\<close>

definition open_decision ::
  "timestamp \<Rightarrow> string \<Rightarrow> string \<Rightarrow> string option \<Rightarrow> string option \<Rightarrow> string option \<Rightarrow> human_decision htx" where
  "open_decision now reason question run task project db =
     (if reason \<notin> set HUMAN_DECISION_REASONS then (Inl (NotAHumanDecision reason), db)
      else let d = \<lparr>hd_id = new_id ''dec'' db, hd_run = run, hd_task = task, hd_project = project,
             hd_reason = reason, hd_question = question, hd_status = ''open'', hd_created = now,
             hd_resolved_at = None, hd_resolved_by = None, hd_resolution = None\<rparr>;
           db1 = (drawn db)\<lparr>db_decisions := db_decisions db @ [d]\<rparr>
        in (Inr d, if nonempty run then note_locked now (the run) ''DECISION_OPENED'' None None (Some reason) db1
                   else db1))"

definition resolve_decision :: "timestamp \<Rightarrow> string \<Rightarrow> string \<Rightarrow> string \<Rightarrow> human_decision option htx" where
  "resolve_decision now did resolution resolved_by db =
     (case find_row (\<lambda>d. hd_id d = did) (db_decisions db) of
        None \<Rightarrow> (Inl (HarnessLookupError (''no decision '' @ did)), db)
      | Some d \<Rightarrow>
          let db1 = db\<lparr>db_decisions := update_where (\<lambda>d. hd_id d = did)
                (\<lambda>d. d\<lparr>hd_status := ''resolved'', hd_resolved_at := Some now, hd_resolved_by := Some resolved_by,
                       hd_resolution := Some resolution\<rparr>) (db_decisions db)\<rparr>;
              db2 = (if nonempty (hd_run d)
                     then note_locked now (the (hd_run d)) ''DECISION_RESOLVED'' None (Some resolved_by) (Some resolution) db1
                     else db1)
          in (Inr (find_row (\<lambda>d. hd_id d = did) (db_decisions db2)), db2))"

definition list_decisions ::
  "string \<Rightarrow> string option \<Rightarrow> string option \<Rightarrow> int \<Rightarrow> harness_db \<Rightarrow> human_decision list" where
  "list_decisions status run project limit db =
     sql_limit limit (sort_key hd_created (filter (\<lambda>d. (status = [] \<or> hd_status d = status)
        \<and> (\<not> nonempty run \<or> hd_run d = run) \<and> (\<not> nonempty project \<or> hd_project d = project))
        (db_decisions db)))"

section \<open>Policy overrides\<close>

definition find_override :: "string \<Rightarrow> string \<Rightarrow> harness_db \<Rightarrow> policy_override option" where
  "find_override scope key db = find_row (\<lambda>p. po_scope p = scope \<and> po_key p = key) (db_policies db)"

definition set_policy_override ::
  "timestamp \<Rightarrow> string \<Rightarrow> string \<Rightarrow> run_mode option \<Rightarrow> authority option \<Rightarrow> int option \<Rightarrow> string option
   \<Rightarrow> policy_override option htx" where
  "set_policy_override now scope key mode auth iterations updated_by db =
     (if scope \<notin> {''global'', ''project'', ''task''}
      then (Inl (HarnessValueError (''unknown policy scope '' @ py_repr scope)), db)
      else let p = \<lparr>po_id = new_id ''hpl'' db, po_scope = scope, po_key = key, po_mode = mode, po_authority = auth,
             po_max_iterations = iterations, po_updated = now, po_updated_by = updated_by\<rparr>;
           db1 = (drawn db)\<lparr>db_policies :=
             (if find_override scope key db = None then db_policies db @ [p]
              else update_where (\<lambda>q. po_scope q = scope \<and> po_key q = key)
                     (\<lambda>q. p\<lparr>po_id := po_id q\<rparr>) (db_policies db))\<rparr>
        in (Inr (find_override scope key db1), db1))"

record merged_override =
  mo_mode :: "run_mode option"
  mo_authority :: "authority option"
  mo_max_iterations :: "int option"
  mo_sources :: "string list"

definition merge_override :: "harness_db \<Rightarrow> string \<times> string \<Rightarrow> merged_override \<Rightarrow> merged_override" where
  \<comment> \<open>one turn of the loop over the three scopes\<close>
  "merge_override db sk m =
     (if snd sk = [] then m
      else case find_override (fst sk) (snd sk) db of
        None \<Rightarrow> m
      | Some p \<Rightarrow> \<lparr>mo_mode = coalesce (po_mode p) (mo_mode m),
          mo_authority = coalesce (po_authority p) (mo_authority m),
          mo_max_iterations = coalesce (po_max_iterations p) (mo_max_iterations m),
          mo_sources = mo_sources m @ [fst sk @ '':'' @ snd sk]\<rparr>)"

definition resolve_policy_overrides :: "string option \<Rightarrow> string option \<Rightarrow> harness_db \<Rightarrow> merged_override" where
  "resolve_policy_overrides project task db =
     fold (merge_override db) [(''global'', ''*''), (''project'', str_or project []), (''task'', str_or task [])]
       \<lparr>mo_mode = None, mo_authority = None, mo_max_iterations = None, mo_sources = []\<rparr>"

section \<open>Artifacts, efficiency, cache\<close>

definition record_artifact :: "timestamp \<Rightarrow> string \<Rightarrow> string \<Rightarrow> string \<Rightarrow> int option \<Rightarrow> artifact htx" where
  "record_artifact now run kind path n db =
     (let x = \<lparr>af_id = new_id ''art'' db, af_run = run, af_iteration = n, af_kind = kind, af_path = path,
            af_created = now\<rparr>
      in (Inr x, (drawn db)\<lparr>db_artifacts := db_artifacts db @ [x]\<rparr>))"

definition artifacts_of :: "string \<Rightarrow> string option \<Rightarrow> harness_db \<Rightarrow> artifact list" where
  "artifacts_of run kind db = sort_key af_created
     (filter (\<lambda>x. af_run x = run \<and> (\<not> nonempty kind \<or> Some (af_kind x) = kind)) (db_artifacts db))"

definition add_counts :: "(counter \<times> int) list \<Rightarrow> (counter \<Rightarrow> int) \<Rightarrow> counter \<Rightarrow> int" where
  "add_counts cs f = fold (\<lambda>cn f. f(fst cn := f (fst cn) + snd cn)) cs f"

definition bump_efficiency :: "timestamp \<Rightarrow> string \<Rightarrow> string option \<Rightarrow> (counter \<times> int) list \<Rightarrow> unit htx" where
  \<comment> \<open>the counters come from a closed type, so the code's unknown-counter error cannot arise\<close>
  "bump_efficiency now run why cs db =
     (let db1 = ensure_efficiency now run db;
          db2 = (if cs = [] then db1 else db1\<lparr>db_efficiency := update_where (\<lambda>e. ef_run e = run)
             (\<lambda>e. e\<lparr>ef_counts := add_counts cs (ef_counts e), ef_updated := now\<rparr>) (db_efficiency db1)\<rparr>);
          db3 = (if nonempty why then db2\<lparr>db_efficiency := update_where (\<lambda>e. ef_run e = run)
             (\<lambda>e. e\<lparr>ef_decisions := ef_decisions e @ [(now, the why)]\<rparr>) (db_efficiency db2)\<rparr> else db2);
          db4 = (case map_of cs PROMPT_TOKENS_ESTIMATE of None \<Rightarrow> db3
             | Some t \<Rightarrow> update_run run (\<lambda>r. r\<lparr>hr_tokens := hr_tokens r + t, hr_updated := now\<rparr>) db3)
      in (Inr (), db4))"

definition efficiency_of :: "string \<Rightarrow> harness_db \<Rightarrow> counter \<Rightarrow> int" where
  "efficiency_of run db = (case find_row (\<lambda>e. ef_run e = run) (db_efficiency db) of
       None \<Rightarrow> zero_counts | Some e \<Rightarrow> ef_counts e)"

definition efficiency_totals :: "string list \<Rightarrow> harness_db \<Rightarrow> counter \<Rightarrow> int" where
  "efficiency_totals runs db c = (\<Sum>run\<leftarrow>runs. efficiency_of run db c)"

definition cache_get :: "timestamp \<Rightarrow> string \<Rightarrow> cache_entry option htx" where
  "cache_get now key db =
     (case find_row (\<lambda>c. cc_key c = key) (db_cache db) of
        None \<Rightarrow> (Inr None, db)
      | Some c \<Rightarrow> (Inr (Some (c\<lparr>cc_hits := cc_hits c + 1\<rparr>)), db\<lparr>db_cache := update_where (\<lambda>c. cc_key c = key)
            (\<lambda>c. c\<lparr>cc_hits := cc_hits c + 1, cc_last_used := now\<rparr>) (db_cache db)\<rparr>))"

definition cache_put :: "timestamp \<Rightarrow> string \<Rightarrow> json \<Rightarrow> string option \<Rightarrow> string list \<Rightarrow> cache_entry option htx" where
  \<comment> \<open>an entry that exists keeps its payload: the key is the hash of what went into it\<close>
  "cache_put now key payload project modules db =
     (let c = \<lparr>cc_key = key, cc_project = project, cc_modules = modules,
            cc_payload = (if payload = JNull then JObj [] else payload),
            cc_bytes = (if payload = JNull then 2 else int (length (json_canonical payload))), cc_hits = 0,
            cc_created = now, cc_last_used = now\<rparr>;
          db1 = db\<lparr>db_cache := (if find_row (\<lambda>c. cc_key c = key) (db_cache db) = None then db_cache db @ [c]
             else update_where (\<lambda>c. cc_key c = key) (\<lambda>c. c\<lparr>cc_last_used := now\<rparr>) (db_cache db))\<rparr>
      in (Inr (find_row (\<lambda>c. cc_key c = key) (db_cache db1)), db1))"

section \<open>Dispatches\<close>

record new_dispatch =
  nd_run :: string
  nd_task :: string
  nd_iteration :: int
  nd_role :: role
  nd_attempt :: int
  nd_key :: string
  nd_nonce :: string
  nd_session :: "string option"
  nd_node :: "string option"
  nd_worktree :: "string option"
  nd_branch :: "string option"
  nd_artifact_path :: "string option"
  nd_reused :: bool

definition same_slot :: "new_dispatch \<Rightarrow> dispatch \<Rightarrow> bool" where
  "same_slot nd d \<longleftrightarrow> ds_run d = nd_run nd \<and> ds_iteration d = nd_iteration nd \<and> ds_role d = nd_role nd
     \<and> ds_attempt d = nd_attempt nd"

fun role_name :: "role \<Rightarrow> string" where
  "role_name PLANNER = ''planner''"
| "role_name BUILDER = ''builder''"
| "role_name EVALUATOR = ''evaluator''"

definition open_dispatch :: "timestamp \<Rightarrow> new_dispatch \<Rightarrow> (dispatch \<times> bool) htx" where
  "open_dispatch now nd db =
     (case find_row (same_slot nd) (db_dispatches db) of
        Some d \<Rightarrow> (Inr (d, False), db)
      | None \<Rightarrow>
          if \<exists>d\<in>set (db_dispatches db). ds_key d = nd_key nd
          then (Inl (HarnessIntegrityError ''UNIQUE constraint failed: harness_dispatches.idempotency_key''), db)
          else let d = \<lparr>ds_id = new_id ''dsp'' db, ds_run = nd_run nd, ds_task = nd_task nd,
                 ds_iteration = nd_iteration nd, ds_role = nd_role nd, ds_attempt = nd_attempt nd,
                 ds_state = ''dispatching'', ds_session = nd_session nd, ds_node = nd_node nd,
                 ds_worktree = nd_worktree nd, ds_branch = nd_branch nd, ds_key = nd_key nd, ds_nonce = nd_nonce nd,
                 ds_artifact_path = nd_artifact_path nd, ds_reused = nd_reused nd, ds_error = None,
                 ds_created = now, ds_completed = None\<rparr>
            in (Inr (d, True), note_locked now (nd_run nd) ''DISPATCH_OPENED'' (Some (nd_iteration nd)) (nd_session nd)
                  (Some (role_name (nd_role nd)))
                  ((drawn db)\<lparr>db_dispatches := db_dispatches db @ [d]\<rparr>)))"

definition OPEN_DISPATCH_STATES :: "string list" where
  "OPEN_DISPATCH_STATES = [''awaiting_session'', ''dispatching'', ''accepted'', ''running'']"

definition open_dispatch_for :: "string \<Rightarrow> int option \<Rightarrow> role option \<Rightarrow> harness_db \<Rightarrow> dispatch option" where
  \<comment> \<open>\<open>ORDER BY created_at DESC, rowid DESC LIMIT 1\<close>\<close>
  "open_dispatch_for run n rl db =
     newest ds_created (rev (filter (\<lambda>d. ds_run d = run \<and> ds_state d \<in> set OPEN_DISPATCH_STATES
        \<and> (case n of None \<Rightarrow> True | Some k \<Rightarrow> ds_iteration d = k)
        \<and> (case rl of None \<Rightarrow> True | Some x \<Rightarrow> ds_role d = x)) (db_dispatches db)))"

definition latest_dispatch :: "string \<Rightarrow> int \<Rightarrow> role \<Rightarrow> harness_db \<Rightarrow> dispatch option" where
  "latest_dispatch run n rl db =
     newest ds_attempt (filter (\<lambda>d. ds_run d = run \<and> ds_iteration d = n \<and> ds_role d = rl) (db_dispatches db))"

datatype dispatch_field =
  DState string | DSession "string option" | DNode "string option" | DWorktree "string option"
| DBranch "string option" | DArtifactPath "string option" | DError "string option"
| DReused bool | DCompleted "timestamp option" | DColumn string

fun set_dispatch_field :: "dispatch_field \<Rightarrow> dispatch \<Rightarrow> dispatch" where
  "set_dispatch_field (DState v) d = d\<lparr>ds_state := v\<rparr>"
| "set_dispatch_field (DSession v) d = d\<lparr>ds_session := v\<rparr>"
| "set_dispatch_field (DNode v) d = d\<lparr>ds_node := v\<rparr>"
| "set_dispatch_field (DWorktree v) d = d\<lparr>ds_worktree := v\<rparr>"
| "set_dispatch_field (DBranch v) d = d\<lparr>ds_branch := v\<rparr>"
| "set_dispatch_field (DArtifactPath v) d = d\<lparr>ds_artifact_path := v\<rparr>"
| "set_dispatch_field (DError v) d = d\<lparr>ds_error := v\<rparr>"
| "set_dispatch_field (DReused v) d = d\<lparr>ds_reused := v\<rparr>"
| "set_dispatch_field (DCompleted v) d = d\<lparr>ds_completed := v\<rparr>"
| "set_dispatch_field (DColumn v) d = d"

fun dispatch_column_unknown :: "dispatch_field \<Rightarrow> string option" where
  "dispatch_column_unknown (DColumn v) = Some v"
| "dispatch_column_unknown _ = None"

fun field_state :: "dispatch_field \<Rightarrow> string option" where
  "field_state (DState v) = Some v"
| "field_state _ = None"

definition update_dispatch :: "timestamp \<Rightarrow> string \<Rightarrow> dispatch_field list \<Rightarrow> dispatch option htx" where
  "update_dispatch now did fs db =
     (if List.map_filter dispatch_column_unknown fs \<noteq> []
      then (Inl (HarnessValueError (''not updatable on harness_dispatches: [''
              @ join '', '' (map py_repr (sort (remdups (List.map_filter dispatch_column_unknown fs)))) @ '']'')), db)
      else case find_row (\<lambda>d. ds_id d = did) (db_dispatches db) of
        None \<Rightarrow> (Inl (HarnessLookupError (''no dispatch '' @ did)), db)
      | Some d \<Rightarrow>
          let db1 = db\<lparr>db_dispatches := update_where (\<lambda>d. ds_id d = did)
                (fold set_dispatch_field fs) (db_dispatches db)\<rparr>;
              new = (case List.map_filter field_state fs of [] \<Rightarrow> [] | v # _ \<Rightarrow> v);
              db2 = (if new \<noteq> [] \<and> new \<noteq> ds_state d
                     then note_locked now (ds_run d) ''DISPATCH_STATE'' (Some (ds_iteration d)) None
                       (Some (role_name (ds_role d) @ '': '' @ ds_state d @ '' -> '' @ new)) db1
                     else db1)
          in (Inr (find_row (\<lambda>d. ds_id d = did) (db_dispatches db2)), db2))"

definition sessions_in_use :: "string option \<Rightarrow> harness_db \<Rightarrow> string list" where
  "sessions_in_use exclude db = remdups (List.map_filter ds_session
     (filter (\<lambda>d. ds_state d \<in> set OPEN_DISPATCH_STATES
        \<and> (\<not> nonempty exclude \<or> Some (ds_run d) \<noteq> exclude)) (db_dispatches db)))"

end
