(* ===== verification/HarnessHistory.thy ===== *)
theory HarnessHistory
  imports HarnessStore
begin

text \<open>
  What any sequence of store calls keeps: the event log replays to the stage of every run, along
  the table of edges; contract versions and the log are append-only; an iteration and a dispatch
  slot exist once; every question put to a human has a reason of the closed list.
\<close>

section \<open>Calls\<close>

datatype harness_call =
  CallCreate timestamp new_run
| CallPatch timestamp string "run_field list"
| CallAdvance timestamp string stage "string option" "string option" "string option" "run_field list"
| CallAcquire timestamp string string int
| CallRelease timestamp string string
| CallSave timestamp exec_contract "string option"
| CallFreeze timestamp string "string option"
| CallIteration timestamp string int "string option" "string option" "string option" "string option"
| CallComplete timestamp string int "verdict option" "failure_class option" "string option" "string option" "string option"
| CallEvaluation timestamp evaluation
| CallCheckpoint timestamp string string int "string option" "string option" "string option" "string option"
    "string list" "string list" string
| CallDecision timestamp string string "string option" "string option" "string option"
| CallResolve timestamp string string string
| CallOverride timestamp string string "run_mode option" "authority option" "int option" "string option"
| CallArtifact timestamp string string string "int option"
| CallBump timestamp string "string option" "(counter \<times> int) list"
| CallCacheGet timestamp string
| CallCachePut timestamp string json "string option" "string list"
| CallDispatch timestamp new_dispatch
| CallUpdateDispatch timestamp string "dispatch_field list"
| CallNote timestamp string string "int option" "string option" "string option"
| CallDraw  \<comment> \<open>a caller draws an id of its own\<close>

fun harness_exec :: "(string \<Rightarrow> string) \<Rightarrow> harness_call \<Rightarrow> harness_db \<Rightarrow> harness_db" where
  "harness_exec sha (CallCreate now nr) db = snd (create_run now nr db)"
| "harness_exec sha (CallPatch now i fs) db = snd (patch_run now i fs db)"
| "harness_exec sha (CallAdvance now i st actor reason owner fs) db = snd (advance now i st actor reason owner fs db)"
| "harness_exec sha (CallAcquire now i owner ttl) db = snd (acquire_run_lease now i owner ttl db)"
| "harness_exec sha (CallRelease now i owner) db = snd (release_run_lease now i owner db)"
| "harness_exec sha (CallSave now c actor) db = snd (save_contract sha now c actor db)"
| "harness_exec sha (CallFreeze now cid actor) db = snd (freeze_contract now cid actor db)"
| "harness_exec sha (CallIteration now i n builder session base key) db =
     snd (start_iteration now i n builder session base key db)"
| "harness_exec sha (CallComplete now i n v f commit evaluator session) db =
     snd (complete_iteration now i n v f commit evaluator session db)"
| "harness_exec sha (CallEvaluation now ev) db = snd (record_evaluation now ev db)"
| "harness_exec sha (CallCheckpoint now i task n branch commit worktree session checks remaining remark) db =
     snd (save_checkpoint now i task n branch commit worktree session checks remaining remark db)"
| "harness_exec sha (CallDecision now reason question i task project) db =
     snd (open_decision now reason question i task project db)"
| "harness_exec sha (CallResolve now did resolution resolved_by) db = snd (resolve_decision now did resolution resolved_by db)"
| "harness_exec sha (CallOverride now scope key mode auth n updated_by) db =
     snd (set_policy_override now scope key mode auth n updated_by db)"
| "harness_exec sha (CallArtifact now i kind path n) db = snd (record_artifact now i kind path n db)"
| "harness_exec sha (CallBump now i why cs) db = snd (bump_efficiency now i why cs db)"
| "harness_exec sha (CallCacheGet now key) db = snd (cache_get now key db)"
| "harness_exec sha (CallCachePut now key payload project modules) db =
     snd (cache_put now key payload project modules db)"
| "harness_exec sha (CallDispatch now nd) db = snd (open_dispatch now nd db)"
| "harness_exec sha (CallUpdateDispatch now did fs) db = snd (update_dispatch now did fs db)"
| "harness_exec sha (CallNote now i etype n actor reason) db = snd (record_harness_event now i etype n actor reason db)"
| "harness_exec sha CallDraw db = drawn db"

fun honest_call :: "harness_call \<Rightarrow> bool" where
  \<comment> \<open>nobody writes a STAGE event by hand\<close>
  "honest_call (CallNote now i etype n actor reason) \<longleftrightarrow> etype \<noteq> ''STAGE''"
| "honest_call _ = True"

section \<open>What the building blocks leave alone\<close>

lemma event_frame [simp]:
  "db_runs (event_locked now run etype f t n a w db) = db_runs db"
  "db_contracts (event_locked now run etype f t n a w db) = db_contracts db"
  "db_iterations (event_locked now run etype f t n a w db) = db_iterations db"
  "db_evaluations (event_locked now run etype f t n a w db) = db_evaluations db"
  "db_decisions (event_locked now run etype f t n a w db) = db_decisions db"
  "db_dispatches (event_locked now run etype f t n a w db) = db_dispatches db"
  "db_ids (event_locked now run etype f t n a w db) = db_ids db"
  "db_checkpoints (event_locked now run etype f t n a w db) = db_checkpoints db"
  "db_efficiency (event_locked now run etype f t n a w db) = db_efficiency db"
  "db_policies (event_locked now run etype f t n a w db) = db_policies db"
  by (simp_all add: event_locked_def)

lemma note_frame [simp]:
  "db_runs (note_locked now run etype n a w db) = db_runs db"
  "db_contracts (note_locked now run etype n a w db) = db_contracts db"
  "db_iterations (note_locked now run etype n a w db) = db_iterations db"
  "db_evaluations (note_locked now run etype n a w db) = db_evaluations db"
  "db_decisions (note_locked now run etype n a w db) = db_decisions db"
  "db_dispatches (note_locked now run etype n a w db) = db_dispatches db"
  "db_ids (note_locked now run etype n a w db) = db_ids db"
  "db_checkpoints (note_locked now run etype n a w db) = db_checkpoints db"
  "db_efficiency (note_locked now run etype n a w db) = db_efficiency db"
  "db_policies (note_locked now run etype n a w db) = db_policies db"
  by (simp_all add: note_locked_def)

lemma update_run_frame [simp]:
  "db_contracts (update_run i f db) = db_contracts db"
  "db_iterations (update_run i f db) = db_iterations db"
  "db_evaluations (update_run i f db) = db_evaluations db"
  "db_decisions (update_run i f db) = db_decisions db"
  "db_dispatches (update_run i f db) = db_dispatches db"
  "db_ids (update_run i f db) = db_ids db"
  "db_events (update_run i f db) = db_events db"
  "db_sequence (update_run i f db) = db_sequence db"
  "db_checkpoints (update_run i f db) = db_checkpoints db"
  "db_efficiency (update_run i f db) = db_efficiency db"
  "db_policies (update_run i f db) = db_policies db"
  "db_runs (update_run i f db) = update_where (\<lambda>r. hr_id r = i) f (db_runs db)"
  by (simp_all add: update_run_def)

lemma drawn_frame [simp]:
  "db_runs (drawn db) = db_runs db" "db_contracts (drawn db) = db_contracts db"
  "db_iterations (drawn db) = db_iterations db" "db_evaluations (drawn db) = db_evaluations db"
  "db_decisions (drawn db) = db_decisions db" "db_dispatches (drawn db) = db_dispatches db"
  "db_events (drawn db) = db_events db" "db_sequence (drawn db) = db_sequence db"
  "db_ids (drawn db) = Suc (db_ids db)" "db_checkpoints (drawn db) = db_checkpoints db"
  "db_efficiency (drawn db) = db_efficiency db" "db_policies (drawn db) = db_policies db"
  by (simp_all add: drawn_def)

lemma ensure_efficiency_frame [simp]:
  "db_runs (ensure_efficiency now i db) = db_runs db" "db_contracts (ensure_efficiency now i db) = db_contracts db"
  "db_iterations (ensure_efficiency now i db) = db_iterations db"
  "db_evaluations (ensure_efficiency now i db) = db_evaluations db"
  "db_decisions (ensure_efficiency now i db) = db_decisions db"
  "db_dispatches (ensure_efficiency now i db) = db_dispatches db"
  "db_events (ensure_efficiency now i db) = db_events db" "db_sequence (ensure_efficiency now i db) = db_sequence db"
  "db_ids (ensure_efficiency now i db) = db_ids db" "db_checkpoints (ensure_efficiency now i db) = db_checkpoints db"
  by (simp_all add: ensure_efficiency_def)

section \<open>The log replays to the stage\<close>

definition is_stage_event :: "harness_event \<Rightarrow> bool" where
  "is_stage_event e \<longleftrightarrow> he_type e = ''STAGE''"

definition stage_log :: "string \<Rightarrow> harness_db \<Rightarrow> harness_event list" where
  "stage_log run db = filter (\<lambda>e. he_run e = run \<and> is_stage_event e) (db_events db)"

primrec replay :: "stage \<Rightarrow> harness_event list \<Rightarrow> stage option" where
  \<comment> \<open>follow the log, checking every step against the table\<close>
  "replay st [] = Some st"
| "replay st (e # es) = (case he_to e of
       Some st' \<Rightarrow> if he_from e = Some st \<and> stage_edge st st' then replay st' es else None
     | None \<Rightarrow> None)"

lemma replay_append: "replay st (es @ [e]) = (case replay st es of None \<Rightarrow> None | Some st' \<Rightarrow> replay st' [e])"
  by (induction es arbitrary: st) (auto split: option.splits)

definition stage_view :: "harness_db \<Rightarrow> (string \<times> stage) list \<times> harness_event list" where
  "stage_view db = (map (\<lambda>r. (hr_id r, hr_stage r)) (db_runs db), filter is_stage_event (db_events db))"

lemma stage_view_event: "stage_view (event_locked now run etype f t n a w db) = (fst (stage_view db),
    snd (stage_view db) @ (if etype = ''STAGE'' then [\<lparr>he_id = db_sequence db + 1, he_run = run, he_at = now,
          he_type = etype, he_from = f, he_to = t, he_iteration = n, he_actor = a, he_reason = w\<rparr>] else []))"
  by (simp add: stage_view_def event_locked_def is_stage_event_def)

lemma stage_view_note [simp]: "etype \<noteq> ''STAGE'' \<Longrightarrow> stage_view (note_locked now run etype n a w db) = stage_view db"
  by (simp add: note_locked_def stage_view_event)

lemma stage_view_update_run [simp]:
  "(\<And>r. hr_id (f r) = hr_id r) \<Longrightarrow> (\<And>r. hr_stage (f r) = hr_stage r) \<Longrightarrow>
   stage_view (update_run i f db) = stage_view db"
  by (simp add: stage_view_def map_update_where_same)

lemma stage_view_others [simp]:
  "stage_view (drawn db) = stage_view db" "stage_view (ensure_efficiency now i db) = stage_view db"
  "stage_view (db\<lparr>db_contracts := cs\<rparr>) = stage_view db" "stage_view (db\<lparr>db_iterations := its\<rparr>) = stage_view db"
  "stage_view (db\<lparr>db_evaluations := es\<rparr>) = stage_view db" "stage_view (db\<lparr>db_checkpoints := ks\<rparr>) = stage_view db"
  "stage_view (db\<lparr>db_decisions := ds\<rparr>) = stage_view db" "stage_view (db\<lparr>db_policies := ps\<rparr>) = stage_view db"
  "stage_view (db\<lparr>db_artifacts := as\<rparr>) = stage_view db" "stage_view (db\<lparr>db_efficiency := fs\<rparr>) = stage_view db"
  "stage_view (db\<lparr>db_cache := cc\<rparr>) = stage_view db" "stage_view (db\<lparr>db_dispatches := dd\<rparr>) = stage_view db"
  by (simp_all add: stage_view_def)

lemma patch_field_identity:
  "hr_id (patch_field f r) = hr_id r" "hr_stage (patch_field f r) = hr_stage r" "hr_status (patch_field f r) = hr_status r"
  "hr_task (patch_field f r) = hr_task r" "hr_request_key (patch_field f r) = hr_request_key r"
  "hr_lease_owner (patch_field f r) = hr_lease_owner r" "hr_lease_expires (patch_field f r) = hr_lease_expires r"
  by (cases f; simp)+

lemma patch_fields_identity [simp]:
  "hr_id (patch_fields now fs r) = hr_id r" "hr_stage (patch_fields now fs r) = hr_stage r"
  "hr_status (patch_fields now fs r) = hr_status r"
  "hr_task (patch_fields now fs r) = hr_task r" "hr_request_key (patch_fields now fs r) = hr_request_key r"
  "hr_lease_owner (patch_fields now fs r) = hr_lease_owner r" "hr_lease_expires (patch_fields now fs r) = hr_lease_expires r"
proof -
  have "hr_id (fold patch_field fs r) = hr_id r \<and> hr_stage (fold patch_field fs r) = hr_stage r
    \<and> hr_status (fold patch_field fs r) = hr_status r \<and> hr_task (fold patch_field fs r) = hr_task r
    \<and> hr_request_key (fold patch_field fs r) = hr_request_key r
    \<and> hr_lease_owner (fold patch_field fs r) = hr_lease_owner r
    \<and> hr_lease_expires (fold patch_field fs r) = hr_lease_expires r"
    by (induction fs arbitrary: r) (simp_all add: patch_field_identity)
  then show "hr_id (patch_fields now fs r) = hr_id r" "hr_stage (patch_fields now fs r) = hr_stage r"
    "hr_status (patch_fields now fs r) = hr_status r"
    "hr_task (patch_fields now fs r) = hr_task r" "hr_request_key (patch_fields now fs r) = hr_request_key r"
    "hr_lease_owner (patch_fields now fs r) = hr_lease_owner r" "hr_lease_expires (patch_fields now fs r) = hr_lease_expires r"
    by (simp_all add: patch_fields_def)
qed

lemma enter_stage_fields [simp]:
  "hr_id (enter_stage now st r) = hr_id r" "hr_stage (enter_stage now st r) = st"
  "hr_status (enter_stage now st r) = (if stage_terminal st then Terminal else Active)"
  "hr_task (enter_stage now st r) = hr_task r" "hr_request_key (enter_stage now st r) = hr_request_key r"
  by (simp_all add: enter_stage_def)

lemma get_run_id: "get_run i db = Some r \<Longrightarrow> r \<in> set (db_runs db) \<and> hr_id r = i"
  by (auto simp: get_run_def find_row_def dest: find_Some_in_set)

lemma advance_cases:
  obtains (refused) e where "advance now i st actor reason owner fs db = (Inl e, db)"
  | (advanced) r f where "get_run i db = Some r" "\<not> lease_refused now owner r" "stage_edge (hr_stage r) st"
      "\<And>x. hr_id (f x) = hr_id x" "\<And>x. hr_stage (f x) = hr_stage x" "\<And>x. hr_task (f x) = hr_task x"
      "\<And>x. hr_request_key (f x) = hr_request_key x" "f = id \<or> f = patch_fields now (stage_patch now r st reason fs)"
      "advance now i st actor reason owner fs db = (Inr (enter_stage now st (f r)),
         event_locked now i ''STAGE'' (Some (hr_stage r)) (Some st) (Some (hr_iteration r)) actor reason
           (update_run i (\<lambda>x. enter_stage now st (f x)) db))"
proof (cases "get_run i db")
  case None
  then show ?thesis by (intro refused) (simp add: advance_def)
next
  case (Some r)
  let ?patch = "stage_patch now r st reason fs"
  let ?ok = "\<not> lease_refused now owner r \<and> stage_edge (hr_stage r) st
    \<and> (?patch = [] \<or> List.map_filter off_allowlist ?patch = [])"
  have rejects: "\<exists>e. advance now i st actor reason owner fs db = (Inl e, db)" if notok: "\<not> ?ok"
  proof -
    consider "lease_refused now owner r" | "\<not> lease_refused now owner r" "\<not> stage_edge (hr_stage r) st"
      | name names where "\<not> lease_refused now owner r" "stage_edge (hr_stage r) st" "?patch \<noteq> []"
          "List.map_filter off_allowlist ?patch = name # names"
      using notok by (cases "List.map_filter off_allowlist ?patch") auto
    then show ?thesis
      by cases (simp_all add: advance_def Some Let_def apply_patch_locked_def)
  qed
  consider (bad) e where "advance now i st actor reason owner fs db = (Inl e, db)"
    | (good) "\<not> lease_refused now owner r" "stage_edge (hr_stage r) st"
        "?patch = [] \<or> List.map_filter off_allowlist ?patch = []"
    using rejects by blast
  then show ?thesis
  proof cases
    case bad
    then show ?thesis by (rule refused)
  next
    case good
    have twice: "update_run i (enter_stage now st) (update_run i (patch_fields now ?patch) db) =
        update_run i (\<lambda>x. enter_stage now st (patch_fields now ?patch x)) db"
      by (simp add: update_run_def update_where_def)
    show ?thesis
    proof (cases "?patch = []")
      case True
      then show ?thesis using Some good
        by (intro advanced [of r id]) (simp_all add: advance_def Let_def)
    next
      case False
      then have "advance now i st actor reason owner fs db = (Inr (enter_stage now st (patch_fields now ?patch r)),
         event_locked now i ''STAGE'' (Some (hr_stage r)) (Some st) (Some (hr_iteration r)) actor reason
           (update_run i (\<lambda>x. enter_stage now st (patch_fields now ?patch x)) db))"
        using Some good by (simp add: advance_def Let_def apply_patch_locked_def twice)
      then show ?thesis using Some good by (intro advanced [of r "patch_fields now ?patch"]) simp_all
    qed
  qed
qed

lemma stage_view_advance:
  assumes "get_run i db = Some r" and "\<And>x. hr_id (f x) = hr_id x" and "\<And>x. hr_stage (f x) = hr_stage x"
  shows "stage_view (event_locked now i ''STAGE'' (Some (hr_stage r)) (Some st) n actor reason
           (update_run i (\<lambda>x. enter_stage now st (f x)) db)) =
    (map (\<lambda>is. if fst is = i then (i, st) else is) (fst (stage_view db)),
     snd (stage_view db) @ [\<lparr>he_id = db_sequence db + 1, he_run = i, he_at = now, he_type = ''STAGE'',
        he_from = Some (hr_stage r), he_to = Some st, he_iteration = n, he_actor = actor, he_reason = reason\<rparr>])"
  using assms by (simp add: stage_view_event) (auto simp: stage_view_def update_where_def)

definition quiet :: "harness_db \<Rightarrow> harness_db \<Rightarrow> bool" where
  "quiet db db' \<longleftrightarrow> stage_view db' = stage_view db \<and> db_ids db \<le> db_ids db'"

lemma quiet_refl [simp]: "quiet db db"
  by (simp add: quiet_def)

lemma quiet_call:
  assumes "honest_call call" and "\<And>now nr. call \<noteq> CallCreate now nr"
    and "\<And>now i st actor reason owner fs. call \<noteq> CallAdvance now i st actor reason owner fs"
  shows "quiet db (harness_exec sha call db)"
proof (cases call)
  case (CallPatch now i fs)
  then show ?thesis
    by (auto simp: quiet_def patch_run_def apply_patch_locked_def split: option.split list.split)
next
  case (CallBump now i why cs)
  then show ?thesis
    by (auto simp: quiet_def bump_efficiency_def Let_def split: option.split)
next
  case (CallUpdateDispatch now did fs)
  then show ?thesis
    by (auto simp: quiet_def update_dispatch_def Let_def split: option.split)
qed (use assms in \<open>auto simp: quiet_def acquire_run_lease_def release_run_lease_def save_contract_def
    freeze_contract_def start_iteration_def complete_iteration_def record_evaluation_def save_checkpoint_def
    open_decision_def resolve_decision_def set_policy_override_def record_artifact_def cache_get_def cache_put_def
    open_dispatch_def record_harness_event_def Let_def split: option.split\<close>)

section \<open>The history invariant\<close>

definition log_view_ok :: "nat \<Rightarrow> (string \<times> stage) list \<times> harness_event list \<Rightarrow> bool" where
  "log_view_ok n v \<longleftrightarrow> distinct (map fst (fst v))
     \<and> (\<forall>x\<in>set (fst v). \<exists>m<n. fst x = ''hrn_'' @ nat_str m)
     \<and> he_run ` set (snd v) \<subseteq> set (map fst (fst v))
     \<and> (\<forall>x\<in>set (fst v). replay INIT (filter (\<lambda>e. he_run e = fst x) (snd v)) = Some (snd x))"

definition history_ok :: "harness_db \<Rightarrow> bool" where
  "history_ok db \<longleftrightarrow> log_view_ok (db_ids db) (stage_view db)"

lemma history_ok_empty: "history_ok empty_db"
  by (simp add: history_ok_def log_view_ok_def stage_view_def empty_db_def)

lemma log_view_ok_mono: "log_view_ok n v \<Longrightarrow> n \<le> n' \<Longrightarrow> log_view_ok n' v"
  unfolding log_view_ok_def by (meson less_le_trans)

lemma history_ok_quiet: "quiet db db' \<Longrightarrow> history_ok db \<Longrightarrow> history_ok db'"
  by (simp add: quiet_def history_ok_def log_view_ok_mono)

lemma digit_char_value: "n < 10 \<Longrightarrow> of_char (digit_char n) - 48 = n"
  by (simp add: digit_char_def)

lemma nat_str_value: "foldl (\<lambda>v c. 10 * v + (of_char c - 48)) 0 (nat_str n) = n"
proof (induction n rule: nat_str.induct)
  case (1 n)
  show ?case
  proof (cases "n < 10")
    case True
    then show ?thesis by (subst nat_str.simps) (simp add: digit_char_value)
  next
    case False
    have "nat_str n = nat_str (n div 10) @ [digit_char (n mod 10)]"
      using False by (subst nat_str.simps) (simp only: if_False)
    then have "foldl (\<lambda>v c. 10 * v + (of_char c - 48)) 0 (nat_str n) = 10 * (n div 10) + (of_char (digit_char (n mod 10)) - 48)"
      using 1[OF False] by (simp only: foldl_append foldl_Cons foldl_Nil)
    then show ?thesis by (simp add: digit_char_value)
  qed
qed

lemma inj_nat_str: "inj nat_str"
  by (rule inj_on_inverseI[where g = "foldl (\<lambda>v c. 10 * v + (of_char c - 48)) 0"]) (rule nat_str_value)

lemmas nat_str_inj = inj_eq[OF inj_nat_str]

lemma log_view_okD:
  assumes "log_view_ok n (ps, es)"
  shows "distinct (map fst ps)" "\<And>x. x \<in> set ps \<Longrightarrow> \<exists>m<n. fst x = ''hrn_'' @ nat_str m"
    "\<And>e. e \<in> set es \<Longrightarrow> he_run e \<in> fst ` set ps"
    "\<And>x. x \<in> set ps \<Longrightarrow> replay INIT (filter (\<lambda>e. he_run e = fst x) es) = Some (snd x)"
  using assms unfolding log_view_ok_def by auto

lemma log_view_okI:
  assumes "distinct (map fst ps)" and "\<And>x. x \<in> set ps \<Longrightarrow> \<exists>m<n. fst x = ''hrn_'' @ nat_str m"
    and "\<And>e. e \<in> set es \<Longrightarrow> he_run e \<in> fst ` set ps"
    and "\<And>x. x \<in> set ps \<Longrightarrow> replay INIT (filter (\<lambda>e. he_run e = fst x) es) = Some (snd x)"
  shows "log_view_ok n (ps, es)"
  unfolding log_view_ok_def using assms by auto

lemma log_view_ok_new:
  assumes ok: "log_view_ok n (ps, es)"
  shows "log_view_ok (Suc n) (ps @ [(''hrn_'' @ nat_str n, INIT)], es)"
proof -
  let ?i = "''hrn_'' @ nat_str n"
  have fresh: "?i \<notin> fst ` set ps"
  proof
    assume "?i \<in> fst ` set ps"
    then obtain x where "x \<in> set ps" "fst x = ?i" by auto
    then obtain m where "m < n" "?i = ''hrn_'' @ nat_str m" using log_view_okD(2)[OF ok] by metis
    then show False by (simp add: nat_str_inj)
  qed
  have "he_run e \<noteq> ?i" if "e \<in> set es" for e
  proof
    assume "he_run e = ?i"
    then show False using log_view_okD(3)[OF ok that] fresh by simp
  qed
  then have none: "filter (\<lambda>e. he_run e = ?i) es = []"
    by (intro filter_False) blast
  show ?thesis
  proof (rule log_view_okI)
    show "distinct (map fst (ps @ [(?i, INIT)]))" using fresh log_view_okD(1)[OF ok] by simp
    show "\<exists>m<Suc n. fst x = ''hrn_'' @ nat_str m" if "x \<in> set (ps @ [(?i, INIT)])" for x
    proof (cases "x \<in> set ps")
      case True
      then show ?thesis using log_view_okD(2)[OF ok, of x] less_SucI by blast
    next
      case False
      then have "fst x = ?i" using that by simp
      then show ?thesis by blast
    qed
    show "he_run e \<in> fst ` set (ps @ [(?i, INIT)])" if "e \<in> set es" for e
      using log_view_okD(3)[OF ok that] by simp
    show "replay INIT (filter (\<lambda>e. he_run e = fst x) es) = Some (snd x)"
      if "x \<in> set (ps @ [(?i, INIT)])" for x
    proof (cases "x \<in> set ps")
      case True
      then show ?thesis by (rule log_view_okD(4)[OF ok])
    next
      case False
      then have "x = (?i, INIT)" using that by simp
      then show ?thesis by (simp only: fst_conv snd_conv none replay.simps)
    qed
  qed
qed

lemma log_view_ok_step:
  assumes ok: "log_view_ok n (ps, es)" and here: "(i, st) \<in> set ps" and edge: "stage_edge st st'"
    and e: "he_run e = i" "he_from e = Some st" "he_to e = Some st'"
  shows "log_view_ok n (map (\<lambda>x. if fst x = i then (i, st') else x) ps, es @ [e])"
proof (rule log_view_okI)
  let ?f = "\<lambda>x. if fst x = i then (i, st') else x"
  have names: "map fst (map ?f ps) = map fst ps" by (simp add: if_distrib)
  show "distinct (map fst (map ?f ps))" unfolding names by (rule log_view_okD(1)[OF ok])
  have heads: "fst ` set (map ?f ps) = fst ` set ps" using names by (metis set_map)
  show "\<exists>m<n. fst x = ''hrn_'' @ nat_str m" if "x \<in> set (map ?f ps)" for x
  proof -
    from that have "fst x \<in> fst ` set ps" using heads by auto
    then obtain y where "y \<in> set ps" "fst y = fst x" by (metis imageE)
    then show ?thesis using log_view_okD(2)[OF ok, of y] by simp
  qed
  show "he_run x \<in> fst ` set (map ?f ps)" if "x \<in> set (es @ [e])" for x
    unfolding heads using that log_view_okD(3)[OF ok, of x] here e by force
  show "replay INIT (filter (\<lambda>e. he_run e = fst x) (es @ [e])) = Some (snd x)" if "x \<in> set (map ?f ps)" for x
  proof (cases "fst x = i")
    case True
    then have "snd x = st'" using that by (auto split: if_splits) (metis snd_conv)
    then show ?thesis
      using log_view_okD(4)[OF ok here] True edge e by (simp add: replay_append)
  next
    case False
    then have "x \<in> set ps" using that by (auto split: if_splits)
    then show ?thesis using log_view_okD(4)[OF ok] False e by simp
  qed
qed

lemma create_run_cases:
  obtains (answered) res where "create_run now nr db = (res, drawn db)"
  | (created) w where "nr_request_key nr = None \<or> (\<forall>r\<in>set (db_runs db). hr_request_key r \<noteq> nr_request_key nr)"
      "create_run now nr db = (Inr (run_row now (new_id ''hrn'' db) nr, True),
         event_locked now (new_id ''hrn'' db) ''RUN_CREATED'' None (Some INIT) None (nr_actor nr) w
           (ensure_efficiency now (new_id ''hrn'' db)
             ((drawn db)\<lparr>db_runs := db_runs db @ [run_row now (new_id ''hrn'' db) nr]\<rparr>)))"
proof (cases "if nonempty (nr_request_key nr)
            then find_row (\<lambda>r. hr_request_key r = nr_request_key nr) (db_runs db) else None")
  case (Some r)
  then show ?thesis by (intro answered) (simp add: create_run_def Let_def)
next
  case None
  show ?thesis
  proof (cases "nr_request_key nr \<noteq> None \<and> (\<exists>r\<in>set (db_runs db). hr_request_key r = nr_request_key nr)")
    case True
    then have "snd (create_run now nr db) = drawn db"
      by (simp only: create_run_def Let_def None option.case if_True simp_thms snd_conv)
    then show ?thesis by (intro answered[of "fst (create_run now nr db)"]) (simp add: prod_eq_iff)
  next
    case False
    then show ?thesis by (intro created) (auto simp only: create_run_def Let_def None option.case if_False)
  qed
qed

lemma stage_view_create:
  "stage_view (event_locked now i ''RUN_CREATED'' f t n a w (ensure_efficiency now i
     ((drawn db)\<lparr>db_runs := db_runs db @ [r]\<rparr>)))
   = (fst (stage_view db) @ [(hr_id r, hr_stage r)], snd (stage_view db))"
  by (simp add: stage_view_event) (simp add: stage_view_def)

lemma run_row_fields [simp]: "hr_id (run_row now i nr) = i" "hr_stage (run_row now i nr) = INIT"
  "hr_status (run_row now i nr) = Active" "hr_request_key (run_row now i nr) = nr_request_key nr"
  "hr_task (run_row now i nr) = nr_task nr" "hr_iteration (run_row now i nr) = 0"
  "hr_lease_owner (run_row now i nr) = None" "hr_max_iterations (run_row now i nr) = rp_max_iterations (nr_policy nr)"
  by (simp_all add: run_row_def)

lemma history_ok_call:
  assumes "history_ok db" and "honest_call call"
  shows "history_ok (harness_exec sha call db)"
proof (cases "(\<exists>now nr. call = CallCreate now nr) \<or> (\<exists>now i st actor reason owner fs. call = CallAdvance now i st actor reason owner fs)")
  case False
  then show ?thesis using assms quiet_call[of call db sha] history_ok_quiet by blast
next
  case True
  then show ?thesis
  proof (elim disjE exE)
    fix now nr assume call: "call = CallCreate now nr"
    show ?thesis
      using create_run_cases[of now nr db]
    proof cases
      case (answered res)
      then show ?thesis using assms(1) call by (auto simp: history_ok_def intro: log_view_ok_mono)
    next
      case (created w)
      then show ?thesis
        using assms(1) call log_view_ok_new[of "db_ids db" "fst (stage_view db)" "snd (stage_view db)"]
        by (simp add: history_ok_def stage_view_create new_id_def)
    qed
  next
    fix now i st actor reason owner fs assume call: "call = CallAdvance now i st actor reason owner fs"
    show ?thesis
      using advance_cases[of now i st actor reason owner fs db]
    proof cases
      case (refused e)
      then show ?thesis using assms call by simp
    next
      case (advanced r f)
      have "(i, hr_stage r) \<in> set (fst (stage_view db))"
        using get_run_id[OF advanced(1)] by (auto simp: stage_view_def)
      then show ?thesis
        using assms(1) log_view_ok_step[where ps = "fst (stage_view db)" and es = "snd (stage_view db)"] advanced(3)
        by (simp add: call advanced history_ok_def stage_view_advance)
    qed
  qed
qed

section \<open>Rows stay\<close>

definition extends :: "('a \<Rightarrow> 'a \<Rightarrow> bool) \<Rightarrow> 'a list \<Rightarrow> 'a list \<Rightarrow> bool" where
  "extends R xs ys \<longleftrightarrow> length xs \<le> length ys \<and> (\<forall>k<length xs. R (xs ! k) (ys ! k))"

lemma extends_refl: "reflp R \<Longrightarrow> extends R xs xs"
  by (simp add: extends_def reflp_def)

lemma extends_trans: "transp R \<Longrightarrow> extends R xs ys \<Longrightarrow> extends R ys zs \<Longrightarrow> extends R xs zs"
  unfolding extends_def transp_def by (meson less_le_trans order_trans)

lemma extends_append: "reflp R \<Longrightarrow> extends R xs (xs @ ys)"
  by (simp add: extends_def nth_append reflp_def)

lemma extends_update: "reflp R \<Longrightarrow> (\<And>x. R x (f x)) \<Longrightarrow> extends R xs (update_where p f xs)"
  by (simp add: extends_def update_where_def reflp_def)

lemma find_row_extends:
  assumes "find_row p xs = Some x" and "extends R xs ys" and same: "\<And>a b. R a b \<Longrightarrow> p a = p b"
  shows "\<exists>y. find_row p ys = Some y \<and> R x y"
proof -
  from assms(1) obtain k where k: "k < length xs" "p (xs ! k)" "x = xs ! k" "\<forall>j<k. \<not> p (xs ! j)"
    by (auto simp: find_row_def find_Some_iff)
  then have "R (xs ! j) (ys ! j)" if "j \<le> k" for j
    using assms(2) that by (simp add: extends_def)
  then have "find_row p ys = Some (ys ! k) \<and> R x (ys ! k)"
    using k assms(2) same unfolding find_row_def find_Some_iff extends_def
    by (metis (no_types, lifting) less_le_trans less_imp_le order_refl)
  then show ?thesis by blast
qed

definition same_run :: "harness_run \<Rightarrow> harness_run \<Rightarrow> bool" where
  "same_run r r' \<longleftrightarrow> hr_id r' = hr_id r \<and> hr_task r' = hr_task r \<and> hr_request_key r' = hr_request_key r"

definition same_contract :: "stored_contract \<Rightarrow> stored_contract \<Rightarrow> bool" where
  "same_contract x y \<longleftrightarrow> y\<lparr>xc_frozen := False\<rparr> = x\<lparr>xc_frozen := False\<rparr> \<and> (xc_frozen x \<longrightarrow> xc_frozen y)"

definition same_iteration :: "iteration \<Rightarrow> iteration \<Rightarrow> bool" where
  "same_iteration x y \<longleftrightarrow> it_id y = it_id x \<and> it_run y = it_run x \<and> it_number y = it_number x
     \<and> it_started y = it_started x \<and> it_base_commit y = it_base_commit x"

definition slot :: "dispatch \<Rightarrow> string \<times> int \<times> role \<times> int" where
  "slot d = (ds_run d, ds_iteration d, ds_role d, ds_attempt d)"

definition same_dispatch :: "dispatch \<Rightarrow> dispatch \<Rightarrow> bool" where
  "same_dispatch x y \<longleftrightarrow> ds_id y = ds_id x \<and> slot y = slot x \<and> ds_nonce y = ds_nonce x \<and> ds_key y = ds_key x"

definition same_decision :: "human_decision \<Rightarrow> human_decision \<Rightarrow> bool" where
  "same_decision x y \<longleftrightarrow> hd_id y = hd_id x \<and> hd_run y = hd_run x \<and> hd_reason y = hd_reason x \<and> hd_question y = hd_question x"

definition grows :: "harness_db \<Rightarrow> harness_db \<Rightarrow> bool" where
  "grows db db' \<longleftrightarrow> extends same_run (db_runs db) (db_runs db')
     \<and> extends (=) (db_events db) (db_events db') \<and> extends same_contract (db_contracts db) (db_contracts db')
     \<and> extends same_iteration (db_iterations db) (db_iterations db')
     \<and> extends (=) (db_evaluations db) (db_evaluations db')
     \<and> extends same_dispatch (db_dispatches db) (db_dispatches db')
     \<and> extends same_decision (db_decisions db) (db_decisions db')"

lemma same_row_orders:
  "reflp same_run" "reflp same_contract" "reflp same_iteration" "reflp same_dispatch" "reflp same_decision"
  "transp same_run" "transp same_contract" "transp same_iteration" "transp same_dispatch" "transp same_decision"
  by (auto simp: reflp_def transp_def same_run_def same_contract_def same_iteration_def same_dispatch_def same_decision_def)

lemma extends_refl_rows [simp]:
  "extends same_run rs rs" "extends same_contract cs cs" "extends same_iteration its its"
  "extends same_dispatch ds ds" "extends same_decision qs qs" "extends (=) xs xs"
  by (simp_all add: extends_refl same_row_orders reflp_def[of "(=)"])

lemma extends_append_rows [simp]:
  "extends same_run rs (rs @ rs')" "extends same_contract cs (cs @ cs')" "extends same_iteration its (its @ its')"
  "extends same_dispatch ds (ds @ ds')" "extends same_decision qs (qs @ qs')" "extends (=) xs (xs @ xs')"
  by (simp_all add: extends_append same_row_orders reflp_def[of "(=)"])

lemma extends_update_rows [simp]:
  "(\<And>r. same_run r (fr r)) \<Longrightarrow> extends same_run rs (update_where pr fr rs)"
  "(\<And>x. same_contract x (fc x)) \<Longrightarrow> extends same_contract cs (update_where pc fc cs)"
  "(\<And>x. same_iteration x (fi x)) \<Longrightarrow> extends same_iteration its (update_where pit fi its)"
  "(\<And>x. same_dispatch x (fd x)) \<Longrightarrow> extends same_dispatch ds (update_where pd fd ds)"
  "(\<And>x. same_decision x (fq x)) \<Longrightarrow> extends same_decision qs (update_where pq fq qs)"
  by (simp_all add: extends_update same_row_orders)

lemma grows_refl [simp]: "grows db db"
  by (simp add: grows_def)

lemma grows_trans: "grows a b \<Longrightarrow> grows b c \<Longrightarrow> grows a c"
  unfolding grows_def
  by (elim conjE, intro conjI) (blast intro: extends_trans same_row_orders transp_on_equality)+

lemma grows_event: "grows db db' \<Longrightarrow> grows db (event_locked now run etype f t n a w db')"
  by (erule grows_trans) (simp add: grows_def event_locked_def)

lemma grows_note [simp]: "grows db db' \<Longrightarrow> grows db (note_locked now run etype n a w db')"
  by (simp add: note_locked_def grows_event)

lemma set_dispatch_fields_same: "same_dispatch d (fold set_dispatch_field fs d)"
proof (induction fs arbitrary: d)
  case (Cons f fs)
  have "same_dispatch d (set_dispatch_field f d)" by (cases f) (simp_all add: same_dispatch_def slot_def)
  then show ?case using Cons[of "set_dispatch_field f d"] same_row_orders(9) by (auto dest: transpD)
qed (simp add: same_dispatch_def)

lemma grows_update_run: "(\<And>r. same_run r (f r)) \<Longrightarrow> grows db (update_run i f db)"
  by (simp add: grows_def)

lemma grows_call: "grows db (harness_exec sha call db)"
proof (cases call)
  case (CallCreate now nr)
  show ?thesis using create_run_cases[of now nr db]
    by cases (auto simp: CallCreate grows_def event_locked_def)
next
  case (CallPatch now i fs)
  then show ?thesis
    by (auto simp: grows_def patch_run_def apply_patch_locked_def same_run_def split: option.split list.split)
next
  case (CallAdvance now i st actor reason owner fs)
  show ?thesis using advance_cases[of now i st actor reason owner fs db]
  proof cases
    case (refused e)
    then show ?thesis by (simp add: CallAdvance)
  next
    case (advanced r f)
    then show ?thesis by (simp add: CallAdvance) (intro grows_event grows_update_run, simp add: same_run_def)
  qed
next
  case (CallBump now i why cs)
  have "grows db (if cs = [] then ensure_efficiency now i db else (ensure_efficiency now i db)\<lparr>db_efficiency := es\<rparr>)" for es
    by (simp add: grows_def)
  then show ?thesis
    by (simp add: CallBump bump_efficiency_def Let_def) (auto simp: grows_def same_run_def split: option.split)
next
  case (CallUpdateDispatch now did fs)
  then show ?thesis
    by (auto simp: update_dispatch_def Let_def grows_def set_dispatch_fields_same note_locked_def event_locked_def
        split: option.split)
next
  case (CallDecision now reason question i task project)
  then show ?thesis by (auto simp: open_decision_def Let_def grows_def note_locked_def event_locked_def)
qed (auto simp: grows_def acquire_run_lease_def release_run_lease_def save_contract_def
    freeze_contract_def start_iteration_def complete_iteration_def record_evaluation_def save_checkpoint_def
    resolve_decision_def set_policy_override_def record_artifact_def cache_get_def cache_put_def
    open_dispatch_def record_harness_event_def Let_def same_run_def same_contract_def same_iteration_def
    same_decision_def note_locked_def event_locked_def split: option.split)

section \<open>Every key names one row\<close>

definition row_keys ::
  "harness_db \<Rightarrow> (string \<times> int) list \<times> (string \<times> int) list \<times> (string \<times> int \<times> role \<times> int) list
     \<times> string list \<times> string list" where
  "row_keys db = (map (\<lambda>x. (xc_run x, xc_version x)) (db_contracts db),
     map (\<lambda>x. (it_run x, it_number x)) (db_iterations db), map slot (db_dispatches db),
     List.map_filter hr_request_key (db_runs db), map hd_reason (db_decisions db))"

fun keys_view_ok where
  "keys_view_ok (vs, ns, ss, ks, ds) \<longleftrightarrow>
     distinct vs \<and> distinct ns \<and> distinct ss \<and> distinct ks \<and> set ds \<subseteq> set HUMAN_DECISION_REASONS"

definition keys_ok :: "harness_db \<Rightarrow> bool" where
  "keys_ok db \<longleftrightarrow> keys_view_ok (row_keys db)"

lemma row_keys_event [simp]: "row_keys (event_locked now run etype f t n a w db) = row_keys db"
  by (simp add: row_keys_def)

lemma row_keys_note [simp]: "row_keys (note_locked now run etype n a w db) = row_keys db"
  by (simp add: row_keys_def)

lemma map_filter_update_where_same:
  "(\<And>x. g (f x) = g x) \<Longrightarrow> List.map_filter g (update_where p f xs) = List.map_filter g xs"
  by (simp add: List.map_filter_def update_where_def comp_def if_distrib[of g] filter_map cong: if_cong)

lemma row_keys_update_run [simp]:
  "(\<And>r. hr_request_key (f r) = hr_request_key r) \<Longrightarrow> row_keys (update_run i f db) = row_keys db"
  by (simp add: row_keys_def map_filter_update_where_same)

lemma slot_set_dispatch_fields [simp]: "slot (fold set_dispatch_field fs d) = slot d"
  using set_dispatch_fields_same by (simp add: same_dispatch_def)

lemma row_keys_call:
  assumes "\<And>now nr. call \<noteq> CallCreate now nr"
    and "\<And>now c actor. call \<noteq> CallSave now c actor"
    and "\<And>now i n builder session base key. call \<noteq> CallIteration now i n builder session base key"
    and "\<And>now reason question i task project. call \<noteq> CallDecision now reason question i task project"
    and "\<And>now nd. call \<noteq> CallDispatch now nd"
  shows "row_keys (harness_exec sha call db) = row_keys db"
proof (cases call)
  case (CallAdvance now i st actor reason owner fs)
  show ?thesis using advance_cases[of now i st actor reason owner fs db]
    by cases (simp_all add: CallAdvance)
next
  case (CallPatch now i fs)
  then show ?thesis
    by (auto simp: patch_run_def apply_patch_locked_def split: option.split list.split)
next
  case (CallBump now i why cs)
  then show ?thesis
    by (simp add: bump_efficiency_def Let_def row_keys_def map_filter_update_where_same split: option.split)
next
  case (CallUpdateDispatch now did fs)
  then show ?thesis
    by (auto simp: update_dispatch_def Let_def row_keys_def map_update_where_same split: option.split)
qed (use assms in \<open>auto simp: acquire_run_lease_def release_run_lease_def row_keys_def
    freeze_contract_def complete_iteration_def record_evaluation_def save_checkpoint_def
    resolve_decision_def set_policy_override_def record_artifact_def cache_get_def cache_put_def
    record_harness_event_def Let_def map_update_where_same map_filter_update_where_same split: option.split\<close>)

lemma keys_ok_call: "keys_ok db \<Longrightarrow> keys_ok (harness_exec sha call db)"
proof (cases "\<exists>now nr. call = CallCreate now nr")
  case True
  then obtain now nr where call: "call = CallCreate now nr" by blast
  show "keys_ok db \<Longrightarrow> keys_ok (harness_exec sha call db)"
    using create_run_cases[of now nr db]
  proof cases
    case (answered res)
    then show "keys_ok db \<Longrightarrow> keys_ok (harness_exec sha call db)"
      by (simp add: call keys_ok_def row_keys_def)
  next
    case (created w)
    then show "keys_ok db \<Longrightarrow> keys_ok (harness_exec sha call db)"
      by (auto simp: call keys_ok_def row_keys_def List.map_filter_def run_row_def)
  qed
next
  case False
  assume ok: "keys_ok db"
  show ?thesis
  proof (cases call)
    case (CallSave now c actor)
    then show ?thesis using ok
      by (auto simp: save_contract_def keys_ok_def row_keys_def exec_contract.extend_def
          map_filter_update_where_same)
  next
    case (CallIteration now i n builder session base key)
    then show ?thesis using ok
      by (auto simp: start_iteration_def find_iteration_def find_row_def keys_ok_def row_keys_def Let_def find_None_iff
          map_filter_update_where_same split: option.split)
  next
    case (CallDecision now reason question i task project)
    then show ?thesis using ok
      by (auto simp: open_decision_def keys_ok_def row_keys_def Let_def)
  next
    case (CallDispatch now nd)
    then show ?thesis using ok
      by (auto simp: open_dispatch_def keys_ok_def row_keys_def Let_def find_row_def find_None_iff same_slot_def slot_def
          split: option.split)
  qed (use ok False row_keys_call[of call sha db] in \<open>simp_all add: keys_ok_def\<close>)
qed

lemma keys_ok_empty: "keys_ok empty_db"
  by (simp add: keys_ok_def row_keys_def empty_db_def List.map_filter_def)

section \<open>Whole histories\<close>

definition harness_after :: "(string \<Rightarrow> string) \<Rightarrow> harness_call list \<Rightarrow> harness_db \<Rightarrow> harness_db" where
  "harness_after sha calls db = fold (harness_exec sha) calls db"

lemma harness_after_simps [simp]:
  "harness_after sha [] db = db"
  "harness_after sha (c # cs) db = harness_after sha cs (harness_exec sha c db)"
  by (simp_all add: harness_after_def)

lemma grows_after: "grows db (harness_after sha calls db)"
  by (induction calls arbitrary: db) (auto intro: grows_trans grows_call)

lemma extends_after:
  "extends same_run (db_runs db) (db_runs (harness_after sha calls db))"
  "extends same_contract (db_contracts db) (db_contracts (harness_after sha calls db))"
  "extends same_iteration (db_iterations db) (db_iterations (harness_after sha calls db))"
  "extends same_dispatch (db_dispatches db) (db_dispatches (harness_after sha calls db))"
  using grows_after[of db sha calls] by (simp_all add: grows_def)

lemma keys_ok_after: "keys_ok db \<Longrightarrow> keys_ok (harness_after sha calls db)"
  by (induction calls arbitrary: db) (simp_all add: keys_ok_call)

lemma history_ok_after: "history_ok db \<Longrightarrow> list_all honest_call calls \<Longrightarrow> history_ok (harness_after sha calls db)"
  by (induction calls arbitrary: db) (simp_all add: history_ok_call)

section \<open>Leases against other owners\<close>

fun lease_stranger :: "string \<Rightarrow> string \<Rightarrow> timestamp \<Rightarrow> harness_call \<Rightarrow> bool" where
  \<comment> \<open>no lease call on run \<open>i\<close> in the name of \<open>w\<close>, and none that takes it after its expiry\<close>
  "lease_stranger i w t (CallAcquire now j owner ttl) \<longleftrightarrow> j \<noteq> i \<or> (owner \<noteq> w \<and> now < t)"
| "lease_stranger i w t (CallRelease now j owner) \<longleftrightarrow> j \<noteq> i \<or> owner \<noteq> w"
| "lease_stranger i w t _ = True"

definition same_lease :: "string \<Rightarrow> harness_run \<Rightarrow> harness_run \<Rightarrow> bool" where
  "same_lease i r r' \<longleftrightarrow> hr_id r' = hr_id r
     \<and> (hr_id r = i \<longrightarrow> hr_lease_owner r' = hr_lease_owner r \<and> hr_lease_expires r' = hr_lease_expires r)"

definition run_leased :: "string \<Rightarrow> string \<Rightarrow> timestamp \<Rightarrow> harness_db \<Rightarrow> bool" where
  "run_leased i w t db \<longleftrightarrow> w \<noteq> []
     \<and> (\<exists>r. get_run i db = Some r \<and> hr_lease_owner r = Some w \<and> hr_lease_expires r = Some t)"

lemma same_lease_orders: "reflp (same_lease i)" "transp (same_lease i)"
  by (auto simp: reflp_def transp_def same_lease_def)

lemma extends_same_lease [simp]:
  "extends (same_lease i) rs rs" "extends (same_lease i) rs (rs @ rs')"
  "(\<And>r. same_lease i r (f r)) \<Longrightarrow> extends (same_lease i) rs (update_where p f rs)"
  by (simp_all add: extends_refl extends_append extends_update same_lease_orders)

lemma extends_other_run:
  "j \<noteq> i \<Longrightarrow> (\<And>r. hr_id (f r) = hr_id r) \<Longrightarrow>
   extends (same_lease i) rs (update_where (\<lambda>r. hr_id r = j) f rs)"
  by (auto simp: extends_def update_where_def same_lease_def)

lemma enter_stage_lease [simp]: "hr_lease_owner (enter_stage now st r) = hr_lease_owner r"
  "hr_lease_expires (enter_stage now st r) = hr_lease_expires r"
  by (simp_all add: enter_stage_def)

lemma lease_after_call:
  assumes "run_leased i w t db" and "lease_stranger i w t call"
  shows "extends (same_lease i) (db_runs db) (db_runs (harness_exec sha call db))"
proof (cases call)
  case (CallCreate now nr)
  show ?thesis using create_run_cases[of now nr db] by cases (auto simp: CallCreate)
next
  case (CallPatch now j fs)
  then show ?thesis
    by (auto simp: patch_run_def apply_patch_locked_def same_lease_def split: option.split list.split)
next
  case (CallAdvance now j st actor reason owner fs)
  show ?thesis using advance_cases[of now j st actor reason owner fs db]
  proof cases
    case (refused e)
    then show ?thesis by (simp add: CallAdvance)
  next
    case (advanced r f)
    then show ?thesis by (auto simp: CallAdvance same_lease_def)
  qed
next
  case (CallAcquire now j owner ttl)
  then show ?thesis using assms
    by (cases "j = i") (auto simp: acquire_run_lease_def run_leased_def run_lease_live_def nonempty_def extends_other_run
      split: option.split)
next
  case (CallRelease now j owner)
  then show ?thesis using assms
    by (cases "j = i") (auto simp: release_run_lease_def run_leased_def extends_other_run split: option.split)
next
  case (CallBump now j why cs)
  then show ?thesis
    by (simp add: bump_efficiency_def Let_def same_lease_def split: option.split)
next
  case (CallUpdateDispatch now did fs)
  then show ?thesis
    by (auto simp: update_dispatch_def Let_def split: option.split)
qed (auto simp: save_contract_def freeze_contract_def start_iteration_def complete_iteration_def
    record_evaluation_def save_checkpoint_def open_decision_def
    resolve_decision_def set_policy_override_def record_artifact_def cache_get_def cache_put_def
    open_dispatch_def record_harness_event_def Let_def same_lease_def split: option.split)

lemma leased_call:
  assumes "run_leased i w t db" and "lease_stranger i w t call"
  shows "run_leased i w t (harness_exec sha call db)"
proof -
  from assms(1) obtain r where r: "get_run i db = Some r" "hr_lease_owner r = Some w" "hr_lease_expires r = Some t"
    by (auto simp: run_leased_def)
  have "\<exists>r'. get_run i (harness_exec sha call db) = Some r' \<and> same_lease i r r'"
    using r(1) unfolding get_run_def
    by (rule find_row_extends[OF _ lease_after_call[OF assms]]) (simp add: same_lease_def)
  then show ?thesis using assms(1) r get_run_id[OF r(1)] by (auto simp: run_leased_def same_lease_def)
qed

lemma leased_after: "run_leased i w t db \<Longrightarrow> list_all (lease_stranger i w t) calls \<Longrightarrow> run_leased i w t (harness_after sha calls db)"
  by (induction calls arbitrary: db) (simp_all add: leased_call)

lemma leased_refuses:
  assumes "run_leased i w t db" and "now < t" and "owner \<noteq> w"
  shows "advance now i st actor reason (Some owner) fs db = (Inl (LeaseNotHeld i (Some owner) (Some w)), db)"
    and "acquire_run_lease now i owner ttl db = (Inr False, db)"
    and "release_run_lease now i owner db = (Inr False, db)"
  using assms by (auto simp: run_leased_def advance_def lease_refused_def run_lease_live_def nonempty_def
      acquire_run_lease_def release_run_lease_def)

lemma leased_refuses_reader:
  assumes "run_leased i w t seen" and "now < t" and "owner \<noteq> w"
  shows "advance_from (get_run i seen) now i st actor reason (Some owner) fs db = (Inl (LeaseNotHeld i (Some owner) (Some w)), db)"
    and "acquire_from (get_run i seen) now i owner ttl db = (Inr False, db)"
    and "release_from (get_run i seen) now i owner db = (Inr False, db)"
  using assms by (auto simp: run_leased_def advance_from_def lease_refused_def run_lease_live_def nonempty_def
      acquire_from_def release_from_def)

section \<open>Reading a contract version\<close>

lemma filter_unique_key:
  "distinct (map k xs) \<Longrightarrow> x \<in> set xs \<Longrightarrow> filter (\<lambda>y. k y = k x) xs = [x]"
  by (induction xs) (auto simp: filter_empty_conv image_iff)

lemma get_contract_version:
  assumes "keys_ok db"
  shows "get_contract run (Some v) db =
    map_option exec_contract.truncate (find_row (\<lambda>x. xc_run x = run \<and> xc_version x = v) (db_contracts db))"
proof (cases "find_row (\<lambda>x. xc_run x = run \<and> xc_version x = v) (db_contracts db)")
  case None
  then have "filter (\<lambda>x. xc_run x = run \<and> xc_version x = v) (db_contracts db) = []"
    by (auto simp: find_row_def find_None_iff filter_empty_conv)
  then show ?thesis using None by (simp add: get_contract_def newest_def)
next
  case (Some x)
  then have x: "x \<in> set (db_contracts db)" "xc_run x = run" "xc_version x = v"
    by (auto simp: find_row_def dest: find_Some_in_set)
  have "filter (\<lambda>y. (xc_run y, xc_version y) = (xc_run x, xc_version x)) (db_contracts db) = [x]"
    using assms x(1) by (intro filter_unique_key) (auto simp: keys_ok_def row_keys_def)
  then have "filter (\<lambda>y. xc_run y = run \<and> xc_version y = v) (db_contracts db) = [x]"
    using x by simp
  then show ?thesis using Some by (simp add: get_contract_def newest_def)
qed

section \<open>Retries\<close>

lemma open_dispatch_row:
  "fst (open_dispatch now nd db) = Inr (d, new) \<Longrightarrow>
   find_row (same_slot nd) (db_dispatches (snd (open_dispatch now nd db))) = Some d"
  by (auto simp: open_dispatch_def Let_def find_row_def same_slot_def find_Some_iff find_None_iff nth_append
      split: option.splits if_splits)

lemma start_iteration_row:
  "fst (start_iteration now run n builder session base key db) = Inr x \<Longrightarrow>
   find_iteration run n (snd (start_iteration now run n builder session base key db)) = Some x"
  by (auto simp: start_iteration_def Let_def find_iteration_def find_row_def find_Some_iff find_None_iff nth_append
      split: option.splits)

lemma find_row_update_where_key:
  "(\<And>x. p x \<Longrightarrow> q (f x) = q x) \<Longrightarrow> find_row q (update_where p f xs) =
     map_option (\<lambda>x. if p x then f x else x) (find_row q xs)"
  by (induction xs) (auto simp: find_row_def)

lemma get_run_update:
  assumes "\<And>x. hr_id (f x) = hr_id x"
  shows "get_run i (update_run j f db) = (if i = j then map_option f (get_run i db) else get_run i db)"
proof -
  have "get_run i (update_run j f db) = map_option (\<lambda>x. if hr_id x = j then f x else x) (get_run i db)"
    unfolding get_run_def update_run_def by (simp add: find_row_update_where_key assms)
  then show ?thesis using get_run_id[of i db] by (cases "get_run i db") auto
qed

lemma get_run_events: "get_run i (db\<lparr>db_events := es, db_sequence := n\<rparr>) = get_run i db"
  by (simp add: get_run_def)

lemma late_acquire_wins:
  assumes "run_leased i w t db" and "owner \<noteq> []" and "\<not> run_lease_live sooner r"
  shows "fst (acquire_from (Some r) sooner i owner ttl db) = Inr True"
    and "run_leased i owner (sooner + ttl) (snd (acquire_from (Some r) sooner i owner ttl db))"
  using assms
  by (auto simp: acquire_from_def run_leased_def note_locked_def event_locked_def get_run_update get_run_events)

lemma find_row_app: "find_row p (xs @ ys) = (case find_row p xs of None \<Rightarrow> find_row p ys | Some x \<Rightarrow> Some x)"
  by (induction xs) (auto simp: find_row_def)

lemma create_run_row:
  assumes "fst (create_run now nr db) = Inr (r, new)" and "nonempty (nr_request_key nr)"
  shows "find_row (\<lambda>x. hr_request_key x = nr_request_key nr) (db_runs (snd (create_run now nr db))) = Some r"
proof (cases "find_row (\<lambda>x. hr_request_key x = nr_request_key nr) (db_runs db)")
  case None
  then have "\<not> (\<exists>x\<in>set (db_runs db). hr_request_key x = nr_request_key nr)"
    by (auto simp: find_row_def find_None_iff)
  then show ?thesis using None assms
    by (simp add: create_run_def Let_def find_row_app) (auto simp: find_row_def)
qed (use assms in \<open>simp add: create_run_def Let_def\<close>)

lemma dispatch_again:
  "find_row (same_slot nd) (db_dispatches db) = Some d \<Longrightarrow> open_dispatch now nd db = (Inr (d, False), db)"
  by (simp add: open_dispatch_def)

lemma iteration_again:
  "find_row (\<lambda>x. it_run x = run \<and> it_number x = n) (db_iterations db) = Some x \<Longrightarrow>
   start_iteration now run n builder session base key db = (Inr x, db)"
  by (simp add: start_iteration_def find_iteration_def)

lemma create_again:
  "nonempty (nr_request_key nr) \<Longrightarrow> find_row (\<lambda>x. hr_request_key x = nr_request_key nr) (db_runs db) = Some r \<Longrightarrow>
   create_run now nr db = (Inr (r, False), drawn db)"
  by (simp add: create_run_def Let_def)

lemma same_contract_fields: "same_contract x y \<Longrightarrow> xc_run y = xc_run x \<and> xc_version y = xc_version x"
  by (cases x; cases y) (simp add: same_contract_def)

lemma same_contract_truncate:
  "same_contract x y \<Longrightarrow> (exec_contract.truncate y)\<lparr>xc_frozen := False\<rparr> = (exec_contract.truncate x)\<lparr>xc_frozen := False\<rparr>
     \<and> (xc_frozen (exec_contract.truncate x) \<longrightarrow> xc_frozen (exec_contract.truncate y))"
  by (cases x; cases y) (simp add: same_contract_def exec_contract.truncate_def)

section \<open>Overrides\<close>

definition scope_field :: "(policy_override \<Rightarrow> 'a option) \<Rightarrow> string \<Rightarrow> string \<Rightarrow> harness_db \<Rightarrow> 'a option" where
  "scope_field f scope key db = (if key = [] then None else Option.bind (find_override scope key db) f)"

definition layered :: "(policy_override \<Rightarrow> 'a option) \<Rightarrow> string option \<Rightarrow> string option \<Rightarrow> harness_db \<Rightarrow> 'a option" where
  \<comment> \<open>what the rows promise: the task's value, else the project's, else the global one\<close>
  "layered f project task db =
     (case scope_field f ''task'' (str_or task []) db of Some v \<Rightarrow> Some v | None \<Rightarrow>
       (case scope_field f ''project'' (str_or project []) db of Some v \<Rightarrow> Some v | None \<Rightarrow>
         scope_field f ''global'' ''*'' db))"

lemma merge_override_fields:
  "mo_mode (merge_override db sk m) = coalesce (scope_field po_mode (fst sk) (snd sk) db) (mo_mode m)"
  "mo_authority (merge_override db sk m) = coalesce (scope_field po_authority (fst sk) (snd sk) db) (mo_authority m)"
  "mo_max_iterations (merge_override db sk m) =
     coalesce (scope_field po_max_iterations (fst sk) (snd sk) db) (mo_max_iterations m)"
  by (simp_all add: merge_override_def scope_field_def coalesce_def split: option.split)

lemma coalesce_None: "coalesce v None = v"
  by (simp add: coalesce_def split: option.split)

lemma layered_coalesce:
  "layered f project task db = coalesce (scope_field f ''task'' (str_or task []) db)
     (coalesce (scope_field f ''project'' (str_or project []) db) (scope_field f ''global'' ''*'' db))"
  by (simp add: layered_def coalesce_def)

lemma override_written:
  assumes "scope \<in> {''global'', ''project'', ''task''}"
  shows "\<exists>p. find_override scope key (snd (set_policy_override now scope key mode auth n updated_by db)) = Some p
    \<and> po_mode p = mode \<and> po_authority p = auth \<and> po_max_iterations p = n"
proof (cases "find_override scope key db")
  case None
  then show ?thesis using assms
    by (auto simp: set_policy_override_def Let_def find_override_def find_row_app) (simp_all add: find_row_def)
next
  case (Some q)
  then have "po_scope q = scope \<and> po_key q = key"
    by (auto simp: find_override_def find_row_def dest: find_Some_in_set)
  then show ?thesis using assms Some
    by (auto simp: set_policy_override_def Let_def find_override_def find_row_update_where_key)
qed

lemma find_row_update_other:
  "(\<And>x. p x \<Longrightarrow> \<not> q x \<and> \<not> q (f x)) \<Longrightarrow> find_row q (update_where p f xs) = find_row q xs"
  by (induction xs) (auto simp: find_row_def)

lemma override_others:
  assumes other: "(scope', key') \<noteq> (scope, key)"
  shows "find_override scope' key' (snd (set_policy_override now scope key mode auth n updated_by db)) =
    find_override scope' key' db"
proof (cases "scope \<in> {''global'', ''project'', ''task''}")
  case False
  then show ?thesis by (simp add: set_policy_override_def)
next
  case known: True
  show ?thesis
  proof (cases "find_override scope key db")
    case None
    have "\<not> (scope = scope' \<and> key = key')" using other by blast
    then show ?thesis using known None
      by (simp add: set_policy_override_def Let_def find_override_def find_row_app)
        (auto simp: find_row_def split: option.split)
  next
    case (Some q)
    have "\<not> (scope = scope' \<and> key = key')" using other by blast
    then show ?thesis using known Some
      by (simp add: set_policy_override_def Let_def find_override_def, subst find_row_update_other) auto
  qed
qed

section \<open>Properties\<close>

text \<open>
  C10: A run's event log explains its stage. After any calls of the store on the empty tables, in
  which nobody writes a STAGE event by hand, the STAGE events of a run, followed from INIT, each
  start at the stage the one before ended in and take an edge of the transition table, and they end in
  the stage the row holds.
\<close>

theorem stage_log_replays:
  assumes "list_all honest_call calls"
    and "r \<in> set (db_runs (harness_after sha calls empty_db))"
  shows "replay INIT (stage_log (hr_id r) (harness_after sha calls empty_db)) = Some (hr_stage r)"
  using history_ok_after[OF history_ok_empty assms(1), of sha] assms(2)
  by (force simp: history_ok_def log_view_ok_def stage_view_def stage_log_def conj_commute)

text \<open>
  C11: A contract version never changes. What \<open>get_contract\<close> answers for a version of a run is what
  it answers after any further calls, but for the frozen mark, which is set at most and never taken off.
\<close>

theorem contract_version_immutable:
  assumes "get_contract run (Some v) (harness_after sha calls empty_db) = Some c"
  shows "\<exists>c'. get_contract run (Some v) (harness_after sha further (harness_after sha calls empty_db)) = Some c'
    \<and> c'\<lparr>xc_frozen := False\<rparr> = c\<lparr>xc_frozen := False\<rparr> \<and> (xc_frozen c \<longrightarrow> xc_frozen c')"
proof -
  let ?db = "harness_after sha calls empty_db" and ?p = "\<lambda>x. xc_run x = run \<and> xc_version x = v"
  have ok: "keys_ok ?db" "keys_ok (harness_after sha further ?db)"
    by (simp_all add: keys_ok_after keys_ok_empty)
  obtain x where x: "find_row ?p (db_contracts ?db) = Some x" "c = exec_contract.truncate x"
    using assms by (auto simp: get_contract_version[OF ok(1)])
  obtain y where "find_row ?p (db_contracts (harness_after sha further ?db)) = Some y" "same_contract x y"
    using find_row_extends[OF x(1) extends_after(2)[of ?db sha further]] same_contract_fields by auto
  then show ?thesis
    by (auto simp: get_contract_version[OF ok(2)] x(2) same_contract_truncate)
qed

text \<open>
  C36: A retry is answered with the row of the first attempt. Whatever calls come in between, asking
  again for a dispatch slot (run, iteration, role, attempt) gives the dispatch opened first, its
  nonce included, and says it is not new; starting an iteration again gives the iteration started
  first; creating a run again under its request key gives the run created first; and none of the
  three changes a table (the third draws an id it does not use).
\<close>

theorem retries_answer_first_row:
  "(\<forall>now nd db d new now' nd' sha calls. fst (open_dispatch now nd db) = Inr (d, new) \<longrightarrow> same_slot nd' d \<longrightarrow>
      (let later = harness_after sha calls (snd (open_dispatch now nd db)) in
       \<exists>d'. open_dispatch now' nd' later = (Inr (d', False), later) \<and> ds_id d' = ds_id d \<and> ds_nonce d' = ds_nonce d))
   \<and> (\<forall>now run n builder session base key db x now' builder' session' base' key' sha calls.
        fst (start_iteration now run n builder session base key db) = Inr x \<longrightarrow>
        (let later = harness_after sha calls (snd (start_iteration now run n builder session base key db)) in
         \<exists>x'. start_iteration now' run n builder' session' base' key' later = (Inr x', later)
           \<and> it_id x' = it_id x \<and> it_started x' = it_started x))
   \<and> (\<forall>now nr db r new now' nr' sha calls. fst (create_run now nr db) = Inr (r, new) \<longrightarrow>
        nonempty (nr_request_key nr) \<longrightarrow> nr_request_key nr' = nr_request_key nr \<longrightarrow>
        (let later = harness_after sha calls (snd (create_run now nr db)) in
         \<exists>r'. create_run now' nr' later = (Inr (r', False), drawn later) \<and> hr_id r' = hr_id r \<and> hr_task r' = hr_task r))"
proof (intro conjI allI impI)
  fix now nd db d new now' nd' sha calls
  assume first: "fst (open_dispatch now nd db) = Inr (d, new)" and slot: "same_slot nd' d"
  have same: "same_slot nd' = same_slot nd"
    using open_dispatch_row[OF first] slot by (auto simp: same_slot_def find_row_def fun_eq_iff dest!: find_Some_in_set)
  have "\<exists>d'. find_row (same_slot nd') (db_dispatches (harness_after sha calls (snd (open_dispatch now nd db)))) = Some d'
      \<and> same_dispatch d d'"
    unfolding same
    by (rule find_row_extends[OF open_dispatch_row[OF first] extends_after(4)]) (auto simp: same_dispatch_def slot_def same_slot_def)
  then show "let later = harness_after sha calls (snd (open_dispatch now nd db)) in
       \<exists>d'. open_dispatch now' nd' later = (Inr (d', False), later) \<and> ds_id d' = ds_id d \<and> ds_nonce d' = ds_nonce d"
    by (auto simp: Let_def same_dispatch_def dest: dispatch_again)
next
  fix now run n builder session base key db x now' builder' session' base' key' sha calls
  assume first: "fst (start_iteration now run n builder session base key db) = Inr x"
  have "\<exists>x'. find_row (\<lambda>x. it_run x = run \<and> it_number x = n)
        (db_iterations (harness_after sha calls (snd (start_iteration now run n builder session base key db)))) = Some x'
      \<and> same_iteration x x'"
    by (rule find_row_extends[OF start_iteration_row[OF first, unfolded find_iteration_def] extends_after(3)]) (auto simp: same_iteration_def)
  then show "let later = harness_after sha calls (snd (start_iteration now run n builder session base key db)) in
       \<exists>x'. start_iteration now' run n builder' session' base' key' later = (Inr x', later)
         \<and> it_id x' = it_id x \<and> it_started x' = it_started x"
    by (auto simp: Let_def same_iteration_def dest: iteration_again)
next
  fix now and nr nr' :: new_run and db r new now' sha calls
  assume first: "fst (create_run now nr db) = Inr (r, new)" and key: "nonempty (nr_request_key nr)"
    "nr_request_key nr' = nr_request_key nr"
  have "\<exists>r'. find_row (\<lambda>x. hr_request_key x = nr_request_key nr) (db_runs (harness_after sha calls (snd (create_run now nr db))))
      = Some r' \<and> same_run r r'"
    by (rule find_row_extends[OF create_run_row[OF first key(1)] extends_after(1)]) (auto simp: same_run_def)
  then show "let later = harness_after sha calls (snd (create_run now nr db)) in
       \<exists>r'. create_run now' nr' later = (Inr (r', False), drawn later) \<and> hr_id r' = hr_id r \<and> hr_task r' = hr_task r"
    using create_again[of nr'] key by (auto simp: Let_def same_run_def)
qed

text \<open>
  C31: A run lease excludes whoever reads the run after it was taken. While \<open>w\<close> holds the lease of
  run \<open>i\<close> until \<open>t\<close>, any calls that are no lease calls of \<open>w\<close> itself on \<open>i\<close>, nor attempts
  of others after \<open>t\<close>, leave it held; an owner other than \<open>w\<close> whose SELECT sees the run then, and who
  writes later, with other calls in between, can before \<open>t\<close> neither advance the run nor take or release the
  lease: every one of the three is refused and changes nothing. It does not exclude an owner whose SELECT came
  before: if the row that owner read showed no live lease, the acquisition is granted and takes the lease from
  \<open>w\<close>, who has been told that it holds it.
\<close>

theorem run_lease_excludes_later_readers:
  assumes "run_leased i w t db" and "list_all (lease_stranger i w t) (before @ between)"
    and "now < t" and "owner \<noteq> w" and "owner \<noteq> []"
  shows "let seen = harness_after sha before db; later = harness_after sha between seen; row = get_run i seen in
      run_leased i w t later
    \<and> advance_from row now i st actor reason (Some owner) fs later = (Inl (LeaseNotHeld i (Some owner) (Some w)), later)
    \<and> acquire_from row now i owner ttl later = (Inr False, later)
    \<and> release_from row now i owner later = (Inr False, later)
    \<and> (\<forall>r sooner. \<not> run_lease_live sooner r \<longrightarrow>
         fst (acquire_from (Some r) sooner i owner ttl later) = Inr True
         \<and> run_leased i owner (sooner + ttl) (snd (acquire_from (Some r) sooner i owner ttl later)))"
proof -
  have seen: "run_leased i w t (harness_after sha before db)"
    and later: "run_leased i w t (harness_after sha between (harness_after sha before db))"
    using leased_after[OF assms(1)] leased_after assms(2) by simp_all
  show ?thesis
    unfolding Let_def
    using later leased_refuses_reader[OF seen assms(3,4)] late_acquire_wins[OF later assms(5)] by blast
qed

text \<open>
  The chokepoint checks the stage it read. Of two engines that read a run in the same stage both write, and the
  second log entry leaves a stage the run is no longer in.
\<close>

theorem overlapping_advances_both_write:
  assumes "get_run i db = Some r" and "stage_edge (hr_stage r0) st"
  shows "\<exists>r1 db1 e. advance_from (Some r0) now i st actor reason None [] db = (Inr r1, db1)
    \<and> map_option hr_stage (get_run i db1) = Some st
    \<and> db_events db1 = db_events db @ [e] \<and> he_from e = Some (hr_stage r0) \<and> he_to e = Some st"
proof -
  have ok: "List.map_filter off_allowlist (stage_patch now r0 st reason []) = []"
    by (simp add: stage_patch_def set_default_def Let_def)
  have written: "map_option hr_stage (get_run i (update_run i (enter_stage now st) (update_run i f db))) = Some st"
    "map_option hr_stage (get_run i (update_run i (enter_stage now st) db)) = Some st"
    if "\<And>x. hr_id (f x) = hr_id x" for f
    using assms(1) that
    by (simp_all add: get_run_update)
  show ?thesis
    using assms ok written[of "patch_fields now (stage_patch now r0 st reason [])"]
    by (auto simp: advance_from_def lease_refused_def Let_def require_run_def apply_patch_locked_def event_locked_def
        get_run_events update_run_def)
qed

text \<open>
  The most specific policy override wins, field by field. The merged override takes each field
  from the task's row, else from the project's, else from the global one, skipping rows that leave the
  field unset; and a row written for a known scope is the one found afterwards, every other row
  as before.
\<close>

theorem override_most_specific:
  "(let m = resolve_policy_overrides project task db in
     mo_mode m = layered po_mode project task db \<and> mo_authority m = layered po_authority project task db
     \<and> mo_max_iterations m = layered po_max_iterations project task db)
   \<and> (scope \<in> {''global'', ''project'', ''task''} \<longrightarrow>
       (\<exists>p. find_override scope key (snd (set_policy_override now scope key mode auth n updated_by db)) = Some p
          \<and> po_mode p = mode \<and> po_authority p = auth \<and> po_max_iterations p = n)
       \<and> (\<forall>scope' key'. (scope', key') \<noteq> (scope, key) \<longrightarrow>
            find_override scope' key' (snd (set_policy_override now scope key mode auth n updated_by db))
              = find_override scope' key' db))"
proof (intro conjI impI)
  show "let m = resolve_policy_overrides project task db in
     mo_mode m = layered po_mode project task db \<and> mo_authority m = layered po_authority project task db
     \<and> mo_max_iterations m = layered po_max_iterations project task db"
    by (simp add: resolve_policy_overrides_def merge_override_fields layered_coalesce coalesce_None Let_def)
next
  assume "scope \<in> {''global'', ''project'', ''task''}"
  then show "\<exists>p. find_override scope key (snd (set_policy_override now scope key mode auth n updated_by db)) = Some p
          \<and> po_mode p = mode \<and> po_authority p = auth \<and> po_max_iterations p = n"
    by (rule override_written)
next
  show "\<forall>scope' key'. (scope', key') \<noteq> (scope, key) \<longrightarrow>
            find_override scope' key' (snd (set_policy_override now scope key mode auth n updated_by db))
              = find_override scope' key' db"
    by (simp add: override_others)
qed

section \<open>Witnesses\<close>

definition sample_run :: new_run where
  "sample_run = \<lparr>nr_task = ''t'', nr_prompt = ''p'', nr_title = ''T'', nr_project = None, nr_policy = default_policy,
     nr_cost = cost_policy_for STANDARD 0 False None, nr_request_key = Some ''k'', nr_definition_hash = None,
     nr_node = None, nr_actor = None\<rparr>"

definition sample_calls :: "harness_call list" where
  "sample_calls = [CallCreate 1 sample_run, CallAcquire 2 ''hrn_0'' ''w'' 60,
     CallAdvance 3 ''hrn_0'' PLANNING None None (Some ''w'') [], CallSave 4 sample_contract None,
     CallFreeze 5 ''c'' None, CallAdvance 6 ''hrn_0'' PLAN_READY None None (Some ''w'') []]"

definition sample_harness :: harness_db where
  "sample_harness = harness_after (\<lambda>s. s) sample_calls empty_db"

lemma stage_log_replays_witness:
  "list_all honest_call sample_calls \<and> length (stage_log ''hrn_0'' sample_harness) = 2
   \<and> replay INIT (stage_log ''hrn_0'' sample_harness) = Some PLAN_READY"
proof -
  have calls: "list_all honest_call sample_calls" by code_simp
  have "db_runs sample_harness \<noteq> []" by code_simp
  then have member: "hd (db_runs sample_harness) \<in> set (db_runs (harness_after (\<lambda>s. s) sample_calls empty_db))"
    by (simp add: sample_harness_def)
  have row: "hr_id (hd (db_runs sample_harness)) = ''hrn_0''" "hr_stage (hd (db_runs sample_harness)) = PLAN_READY"
    "length (stage_log ''hrn_0'' sample_harness) = 2"
    by code_simp+
  show ?thesis
    using stage_log_replays[OF calls member, folded sample_harness_def] calls row by simp
qed

lemma contract_version_immutable_witness:
  "\<exists>c'. get_contract ''hrn_0'' (Some 1) (harness_after (\<lambda>s. s) [CallSave 7 sample_contract None] sample_harness) = Some c'
     \<and> xc_scope c' = ''s'' \<and> xc_frozen c'"
proof -
  let ?got = "get_contract ''hrn_0'' (Some 1) sample_harness"
  have got: "map_option (\<lambda>c. (xc_scope c, xc_frozen c)) ?got = Some (''s'', True)" by code_simp
  then obtain c where c: "?got = Some c" by auto
  have field: "xc_scope c' = xc_scope c" if "c'\<lparr>xc_frozen := False\<rparr> = c\<lparr>xc_frozen := False\<rparr>" for c'
    using arg_cong[OF that, of xc_scope] by simp
  obtain c' where "get_contract ''hrn_0'' (Some 1) (harness_after (\<lambda>s. s) [CallSave 7 sample_contract None] sample_harness) = Some c'"
      "c'\<lparr>xc_frozen := False\<rparr> = c\<lparr>xc_frozen := False\<rparr>" "xc_frozen c \<longrightarrow> xc_frozen c'"
    using contract_version_immutable[OF c[unfolded sample_harness_def], folded sample_harness_def] by blast
  then show ?thesis using got c field[of c'] by (intro exI[of _ c']) simp
qed

lemma run_lease_excludes_later_readers_witness:
  "advance_from (get_run ''hrn_0'' sample_harness) 10 ''hrn_0'' BUILDING None None (Some ''v'') [] sample_harness
     = (Inl (LeaseNotHeld ''hrn_0'' (Some ''v'') (Some ''w'')), sample_harness)
   \<and> run_leased ''hrn_0'' ''v'' 61 (snd (acquire_from (Some (run_row 1 ''hrn_0'' sample_run)) 1 ''hrn_0'' ''v'' 60 sample_harness))"
proof -
  have "map_option (\<lambda>r. (hr_lease_owner r, hr_lease_expires r)) (get_run ''hrn_0'' sample_harness) = Some (Some ''w'', Some 62)"
    by code_simp
  then have held: "run_leased ''hrn_0'' ''w'' 62 sample_harness" by (auto simp: run_leased_def)
  have free: "\<not> run_lease_live 1 (run_row 1 ''hrn_0'' sample_run)" by (simp add: run_lease_live_def run_row_def nonempty_def)
  have from_witness: "advance_from (get_run ''hrn_0'' sample_harness) 10 ''hrn_0'' BUILDING None None (Some ''v'') [] sample_harness
       = (Inl (LeaseNotHeld ''hrn_0'' (Some ''v'') (Some ''w'')), sample_harness)
    \<and> (\<forall>r sooner. \<not> run_lease_live sooner r \<longrightarrow>
         run_leased ''hrn_0'' ''v'' (sooner + 60) (snd (acquire_from (Some r) sooner ''hrn_0'' ''v'' 60 sample_harness)))"
    using run_lease_excludes_later_readers[OF held, of "[]" "[]" 10 "''v''" "\<lambda>s. s" BUILDING None None "[]" 60]
    by (auto simp: Let_def)
  have "1 + 60 = (61 :: int)" by simp
  with from_witness free show ?thesis by metis
qed

definition sample_dispatch :: new_dispatch where
  "sample_dispatch = \<lparr>nd_run = ''hrn_0'', nd_task = ''t'', nd_iteration = 1, nd_role = BUILDER, nd_attempt = 1,
     nd_key = ''b'', nd_nonce = ''n'', nd_session = None, nd_node = None, nd_worktree = None, nd_branch = None,
     nd_artifact_path = None, nd_reused = False\<rparr>"

lemma retries_answer_first_row_witness:
  "\<exists>d. fst (open_dispatch 7 sample_dispatch sample_harness) = Inr (d, True) \<and>
     (\<exists>d'. fst (open_dispatch 9 (sample_dispatch\<lparr>nd_nonce := ''other''\<rparr>)
        (snd (open_dispatch 7 sample_dispatch sample_harness))) = Inr (d', False) \<and> ds_nonce d' = ''n'')"
proof -
  let ?nd = "sample_dispatch\<lparr>nd_nonce := ''other''\<rparr>"
  have "(case fst (open_dispatch 7 sample_dispatch sample_harness) of Inl e \<Rightarrow> False
      | Inr dn \<Rightarrow> snd dn \<and> ds_nonce (fst dn) = ''n'' \<and> same_slot ?nd (fst dn))" by code_simp
  then obtain d where d: "fst (open_dispatch 7 sample_dispatch sample_harness) = Inr (d, True)" "ds_nonce d = ''n''"
      "same_slot ?nd d"
    by (auto split: sum.splits prod.splits)
  show ?thesis
    using retries_answer_first_row[THEN conjunct1, rule_format, OF d(1,3), of "\<lambda>s. s" "[]" 9] d(1,2)
    by (auto simp: Let_def)
qed

lemma override_most_specific_witness:
  "find_override ''task'' ''t'' (snd (set_policy_override 1 ''task'' ''u'' (Some LIGHT) None None None sample_harness))
    = find_override ''task'' ''t'' sample_harness"
  using override_most_specific[of None None sample_harness "''task''" "''u''" 1 "Some LIGHT" None None None]
  by simp

end
