(* ===== verification/HarnessContext.thy ===== *)
theory HarnessContext
  imports HarnessHistory "HOL-Library.Multiset"
begin

text \<open>
  What a prompt is made of (\<open>harness_context.py\<close>): the selection of skills, the bounded context
  pack and its cache, the five prompts the engine sends, what one of them is charged, and the
  accounting baselines the pilot compares with. Text is ASCII, so its bytes are its
  characters. The repository on disk is an argument: which module names are files or directories,
  what a walk of a directory gives (in order, each path with all of its parts, those of the
  repository's own location included, as \<open>Path.parts\<close> has them), and the content of a readable
  file inside the repository. \<open>hashlib.sha256(text).hexdigest()\<close> is an argument too.
\<close>

section \<open>Text\<close>

definition NL :: string where "NL = [char_of (10::nat)]"

definition PAR :: string where "PAR = NL @ NL"

definition bullets :: "string list \<Rightarrow> string" where
  "bullets xs = join NL (map (\<lambda>x. ''- '' @ x) xs)"

definition py_text :: "string option \<Rightarrow> string" where
  \<comment> \<open>an f-string field that may be None\<close>
  "py_text v = (case v of None \<Rightarrow> ''None'' | Some s \<Rightarrow> s)"

definition first_of_each :: "'a list \<Rightarrow> 'a list" where
  \<comment> \<open>\<open>dict.fromkeys\<close>: the first occurrence of each value\<close>
  "first_of_each xs = rev (remdups (rev xs))"

definition CHARS_PER_TOKEN :: int where "CHARS_PER_TOKEN = 4"
definition DEFAULT_PACK_BYTES :: nat where "DEFAULT_PACK_BYTES = 48000"
definition DEFAULT_FILE_BYTES :: nat where "DEFAULT_FILE_BYTES = 6000"
definition DEFAULT_MAX_FILES :: nat where "DEFAULT_MAX_FILES = 24"
definition MAX_INJECTED_SKILLS :: nat where "MAX_INJECTED_SKILLS = 4"
definition MAX_SKILL_BYTES :: nat where "MAX_SKILL_BYTES = 24000"
definition CONTEXT_RULES_VERSION :: string where "CONTEXT_RULES_VERSION = ''1''"

definition estimate_tokens :: "string \<Rightarrow> int" where
  "estimate_tokens s = (int (length s) + CHARS_PER_TOKEN - 1) div CHARS_PER_TOKEN"

section \<open>Skills\<close>

record skill =
  sk_id :: string
  sk_version :: string
  sk_body :: string
  sk_tags :: "string list"

definition skill_stamp :: "skill \<Rightarrow> string" where
  "skill_stamp s = sk_id s @ ''@'' @ sk_version s"

definition skill_overlap :: "string list \<Rightarrow> skill \<Rightarrow> int" where
  "skill_overlap wanted s = int (length (remdups (filter (\<lambda>t. t \<in> set wanted) (map lower (sk_tags s)))))"

primrec choose_skills ::
  "string list \<Rightarrow> nat \<Rightarrow> nat \<Rightarrow> skill list \<Rightarrow> skill list \<times> string list" where
  \<comment> \<open>the loop over the scored skills: how many are chosen so far, and their bytes\<close>
  "choose_skills wanted n spent [] = ([], [])"
| "choose_skills wanted n spent (s # ss) =
     (if MAX_INJECTED_SKILLS \<le> n \<or> MAX_SKILL_BYTES < spent + length (sk_body s)
         \<or> (wanted \<noteq> [] \<and> skill_overlap wanted s = 0)
      then (case choose_skills wanted n spent ss of (yes, no) \<Rightarrow> (yes, sk_id s # no))
      else (case choose_skills wanted (Suc n) (spent + length (sk_body s)) ss of (yes, no) \<Rightarrow> (s # yes, no)))"

definition scored_skills :: "string list \<Rightarrow> skill list \<Rightarrow> skill list" where
  "scored_skills wanted available = sort_key (\<lambda>s. - skill_overlap wanted s) (sort_key sk_id available)"

definition select_skills :: "skill list \<Rightarrow> string list \<Rightarrow> skill list \<times> string list" where
  "select_skills available tags =
     (let wanted = map lower tags in choose_skills wanted 0 0 (scored_skills wanted available))"

section \<open>Packs\<close>

record pack_file =
  pf_path :: string
  pf_hash :: string
  pf_body :: string
  pf_truncated :: bool

record context_pack =
  cp_key :: string
  cp_project :: "string option"
  cp_modules :: "string list"
  cp_files :: "pack_file list"
  cp_omitted :: "string list"
  cp_skills :: "skill list"
  cp_rules :: "string list"

definition pack_sections :: "context_pack \<Rightarrow> string list" where
  "pack_sections p =
     (if cp_modules p = [] then [] else [''# Modules in scope'' @ NL @ bullets (cp_modules p)])
     @ (if cp_rules p = [] then [] else [''# Rules'' @ NL @ bullets (cp_rules p)])
     @ map (\<lambda>s. ''# Skill '' @ skill_stamp s @ NL @ sk_body s) (cp_skills p)
     @ map (\<lambda>f. ''# File '' @ pf_path f @ (if pf_truncated f then ''  (truncated)'' else []) @ NL @ pf_body f)
         (cp_files p)
     @ (if cp_omitted p = [] then []
        else [''# Present but not included (open if needed)'' @ NL @ bullets (cp_omitted p)])"

definition render_pack :: "context_pack \<Rightarrow> string" where
  "render_pack p = join PAR (pack_sections p)"

definition pack_cache_key ::
  "(string \<Rightarrow> string) \<Rightarrow> string option \<Rightarrow> string list \<Rightarrow> (string \<times> string) list \<Rightarrow> string list \<Rightarrow> nat \<Rightarrow> string" where
  "pack_cache_key sha project modules hashes stamps bytes =
     ''pack:'' @ take 32 (sha (json_canonical (JObj
       [(''project'', JStr (str_or project [])), (''modules'', jstrs (sort modules)),
        (''files'', JArr (map jstrs (sort (map (\<lambda>ph. [fst ph, snd ph]) hashes)))),
        (''skills'', jstrs (sort stamps)), (''rules_version'', JStr CONTEXT_RULES_VERSION),
        (''pack_bytes'', JInt (int bytes))])))"

record walk_entry =
  we_parts :: "string list"
  we_is_file :: bool
  we_relative :: "string option"  \<comment> \<open>\<open>resolve().relative_to(root)\<close>, unless the path leaves the repository\<close>

record repository =
  re_parts :: "string list"  \<comment> \<open>the parts of the repository's own path\<close>
  re_file :: "string \<Rightarrow> bool"
  re_dir :: "string \<Rightarrow> bool"
  re_walk :: "string \<Rightarrow> walk_entry list"  \<comment> \<open>\<open>sorted(target.rglob("*"))\<close>\<close>
  re_bytes :: "string \<Rightarrow> string option"  \<comment> \<open>what a file inside the repository holds, if it can be read\<close>

record assembler =
  as_repo :: "repository option"
  as_pack_bytes :: nat
  as_file_bytes :: nat
  as_max_files :: nat
  as_skills :: "skill list"

definition read_file :: "(string \<Rightarrow> string) \<Rightarrow> assembler \<Rightarrow> string \<Rightarrow> pack_file option" where
  "read_file sha asm relative = (case as_repo asm of
       None \<Rightarrow> None
     | Some rp \<Rightarrow> (case re_bytes rp relative of
           None \<Rightarrow> None
         | Some raw \<Rightarrow> Some \<lparr>pf_path = relative, pf_hash = take 16 (sha raw),
             pf_body = (if as_file_bytes asm < length raw then take (as_file_bytes asm) raw else raw),
             pf_truncated = (as_file_bytes asm < length raw)\<rparr>))"

definition SKIPPED_PARTS :: "string list" where
  "SKIPPED_PARTS = [''node_modules'', ''__pycache__'', ''dist'', ''build'']"

definition skipped_part :: "string \<Rightarrow> bool" where
  "skipped_part part \<longleftrightarrow> startswith part ''.'' \<or> part \<in> set SKIPPED_PARTS"

definition module_paths :: "repository \<Rightarrow> string \<Rightarrow> string list" where
  "module_paths rp m =
     (if re_file rp m then [m]
      else if \<not> re_dir rp m then []
      else List.map_filter we_relative
        (filter (\<lambda>e. we_is_file e \<and> \<not> list_ex skipped_part (we_parts e)) (re_walk rp m)))"

definition candidate_paths :: "assembler \<Rightarrow> string list \<Rightarrow> string list" where
  "candidate_paths asm modules = (case as_repo asm of
       None \<Rightarrow> []
     | Some rp \<Rightarrow> first_of_each (concat (map (module_paths rp) modules)))"

primrec fit_files :: "assembler \<Rightarrow> nat \<Rightarrow> nat \<Rightarrow> pack_file list \<Rightarrow> pack_file list \<times> string list" where
  \<comment> \<open>the loop over the files read: how many are in the pack so far, and their bytes\<close>
  "fit_files asm n spent [] = ([], [])"
| "fit_files asm n spent (f # fs) =
     (if as_max_files asm \<le> n \<or> as_pack_bytes asm < spent + length (pf_body f)
      then (case fit_files asm n spent fs of (yes, no) \<Rightarrow> (yes, pf_path f # no))
      else (case fit_files asm (Suc n) (spent + length (pf_body f)) fs of (yes, no) \<Rightarrow> (f # yes, no)))"

definition PACK_RULES :: "string list" where
  "PACK_RULES =
     [''Stay inside the contract's scope. Out-of-scope work is a redefine request, not a commit.'',
      ''Do not edit files outside the affected areas without saying why.'',
      ''Run the contract's required checks before reporting done.'',
      ''If the contract cannot be satisfied as written, say so; do not widen it.'']"

definition file_json :: "pack_file \<Rightarrow> json" where
  "file_json f = JObj [(''path'', JStr (pf_path f)), (''content_hash'', JStr (pf_hash f)),
     (''body'', JStr (pf_body f)), (''truncated'', JBool (pf_truncated f))]"

definition pack_payload :: "context_pack \<Rightarrow> json" where
  "pack_payload p = JObj [(''modules'', jstrs (cp_modules p)), (''omitted'', jstrs (cp_omitted p)),
     (''rules'', jstrs (cp_rules p)), (''files'', JArr (map file_json (cp_files p)))]"

definition text_items :: "json \<Rightarrow> string list" where
  "text_items v = (case v of JArr xs \<Rightarrow> map json_str xs | _ \<Rightarrow> [])"

definition file_of_json :: "json \<Rightarrow> pack_file" where
  "file_of_json v = (case v of JObj f \<Rightarrow>
       \<lparr>pf_path = json_str (dget f ''path''), pf_hash = json_str (dget f ''content_hash''),
        pf_body = json_str (dget f ''body''), pf_truncated = truthy (dget f ''truncated'')\<rparr>
     | _ \<Rightarrow> \<lparr>pf_path = [], pf_hash = [], pf_body = [], pf_truncated = False\<rparr>)"

definition pack_from_payload :: "string \<Rightarrow> json \<Rightarrow> skill list \<Rightarrow> string option \<Rightarrow> context_pack" where
  "pack_from_payload key payload skills project =
     (let d = (case payload of JObj d \<Rightarrow> d | _ \<Rightarrow> []) in
      \<lparr>cp_key = key, cp_project = project, cp_modules = text_items (dget d ''modules''),
       cp_files = (case dget d ''files'' of JArr xs \<Rightarrow> map file_of_json xs | _ \<Rightarrow> []),
       cp_omitted = text_items (dget d ''omitted''), cp_skills = skills,
       cp_rules = (if text_items (dget d ''rules'') = [] then PACK_RULES else text_items (dget d ''rules''))\<rparr>)"

definition clean_modules :: "string list \<Rightarrow> string list" where
  "clean_modules ms = first_of_each (filter (\<lambda>m. m \<noteq> []) (map strip ms))"

definition files_read :: "(string \<Rightarrow> string) \<Rightarrow> assembler \<Rightarrow> string list \<Rightarrow> pack_file list" where
  "files_read sha asm modules =
     List.map_filter (read_file sha asm) (take (as_max_files asm * 4) (candidate_paths asm modules))"

definition pack_key :: "(string \<Rightarrow> string) \<Rightarrow> assembler \<Rightarrow> string option \<Rightarrow> string list \<Rightarrow> string list \<Rightarrow> string" where
  "pack_key sha asm project modules tags =
     pack_cache_key sha project (clean_modules modules)
       (map (\<lambda>f. (pf_path f, pf_hash f)) (files_read sha asm (clean_modules modules)))
       (map skill_stamp (fst (select_skills (as_skills asm) tags))) (as_pack_bytes asm)"

definition fresh_pack :: "(string \<Rightarrow> string) \<Rightarrow> assembler \<Rightarrow> string option \<Rightarrow> string list \<Rightarrow> string list \<Rightarrow> context_pack" where
  \<comment> \<open>the pack a miss assembles\<close>
  "fresh_pack sha asm project modules tags =
     (let ms = clean_modules modules; candidates = candidate_paths asm ms; found = files_read sha asm ms;
          (fs, left) = fit_files asm 0 0 found
      in \<lparr>cp_key = pack_key sha asm project modules tags, cp_project = project, cp_modules = ms, cp_files = fs,
          cp_omitted = fold (\<lambda>p os. if p \<in> set os then os else os @ [p]) (drop (length found) candidates) left,
          cp_skills = fst (select_skills (as_skills asm) tags), cp_rules = PACK_RULES\<rparr>)"

definition build_pack ::
  "(string \<Rightarrow> string) \<Rightarrow> timestamp \<Rightarrow> assembler \<Rightarrow> string option \<Rightarrow> string list \<Rightarrow> string list \<Rightarrow> string option
   \<Rightarrow> (context_pack \<times> bool) htx" where
  "build_pack sha now asm project modules tags run =
     hbind (cache_get now (pack_key sha asm project modules tags)) (\<lambda>cached.
       case cached of
         Some c \<Rightarrow>
           hseq (case run of None \<Rightarrow> hreturn () | Some r \<Rightarrow> bump_efficiency now r None [(REUSED_CONTEXT_HITS, 1)])
             (hreturn (pack_from_payload (pack_key sha asm project modules tags) (cc_payload c)
                (fst (select_skills (as_skills asm) tags)) project, True))
       | None \<Rightarrow>
           let p = fresh_pack sha asm project modules tags in
           hseq (cache_put now (cp_key p) (pack_payload p) project (clean_modules modules))
             (hseq (case run of None \<Rightarrow> hreturn () | Some r \<Rightarrow> bump_efficiency now r None
                 [(CONTEXT_CACHE_MISSES, 1), (CONTEXT_BYTES, int (length (render_pack p))),
                  (SKILLS_INJECTED, int (length (cp_skills p))),
                  (SKILL_BYTES, \<Sum>s\<leftarrow>cp_skills p. int (length (sk_body s)))])
               (hreturn (p, False))))"

section \<open>Prompts\<close>

record prompt =
  pm_role :: role
  pm_text :: string
  pm_delta :: bool
  pm_pack :: "string option"
  pm_hit :: bool
  pm_skills :: "string list"

definition PLANNER_CONTRACT_SHAPE :: string where
  \<open>PLANNER_CONTRACT_SHAPE = join NL
    [''Answer with a JSON object only:'',
     ''{"scope": str, "out_of_scope": [str], "affected_areas": [path],'',
     '' "functional_acceptance": [str], "visual_acceptance": [str],'',
     '' "performance_acceptance": [str], "security_acceptance": [str],'',
     '' "required_checks": [shell command], "manual_checks": [str],'',
     '' "test_command": str|null, "build_command": str|null, "dev_command": str|null}'',
     ''Every acceptance criterion must be decidable from evidence a command or a'',
     ''screenshot can produce. A criterion nobody can check is not a criterion.'']\<close>

definition BUILDER_RULES :: string where
  "BUILDER_RULES = join NL
    [''Report done only when every required check has actually been run and passed.'',
     ''If you are interrupted, leave the worktree committed and consistent: a'',
     ''replacement builder continues from your commit, in your worktree, on your'',
     ''branch.'']"

definition EVALUATOR_VERDICT_SHAPE :: string where
  \<open>EVALUATOR_VERDICT_SHAPE = join NL
    [''Answer with a JSON object only:'',
     ''{"result": "pass"|"fail"|"blocked"|"needs_redefine", "summary": str,'',
     '' "criteria": [{"criterion_id": str, "result": "pass"|"fail"|"blocked",'',
     ''               "evidence": str, "artifact": path|null}]}'',
     ''One entry per declared criterion, each with its own evidence. "looks good" is'',
     ''not evidence and will be rejected as a malformed verdict.'']\<close>

definition titled :: "string \<Rightarrow> string list \<Rightarrow> string list" where
  \<comment> \<open>a heading over a list, when there is a list\<close>
  "titled heading xs = (if xs = [] then [] else [heading @ NL @ bullets xs])"

definition render_contract :: "(string \<Rightarrow> string) \<Rightarrow> bool \<Rightarrow> exec_contract \<Rightarrow> string" where
  "render_contract sha with_ids c = join PAR
     ([''# Contract v'' @ int_str (xc_version c) @ '' (hash '' @ take 12 (content_hash sha c) @ '')'',
       ''## Scope'' @ NL @ xc_scope c]
      @ titled ''## Out of scope'' (xc_out_of_scope c)
      @ titled ''## Affected areas'' (xc_areas c)
      @ [join NL (''## Acceptance'' # map (\<lambda>kt. ''- ['' @
           (if with_ids then criterion_id sha (fst kt) (snd kt) else fst kt) @ ''] '' @ snd kt) (contract_criteria c))]
      @ titled ''## Required checks'' (xc_checks c)
      @ titled ''## Manual checks'' (xc_manual c))"

definition render_checkpoint :: "checkpoint \<Rightarrow> string" where
  "render_checkpoint k = join NL
     ([''# You are continuing an interrupted build -- not starting one'',
       ''- worktree: '' @ py_text (ck_worktree k), ''- branch: '' @ py_text (ck_branch k),
       ''- last commit: '' @ py_text (ck_commit k), ''- iteration: '' @ int_str (ck_iteration k)]
      @ titled ''## Checks already run'' (ck_checks k)
      @ titled ''## Remaining'' (ck_remaining k)
      @ (if ck_note k = [] then [] else [''## Note from the previous builder'' @ NL @ ck_note k]))"

definition pack_text :: "context_pack option \<Rightarrow> string list" where
  "pack_text pack = (case pack of None \<Rightarrow> [] | Some p \<Rightarrow> [render_pack p])"

definition full_prompt :: "role \<Rightarrow> string list \<Rightarrow> context_pack option \<Rightarrow> bool \<Rightarrow> prompt" where
  "full_prompt r sections pack hit =
     \<lparr>pm_role = r, pm_text = join PAR sections, pm_delta = False, pm_pack = map_option cp_key pack, pm_hit = hit,
      pm_skills = (case pack of None \<Rightarrow> [] | Some p \<Rightarrow> map skill_stamp (cp_skills p))\<rparr>"

definition planner_prompt ::
  "string \<Rightarrow> string \<Rightarrow> string list \<Rightarrow> string list \<Rightarrow> context_pack option \<Rightarrow> bool \<Rightarrow> prompt" where
  "planner_prompt title task acceptance checks pack hit = full_prompt PLANNER
     ([''You are the Planner. Produce an ExecutionContract and nothing else.'', PLANNER_CONTRACT_SHAPE,
       ''# Task'' @ NL @ title @ PAR @ task]
      @ titled ''# Acceptance already declared by the task'' acceptance
      @ titled ''# Checks already declared by the task'' checks
      @ pack_text pack) pack hit"

definition builder_prompt ::
  "(string \<Rightarrow> string) \<Rightarrow> exec_contract \<Rightarrow> context_pack option \<Rightarrow> bool \<Rightarrow> checkpoint option \<Rightarrow> prompt" where
  "builder_prompt sha c pack hit ck = full_prompt BUILDER
     ([''You are the Builder. Satisfy the contract below, then stop.'', render_contract sha False c, BUILDER_RULES]
      @ (case ck of None \<Rightarrow> [] | Some k \<Rightarrow> [render_checkpoint k])
      @ pack_text pack) pack hit"

definition delta_prompt :: "string list \<Rightarrow> bool \<Rightarrow> prompt" where
  "delta_prompt ls hit =
     \<lparr>pm_role = BUILDER, pm_text = join PAR ls, pm_delta = True, pm_pack = None, pm_hit = hit, pm_skills = []\<rparr>"

definition rerun_line :: "string \<Rightarrow> string option \<Rightarrow> string list" where
  "rerun_line label cmd = (if nonempty cmd
     then [''# Re-run the '' @ label @ '' check when done'' @ NL @ the cmd] else [])"

definition revision_prompt :: "(string \<Rightarrow> string) \<Rightarrow> evaluation \<Rightarrow> exec_contract \<Rightarrow> int \<Rightarrow> prompt" where
  "revision_prompt sha ev c n = delta_prompt
     ([''Revision '' @ int_str n @ ''. The contract has not changed (hash '' @ take 12 (content_hash sha c) @ '').'',
       ''Fix ONLY the criteria below. Do not revisit anything else; the rest already passed and re-editing it costs another evaluation round.'',
       ''# Failing criteria'']
      @ map (\<lambda>r. ''- ['' @ cr_kind r @ ''] '' @ cr_text r @ NL @ ''  evidence from the evaluator: '' @ cr_evidence r)
          (fb_fix_only (feedback_of ev))
      @ titled ''# Already passing -- leave alone'' (fb_already_passing (feedback_of ev))
      @ rerun_line ''test'' (xc_test_command c) @ rerun_line ''build'' (xc_build_command c)) False"

definition adjacent_task_prompt :: "(string \<Rightarrow> string) \<Rightarrow> exec_contract \<Rightarrow> string \<Rightarrow> prompt" where
  "adjacent_task_prompt sha c task = delta_prompt
     [''Next task in this lane. You already have this lane's modules and toolchain loaded from '' @ task
        @ ''; nothing about them has changed, so they are not repeated below.'',
      render_contract sha False c,
      ''Work only inside this contract's scope. If it needs files you have not opened in this session, open them -- do not assume the previous task's files are the same ones.''] True"

definition evaluator_prompt :: "(string \<Rightarrow> string) \<Rightarrow> exec_contract \<Rightarrow> string option \<Rightarrow> string \<Rightarrow> prompt" where
  \<comment> \<open>no caller passes a diff summary\<close>
  "evaluator_prompt sha c commit output = full_prompt EVALUATOR
     ([''You are the Evaluator. Judge the result against the contract.'', EVALUATOR_VERDICT_SHAPE,
       render_contract sha True c]
      @ (if nonempty commit then [''# Result commit'' @ NL @ the commit] else [])
      @ (if output = [] then [] else [''# Check output'' @ NL @ output])) None False"

definition charge :: "timestamp \<Rightarrow> string \<Rightarrow> prompt \<Rightarrow> int \<Rightarrow> unit htx" where
  "charge now run p completion = bump_efficiency now run None
     [(LLM_CALLS, 1), (PROMPT_TOKENS_ESTIMATE, estimate_tokens (pm_text p) + completion),
      (DELTA_PROMPTS, if pm_delta p then 1 else 0), (FULL_PROMPTS, if pm_delta p then 0 else 1)]"

section \<open>Baselines\<close>

record baseline =
  ba_calls :: int
  ba_tokens :: int

definition NAIVE_PM_POLL_SECONDS :: int where "NAIVE_PM_POLL_SECONDS = 60"
definition NAIVE_PM_PROMPT_TOKENS :: int where "NAIVE_PM_PROMPT_TOKENS = 1200"

definition naive_baseline :: "int \<Rightarrow> int \<Rightarrow> int \<Rightarrow> int option \<Rightarrow> int option \<Rightarrow> baseline" where
  \<comment> \<open>the duration in whole seconds; the breakdown for display is left out\<close>
  "naive_baseline full iterations seconds planner_tokens evaluator_tokens =
     (let planner = (case planner_tokens of None \<Rightarrow> full | Some t \<Rightarrow> t);
          evaluator = (case evaluator_tokens of None \<Rightarrow> full | Some t \<Rightarrow> t);
          polls = max 0 seconds div NAIVE_PM_POLL_SECONDS
      in \<lparr>ba_calls = 1 + max 1 iterations * 2 + polls,
          ba_tokens = planner + full * max 1 iterations + evaluator * max 1 iterations
            + polls * NAIVE_PM_PROMPT_TOKENS\<rparr>)"

definition naive_parallel_baseline :: "int \<Rightarrow> int \<Rightarrow> int \<Rightarrow> int \<Rightarrow> int \<Rightarrow> baseline" where
  "naive_parallel_baseline tasks full iterations seconds coordination =
     (let one = naive_baseline full iterations 0 None None;
          polls = max 0 seconds div NAIVE_PM_POLL_SECONDS
      in \<lparr>ba_calls = tasks * (ba_calls one + coordination) + polls,
          ba_tokens = tasks * (ba_tokens one + coordination * NAIVE_PM_PROMPT_TOKENS)
            + polls * NAIVE_PM_PROMPT_TOKENS\<rparr>)"

section \<open>Skills are chosen by what they are\<close>

lemma scored_skills_perm:
  assumes "mset xs = mset ys" and "inj_on sk_id (set xs)"
  shows "scored_skills wanted xs = scored_skills wanted ys"
proof -
  have "sort_key sk_id xs = sort_key sk_id ys"
    using assms by (intro sort_key_inj_key_eq) simp_all
  then show ?thesis by (simp add: scored_skills_def)
qed

lemma choose_skills_bounds:
  assumes "n \<le> MAX_INJECTED_SKILLS" and "spent \<le> MAX_SKILL_BYTES"
  shows "n + length (fst (choose_skills wanted n spent ss)) \<le> MAX_INJECTED_SKILLS
    \<and> spent + (\<Sum>s\<leftarrow>fst (choose_skills wanted n spent ss). length (sk_body s)) \<le> MAX_SKILL_BYTES"
  using assms
proof (induction ss arbitrary: n spent)
  case (Cons s ss)
  show ?case
  proof (cases "MAX_INJECTED_SKILLS \<le> n \<or> MAX_SKILL_BYTES < spent + length (sk_body s)
      \<or> (wanted \<noteq> [] \<and> skill_overlap wanted s = 0)")
    case True
    then show ?thesis using Cons.IH[OF Cons.prems] by (simp add: case_prod_beta)
  next
    case False
    then show ?thesis
      using Cons.IH[of "Suc n" "spent + length (sk_body s)"] by (auto simp: case_prod_beta algebra_simps)
  qed
qed simp

lemma choose_skills_relevant:
  "s \<in> set (fst (choose_skills wanted n spent ss)) \<Longrightarrow> s \<in> set ss \<and> (wanted = [] \<or> 0 < skill_overlap wanted s)"
proof (induction ss arbitrary: n spent)
  case (Cons x ss)
  then consider (here) "s = x" "\<not> (wanted \<noteq> [] \<and> skill_overlap wanted x = 0)"
    | (there) n' spent' where "s \<in> set (fst (choose_skills wanted n' spent' ss))"
    by (auto simp: case_prod_beta split: if_splits)
  then show ?case
  proof cases
    case here
    moreover have "0 \<le> skill_overlap wanted x" by (simp add: skill_overlap_def)
    ultimately show ?thesis by auto
  next
    case there
    then show ?thesis using Cons.IH by auto
  qed
qed simp

section \<open>The files of a pack\<close>

lemma fit_files_bounds:
  assumes "n \<le> as_max_files asm" and "spent \<le> as_pack_bytes asm"
  shows "n + length (fst (fit_files asm n spent fs)) \<le> as_max_files asm
    \<and> spent + (\<Sum>f\<leftarrow>fst (fit_files asm n spent fs). length (pf_body f)) \<le> as_pack_bytes asm"
  using assms
proof (induction fs arbitrary: n spent)
  case (Cons f fs)
  show ?case
  proof (cases "as_max_files asm \<le> n \<or> as_pack_bytes asm < spent + length (pf_body f)")
    case True
    then show ?thesis using Cons.IH[OF Cons.prems] by (simp add: case_prod_beta)
  next
    case False
    then show ?thesis
      using Cons.IH[of "Suc n" "spent + length (pf_body f)"] by (simp add: case_prod_beta algebra_simps)
  qed
qed simp

lemma fit_files_complete:
  "pf_path ` set fs = pf_path ` set (fst (fit_files asm n spent fs)) \<union> set (snd (fit_files asm n spent fs))"
  by (induction fs arbitrary: n spent) (auto simp: case_prod_beta)

lemma fit_files_sub: "f \<in> set (fst (fit_files asm n spent fs)) \<Longrightarrow> f \<in> set fs"
  by (induction fs arbitrary: n spent) (auto simp: case_prod_beta split: if_splits)

lemma set_name_rest: "set (fold (\<lambda>p os. if p \<in> set os then os else os @ [p]) ps os) = set os \<union> set ps"
  by (induction ps arbitrary: os) auto

lemma files_read_path:
  "f \<in> set (files_read sha asm ms) \<Longrightarrow> \<exists>p. p \<in> set (take (as_max_files asm * 4) (candidate_paths asm ms))
     \<and> read_file sha asm p = Some f \<and> pf_path f = p"
  by (auto simp: files_read_def List.map_filter_def read_file_def split: option.splits)

lemma read_file_path: "read_file sha asm p = Some f \<Longrightarrow> pf_path f = p \<and> length (pf_body f) \<le> as_file_bytes asm"
  by (auto simp: read_file_def split: option.splits)

lemma files_read_length: "length (files_read sha asm ms) \<le> length (take (as_max_files asm * 4) (candidate_paths asm ms))"
  by (simp add: files_read_def List.map_filter_def del: length_take)

lemma fresh_pack_fields:
  "cp_files (fresh_pack sha asm project modules tags) =
     fst (fit_files asm 0 0 (files_read sha asm (clean_modules modules)))"
  "cp_skills (fresh_pack sha asm project modules tags) = fst (select_skills (as_skills asm) tags)"
  "cp_key (fresh_pack sha asm project modules tags) = pack_key sha asm project modules tags"
  "cp_project (fresh_pack sha asm project modules tags) = project"
  "cp_rules (fresh_pack sha asm project modules tags) = PACK_RULES"
  "set (cp_omitted (fresh_pack sha asm project modules tags)) =
     set (snd (fit_files asm 0 0 (files_read sha asm (clean_modules modules))))
     \<union> set (drop (length (files_read sha asm (clean_modules modules))) (candidate_paths asm (clean_modules modules)))"
  by (simp_all add: fresh_pack_def Let_def set_name_rest split: prod.split)

lemma candidate_named:
  assumes p: "p \<in> set (candidate_paths asm ms)" and readable: "read_file sha asm p \<noteq> None"
  shows "p \<in> pf_path ` set (files_read sha asm ms) \<or> p \<in> set (drop (length (files_read sha asm ms)) (candidate_paths asm ms))"
proof (cases "p \<in> set (take (as_max_files asm * 4) (candidate_paths asm ms))")
  case True
  then show ?thesis using readable
    by (force simp: files_read_def List.map_filter_def image_iff dest: read_file_path)
next
  case False
  have "length (files_read sha asm ms) \<le> as_max_files asm * 4"
    using files_read_length[of sha asm ms] by simp
  then have "set (drop (as_max_files asm * 4) (candidate_paths asm ms))
      \<subseteq> set (drop (length (files_read sha asm ms)) (candidate_paths asm ms))"
    by (rule set_drop_subset_set_drop)
  moreover have "p \<in> set (drop (as_max_files asm * 4) (candidate_paths asm ms))"
    using p False by (metis UnE append_take_drop_id set_append)
  ultimately show ?thesis by blast
qed

section \<open>The cache\<close>

lemma text_items_jstrs [simp]: "text_items (jstrs xs) = xs"
  by (simp add: text_items_def jstrs_def map_idI)

lemma file_of_json_inverse [simp]: "file_of_json (file_json f) = f"
  by (simp add: file_of_json_def file_json_def)

lemma pack_payload_inverse:
  assumes "cp_rules p = PACK_RULES"
  shows "pack_from_payload (cp_key p) (pack_payload p) (cp_skills p) (cp_project p) = p"
  using assms by (cases p) (simp add: pack_from_payload_def pack_payload_def comp_def PACK_RULES_def map_idI)

definition same_entry :: "cache_entry \<Rightarrow> cache_entry \<Rightarrow> bool" where
  "same_entry c c' \<longleftrightarrow> cc_key c' = cc_key c \<and> cc_payload c' = cc_payload c"

lemma same_entry_orders: "reflp same_entry" "transp same_entry"
  by (auto simp: reflp_def transp_def same_entry_def)

lemma extends_same_entry [simp]:
  "extends same_entry cs cs" "extends same_entry cs (cs @ cs')"
  "(\<And>c. same_entry c (f c)) \<Longrightarrow> extends same_entry cs (update_where p f cs)"
  by (simp_all add: extends_refl extends_append extends_update same_entry_orders)

lemma cache_frame [simp]:
  "db_cache (event_locked now run etype f t n a w db) = db_cache db"
  "db_cache (note_locked now run etype n a w db) = db_cache db"
  "db_cache (update_run i g db) = db_cache db" "db_cache (drawn db) = db_cache db"
  "db_cache (ensure_efficiency now i db) = db_cache db"
  by (simp_all add: event_locked_def note_locked_def update_run_def drawn_def ensure_efficiency_def)

lemma cache_bump [simp]: "db_cache (snd (bump_efficiency now i why cs db)) = db_cache db"
  by (simp add: bump_efficiency_def Let_def split: option.split)

lemma cache_kept_call: "extends same_entry (db_cache db) (db_cache (harness_exec sha call db))"
proof (cases call)
  case (CallCreate now nr)
  show ?thesis using create_run_cases[of now nr db] by cases (auto simp: CallCreate)
next
  case (CallPatch now j fs)
  then show ?thesis
    by (auto simp: patch_run_def apply_patch_locked_def split: option.split list.split)
next
  case (CallAdvance now j st actor reason owner fs)
  show ?thesis using advance_cases[of now j st actor reason owner fs db] by cases (auto simp: CallAdvance)
next
  case (CallUpdateDispatch now did fs)
  then show ?thesis by (auto simp: update_dispatch_def Let_def split: option.split)
qed (auto simp: acquire_run_lease_def release_run_lease_def save_contract_def freeze_contract_def start_iteration_def
    complete_iteration_def record_evaluation_def save_checkpoint_def open_decision_def
    resolve_decision_def set_policy_override_def record_artifact_def cache_get_def cache_put_def same_entry_def
    open_dispatch_def record_harness_event_def Let_def split: option.split)

lemma cache_kept: "extends same_entry (db_cache db) (db_cache (harness_after sha calls db))"
proof (induction calls arbitrary: db)
  case (Cons c calls)
  show ?case
    using extends_trans[OF same_entry_orders(2) cache_kept_call Cons.IH, of db sha c] by simp
qed simp

lemma cache_row_later:
  assumes "find_row (\<lambda>c. cc_key c = key) (db_cache db) = Some c"
  shows "\<exists>c'. find_row (\<lambda>c. cc_key c = key) (db_cache (harness_after sha calls db)) = Some c' \<and> cc_payload c' = cc_payload c"
  using find_row_extends[OF assms cache_kept[of db sha calls]] by (auto simp: same_entry_def)

lemma build_pack_hit:
  assumes "find_row (\<lambda>c. cc_key c = pack_key sha asm project modules tags) (db_cache db) = Some c"
  shows "fst (build_pack sha now asm project modules tags run db) =
    Inr (pack_from_payload (pack_key sha asm project modules tags) (cc_payload c)
           (fst (select_skills (as_skills asm) tags)) project, True)"
  using assms
  by (auto simp: build_pack_def hbind_def hseq_def hreturn_def cache_get_def bump_efficiency_def Let_def
      split: option.split)

lemma build_pack_row:
  assumes "fst (build_pack sha now asm project modules tags run db) = Inr (p, hit)"
  shows "\<exists>c. find_row (\<lambda>c. cc_key c = pack_key sha asm project modules tags)
        (db_cache (snd (build_pack sha now asm project modules tags run db))) = Some c
    \<and> p = pack_from_payload (pack_key sha asm project modules tags) (cc_payload c)
           (fst (select_skills (as_skills asm) tags)) project"
proof (cases "find_row (\<lambda>c. cc_key c = pack_key sha asm project modules tags) (db_cache db)")
  case (Some c)
  have "db_cache (snd (build_pack sha now asm project modules tags run db)) =
      update_where (\<lambda>c. cc_key c = pack_key sha asm project modules tags)
        (\<lambda>c. c\<lparr>cc_hits := cc_hits c + 1, cc_last_used := now\<rparr>) (db_cache db)"
    using Some by (auto simp: build_pack_def hbind_def hseq_def hreturn_def cache_get_def bump_efficiency_def Let_def
      split: option.split)
  then show ?thesis using Some build_pack_hit[OF Some, of now run] assms
    by (auto simp: find_row_update_where_key)
next
  case None
  let ?p = "fresh_pack sha asm project modules tags"
  have "p = ?p \<and> (\<exists>c. db_cache (snd (build_pack sha now asm project modules tags run db)) = db_cache db @ [c]
      \<and> cc_key c = pack_key sha asm project modules tags \<and> cc_payload c = pack_payload ?p)"
    using None assms
    by (auto simp: build_pack_def hbind_def hseq_def hreturn_def cache_get_def cache_put_def bump_efficiency_def Let_def
      fresh_pack_fields pack_payload_def split: option.splits)
  then show ?thesis using None pack_payload_inverse[of ?p]
    by (auto simp: find_row_app fresh_pack_fields) (simp_all add: find_row_def)
qed

lemma build_pack_answers: "\<exists>p hit. fst (build_pack sha now asm project modules tags run db) = Inr (p, hit)"
  by (auto simp: build_pack_def hbind_def hseq_def hreturn_def cache_get_def cache_put_def bump_efficiency_def Let_def
      split: option.splits)

section \<open>Properties\<close>

text \<open>
  A context pack is bounded and hides nothing. A freshly assembled pack holds at most the
  configured number of files and bytes, no file above the file ceiling, at most four skills and
  24,000 bytes of them, each skill relevant to the tags when there are any; and every readable file the
  modules name is in the pack or listed as present but not included.
\<close>

theorem pack_bounded_and_named:
  "(let p = fresh_pack sha asm project modules tags in
      length (cp_files p) \<le> as_max_files asm
    \<and> (\<Sum>f\<leftarrow>cp_files p. length (pf_body f)) \<le> as_pack_bytes asm
    \<and> list_all (\<lambda>f. length (pf_body f) \<le> as_file_bytes asm) (cp_files p)
    \<and> length (cp_skills p) \<le> 4 \<and> (\<Sum>s\<leftarrow>cp_skills p. length (sk_body s)) \<le> 24000
    \<and> list_all (\<lambda>s. tags = [] \<or> 0 < skill_overlap (map lower tags) s) (cp_skills p)
    \<and> {path \<in> set (candidate_paths asm (clean_modules modules)). read_file sha asm path \<noteq> None}
        \<subseteq> pf_path ` set (cp_files p) \<union> set (cp_omitted p))"
proof -
  let ?p = "fresh_pack sha asm project modules tags" and ?read = "files_read sha asm (clean_modules modules)"
  have files: "length (cp_files ?p) \<le> as_max_files asm \<and> (\<Sum>f\<leftarrow>cp_files ?p. length (pf_body f)) \<le> as_pack_bytes asm"
    using fit_files_bounds[of 0 asm 0 ?read] by (simp add: fresh_pack_fields)
  have each: "list_all (\<lambda>f. length (pf_body f) \<le> as_file_bytes asm) (cp_files ?p)"
    by (auto simp: fresh_pack_fields list_all_iff dest!: fit_files_sub files_read_path read_file_path)
  have skills: "length (cp_skills ?p) \<le> 4 \<and> (\<Sum>s\<leftarrow>cp_skills ?p. length (sk_body s)) \<le> 24000"
    using choose_skills_bounds[of 0 0 "map lower tags" "scored_skills (map lower tags) (as_skills asm)"]
    by (simp add: fresh_pack_fields select_skills_def MAX_INJECTED_SKILLS_def MAX_SKILL_BYTES_def Let_def)
  have relevant: "list_all (\<lambda>s. tags = [] \<or> 0 < skill_overlap (map lower tags) s) (cp_skills ?p)"
    by (auto simp: fresh_pack_fields select_skills_def Let_def list_all_iff dest!: choose_skills_relevant)
  have named: "{path \<in> set (candidate_paths asm (clean_modules modules)). read_file sha asm path \<noteq> None}
        \<subseteq> pf_path ` set (cp_files ?p) \<union> set (cp_omitted ?p)"
    using candidate_named[of _ asm "clean_modules modules" sha] fit_files_complete[of ?read asm 0 0]
    by (auto simp: fresh_pack_fields)
  show ?thesis unfolding Let_def using files each skills relevant named by (intro conjI) simp_all
qed

text \<open>
  A pack is assembled once. The pack a request got is the pack the same request gets later,
  served from the cache, whatever calls of the store come in between: its files, hashes and bodies, its
  omitted list, rules and skills survive the way through the stored JSON unchanged.
\<close>

theorem pack_cached_for_good:
  "\<exists>p hit. fst (build_pack sha now asm project modules tags run db) = Inr (p, hit)
     \<and> fst (build_pack sha now' asm project modules tags run'
          (harness_after sha calls (snd (build_pack sha now asm project modules tags run db)))) = Inr (p, True)"
proof -
  obtain p hit where first: "fst (build_pack sha now asm project modules tags run db) = Inr (p, hit)"
    using build_pack_answers by blast
  obtain c where c: "find_row (\<lambda>c. cc_key c = pack_key sha asm project modules tags)
        (db_cache (snd (build_pack sha now asm project modules tags run db))) = Some c"
      "p = pack_from_payload (pack_key sha asm project modules tags) (cc_payload c)
           (fst (select_skills (as_skills asm) tags)) project"
    using build_pack_row[OF first] by blast
  from cache_row_later[OF c(1), of sha calls] obtain c' where
    "find_row (\<lambda>c. cc_key c = pack_key sha asm project modules tags)
        (db_cache (harness_after sha calls (snd (build_pack sha now asm project modules tags run db)))) = Some c'"
    "cc_payload c' = cc_payload c" by blast
  from build_pack_hit[OF this(1), of now' run'] this(2) first c(2) show ?thesis by auto
qed

text \<open>
  An unreadable candidate makes an included file count as left out. When the candidates fit the
  reading limit and one of them cannot be read, the last candidate, even read and included in full,
  is also listed as present but not included.
\<close>

theorem unreadable_candidate_shifts_omitted:
  assumes "length (candidate_paths asm (clean_modules modules)) \<le> as_max_files asm * 4"
    and "path \<in> set (candidate_paths asm (clean_modules modules))" and "read_file sha asm path = None"
  shows "last (candidate_paths asm (clean_modules modules)) \<in> set (cp_omitted (fresh_pack sha asm project modules tags))"
proof -
  let ?cs = "candidate_paths asm (clean_modules modules)" and ?read = "files_read sha asm (clean_modules modules)"
  have "length (filter (\<lambda>p. read_file sha asm p \<noteq> None) ?cs) < length ?cs"
    using assms(2,3) by (intro length_filter_less) auto
  then have fewer: "length ?read < length ?cs"
    using assms(1) by (simp add: files_read_def List.map_filter_def comp_def)
  then have "last ?cs \<in> set (drop (length ?read) ?cs)"
    by (metis drop_eq_Nil2 last_drop last_in_set not_less)
  then show ?thesis by (simp add: fresh_pack_fields)
qed

text \<open>
  A repository kept below a hidden directory has no directory modules. The walk skips every
  path with a part that starts with a dot or is named \<open>build\<close>, \<open>dist\<close> and the like, and the parts of a path include
  those of the repository's own location: if one of them is such a name, a module that is a directory
  contributes no file at all.
\<close>

theorem hidden_location_empties_packs:
  assumes "as_repo asm = Some rp" and "list_ex skipped_part (re_parts rp)"
    and "\<forall>m. list_all (\<lambda>e. \<exists>below. we_parts e = re_parts rp @ below) (re_walk rp m)"
    and "list_all (\<lambda>m. \<not> re_file rp m) modules"
  shows "candidate_paths asm modules = []"
proof -
  have "module_paths rp m = []" if "m \<in> set modules" for m
  proof -
    have "list_ex skipped_part (we_parts e)" if "e \<in> set (re_walk rp m)" for e
    proof -
      obtain below where "we_parts e = re_parts rp @ below"
        using assms(3) \<open>e \<in> set (re_walk rp m)\<close> by (auto simp: list_all_iff)
      then show ?thesis using assms(2) by simp
    qed
    then have "filter (\<lambda>e. we_is_file e \<and> \<not> list_ex skipped_part (we_parts e)) (re_walk rp m) = []"
      by (simp add: filter_empty_conv)
    then show ?thesis using assms(4) that by (simp add: module_paths_def list_all_iff List.map_filter_def)
  qed
  then have "concat (map (module_paths rp) modules) = []" by simp
  then show ?thesis using assms(1) by (simp add: candidate_paths_def first_of_each_def)
qed

text \<open>
  The choice of skills depends only on the skills. Whatever the order in which the skills
  are listed, as long as no two share an id, the same ones are selected, in the same order, and the
  same ones rejected.
\<close>

theorem skill_choice_order_free:
  assumes "mset available = mset available'" and "distinct (map sk_id available)"
  shows "select_skills available tags = select_skills available' tags"
  using scored_skills_perm[OF assms(1)] assms(2) by (simp add: select_skills_def distinct_map)

section \<open>Witnesses\<close>

definition sample_tree :: repository where
  "sample_tree = \<lparr>re_parts = [''/'', ''.w'', ''r''], re_file = (\<lambda>p. p \<in> set [''a'', ''b'']), re_dir = (\<lambda>p. p = ''d''),
     re_walk = (\<lambda>p. [\<lparr>we_parts = [''/'', ''.w'', ''r'', ''d'', ''f''], we_is_file = True, we_relative = Some ''d/f''\<rparr>]),
     re_bytes = (\<lambda>p. if p = ''b'' then Some ''x'' else None)\<rparr>"

definition sample_assembler :: assembler where
  "sample_assembler = \<lparr>as_repo = Some sample_tree, as_pack_bytes = 100, as_file_bytes = 10, as_max_files = 2, as_skills = []\<rparr>"

lemma sample_candidates: "candidate_paths sample_assembler (clean_modules [''a'', ''b'']) = [''a'', ''b'']"
  by code_simp

lemma unreadable_candidate_shifts_omitted_witness:
  "''b'' \<in> set (cp_omitted (fresh_pack (\<lambda>s. s) sample_assembler None [''a'', ''b''] []))
   \<and> ''b'' \<in> pf_path ` set (cp_files (fresh_pack (\<lambda>s. s) sample_assembler None [''a'', ''b''] []))"
proof
  show "''b'' \<in> set (cp_omitted (fresh_pack (\<lambda>s. s) sample_assembler None [''a'', ''b''] []))"
    using unreadable_candidate_shifts_omitted[of sample_assembler "[''a'', ''b'']" "''a''" "\<lambda>s. s" None "[]"]
    by (simp add: sample_candidates) (simp add: sample_assembler_def sample_tree_def read_file_def)
  show "''b'' \<in> pf_path ` set (cp_files (fresh_pack (\<lambda>s. s) sample_assembler None [''a'', ''b''] []))"
    by (simp add: fresh_pack_fields files_read_def sample_candidates)
      (simp add: sample_assembler_def sample_tree_def read_file_def List.map_filter_def)
qed

lemma hidden_location_empties_packs_witness:
  "module_paths sample_tree ''d'' = [] \<and> candidate_paths sample_assembler [''d''] = []"
proof
  show "module_paths sample_tree ''d'' = []" by code_simp
  show "candidate_paths sample_assembler [''d''] = []"
    by (rule hidden_location_empties_packs[of _ sample_tree])
      (simp_all add: sample_assembler_def sample_tree_def skipped_part_def startswith_def)
qed

definition sample_skill :: "string \<Rightarrow> skill" where
  "sample_skill i = \<lparr>sk_id = i, sk_version = ''1'', sk_body = ''b'', sk_tags = [''t'']\<rparr>"

lemma skill_choice_order_free_witness:
  "select_skills [sample_skill ''y'', sample_skill ''x''] [''T''] = ([sample_skill ''x'', sample_skill ''y''], [])"
proof -
  have "select_skills [sample_skill ''y'', sample_skill ''x''] [''T''] = select_skills [sample_skill ''x'', sample_skill ''y''] [''T'']"
    by (rule skill_choice_order_free) (simp_all add: sample_skill_def)
  also have "\<dots> = ([sample_skill ''x'', sample_skill ''y''], [])" by code_simp
  finally show ?thesis .
qed

end
