(* ===== verification/HarnessChecks.thy ===== *)
theory HarnessChecks
  imports HarnessContext
begin

text \<open>
  The declared checks of a contract (\<open>harness_engine.py\<close>): running them, telling commands from
  prose, and finding the criteria that name a version or a hash no check printed. What the shell does with
  a command and which programs are on the machine are arguments. The two regular expressions
  run on a small backtracking matcher; text is ASCII, as everywhere.
\<close>

section \<open>Checks\<close>

record check_result =
  kr_command :: string
  kr_exit :: int
  kr_output :: string
  kr_timed_out :: bool

definition check_ok :: "check_result \<Rightarrow> bool" where
  "check_ok r \<longleftrightarrow> kr_exit r = 0 \<and> \<not> kr_timed_out r"

datatype shell_answer = ShellRan int string string | ShellTimeout | ShellOsError string

definition run_checks :: "(string \<Rightarrow> string option \<Rightarrow> shell_answer) \<Rightarrow> string list \<Rightarrow> string option \<Rightarrow> check_result list" where
  \<comment> \<open>every check runs, also after one that failed\<close>
  "run_checks shell commands cwd = map (\<lambda>text. case shell text cwd of
       ShellRan code out err \<Rightarrow> \<lparr>kr_command = text, kr_exit = code, kr_output = strip (out @ err), kr_timed_out = False\<rparr>
     | ShellTimeout \<Rightarrow> \<lparr>kr_command = text, kr_exit = 124, kr_output = ''timed out after 900.0s'', kr_timed_out = True\<rparr>
     | ShellOsError e \<Rightarrow> \<lparr>kr_command = text, kr_exit = 127, kr_output = e, kr_timed_out = False\<rparr>)
     (nonblank commands)"

section \<open>Which checks are commands\<close>

fun occurs_in :: "string \<Rightarrow> string \<Rightarrow> bool" where
  "occurs_in needle [] \<longleftrightarrow> needle = []"
| "occurs_in needle (c # cs) \<longleftrightarrow> startswith (c # cs) needle \<or> occurs_in needle cs"

datatype shlex_state = SpaceState | WordState | QuoteState char | EscapeState shlex_state

definition shlex_space :: "char \<Rightarrow> bool" where
  "shlex_space c \<longleftrightarrow> (of_char c :: nat) \<in> {32, 9, 13, 10}"

definition is_quote :: "char \<Rightarrow> bool" where
  "is_quote c \<longleftrightarrow> (of_char c :: nat) \<in> {34, 39}"

definition BACKSLASH :: char where "BACKSLASH = char_of (92::nat)"

definition emit_word :: "string \<Rightarrow> bool \<Rightarrow> string list \<Rightarrow> string list" where
  "emit_word token quoted ws = (if token \<noteq> [] \<or> quoted then token # ws else ws)"

fun shlex_from :: "shlex_state \<Rightarrow> string \<Rightarrow> bool \<Rightarrow> string \<Rightarrow> string list option" where
  \<comment> \<open>\<open>shlex.split\<close> in POSIX mode; None is its \<open>ValueError\<close> (no closing quotation, no escaped character)\<close>
  "shlex_from st token quoted [] = (case st of
       QuoteState q \<Rightarrow> None | EscapeState s \<Rightarrow> None | _ \<Rightarrow> Some (emit_word token quoted []))"
| "shlex_from SpaceState token quoted (c # cs) =
     (if shlex_space c then shlex_from SpaceState token quoted cs
      else if c = BACKSLASH then shlex_from (EscapeState WordState) token quoted cs
      else if is_quote c then shlex_from (QuoteState c) token quoted cs
      else shlex_from WordState [c] quoted cs)"
| "shlex_from WordState token quoted (c # cs) =
     (if shlex_space c then map_option (emit_word token quoted) (shlex_from SpaceState [] False cs)
      else if is_quote c then shlex_from (QuoteState c) token quoted cs
      else if c = BACKSLASH then shlex_from (EscapeState WordState) token quoted cs
      else shlex_from WordState (token @ [c]) quoted cs)"
| "shlex_from (QuoteState q) token quoted (c # cs) =
     (if c = q then shlex_from WordState token True cs
      else if c = BACKSLASH \<and> (of_char q :: nat) = 34 then shlex_from (EscapeState (QuoteState q)) token True cs
      else shlex_from (QuoteState q) (token @ [c]) True cs)"
| "shlex_from (EscapeState s) token quoted (c # cs) =
     (case s of
        QuoteState q \<Rightarrow> shlex_from s ((if c \<noteq> BACKSLASH \<and> c \<noteq> q then token @ [BACKSLASH] else token) @ [c]) quoted cs
      | _ \<Rightarrow> shlex_from s (token @ [c]) quoted cs)"

definition shlex_split :: "string \<Rightarrow> string list option" where
  "shlex_split text = shlex_from SpaceState [] False text"

definition SHELL_TOKENS :: "string list" where
  "SHELL_TOKENS = [''|'', ''&&'', ''||'', '';'', ''>'', ''<'', ''$('']"

definition SHELL_BUILTINS :: "string list" where
  "SHELL_BUILTINS = [''true'', ''false'', ''test'', ''echo'', ''cd'', ''export'', ''source'', ''.'', ''set'',
     ''exit'', ''read'', ''eval'', ''exec'', ''['']"

definition is_command :: "(string \<Rightarrow> bool) \<Rightarrow> string \<Rightarrow> bool" where
  \<comment> \<open>\<open>which\<close>: what \<open>shutil.which\<close> finds on this machine\<close>
  "is_command which text \<longleftrightarrow> list_ex (\<lambda>t. occurs_in t text) SHELL_TOKENS
     \<or> (case shlex_split text of
          Some (program # _) \<Rightarrow> program \<in> set SHELL_BUILTINS \<or> which program
        | _ \<Rightarrow> False)"

definition partition_checks :: "(string \<Rightarrow> bool) \<Rightarrow> string list \<Rightarrow> string list \<times> string list" where
  "partition_checks which checks = partition (is_command which) (nonblank checks)"

section \<open>Patterns\<close>

datatype pattern =
  Letter "char \<Rightarrow> bool"
| Then pattern pattern
| Maybe pattern
| Many pattern
| WordBoundary

type_synonym text_position = "char option \<times> string"  \<comment> \<open>the character before, and the rest\<close>

definition word_char :: "char \<Rightarrow> bool" where
  "word_char c \<longleftrightarrow> (let n = of_char c :: nat in 48 \<le> n \<and> n \<le> 57 \<or> 65 \<le> n \<and> n \<le> 90 \<or> 97 \<le> n \<and> n \<le> 122 \<or> n = 95)"

definition at_boundary :: "text_position \<Rightarrow> bool" where
  "at_boundary pos = ((case fst pos of None \<Rightarrow> False | Some c \<Rightarrow> word_char c)
     \<noteq> (case snd pos of [] \<Rightarrow> False | c # _ \<Rightarrow> word_char c))"

primrec many_ends :: "nat \<Rightarrow> (text_position \<Rightarrow> text_position list) \<Rightarrow> text_position \<Rightarrow> text_position list" where
  \<comment> \<open>greedy repetition; no body matches the empty text, so the rest bounds the rounds\<close>
  "many_ends 0 f pos = [pos]"
| "many_ends (Suc n) f pos = concat (map (many_ends n f) (f pos)) @ [pos]"

primrec ends :: "pattern \<Rightarrow> text_position \<Rightarrow> text_position list" where
  \<comment> \<open>where a match can end, in the order backtracking tries them\<close>
  "ends (Letter p) pos = (case snd pos of [] \<Rightarrow> [] | c # cs \<Rightarrow> if p c then [(Some c, cs)] else [])"
| "ends (Then a b) pos = concat (map (ends b) (ends a pos))"
| "ends (Maybe a) pos = ends a pos @ [pos]"
| "ends (Many a) pos = many_ends (length (snd pos)) (ends a) pos"
| "ends WordBoundary pos = (if at_boundary pos then [pos] else [])"

function find_all :: "pattern \<Rightarrow> text_position \<Rightarrow> string list" where
  \<comment> \<open>the texts \<open>finditer\<close> yields, left to right, for a pattern that matches no empty text\<close>
  "find_all p (prev, []) = []"
| "find_all p (prev, c # cs) = (case ends p (prev, c # cs) of
       [] \<Rightarrow> find_all p (Some c, cs)
     | e # _ \<Rightarrow> if length (snd e) \<le> length cs
         then take (length (c # cs) - length (snd e)) (c # cs) # find_all p e
         else find_all p (Some c, cs))"
  by pat_completeness auto
termination by (relation "measure (\<lambda>(p, pos). length (snd pos))") auto

primrec exactly :: "nat \<Rightarrow> pattern \<Rightarrow> pattern \<Rightarrow> pattern" where
  "exactly 0 a rest = rest"
| "exactly (Suc n) a rest = Then a (exactly n a rest)"

primrec up_to :: "nat \<Rightarrow> pattern \<Rightarrow> pattern" where
  "up_to 0 a = Maybe a"
| "up_to (Suc n) a = Maybe (Then a (up_to n a))"

definition letter :: "char \<Rightarrow> pattern" where
  "letter c = Letter (\<lambda>x. x = c)"

definition VERSION_LITERAL :: pattern where
  \<comment> \<open>\<open>\b v? \d+ (?:\.\d+)* (?:\.x|\.\*)? \b\<close>\<close>
  "VERSION_LITERAL = Then WordBoundary (Then (Maybe (letter CHR ''v'')) (Then (Letter is_digit) (Then (Many (Letter is_digit))
     (Then (Many (Then (letter CHR ''.'') (Then (Letter is_digit) (Many (Letter is_digit)))))
       (Then (Maybe (Then (letter CHR ''.'') (Letter (\<lambda>c. c = CHR ''x'' \<or> c = CHR ''*'')))) WordBoundary)))))"

definition hex_letter :: "char \<Rightarrow> bool" where
  "hex_letter c \<longleftrightarrow> is_digit c \<or> (let n = of_char c :: nat in 97 \<le> n \<and> n \<le> 102)"

definition HASH_LITERAL :: pattern where
  \<comment> \<open>\<open>\b [0-9a-f]{32,64} \b\<close>\<close>
  "HASH_LITERAL = Then WordBoundary (exactly 32 (Letter hex_letter) (Then (up_to 31 (Letter hex_letter)) WordBoundary))"

section \<open>Claims\<close>

datatype claim = HashClaim string | VersionClaim string

definition literals :: "string \<Rightarrow> claim list" where
  "literals txt = map HashClaim (find_all HASH_LITERAL (None, lower txt))
     @ map VersionClaim (filter (\<lambda>t. CHR ''.'' \<in> set t) (find_all VERSION_LITERAL (None, lower txt)))"

definition strip_right :: "string \<Rightarrow> string \<Rightarrow> string" where
  \<comment> \<open>\<open>rstrip\<close>\<close>
  "strip_right chars s = rev (dropWhile (\<lambda>c. c \<in> set chars) (rev s))"

definition version_prefix :: "string \<Rightarrow> string" where
  "version_prefix t = strip_right ''.'' (strip_right ''.x'' (strip_right ''*'' t))"

definition separator :: "char \<Rightarrow> bool" where
  \<comment> \<open>\<open>[\s,;:()\[\]]\<close>\<close>
  "separator c \<longleftrightarrow> is_space c \<or> c \<in> set '',;:()[]''"

function split_runs :: "(char \<Rightarrow> bool) \<Rightarrow> string \<Rightarrow> string \<Rightarrow> string list" where
  \<comment> \<open>\<open>re.split\<close> at maximal runs of separators\<close>
  "split_runs p acc [] = [acc]"
| "split_runs p acc (c # cs) = (if p c then acc # split_runs p [] (dropWhile p cs) else split_runs p (acc @ [c]) cs)"
  by pat_completeness auto
termination
  by (relation "measure (\<lambda>(p, acc, cs). length cs)") (simp_all add: less_Suc_eq_le length_dropWhile_le)

fun claim_met :: "string \<Rightarrow> claim \<Rightarrow> bool" where
  "claim_met out (HashClaim h) \<longleftrightarrow> occurs_in h out"
| "claim_met out (VersionClaim v) \<longleftrightarrow> list_ex (\<lambda>t. startswith t (version_prefix v)) (split_runs separator [] out)"

definition uncorroborated_criteria :: "(string \<Rightarrow> string) \<Rightarrow> exec_contract \<Rightarrow> check_result list \<Rightarrow> string list" where
  "uncorroborated_criteria sha c results =
     (let out = lower (join NL (map kr_output results))
      in map (\<lambda>kt. criterion_id sha (fst kt) (snd kt)) (filter (\<lambda>kt. literals (snd kt) \<noteq> []
           \<and> \<not> list_ex (claim_met out) (literals (snd kt))) (contract_criteria c)))"

lemma literals_samples:
  "literals ''node -v reports v24.x'' = [VersionClaim ''v24.x'']"
  "literals ''all V1 screens, release 1.2.3'' = [VersionClaim ''1.2.3'']"
  "version_prefix ''v24.x'' = ''v24''"
  by code_simp+

end
