(* ===== verification/HarnessEngine.thy ===== *)
theory HarnessEngine
  imports HarnessChecks
begin

text \<open>
  The orchestrator (\<open>harness_engine.py\<close>): one step takes a run from the stage it is in towards
  MERGE_READY or a question to a human, through the store alone. What the engine is given is an argument
  of its operations: the owner name, the repository root, the assembler, the check runner, the
  queue projector (a step answers what it would be called with), and the agent runner, which may
  answer anything and make any calls of the store of its own. \<open>json.loads\<close> and the text classifier are arguments too.
  One clock reading per step.
\<close>

section \<open>What the engine is given\<close>

record agent_result =
  ar_payload :: json
  ar_session :: "string option"
  ar_percent :: "(rat \<times> string) option"  \<comment> \<open>a float, with the text it prints as\<close>
  ar_commit :: "string option"
  ar_agent :: "string option"
  ar_infra_failure :: bool
  ar_error :: "string option"
  ar_tokens :: int
  ar_pending :: bool
  ar_dispatch :: "string option"
  ar_session_reused :: bool
  ar_needs_permission :: bool
  ar_newly_dispatched :: bool

record agent_request =
  rq_role :: role
  rq_prompt :: prompt
  rq_run :: harness_run
  rq_tier :: tier
  rq_session :: "string option"
  rq_iteration :: int

record engine =
  en_owner :: "string option"
  en_root :: "string option"
  en_assembler :: assembler
  en_runner :: "(agent_request \<Rightarrow> harness_db \<Rightarrow> agent_result \<times> harness_call list) option"
  en_checks :: "string list \<Rightarrow> string option \<Rightarrow> check_result list"
  en_projects :: bool
  en_sha :: "string \<Rightarrow> string"
  en_loads :: "string \<Rightarrow> json option"

record step_outcome =
  so_run :: string
  so_from :: stage
  so_to :: stage
  so_action :: string
  so_llm :: bool
  so_pending :: bool
  so_projected :: "(string \<times> board_label) option"  \<comment> \<open>the call of the queue projector\<close>

definition outcome_done :: "step_outcome \<Rightarrow> bool" where
  "outcome_done so \<longleftrightarrow> so_to so \<in> {MERGE_READY, MERGED, DONE, BLOCKED, CANCELLED, NEEDS_REDEFINE}"

section \<open>Helpers\<close>

fun stage_name :: "stage \<Rightarrow> string" where
  "stage_name INIT = ''INIT''"
| "stage_name PLANNING = ''PLANNING''"
| "stage_name PLAN_READY = ''PLAN_READY''"
| "stage_name BUILDING = ''BUILDING''"
| "stage_name EVALUATING = ''EVALUATING''"
| "stage_name REVISING = ''REVISING''"
| "stage_name MERGE_READY = ''MERGE_READY''"
| "stage_name MERGED = ''MERGED''"
| "stage_name DONE = ''DONE''"
| "stage_name RECOVERY_REQUIRED = ''RECOVERY_REQUIRED''"
| "stage_name CONTEXT_ROLLOVER = ''CONTEXT_ROLLOVER''"
| "stage_name FAILED_INFRA = ''FAILED_INFRA''"
| "stage_name NEEDS_REDEFINE = ''NEEDS_REDEFINE''"
| "stage_name BLOCKED = ''BLOCKED''"
| "stage_name CANCELLED = ''CANCELLED''"

definition fresh_id :: "string \<Rightarrow> string htx" where
  "fresh_id prefix db = (Inr (new_id prefix db), drawn db)"

definition task_label :: "harness_run \<Rightarrow> string" where
  "task_label r = (if hr_title r = [] then hr_task r else hr_title r)"

definition scope_text :: "harness_run \<Rightarrow> string" where
  "scope_text r = (if hr_title r = [] then hr_prompt r else hr_title r)"

definition project_to_queue :: "engine \<Rightarrow> timestamp \<Rightarrow> harness_run \<Rightarrow> (string \<times> board_label) option htx" where
  "project_to_queue en now r =
     (if \<not> en_projects en then hreturn None
      else if \<not> writes_queue_status (hr_authority r)
      then hseq (patch_run now (hr_id r) [PShadow (Some (project_stage (hr_stage r)))]) (hreturn None)
      else hreturn (Some (hr_id r, project_stage (hr_stage r))))"

definition to_stage ::
  "engine \<Rightarrow> timestamp \<Rightarrow> harness_run \<Rightarrow> stage \<Rightarrow> string \<Rightarrow> string option \<Rightarrow> string \<Rightarrow> bool \<Rightarrow> step_outcome htx" where
  \<comment> \<open>\<open>_to\<close>: action, reason, actor, whether a model was called\<close>
  "to_stage en now r st action reason actor llm =
     hbind (if hr_stage r = st then hreturn r else advance now (hr_id r) st (Some actor) reason (en_owner en) [])
       (\<lambda>updated. hbind (project_to_queue en now updated)
         (\<lambda>p. hreturn \<lparr>so_run = hr_id r, so_from = hr_stage r, so_to = st, so_action = action, so_llm = llm,
            so_pending = False, so_projected = p\<rparr>))"

definition ask_human :: "timestamp \<Rightarrow> harness_run \<Rightarrow> string \<Rightarrow> string \<Rightarrow> human_decision htx" where
  "ask_human now r reason question =
     open_decision now reason question (Some (hr_id r)) (Some (hr_task r)) (hr_project r)"

definition call_runner ::
  "engine \<Rightarrow> (agent_request \<Rightarrow> harness_db \<Rightarrow> agent_result \<times> harness_call list) \<Rightarrow> agent_request \<Rightarrow> agent_result htx" where
  "call_runner en runner rq db =
     (case runner rq db of (res, calls) \<Rightarrow> (Inr res, harness_after (en_sha en) calls db))"

definition charge_once :: "timestamp \<Rightarrow> harness_run \<Rightarrow> prompt \<Rightarrow> agent_result \<Rightarrow> unit htx" where
  "charge_once now r p res =
     (if ar_dispatch res = None \<or> ar_newly_dispatched res then charge now (hr_id r) p (ar_tokens res) else hreturn ())"

definition awaiting :: "timestamp \<Rightarrow> harness_run \<Rightarrow> role \<Rightarrow> agent_result \<Rightarrow> step_outcome htx" where
  "awaiting now r rl res =
     hseq (if nonempty (ar_session res) \<and> rl = BUILDER
           then hseq (patch_run now (hr_id r) [PBuilderSession (ar_session res),
                  PBuilder (if nonempty (ar_agent res) then ar_agent res else hr_builder r)]) (hreturn ())
           else if nonempty (ar_session res) \<and> rl = EVALUATOR
           then hseq (patch_run now (hr_id r) [PEvaluatorSession (ar_session res)]) (hreturn ())
           else hreturn ())
       (hreturn \<lparr>so_run = hr_id r, so_from = hr_stage r, so_to = hr_stage r, so_action = ''awaiting_'' @ role_name rl,
          so_llm = ar_newly_dispatched res, so_pending = True, so_projected = None\<rparr>)"

definition pack_for ::
  "engine \<Rightarrow> timestamp \<Rightarrow> harness_run \<Rightarrow> exec_contract option \<Rightarrow> (context_pack option \<times> bool) htx" where
  "pack_for en now r c =
     (let areas = (case c of None \<Rightarrow> [] | Some x \<Rightarrow> xc_areas x);
          ms = (if areas = [] then sp_changed (hr_policy r) else areas)
      in if ms = [] \<or> en_root en = None then hreturn (None, False)
         else hbind (build_pack (en_sha en) now (en_assembler en) (hr_project r) ms (rp_areas (hr_policy r))
                (Some (hr_id r))) (\<lambda>ph. hreturn (Some (fst ph), snd ph)))"

section \<open>Interruptions\<close>

definition record_permission_blocker :: "engine \<Rightarrow> timestamp \<Rightarrow> string \<Rightarrow> string \<Rightarrow> step_outcome htx" where
  "record_permission_blocker en now i error =
     hbind (require_run i) (\<lambda>_.
     hbind (patch_run now i [PLastError (Some error)]) (\<lambda>_.
     hbind (require_run i) (\<lambda>r.
     hseq (ask_human now r ''permission_required'' (task_label r @ '': '' @ error))
       (to_stage en now r BLOCKED ''permission_required'' (Some error) ''engine'' False))))"

definition record_infra_failure :: "engine \<Rightarrow> timestamp \<Rightarrow> string \<Rightarrow> string \<Rightarrow> step_outcome htx" where
  "record_infra_failure en now i error =
     hbind (require_run i) (\<lambda>r0. let count = hr_infra_failures r0 + 1 in
     hbind (patch_run now i [PInfraFailures count, PLastError (Some error)]) (\<lambda>_.
     hbind (require_run i) (\<lambda>r.
       if INFRA_FAILURE_ESCALATION_THRESHOLD \<le> count
       then hseq (ask_human now r ''repeated_infra_failure''
              (task_label r @ '': '' @ int_str count @ '' consecutive infrastructure failures. Last error: '' @ error))
            (to_stage en now r BLOCKED ''repeated_infra_failure'' (Some error) ''engine'' False)
       else to_stage en now r FAILED_INFRA ''infra_failure'' (Some error) ''engine'' False)))"

definition agent_failed :: "engine \<Rightarrow> timestamp \<Rightarrow> harness_run \<Rightarrow> agent_result \<Rightarrow> string \<Rightarrow> step_outcome htx" where
  \<comment> \<open>what each of the three callers does with \<open>infra_failure\<close>\<close>
  "agent_failed en now r res fallback =
     (if ar_needs_permission res then record_permission_blocker en now (hr_id r) (str_or (ar_error res) [])
      else record_infra_failure en now (hr_id r) (str_or (ar_error res) fallback))"

definition stage_to_resume :: "harness_run \<Rightarrow> stage" where
  "stage_to_resume r = (case hr_resume r of
       None \<Rightarrow> PLAN_READY
     | Some st \<Rightarrow> if st \<in> set RESUMABLE_STAGES then st else PLAN_READY)"

definition resume :: "engine \<Rightarrow> timestamp \<Rightarrow> string \<Rightarrow> step_outcome htx" where
  "resume en now i =
     hbind (require_run i) (\<lambda>r db. let st = stage_to_resume r; ck = latest_checkpoint (hr_id r) db in
       hbind (advance now (hr_id r) st (Some ''engine'')
           (Some (''resumed at '' @ stage_name st @ '' from checkpoint ''
              @ (case ck of None \<Rightarrow> ''(none)'' | Some k \<Rightarrow> str_or (Some (ck_id k)) ''(none)''))) (en_owner en) [])
         (\<lambda>r1. hreturn \<lparr>so_run = hr_id r1, so_from = FAILED_INFRA, so_to = st, so_action = ''resumed'', so_llm = False,
            so_pending = False, so_projected = None\<rparr>) db)"

definition take_checkpoint ::
  "timestamp \<Rightarrow> string \<Rightarrow> string \<Rightarrow> string list \<Rightarrow> string list \<Rightarrow> string option \<Rightarrow> checkpoint htx" where
  "take_checkpoint now i remark remaining checks commit =
     hbind (require_run i) (\<lambda>r. save_checkpoint now (hr_id r) (hr_task r) (hr_iteration r) (hr_branch r)
       (if nonempty commit then commit else hr_result_commit r) (hr_worktree r) (hr_builder_session r)
       checks remaining remark)"

definition replace_builder_session :: "timestamp \<Rightarrow> string \<Rightarrow> string \<Rightarrow> string \<Rightarrow> checkpoint htx" where
  \<comment> \<open>answers the checkpoint the replacement continues from\<close>
  "replace_builder_session now i session reason =
     hbind (require_run i) (\<lambda>r db.
       hbind (case latest_checkpoint (hr_id r) db of Some k \<Rightarrow> hreturn k
              | None \<Rightarrow> take_checkpoint now (hr_id r) ''auto-checkpoint before session replacement'' [] [] None)
         (\<lambda>k. hseq (patch_run now (hr_id r) [PBuilderSession (Some session)])
           (hseq (bump_efficiency now (hr_id r) (Some (''builder session replaced: '' @ reason))
               [(ROLLOVER_COUNT, 1), (SESSIONS_SPAWNED, 1)])
             (hseq (record_harness_event now (hr_id r) ''BUILDER_SESSION_REPLACED'' (Some (hr_iteration r))
                 (Some session) (Some reason))
               (hreturn k)))) db)"

fun context_step_name :: "context_step \<Rightarrow> string" where
  "context_step_name CONTINUE = ''continue''"
| "context_step_name WATCH = ''watch''"
| "context_step_name CHECKPOINT_AFTER_SLICE = ''checkpoint_after_slice''"
| "context_step_name ROLLOVER = ''rollover''"
| "context_step_name REPLACE_SESSION = ''replace_session''"

definition apply_context_ladder :: "timestamp \<Rightarrow> harness_run \<Rightarrow> (rat \<times> string) option \<Rightarrow> unit htx" where
  "apply_context_ladder now r percent =
     (let action = context_action (map_option fst percent) in
      if action = CONTINUE then hreturn ()
      else hseq (bump_efficiency now (hr_id r) (Some (''context '' @ (case percent of None \<Rightarrow> ''None'' | Some ps \<Rightarrow> snd ps)
               @ ''% -> '' @ context_step_name action)) [])
        (if forces_checkpoint action
         then hseq (save_checkpoint now (hr_id r) (hr_task r) (hr_iteration r) (hr_branch r) (hr_result_commit r)
                (hr_worktree r) (hr_builder_session r) [] [] (''context ladder: '' @ context_step_name action))
              (hreturn ())
         else hreturn ()))"

definition block_max_iterations :: "engine \<Rightarrow> timestamp \<Rightarrow> harness_run \<Rightarrow> bool \<Rightarrow> step_outcome htx" where
  "block_max_iterations en now r repeated =
     hseq (ask_human now r ''max_iterations_reached''
         (if repeated then task_label r @ '': iteration '' @ int_str (hr_iteration r)
            @ '' failed identically to the one before it -- the obstacle is outside what the Builder can change. Is the contract wrong, or does the environment need changing?''
          else task_label r @ '': '' @ int_str (hr_max_iterations r)
            @ '' iterations did not converge. Is the contract wrong, or is the work bigger than the task?''))
       (to_stage en now r BLOCKED (if repeated then ''non_convergence'' else ''max_iterations'')
          (Some (if repeated then ''two consecutive identical failed verdicts''
                 else int_str (hr_max_iterations r) @ '' iterations without a pass'')) ''engine'' False)"

section \<open>Planning\<close>

definition template_contract :: "engine \<Rightarrow> timestamp \<Rightarrow> harness_run \<Rightarrow> exec_contract htx" where
  "template_contract en now r =
     hbind (fresh_id ''ctr'') (\<lambda>cid.
       case build_contract cid now (hr_id r) (hr_task r) (scope_text r)
           [(''functional_acceptance'', jstrs (sp_acceptance (hr_policy r))),
            (''required_checks'', jstrs (sp_checks (hr_policy r))),
            (''manual_checks'', jstrs (sp_manual (hr_policy r))),
            (''affected_areas'', jstrs (sp_changed (hr_policy r)))] of
         Inl e \<Rightarrow> hraise (ContractRefused e)
       | Inr c \<Rightarrow> hreturn c)"

definition py_tuple :: "json \<Rightarrow> py_error + json list" where
  \<comment> \<open>\<open>tuple(v or ())\<close>: a string falls into its characters, a dictionary into its keys\<close>
  "py_tuple v = (if \<not> truthy v then Inr []
     else case v of JArr xs \<Rightarrow> Inr xs | JStr s \<Rightarrow> Inr (map (\<lambda>c. JStr [c]) s) | JObj d \<Rightarrow> Inr (map (JStr \<circ> fst) d)
       | _ \<Rightarrow> Inl PyTypeError)"

definition py_contains :: "json \<Rightarrow> string \<Rightarrow> bool" where
  \<comment> \<open>\<open>a in (v or ())\<close>\<close>
  "py_contains v a = (truthy v \<and> (case v of JArr xs \<Rightarrow> JStr a \<in> set xs | JStr s \<Rightarrow> occurs_in a s
     | JObj d \<Rightarrow> dhas d a | _ \<Rightarrow> False))"

definition with_floor :: "json \<Rightarrow> string list \<Rightarrow> py_error + json" where
  \<comment> \<open>what the planner gave, and after it what the task was filed with and the planner left out\<close>
  "with_floor v filed = and_then (py_tuple v)
     (\<lambda>xs. Inr (JArr (xs @ map JStr (filter (\<lambda>a. \<not> py_contains v a) filed))))"

definition payload_dict :: "(string \<Rightarrow> json option) \<Rightarrow> json \<Rightarrow> dict" where
  "payload_dict loads payload =
     (case (case payload of JStr s \<Rightarrow> (case loads s of None \<Rightarrow> JObj [] | Some v \<Rightarrow> v) | v \<Rightarrow> v) of
        JObj d \<Rightarrow> d | _ \<Rightarrow> [])"

definition contract_fields :: "harness_run \<Rightarrow> dict \<Rightarrow> py_error + dict" where
  \<comment> \<open>the keyword arguments \<open>_contract_from_payload\<close> passes to \<open>build\<close>\<close>
  "contract_fields r d =
     and_then (with_floor (dget d ''functional_acceptance'') (sp_acceptance (hr_policy r))) (\<lambda>functional.
     and_then (with_floor (dget d ''required_checks'') (sp_checks (hr_policy r))) (\<lambda>checks.
     and_then (py_tuple (dget d ''manual_checks'')) (\<lambda>manual.
       Inr [(''out_of_scope'', dget d ''out_of_scope''),
            (''affected_areas'', (if truthy (dget d ''affected_areas'') then dget d ''affected_areas''
               else jstrs (sp_changed (hr_policy r)))),
            (''dependencies'', dget d ''dependencies''), (''functional_acceptance'', functional),
            (''visual_acceptance'', dget d ''visual_acceptance''),
            (''performance_acceptance'', dget d ''performance_acceptance''),
            (''security_acceptance'', dget d ''security_acceptance''), (''required_checks'', checks),
            (''manual_checks'', JArr (manual @ map JStr (sp_manual (hr_policy r)))),
            (''dev_command'', dget d ''dev_command''), (''test_command'', dget d ''test_command''),
            (''build_command'', dget d ''build_command'')])))"

definition contract_from_payload ::
  "engine \<Rightarrow> timestamp \<Rightarrow> harness_run \<Rightarrow> json \<Rightarrow> (spec_error + exec_contract) htx" where
  "contract_from_payload en now r payload =
     hbind (fresh_id ''ctr'') (\<lambda>cid. hreturn
       (let d = payload_dict (en_loads en) payload in
        and_then (lift_error ContractRaised (contract_fields r d))
          (build_contract cid now (hr_id r) (hr_task r) (or_text (dget d ''scope'') (scope_text r)))))"

definition install_contract :: "engine \<Rightarrow> timestamp \<Rightarrow> exec_contract \<Rightarrow> string \<Rightarrow> unit htx" where
  \<comment> \<open>written, then frozen: two transactions\<close>
  "install_contract en now c actor =
     hseq (save_contract (en_sha en) now c (Some actor)) (freeze_contract now (xc_id c) (Some actor))"

definition plan_with_agent ::
  "engine \<Rightarrow> timestamp \<Rightarrow> (agent_request \<Rightarrow> harness_db \<Rightarrow> agent_result \<times> harness_call list) \<Rightarrow> harness_run \<Rightarrow> string
   \<Rightarrow> step_outcome htx" where
  "plan_with_agent en now runner r0 why =
     hbind (if hr_stage r0 = PLANNING then hreturn r0
            else advance now (hr_id r0) PLANNING (Some ''engine'') (Some why) (en_owner en) []) (\<lambda>r.
     hbind (pack_for en now r None) (\<lambda>ph.
       let p = planner_prompt (hr_title r) (hr_prompt r) (sp_acceptance (hr_policy r0)) (sp_checks (hr_policy r0))
             (fst ph) (snd ph)
       in hbind (call_runner en runner \<lparr>rq_role = PLANNER, rq_prompt = p, rq_run = r,
              rq_tier = tier_for (hr_mode r) PLANNER 0 (rp_areas (hr_policy r) \<noteq> []), rq_session = None, rq_iteration = 0\<rparr>)
         (\<lambda>res. hseq (charge_once now r p res)
           (if ar_pending res then awaiting now r PLANNER res
            else if ar_infra_failure res then agent_failed en now r res ''planner failed''
            else hbind (contract_from_payload en now r (ar_payload res)) (\<lambda>built. case built of
                Inl (InsufficientSpecification missing) \<Rightarrow>
                  hseq (ask_human now r ''ambiguous_product_decision''
                      (task_label r @ '': the definition cannot support a contract ('' @ join '', '' missing
                       @ ''). What should 'done' mean?''))
                    (to_stage en now r NEEDS_REDEFINE ''insufficient_specification'' (Some (join '', '' missing))
                       ''engine'' True)
              | Inl e \<Rightarrow> hraise (ContractRefused e)
              | Inr c \<Rightarrow>
                  hseq (patch_run now (hr_id r) [PPlanner (ar_agent res)])
                   (hseq (install_contract en now c (str_or (ar_agent res) ''planner''))
                    (hbind (require_run (hr_id r)) (\<lambda>r1.
                      to_stage en now r1 PLAN_READY ''contract_from_planner'' None ''engine'' True))))))))"

definition plan_new :: "engine \<Rightarrow> timestamp \<Rightarrow> harness_run \<Rightarrow> step_outcome htx" where
  \<comment> \<open>no frozen contract yet: the template when the definition suffices, else the planner\<close>
  "plan_new en now r =
     (case planner_required (hr_mode r) (sp_acceptance (hr_policy r)) (sp_checks (hr_policy r)) (scope_text r) of
        (False, why) \<Rightarrow>
          hbind (template_contract en now r) (\<lambda>c.
            hseq (bump_efficiency now (hr_id r) (Some (''planner skipped: '' @ why)) [(PLANNER_SKIPPED, 1)])
             (hseq (install_contract en now c ''engine'')
               (to_stage en now r PLAN_READY ''contract_from_template'' (Some why) ''engine'' False)))
      | (True, why) \<Rightarrow> (case en_runner en of
            None \<Rightarrow> hraise (HarnessError (''run '' @ hr_id r @ '' needs a Planner ('' @ why
                      @ '') but no AgentRunner is configured''))
          | Some runner \<Rightarrow> plan_with_agent en now runner r why))"

definition plan_step :: "engine \<Rightarrow> timestamp \<Rightarrow> harness_run \<Rightarrow> step_outcome htx" where
  "plan_step en now r db =
     (case get_contract (hr_id r) None db of
        None \<Rightarrow> plan_new en now r db
      | Some c \<Rightarrow> if xc_frozen c
          then to_stage en now r PLAN_READY ''contract_already_frozen'' None ''engine'' False db
          else plan_new en now r db)"

section \<open>Building\<close>

definition require_contract :: "harness_run \<Rightarrow> string \<Rightarrow> exec_contract htx" where
  "require_contract r purpose db = (case get_contract (hr_id r) None db of
       None \<Rightarrow> (Inl (NoContract (''run '' @ hr_id r @ '' has no contract to '' @ purpose @ '' against'')), db)
     | Some c \<Rightarrow> (Inr c, db))"

definition enter_build :: "engine \<Rightarrow> timestamp \<Rightarrow> harness_run \<Rightarrow> step_outcome htx" where
  "enter_build en now r =
     hbind (require_contract r ''build'') (\<lambda>_. let n = hr_iteration r + 1 in
       if hr_max_iterations r < n then block_max_iterations en now r False
       else hseq (start_iteration now (hr_id r) n (hr_builder r) (hr_builder_session r) (hr_base_commit r)
                  (Some (iteration_request_key (hr_id r) n)))
         (hbind (require_run (hr_id r)) (\<lambda>r1.
           to_stage en now r1 BUILDING ''iteration_opened'' None ''engine'' False)))"

definition iteration_of :: "harness_run \<Rightarrow> int" where
  "iteration_of r = (if hr_iteration r = 0 then 1 else hr_iteration r)"

definition previous_verdict :: "harness_run \<Rightarrow> harness_db \<Rightarrow> evaluation option" where
  "previous_verdict r db =
     (if 1 < iteration_of r then latest_evaluation (hr_id r) (Some (iteration_of r - 1)) db else None)"

definition choose_builder_prompt ::
  "engine \<Rightarrow> timestamp \<Rightarrow> harness_run \<Rightarrow> exec_contract \<Rightarrow> evaluation option \<Rightarrow> checkpoint option \<Rightarrow> (prompt \<times> bool) htx" where
  \<comment> \<open>\<open>_builder_prompt\<close>: the prompt, and whether the bound session is to be reused\<close>
  "choose_builder_prompt en now r c previous ck =
     (let reusable = (previous \<noteq> None \<and> hr_builder_session r \<noteq> None
            \<and> (case ck of None \<Rightarrow> False | Some k \<Rightarrow> ck_session k = hr_builder_session r));
          full = hbind (pack_for en now r (Some c)) (\<lambda>ph. hreturn
            (builder_prompt (en_sha en) c (fst ph) (snd ph) (if reusable then None else ck), False))
      in if iteration_of r = 1 \<and> previous = None \<and> nonempty (hr_builder_session r)
            \<and> nonempty (sp_inherited (hr_policy r))
         then hreturn (adjacent_task_prompt (en_sha en) c (the (sp_inherited (hr_policy r))), True)
         else if reusable then (case previous of
             Some ev \<Rightarrow> if failed_criteria ev \<noteq> []
               then hreturn (revision_prompt (en_sha en) ev c (iteration_of r), True) else full
           | None \<Rightarrow> full)
         else full)"

definition note_session_use :: "timestamp \<Rightarrow> harness_run \<Rightarrow> prompt \<Rightarrow> agent_result \<Rightarrow> bool \<Rightarrow> unit htx" where
  "note_session_use now r p res reused =
     (if ar_dispatch res = None \<or> ar_newly_dispatched res
      then let actually = (if nonempty (ar_dispatch res) then ar_session_reused res else reused)
        in bump_efficiency now (hr_id r)
             (Some (if pm_delta p then ''builder session reused (delta prompt)''
                    else ''builder session fresh (full prompt)''))
             [(SESSION_REUSED, if actually then 1 else 0), (SESSIONS_SPAWNED, if actually then 0 else 1)]
      else hreturn ())"

definition record_build_result :: "timestamp \<Rightarrow> harness_run \<Rightarrow> agent_result \<Rightarrow> unit htx" where
  "record_build_result now r res =
     hseq (if nonempty (ar_session res)
           then hseq (patch_run now (hr_id r) [PBuilderSession (ar_session res),
                  PBuilder (if nonempty (ar_agent res) then ar_agent res else hr_builder r)]) (hreturn ())
           else hreturn ())
       (if nonempty (ar_commit res) then hseq (patch_run now (hr_id r) [PResultCommit (ar_commit res)]) (hreturn ())
        else hreturn ())"

definition finish_build ::
  "engine \<Rightarrow> timestamp \<Rightarrow> string \<Rightarrow> exec_contract \<Rightarrow> int \<Rightarrow> agent_result \<Rightarrow> step_outcome htx" where
  \<comment> \<open>the builder reported done: a checkpoint, the context ladder, and on to evaluating\<close>
  "finish_build en now i c n res =
     hbind (require_run i) (\<lambda>r.
     hseq (save_checkpoint now (hr_id r) (hr_task r) n (hr_branch r)
         (if nonempty (ar_commit res) then ar_commit res else hr_result_commit r) (hr_worktree r) (ar_session res)
         (xc_checks c) [] ''builder reported done'')
      (hseq (apply_context_ladder now r (ar_percent res))
       (hbind (require_run i) (\<lambda>r1. to_stage en now r1 EVALUATING ''built'' None ''engine'' True))))"

definition build_with_agent ::
  "engine \<Rightarrow> timestamp \<Rightarrow> (agent_request \<Rightarrow> harness_db \<Rightarrow> agent_result \<times> harness_call list) \<Rightarrow> harness_run
   \<Rightarrow> exec_contract \<Rightarrow> step_outcome htx" where
  "build_with_agent en now runner r c db =
     hbind (choose_builder_prompt en now r c (previous_verdict r db) (latest_checkpoint (hr_id r) db)) (\<lambda>(p, reused).
     hbind (call_runner en runner \<lparr>rq_role = BUILDER, rq_prompt = p, rq_run = r,
          rq_tier = tier_for (hr_mode r) BUILDER (max 0 (iteration_of r - 1)) False,
          rq_session = (if reused then hr_builder_session r else None), rq_iteration = iteration_of r\<rparr>) (\<lambda>res.
     hseq (charge_once now r p res)
      (hseq (note_session_use now r p res reused)
       (if ar_pending res then awaiting now r BUILDER res
        else hseq (record_build_result now r res)
         (if ar_infra_failure res then agent_failed en now r res ''builder failed''
          else finish_build en now (hr_id r) c (iteration_of r) res))))) db"

definition build_step :: "engine \<Rightarrow> timestamp \<Rightarrow> harness_run \<Rightarrow> step_outcome htx" where
  "build_step en now r =
     hbind (require_contract r ''build'') (\<lambda>c. case en_runner en of
         None \<Rightarrow> hraise (HarnessError (''run '' @ hr_id r @ '' needs a Builder but no AgentRunner is configured''))
       | Some runner \<Rightarrow> build_with_agent en now runner r c)"

section \<open>Evaluating\<close>

definition last_chars :: "nat \<Rightarrow> string \<Rightarrow> string" where
  "last_chars n s = drop (length s - n) s"

definition failed_checks :: "check_result list \<Rightarrow> check_result list" where
  "failed_checks results = filter (\<lambda>r. \<not> check_ok r) results"

definition verdict_from_checks ::
  "engine \<Rightarrow> timestamp \<Rightarrow> exec_contract \<Rightarrow> int \<Rightarrow> check_result list \<Rightarrow> evaluation htx" where
  "verdict_from_checks en now c n results =
     hbind (fresh_id ''evl'') (\<lambda>i.
       let failures = failed_checks results; ok = (failures = []);
           proof_pass = join ''; '' (map (\<lambda>r. kr_command r @ '' -> exit 0'') results);
           evidence = (if ok then (if proof_pass = [] then ''contract declared no runnable check'' else proof_pass)
             else join NL (map (\<lambda>r. ''$ '' @ kr_command r @ NL @ ''exit '' @ int_str (kr_exit r) @ NL
                    @ last_chars 1500 (kr_output r)) failures));
           v = (if ok then PASS else FAIL)
       in hreturn \<lparr>hv_id = i, hv_run = xc_run c, hv_iteration = n, hv_contract = xc_id c,
            hv_hash = content_hash (en_sha en) c, hv_result = v,
            hv_criteria = map (\<lambda>kt. \<lparr>cr_id = criterion_id (en_sha en) (fst kt) (snd kt), cr_kind = fst kt,
               cr_text = snd kt, cr_result = v, cr_evidence = evidence, cr_artifact = None\<rparr>) (contract_criteria c),
            hv_agent = Some ''engine:declared-checks'', hv_session = None, hv_commit = None,
            hv_summary = (if ok then ''all declared checks passed''
              else int_str (int (length failures)) @ '' declared check(s) failed''),
            hv_failure = (if ok then None else Some PRODUCT_FAILURE), hv_created = now\<rparr>)"

fun budget_name :: "budget_step \<Rightarrow> string" where
  "budget_name BUDGET_OK = ''ok''"
| "budget_name BUDGET_NARROW = ''narrow_context''"
| "budget_name BUDGET_CHECKPOINT = ''checkpoint_and_summarise''"
| "budget_name BUDGET_ESCALATE = ''escalate_needs_redefine''"

definition failure_signature :: "criterion_result list \<Rightarrow> string list list" where
  "failure_signature cs = sort (map (\<lambda>r. [cr_id r, cr_evidence r]) (filter (\<lambda>r. cr_result r \<noteq> PASS) cs))"

definition repeating_itself :: "harness_run \<Rightarrow> evaluation \<Rightarrow> int \<Rightarrow> harness_db \<Rightarrow> bool" where
  "repeating_itself r ev n db =
     (if n < 2 then False
      else case latest_evaluation (hr_id r) (Some (n - 1)) db of
        None \<Rightarrow> False
      | Some previous \<Rightarrow> hv_result previous = FAIL
          \<and> failure_signature (hv_criteria previous) = failure_signature (failed_criteria ev))"

definition settle_failure ::
  "engine \<Rightarrow> timestamp \<Rightarrow> harness_run \<Rightarrow> evaluation \<Rightarrow> int \<Rightarrow> string \<Rightarrow> bool \<Rightarrow> step_outcome htx" where
  \<comment> \<open>the FAIL branch of \<open>_settle\<close>\<close>
  "settle_failure en now r ev n action llm =
     hseq (let b = budget_action (hr_tokens r) (hr_budget r) in
           if b = BUDGET_OK then hreturn ()
           else bump_efficiency now (hr_id r) (Some (''budget: '' @ budget_name b)) [])
       (\<lambda>db. (if hr_max_iterations r \<le> n then block_max_iterations en now r False
          else if repeating_itself r ev n db
          then hseq (bump_efficiency now (hr_id r) (Some ''stopped early: two identical failed verdicts'') [])
                 (block_max_iterations en now r True)
          else to_stage en now r REVISING action
                 (Some (int_str (int (length (failed_criteria ev))) @ '' criteria failed; revising without human involvement''))
                 ''engine'' llm) db)"

definition settle ::
  "engine \<Rightarrow> timestamp \<Rightarrow> harness_run \<Rightarrow> evaluation \<Rightarrow> int \<Rightarrow> string \<Rightarrow> bool \<Rightarrow> step_outcome htx" where
  "settle en now r ev n action llm =
     hseq (record_evaluation now ev)
      (hseq (record_artifact now (hr_id r) ''verdict''
          (''.harness/'' @ hr_id r @ ''/iteration-'' @ int_str n @ ''/verdict.json'') (Some n))
       (hseq (complete_iteration now (hr_id r) n (Some (hv_result ev)) (hv_failure ev) (hr_result_commit r)
           (hv_agent ev) (hv_session ev))
        (case hv_result ev of
           PASS \<Rightarrow> to_stage en now r MERGE_READY action (Some ''every declared criterion passed'') ''engine'' llm
         | NEEDS_REDEFINE_VERDICT \<Rightarrow>
             hseq (ask_human now r ''ambiguous_product_decision''
                 (task_label r @ '': the evaluator reports the contract itself is wrong. '' @ hv_summary ev))
               (to_stage en now r NEEDS_REDEFINE action (Some (hv_summary ev)) ''engine'' llm)
         | BLOCKED_VERDICT \<Rightarrow>
             hseq (ask_human now r ''permission_required'' (task_label r @ '': evaluation is blocked. '' @ hv_summary ev))
               (to_stage en now r BLOCKED action
                  (Some (if hv_summary ev = [] then ''evaluation blocked'' else hv_summary ev)) ''engine'' llm)
         | FAIL \<Rightarrow> settle_failure en now r ev n action llm)))"

definition artifact_path :: "harness_run \<Rightarrow> int \<Rightarrow> string \<Rightarrow> string" where
  "artifact_path r n name = ''.harness/'' @ hr_id r @ ''/iteration-'' @ int_str n @ ''/'' @ name"

fun py_type_name :: "json \<Rightarrow> string" where
  "py_type_name JNull = ''NoneType''"
| "py_type_name (JBool b) = ''bool''"
| "py_type_name (JInt n) = ''int''"
| "py_type_name (JStr s) = ''str''"
| "py_type_name (JArr xs) = ''list''"
| "py_type_name (JObj d) = ''dict''"

fun problem_text :: "json \<Rightarrow> verdict_problem \<Rightarrow> string" where
  "problem_text payload (NonAnswer s) =
     py_repr s @ '' is not a verdict: every acceptance criterion needs its own result and evidence''"
| "problem_text payload Prose = ''verdict must be a structured object, not prose''"
| "problem_text payload NotAnObject = ''verdict must be an object, got '' @ py_type_name payload"
| "problem_text payload (NoCriteria n) =
     ''verdict.criteria must list one result per acceptance criterion; expected '' @ nat_str n"
| "problem_text payload (EntryNotObject i) = ''criteria['' @ nat_str i @ ''] is not an object''"
| "problem_text payload (Undeclared i cid) =
     ''criteria['' @ nat_str i @ ''] answers '' @ py_repr cid @ '', which the contract does not declare''"
| "problem_text payload (BadResult i v) =
     ''criteria['' @ nat_str i @ ''].result must be pass|fail|blocked, got '' @ py_repr v"
| "problem_text payload (NoEvidence i cid) = ''criteria['' @ nat_str i @ ''] ('' @ cid @ '') has no evidence''"
| "problem_text payload (NotEvidence i cid e) =
     ''criteria['' @ nat_str i @ ''] ('' @ cid @ '') evidence '' @ py_repr e @ '' is not evidence''"
| "problem_text payload (Unanswered cids) = ''unanswered criteria: '' @ join '', '' cids"
| "problem_text payload (BadOverall v) =
     ''result must be one of pass, fail, blocked, needs_redefine, got '' @ py_repr v"
| "problem_text payload (Contradiction v w) =
     ''verdict says '' @ py_repr v @ '' but the per-criterion results say '' @ py_repr w"

definition ask_evaluator ::
  "engine \<Rightarrow> timestamp \<Rightarrow> (agent_request \<Rightarrow> harness_db \<Rightarrow> agent_result \<times> harness_call list) \<Rightarrow> harness_run
   \<Rightarrow> exec_contract \<Rightarrow> int \<Rightarrow> prompt \<Rightarrow> step_outcome htx" where
  \<comment> \<open>one evaluator, in a fresh session; a verdict that cannot be checked is the machinery's failure\<close>
  "ask_evaluator en now runner r c n p =
     hbind (call_runner en runner \<lparr>rq_role = EVALUATOR, rq_prompt = p, rq_run = r,
         rq_tier = tier_for (hr_mode r) EVALUATOR (max 0 (n - 1)) False, rq_session = None, rq_iteration = n\<rparr>) (\<lambda>res.
       hseq (charge_once now r p res)
        (hseq (if ar_dispatch res = None \<or> ar_newly_dispatched res
               then bump_efficiency now (hr_id r) None [(SESSIONS_SPAWNED, 1)] else hreturn ())
         (if ar_pending res then awaiting now r EVALUATOR res
          else if ar_infra_failure res then agent_failed en now r res ''evaluator failed''
          else hbind (fresh_id ''evl'') (\<lambda>i.
            case parse_verdict (en_sha en) \<lparr>vm_id = i, vm_now = now, vm_iteration = n, vm_agent = ar_agent res,
                   vm_session = ar_session res, vm_commit = hr_result_commit r\<rparr> (ar_payload res) c of
              Inl problems \<Rightarrow> record_infra_failure en now (hr_id r)
                (''malformed verdict: '' @ join ''; '' (map (problem_text (ar_payload res)) problems))
            | Inr ev \<Rightarrow> settle en now r ev n ''independent_evaluation'' True))))"

definition evaluate_with_agent ::
  "engine \<Rightarrow> timestamp \<Rightarrow> (agent_request \<Rightarrow> harness_db \<Rightarrow> agent_result \<times> harness_call list) \<Rightarrow> harness_run
   \<Rightarrow> exec_contract \<Rightarrow> int \<Rightarrow> check_result list \<Rightarrow> step_outcome htx" where
  "evaluate_with_agent en now runner r c n results =
     ask_evaluator en now runner r c n (evaluator_prompt (en_sha en) c (hr_result_commit r)
       (join PAR (map (\<lambda>k. ''$ '' @ kr_command k @ NL @ kr_output k) results)))"

definition judge_green_checks ::
  "engine \<Rightarrow> timestamp \<Rightarrow> harness_run \<Rightarrow> exec_contract \<Rightarrow> int \<Rightarrow> check_result list \<Rightarrow> step_outcome htx" where
  \<comment> \<open>every declared check passed: is that the verdict, or does an evaluator decide?\<close>
  "judge_green_checks en now r c n results =
     (case evaluator_required (hr_mode r) of (indep, why) \<Rightarrow>
       let stale = uncorroborated_criteria (en_sha en) c results in
       if stale \<noteq> [] \<and> \<not> indep
       then let because = ''declared checks passed but do not decide '' @ int_str (int (length stale)) @ '' criterion(s): ''
              @ join '', '' stale
         in hseq (bump_efficiency now (hr_id r) (Some (''evaluator escalation: '' @ because)) [])
              (case en_runner en of
                 None \<Rightarrow> hseq (ask_human now r ''ambiguous_product_decision''
                     (task_label r @ '': '' @ because @ ''. What command decides them?''))
                   (to_stage en now r BLOCKED ''uncorroborated_criteria'' (Some because) ''engine'' False)
               | Some runner \<Rightarrow> evaluate_with_agent en now runner r c n results)
       else if \<not> indep
       then hbind (verdict_from_checks en now c n results) (\<lambda>ev.
              hseq (bump_efficiency now (hr_id r) (Some (''evaluator skipped: '' @ why)) [(EVALUATOR_SKIPPED, 1)])
                (settle en now r ev n ''verified_by_declared_checks'' False))
       else (case en_runner en of
           None \<Rightarrow> hraise (HarnessError (''run '' @ hr_id r @ '' needs an independent Evaluator ('' @ why
                    @ '') but no AgentRunner is configured''))
         | Some runner \<Rightarrow> evaluate_with_agent en now runner r c n results))"

definition run_declared_checks :: "engine \<Rightarrow> harness_run \<Rightarrow> exec_contract \<Rightarrow> check_result list" where
  "run_declared_checks en r c =
     en_checks en (xc_checks c) (if nonempty (hr_worktree r) then hr_worktree r else en_root en)"

definition evaluate_step :: "engine \<Rightarrow> timestamp \<Rightarrow> harness_run \<Rightarrow> step_outcome htx" where
  "evaluate_step en now r =
     hbind (require_contract r ''evaluate'') (\<lambda>c.
       let n = iteration_of r; results = run_declared_checks en r c in
       hseq (record_artifact now (hr_id r) ''check_output'' (artifact_path r n ''checks.json'') (Some n))
        (if failed_checks results \<noteq> []
         then hbind (verdict_from_checks en now c n results) (\<lambda>ev.
                hseq (bump_efficiency now (hr_id r)
                    (Some ''evaluator skipped: a declared check failed, which is not a judgement call'')
                    [(EVALUATOR_SKIPPED, 1)])
                  (settle en now r ev n ''failed_declared_check'' False))
         else judge_green_checks en now r c n results))"

section \<open>Steps\<close>

definition idle :: "harness_run \<Rightarrow> step_outcome htx" where
  "idle r = hreturn \<lparr>so_run = hr_id r, so_from = hr_stage r, so_to = hr_stage r, so_action = ''idle'', so_llm = False,
     so_pending = False, so_projected = None\<rparr>"

definition step_run :: "engine \<Rightarrow> timestamp \<Rightarrow> harness_run \<Rightarrow> step_outcome htx" where
  "step_run en now r = (case hr_stage r of
       INIT \<Rightarrow> plan_step en now r
     | PLANNING \<Rightarrow> plan_step en now r
     | PLAN_READY \<Rightarrow> enter_build en now r
     | BUILDING \<Rightarrow> build_step en now r
     | EVALUATING \<Rightarrow> evaluate_step en now r
     | REVISING \<Rightarrow> enter_build en now r
     | FAILED_INFRA \<Rightarrow> resume en now (hr_id r)
     | RECOVERY_REQUIRED \<Rightarrow> resume en now (hr_id r)
     | CONTEXT_ROLLOVER \<Rightarrow> resume en now (hr_id r)
     | _ \<Rightarrow> idle r)"

definition step :: "engine \<Rightarrow> timestamp \<Rightarrow> string \<Rightarrow> step_outcome htx" where
  "step en now i = hbind (require_run i) (step_run en now)"

primrec drive :: "engine \<Rightarrow> string \<Rightarrow> timestamp list \<Rightarrow> step_outcome list htx" where
  \<comment> \<open>at most as many steps as there are clock readings; the callers pass 24\<close>
  "drive en i [] = hreturn []"
| "drive en i (now # nows) = hbind (step en now i) (\<lambda>so.
     if so_action so = ''idle'' \<or> outcome_done so \<or> so_pending so then hreturn [so]
     else hbind (drive en i nows) (\<lambda>sos. hreturn (so # sos)))"

definition approve_merge ::
  "engine \<Rightarrow> timestamp \<Rightarrow> string \<Rightarrow> string \<Rightarrow> (harness_run \<Rightarrow> string option) option \<Rightarrow> step_outcome htx" where
  "approve_merge en now i approved_by merge =
     hbind (require_run i) (\<lambda>r.
       if hr_stage r \<noteq> MERGE_READY
       then hraise (HarnessError (''run '' @ i @ '' is '' @ stage_name (hr_stage r) @ '', not MERGE_READY''))
       else if \<not> may_self_approve_merge (hr_authority r) \<and> startswith approved_by ''engine''
       then hraise (HarnessError (authority_name (hr_authority r)
              @ '' authority may not self-approve a merge; a human or the PM must call approve_merge''))
       else let commit = (case merge of None \<Rightarrow> None | Some m \<Rightarrow> m r) in
         hbind (if nonempty commit
                then hseq (patch_run now (hr_id r) [PResultCommit commit]) (require_run (hr_id r)) else hreturn r) (\<lambda>r1.
           to_stage en now r1 MERGED ''merged'' (Some (''approved by '' @ approved_by)) approved_by False))"

section \<open>Starting\<close>

record start_request =
  sr_task :: string
  sr_prompt :: string
  sr_title :: string
  sr_project :: "string option"
  sr_acceptance :: "string list"
  sr_checks :: "string list"
  sr_changed :: "string list"
  sr_mode :: "string option"
  sr_authority :: string
  sr_node :: "string option"
  sr_inherit_session :: "string option"
  sr_inherit_task :: "string option"
  sr_actor :: "string option"

definition start_policy ::
  "(string \<Rightarrow> string list \<Rightarrow> classification) \<Rightarrow> start_request \<Rightarrow> string list \<Rightarrow> merged_override \<Rightarrow> run_policy" where
  \<comment> \<open>the triage of the task, with the durable overrides on top\<close>
  "start_policy classify rq commands ov =
     (let pol = policy_for (classify (sr_title rq @ NL @ sr_prompt rq) (sr_changed rq))
            (if nonempty (sr_mode rq) then sr_mode rq else map_option mode_name (mo_mode ov))
            (Some (case mo_authority ov of None \<Rightarrow> sr_authority rq | Some a \<Rightarrow> authority_name a))
            (sr_acceptance rq) commands
      in case mo_max_iterations ov of
           None \<Rightarrow> pol
         | Some n \<Rightarrow> if n = 0 then pol
             else pol\<lparr>rp_max_iterations := n,
                   rp_reasons := rp_reasons pol @ [''max_iterations overridden to '' @ int_str n]\<rparr>)"

definition start ::
  "(string \<Rightarrow> bool) \<Rightarrow> (string \<Rightarrow> string list \<Rightarrow> classification) \<Rightarrow> (string \<Rightarrow> string) \<Rightarrow> timestamp \<Rightarrow> start_request
   \<Rightarrow> (harness_run \<times> bool) htx" where
  "start which classify sha now rq db =
     (case partition_checks which (sr_checks rq) of (commands, prose) \<Rightarrow>
        let pol = start_policy classify rq commands (resolve_policy_overrides (sr_project rq) (Some (sr_task rq)) db);
            digest = definition_hash sha (str_or (sr_project rq) []) (sr_task rq) (rp_mode pol) (sr_prompt rq)
              (sr_acceptance rq) commands
        in hbind (create_run now \<lparr>nr_task = sr_task rq, nr_prompt = sr_prompt rq, nr_title = sr_title rq,
               nr_project = sr_project rq, nr_policy = pol, nr_cost = cost_policy_for (rp_mode pol) 0 False None,
               nr_request_key = Some (run_request_key (str_or (sr_project rq) []) (sr_task rq) digest),
               nr_definition_hash = Some digest, nr_node = sr_node rq, nr_actor = sr_actor rq\<rparr>) (\<lambda>(r, created).
             if \<not> created then hreturn (r, False)
             else hseq (patch_run now (hr_id r) [PPolicy ((hr_policy r)\<lparr>sp_acceptance := sr_acceptance rq, sp_checks := commands,
                      sp_manual := prose, sp_changed := sr_changed rq, sp_inherited := sr_inherit_task rq\<rparr>)])
               (hseq (if nonempty (sr_inherit_session rq)
                  then hseq (patch_run now (hr_id r) [PBuilderSession (sr_inherit_session rq)])
                    (record_harness_event now (hr_id r) ''BUILDER_SESSION_INHERITED'' None (sr_inherit_session rq)
                       (Some (''same lane as '' @ py_text (sr_inherit_task rq))))
                  else hreturn ())
                (hbind (require_run (hr_id r)) (\<lambda>r1. hreturn (r1, True))))) db)"

end
