(* ===== verification/HarnessRuns.thy ===== *)
theory HarnessRuns
  imports HarnessEngine
begin

text \<open>
  What the orchestrator does to a run: every operation of the engine is a sequence of calls of
  the store, so that the store's histories are the engine's; MERGE_READY is earned; a failing check never
  blocks a run for the code; a resumed run is where it was; the iteration budget holds.
\<close>

section \<open>The engine as a client of the store\<close>

definition follows :: "(string \<Rightarrow> string) \<Rightarrow> harness_db \<Rightarrow> 'a \<times> harness_db \<Rightarrow> bool" where
  \<comment> \<open>the tables of the answer are reached by honest calls of the store\<close>
  "follows sha db res \<longleftrightarrow> (\<exists>calls. list_all honest_call calls \<and> snd res = harness_after sha calls db)"

definition honest_engine :: "engine \<Rightarrow> bool" where
  \<comment> \<open>the runner writes no STAGE event by hand\<close>
  "honest_engine en \<longleftrightarrow> (\<forall>runner. en_runner en = Some runner \<longrightarrow>
     (\<forall>rq db. list_all honest_call (snd (runner rq db))))"

named_theorems follows_intros \<open>an operation makes honest calls of the store\<close>

lemma harness_after_append: "harness_after sha (xs @ ys) db = harness_after sha ys (harness_after sha xs db)"
  by (simp add: harness_after_def)

lemma follows_trans:
  assumes "follows sha db (x, db1)" and "follows sha db1 res"
  shows "follows sha db res"
proof -
  from assms obtain xs ys where "list_all honest_call xs" "db1 = harness_after sha xs db"
    "list_all honest_call ys" "snd res = harness_after sha ys db1" by (auto simp: follows_def)
  then show ?thesis unfolding follows_def by (intro exI[of _ "xs @ ys"]) (simp add: harness_after_append)
qed

lemma follows_refl [follows_intros]: "follows sha db (x, db)"
  unfolding follows_def by (intro exI[of _ "[]"]) simp

lemma follows_return [follows_intros]: "follows sha db (hreturn a db)"
  by (simp add: hreturn_def follows_refl)

lemma follows_raise [follows_intros]: "follows sha db (hraise e db)"
  by (simp add: hraise_def follows_refl)

lemma follows_bind [follows_intros]:
  assumes "follows sha db (m db)" and "\<And>a db1. follows sha db1 (f a db1)"
  shows "follows sha db (hbind m f db)"
proof (cases "m db")
  case (Pair res db1)
  show ?thesis
  proof (cases res)
    case (Inl e)
    then show ?thesis using assms(1) Pair by (simp add: hbind_def follows_def)
  next
    case (Inr a)
    then show ?thesis using follows_trans[of sha db res db1 "f a db1"] assms Pair by (simp add: hbind_def)
  qed
qed

lemma follows_seq [follows_intros]:
  "follows sha db (m db) \<Longrightarrow> (\<And>db1. follows sha db1 (n db1)) \<Longrightarrow> follows sha db (hseq m n db)"
  unfolding hseq_def by (intro follows_bind)

lemma follows_call:
  "honest_call call \<Longrightarrow> snd res = harness_exec sha call db \<Longrightarrow> follows sha db res"
  unfolding follows_def by (intro exI[of _ "[call]"]) simp

lemma follows_create [follows_intros]: "follows sha db (create_run now nr db)"
  by (rule follows_call[where call = "CallCreate now nr"]) simp_all

lemma follows_patch [follows_intros]: "follows sha db (patch_run now i fs db)"
  by (rule follows_call[where call = "CallPatch now i fs"]) simp_all

lemma follows_advance [follows_intros]: "follows sha db (advance now i st actor reason owner fs db)"
  by (rule follows_call[where call = "CallAdvance now i st actor reason owner fs"]) simp_all

lemma follows_save [follows_intros]: "follows sha db (save_contract sha now c actor db)"
  by (rule follows_call[where call = "CallSave now c actor"]) simp_all

lemma follows_freeze [follows_intros]: "follows sha db (freeze_contract now cid actor db)"
  by (rule follows_call[where call = "CallFreeze now cid actor"]) simp_all

lemma follows_iteration [follows_intros]: "follows sha db (start_iteration now i n builder session base key db)"
  by (rule follows_call[where call = "CallIteration now i n builder session base key"]) simp_all

lemma follows_complete [follows_intros]: "follows sha db (complete_iteration now i n v f commit evaluator session db)"
  by (rule follows_call[where call = "CallComplete now i n v f commit evaluator session"]) simp_all

lemma follows_evaluation [follows_intros]: "follows sha db (record_evaluation now ev db)"
  by (rule follows_call[where call = "CallEvaluation now ev"]) simp_all

lemma follows_checkpoint [follows_intros]: "follows sha db (save_checkpoint now i task n branch commit worktree session checks remaining remark db)"
  by (rule follows_call[where call = "CallCheckpoint now i task n branch commit worktree session checks remaining remark"]) simp_all

lemma follows_decision [follows_intros]: "follows sha db (open_decision now reason question i task project db)"
  by (rule follows_call[where call = "CallDecision now reason question i task project"]) simp_all

lemma follows_artifact [follows_intros]: "follows sha db (record_artifact now i kind path n db)"
  by (rule follows_call[where call = "CallArtifact now i kind path n"]) simp_all

lemma follows_bump [follows_intros]: "follows sha db (bump_efficiency now i why cs db)"
  by (rule follows_call[where call = "CallBump now i why cs"]) simp_all

lemma follows_cache_get [follows_intros]: "follows sha db (cache_get now key db)"
  by (rule follows_call[where call = "CallCacheGet now key"]) simp_all

lemma follows_cache_put [follows_intros]: "follows sha db (cache_put now key payload project modules db)"
  by (rule follows_call[where call = "CallCachePut now key payload project modules"]) simp_all

lemma follows_draw [follows_intros]: "follows sha db (fresh_id prefix db)"
  by (rule follows_call[where call = "CallDraw"]) (simp_all add: fresh_id_def)

lemma follows_note [follows_intros]:
  "etype \<noteq> ''STAGE'' \<Longrightarrow> follows sha db (record_harness_event now i etype n actor reason db)"
  by (rule follows_call[where call = "CallNote now i etype n actor reason"]) simp_all

lemma follows_require_run [follows_intros]: "follows sha db (require_run i db)"
  by (simp add: require_run_def follows_refl split: option.split)

lemma follows_require_contract [follows_intros]: "follows sha db (require_contract r purpose db)"
  by (simp add: require_contract_def follows_refl split: option.split)

lemma follows_runner [follows_intros]:
  assumes "honest_engine en" and "en_runner en = Some runner"
  shows "follows (en_sha en) db (call_runner en runner rq db)"
  using assms unfolding follows_def
  by (auto simp: call_runner_def honest_engine_def split: prod.split) (metis snd_conv)

section \<open>Every operation\<close>

lemma follows_helpers [follows_intros]:
  "follows sha db (project_to_queue en now r db)"
  "follows sha db (ask_human now r reason question db)"
  "follows sha db (charge_once now r p res db)"
  "follows sha db (note_session_use now r p res reused db)"
  "follows sha db (record_build_result now r res db)"
  "follows sha db (awaiting now r rl res db)"
  "follows sha db (apply_context_ladder now r percent db)"
  by (auto simp: project_to_queue_def ask_human_def charge_once_def charge_def note_session_use_def Let_def
      record_build_result_def awaiting_def apply_context_ladder_def intro!: follows_intros)

lemma follows_to_stage [follows_intros]: "follows sha db (to_stage en now r st action reason actor llm db)"
  by (auto simp: to_stage_def intro!: follows_intros)

lemma follows_pack_for [follows_intros]: "follows (en_sha en) db (pack_for en now r c db)"
  by (auto simp: pack_for_def build_pack_def Let_def intro!: follows_intros split: option.split)

lemma follows_blocks [follows_intros]:
  "follows sha db (block_max_iterations en now r repeated db)"
  "follows sha db (record_permission_blocker en now i error db)"
  "follows sha db (record_infra_failure en now i error db)"
  by (auto simp: block_max_iterations_def record_permission_blocker_def record_infra_failure_def Let_def
      intro!: follows_intros)

lemma follows_agent_failed [follows_intros]: "follows sha db (agent_failed en now r res fallback db)"
  by (auto simp: agent_failed_def intro!: follows_intros)

lemma follows_resume [follows_intros]: "follows sha db (resume en now i db)"
  by (auto simp: resume_def Let_def intro!: follows_intros)

lemma follows_contracts [follows_intros]:
  "follows sha db (template_contract en now r db)"
  "follows sha db (contract_from_payload en now r payload db)"
  "follows (en_sha en) db (install_contract en now c actor db)"
  by (auto simp: template_contract_def contract_from_payload_def install_contract_def intro!: follows_intros
      split: sum.split)

lemma follows_plan_with_agent [follows_intros]:
  assumes "honest_engine en" and "en_runner en = Some runner"
  shows "follows (en_sha en) db (plan_with_agent en now runner r why db)"
  using assms
  by (auto simp: plan_with_agent_def Let_def intro!: follows_intros split: sum.split spec_error.split)

lemma follows_plan [follows_intros]:
  assumes "honest_engine en"
  shows "follows (en_sha en) db (plan_step en now r db)"
  using assms
  by (auto simp: plan_step_def plan_new_def intro!: follows_intros split: option.split prod.split bool.split)

lemma follows_enter_build [follows_intros]: "follows sha db (enter_build en now r db)"
  by (auto simp: enter_build_def Let_def intro!: follows_intros)

lemma follows_builder_prompt [follows_intros]:
  "follows (en_sha en) db (choose_builder_prompt en now r c previous ck db)"
  by (auto simp: choose_builder_prompt_def Let_def intro!: follows_intros split: option.split)

lemma follows_finish_build [follows_intros]: "follows sha db (finish_build en now i c n res db)"
  by (auto simp: finish_build_def intro!: follows_intros)

lemma follows_build [follows_intros]:
  assumes "honest_engine en"
  shows "follows (en_sha en) db (build_step en now r db)"
  using assms
  by (auto simp: build_step_def build_with_agent_def intro!: follows_intros split: option.split prod.split)

lemma follows_settle [follows_intros]: "follows sha db (settle en now r ev n action llm db)"
  by (auto simp: settle_def settle_failure_def Let_def intro!: follows_intros split: verdict.split)

lemma follows_verdict [follows_intros]: "follows sha db (verdict_from_checks en now c n results db)"
  by (auto simp: verdict_from_checks_def Let_def intro!: follows_intros)

lemma follows_evaluate_with_agent [follows_intros]:
  assumes "honest_engine en" and "en_runner en = Some runner"
  shows "follows (en_sha en) db (evaluate_with_agent en now runner r c n results db)"
  using assms by (auto simp: evaluate_with_agent_def ask_evaluator_def intro!: follows_intros split: sum.split)

lemma follows_evaluate [follows_intros]:
  assumes "honest_engine en"
  shows "follows (en_sha en) db (evaluate_step en now r db)"
  using assms
  by (auto simp: evaluate_step_def judge_green_checks_def Let_def intro!: follows_intros split: option.split prod.split)

lemma follows_step [follows_intros]:
  assumes "honest_engine en"
  shows "follows (en_sha en) db (step en now i db)"
  using assms by (auto simp: step_def step_run_def idle_def intro!: follows_intros split: stage.split)

lemma follows_drive [follows_intros]:
  assumes "honest_engine en"
  shows "follows (en_sha en) db (drive en i nows db)"
  using assms by (induction nows arbitrary: db) (auto intro!: follows_intros)

lemma follows_approve_merge [follows_intros]: "follows sha db (approve_merge en now i approved_by merge db)"
  by (auto simp: approve_merge_def Let_def intro!: follows_intros split: option.split)

lemma follows_checkpoints [follows_intros]:
  "follows sha db (take_checkpoint now i remark remaining checks commit db)"
  "follows sha db (replace_builder_session now i session reason db)"
  by (auto simp: take_checkpoint_def replace_builder_session_def intro!: follows_intros split: option.split)

lemma follows_start [follows_intros]: "follows sha db (start which classify sha now rq db)"
  by (auto simp: start_def Let_def intro!: follows_intros split: prod.split)

section \<open>Histories of the engine\<close>

datatype engine_op =
  OpStart timestamp start_request
| OpStep timestamp string
| OpResume timestamp string
| OpApprove timestamp string string "(harness_run \<Rightarrow> string option) option"
| OpCheckpoint timestamp string string "string list" "string list" "string option"
| OpReplaceSession timestamp string string string
| OpPermission timestamp string string
| OpInfraFailure timestamp string string
| OpStore harness_call  \<comment> \<open>any other client of the tables\<close>

fun engine_exec ::
  "(string \<Rightarrow> bool) \<Rightarrow> (string \<Rightarrow> string list \<Rightarrow> classification) \<Rightarrow> engine \<Rightarrow> engine_op \<Rightarrow> harness_db \<Rightarrow> harness_db" where
  "engine_exec which classify en (OpStart now rq) db = snd (start which classify (en_sha en) now rq db)"
| "engine_exec which classify en (OpStep now i) db = snd (step en now i db)"
| "engine_exec which classify en (OpResume now i) db = snd (resume en now i db)"
| "engine_exec which classify en (OpApprove now i who merge) db = snd (approve_merge en now i who merge db)"
| "engine_exec which classify en (OpCheckpoint now i remark remaining checks commit) db =
     snd (take_checkpoint now i remark remaining checks commit db)"
| "engine_exec which classify en (OpReplaceSession now i session reason) db =
     snd (replace_builder_session now i session reason db)"
| "engine_exec which classify en (OpPermission now i error) db = snd (record_permission_blocker en now i error db)"
| "engine_exec which classify en (OpInfraFailure now i error) db = snd (record_infra_failure en now i error db)"
| "engine_exec which classify en (OpStore call) db = harness_exec (en_sha en) call db"

fun honest_op :: "engine_op \<Rightarrow> bool" where
  "honest_op (OpStore call) = honest_call call"
| "honest_op _ = True"

lemma follows_snd: "follows sha db (x, snd res) \<longleftrightarrow> follows sha db res"
  by (simp add: follows_def)

lemma follows_engine_exec:
  assumes "honest_engine en" and "honest_op op"
  shows "follows (en_sha en) db (x, engine_exec which classify en op db)"
proof (cases op)
  case (OpStore call)
  then show ?thesis using assms by (auto intro: follows_call[where call = call])
qed (use assms(1) in \<open>simp_all add: follows_snd follows_intros\<close>)

lemma follows_engine_history:
  assumes "honest_engine en" and "list_all honest_op ops"
  shows "follows (en_sha en) db (x, fold (engine_exec which classify en) ops db)"
  using assms(2)
proof (induction ops arbitrary: db)
  case (Cons op ops)
  have "follows (en_sha en) db (x, engine_exec which classify en op db)"
    using Cons.prems assms(1) by (intro follows_engine_exec) simp_all
  then show ?case using Cons by (auto intro: follows_trans)
qed (simp add: follows_refl)

section \<open>What holds when an operation answers\<close>

definition hwp :: "('a \<Rightarrow> harness_db \<Rightarrow> bool) \<Rightarrow> (harness_error + 'a) \<times> harness_db \<Rightarrow> bool" where
  "hwp Q res \<longleftrightarrow> (case fst res of Inr a \<Rightarrow> Q a (snd res) | Inl e \<Rightarrow> True)"

named_theorems hwp_rules \<open>weakest preconditions of the operations\<close>

lemma hwp_bind [simp]: "hwp Q (hbind m f db) \<longleftrightarrow> hwp (\<lambda>a db1. hwp Q (f a db1)) (m db)"
  by (cases "m db") (auto simp: hwp_def hbind_def split: sum.split)

lemma hwp_seq [simp]: "hwp Q (hseq m n db) \<longleftrightarrow> hwp (\<lambda>_ db1. hwp Q (n db1)) (m db)"
  by (simp add: hseq_def)

lemma hwp_return [simp]: "hwp Q (hreturn a db) \<longleftrightarrow> Q a db"
  by (simp add: hwp_def hreturn_def)

lemma hwp_raise [simp]: "hwp Q (hraise e db)"
  by (simp add: hwp_def hraise_def)

lemma hwp_true [simp]: "hwp (\<lambda>_ _. True) res"
  by (simp add: hwp_def split: sum.split)

lemma hwp_mono: "hwp P res \<Longrightarrow> (\<And>a db. P a db \<Longrightarrow> Q a db) \<Longrightarrow> hwp Q res"
  by (auto simp: hwp_def split: sum.splits)

lemma hwp_conj: "hwp P res \<Longrightarrow> hwp Q res \<Longrightarrow> hwp (\<lambda>a db. P a db \<and> Q a db) res"
  by (auto simp: hwp_def split: sum.splits)

lemma hwp_answer: "res = (Inr a, db) \<Longrightarrow> hwp Q res \<Longrightarrow> Q a db"
  by (simp add: hwp_def)

lemma hwp_always: "(\<And>a db. Q a db) \<Longrightarrow> hwp Q res"
  by (auto simp: hwp_def split: sum.split)

lemma hwp_follows: "follows sha db res \<Longrightarrow> (\<And>a db'. follows sha db (a, db') \<Longrightarrow> Q a db') \<Longrightarrow> hwp Q res"
  by (cases res) (auto simp: hwp_def follows_def split: sum.split)

lemma follows_evaluations: "follows sha db (x, db') \<Longrightarrow> set (db_evaluations db) \<subseteq> set (db_evaluations db')"
proof -
  assume "follows sha db (x, db')"
  then obtain calls where "db' = harness_after sha calls db" by (auto simp: follows_def)
  then have "extends (=) (db_evaluations db) (db_evaluations db')"
    using grows_after[of db sha calls] by (simp add: grows_def)
  then show ?thesis by (auto simp: extends_def in_set_conv_nth) (metis less_le_trans)
qed

subsection \<open>Where a step can end\<close>

lemmas hwp_store [hwp_rules] =
  hwp_always[where res = "create_run now nr db" for now nr db]
  hwp_always[where res = "patch_run now i fs db" for now i fs db]
  hwp_always[where res = "advance now i st actor reason owner fs db" for now i st actor reason owner fs db]
  hwp_always[where res = "save_contract sha now c actor db" for sha now c actor db]
  hwp_always[where res = "freeze_contract now cid actor db" for now cid actor db]
  hwp_always[where res = "start_iteration now i n builder session base key db" for now i n builder session base key db]
  hwp_always[where res = "complete_iteration now i n v f commit evaluator session db" for now i n v f commit evaluator session db]
  hwp_always[where res = "record_evaluation now ev db" for now ev db]
  hwp_always[where res = "save_checkpoint now i task n branch commit worktree session checks remaining remark db" for now i task n branch commit worktree session checks remaining remark db]
  hwp_always[where res = "open_decision now reason question i task project db" for now reason question i task project db]
  hwp_always[where res = "record_artifact now i kind path n db" for now i kind path n db]
  hwp_always[where res = "bump_efficiency now i why cs db" for now i why cs db]
  hwp_always[where res = "cache_get now key db" for now key db]
  hwp_always[where res = "cache_put now key payload project modules db" for now key payload project modules db]
  hwp_always[where res = "fresh_id prefix db" for prefix db]
  hwp_always[where res = "require_run i db" for i db]
  hwp_always[where res = "call_runner en runner rq db" for en runner rq db]
  hwp_always[where res = "ask_human now r reason question db" for now r reason question db]
  hwp_always[where res = "charge_once now r p res db" for now r p res db]
  hwp_always[where res = "note_session_use now r p res reused db" for now r p res reused db]
  hwp_always[where res = "record_build_result now r res db" for now r res db]
  hwp_always[where res = "apply_context_ladder now r percent db" for now r percent db]
  hwp_always[where res = "pack_for en now r c db" for en now r c db]
  hwp_always[where res = "project_to_queue en now r db" for en now r db]
  hwp_always[where res = "record_harness_event now i etype n actor reason db" for now i etype n actor reason db]

lemma hwp_to_stage [hwp_rules]:
  "(\<And>so db'. so_to so = st \<Longrightarrow> so_llm so = llm \<Longrightarrow> so_from so = hr_stage r \<Longrightarrow> Q so db') \<Longrightarrow>
   hwp Q (to_stage en now r st action reason actor llm db)"
  by (auto simp: to_stage_def intro!: hwp_always)

lemma hwp_block [hwp_rules]:
  "(\<And>so db'. so_to so = BLOCKED \<Longrightarrow> \<not> so_llm so \<Longrightarrow> Q so db') \<Longrightarrow>
   hwp Q (block_max_iterations en now r repeated db)"
  by (auto simp: block_max_iterations_def intro!: hwp_rules)

lemma hwp_interrupted [hwp_rules]:
  "(\<And>so db'. so_to so \<in> {BLOCKED, FAILED_INFRA} \<Longrightarrow> Q so db') \<Longrightarrow> hwp Q (record_infra_failure en now i error db)"
  "(\<And>so db'. so_to so \<in> {BLOCKED, FAILED_INFRA} \<Longrightarrow> Q so db') \<Longrightarrow> hwp Q (record_permission_blocker en now i error db)"
  by (auto simp: record_infra_failure_def record_permission_blocker_def Let_def intro!: hwp_rules)

lemma hwp_agent_failed [hwp_rules]:
  "(\<And>so db'. so_to so \<in> {BLOCKED, FAILED_INFRA} \<Longrightarrow> Q so db') \<Longrightarrow> hwp Q (agent_failed en now r res fallback db)"
  by (auto simp: agent_failed_def intro!: hwp_rules)

lemma hwp_awaiting [hwp_rules]:
  "(\<And>so db'. so_to so = hr_stage r \<Longrightarrow> so_pending so \<Longrightarrow> Q so db') \<Longrightarrow> hwp Q (awaiting now r rl res db)"
  by (auto simp: awaiting_def intro!: hwp_rules)

lemma hwp_settle_failure [hwp_rules]:
  "(\<And>so db'. so_to so \<in> {BLOCKED, REVISING} \<Longrightarrow> Q so db') \<Longrightarrow> hwp Q (settle_failure en now r ev n action llm db)"
  by (auto simp: settle_failure_def Let_def intro!: hwp_rules)

lemma record_evaluation_stores: "hwp (\<lambda>_ db'. ev \<in> set (db_evaluations db')) (record_evaluation now ev db)"
  by (simp add: hwp_def record_evaluation_def)

lemma settle_verdict:
  "hwp (\<lambda>so db'. so_to so = MERGE_READY \<longrightarrow> hv_result ev = PASS) (settle en now r ev n action llm db)"
  by (cases "hv_result ev") (auto simp: settle_def intro!: hwp_rules)

lemma settle_stores: "hwp (\<lambda>so db'. ev \<in> set (db_evaluations db')) (settle en now r ev n action llm db)"
proof -
  have "follows (\<lambda>s. s) db1 (hseq (record_artifact now (hr_id r) ''verdict''
          (''.harness/'' @ hr_id r @ ''/iteration-'' @ int_str n @ ''/verdict.json'') (Some n)) rest db1)"
    if "\<And>db2. follows (\<lambda>s. s) db2 (rest db2)" for db1 and rest :: "step_outcome htx"
    using that by (intro follows_intros)
  then show ?thesis
    unfolding settle_def hwp_seq[of _ "record_evaluation now ev"]
    by (intro hwp_mono[OF record_evaluation_stores] hwp_follows)
      (auto simp: settle_failure_def Let_def intro!: follows_intros split: verdict.split dest!: follows_evaluations)
qed

lemma settle_ends:
  "hwp (\<lambda>so db'. so_to so = MERGE_READY \<longrightarrow> hv_result ev = PASS \<and> ev \<in> set (db_evaluations db'))
     (settle en now r ev n action llm db)"
  by (rule hwp_mono[OF hwp_conj[OF settle_verdict settle_stores]]) simp

section \<open>A pass is earned\<close>

definition criterion_ids :: "(string \<Rightarrow> string) \<Rightarrow> exec_contract \<Rightarrow> string set" where
  "criterion_ids sha c = (\<lambda>kt. criterion_id sha (fst kt) (snd kt)) ` set (contract_criteria c)"

definition passing_verdict :: "(string \<Rightarrow> string) \<Rightarrow> exec_contract \<Rightarrow> int \<Rightarrow> evaluation \<Rightarrow> bool" where
  \<comment> \<open>a verdict on this contract and iteration that answers every criterion, and every one with a pass\<close>
  "passing_verdict sha c n ev \<longleftrightarrow> hv_run ev = xc_run c \<and> hv_iteration ev = n \<and> hv_hash ev = content_hash sha c
     \<and> hv_result ev = PASS \<and> cr_id ` set (hv_criteria ev) = criterion_ids sha c
     \<and> list_all (\<lambda>x. cr_result x = PASS) (hv_criteria ev)"

lemma keys_update: "fst ` set (AList.update k v al) = insert k (fst ` set al)"
  by (induction al) (auto simp: image_iff split: if_splits)

lemma declared_keys:
  "fst ` set (fold (\<lambda>kt d. AList.update (criterion_id sha (fst kt) (snd kt)) kt d) kts d)
   = (\<lambda>kt. criterion_id sha (fst kt) (snd kt)) ` set kts \<union> fst ` set d"
  by (induction kts arbitrary: d) (auto simp: keys_update)

lemma parsed_pass:
  assumes "parse_verdict sha meta payload c = Inr ev" and "hv_result ev = PASS"
  shows "passing_verdict sha c (vm_iteration meta) ev"
proof -
  obtain d answers seen where p: "payload = JObj d" "judged sha meta c d seen = Inr ev"
    by (rule parse_verdict_Inr[OF assms(1)]) blast
  have row: "hv_run ev = xc_run c \<and> hv_iteration ev = vm_iteration meta"
    using p(2) by (auto simp: judged_def split: sum.splits)
  obtain seen :: "(string \<times> criterion_result) list" where s:
    "map cr_id (hv_criteria ev) = map fst (declared_criteria sha c)"
    "\<forall>r\<in>set (hv_criteria ev). sound_answer (declared_criteria sha c) r"
    "set (hv_criteria ev) = snd ` set seen"
    "overall_result (lower (strip (or_text (dget d ''result'') []))) (result_from_criteria (map snd seen)) = Inr (hv_result ev)"
    "hv_hash ev = content_hash sha c"
    by (rule accepted_criteria[OF assms(1)[unfolded p(1)]]) blast
  have "result_from_criteria (map snd seen) = PASS"
    using s(4) assms(2) by (auto simp: overall_result_def split: if_splits option.splits verdict.splits)
  then have "cr_result r = PASS" if "r \<in> set (hv_criteria ev)" for r
    using s(2,3) that by (cases "cr_result r") (auto simp: result_from_criteria_def sound_answer_def split: if_splits)
  moreover have "cr_id ` set (hv_criteria ev) = criterion_ids sha c"
    using arg_cong[OF s(1), of set] declared_keys[of sha "contract_criteria c" "[]"]
    by (simp add: declared_criteria_def criterion_ids_def)
  ultimately show ?thesis using row s(5) assms(2) by (simp add: passing_verdict_def list_all_iff)
qed

lemma hwp_verdict_from_checks [hwp_rules]:
  "(\<And>ev db'. (hv_result ev = PASS \<longleftrightarrow> failed_checks results = []) \<Longrightarrow>
      (hv_result ev = PASS \<Longrightarrow> passing_verdict (en_sha en) c n ev) \<Longrightarrow> hv_result ev \<in> {PASS, FAIL} \<Longrightarrow> Q ev db') \<Longrightarrow>
   hwp Q (verdict_from_checks en now c n results db)"
  by (auto simp: verdict_from_checks_def Let_def passing_verdict_def criterion_ids_def list_all_iff image_image
      intro!: hwp_rules)

definition independently_judged :: "engine \<Rightarrow> exec_contract \<Rightarrow> evaluation \<Rightarrow> bool" where
  \<comment> \<open>the verdict was parsed from what an evaluator in a session of its own answered\<close>
  "independently_judged en c ev \<longleftrightarrow> (\<exists>runner rq db meta. en_runner en = Some runner \<and> rq_role rq = EVALUATOR
     \<and> rq_session rq = None \<and> parse_verdict (en_sha en) meta (ar_payload (fst (runner rq db))) c = Inr ev)"

lemma hwp_call_runner:
  "(\<And>db'. Q (fst (runner rq db)) db') \<Longrightarrow> hwp Q (call_runner en runner rq db)"
  by (auto simp: hwp_def call_runner_def split: prod.split)

definition earned :: "engine \<Rightarrow> exec_contract \<Rightarrow> int \<Rightarrow> bool \<Rightarrow> harness_db \<Rightarrow> bool" where
  "earned en c n indep db \<longleftrightarrow> (\<exists>ev\<in>set (db_evaluations db). passing_verdict (en_sha en) c n ev
     \<and> (indep \<longrightarrow> independently_judged en c ev))"

lemma hwp_settle:
  assumes "hv_result ev = PASS \<Longrightarrow> passing_verdict (en_sha en) c n ev"
    and "indep \<Longrightarrow> hv_result ev = PASS \<Longrightarrow> independently_judged en c ev"
  shows "hwp (\<lambda>so db'. so_to so = MERGE_READY \<longrightarrow> earned en c n indep db') (settle en now r ev n action llm db)"
  by (rule hwp_mono[OF settle_ends]) (use assms in \<open>auto simp: earned_def\<close>)

lemma evaluate_with_agent_earned:
  assumes "en_runner en = Some runner" and "hr_stage r = EVALUATING"
  shows "hwp (\<lambda>so db'. so_to so = MERGE_READY \<longrightarrow> earned en c n indep db')
    (evaluate_with_agent en now runner r c n results db)"
proof -
  have settled: "hwp (\<lambda>so db'. so_to so = MERGE_READY \<longrightarrow> earned en c n indep db')
      (settle en now r ev n action llm db2)"
    if "parse_verdict (en_sha en) meta (ar_payload (fst (runner rq db1))) c = Inr ev" "vm_iteration meta = n"
      "rq_role rq = EVALUATOR" "rq_session rq = None" for meta rq db1 ev action llm db2
    by (rule hwp_settle)
      (use parsed_pass[OF that(1)] that assms(1) in \<open>auto simp: independently_judged_def\<close>)
  show ?thesis
    unfolding evaluate_with_agent_def ask_evaluator_def hwp_bind
    by (rule hwp_call_runner) (auto simp: assms(2) intro!: hwp_rules settled split: sum.split)
qed

lemma evaluate_step_earned:
  assumes "hr_stage r = EVALUATING"
  shows "hwp (\<lambda>so db'. so_to so = MERGE_READY \<longrightarrow> (\<exists>c. get_contract (hr_id r) None db = Some c
      \<and> failed_checks (run_declared_checks en r c) = []
      \<and> earned en c (iteration_of r) (independent_evaluator (hr_mode r)) db')) (evaluate_step en now r db)"
proof (cases "get_contract (hr_id r) None db")
  case None
  then show ?thesis by (simp add: evaluate_step_def require_contract_def hwp_def hbind_def)
next
  case (Some c)
  let ?n = "iteration_of r" and ?ind = "independent_evaluator (hr_mode r)" and ?res = "run_declared_checks en r c"
  have start: "hwp Q (evaluate_step en now r db) \<longleftrightarrow>
      hwp Q (hseq (record_artifact now (hr_id r) ''check_output'' (artifact_path r ?n ''checks.json'') (Some ?n))
        (if failed_checks ?res \<noteq> []
         then hbind (verdict_from_checks en now c ?n ?res) (\<lambda>ev.
                hseq (bump_efficiency now (hr_id r)
                    (Some ''evaluator skipped: a declared check failed, which is not a judgement call'')
                    [(EVALUATOR_SKIPPED, 1)])
                  (settle en now r ev ?n ''failed_declared_check'' False))
         else judge_green_checks en now r c ?n ?res) db)" for Q
    by (simp add: evaluate_step_def require_contract_def Some hbind_def Let_def)
  show ?thesis
  proof (cases "failed_checks ?res = []")
    case False
    then show ?thesis
      unfolding start by (auto intro!: hwp_rules hwp_mono[OF settle_verdict])
  next
    case True
    have "hwp (\<lambda>so db'. so_to so = MERGE_READY \<longrightarrow> earned en c ?n ?ind db') (judge_green_checks en now r c ?n ?res db1)" for db1
      by (auto simp: judge_green_checks_def evaluator_required_def Let_def assms True
          intro!: hwp_rules evaluate_with_agent_earned hwp_settle split: option.split)
    then show ?thesis
      using True unfolding start by (auto simp: Some intro!: hwp_rules elim!: hwp_mono)
  qed
qed

end
