(* ===== verification/HarnessOutcomes.thy ===== *)
theory HarnessOutcomes
  imports HarnessRuns
begin

text \<open>
  What a step of the orchestrator answers for: a MERGE_READY is earned, a failing check is the
  machine's problem, an interrupted run goes on where it was, the iteration budget is kept, and what
  goes wrong when an engine steps without the run's lease or dies between two transactions.
\<close>

section \<open>Only evaluating reaches MERGE_READY\<close>

lemma hwp_pair [simp]: "hwp Q (Inr a, db) \<longleftrightarrow> Q a db" "hwp Q (Inl e, db)"
  by (simp_all add: hwp_def)

lemma hwp_require_contract [hwp_rules]:
  "(\<And>c. get_contract (hr_id r) None db = Some c \<Longrightarrow> Q c db) \<Longrightarrow> hwp Q (require_contract r purpose db)"
  by (simp add: require_contract_def split: option.split)

lemma hwp_advance:
  "(\<And>r0 r' db'. get_run i db = Some r0 \<Longrightarrow> stage_edge (hr_stage r0) st \<Longrightarrow> hr_stage r' = st \<Longrightarrow> Q r' db') \<Longrightarrow>
   hwp Q (advance now i st actor reason owner fs db)"
  using advance_cases[of now i st actor reason owner fs db] by cases (auto simp: hwp_def)

lemmas hwp_planning =
  hwp_always[where res = "template_contract en now r db" for en now r db]
  hwp_always[where res = "install_contract en now c actor db" for en now c actor db]
  hwp_always[where res = "contract_from_payload en now r payload db" for en now r payload db]
  hwp_always[where res = "choose_builder_prompt en now r c previous ck db" for en now r c previous ck db]

lemma plan_with_agent_ends:
  assumes "hr_stage r0 \<noteq> MERGE_READY"
  shows "hwp (\<lambda>so db'. so_to so \<noteq> MERGE_READY) (plan_with_agent en now runner r0 why db)"
proof -
  have "hwp (\<lambda>r db'. hr_stage r = PLANNING) (if hr_stage r0 = PLANNING then hreturn r0 db
            else advance now (hr_id r0) PLANNING (Some ''engine'') (Some why) (en_owner en) [] db)"
    by (auto intro: hwp_advance)
  then show ?thesis
    unfolding plan_with_agent_def Let_def hwp_bind if_distrib[of "\<lambda>f. f db"]
    by (elim hwp_mono) (auto intro!: hwp_planning hwp_rules split: sum.split spec_error.split)
qed

lemma plan_step_ends:
  "hr_stage r \<noteq> MERGE_READY \<Longrightarrow> hwp (\<lambda>so db'. so_to so \<noteq> MERGE_READY) (plan_step en now r db)"
  by (auto simp: plan_step_def plan_new_def
      intro!: hwp_planning hwp_rules plan_with_agent_ends split: option.split prod.split bool.split)

lemma enter_build_ends: "hwp (\<lambda>so db'. so_to so \<noteq> MERGE_READY) (enter_build en now r db)"
  by (auto simp: enter_build_def Let_def intro!: hwp_rules)

lemma build_step_ends:
  "hr_stage r \<noteq> MERGE_READY \<Longrightarrow> hwp (\<lambda>so db'. so_to so \<noteq> MERGE_READY) (build_step en now r db)"
  by (auto simp: build_step_def build_with_agent_def finish_build_def
      intro!: hwp_planning hwp_rules split: option.split prod.split)

lemma resume_ends:
  assumes "get_run i db = Some r" and "hr_stage r \<in> {RECOVERY_REQUIRED, CONTEXT_ROLLOVER}"
  shows "hwp (\<lambda>so db'. so_to so \<noteq> MERGE_READY) (resume en now i db)"
  using assms get_run_id[OF assms(1)]
  by (auto simp: resume_def require_run_def Let_def stage_edge_def intro!: hwp_advance)

lemma step_run_ends:
  assumes "get_run i db = Some r" and "hr_id r = i" and "hr_stage r \<notin> {MERGE_READY, FAILED_INFRA, EVALUATING}"
  shows "hwp (\<lambda>so db'. so_to so \<noteq> MERGE_READY) (step_run en now r db)"
  using assms
  by (cases "hr_stage r")
    (auto simp: step_run_def idle_def intro: plan_step_ends enter_build_ends build_step_ends resume_ends)

lemma step_known: "get_run i db = Some r \<Longrightarrow> step en now i db = step_run en now r db"
  by (simp add: step_def require_run_def hbind_def)

definition earned_now :: "engine \<Rightarrow> harness_run \<Rightarrow> harness_db \<Rightarrow> harness_db \<Rightarrow> bool" where
  \<comment> \<open>the run stands in EVALUATING, its declared checks pass, and the tables then hold the verdict\<close>
  "earned_now en r db db' \<longleftrightarrow> hr_stage r = EVALUATING \<and> (\<exists>c. get_contract (hr_id r) None db = Some c
     \<and> failed_checks (run_declared_checks en r c) = []
     \<and> earned en c (iteration_of r) (independent_evaluator (hr_mode r)) db')"

lemma resume_lands:
  assumes "get_run i db = Some r"
  shows "hwp (\<lambda>so db'. so_to so = stage_to_resume r) (resume en now i db)"
  using assms get_run_id[OF assms(1)]
  by (auto simp: resume_def require_run_def Let_def hbind_def hreturn_def hwp_def split: prod.splits sum.splits)

lemma resumes_at_merge_ready:
  "stage_to_resume r = MERGE_READY \<Longrightarrow> hr_resume r = Some MERGE_READY"
  by (auto simp: stage_to_resume_def split: option.splits if_splits)

lemma step_earned:
  assumes "get_run i db = Some r" and "hr_stage r \<noteq> MERGE_READY"
  shows "hwp (\<lambda>so db'. so_to so = MERGE_READY \<longrightarrow> earned_now en r db db'
      \<or> hr_stage r = FAILED_INFRA \<and> hr_resume r = Some MERGE_READY) (step en now i db)"
proof -
  have id: "hr_id r = i" using get_run_id[OF assms(1)] by simp
  consider "hr_stage r = EVALUATING" | "hr_stage r = FAILED_INFRA" | "hr_stage r \<notin> {MERGE_READY, FAILED_INFRA, EVALUATING}"
    using assms(2) by blast
  then show ?thesis
  proof cases
    case 1
    then show ?thesis
      using evaluate_step_earned[of r] id
      by (auto simp: step_known[OF assms(1)] step_run_def earned_now_def elim: hwp_mono)
  next
    case 2
    then show ?thesis
      using resume_lands[OF assms(1), of en now] id
      by (auto simp: step_known[OF assms(1)] step_run_def elim!: hwp_mono dest!: resumes_at_merge_ready[OF sym])
  next
    case 3
    then show ?thesis
      using step_run_ends[OF assms(1) id 3, of en now]
      by (auto simp: step_known[OF assms(1)] elim!: hwp_mono)
  qed
qed

section \<open>What a failing check leads to\<close>

definition stuck_decision :: "string \<Rightarrow> harness_db \<Rightarrow> bool" where
  \<comment> \<open>a human has been asked why the run does not converge\<close>
  "stuck_decision i db \<longleftrightarrow> (\<exists>d\<in>set (db_decisions db). hd_run d = Some i \<and> hd_reason d = ''max_iterations_reached'')"

definition failed_alike :: "harness_run \<Rightarrow> evaluation \<Rightarrow> int \<Rightarrow> harness_db \<Rightarrow> bool" where
  \<comment> \<open>the verdict of the iteration before failed the same criteria on the same evidence\<close>
  "failed_alike r ev n db \<longleftrightarrow> 2 \<le> n \<and> (\<exists>previous\<in>set (db_evaluations db). hv_run previous = hr_id r
     \<and> hv_iteration previous = n - 1 \<and> hv_result previous = FAIL
     \<and> failure_signature (hv_criteria previous) = failure_signature (failed_criteria ev))"

lemma newest_in: "newest k xs = Some x \<Longrightarrow> x \<in> set xs"
  by (auto simp: newest_def split: list.splits) (metis list.set_intros(1) set_sort)

lemma latest_evaluation_in:
  "latest_evaluation run (Some k) db = Some ev \<Longrightarrow> ev \<in> set (db_evaluations db) \<and> hv_run ev = run \<and> hv_iteration ev = k"
  by (auto simp: latest_evaluation_def dest!: newest_in)

lemma repeating_alike: "repeating_itself r ev n db \<Longrightarrow> failed_alike r ev n db"
  by (auto simp: repeating_itself_def failed_alike_def split: if_splits option.splits dest: latest_evaluation_in)

lemma follows_decisions:
  assumes "follows sha db (x, db')" and "stuck_decision i db"
  shows "stuck_decision i db'"
proof -
  from assms(1) obtain calls where "db' = harness_after sha calls db" by (auto simp: follows_def)
  then have grown: "extends same_decision (db_decisions db) (db_decisions db')"
    using grows_after[of db sha calls] by (simp add: grows_def)
  from assms(2) obtain k where k: "k < length (db_decisions db)" "hd_run (db_decisions db ! k) = Some i"
      "hd_reason (db_decisions db ! k) = ''max_iterations_reached''"
    unfolding stuck_decision_def by (metis in_set_conv_nth)
  with grown have "same_decision (db_decisions db ! k) (db_decisions db' ! k)" "k < length (db_decisions db')"
    by (simp_all add: extends_def)
  then show ?thesis using k unfolding stuck_decision_def
    by (intro bexI[of _ "db_decisions db' ! k"]) (simp_all add: same_decision_def)
qed

lemma follows_alike: "follows sha db (x, db') \<Longrightarrow> failed_alike r ev n db \<Longrightarrow> failed_alike r ev n db'"
  using follows_evaluations[of sha db x db'] by (auto simp: failed_alike_def)

lemma hwp_after:
  "follows sha db res \<Longrightarrow> hwp Q res \<Longrightarrow> hwp (\<lambda>a db'. Q a db' \<and> follows sha db (a, db')) res"
  by (rule hwp_conj) (auto intro: hwp_follows)

lemma ask_stores: "hwp (\<lambda>_ db'. stuck_decision (hr_id r) db') (ask_human now r ''max_iterations_reached'' question db)"
  by (simp add: ask_human_def open_decision_def Let_def stuck_decision_def note_locked_def event_locked_def
      HUMAN_DECISION_REASONS_def)

lemma block_asks:
  "hwp (\<lambda>so db'. so_to so = BLOCKED \<and> \<not> so_llm so \<and> stuck_decision (hr_id r) db') (block_max_iterations en now r repeated db)"
proof -
  have steps: "hwp (\<lambda>so db'. (so_to so = BLOCKED \<and> \<not> so_llm so) \<and> follows (en_sha en) db1 (so, db'))
      (to_stage en now r BLOCKED action reason ''engine'' False db1)" for action reason db1
    by (intro hwp_after follows_intros hwp_rules) simp
  then show ?thesis
    unfolding block_max_iterations_def hwp_seq
    by (intro hwp_mono[OF ask_stores], cases repeated) (auto intro!: hwp_mono[OF steps] dest: follows_decisions)
qed

definition machine_problem :: "harness_run \<Rightarrow> evaluation \<Rightarrow> int \<Rightarrow> step_outcome \<Rightarrow> harness_db \<Rightarrow> bool" where
  \<comment> \<open>a failed verdict is revised, or stopped because the run does not converge\<close>
  "machine_problem r ev n so db \<longleftrightarrow> so_to so = REVISING
     \<or> so_to so = BLOCKED \<and> stuck_decision (hr_id r) db \<and> (hr_max_iterations r \<le> n \<or> failed_alike r ev n db)"

lemma settle_failure_machine:
  "hwp (machine_problem r ev n) (settle_failure en now r ev n action llm db)"
proof -
  have blocks: "hwp (\<lambda>so db'. (so_to so = BLOCKED \<and> \<not> so_llm so \<and> stuck_decision (hr_id r) db') \<and> follows (en_sha en) db1 (so, db'))
      (block_max_iterations en now r repeated db1)" for repeated db1
    by (intro hwp_after block_asks follows_intros)
  show ?thesis
    unfolding settle_failure_def hwp_seq Let_def
  proof (rule hwp_always, goal_cases)
    case (1 _ db1)
    show ?case
    proof (cases "hr_max_iterations r \<le> n")
      case True
      then show ?thesis by (auto simp: machine_problem_def intro: hwp_mono[OF blocks])
    next
      case False
      show ?thesis
      proof (cases "repeating_itself r ev n db1")
        case True
        let ?bump = "bump_efficiency now (hr_id r) (Some ''stopped early: two identical failed verdicts'') [] db1"
        have "hwp (\<lambda>a db2. True \<and> follows (en_sha en) db1 (a, db2)) ?bump"
          by (intro hwp_after follows_intros) simp
        then have "hwp (\<lambda>_ db2. failed_alike r ev n db2) ?bump"
          using repeating_alike[OF True] by (auto elim!: hwp_mono dest: follows_alike)
        then have "hwp (\<lambda>_ db2. hwp (machine_problem r ev n) (block_max_iterations en now r True db2)) ?bump"
          by (rule hwp_mono) (auto simp: machine_problem_def intro!: hwp_mono[OF blocks] dest: follows_alike)
        with False True show ?thesis by simp
      next
        case norepeat: False
        with False show ?thesis by (auto simp: machine_problem_def intro!: hwp_rules)
      qed
    qed
  qed
qed

lemma settle_failed:
  assumes "hv_result ev = FAIL"
  shows "hwp (\<lambda>so db'. \<not> so_llm so \<and> ev \<in> set (db_evaluations db') \<and> machine_problem r ev n so db')
    (settle en now r ev n action False db)"
proof -
  have "hwp (\<lambda>so db'. \<not> so_llm so) (settle en now r ev n action False db)"
    by (auto simp: settle_def settle_failure_def assms Let_def intro!: hwp_rules)
  moreover have "hwp (machine_problem r ev n) (settle en now r ev n action False db)"
    by (auto simp: settle_def assms intro!: hwp_rules settle_failure_machine)
  ultimately show ?thesis by (intro hwp_conj settle_stores)
qed

lemma failed_verdict:
  "failed_checks results \<noteq> [] \<Longrightarrow>
   hwp (\<lambda>ev db'. hv_result ev = FAIL \<and> hv_failure ev = Some PRODUCT_FAILURE \<and> hv_contract ev = xc_id c \<and> hv_iteration ev = n)
     (verdict_from_checks en now c n results db)"
  by (simp add: verdict_from_checks_def Let_def fresh_id_def)

lemma evaluate_step_failing:
  assumes "get_contract (hr_id r) None db = Some c" and "failed_checks (run_declared_checks en r c) \<noteq> []"
  shows "hwp (\<lambda>so db'. \<not> so_llm so \<and> (\<exists>ev\<in>set (db_evaluations db'). hv_contract ev = xc_id c
      \<and> hv_iteration ev = iteration_of r \<and> hv_result ev = FAIL \<and> hv_failure ev = Some PRODUCT_FAILURE
      \<and> machine_problem r ev (iteration_of r) so db')) (evaluate_step en now r db)"
  using assms
  by (simp add: evaluate_step_def require_contract_def Let_def)
    (intro hwp_rules hwp_mono[OF failed_verdict] hwp_mono[OF settle_failed]; auto)

lemma blind_to_runner:
  "project_to_queue (en\<lparr>en_runner := runner\<rparr>) = project_to_queue en"
  "to_stage (en\<lparr>en_runner := runner\<rparr>) = to_stage en"
  "block_max_iterations (en\<lparr>en_runner := runner\<rparr>) = block_max_iterations en"
  "settle_failure (en\<lparr>en_runner := runner\<rparr>) = settle_failure en"
  "settle (en\<lparr>en_runner := runner\<rparr>) = settle en"
  "verdict_from_checks (en\<lparr>en_runner := runner\<rparr>) = verdict_from_checks en"
  "run_declared_checks (en\<lparr>en_runner := runner\<rparr>) = run_declared_checks en"
proof -
  show p: "project_to_queue (en\<lparr>en_runner := runner\<rparr>) = project_to_queue en"
    by (intro ext) (simp add: project_to_queue_def)
  show t: "to_stage (en\<lparr>en_runner := runner\<rparr>) = to_stage en"
    by (intro ext) (simp add: to_stage_def p)
  show b: "block_max_iterations (en\<lparr>en_runner := runner\<rparr>) = block_max_iterations en"
    by (intro ext) (simp only: block_max_iterations_def t)
  show f: "settle_failure (en\<lparr>en_runner := runner\<rparr>) = settle_failure en"
    by (intro ext) (simp only: settle_failure_def t b)
  show "settle (en\<lparr>en_runner := runner\<rparr>) = settle en"
    by (intro ext) (simp only: settle_def t f)
qed (simp_all add: fun_eq_iff verdict_from_checks_def run_declared_checks_def)

lemma evaluate_step_runner:
  assumes "get_contract (hr_id r) None db = Some c" and "failed_checks (run_declared_checks en r c) \<noteq> []"
  shows "evaluate_step (en\<lparr>en_runner := runner\<rparr>) now r db = evaluate_step en now r db"
  using assms by (simp add: evaluate_step_def require_contract_def Let_def blind_to_runner hbind_def)

section \<open>Interruption and resumption\<close>

definition same_place :: "harness_run \<Rightarrow> harness_run \<Rightarrow> bool" where
  \<comment> \<open>the work is where it was: stage, iteration, branch, worktree, commits, session, contract, spending\<close>
  "same_place r r' \<longleftrightarrow> hr_id r' = hr_id r \<and> hr_stage r' = hr_stage r \<and> hr_status r' = Active \<and> hr_iteration r' = hr_iteration r
     \<and> hr_max_iterations r' = hr_max_iterations r \<and> hr_branch r' = hr_branch r \<and> hr_worktree r' = hr_worktree r
     \<and> hr_base_commit r' = hr_base_commit r \<and> hr_result_commit r' = hr_result_commit r
     \<and> hr_builder_session r' = hr_builder_session r \<and> hr_contract r' = hr_contract r
     \<and> hr_contract_hash r' = hr_contract_hash r \<and> hr_resume r' = hr_resume r \<and> hr_tokens r' = hr_tokens r"

definition same_work :: "harness_db \<Rightarrow> harness_db \<Rightarrow> bool" where
  \<comment> \<open>no iteration, verdict, contract, checkpoint or question is added or touched\<close>
  "same_work db db' \<longleftrightarrow> db_iterations db' = db_iterations db \<and> db_evaluations db' = db_evaluations db
     \<and> db_contracts db' = db_contracts db \<and> db_checkpoints db' = db_checkpoints db \<and> db_decisions db' = db_decisions db"

declare get_run_update [simp]

lemma get_run_event [simp]: "get_run i (event_locked now run etype f t n a w db) = get_run i db"
  by (simp add: get_run_def)

lemma same_work_simps [simp]:
  "same_work db db"
  "same_work db (event_locked now run etype f t n a w db') \<longleftrightarrow> same_work db db'"
  "same_work db (update_run i g db') \<longleftrightarrow> same_work db db'"
  by (simp_all add: same_work_def event_locked_def update_run_def)

lemma same_work_trans: "same_work a b \<Longrightarrow> same_work b c \<Longrightarrow> same_work a c"
  by (simp add: same_work_def)

lemma stage_patch_allowed [simp]: "List.map_filter off_allowlist (stage_patch now r st reason []) = []"
  by (simp add: stage_patch_def set_default_def Let_def List.map_filter_simps)

lemma stage_patch_keeps [simp]:
  "hr_id (fold patch_field (stage_patch now r st reason []) x) = hr_id x"
  "hr_iteration (fold patch_field (stage_patch now r st reason []) x) = hr_iteration x"
  "hr_max_iterations (fold patch_field (stage_patch now r st reason []) x) = hr_max_iterations x"
  "hr_branch (fold patch_field (stage_patch now r st reason []) x) = hr_branch x"
  "hr_worktree (fold patch_field (stage_patch now r st reason []) x) = hr_worktree x"
  "hr_base_commit (fold patch_field (stage_patch now r st reason []) x) = hr_base_commit x"
  "hr_result_commit (fold patch_field (stage_patch now r st reason []) x) = hr_result_commit x"
  "hr_builder_session (fold patch_field (stage_patch now r st reason []) x) = hr_builder_session x"
  "hr_contract (fold patch_field (stage_patch now r st reason []) x) = hr_contract x"
  "hr_contract_hash (fold patch_field (stage_patch now r st reason []) x) = hr_contract_hash x"
  "hr_tokens (fold patch_field (stage_patch now r st reason []) x) = hr_tokens x"
  "hr_authority (fold patch_field (stage_patch now r st reason []) x) = hr_authority x"
  "hr_infra_failures (fold patch_field (stage_patch now r st reason []) x) = hr_infra_failures x"
  "hr_lease_owner (fold patch_field (stage_patch now r st reason []) x) = hr_lease_owner x"
  "hr_lease_expires (fold patch_field (stage_patch now r st reason []) x) = hr_lease_expires x"
  "hr_resume (fold patch_field (stage_patch now r st reason []) x)
     = (if st \<in> set RESUMABLE_STAGES then Some st else hr_resume x)"
  by (simp_all add: stage_patch_def set_default_def Let_def)

lemma enter_stage_keeps [simp]:
  "hr_iteration (enter_stage now st x) = hr_iteration x" "hr_max_iterations (enter_stage now st x) = hr_max_iterations x"
  "hr_branch (enter_stage now st x) = hr_branch x" "hr_worktree (enter_stage now st x) = hr_worktree x"
  "hr_base_commit (enter_stage now st x) = hr_base_commit x" "hr_result_commit (enter_stage now st x) = hr_result_commit x"
  "hr_builder_session (enter_stage now st x) = hr_builder_session x" "hr_contract (enter_stage now st x) = hr_contract x"
  "hr_contract_hash (enter_stage now st x) = hr_contract_hash x" "hr_tokens (enter_stage now st x) = hr_tokens x"
  "hr_authority (enter_stage now st x) = hr_authority x" "hr_infra_failures (enter_stage now st x) = hr_infra_failures x"
  "hr_resume (enter_stage now st x) = hr_resume x"
  by (simp_all add: enter_stage_def)

definition moved :: "timestamp \<Rightarrow> stage \<Rightarrow> string option \<Rightarrow> harness_run \<Rightarrow> harness_run" where
  \<comment> \<open>the row \<open>advance\<close> leaves behind\<close>
  "moved now st reason r = (let patch = stage_patch now r st reason []
     in enter_stage now st (if patch = [] then r else patch_fields now patch r))"

lemma moved_keeps [simp]:
  "hr_id (moved now st reason r) = hr_id r" "hr_stage (moved now st reason r) = st"
  "hr_status (moved now st reason r) = (if stage_terminal st then Terminal else Active)"
  "hr_iteration (moved now st reason r) = hr_iteration r" "hr_max_iterations (moved now st reason r) = hr_max_iterations r"
  "hr_branch (moved now st reason r) = hr_branch r" "hr_worktree (moved now st reason r) = hr_worktree r"
  "hr_base_commit (moved now st reason r) = hr_base_commit r" "hr_result_commit (moved now st reason r) = hr_result_commit r"
  "hr_builder_session (moved now st reason r) = hr_builder_session r" "hr_contract (moved now st reason r) = hr_contract r"
  "hr_contract_hash (moved now st reason r) = hr_contract_hash r" "hr_tokens (moved now st reason r) = hr_tokens r"
  "hr_lease_owner (moved now st reason r) = hr_lease_owner r" "hr_lease_expires (moved now st reason r) = hr_lease_expires r"
  "hr_authority (moved now st reason r) = hr_authority r" "hr_infra_failures (moved now st reason r) = hr_infra_failures r"
  by (simp_all add: moved_def Let_def patch_fields_def)

lemma moved_resume [simp]:
  "hr_resume (moved now st reason r) = (if st \<in> set RESUMABLE_STAGES then Some st else hr_resume r)"
proof (cases "st \<in> set RESUMABLE_STAGES")
  case True
  then have "stage_patch now r st reason [] \<noteq> []" by (simp add: stage_patch_def set_default_def Let_def)
  with True show ?thesis by (simp add: moved_def Let_def patch_fields_def)
qed (simp add: moved_def Let_def patch_fields_def)

lemma advanced_run:
  assumes "get_run i db = Some r" and "\<not> lease_refused now owner r" and "stage_edge (hr_stage r) st"
  shows "\<exists>db1. advance now i st actor reason owner [] db = (Inr (moved now st reason r), db1)
    \<and> get_run i db1 = Some (moved now st reason r) \<and> same_work db db1"
  using assms
  by (cases "stage_patch now r st reason [] = []")
    (auto simp: advance_def moved_def Let_def apply_patch_locked_def option.map_comp)

definition same_row :: "harness_run \<Rightarrow> harness_run \<Rightarrow> bool" where
  \<comment> \<open>but for the shadow label and the time of the last write\<close>
  "same_row r r' \<longleftrightarrow> r'\<lparr>hr_shadow := None, hr_updated := 0\<rparr> = r\<lparr>hr_shadow := None, hr_updated := 0\<rparr>"

lemma same_row_fields:
  assumes "same_row r r'"
  shows "hr_id r' = hr_id r" "hr_stage r' = hr_stage r" "hr_status r' = hr_status r" "hr_iteration r' = hr_iteration r"
    "hr_max_iterations r' = hr_max_iterations r" "hr_branch r' = hr_branch r" "hr_worktree r' = hr_worktree r"
    "hr_base_commit r' = hr_base_commit r" "hr_result_commit r' = hr_result_commit r"
    "hr_builder_session r' = hr_builder_session r" "hr_contract r' = hr_contract r"
    "hr_contract_hash r' = hr_contract_hash r" "hr_resume r' = hr_resume r" "hr_tokens r' = hr_tokens r"
    "hr_lease_owner r' = hr_lease_owner r" "hr_lease_expires r' = hr_lease_expires r"
  using assms by (cases r; cases r'; simp add: same_row_def)+

lemma projected_run:
  assumes "get_run (hr_id r) db = Some r"
  shows "\<exists>p db1 r1. project_to_queue en now r db = (Inr p, db1) \<and> get_run (hr_id r) db1 = Some r1 \<and> same_row r r1
    \<and> same_work db db1"
proof -
  have same: "same_row r r" "same_row r (patch_fields now [PShadow sh] r)" for sh
    by (simp_all add: same_row_def patch_fields_def)
  show ?thesis
    using assms same
    by (auto simp: project_to_queue_def patch_run_def apply_patch_locked_def List.map_filter_simps hseq_def hbind_def hreturn_def)
qed

lemma staged_run:
  assumes "get_run (hr_id r) db = Some r" and "\<not> lease_refused now (en_owner en) r" and "stage_edge (hr_stage r) st"
  shows "\<exists>so db1 r1. to_stage en now r st action reason actor llm db = (Inr so, db1) \<and> so_to so = st
    \<and> get_run (hr_id r) db1 = Some r1 \<and> same_row (moved now st reason r) r1 \<and> same_work db db1"
proof -
  obtain db1 where db1: "advance now (hr_id r) st (Some actor) reason (en_owner en) [] db = (Inr (moved now st reason r), db1)"
      "get_run (hr_id r) db1 = Some (moved now st reason r)" "same_work db db1"
    using advanced_run[OF assms] by blast
  obtain p db2 r1 where "project_to_queue en now (moved now st reason r) db1 = (Inr p, db2)"
      "get_run (hr_id r) db2 = Some r1" "same_row (moved now st reason r) r1" "same_work db1 db2"
    using projected_run[of "moved now st reason r" db1 en now] db1(2) by auto
  moreover have "hr_stage r \<noteq> st" using assms(3) by (cases st) (auto simp: stage_edge_def)
  ultimately show ?thesis using db1 same_work_trans[OF db1(3)] by (simp add: to_stage_def hbind_def hreturn_def)
qed

lemma resumed_run:
  assumes "get_run i db = Some r" and "\<not> lease_refused now (en_owner en) r" and "hr_stage r = FAILED_INFRA"
  shows "\<exists>so db1 reason. step en now i db = (Inr so, db1) \<and> so_to so = stage_to_resume r
    \<and> get_run i db1 = Some (moved now (stage_to_resume r) reason r) \<and> same_work db db1"
proof -
  have id: "hr_id r = i" using get_run_id[OF assms(1)] by simp
  define why where "why = Some (''resumed at '' @ stage_name (stage_to_resume r) @ '' from checkpoint ''
      @ (case latest_checkpoint i db of None \<Rightarrow> ''(none)'' | Some k \<Rightarrow> str_or (Some (ck_id k)) ''(none)''))"
  have "stage_edge FAILED_INFRA (stage_to_resume r)"
    by (auto simp: stage_to_resume_def stage_edge_def RESUMABLE_STAGES_def split: option.split)
  then obtain db1 where "advance now i (stage_to_resume r) (Some ''engine'') why (en_owner en) [] db
      = (Inr (moved now (stage_to_resume r) why r), db1)"
      "get_run i db1 = Some (moved now (stage_to_resume r) why r)" "same_work db db1"
    using advanced_run[OF assms(1,2), of "stage_to_resume r" "Some ''engine''" why] assms(3) by auto
  then show ?thesis using assms id
    by (auto simp: step_known[OF assms(1)] step_run_def resume_def require_run_def hbind_def hreturn_def Let_def
        why_def)
qed

lemma failed_run:
  assumes "get_run i db = Some r" and "\<not> lease_refused now (en_owner en) r"
    and "hr_stage r \<in> {PLANNING, PLAN_READY, BUILDING, EVALUATING, REVISING}"
    and "hr_infra_failures r + 1 < INFRA_FAILURE_ESCALATION_THRESHOLD"
  shows "\<exists>so db1 r1. record_infra_failure en now i error db = (Inr so, db1) \<and> so_to so = FAILED_INFRA
    \<and> get_run i db1 = Some r1 \<and> same_row (moved now FAILED_INFRA (Some error)
        (patch_fields now [PInfraFailures (hr_infra_failures r + 1), PLastError (Some error)] r)) r1 \<and> same_work db db1"
proof -
  let ?fs = "[PInfraFailures (hr_infra_failures r + 1), PLastError (Some error)]"
  let ?r = "patch_fields now ?fs r" and ?db = "update_run i (patch_fields now ?fs) db"
  have id: "hr_id r = i" using get_run_id[OF assms(1)] by simp
  have "stage_edge (hr_stage r) FAILED_INFRA" using assms(3) by (auto simp: stage_edge_def)
  moreover have "\<not> lease_refused now (en_owner en) ?r"
    using assms(2) by (simp add: lease_refused_def run_lease_live_def patch_fields_def)
  ultimately have "\<exists>so db1 r1. to_stage en now ?r FAILED_INFRA ''infra_failure'' (Some error) ''engine'' False ?db = (Inr so, db1)
      \<and> so_to so = FAILED_INFRA \<and> get_run i db1 = Some r1 \<and> same_row (moved now FAILED_INFRA (Some error) ?r) r1
      \<and> same_work ?db db1"
    using staged_run[of ?r ?db now en FAILED_INFRA] assms(1) id by (simp add: patch_fields_def)
  then show ?thesis
    using assms(1,4)
    by (auto simp: record_infra_failure_def require_run_def hbind_def Let_def patch_run_def apply_patch_locked_def
        List.map_filter_simps) (auto simp: same_work_def update_run_def)
qed

section \<open>Iterations\<close>

lemma get_run_others [simp]:
  "get_run i (db\<lparr>db_iterations := its\<rparr>) = get_run i db" "get_run i (drawn db) = get_run i db"
  "get_run i (db\<lparr>db_efficiency := es\<rparr>) = get_run i db"
  by (simp_all add: get_run_def drawn_def)

definition no_iteration :: "harness_db \<Rightarrow> harness_db \<Rightarrow> bool" where
  "no_iteration db db' \<longleftrightarrow> db_iterations db' = db_iterations db"

lemma no_iteration_advance: "hwp (\<lambda>_ db'. no_iteration db db') (advance now i st actor reason owner fs db)"
  using advance_cases[of now i st actor reason owner fs db]
  by cases (auto simp: no_iteration_def event_locked_def update_run_def)

lemma no_iteration_patch: "hwp (\<lambda>_ db'. no_iteration db db') (patch_run now i fs db)"
  by (auto simp: patch_run_def apply_patch_locked_def no_iteration_def update_run_def split: option.split list.split)

lemma no_iteration_ask: "hwp (\<lambda>_ db'. no_iteration db db') (ask_human now r reason question db)"
  by (auto simp: ask_human_def open_decision_def Let_def no_iteration_def note_locked_def event_locked_def drawn_def)

lemma no_iteration_stage: "hwp (\<lambda>_ db'. no_iteration db db') (to_stage en now r st action reason actor llm db)"
proof -
  have "hwp (\<lambda>_ db'. no_iteration db db') (project_to_queue en now r1 db1)" if "no_iteration db db1" for r1 db1
    using that
    by (auto simp: project_to_queue_def no_iteration_def[of db] intro!: hwp_mono[OF no_iteration_patch])
      (simp add: no_iteration_def)
  then show ?thesis
    by (auto simp: to_stage_def no_iteration_def[of db db] intro!: hwp_mono[OF no_iteration_advance])
qed

lemma block_no_iteration: "hwp (\<lambda>_ db'. no_iteration db db') (block_max_iterations en now r repeated db)"
  unfolding block_max_iterations_def hwp_seq
  by (intro hwp_mono[OF no_iteration_ask] hwp_mono[OF no_iteration_stage]) (simp add: no_iteration_def)

lemma follows_iteration_found:
  assumes "follows sha db (x, db')" and "find_iteration i n db = Some it"
  shows "\<exists>it'. find_iteration i n db' = Some it'"
proof -
  from assms(1) obtain calls where db': "db' = harness_after sha calls db" by (auto simp: follows_def)
  show ?thesis
    using find_row_extends[OF assms(2)[unfolded find_iteration_def] extends_after(3)[of db sha calls]]
    by (auto simp: db' find_iteration_def same_iteration_def)
qed

lemma iteration_opened:
  "hwp (\<lambda>so db'. so_to so = BUILDING \<and> (\<exists>it. find_iteration (hr_id r) n db' = Some it))
     (hseq (start_iteration now (hr_id r) n builder session base key)
       (hbind (require_run (hr_id r)) (\<lambda>r1. to_stage en now r1 BUILDING ''iteration_opened'' None ''engine'' False)) db)"
proof -
  have started: "hwp (\<lambda>_ db1. \<exists>it. find_iteration (hr_id r) n db1 = Some it)
      (start_iteration now (hr_id r) n builder session base key db)"
    using start_iteration_row[of now "hr_id r" n builder session base key db] by (auto simp: hwp_def split: sum.split)
  have opened: "hwp (\<lambda>so db'. so_to so = BUILDING \<and> follows (en_sha en) db1 (so, db'))
      (hbind (require_run (hr_id r)) (\<lambda>r1. to_stage en now r1 BUILDING ''iteration_opened'' None ''engine'' False) db1)" for db1
    by (intro hwp_after follows_intros) (auto intro!: hwp_rules)
  show ?thesis
    unfolding hwp_seq
    by (rule hwp_mono[OF started], rule hwp_mono[OF opened]) (auto dest: follows_iteration_found)
qed

lemma enter_build_budget:
  "hwp (\<lambda>so db'. if hr_max_iterations r \<le> hr_iteration r
        then so_to so = BLOCKED \<and> stuck_decision (hr_id r) db' \<and> db_iterations db' = db_iterations db
        else so_to so = BUILDING \<and> (\<exists>it. find_iteration (hr_id r) (hr_iteration r + 1) db' = Some it))
     (enter_build en now r db)"
  unfolding enter_build_def Let_def hwp_bind
  by (intro hwp_rules) (auto intro!: hwp_mono[OF hwp_conj[OF block_asks block_no_iteration]] hwp_mono[OF iteration_opened]
      simp: no_iteration_def simp del: hwp_seq hwp_bind)

section \<open>The template\<close>

lemma normalise_jstrs [simp]: "normalise_values (jstrs xs) = Inr (nonblank xs)"
  by (cases xs) (simp_all add: normalise_values_def jstrs_def nonblank_def comp_def)

lemma normalise_missing [simp]: "normalise_values JNull = Inr []"
  by (simp add: normalise_values_def)

definition sufficient :: "harness_run \<Rightarrow> bool" where
  "sufficient r \<longleftrightarrow> strip (scope_text r) \<noteq> [] \<and> nonblank (sp_acceptance (hr_policy r)) \<noteq> [] \<and> nonblank (sp_checks (hr_policy r)) \<noteq> []"

lemma template_cases:
  obtains (refused) ms where "\<not> sufficient r"
    "template_contract en now r db = (Inl (ContractRefused (InsufficientSpecification ms)), drawn db)"
  | (built) c where "sufficient r" "template_contract en now r db = (Inr c, drawn db)" "xc_run c = hr_id r" "xc_version c = 1"
proof (cases "sufficient r")
  case True
  then have "\<exists>c. template_contract en now r db = (Inr c, drawn db) \<and> xc_run c = hr_id r \<and> xc_version c = 1"
    by (simp add: template_contract_def fresh_id_def hbind_def hreturn_def build_contract_def SEQUENCE_FIELDS_def
        lift_error_def and_then_def dget_def missing_parts_def sufficient_def Let_def)
  with True show ?thesis using that(2) by blast
next
  case False
  then have "\<exists>ms. template_contract en now r db = (Inl (ContractRefused (InsufficientSpecification ms)), drawn db)"
    by (auto simp: template_contract_def fresh_id_def hbind_def hraise_def build_contract_def SEQUENCE_FIELDS_def
        lift_error_def and_then_def dget_def missing_parts_def sufficient_def Let_def)
  with False show ?thesis using that(1) by blast
qed

lemma hbind_total:
  "hbind (record_artifact now run kind path n) f db = f (projr (fst (record_artifact now run kind path n db))) (snd (record_artifact now run kind path n db))"
  "hbind (bump_efficiency now run why cs) g db = g () (snd (bump_efficiency now run why cs db))"
  by (simp_all add: hbind_def record_artifact_def bump_efficiency_def Let_def)

lemma hbind_known:
  "get_contract (hr_id r) None db = Some c \<Longrightarrow> hbind (require_contract r purpose) f db = f c db"
  by (simp add: hbind_def require_contract_def)

lemma unnamed_claim_stale:
  assumes "kt \<in> set (contract_criteria c)" and "literals (snd kt) \<noteq> []"
    and "\<not> list_ex (claim_met (lower (join NL (map kr_output results)))) (literals (snd kt))"
  shows "uncorroborated_criteria sha c results \<noteq> []"
  using assms by (simp add: uncorroborated_criteria_def Let_def filter_empty_conv) blast

lemma named_claim_escalates:
  assumes "kt \<in> set (contract_criteria c)" and "literals (snd kt) \<noteq> []"
    and "\<not> list_ex (claim_met (lower (join NL (map kr_output results)))) (literals (snd kt))"
    and "hr_stage r = EVALUATING"
  shows "hwp (\<lambda>so db'. so_to so = MERGE_READY \<longrightarrow> earned en c n True db') (judge_green_checks en now r c n results db)"
proof -
  have stale: "uncorroborated_criteria (en_sha en) c results \<noteq> []"
    by (rule unnamed_claim_stale[OF assms(1-3)])
  show ?thesis
    by (auto simp: judge_green_checks_def evaluator_required_def Let_def assms(4) stale
        intro!: hwp_rules evaluate_with_agent_earned split: option.split)
qed

lemma get_contract_stored:
  "get_contract i None db = Some c \<Longrightarrow> \<exists>x\<in>set (db_contracts db). xc_run x = i \<and> xc_version x = xc_version c"
  by (auto simp: get_contract_def exec_contract.truncate_def dest!: newest_in)

lemma history_ok_replays:
  "history_ok db \<Longrightarrow> r \<in> set (db_runs db) \<Longrightarrow> replay INIT (stage_log (hr_id r) db) = Some (hr_stage r)"
  by (force simp: history_ok_def log_view_ok_def stage_view_def stage_log_def conj_commute)

lemma drawn_contracts: "db_contracts (drawn db) = db_contracts db"
  by (simp add: drawn_def)

lemma bump_quiet:
  "map_of cs PROMPT_TOKENS_ESTIMATE = None \<Longrightarrow>
   \<exists>db1. bump_efficiency now i why cs db = (Inr (), db1) \<and> get_run j db1 = get_run j db \<and> db_contracts db1 = db_contracts db"
  by (simp add: bump_efficiency_def Let_def ensure_efficiency_def)

section \<open>Properties\<close>

text \<open>
  C4: The orchestrator writes through the store alone. Any sequence of its operations and of other clients'
  store calls on the empty tables, with a runner that writes no STAGE event by hand, leaves the tables
  some sequence of honest store calls leaves, so that every run's event log replays to the stage of
  its row.
\<close>

theorem engine_refines_store:
  assumes "honest_engine en" and "list_all honest_op ops"
  shows "\<exists>calls. list_all honest_call calls
    \<and> fold (engine_exec which classify en) ops empty_db = harness_after (en_sha en) calls empty_db
    \<and> (\<forall>r\<in>set (db_runs (fold (engine_exec which classify en) ops empty_db)).
         replay INIT (stage_log (hr_id r) (fold (engine_exec which classify en) ops empty_db)) = Some (hr_stage r))"
proof -
  obtain calls where calls: "list_all honest_call calls"
      "fold (engine_exec which classify en) ops empty_db = harness_after (en_sha en) calls empty_db"
    using follows_engine_history[OF assms, where x = "()" and db = empty_db and which = which and classify = classify]
    by (auto simp: follows_def)
  have "history_ok (harness_after (en_sha en) calls empty_db)"
    by (rule history_ok_after[OF history_ok_empty calls(1)])
  then show ?thesis using calls history_ok_replays by (intro exI[of _ calls]) simp
qed

text \<open>
  C13: MERGE_READY is earned. A step that brings a run to MERGE_READY, where it was not, has evaluated it, from
  EVALUATING: every declared check of the newest contract passed, and the tables hold a verdict on
  that contract and iteration that answers every criterion with a pass; in a mode with an independent
  evaluator that verdict was parsed from what an evaluator in a session of its own answered. The one other way
  is the return of a run that stands in FAILED_INFRA to the stage on record as the one it was interrupted
  in: when that is MERGE_READY, it is entered again without a check and without a verdict.
\<close>

theorem merge_ready_is_earned:
  assumes "get_run i db = Some r" and "hr_stage r \<noteq> MERGE_READY"
    and "step en now i db = (Inr so, db')" and "so_to so = MERGE_READY"
  shows "(hr_stage r = EVALUATING \<and> (\<exists>c. get_contract i None db = Some c
      \<and> failed_checks (run_declared_checks en r c) = []
      \<and> earned en c (iteration_of r) (independent_evaluator (hr_mode r)) db'))
    \<or> (hr_stage r = FAILED_INFRA \<and> hr_resume r = Some MERGE_READY)"
  using hwp_answer[OF assms(3) step_earned[OF assms(1)]] assms(2,4) get_run_id[OF assms(1)]
  by (simp add: earned_now_def)

text \<open>
  C14: A failing check is the machine's problem. When a declared check fails, the step records a product
  failure for the iteration and asks no model: it gives the same result whatever the runner is. The run
  goes on revising, or it is blocked because the iterations are used up or the last two verdicts
  failed alike, and then a human is asked why it does not converge.
\<close>

theorem failing_check_revises:
  assumes "get_run i db = Some r" and "hr_stage r = EVALUATING" and "get_contract i None db = Some c"
    and "failed_checks (run_declared_checks en r c) \<noteq> []" and "step en now i db = (Inr so, db')"
  shows "step (en\<lparr>en_runner := runner\<rparr>) now i db = (Inr so, db') \<and> \<not> so_llm so
    \<and> (\<exists>ev\<in>set (db_evaluations db'). hv_contract ev = xc_id c \<and> hv_iteration ev = iteration_of r
         \<and> hv_result ev = FAIL \<and> hv_failure ev = Some PRODUCT_FAILURE
         \<and> (so_to so = REVISING \<or> so_to so = BLOCKED \<and> stuck_decision i db'
              \<and> (hr_max_iterations r \<le> iteration_of r \<or> failed_alike r ev (iteration_of r) db')))"
proof -
  have id: "hr_id r = i" using get_run_id[OF assms(1)] by simp
  have run: "step e now i db = evaluate_step e now r db" for e
    using assms(2) by (simp add: step_known[OF assms(1)] step_run_def)
  show ?thesis
    using hwp_answer[OF assms(5)[unfolded run] evaluate_step_failing] evaluate_step_runner[of r db c en runner now] assms(3-5)
    by (auto simp: run id machine_problem_def)
qed

text \<open>
  C15: A green check does not decide what it does not name. When a criterion of the contract names versions or
  hashes and the output of the declared checks meets none of them, the run becomes MERGE_READY only
  on the verdict of an evaluator in a session of its own, in every mode.
\<close>

theorem unnamed_claim_needs_evaluator:
  assumes "get_run i db = Some r" and "hr_stage r = EVALUATING" and "get_contract i None db = Some c"
    and "kt \<in> set (contract_criteria c)" and "literals (snd kt) \<noteq> []"
    and "\<not> list_ex (claim_met (lower (join NL (map kr_output (run_declared_checks en r c))))) (literals (snd kt))"
    and "step en now i db = (Inr so, db')" and "so_to so = MERGE_READY"
  shows "earned en c (iteration_of r) True db'"
proof -
  have id: "hr_id r = i" using get_run_id[OF assms(1)] by simp
  have step: "evaluate_step en now r db = (Inr so, db')"
    using assms(2,7) by (simp add: step_known[OF assms(1)] step_run_def)
  have "hwp (\<lambda>so db'. so_to so = MERGE_READY \<longrightarrow> earned en c (iteration_of r) True db') (evaluate_step en now r db)"
  proof (cases "failed_checks (run_declared_checks en r c) = []")
    case True
    then show ?thesis using assms(3)
      by (simp add: evaluate_step_def require_contract_def id Let_def)
        (intro hwp_rules named_claim_escalates[OF assms(4,5,6,2)])
  next
    case False
    then show ?thesis
      using assms(3) by (auto simp: id machine_problem_def intro!: hwp_mono[OF evaluate_step_failing])
  qed
  from hwp_answer[OF step this] show ?thesis using assms(8) by simp
qed

text \<open>
  C19: An interrupted run goes on where it was. When the machinery fails in an active stage, below the
  escalation threshold, the next step brings the run back to that stage with the same iteration, branch,
  worktree, commits, session, contract and spending, and no iteration, verdict, contract, checkpoint or
  question has been added.
\<close>

theorem interrupted_run_resumes_in_place:
  assumes "get_run i db = Some r" and "hr_stage r \<in> {PLANNING, PLAN_READY, BUILDING, EVALUATING, REVISING}"
    and "hr_resume r = Some (hr_stage r)" and "hr_infra_failures r + 1 < INFRA_FAILURE_ESCALATION_THRESHOLD"
    and "\<not> lease_refused now (en_owner en) r" and "\<not> lease_refused later (en_owner en) r"
  shows "\<exists>so1 db1 so2 db2 r2. record_infra_failure en now i error db = (Inr so1, db1) \<and> so_to so1 = FAILED_INFRA
    \<and> step en later i db1 = (Inr so2, db2) \<and> so_to so2 = hr_stage r
    \<and> get_run i db2 = Some r2 \<and> same_place r r2 \<and> same_work db db2"
proof -
  obtain so1 db1 r1 where failed: "record_infra_failure en now i error db = (Inr so1, db1)" "so_to so1 = FAILED_INFRA"
      "get_run i db1 = Some r1" "same_work db db1"
    and r1: "same_row (moved now FAILED_INFRA (Some error)
        (patch_fields now [PInfraFailures (hr_infra_failures r + 1), PLastError (Some error)] r)) r1"
    using failed_run[OF assms(1,5,2,4)] by blast
  have row: "hr_stage r1 = FAILED_INFRA" "hr_resume r1 = hr_resume r" "hr_lease_owner r1 = hr_lease_owner r"
      "hr_lease_expires r1 = hr_lease_expires r" "same_place (r\<lparr>hr_stage := FAILED_INFRA\<rparr>) r1"
    using same_row_fields[OF r1] by (simp_all add: same_place_def patch_fields_def stage_terminal_def TERMINAL_STAGES_def
        RESUMABLE_STAGES_def)
  have "stage_to_resume r1 = hr_stage r"
    using assms(2,3) by (auto simp: stage_to_resume_def row RESUMABLE_STAGES_def)
  moreover have "\<not> lease_refused later (en_owner en) r1"
    using assms(6) by (simp add: lease_refused_def run_lease_live_def row)
  ultimately obtain so2 db2 reason where resumed: "step en later i db1 = (Inr so2, db2)" "so_to so2 = hr_stage r"
      "get_run i db2 = Some (moved later (hr_stage r) reason r1)" "same_work db1 db2"
    using resumed_run[OF failed(3) _ row(1)] by metis
  have "same_place r (moved later (hr_stage r) reason r1)"
    using row assms(2,3) by (auto simp: same_place_def stage_terminal_def TERMINAL_STAGES_def RESUMABLE_STAGES_def)
  then show ?thesis using failed resumed same_work_trans by blast
qed

text \<open>
  C20: The iteration budget is kept. A step of a run waiting to build opens the next iteration only when
  the budget has room for it; at the budget it opens none, blocks the run and asks a human.
\<close>

theorem iteration_budget:
  assumes "get_run i db = Some r" and "hr_stage r = PLAN_READY \<or> hr_stage r = REVISING"
    and "step en now i db = (Inr so, db')"
  shows "if hr_max_iterations r \<le> hr_iteration r
    then so_to so = BLOCKED \<and> stuck_decision i db' \<and> db_iterations db' = db_iterations db
    else so_to so = BUILDING \<and> (\<exists>it. find_iteration i (hr_iteration r + 1) db' = Some it)"
proof -
  have "enter_build en now r db = (Inr so, db')"
    using assms(2,3) by (auto simp: step_known[OF assms(1)] step_run_def)
  from hwp_answer[OF this enter_build_budget] show ?thesis
    using conjunct2[OF get_run_id[OF assms(1)]] by (simp only:)
qed

text \<open>
  C39: An engine without the lease uses up a run's iterations. While another owner's lease is live, its
  step of a run waiting to build is refused, but only after the iteration has been opened in
  a transaction of its own: the run stays where it is with one iteration less to spend.
\<close>

theorem stranger_burns_iteration:
  assumes "get_run i db = Some r" and "hr_stage r = PLAN_READY \<or> hr_stage r = REVISING"
    and "lease_refused now (en_owner en) r" and "get_contract i None db \<noteq> None"
    and "hr_iteration r < hr_max_iterations r" and "find_iteration i (hr_iteration r + 1) db = None"
  shows "\<exists>db' r'. step en now i db = (Inl (LeaseNotHeld i (en_owner en) (hr_lease_owner r)), db')
    \<and> get_run i db' = Some r' \<and> hr_stage r' = hr_stage r \<and> hr_iteration r' = hr_iteration r + 1"
proof -
  have id: "hr_id r = i" using get_run_id[OF assms(1)] by simp
  have refused: "lease_refused now (en_owner en) (r\<lparr>hr_iteration := n, hr_updated := t\<rparr>)" for n t
    using assms(3) by (simp add: lease_refused_def run_lease_live_def)
  obtain c where c: "get_contract i None db = Some c" using assms(4) by blast
  show ?thesis
    using assms(1,2,5,6) c
    by (auto simp: step_known[OF assms(1)] step_run_def enter_build_def require_contract_def id Let_def hseq_def hbind_def
        start_iteration_def note_locked_def require_run_def to_stage_def advance_def refused)
qed

text \<open>
  C40: A crash between writing a contract and freezing it wedges the run. With an unfrozen first version on
  record, every step of a run that plans from the template tries to write that version again and
  raises; the run and its contracts stay as they are, so the next step meets the same.
\<close>

theorem unfrozen_contract_wedges_run:
  assumes "get_run i db = Some r" and "hr_stage r = INIT \<or> hr_stage r = PLANNING"
    and "get_contract i None db = Some c" and "\<not> xc_frozen c" and "xc_version c = 1" and "sufficient r"
    and "\<not> fst (planner_required (hr_mode r) (sp_acceptance (hr_policy r)) (sp_checks (hr_policy r)) (scope_text r))"
  shows "\<exists>message db'. step en now i db = (Inl (HarnessValueError message), db')
    \<and> get_run i db' = Some r \<and> db_contracts db' = db_contracts db"
proof -
  have id: "hr_id r = i" using get_run_id[OF assms(1)] by simp
  obtain why where why: "planner_required (hr_mode r) (sp_acceptance (hr_policy r)) (sp_checks (hr_policy r)) (scope_text r) = (False, why)"
    using assms(7) by (metis (full_types) prod.collapse)
  obtain new where new: "template_contract en now r db = (Inr new, drawn db)" "xc_run new = i" "xc_version new = 1"
    using template_cases[of r en now db] assms(6) id by metis
  obtain db1 where bumped: "bump_efficiency now i (Some (''planner skipped: '' @ why)) [(PLANNER_SKIPPED, 1)] (drawn db) = (Inr (), db1)"
      "get_run i db1 = Some r" "db_contracts db1 = db_contracts db"
    using bump_quiet[of "[(PLANNER_SKIPPED, 1)]" now i "Some (''planner skipped: '' @ why)" "drawn db" i] assms(1)
    by (auto simp: drawn_contracts)
  obtain x where "x \<in> set (db_contracts db)" "xc_run x = i" "xc_version x = 1"
    using get_contract_stored[OF assms(3)] assms(5) by metis
  then have "fst (save_contract (en_sha en) now new (Some ''engine'') db1) = Inl (HarnessValueError
        (''contract version '' @ int_str 1 @ '' already exists for run '' @ i @ ''; a change is a new version, not an edit''))"
      "snd (save_contract (en_sha en) now new (Some ''engine'') db1) = db1"
    by (auto simp: save_contract_def new bumped)
  then have "save_contract (en_sha en) now new (Some ''engine'') db1 = (Inl (HarnessValueError
        (''contract version '' @ int_str 1 @ '' already exists for run '' @ i @ ''; a change is a new version, not an edit'')), db1)"
    by (metis prod.collapse)
  then show ?thesis
    using assms(2,3,4) id bumped new why
    by (auto simp: step_known[OF assms(1)] step_run_def plan_step_def plan_new_def install_contract_def hseq_def hbind_def)
qed

text \<open>
  A LIGHT run filed without a command to check it never leaves its stage. LIGHT mode never plans with an
  agent, and the template refuses a task that lacks a scope, an acceptance criterion or a runnable
  check: each step raises, nothing but an id is used up, and no human is asked.
\<close>

theorem light_run_never_planned:
  assumes "get_run i db = Some r" and "hr_stage r = INIT \<or> hr_stage r = PLANNING" and "hr_mode r = LIGHT"
    and "get_contract i None db = None" and "\<not> sufficient r"
  shows "\<exists>missing. step en now i db = (Inl (ContractRefused (InsufficientSpecification missing)), drawn db)"
proof -
  have id: "hr_id r = i" using get_run_id[OF assms(1)] by simp
  obtain ms where "template_contract en now r db = (Inl (ContractRefused (InsufficientSpecification ms)), drawn db)"
    using template_cases[of r en now db] assms(5) by metis
  then show ?thesis
    using assms(2,3,4) id
    by (auto simp: step_known[OF assms(1)] step_run_def plan_step_def plan_new_def planner_required_def hbind_def)
qed

section \<open>Witnesses\<close>

definition sample_engine :: "int \<Rightarrow> string option \<Rightarrow> engine" where
  \<comment> \<open>no runner; the checks exit with the given code\<close>
  "sample_engine code owner = \<lparr>en_owner = owner, en_root = None, en_assembler = sample_assembler, en_runner = None,
     en_checks = (\<lambda>commands cwd. map (\<lambda>t. \<lparr>kr_command = t, kr_exit = code, kr_output = ''out'', kr_timed_out = False\<rparr>) commands),
     en_projects = False, en_sha = (\<lambda>s. s), en_loads = (\<lambda>s. None)\<rparr>"

definition sample_class :: classification where
  "sample_class = \<lparr>cl_mode = NORMAL, cl_exclusions = []\<rparr>"

definition sample_row :: "stage \<Rightarrow> int \<Rightarrow> harness_run" where
  "sample_row st n = (run_row 1 ''hrn_0'' sample_run)\<lparr>hr_stage := st, hr_resume := Some st, hr_iteration := n,
     hr_lease_owner := Some ''w'', hr_lease_expires := Some 62\<rparr>"

definition sample_tables :: "harness_run \<Rightarrow> exec_contract list \<Rightarrow> harness_db" where
  "sample_tables r cs = empty_db\<lparr>db_runs := [r], db_contracts := map (\<lambda>c. exec_contract.extend c \<lparr>xs_hash = ''h''\<rparr>) cs, db_ids := 1\<rparr>"

definition sample_filed :: "run_mode \<Rightarrow> string list \<Rightarrow> harness_run" where
  "sample_filed mode checks = (run_row 1 ''hrn_0'' sample_run)\<lparr>hr_mode := mode, hr_policy := run_policy.extend default_policy
     \<lparr>sp_acceptance = [''A''], sp_checks = checks, sp_manual = [], sp_changed = [], sp_inherited = None\<rparr>\<rparr>"

definition sample_ops :: "engine_op list" where
  "sample_ops = [OpStore (CallCreate 1 sample_run), OpInfraFailure 2 ''hrn_0'' ''lost'', OpStep 3 ''hrn_0'']"

lemma sample_tables_run [simp]: "get_run i (sample_tables r cs) = (if hr_id r = i then Some r else None)"
  by (simp add: sample_tables_def get_run_def find_row_def)

lemma sample_tables_contract [simp]:
  "get_contract i None (sample_tables r []) = None"
  "get_contract i None (sample_tables r [c]) = (if xc_run c = i then Some c else None)"
  by (simp_all add: sample_tables_def get_contract_def newest_def exec_contract.truncate_def exec_contract.extend_def empty_db_def)

lemmas sample_row_fields = sample_row_def run_row_def sample_run_def default_policy_def run_policy.extend_def

lemma engine_refines_store_witness:
  "\<exists>db. db = fold (engine_exec (\<lambda>_. True) (\<lambda>_ _. sample_class) (sample_engine 0 None)) sample_ops empty_db
    \<and> length (stage_log ''hrn_0'' db) = 2 \<and> replay INIT (stage_log ''hrn_0'' db) = Some PLAN_READY"
proof -
  let ?en = "sample_engine 0 None"
  let ?db = "fold (engine_exec (\<lambda>_. True) (\<lambda>_ _. sample_class) ?en) sample_ops empty_db"
  have honest: "honest_engine ?en" "list_all honest_op sample_ops"
    by (simp_all add: honest_engine_def sample_engine_def sample_ops_def)
  have rows: "map (\<lambda>r. (hr_id r, hr_stage r)) (db_runs ?db) = [(''hrn_0'', PLAN_READY)]" "length (stage_log ''hrn_0'' ?db) = 2"
    by code_simp+
  then obtain r where r: "r \<in> set (db_runs ?db)" "hr_id r = ''hrn_0''" "hr_stage r = PLAN_READY" by auto
  obtain calls where "\<forall>r\<in>set (db_runs ?db). replay INIT (stage_log (hr_id r) ?db) = Some (hr_stage r)"
    using engine_refines_store[OF honest, of "\<lambda>_. True" "\<lambda>_ _. sample_class"] by blast
  from bspec[OF this r(1)] show ?thesis using rows(2) r(2,3) by simp
qed

lemma merge_ready_is_earned_witness:
  "\<exists>so db'. step (sample_engine 0 (Some ''w'')) 10 ''hrn_0'' (sample_tables (sample_row EVALUATING 1) [sample_contract]) = (Inr so, db')
    \<and> earned (sample_engine 0 (Some ''w'')) sample_contract 1 False db'"
proof -
  let ?en = "sample_engine 0 (Some ''w'')" and ?db = "sample_tables (sample_row EVALUATING 1) [sample_contract]"
  have "(case fst (step ?en 10 ''hrn_0'' ?db) of Inr so \<Rightarrow> so_to so = MERGE_READY | Inl e \<Rightarrow> False)"
    by code_simp
  then obtain so db' where so: "step ?en 10 ''hrn_0'' ?db = (Inr so, db')" "so_to so = MERGE_READY"
    by (cases "step ?en 10 ''hrn_0'' ?db") (auto split: sum.splits)
  show ?thesis
    using merge_ready_is_earned[of "''hrn_0''" ?db "sample_row EVALUATING 1", OF _ _ so] so(1)
    by (auto simp: iteration_of_def sample_row_fields sample_contract_def)
qed

definition sample_claim :: exec_contract where
  "sample_claim = sample_contract\<lparr>xc_functional := [''v2.x'']\<rparr>"

definition sample_evaluator :: "agent_request \<Rightarrow> harness_db \<Rightarrow> agent_result \<times> harness_call list" where
  "sample_evaluator rq db = (\<lparr>ar_payload = JObj [(''criteria'', JArr [answer ''v2.x'' ''pass'' ''seen''])],
     ar_session = None, ar_percent = None, ar_commit = None, ar_agent = None, ar_infra_failure = False, ar_error = None,
     ar_tokens = 0, ar_pending = False, ar_dispatch = None, ar_session_reused = False, ar_needs_permission = False,
     ar_newly_dispatched = False\<rparr>, [])"

definition sample_judge :: engine where
  \<comment> \<open>an evaluator that passes the one criterion\<close>
  "sample_judge = (sample_engine 0 None)\<lparr>en_runner := Some sample_evaluator\<rparr>"

lemma unnamed_claim_needs_evaluator_witness:
  "\<exists>so db'. step sample_judge 10 ''hrn_0'' (sample_tables (sample_row EVALUATING 1) [sample_claim]) = (Inr so, db')
    \<and> earned sample_judge sample_claim 1 True db'"
proof -
  let ?r = "sample_row EVALUATING 1" and ?db = "sample_tables (sample_row EVALUATING 1) [sample_claim]"
  let ?kt = "(''functional'', ''v2.x'')"
  have claim: "?kt \<in> set (contract_criteria sample_claim)" "literals (snd ?kt) \<noteq> []"
      "\<not> list_ex (claim_met (lower (join NL (map kr_output (run_declared_checks sample_judge ?r sample_claim))))) (literals (snd ?kt))"
    by code_simp+
  let ?asked = "\<lambda>path why. snd (bump_efficiency 10 ''hrn_0'' (Some (CHR ''e'' # why)) []
      (snd (record_artifact 10 ''hrn_0'' ''check_output'' path (Some 1) ?db)))"
  have mode: "\<not> independent_evaluator (hr_mode ?r)" "hr_worktree ?r = None" "iteration_of ?r = 1" "hr_stage ?r = EVALUATING"
      "hr_id ?r = ''hrn_0''" "failed_checks (run_declared_checks sample_judge ?r sample_claim) = []"
      "en_runner sample_judge = Some sample_evaluator" "xc_run sample_claim = ''hrn_0''"
    by (simp_all add: sample_row_fields iteration_of_def run_declared_checks_def sample_judge_def sample_engine_def
        sample_claim_def sample_contract_def failed_checks_def check_ok_def)
  have run: "get_run ''hrn_0'' ?db = Some ?r" and contract: "get_contract (hr_id ?r) None ?db = Some sample_claim"
    by (simp_all add: mode)
  have stale: "uncorroborated_criteria (en_sha sample_judge) sample_claim (run_declared_checks sample_judge ?r sample_claim) \<noteq> []"
    by (rule unnamed_claim_stale[OF claim])
  have "\<exists>path why p. step sample_judge 10 ''hrn_0'' ?db = ask_evaluator sample_judge 10 sample_evaluator ?r sample_claim 1 p (?asked path why)"
    by (simp add: step_known[OF run] step_run_def evaluate_step_def hbind_known[OF contract] hseq_def hbind_total mode Let_def
        judge_green_checks_def evaluator_required_def stale evaluate_with_agent_def) blast
  then obtain path why p where step: "step sample_judge 10 ''hrn_0'' ?db
      = ask_evaluator sample_judge 10 sample_evaluator ?r sample_claim 1 p (?asked path why)" by blast
  have "(case fst (ask_evaluator sample_judge 10 sample_evaluator ?r sample_claim 1 p (?asked path why)) of
      Inr so \<Rightarrow> so_to so = MERGE_READY | Inl e \<Rightarrow> False)"
    by code_simp
  then obtain so db' where so: "step sample_judge 10 ''hrn_0'' ?db = (Inr so, db')" "so_to so = MERGE_READY"
    by (cases "step sample_judge 10 ''hrn_0'' ?db") (auto simp: step[symmetric] split: sum.splits)
  have "earned sample_judge sample_claim (iteration_of ?r) True db'"
    by (rule unnamed_claim_needs_evaluator[OF _ _ _ claim so])
      (simp_all add: sample_row_fields sample_contract_def sample_claim_def)
  then show ?thesis using so(1) by (auto simp: iteration_of_def sample_row_fields)
qed

lemma failing_check_revises_witness:
  "\<exists>so db'. step (sample_engine 1 (Some ''w'')) 10 ''hrn_0'' (sample_tables (sample_row EVALUATING 1) [sample_contract]) = (Inr so, db')
    \<and> so_to so = REVISING \<and> \<not> so_llm so"
proof -
  let ?en = "sample_engine 1 (Some ''w'')" and ?db = "sample_tables (sample_row EVALUATING 1) [sample_contract]"
  have failed: "failed_checks (run_declared_checks ?en (sample_row EVALUATING 1) sample_contract) \<noteq> []"
    by (simp add: sample_contract_def run_declared_checks_def sample_engine_def failed_checks_def check_ok_def)
  have "(case fst (step ?en 10 ''hrn_0'' ?db) of Inr so \<Rightarrow> so_to so = REVISING | Inl e \<Rightarrow> False)"
    by code_simp
  then obtain so db' where so: "step ?en 10 ''hrn_0'' ?db = (Inr so, db')" "so_to so = REVISING"
    by (cases "step ?en 10 ''hrn_0'' ?db") (auto split: sum.splits)
  show ?thesis
    using failing_check_revises[of "''hrn_0''" ?db "sample_row EVALUATING 1" sample_contract, OF _ _ _ failed so(1)] so
    by (auto simp: sample_row_fields sample_contract_def)
qed

lemma interrupted_run_resumes_in_place_witness:
  "\<exists>so1 db1 so2 db2. record_infra_failure (sample_engine 0 (Some ''w'')) 10 ''hrn_0'' ''lost''
       (sample_tables (sample_row BUILDING 2) [sample_contract]) = (Inr so1, db1)
    \<and> step (sample_engine 0 (Some ''w'')) 99 ''hrn_0'' db1 = (Inr so2, db2) \<and> so_to so2 = BUILDING"
  using interrupted_run_resumes_in_place[of "''hrn_0''" "sample_tables (sample_row BUILDING 2) [sample_contract]"
      "sample_row BUILDING 2" 10 "sample_engine 0 (Some ''w'')" 99 "''lost''"]
  by (auto simp: sample_row_fields lease_refused_def sample_engine_def INFRA_FAILURE_ESCALATION_THRESHOLD_def)

lemma iteration_budget_witness:
  "\<exists>so db'. step (sample_engine 0 (Some ''w'')) 7 ''hrn_0'' (sample_tables (sample_row REVISING 2) [sample_contract]) = (Inr so, db')
    \<and> (\<exists>it. find_iteration ''hrn_0'' 3 db' = Some it)"
proof -
  let ?en = "sample_engine 0 (Some ''w'')" and ?db = "sample_tables (sample_row REVISING 2) [sample_contract]"
  have "\<not> isl (fst (step ?en 7 ''hrn_0'' ?db))" by code_simp
  then obtain so db' where so: "step ?en 7 ''hrn_0'' ?db = (Inr so, db')"
    by (metis prod.collapse sum.collapse(2))
  show ?thesis
    using iteration_budget[of "''hrn_0''" ?db "sample_row REVISING 2", OF _ _ so] so by (auto simp: sample_row_fields)
qed

lemma stranger_burns_iteration_witness:
  "\<exists>db' r'. step (sample_engine 0 (Some ''x'')) 7 ''hrn_0'' (sample_tables (sample_row PLAN_READY 0) [sample_contract])
      = (Inl (LeaseNotHeld ''hrn_0'' (Some ''x'') (Some ''w'')), db')
    \<and> get_run ''hrn_0'' db' = Some r' \<and> hr_stage r' = PLAN_READY \<and> hr_iteration r' = 1"
  using stranger_burns_iteration[of "''hrn_0''" "sample_tables (sample_row PLAN_READY 0) [sample_contract]"
      "sample_row PLAN_READY 0" 7 "sample_engine 0 (Some ''x'')"]
  by (simp add: sample_row_fields lease_refused_def run_lease_live_def nonempty_def sample_engine_def sample_contract_def)
    (simp add: sample_tables_def find_iteration_def find_row_def empty_db_def)

lemma unfrozen_contract_wedges_run_witness:
  "\<exists>message db'. step (sample_engine 0 None) 9 ''hrn_0'' (sample_tables (sample_filed STANDARD [''k'']) [sample_contract])
    = (Inl (HarnessValueError message), db')"
proof -
  let ?r = "sample_filed STANDARD [''k'']"
  have "sufficient ?r" "\<not> fst (planner_required (hr_mode ?r) (sp_acceptance (hr_policy ?r)) (sp_checks (hr_policy ?r)) (scope_text ?r))"
    by code_simp+
  then show ?thesis
    using unfrozen_contract_wedges_run[of "''hrn_0''" "sample_tables ?r [sample_contract]" ?r sample_contract "sample_engine 0 None" 9]
    by (auto simp: sample_filed_def run_row_def sample_contract_def)
qed

lemma light_run_never_planned_witness:
  "\<exists>missing. step (sample_engine 0 None) 9 ''hrn_0'' (sample_tables (sample_filed LIGHT []) [])
    = (Inl (ContractRefused (InsufficientSpecification missing)), drawn (sample_tables (sample_filed LIGHT []) []))"
proof -
  have "\<not> sufficient (sample_filed LIGHT [])" by code_simp
  then show ?thesis
    using light_run_never_planned[of "''hrn_0''" "sample_tables (sample_filed LIGHT []) []" "sample_filed LIGHT []" "sample_engine 0 None" 9]
    by (auto simp: sample_filed_def run_row_def)
qed

end
