(* ===== verification/QueueTransition.thy ===== *)
theory QueueTransition
  imports QueueModel
begin

text \<open>
  The lifecycle chokepoint of \<open>queue_store.py\<close>: \<open>_transition_locked\<close> with its
  execution-evidence guard and its worktree-cleanup hook, \<open>transition_task\<close> on top
  of it, and the operator verbs that are a single transition.
\<close>

section \<open>Column assignments\<close>

datatype column =
  \<comment> \<open>one entry of an \<open>extra_fields\<close> dictionary\<close>
  Claimed_by "string option"
| Claim_token "string option"
| Lease_expires_at "timestamp option"
| Uncertain_or_waiting_since "timestamp option"
| Inactive_observed_at "timestamp option"
| Inactive_signature "string option"
| Last_error "string option"
| Paused_from_status "status option"
| Metadata dict
| Coordinator_decision dict
| Coordinator_reason "string option"
| Coordinator_checked_at "timestamp option"
| Coordinator_attempts int
| Verification_evidence dict
| Dispatch_idempotency_key "string option"
| Completed_at "timestamp option"

fun set_column :: "column \<Rightarrow> task \<Rightarrow> task" where
  "set_column (Claimed_by v) t = t\<lparr>t_claimed_by := v\<rparr>"
| "set_column (Claim_token v) t = t\<lparr>t_claim_token := v\<rparr>"
| "set_column (Lease_expires_at v) t = t\<lparr>t_lease_expires_at := v\<rparr>"
| "set_column (Uncertain_or_waiting_since v) t = t\<lparr>t_uncertain_or_waiting_since := v\<rparr>"
| "set_column (Inactive_observed_at v) t = t\<lparr>t_inactive_observed_at := v\<rparr>"
| "set_column (Inactive_signature v) t = t\<lparr>t_inactive_signature := v\<rparr>"
| "set_column (Last_error v) t = t\<lparr>t_last_error := v\<rparr>"
| "set_column (Paused_from_status v) t = t\<lparr>t_paused_from_status := v\<rparr>"
| "set_column (Metadata v) t = t\<lparr>t_metadata := v\<rparr>"
| "set_column (Coordinator_decision v) t = t\<lparr>t_coordinator_decision := v\<rparr>"
| "set_column (Coordinator_reason v) t = t\<lparr>t_coordinator_reason := v\<rparr>"
| "set_column (Coordinator_checked_at v) t = t\<lparr>t_coordinator_checked_at := v\<rparr>"
| "set_column (Coordinator_attempts v) t = t\<lparr>t_coordinator_attempts := v\<rparr>"
| "set_column (Verification_evidence v) t = t\<lparr>t_verification_evidence := v\<rparr>"
| "set_column (Dispatch_idempotency_key v) t = t\<lparr>t_dispatch_idempotency_key := v\<rparr>"
| "set_column (Completed_at v) t = t\<lparr>t_completed_at := v\<rparr>"

primrec set_columns :: "column list \<Rightarrow> task \<Rightarrow> task" where
  "set_columns [] t = t"
| "set_columns (c # cs) t = set_columns cs (set_column c t)"

primrec metadata_column :: "column list \<Rightarrow> dict option" where
  \<comment> \<open>\<open>extra_fields["metadata"]\<close> when the dictionary has that key\<close>
  "metadata_column [] = None"
| "metadata_column (c # cs) =
     (case metadata_column cs of Some m \<Rightarrow> Some m
      | None \<Rightarrow> (case c of Metadata m \<Rightarrow> Some m | _ \<Rightarrow> None))"

definition clear_claim :: "column list" where
  "clear_claim = [Claimed_by None, Claim_token None, Lease_expires_at None]"

section \<open>Execution evidence\<close>

definition EXECUTION_SIGNALS :: "json list" where
  "EXECUTION_SIGNALS = [JStr ''agent_acceptance'', JStr ''post_submit_output'',
     JStr ''process_started'', JStr ''explicit_running_signal'', JStr ''completion_marker'']"

definition evidence_accepted :: "dict \<Rightarrow> bool" where
  "evidence_accepted evidence \<longleftrightarrow>
     dget evidence ''accepted'' = JBool True \<and> dget evidence ''signal'' \<in> set EXECUTION_SIGNALS"

definition valid_execution_evidence :: "dict \<Rightarrow> bool" where
  "valid_execution_evidence metadata \<longleftrightarrow>
     (case as_dict (dget metadata ''execution_evidence'') of
        None \<Rightarrow> False | Some evidence \<Rightarrow> evidence_accepted evidence)"

section \<open>The transition\<close>

definition transition_row ::
  "timestamp \<Rightarrow> status \<Rightarrow> status \<Rightarrow> string option \<Rightarrow> column list \<Rightarrow> task \<Rightarrow> task" where
  \<comment> \<open>the SET clause \<open>_transition_locked\<close> builds, applied to a row\<close>
  "transition_row now from_status to_status reason extra t =
     set_columns extra (t\<lparr>
       t_status := to_status,
       t_updated_at := now,
       t_inactive_observed_at := None,
       t_inactive_signature := None,
       t_started_at := (if to_status = RUNNING \<and> from_status \<noteq> VERIFYING
                        then Some now else t_started_at t),
       t_completed_at := (if to_status = COMPLETED then Some now else t_completed_at t),
       t_claimed_by := (if to_status \<in> set TERMINAL_STATUSES then None else t_claimed_by t),
       t_claim_token := (if to_status \<in> set TERMINAL_STATUSES then None else t_claim_token t),
       t_lease_expires_at :=
         (if to_status \<in> set TERMINAL_STATUSES then None else t_lease_expires_at t),
       t_attempt_count := (if to_status = DISPATCHING then t_attempt_count t + 1
                           else t_attempt_count t),
       t_last_error := (if reason \<noteq> None \<and> (to_status = BLOCKED \<or> to_status = FAILED)
                        then reason else t_last_error t)\<rparr>)"

definition apply_worktree_cleanup_locked ::
  "timestamp \<Rightarrow> task \<Rightarrow> status \<Rightarrow> status \<Rightarrow> store \<Rightarrow> task \<times> store" where
  "apply_worktree_cleanup_locked now row from_status to_status s =
     (let d = decide from_status to_status (t_metadata row) (t_attempt_count row)
                (t_max_attempts row) TERMINAL_STATUSES
      in if \<not> changes_record d then (row, s)
         else let updated = apply_decision (t_metadata row) d now;
                  s1 = update_task (t_id row) (\<lambda>t. t\<lparr>t_metadata := updated\<rparr>) s;
                  s2 = log_event now (t_session row) (Some (t_id row))
                         (str_or (dec_event_type d) []) (Some (dec_reason d)) s1
              in (case find_task s2 (t_id row) of None \<Rightarrow> row | Some r \<Rightarrow> r, s2))"

definition transition_locked ::
  "timestamp \<Rightarrow> string \<Rightarrow> status \<Rightarrow> status \<Rightarrow> string \<Rightarrow> string option \<Rightarrow> column list \<Rightarrow> bool
   \<Rightarrow> store \<Rightarrow> task txn" where
  "transition_locked now tid from_status to_status event_type reason extra
       allow_completion_invalidation s =
     (let guarded_invalidation = allow_completion_invalidation
            \<and> from_status = COMPLETED \<and> to_status = CANCELLED;
          edge = tid @ '': '' @ status_name from_status @ '' -> '' @ status_name to_status;
          metadata = (case metadata_column extra of Some m \<Rightarrow> m
            | None \<Rightarrow> (case find_task s tid of None \<Rightarrow> [] | Some t \<Rightarrow> t_metadata t))
      in if \<not> is_valid_transition from_status to_status \<and> \<not> guarded_invalidation
         then Inl (InvalidTransitionError (edge @ '' is not a valid transition''))
         else if (to_status = RUNNING \<or> to_status = VERIFYING)
                 \<and> \<not> valid_execution_evidence metadata
         then Inl (InvalidTransitionError (edge @ '' requires recorded execution evidence''))
         else let s1 = update_task tid (transition_row now from_status to_status reason extra) s
              in case find_task s1 tid of
                   None \<Rightarrow> Inl TypeError
                 | Some row \<Rightarrow>
                     let s2 = record_event_locked now (t_session row) (Some tid) event_type reason
                                (Some (status_name from_status)) (Some (status_name to_status)) [] s1
                     in Inr (apply_worktree_cleanup_locked now row from_status to_status s2))"

definition transition_task ::
  "timestamp \<Rightarrow> string \<Rightarrow> status \<Rightarrow> string \<Rightarrow> string option \<Rightarrow> column list
   \<Rightarrow> store \<Rightarrow> (queue_error + task) \<times> store" where
  "transition_task now tid to_status event_type reason extra =
     with_connection (\<lambda>s. case find_task s tid of
         None \<Rightarrow> Inl (KeyError (''no such task: '' @ tid))
       | Some row \<Rightarrow> transition_locked now tid (t_status row) to_status event_type reason extra False s)"

definition step_locked ::
  "timestamp \<Rightarrow> string \<Rightarrow> status \<Rightarrow> status \<Rightarrow> string \<Rightarrow> string option \<Rightarrow> column list
   \<Rightarrow> store \<Rightarrow> queue_error + store" where
  \<comment> \<open>a call of \<open>_transition_locked\<close> as a statement\<close>
  "step_locked now tid from_status to_status event_type reason extra s =
     and_then (transition_locked now tid from_status to_status event_type reason extra False s)
       (\<lambda>(_, s'). Inr s')"

section \<open>A transition without the write lock\<close>

text \<open>
  \<open>transition_task\<close> opens no transaction before it reads: SQLite's deferred isolation takes the write lock at
  the UPDATE, and the UPDATE names the task only by its id. What another process commits between two of
  the statements is therefore overwritten and not detected. \<open>transition_task\<close> above is the call
  when nothing is committed in between; here each statement has the store it runs on as an argument: the
  status is read in \<open>q\<close>, the evidence in \<open>m\<close>, the attempt counter in \<open>a\<close>, and the rows are
  written in \<open>s\<close>.
\<close>

definition transition_write ::
  "timestamp \<Rightarrow> string \<Rightarrow> status \<Rightarrow> status \<Rightarrow> string \<Rightarrow> string option \<Rightarrow> (task \<Rightarrow> task)
   \<Rightarrow> store \<Rightarrow> task txn" where
  \<comment> \<open>from the UPDATE on\<close>
  "transition_write now tid from_status to_status event_type reason assign s =
     (let s1 = update_task tid assign s
      in case find_task s1 tid of
           None \<Rightarrow> Inl TypeError
         | Some row \<Rightarrow>
             let s2 = record_event_locked now (t_session row) (Some tid) event_type reason
                        (Some (status_name from_status)) (Some (status_name to_status)) [] s1
             in Inr (apply_worktree_cleanup_locked now row from_status to_status s2))"

definition counted :: "string \<Rightarrow> status \<Rightarrow> store \<Rightarrow> task \<Rightarrow> task" where
  \<comment> \<open>the counter written is one more than the one that was read\<close>
  "counted tid to_status a t =
     (if to_status \<noteq> DISPATCHING then t
      else t\<lparr>t_attempt_count := (case find_task a tid of None \<Rightarrow> 0 | Some x \<Rightarrow> t_attempt_count x) + 1\<rparr>)"

definition transition_overlapped ::
  "timestamp \<Rightarrow> string \<Rightarrow> status \<Rightarrow> string \<Rightarrow> string option \<Rightarrow> column list
   \<Rightarrow> store \<Rightarrow> store \<Rightarrow> store \<Rightarrow> store \<Rightarrow> (queue_error + task) \<times> store" where
  "transition_overlapped now tid to_status event_type reason extra q m a =
     with_connection (\<lambda>s. case find_task q tid of
         None \<Rightarrow> Inl (KeyError (''no such task: '' @ tid))
       | Some row \<Rightarrow>
           let from_status = t_status row;
               edge = tid @ '': '' @ status_name from_status @ '' -> '' @ status_name to_status;
               metadata = (case metadata_column extra of Some d \<Rightarrow> d
                 | None \<Rightarrow> (case find_task m tid of None \<Rightarrow> [] | Some t \<Rightarrow> t_metadata t))
           in if \<not> is_valid_transition from_status to_status
              then Inl (InvalidTransitionError (edge @ '' is not a valid transition''))
              else if (to_status = RUNNING \<or> to_status = VERIFYING) \<and> \<not> valid_execution_evidence metadata
              then Inl (InvalidTransitionError (edge @ '' requires recorded execution evidence''))
              else if to_status = DISPATCHING \<and> find_task a tid = None then Inl TypeError
              else transition_write now tid from_status to_status event_type reason
                     (\<lambda>t. counted tid to_status a (transition_row now from_status to_status reason extra t)) s)"

section \<open>Operator verbs that are one transition\<close>

definition skip_task :: "timestamp \<Rightarrow> string \<Rightarrow> store \<Rightarrow> (queue_error + task) \<times> store" where
  "skip_task now tid s = (case get_task s tid of
       None \<Rightarrow> (Inl (KeyError (''no such task: '' @ tid)), s)
     | Some _ \<Rightarrow> transition_task now tid SKIPPED ''SKIPPED'' None [] s)"

definition cancel_task :: "timestamp \<Rightarrow> string \<Rightarrow> store \<Rightarrow> (queue_error + task) \<times> store" where
  "cancel_task now tid s = (case get_task s tid of
       None \<Rightarrow> (Inl (KeyError (''no such task: '' @ tid)), s)
     | Some _ \<Rightarrow> transition_task now tid CANCELLED ''CANCELLED'' None [] s)"

definition mark_dispatch_uncertain ::
  "timestamp \<Rightarrow> string \<Rightarrow> string \<Rightarrow> store \<Rightarrow> (queue_error + task) \<times> store" where
  "mark_dispatch_uncertain now tid reason =
     transition_task now tid DISPATCH_UNCERTAIN ''SUBMIT_UNKNOWN'' (Some reason)
       [Uncertain_or_waiting_since (Some now)]"

definition mark_waiting_session ::
  "timestamp \<Rightarrow> string \<Rightarrow> string \<Rightarrow> store \<Rightarrow> (queue_error + task) \<times> store" where
  "mark_waiting_session now tid reason s = (case get_task s tid of
       None \<Rightarrow> (Inl (KeyError (''no such task: '' @ tid)), s)
     | Some _ \<Rightarrow> transition_task now tid WAITING_SESSION ''WAITING_SESSION'' (Some reason)
         [Uncertain_or_waiting_since (Some now)] s)"

section \<open>What a column assignment leaves alone\<close>

lemma set_column_frame [simp]:
  "t_id (set_column c t) = t_id t"
  "t_session (set_column c t) = t_session t"
  "t_position (set_column c t) = t_position t"
  "t_title (set_column c t) = t_title t"
  "t_prompt (set_column c t) = t_prompt t"
  "t_status (set_column c t) = t_status t"
  "t_created_at (set_column c t) = t_created_at t"
  "t_attempt_count (set_column c t) = t_attempt_count t"
  "t_max_attempts (set_column c t) = t_max_attempts t"
  "t_priority (set_column c t) = t_priority t"
  "t_depends_on (set_column c t) = t_depends_on t"
  "t_request_key (set_column c t) = t_request_key t"
  "t_project_id (set_column c t) = t_project_id t"
  "t_outcome_id (set_column c t) = t_outcome_id t"
  "t_routing_state (set_column c t) = t_routing_state t"
  "t_execution_session (set_column c t) = t_execution_session t"
  "t_original_owner (set_column c t) = t_original_owner t"
  "t_migration_history (set_column c t) = t_migration_history t"
  by (cases c; simp)+

lemma set_columns_frame [simp]:
  "t_id (set_columns cs t) = t_id t"
  "t_session (set_columns cs t) = t_session t"
  "t_position (set_columns cs t) = t_position t"
  "t_title (set_columns cs t) = t_title t"
  "t_prompt (set_columns cs t) = t_prompt t"
  "t_status (set_columns cs t) = t_status t"
  "t_created_at (set_columns cs t) = t_created_at t"
  "t_attempt_count (set_columns cs t) = t_attempt_count t"
  "t_max_attempts (set_columns cs t) = t_max_attempts t"
  "t_priority (set_columns cs t) = t_priority t"
  "t_depends_on (set_columns cs t) = t_depends_on t"
  "t_request_key (set_columns cs t) = t_request_key t"
  "t_project_id (set_columns cs t) = t_project_id t"
  "t_outcome_id (set_columns cs t) = t_outcome_id t"
  "t_routing_state (set_columns cs t) = t_routing_state t"
  "t_execution_session (set_columns cs t) = t_execution_session t"
  "t_original_owner (set_columns cs t) = t_original_owner t"
  "t_migration_history (set_columns cs t) = t_migration_history t"
  by (induction cs arbitrary: t) simp_all

lemma set_columns_metadata:
  "t_metadata (set_columns cs t) =
     (case metadata_column cs of None \<Rightarrow> t_metadata t | Some m \<Rightarrow> m)"
proof (induction cs arbitrary: t)
  case Nil
  then show ?case by simp
next
  case (Cons c cs)
  then show ?case by (cases c) (auto split: option.splits)
qed

lemma transition_row_frame [simp]:
  "t_id (transition_row now f t r ex x) = t_id x"
  "t_session (transition_row now f t r ex x) = t_session x"
  "t_position (transition_row now f t r ex x) = t_position x"
  "t_title (transition_row now f t r ex x) = t_title x"
  "t_prompt (transition_row now f t r ex x) = t_prompt x"
  "t_status (transition_row now f t r ex x) = t"
  "t_created_at (transition_row now f t r ex x) = t_created_at x"
  "t_max_attempts (transition_row now f t r ex x) = t_max_attempts x"
  "t_priority (transition_row now f t r ex x) = t_priority x"
  "t_depends_on (transition_row now f t r ex x) = t_depends_on x"
  "t_request_key (transition_row now f t r ex x) = t_request_key x"
  "t_project_id (transition_row now f t r ex x) = t_project_id x"
  "t_outcome_id (transition_row now f t r ex x) = t_outcome_id x"
  "t_routing_state (transition_row now f t r ex x) = t_routing_state x"
  "t_execution_session (transition_row now f t r ex x) = t_execution_session x"
  "t_original_owner (transition_row now f t r ex x) = t_original_owner x"
  "t_migration_history (transition_row now f t r ex x) = t_migration_history x"
  "t_attempt_count (transition_row now f t r ex x) =
     (if t = DISPATCHING then t_attempt_count x + 1 else t_attempt_count x)"
  by (simp_all add: transition_row_def split del: if_split)

lemma transition_row_metadata:
  "t_metadata (transition_row now f t r ex x) =
     (case metadata_column ex of None \<Rightarrow> t_metadata x | Some m \<Rightarrow> m)"
  by (cases "metadata_column ex") (simp_all add: transition_row_def set_columns_metadata split del: if_split)

section \<open>What a transition does\<close>

definition cleanup_row :: "timestamp \<Rightarrow> decision \<Rightarrow> dict \<Rightarrow> task \<Rightarrow> task" where
  \<comment> \<open>the effect of the cleanup hook on the row, for the decision taken on metadata \<open>m\<close>\<close>
  "cleanup_row now d m t = (if changes_record d then t\<lparr>t_metadata := apply_decision m d now\<rparr> else t)"

lemma cleanup_row_frame [simp]:
  "t_id (cleanup_row now d m t) = t_id t"
  "t_session (cleanup_row now d m t) = t_session t"
  "t_position (cleanup_row now d m t) = t_position t"
  "t_title (cleanup_row now d m t) = t_title t"
  "t_prompt (cleanup_row now d m t) = t_prompt t"
  "t_status (cleanup_row now d m t) = t_status t"
  "t_created_at (cleanup_row now d m t) = t_created_at t"
  "t_attempt_count (cleanup_row now d m t) = t_attempt_count t"
  "t_max_attempts (cleanup_row now d m t) = t_max_attempts t"
  "t_priority (cleanup_row now d m t) = t_priority t"
  "t_depends_on (cleanup_row now d m t) = t_depends_on t"
  "t_request_key (cleanup_row now d m t) = t_request_key t"
  "t_claimed_by (cleanup_row now d m t) = t_claimed_by t"
  "t_claim_token (cleanup_row now d m t) = t_claim_token t"
  "t_lease_expires_at (cleanup_row now d m t) = t_lease_expires_at t"
  "t_paused_from_status (cleanup_row now d m t) = t_paused_from_status t"
  "t_routing_state (cleanup_row now d m t) = t_routing_state t"
  "t_execution_session (cleanup_row now d m t) = t_execution_session t"
  by (simp_all add: cleanup_row_def)

definition final_row ::
  "timestamp \<Rightarrow> status \<Rightarrow> status \<Rightarrow> string option \<Rightarrow> column list \<Rightarrow> task \<Rightarrow> task" where
  \<comment> \<open>a row after the whole transition: the SET clause, then the cleanup hook\<close>
  "final_row now f t r ex x =
     (let y = transition_row now f t r ex x
      in cleanup_row now (decide f t (t_metadata y) (t_attempt_count y) (t_max_attempts y)
           TERMINAL_STATUSES) (t_metadata y) y)"

lemma final_row_frame [simp]:
  "t_id (final_row now f t r ex x) = t_id x"
  "t_session (final_row now f t r ex x) = t_session x"
  "t_position (final_row now f t r ex x) = t_position x"
  "t_title (final_row now f t r ex x) = t_title x"
  "t_prompt (final_row now f t r ex x) = t_prompt x"
  "t_status (final_row now f t r ex x) = t"
  "t_created_at (final_row now f t r ex x) = t_created_at x"
  "t_max_attempts (final_row now f t r ex x) = t_max_attempts x"
  "t_priority (final_row now f t r ex x) = t_priority x"
  "t_depends_on (final_row now f t r ex x) = t_depends_on x"
  "t_request_key (final_row now f t r ex x) = t_request_key x"
  "t_routing_state (final_row now f t r ex x) = t_routing_state x"
  "t_execution_session (final_row now f t r ex x) = t_execution_session x"
  by (simp_all add: final_row_def Let_def)

lemma final_row_evidence:
  "dget (t_metadata (final_row now f t r ex x)) ''execution_evidence'' =
     dget (case metadata_column ex of None \<Rightarrow> t_metadata x | Some m \<Rightarrow> m) ''execution_evidence''"
  by (simp add: final_row_def cleanup_row_def apply_decision_other METADATA_KEY_def
      transition_row_metadata Let_def)

lemma update_where_update_where:
  "(\<And>x. p (f x) = p x) \<Longrightarrow>
     update_where p g (update_where p f xs) = update_where p (\<lambda>x. g (f x)) xs"
  by (induction xs) auto

lemma apply_worktree_cleanup_tasks:
  assumes "apply_worktree_cleanup_locked now row f t s = (row', s')"
  shows "s_tasks s' = update_where (\<lambda>x. t_id x = t_id row)
      (cleanup_row now (decide f t (t_metadata row) (t_attempt_count row) (t_max_attempts row)
         TERMINAL_STATUSES) (t_metadata row)) (s_tasks s)"
    and "s_lanes s' = s_lanes s" and "s_verify_jobs s' = s_verify_jobs s"
    and "s_harness_runs s' = s_harness_runs s" and "s_event_sink s' = s_event_sink s"
  using assms
  by (auto simp: apply_worktree_cleanup_locked_def cleanup_row_def Let_def update_task_def
        update_where_def map_idI split: if_splits)

lemma transition_locked_ok:
  assumes "transition_locked now tid f t ty r ex al s = Inr (row, s')"
  obtains x where "find_task s tid = Some x"
    and "is_valid_transition f t \<or> (al \<and> f = COMPLETED \<and> t = CANCELLED)"
    and "t \<in> {RUNNING, VERIFYING} \<longrightarrow> valid_execution_evidence
           (case metadata_column ex of None \<Rightarrow> t_metadata x | Some m \<Rightarrow> m)"
    and "s_tasks s' = update_where (\<lambda>y. t_id y = tid)
           (\<lambda>y. cleanup_row now (decide f t (t_metadata (transition_row now f t r ex x))
                 (t_attempt_count (transition_row now f t r ex x)) (t_max_attempts x)
                 TERMINAL_STATUSES) (t_metadata (transition_row now f t r ex x))
                 (transition_row now f t r ex y)) (s_tasks s)"
    and "s_lanes s' = s_lanes s" and "s_verify_jobs s' = s_verify_jobs s"
    and "s_harness_runs s' = s_harness_runs s" and "s_event_sink s' = s_event_sink s"
proof -
  let ?s1 = "update_task tid (transition_row now f t r ex) s"
  from assms obtain y where y: "find_task ?s1 tid = Some y"
    and v: "is_valid_transition f t \<or> (al \<and> f = COMPLETED \<and> t = CANCELLED)"
    and e: "t \<in> {RUNNING, VERIFYING} \<longrightarrow> valid_execution_evidence
      (case metadata_column ex of Some m \<Rightarrow> m
       | None \<Rightarrow> (case find_task s tid of None \<Rightarrow> [] | Some t \<Rightarrow> t_metadata t))"
    and c: "apply_worktree_cleanup_locked now y f t
        (record_event_locked now (t_session y) (Some tid) ty r (Some (status_name f))
           (Some (status_name t)) [] ?s1) = (row, s')"
    by (auto simp: transition_locked_def Let_def split: if_splits option.splits)
  from y obtain x where x: "find_task s tid = Some x" and yx: "y = transition_row now f t r ex x"
    by (auto simp: find_task_update_task)
  have idx: "t_id x = tid" using find_task_Some_iff [OF x] by simp
  note C = apply_worktree_cleanup_tasks [OF c]
  show ?thesis
  proof (rule that [OF x v])
    show "t \<in> {RUNNING, VERIFYING} \<longrightarrow> valid_execution_evidence
           (case metadata_column ex of None \<Rightarrow> t_metadata x | Some m \<Rightarrow> m)"
      using e x by (simp split: option.splits)
    show "s_tasks s' = update_where (\<lambda>y. t_id y = tid)
           (\<lambda>y. cleanup_row now (decide f t (t_metadata (transition_row now f t r ex x))
                 (t_attempt_count (transition_row now f t r ex x)) (t_max_attempts x)
                 TERMINAL_STATUSES) (t_metadata (transition_row now f t r ex x))
                 (transition_row now f t r ex y)) (s_tasks s)"
      using C(1) by (simp add: yx idx update_task_def update_where_update_where)
  qed (use C in \<open>simp_all\<close>)
qed

end
