(* ===== verification/VerifyJobs.thy ===== *)
theory VerifyJobs
  imports QueueModel
begin

text \<open>
  The rows of the verification queue (\<open>verify_jobs\<close>): the state machine of a job
  (\<open>verify_queue.py\<close>), the primitive access to the table, and what may happen to one job
  (\<open>job_moves\<close>). The operations that write the table are in the theories of the
  components that own them; each keeps \<open>job_moves\<close>.
\<close>

section \<open>The state machine of a job\<close>

definition ALL_VERIFY_STATUSES :: "verify_status list" where
  "ALL_VERIFY_STATUSES = [VERIFY_PENDING, VERIFY_CLAIMED, VERIFY_RUNNING, VERIFIED_PASS, VERIFIED_FAIL,
     NEEDS_REWORK, VERIFY_BLOCKED, VERIFY_CANCELLED]"

definition OPEN_VERIFY_STATUSES :: "verify_status list" where
  "OPEN_VERIFY_STATUSES = [VERIFY_PENDING, VERIFY_CLAIMED, VERIFY_RUNNING]"

definition LEASED_VERIFY_STATUSES :: "verify_status list" where
  "LEASED_VERIFY_STATUSES = [VERIFY_CLAIMED, VERIFY_RUNNING]"

definition TERMINAL_VERIFY_STATUSES :: "verify_status list" where
  "TERMINAL_VERIFY_STATUSES = [VERIFIED_PASS, VERIFIED_FAIL, NEEDS_REWORK, VERIFY_CANCELLED]"

fun verify_transitions :: "verify_status \<Rightarrow> verify_status list" where
  \<comment> \<open>\<open>VERIFY_TRANSITIONS\<close>\<close>
  "verify_transitions VERIFY_PENDING = [VERIFY_CLAIMED, VERIFY_BLOCKED, VERIFY_CANCELLED, VERIFIED_PASS]"
| "verify_transitions VERIFY_CLAIMED =
     [VERIFY_RUNNING, VERIFY_PENDING, VERIFIED_PASS, VERIFIED_FAIL, NEEDS_REWORK, VERIFY_BLOCKED, VERIFY_CANCELLED]"
| "verify_transitions VERIFY_RUNNING =
     [VERIFIED_PASS, VERIFIED_FAIL, NEEDS_REWORK, VERIFY_BLOCKED, VERIFY_PENDING, VERIFY_CANCELLED]"
| "verify_transitions VERIFY_BLOCKED = [VERIFY_PENDING, VERIFY_CANCELLED]"
| "verify_transitions VERIFIED_PASS = []"
| "verify_transitions VERIFIED_FAIL = []"
| "verify_transitions NEEDS_REWORK = []"
| "verify_transitions VERIFY_CANCELLED = []"

definition verify_status_name :: "verify_status \<Rightarrow> string" where
  "verify_status_name v = (case v of
     VERIFY_PENDING \<Rightarrow> ''VERIFY_PENDING'' | VERIFY_CLAIMED \<Rightarrow> ''VERIFY_CLAIMED''
   | VERIFY_RUNNING \<Rightarrow> ''VERIFY_RUNNING'' | VERIFIED_PASS \<Rightarrow> ''VERIFIED_PASS''
   | VERIFIED_FAIL \<Rightarrow> ''VERIFIED_FAIL'' | NEEDS_REWORK \<Rightarrow> ''NEEDS_REWORK''
   | VERIFY_BLOCKED \<Rightarrow> ''VERIFY_BLOCKED'' | VERIFY_CANCELLED \<Rightarrow> ''VERIFY_CANCELLED'')"

lemmas verify_groups =
  ALL_VERIFY_STATUSES_def OPEN_VERIFY_STATUSES_def LEASED_VERIFY_STATUSES_def TERMINAL_VERIFY_STATUSES_def

section \<open>The table\<close>

definition find_job :: "store \<Rightarrow> string \<Rightarrow> verify_job option" where
  "find_job s i = find_row (\<lambda>v. v_id v = i) (s_verify_jobs s)"

definition update_job :: "string \<Rightarrow> (verify_job \<Rightarrow> verify_job) \<Rightarrow> store \<Rightarrow> store" where
  "update_job i f s = s\<lparr>s_verify_jobs := update_where (\<lambda>v. v_id v = i) f (s_verify_jobs s)\<rparr>"

definition jobs_wf :: "store \<Rightarrow> bool" where
  \<comment> \<open>\<open>id TEXT PRIMARY KEY\<close>, \<open>UNIQUE (task_id, attempt)\<close>\<close>
  "jobs_wf s \<longleftrightarrow> distinct (map v_id (s_verify_jobs s))
     \<and> distinct (map (\<lambda>v. (v_task_id v, v_attempt v)) (s_verify_jobs s))"

lemma update_job_frames [simp]:
  "s_tasks (update_job i f s) = s_tasks s"
  "s_lanes (update_job i f s) = s_lanes s"
  "s_events (update_job i f s) = s_events s"
  "s_harness_runs (update_job i f s) = s_harness_runs s"
  "s_event_sink (update_job i f s) = s_event_sink s"
  "s_pending (update_job i f s) = s_pending s"
  "s_published (update_job i f s) = s_published s"
  "find_task (update_job i f s) t = find_task s t"
  "find_lane (update_job i f s) l = find_lane s l"
  "s_verify_jobs (update_job i f s) = update_where (\<lambda>v. v_id v = i) f (s_verify_jobs s)"
  by (simp_all add: update_job_def find_task_def find_lane_def)

lemma find_jobD: "find_job s i = Some v \<Longrightarrow> v \<in> set (s_verify_jobs s) \<and> v_id v = i"
  using find_Some_in_set [of "\<lambda>v. v_id v = i"] by (auto simp: find_job_def find_row_def)

lemma find_distinct:
  "distinct (map v_id vs) \<Longrightarrow> v \<in> set vs \<Longrightarrow> List.find (\<lambda>u. v_id u = v_id v) vs = Some v"
  by (induction vs) (auto simp: image_iff)

lemma wf_find_job: "jobs_wf s \<Longrightarrow> v \<in> set (s_verify_jobs s) \<Longrightarrow> find_job s (v_id v) = Some v"
  by (simp add: jobs_wf_def find_job_def find_row_def find_distinct)

lemma wf_job_unique:
  "jobs_wf s \<Longrightarrow> find_job s i = Some v \<Longrightarrow> u \<in> set (s_verify_jobs s) \<Longrightarrow> v_id u = i \<Longrightarrow> u = v"
  using wf_find_job by fastforce

lemma find_job_update:
  assumes "\<And>v. v_id (f v) = v_id v"
  shows "find_job (update_job i f s) j = map_option (\<lambda>v. if j = i then f v else v) (find_job s j)"
proof -
  have "List.find (\<lambda>v. v_id v = j) (update_where (\<lambda>v. v_id v = i) f vs)
      = map_option (\<lambda>v. if j = i then f v else v) (List.find (\<lambda>v. v_id v = j) vs)" for vs
    using assms by (induction vs) auto
  then show ?thesis by (simp add: find_job_def find_row_def)
qed

lemma wf_filter_jobs:
  assumes "jobs_wf s"
  shows "distinct (map v_id (filter p (s_verify_jobs s)))"
    and "v \<in> set (filter p (s_verify_jobs s)) \<Longrightarrow> find_job s (v_id v) = Some v"
  using assms by (auto simp: jobs_wf_def distinct_map_filter intro: wf_find_job)

section \<open>What may happen to a job\<close>

definition job_ok :: "verify_job \<Rightarrow> bool" where
  \<comment> \<open>exactly a leased job has a holder, a token and an expiry\<close>
  "job_ok v \<longleftrightarrow> 0 \<le> v_claim_count v
     \<and> (if v_status v \<in> set LEASED_VERIFY_STATUSES
        then v_claim_token v \<noteq> None \<and> v_lease_expires_at v \<noteq> None \<and> v_verifier v \<noteq> None
        else v_claim_token v = None \<and> v_lease_expires_at v = None)"

definition job_path :: "verify_status \<Rightarrow> verify_status \<Rightarrow> bool" where
  "job_path = (\<lambda>a b. b \<in> set (verify_transitions a))\<^sup>*\<^sup>*"

definition job_moves :: "verify_job \<Rightarrow> verify_job \<Rightarrow> bool" where
  "job_moves x y \<longleftrightarrow> v_id y = v_id x \<and> v_task_id y = v_task_id x \<and> v_attempt y = v_attempt x
     \<and> v_session y = v_session x \<and> v_created_at y = v_created_at x
     \<and> v_required_capabilities y = v_required_capabilities x
     \<and> v_require_independent y = v_require_independent x \<and> v_fallback y = v_fallback x
     \<and> v_implementer y = v_implementer x
     \<and> job_path (v_status x) (v_status y) \<and> v_claim_count x \<le> v_claim_count y
     \<and> (\<exists>more. v_history y = v_history x @ more) \<and> (job_ok x \<longrightarrow> job_ok y)"

definition jobs_evolve :: "store \<Rightarrow> store \<Rightarrow> bool" where
  "jobs_evolve s s' \<longleftrightarrow> (jobs_wf s \<longrightarrow> jobs_wf s')
     \<and> (\<exists>olds news. s_verify_jobs s' = olds @ news \<and> list_all2 job_moves (s_verify_jobs s) olds
          \<and> (\<forall>n\<in>set news. job_ok n))"

lemma job_path_refl [simp]: "job_path a a"
  by (simp add: job_path_def)

lemma job_path_edge: "b \<in> set (verify_transitions a) \<Longrightarrow> job_path a b"
  by (simp add: job_path_def r_into_rtranclp)

lemma job_path_trans: "job_path a b \<Longrightarrow> job_path b c \<Longrightarrow> job_path a c"
  by (simp add: job_path_def)

lemma job_path_terminal: "job_path a b \<Longrightarrow> a \<in> set TERMINAL_VERIFY_STATUSES \<Longrightarrow> b = a"
  unfolding job_path_def by (induction rule: rtranclp_induct) (auto simp: verify_groups)

lemma job_moves_refl [simp]: "job_moves v v"
  by (simp add: job_moves_def)

lemma job_moves_trans: "job_moves x y \<Longrightarrow> job_moves y z \<Longrightarrow> job_moves x z"
  unfolding job_moves_def by (auto intro: job_path_trans)

lemma jobs_evolve_same: "s_verify_jobs s' = s_verify_jobs s \<Longrightarrow> jobs_evolve s s'"
  unfolding jobs_evolve_def jobs_wf_def
  by (intro conjI exI [of _ "s_verify_jobs s"] exI [of _ "[]"]) (simp_all add: list_all2_refl)

lemma jobs_evolve_trans:
  assumes "jobs_evolve s t" and "jobs_evolve t u"
  shows "jobs_evolve s u"
proof -
  from assms(1) obtain o1 n1 where 1: "s_verify_jobs t = o1 @ n1" "list_all2 job_moves (s_verify_jobs s) o1"
    "\<forall>n\<in>set n1. job_ok n" by (auto simp: jobs_evolve_def)
  from assms(2) obtain o2 n2 where 2: "s_verify_jobs u = o2 @ n2" "list_all2 job_moves (o1 @ n1) o2"
    "\<forall>n\<in>set n2. job_ok n" by (auto simp: jobs_evolve_def 1(1))
  from 2(2) obtain oa ob where ab: "o2 = oa @ ob" "list_all2 job_moves o1 oa" "list_all2 job_moves n1 ob"
    by (auto simp: list_all2_append1)
  have "list_all2 job_moves (s_verify_jobs s) oa"
    by (rule list_all2_trans [OF _ 1(2) ab(2)]) (rule job_moves_trans)
  moreover have "\<forall>n\<in>set ob. job_ok n"
  proof
    fix n assume "n \<in> set ob"
    with ab(3) obtain m where "m \<in> set n1" "job_moves m n"
      by (metis in_set_conv_nth list_all2_conv_all_nth)
    with 1(3) show "job_ok n" by (auto simp: job_moves_def)
  qed
  moreover have "s_verify_jobs u = oa @ (ob @ n2)" by (simp add: 2(1) ab(1))
  ultimately have "\<exists>olds news. s_verify_jobs u = olds @ news \<and> list_all2 job_moves (s_verify_jobs s) olds
      \<and> (\<forall>n\<in>set news. job_ok n)"
    using 2(3) by (intro exI [of _ oa] exI [of _ "ob @ n2"]) auto
  moreover have "jobs_wf s \<longrightarrow> jobs_wf u" using assms by (simp add: jobs_evolve_def)
  ultimately show ?thesis unfolding jobs_evolve_def by blast
qed

lemma jobs_evolve_update:
  assumes "\<And>v. v \<in> set (s_verify_jobs s) \<Longrightarrow> v_id v = i \<Longrightarrow> job_moves v (f v)"
  shows "jobs_evolve s (update_job i f s)"
proof -
  let ?g = "\<lambda>v. if v_id v = i then f v else v"
  have g: "job_moves v (?g v)" if "v \<in> set (s_verify_jobs s)" for v using assms that by simp
  have js: "s_verify_jobs (update_job i f s) = map ?g (s_verify_jobs s)" by (simp add: update_where_def)
  have "map v_id (map ?g (s_verify_jobs s)) = map v_id (s_verify_jobs s)"
    "map (\<lambda>v. (v_task_id v, v_attempt v)) (map ?g (s_verify_jobs s))
      = map (\<lambda>v. (v_task_id v, v_attempt v)) (s_verify_jobs s)"
    using g by (auto simp: job_moves_def simp del: if_split)
  then have "jobs_wf (update_job i f s) = jobs_wf s" unfolding jobs_wf_def js by (simp only:)
  moreover have "list_all2 job_moves (s_verify_jobs s) (map ?g (s_verify_jobs s))"
    using g by (simp add: list_all2_conv_all_nth)
  ultimately show ?thesis
    unfolding jobs_evolve_def js by (intro conjI exI [of _ "map ?g (s_verify_jobs s)"] exI [of _ "[]"]) simp_all
qed

lemma jobs_evolve_insert:
  assumes "job_ok v" "find_job s (v_id v) = None"
    and "\<And>u. u \<in> set (s_verify_jobs s) \<Longrightarrow> \<not> (v_task_id u = v_task_id v \<and> v_attempt u = v_attempt v)"
  shows "jobs_evolve s (s\<lparr>s_verify_jobs := s_verify_jobs s @ [v]\<rparr>)"
proof -
  have "v_id v \<notin> v_id ` set (s_verify_jobs s)"
    using assms(2) by (auto simp: find_job_def find_row_def find_None_iff)
  moreover have "(v_task_id v, v_attempt v) \<notin> (\<lambda>v. (v_task_id v, v_attempt v)) ` set (s_verify_jobs s)"
    using assms(3) by fastforce
  ultimately have "jobs_wf s \<longrightarrow> jobs_wf (s\<lparr>s_verify_jobs := s_verify_jobs s @ [v]\<rparr>)"
    by (auto simp: jobs_wf_def)
  then show ?thesis
    using assms(1) unfolding jobs_evolve_def
    by (intro conjI exI [of _ "s_verify_jobs s"] exI [of _ "[v]"]) (simp_all add: list_all2_refl)
qed

lemma jobs_evolve_keeps:
  assumes "jobs_evolve s s'" and "jobs_wf s" and "find_job s i = Some v"
  obtains v' where "find_job s' i = Some v'" "job_moves v v'"
proof -
  from assms(1) obtain olds news where d: "s_verify_jobs s' = olds @ news"
    "list_all2 job_moves (s_verify_jobs s) olds" by (auto simp: jobs_evolve_def)
  from find_jobD [OF assms(3)] obtain n where "n < length (s_verify_jobs s)" "v = s_verify_jobs s ! n"
    and id: "v_id v = i" by (auto simp: in_set_conv_nth)
  with d have m: "job_moves v (olds ! n)" "olds ! n \<in> set (s_verify_jobs s')"
    by (auto simp: list_all2_conv_all_nth)
  have wf: "jobs_wf s'" using assms(1,2) by (simp add: jobs_evolve_def)
  have "v_id (olds ! n) = i" using m(1) id by (simp add: job_moves_def)
  with wf_find_job [OF wf m(2)] m(1) that show ?thesis by simp
qed

lemma jobs_evolve_ok:
  assumes "jobs_evolve s s'" and "\<forall>v\<in>set (s_verify_jobs s). job_ok v" and "y \<in> set (s_verify_jobs s')"
  shows "job_ok y"
proof -
  from assms(1) obtain olds news where d: "s_verify_jobs s' = olds @ news"
    "list_all2 job_moves (s_verify_jobs s) olds" "\<forall>n\<in>set news. job_ok n" by (auto simp: jobs_evolve_def)
  show ?thesis
  proof (cases "y \<in> set olds")
    case True
    with d(2) obtain x where "x \<in> set (s_verify_jobs s)" "job_moves x y"
      by (metis in_set_conv_nth list_all2_conv_all_nth)
    with assms(2) show ?thesis by (auto simp: job_moves_def)
  next
    case False
    with assms(3) d(1,3) show ?thesis by auto
  qed
qed

end
