(* ===== verification/QueueEvolution.thy ===== *)
theory QueueEvolution
  imports QueueTransition VerifyJobs "HOL-Library.Sublist"
begin

text \<open>
  The abstract specification of the queue: what may happen to one task row
  (\<open>row_step\<close>), and what may happen to the table (\<open>evolves\<close>): rows move along
  \<open>row_step\<close>s, rows are appended newborn, no row disappears. Every operation of the
  store is proved to refine it; the safety properties are then proved once, over
  \<open>row_step\<close>.
\<close>

section \<open>Rows\<close>

definition unclaimed :: "task \<Rightarrow> bool" where
  "unclaimed t \<longleftrightarrow> t_claimed_by t = None \<and> t_claim_token t = None \<and> t_lease_expires_at t = None"

definition same_core :: "task \<Rightarrow> task \<Rightarrow> bool" where
  "same_core x y \<longleftrightarrow> t_id y = t_id x \<and> t_title y = t_title x \<and> t_prompt y = t_prompt x
     \<and> t_created_at y = t_created_at x \<and> t_max_attempts y = t_max_attempts x
     \<and> t_priority y = t_priority x \<and> t_depends_on y = t_depends_on x
     \<and> t_request_key y = t_request_key x"

definition same_identity :: "task \<Rightarrow> task \<Rightarrow> bool" where
  \<comment> \<open>the same work, claiming no runtime it did not claim before\<close>
  "same_identity x y \<longleftrightarrow> t_id y = t_id x \<and> t_title y = t_title x \<and> t_prompt y = t_prompt x
     \<and> t_created_at y = t_created_at x \<and> t_max_attempts y = t_max_attempts x
     \<and> t_priority y = t_priority x \<and> t_depends_on y = t_depends_on x
     \<and> t_request_key y = t_request_key x
     \<and> (t_execution_session y = t_execution_session x \<and> t_routing_state y = t_routing_state x
        \<or> t_routing_state y \<notin> set ROUTING_BOUND_STATES)"

definition has_evidence :: "task \<Rightarrow> bool" where
  "has_evidence t \<longleftrightarrow> valid_execution_evidence (t_metadata t)"

lemma valid_evidence_cong:
  "dget m ''execution_evidence'' = dget m' ''execution_evidence'' \<Longrightarrow>
     valid_execution_evidence m = valid_execution_evidence m'"
  by (simp add: valid_execution_evidence_def)

inductive row_step :: "task \<Rightarrow> task \<Rightarrow> bool" where
  advance: "same_identity x y \<Longrightarrow> is_valid_transition (t_status x) (t_status y) \<Longrightarrow>
     (t_status y \<in> {RUNNING, VERIFYING} \<Longrightarrow> has_evidence y) \<Longrightarrow>
     (t_status y \<in> set TERMINAL_STATUSES \<Longrightarrow> unclaimed y) \<Longrightarrow>
     t_attempt_count y = t_attempt_count x + (if t_status y = DISPATCHING then 1 else 0) \<Longrightarrow>
     row_step x y"
| audit: "same_identity x y \<Longrightarrow> t_status x = COMPLETED \<Longrightarrow> t_status y = CANCELLED \<Longrightarrow>
     unclaimed y \<Longrightarrow> t_attempt_count y = t_attempt_count x \<Longrightarrow> row_step x y"
| requeue: "same_identity x y \<Longrightarrow> t_status x \<in> set MIGRATABLE_STATUSES \<Longrightarrow>
     t_status y = QUEUED \<Longrightarrow> unclaimed y \<Longrightarrow> t_attempt_count y = t_attempt_count x \<Longrightarrow>
     row_step x y"
| annotate: "same_identity x y \<Longrightarrow> t_status y = t_status x \<Longrightarrow>
     (has_evidence x \<Longrightarrow> has_evidence y) \<Longrightarrow>
     (t_status x \<in> set TERMINAL_STATUSES \<Longrightarrow> unclaimed x \<Longrightarrow> unclaimed y) \<Longrightarrow>
     t_attempt_count y = t_attempt_count x \<Longrightarrow> row_step x y"

inductive_cases row_stepE: "row_step x y"

inductive row_move :: "task \<Rightarrow> task \<Rightarrow> bool" where
  step: "row_step x y \<Longrightarrow> row_move x y"
| bind: "same_core x y \<Longrightarrow> t_status y = t_status x \<Longrightarrow> t_status x \<notin> set TERMINAL_STATUSES \<Longrightarrow>
     (has_evidence x \<Longrightarrow> has_evidence y) \<Longrightarrow> t_attempt_count y = t_attempt_count x \<Longrightarrow> row_move x y"

inductive_cases row_moveE: "row_move x y"

definition newborn :: "task \<Rightarrow> bool" where
  "newborn t \<longleftrightarrow> t_status t = QUEUED \<and> unclaimed t \<and> t_attempt_count t = 0
     \<and> dget (t_metadata t) ''execution_evidence'' = JNull \<and> t_routing_state t = None"

lemma same_identity_refl [simp]: "same_identity x x"
  by (simp add: same_identity_def)

lemma same_core_refl [simp]: "same_core x x"
  by (simp add: same_core_def)

lemma same_core_trans: "same_core x y \<Longrightarrow> same_core y z \<Longrightarrow> same_core x z"
  by (simp add: same_core_def)

lemma same_identity_core: "same_identity x y \<Longrightarrow> same_core x y"
  by (simp add: same_core_def same_identity_def)

lemma row_step_identity: "row_step x y \<Longrightarrow> same_identity x y"
  by (auto elim: row_stepE)

lemma row_move_core: "row_move x y \<Longrightarrow> same_core x y"
  by (auto elim!: row_moveE intro: same_identity_core row_step_identity)

lemma row_moves_core: "row_move\<^sup>*\<^sup>* x y \<Longrightarrow> same_core x y"
  by (induction rule: rtranclp_induct) (auto intro: same_core_trans row_move_core)

lemma row_step_refl: "row_step x x"
  by (rule row_step.annotate) simp_all

definition row_note :: "task \<Rightarrow> task \<Rightarrow> bool" where
  \<comment> \<open>a write that leaves status, attempts, claim and evidence of the row alone\<close>
  "row_note x y \<longleftrightarrow> same_identity x y \<and> t_status y = t_status x \<and> t_attempt_count y = t_attempt_count x
     \<and> (has_evidence x \<longrightarrow> has_evidence y)
     \<and> (t_status x \<in> set TERMINAL_STATUSES \<longrightarrow> unclaimed x \<longrightarrow> unclaimed y)"

lemma row_noteI:
  assumes "same_identity x y" and "t_status y = t_status x" and "has_evidence x \<Longrightarrow> has_evidence y"
    and "t_status x \<in> set TERMINAL_STATUSES \<Longrightarrow> unclaimed x \<Longrightarrow> unclaimed y"
    and "t_attempt_count y = t_attempt_count x"
  shows "row_note x y"
  using assms by (simp add: row_note_def)

lemma row_note_step: "row_note x y \<Longrightarrow> row_step x y"
  unfolding row_note_def by (rule row_step.annotate) auto

definition recorded_edge :: "status \<Rightarrow> status \<Rightarrow> bool" where
  \<comment> \<open>what an event with both statuses may record: an edge of the table, or a withdrawn completion\<close>
  "recorded_edge a b \<longleftrightarrow> is_valid_transition a b \<or> (a = COMPLETED \<and> b = CANCELLED)"

definition attempt_charge :: "status \<Rightarrow> int" where
  \<comment> \<open>an attempt begins with DISPATCHING\<close>
  "attempt_charge b = (if b = DISPATCHING then 1 else 0)"

section \<open>Tables\<close>

definition store_wf :: "store \<Rightarrow> bool" where
  \<comment> \<open>\<open>id TEXT PRIMARY KEY\<close>\<close>
  "store_wf s \<longleftrightarrow> distinct (map t_id (s_tasks s))"

lemma store_wf_frames [simp]:
  "store_wf (record_event_locked now sess tid ty r f t m s) = store_wf s"
  "store_wf (ensure_lane now x s) = store_wf s"
  "store_wf (update_lane x g s) = store_wf s"
  "store_wf (drain_events s) = store_wf s"
  "store_wf (discard_events s) = store_wf s"
  by (simp_all add: store_wf_def)

lemma store_wf_update_task: "(\<And>t. t_id (f t) = t_id t) \<Longrightarrow> store_wf (update_task tid f s) = store_wf s"
  by (simp add: store_wf_def update_task_def map_update_where_same)

definition evolves :: "store \<Rightarrow> store \<Rightarrow> bool" where
  "evolves s s' \<longleftrightarrow> (store_wf s \<longrightarrow> store_wf s') \<and>
     (\<exists>olds news. s_tasks s' = olds @ news \<and> list_all2 row_move\<^sup>*\<^sup>* (s_tasks s) olds
        \<and> (\<forall>n\<in>set news. \<exists>b. newborn b \<and> row_move\<^sup>*\<^sup>* b n))"

definition touches_only :: "string set \<Rightarrow> store \<Rightarrow> store \<Rightarrow> bool" where
  "touches_only T s s' \<longleftrightarrow> (\<forall>x. x \<notin> T \<longrightarrow> find_task s' x = find_task s x)"

lemma evolves_same: "s_tasks s' = s_tasks s \<Longrightarrow> evolves s s'"
  unfolding evolves_def
  by (intro conjI exI [of _ "s_tasks s"] exI [of _ "[]"]) (simp_all add: store_wf_def list_all2_refl)

lemma evolves_refl [simp]: "evolves s s"
  by (rule evolves_same) simp

lemma list_all2_compose:
  assumes "list_all2 row_move\<^sup>*\<^sup>* xs ys" and "list_all2 row_move\<^sup>*\<^sup>* ys zs"
  shows "list_all2 row_move\<^sup>*\<^sup>* xs zs"
  by (rule list_all2_trans [OF _ assms]) (rule rtranclp_trans)

lemma evolves_trans:
  assumes "evolves s t" and "evolves t u"
  shows "evolves s u"
proof -
  from assms(1) obtain o1 n1 where 1: "s_tasks t = o1 @ n1"
    "list_all2 row_move\<^sup>*\<^sup>* (s_tasks s) o1" "\<forall>n\<in>set n1. \<exists>b. newborn b \<and> row_move\<^sup>*\<^sup>* b n"
    by (auto simp: evolves_def)
  from assms(2) obtain o2 n2 where 2: "s_tasks u = o2 @ n2"
    "list_all2 row_move\<^sup>*\<^sup>* (o1 @ n1) o2" "\<forall>n\<in>set n2. \<exists>b. newborn b \<and> row_move\<^sup>*\<^sup>* b n"
    by (auto simp: evolves_def 1(1))
  from 2(2) obtain oa ob where ab: "o2 = oa @ ob" "list_all2 row_move\<^sup>*\<^sup>* o1 oa"
      "list_all2 row_move\<^sup>*\<^sup>* n1 ob"
    by (auto simp: list_all2_append1)
  have nb: "\<exists>b. newborn b \<and> row_move\<^sup>*\<^sup>* b n" if "n \<in> set ob" for n
  proof -
    from that obtain i where i: "i < length ob" "n = ob ! i"
      by (auto simp: in_set_conv_nth)
    with ab(3) have "row_move\<^sup>*\<^sup>* (n1 ! i) n" "i < length n1"
      by (auto simp: list_all2_conv_all_nth)
    moreover from \<open>i < length n1\<close> 1(3) obtain b where "newborn b" "row_move\<^sup>*\<^sup>* b (n1 ! i)"
      by (meson nth_mem)
    ultimately show ?thesis by (meson rtranclp_trans)
  qed
  have "s_tasks u = oa @ (ob @ n2)" using 2(1) ab(1) by simp
  moreover have "list_all2 row_move\<^sup>*\<^sup>* (s_tasks s) oa"
    by (rule list_all2_compose [OF 1(2) ab(2)])
  moreover have "\<forall>n\<in>set (ob @ n2). \<exists>b. newborn b \<and> row_move\<^sup>*\<^sup>* b n" using nb 2(3) by auto
  moreover have "store_wf s \<longrightarrow> store_wf u" using assms by (auto simp: evolves_def)
  ultimately show ?thesis unfolding evolves_def by blast
qed

lemma evolves_wf: "evolves s s' \<Longrightarrow> store_wf s \<Longrightarrow> store_wf s'"
  by (simp add: evolves_def)

lemma evolves_update_where:
  assumes "\<And>x. x \<in> set (s_tasks s) \<Longrightarrow> p x \<Longrightarrow> row_move x (f x)"
    and "s_tasks s' = update_where p f (s_tasks s)"
  shows "evolves s s'"
proof -
  have id: "t_id (if p x then f x else x) = t_id x" if "x \<in> set (s_tasks s)" for x
    using row_move_core [OF assms(1) [OF that]] by (auto simp: same_core_def)
  have "map t_id (s_tasks s') = map t_id (s_tasks s)"
    by (simp add: assms(2) update_where_def id)
  then have "store_wf s \<longrightarrow> store_wf s'" by (simp add: store_wf_def)
  moreover have "list_all2 row_move\<^sup>*\<^sup>* (s_tasks s) (update_where p f (s_tasks s))"
    using assms(1) by (auto simp: update_where_def list_all2_conv_all_nth)
  ultimately show ?thesis
    unfolding evolves_def by (intro conjI exI [of _ "s_tasks s'"] exI [of _ "[]"]) (simp_all add: assms(2))
qed

lemma evolves_update_task:
  assumes "\<And>x. x \<in> set (s_tasks s) \<Longrightarrow> t_id x = tid \<Longrightarrow> row_move x (f x)"
  shows "evolves s (update_task tid f s)"
  by (rule evolves_update_where [where p = "\<lambda>t. t_id t = tid" and f = f])
     (auto simp: update_task_def assms)

lemma insert_task_Inr:
  "insert_task t s = Inr s' \<longleftrightarrow> find_task s (t_id t) = None \<and>
     (t_request_key t = None \<or> (\<forall>u\<in>set (s_tasks s). t_request_key u \<noteq> t_request_key t)) \<and>
     s' = s\<lparr>s_tasks := s_tasks s @ [t]\<rparr>"
  by (auto simp: insert_task_def)

lemma evolves_insert:
  assumes "insert_task t s = Inr s'" and "newborn t"
  shows "evolves s s'"
proof -
  have f: "find_task s (t_id t) = None" and s': "s_tasks s' = s_tasks s @ [t]"
    using assms(1) by (auto simp: insert_task_Inr)
  have "store_wf s \<longrightarrow> store_wf s'"
    using f by (auto simp: store_wf_def s' find_task_None_iff)
  then show ?thesis
    unfolding evolves_def
    by (intro conjI exI [of _ "s_tasks s"] exI [of _ "[t]"])
       (auto simp: s' assms(2) list_all2_refl intro!: exI [of _ t])
qed

lemma evolves_frames [intro, simp]:
  "evolves s (record_event_locked now sess tid ty r f t m s)"
  "evolves s (ensure_lane now x s)"
  "evolves s (update_lane x g s)"
  "evolves s (drain_events s)"
  "evolves s (discard_events s)"
  by (rule evolves_same, simp)+

section \<open>Finding rows in a well-formed table\<close>

lemma wf_find_task:
  assumes "store_wf s" and "t \<in> set (s_tasks s)"
  shows "find_task s (t_id t) = Some t"
proof -
  have "List.find (\<lambda>u. t_id u = t_id t) xs = Some t"
    if "distinct (map t_id xs)" "t \<in> set xs" for xs
    using that by (induction xs) auto
  with assms show ?thesis by (simp add: store_wf_def find_task_def)
qed

lemma wf_row_unique:
  "store_wf s \<Longrightarrow> find_task s tid = Some x \<Longrightarrow> y \<in> set (s_tasks s) \<Longrightarrow> t_id y = tid \<Longrightarrow> y = x"
  using wf_find_task [of s y] by simp

lemma touches_only_refl [simp]: "touches_only T s s"
  by (simp add: touches_only_def)

lemma touches_only_trans: "touches_only T s t \<Longrightarrow> touches_only T t u \<Longrightarrow> touches_only T s u"
  by (simp add: touches_only_def)

lemma touches_only_update:
  assumes "s_tasks s' = update_where (\<lambda>t. t_id t = tid) f (s_tasks s)" and "\<And>t. t_id (f t) = t_id t"
  shows "touches_only {tid} s s'"
  using assms by (auto simp: touches_only_def find_task_def find_update_where option.map_ident)

lemma touches_only_frames [simp, intro]:
  "touches_only T s (record_event_locked now sess tid ty r f t m s)"
  "touches_only T s (ensure_lane now x s)"
  "touches_only T s (update_lane x g s)"
  "touches_only T s (drain_events s)"
  "touches_only T s (discard_events s)"
  by (simp_all add: touches_only_def)

section \<open>A transition refines one row step\<close>

lemma step_locked_Inr:
  "step_locked now tid f t ty r ex s = Inr s' \<longleftrightarrow>
     (\<exists>row. transition_locked now tid f t ty r ex False s = Inr (row, s'))"
  by (auto simp: step_locked_def and_then_Inr_iff)

primrec no_claim_columns :: "column list \<Rightarrow> bool" where
  "no_claim_columns [] = True"
| "no_claim_columns (c # cs) =
     ((case c of Claimed_by v \<Rightarrow> v = None | Claim_token v \<Rightarrow> v = None
       | Lease_expires_at v \<Rightarrow> v = None | _ \<Rightarrow> True) \<and> no_claim_columns cs)"

lemma no_claim_columns_clear [simp]: "no_claim_columns (clear_claim @ cs) = no_claim_columns cs"
  by (simp add: clear_claim_def)

lemma metadata_column_clear [simp]: "metadata_column (clear_claim @ cs) = metadata_column cs"
  by (simp add: clear_claim_def split: option.splits)

lemma set_columns_unclaimed: "no_claim_columns cs \<Longrightarrow> unclaimed t \<Longrightarrow> unclaimed (set_columns cs t)"
proof (induction cs arbitrary: t)
  case Nil
  then show ?case by simp
next
  case (Cons c cs)
  then show ?case by (cases c) (simp_all add: unclaimed_def)
qed

lemma transition_row_unclaimed:
  "t \<in> set TERMINAL_STATUSES \<Longrightarrow> no_claim_columns ex \<Longrightarrow> unclaimed (transition_row now f t r ex x)"
  unfolding transition_row_def by (rule set_columns_unclaimed) (simp_all add: unclaimed_def)

lemma set_columns_clear_first: "no_claim_columns cs \<Longrightarrow> unclaimed (set_columns (clear_claim @ cs) t)"
  unfolding clear_claim_def by (simp, rule set_columns_unclaimed) (simp_all add: unclaimed_def)

lemma final_row_unclaimed:
  "t \<in> set TERMINAL_STATUSES \<Longrightarrow> no_claim_columns ex \<Longrightarrow> unclaimed (final_row now f t r ex x)"
  using transition_row_unclaimed [of t ex now f r x]
  by (simp add: final_row_def Let_def unclaimed_def)

lemma final_row_identity: "same_identity x (final_row now f t r ex x)"
  by (simp add: same_identity_def)

lemma final_row_attempts:
  "t_attempt_count (final_row now f t r ex x) =
     t_attempt_count x + (if t = DISPATCHING then 1 else 0)"
  by (simp add: final_row_def Let_def)

lemma transition_locked_final:
  assumes "transition_locked now tid f t ty r ex al s = Inr (row, s')" and "store_wf s"
  obtains x where "find_task s tid = Some x"
    and "is_valid_transition f t \<or> (al \<and> f = COMPLETED \<and> t = CANCELLED)"
    and "t \<in> {RUNNING, VERIFYING} \<longrightarrow> has_evidence (final_row now f t r ex x)"
    and "s_tasks s' = update_where (\<lambda>y. t_id y = tid) (final_row now f t r ex) (s_tasks s)"
    and "s_lanes s' = s_lanes s" and "s_verify_jobs s' = s_verify_jobs s"
    and "s_harness_runs s' = s_harness_runs s" and "s_event_sink s' = s_event_sink s"
proof -
  from assms(1) obtain x where x: "find_task s tid = Some x"
    and v: "is_valid_transition f t \<or> (al \<and> f = COMPLETED \<and> t = CANCELLED)"
    and e: "t \<in> {RUNNING, VERIFYING} \<longrightarrow> valid_execution_evidence
           (case metadata_column ex of None \<Rightarrow> t_metadata x | Some m \<Rightarrow> m)"
    and u: "s_tasks s' = update_where (\<lambda>y. t_id y = tid)
           (\<lambda>y. cleanup_row now (decide f t (t_metadata (transition_row now f t r ex x))
                 (t_attempt_count (transition_row now f t r ex x)) (t_max_attempts x)
                 TERMINAL_STATUSES) (t_metadata (transition_row now f t r ex x))
                 (transition_row now f t r ex y)) (s_tasks s)"
    and fr: "s_lanes s' = s_lanes s" "s_verify_jobs s' = s_verify_jobs s"
      "s_harness_runs s' = s_harness_runs s" "s_event_sink s' = s_event_sink s"
    by (rule transition_locked_ok)
  have eq: "s_tasks s' = update_where (\<lambda>y. t_id y = tid) (final_row now f t r ex) (s_tasks s)"
    unfolding u update_where_def
    by (rule map_cong [OF refl]) (auto simp: final_row_def Let_def dest: wf_row_unique [OF assms(2) x])
  have "t \<in> {RUNNING, VERIFYING} \<longrightarrow> has_evidence (final_row now f t r ex x)"
    using e final_row_evidence [of now f t r ex x] unfolding has_evidence_def
    by (metis valid_evidence_cong)
  with that x v eq fr show ?thesis by blast
qed

lemma row_step_final:
  assumes "t_status x = f" and "is_valid_transition f t \<or> (f = COMPLETED \<and> t = CANCELLED)"
    and "t \<in> {RUNNING, VERIFYING} \<longrightarrow> has_evidence (final_row now f t r ex x)"
    and "t \<in> set TERMINAL_STATUSES \<longrightarrow> no_claim_columns ex"
  shows "row_step x (final_row now f t r ex x)"
  using assms(2)
proof
  assume "is_valid_transition f t"
  then show ?thesis
    using assms by (intro row_step.advance)
      (auto simp: final_row_identity final_row_attempts intro: final_row_unclaimed)
next
  assume a: "f = COMPLETED \<and> t = CANCELLED"
  then have "unclaimed (final_row now f t r ex x)"
    using assms(4) by (intro final_row_unclaimed) (auto simp: status_groups)
  with a assms(1) show ?thesis
    by (intro row_step.audit) (auto simp: final_row_identity final_row_attempts)
qed

lemma transition_locked_evolves:
  assumes "transition_locked now tid f t ty r ex al s = Inr (row, s')" and "store_wf s"
    and "\<And>x. find_task s tid = Some x \<Longrightarrow> t_status x = f"
    and "t \<in> set TERMINAL_STATUSES \<longrightarrow> no_claim_columns ex"
  shows "evolves s s'" and "touches_only {tid} s s'"
proof -
  from assms(1,2) obtain x where x: "find_task s tid = Some x"
    and v: "is_valid_transition f t \<or> (al \<and> f = COMPLETED \<and> t = CANCELLED)"
    and e: "t \<in> {RUNNING, VERIFYING} \<longrightarrow> has_evidence (final_row now f t r ex x)"
    and u: "s_tasks s' = update_where (\<lambda>y. t_id y = tid) (final_row now f t r ex) (s_tasks s)"
    by (rule transition_locked_final)
  show "evolves s s'"
  proof (rule evolves_update_where [OF _ u])
    fix y assume "y \<in> set (s_tasks s)" "t_id y = tid"
    then have [simp]: "y = x" using wf_row_unique [OF assms(2) x] by blast
    show "row_move y (final_row now f t r ex y)"
      using assms(3) [OF x] v e assms(4) by (intro row_move.step row_step_final) auto
  qed
  show "touches_only {tid} s s'"
    by (rule touches_only_update [OF u]) simp
qed

section \<open>Loops over selected rows\<close>

lemma wf_filter_rows:
  assumes "store_wf s"
  shows "distinct (map t_id (filter p (s_tasks s)))"
    and "\<forall>r\<in>set (filter p (s_tasks s)). find_task s (t_id r) = Some r"
  using assms by (auto simp: store_wf_def distinct_map_filter intro: wf_find_task)

section \<open>What every evolution keeps\<close>

definition row_safe :: "task \<Rightarrow> bool" where
  \<comment> \<open>running work is proven to have started; finished work holds no claim\<close>
  "row_safe t \<longleftrightarrow> (t_status t \<in> {RUNNING, VERIFYING} \<longrightarrow> has_evidence t)
     \<and> (t_status t \<in> set TERMINAL_STATUSES \<longrightarrow> unclaimed t) \<and> 0 \<le> t_attempt_count t"

lemma newborn_safe: "newborn t \<Longrightarrow> row_safe t"
  by (simp add: newborn_def row_safe_def status_groups)

lemma row_step_safe: "row_step x y \<Longrightarrow> row_safe x \<Longrightarrow> row_safe y"
  by (erule row_stepE) (auto simp: row_safe_def status_groups)

lemma row_move_safe: "row_move x y \<Longrightarrow> row_safe x \<Longrightarrow> row_safe y"
  by (erule row_moveE) (auto simp: row_step_safe, simp add: row_safe_def)

lemma row_moves_safe: "row_move\<^sup>*\<^sup>* x y \<Longrightarrow> row_safe x \<Longrightarrow> row_safe y"
  by (induction rule: rtranclp_induct) (auto intro: row_move_safe)

definition table_safe :: "store \<Rightarrow> bool" where
  "table_safe s \<longleftrightarrow> store_wf s \<and> (\<forall>t\<in>set (s_tasks s). row_safe t)"

lemma evolves_rows:
  assumes "evolves s s'" and "y \<in> set (s_tasks s')"
  obtains (old) x where "x \<in> set (s_tasks s)" "row_move\<^sup>*\<^sup>* x y"
    | (new) b where "newborn b" "row_move\<^sup>*\<^sup>* b y"
proof -
  from assms(1) obtain olds news where d: "s_tasks s' = olds @ news"
    "list_all2 row_move\<^sup>*\<^sup>* (s_tasks s) olds" "\<forall>n\<in>set news. \<exists>b. newborn b \<and> row_move\<^sup>*\<^sup>* b n"
    by (auto simp: evolves_def)
  from assms(2) d(1) have "y \<in> set olds \<or> y \<in> set news" by auto
  then show ?thesis
  proof
    assume "y \<in> set olds"
    then obtain i where "i < length olds" "y = olds ! i" by (auto simp: in_set_conv_nth)
    with d(2) have "row_move\<^sup>*\<^sup>* (s_tasks s ! i) y" "s_tasks s ! i \<in> set (s_tasks s)"
      by (auto simp: list_all2_conv_all_nth)
    then show ?thesis using old by blast
  next
    assume "y \<in> set news"
    then show ?thesis using d(3) new by blast
  qed
qed

lemma evolves_safe: "evolves s s' \<Longrightarrow> table_safe s \<Longrightarrow> table_safe s'"
  unfolding table_safe_def
  by (metis evolves_rows evolves_wf newborn_safe row_moves_safe)

lemma evolves_keeps_rows:
  assumes "evolves s s'" and "store_wf s" and "find_task s tid = Some x"
  obtains y where "find_task s' tid = Some y" "row_move\<^sup>*\<^sup>* x y"
proof -
  from assms(1) obtain olds news where d: "s_tasks s' = olds @ news"
    "list_all2 row_move\<^sup>*\<^sup>* (s_tasks s) olds" by (auto simp: evolves_def)
  from find_task_Some_iff [OF assms(3)] have x: "x \<in> set (s_tasks s)" "t_id x = tid" by auto
  then obtain i where "i < length (s_tasks s)" "x = s_tasks s ! i" by (auto simp: in_set_conv_nth)
  with d have y: "row_move\<^sup>*\<^sup>* x (olds ! i)" "olds ! i \<in> set (s_tasks s')"
    by (auto simp: list_all2_conv_all_nth)
  have "t_id (olds ! i) = tid"
    using row_moves_core [OF y(1)] x(2) by (simp add: same_core_def)
  with wf_find_task [OF evolves_wf [OF assms(1,2)] y(2)] y(1) show ?thesis
    using that by auto
qed

definition terminal :: "task \<Rightarrow> bool" where
  "terminal t \<longleftrightarrow> t_status t \<in> set TERMINAL_STATUSES"

lemma row_step_terminal:
  "row_step x y \<Longrightarrow> terminal x \<Longrightarrow>
     t_status y = t_status x \<or> (t_status x = COMPLETED \<and> t_status y = CANCELLED)"
  by (erule row_stepE) (auto simp: terminal_def status_groups is_valid_transition_def)

lemma row_move_terminal:
  "row_move x y \<Longrightarrow> terminal x \<Longrightarrow>
     t_status y = t_status x \<or> (t_status x = COMPLETED \<and> t_status y = CANCELLED)"
  by (erule row_moveE) (auto dest: row_step_terminal)

lemma row_moves_terminal:
  "row_move\<^sup>*\<^sup>* x y \<Longrightarrow> terminal x \<Longrightarrow>
     terminal y \<and> (t_status y = t_status x \<or> (t_status x = COMPLETED \<and> t_status y = CANCELLED))"
proof (induction rule: rtranclp_induct)
  case base
  then show ?case by simp
next
  case (step y z)
  then have y: "terminal y"
    and xy: "t_status y = t_status x \<or> (t_status x = COMPLETED \<and> t_status y = CANCELLED)" by auto
  from row_move_terminal [OF step.hyps(2) y] xy step.prems show ?case
    by (auto simp: terminal_def status_groups)
qed

lemma row_step_attempts: "row_step x y \<Longrightarrow> t_attempt_count x \<le> t_attempt_count y"
  by (erule row_stepE) (simp_all split: if_splits)

lemma row_moves_attempts: "row_move\<^sup>*\<^sup>* x y \<Longrightarrow> t_attempt_count x \<le> t_attempt_count y"
  by (induction rule: rtranclp_induct) (auto elim!: row_moveE dest: row_step_attempts)

section \<open>The contract every operation keeps\<close>

text \<open>
  \<open>store_writes\<close> is the interface between the store's primitive writes and its
  operations: a relation between stores that every primitive write respects. A write of a row is a note
  (\<open>R_note\<close>), a change of status with the event that records both statuses (\<open>R_move\<close>), or a requeue with
  the two events of a migration (\<open>R_migrate\<close>): no law changes a status without its event. An event alone
  names no status of a task (\<open>R_event\<close>), the statuses of a verification job (\<open>R_job_event\<close>), or repeats the
  status the task has (\<open>R_echo\<close>: the sweep over blocked tasks logs its transition a second time).
  \<open>store_relation\<close> adds that the relation keeps the primary key. Each operation is shown once,
  for any such relation, to respect it; the relations of interest (\<open>evolves\<close>, the append-only audit
  log, the log that explains every status, the lanes, and their conjunction \<open>queue_step\<close>) are
  interpretations. A relation that looks at the rows and at the log separately needs the simpler laws of
  \<open>separate_writes\<close> only.
\<close>

locale store_writes =
  fixes R :: "store \<Rightarrow> store \<Rightarrow> bool"
  assumes R_refl: "R s s"
    and R_trans: "R s t \<Longrightarrow> R t u \<Longrightarrow> R s u"
    and R_event: "R s (record_event_locked now sess tid ty reas None None md s)"
    and R_job_event: "R s (record_event_locked now sess tid ty reas (Some (verify_status_name v))
      (Some (verify_status_name w)) md s)"
    and R_echo: "find_task s i = Some x \<Longrightarrow>
      R s (record_event_locked now sess (Some i) ''AI_RECONCILED'' reas fs (Some (status_name (t_status x))) md s)"
    and R_note: "(\<And>x. x \<in> set (s_tasks s) \<Longrightarrow> p x \<Longrightarrow> row_note x (g x)) \<Longrightarrow>
      R s (s\<lparr>s_tasks := update_where p g (s_tasks s)\<rparr>)"
    and R_move: "store_wf s \<Longrightarrow> find_task s i = Some x \<Longrightarrow> row_step x (g x) \<Longrightarrow>
      recorded_edge (t_status x) (t_status (g x)) \<Longrightarrow>
      t_attempt_count (g x) = t_attempt_count x + attempt_charge (t_status (g x)) \<Longrightarrow>
      R s (record_event_locked now sess (Some i) ty reas (Some (status_name (t_status x)))
             (Some (status_name (t_status (g x)))) md (update_task i g s))"
    and R_migrate: "store_wf s \<Longrightarrow> find_task s i = Some x \<Longrightarrow> row_step x (g x) \<Longrightarrow>
      t_status x \<in> set MIGRATABLE_STATUSES \<Longrightarrow> t_status (g x) = QUEUED \<Longrightarrow>
      t_attempt_count (g x) = t_attempt_count x \<Longrightarrow>
      R s (record_event_locked now sess (Some i) ''MIGRATED_IN'' reas None None md
            (record_event_locked now sess' (Some i) ''MIGRATED_OUT'' reas None None md' (update_task i g s)))"
    and R_insert: "newborn n \<Longrightarrow> insert_task n s = Inr s' \<Longrightarrow> R s s'"
    and R_ensure_lane: "R s (ensure_lane now sess s)"
    and R_lane: "(\<And>l. l_session (h l) = l_session l) \<Longrightarrow> R s (update_lane sess h s)"
    and R_job: "(\<And>v. v \<in> set (s_verify_jobs s) \<Longrightarrow> v_id v = i \<Longrightarrow> job_moves v (jf v)) \<Longrightarrow>
      R s (update_job i jf s)"
    and R_new_job: "job_ok j \<Longrightarrow> find_job s (v_id j) = None \<Longrightarrow>
      (\<And>u. u \<in> set (s_verify_jobs s) \<Longrightarrow> \<not> (v_task_id u = v_task_id j \<and> v_attempt u = v_attempt j)) \<Longrightarrow>
      R s (s\<lparr>s_verify_jobs := s_verify_jobs s @ [j]\<rparr>)"
    and R_rename: "find_lane s new = None \<Longrightarrow> R s (rename_rows now old new s)"
    and R_bind: "find_task s i = Some x \<Longrightarrow> t_status x \<notin> set TERMINAL_STATUSES \<Longrightarrow> store_wf s \<Longrightarrow>
      (\<And>u. u \<in> set (s_tasks s) \<Longrightarrow> t_id u \<noteq> i \<Longrightarrow> \<not> holds_runtime sess u) \<Longrightarrow>
      R s (update_task i (bind_row now sess node state ev) s)"
    and R_drain: "R s (drain_events s)"
begin

lemma R_note_task:
  assumes "\<And>x. x \<in> set (s_tasks s) \<Longrightarrow> t_id x = tid \<Longrightarrow> row_note x (g x)"
  shows "R s (update_task tid g s)"
  unfolding update_task_def by (rule R_note) (rule assms)

lemma R_note_row:
  assumes "store_wf s" and "find_task s tid = Some x" and "row_note x (g x)"
  shows "R s (update_task tid g s)"
  using wf_row_unique [OF assms(1,2)] assms(3) by (intro R_note_task) blast

lemma R_connection:
  assumes "with_connection body s = (r, s')" and "s_pending s = []"
    and "\<And>a t. body s = Inr (a, t) \<Longrightarrow> R s t"
  shows "R s s'"
  using assms(1)
proof (cases rule: with_connection_cases)
  case (raised e)
  then have "s' = s" using assms(2) by (simp add: discard_events_def)
  then show ?thesis by (simp add: R_refl)
next
  case (committed a t)
  then show ?thesis using R_trans [OF assms(3) R_drain] by simp
qed

lemma R_cleanup:
  assumes "apply_worktree_cleanup_locked now row f t s = (row', s')"
    and "store_wf s" and "find_task s (t_id row) = Some row"
  shows "R s s'"
proof -
  let ?d = "decide f t (t_metadata row) (t_attempt_count row) (t_max_attempts row) TERMINAL_STATUSES"
  have st: "row_note row (row\<lparr>t_metadata := apply_decision (t_metadata row) ?d now\<rparr>)"
    by (rule row_noteI)
       (simp_all add: same_identity_def has_evidence_def unclaimed_def valid_execution_evidence_def
          apply_decision_other METADATA_KEY_def)
  let ?u = "update_task (t_id row)
     (\<lambda>x. x\<lparr>t_metadata := apply_decision (t_metadata row) ?d now\<rparr>) s"
  have "R s ?u" using st by (intro R_note_row [OF assms(2,3)])
  then have "R s (log_event now (t_session row) (Some (t_id row)) (str_or (dec_event_type ?d) [])
      (Some (dec_reason ?d)) ?u)" by (rule R_trans [OF _ R_event])
  then show ?thesis
    using assms(1) R_refl by (auto simp: apply_worktree_cleanup_locked_def Let_def split: if_splits)
qed

lemma row_step_transition:
  assumes "t_status x = f" and "is_valid_transition f t \<or> (f = COMPLETED \<and> t = CANCELLED)"
    and "t \<in> {RUNNING, VERIFYING} \<longrightarrow> valid_execution_evidence
           (case metadata_column ex of None \<Rightarrow> t_metadata x | Some m \<Rightarrow> m)"
    and "t \<in> set TERMINAL_STATUSES \<longrightarrow> no_claim_columns ex"
  shows "row_step x (transition_row now f t r ex x)"
  using assms(2)
proof
  assume "is_valid_transition f t"
  then show ?thesis
    using assms by (intro row_step.advance)
      (auto simp: same_identity_def has_evidence_def transition_row_metadata
        intro: transition_row_unclaimed)
next
  assume a: "f = COMPLETED \<and> t = CANCELLED"
  then have "unclaimed (transition_row now f t r ex x)"
    using assms(4) by (intro transition_row_unclaimed) (auto simp: status_groups)
  with a assms(1) show ?thesis
    by (intro row_step.audit) (auto simp: same_identity_def)
qed

lemma R_transition:
  assumes "transition_locked now tid f t ty r ex al s = Inr (row, s')" and "store_wf s"
    and "\<And>x. find_task s tid = Some x \<Longrightarrow> t_status x = f"
    and "t \<in> set TERMINAL_STATUSES \<longrightarrow> no_claim_columns ex"
  shows "R s s'"
proof -
  let ?s1 = "update_task tid (transition_row now f t r ex) s"
  from assms(1) obtain y where y: "find_task ?s1 tid = Some y"
    and v: "is_valid_transition f t \<or> (f = COMPLETED \<and> t = CANCELLED)"
    and e: "t \<in> {RUNNING, VERIFYING} \<longrightarrow> valid_execution_evidence
      (case metadata_column ex of Some m \<Rightarrow> m
       | None \<Rightarrow> (case find_task s tid of None \<Rightarrow> [] | Some t \<Rightarrow> t_metadata t))"
    and c: "apply_worktree_cleanup_locked now y f t
        (record_event_locked now (t_session y) (Some tid) ty r (Some (status_name f))
           (Some (status_name t)) [] ?s1) = (row, s')" (is "apply_worktree_cleanup_locked _ _ _ _ ?s2 = _")
    by (auto simp: transition_locked_def Let_def split: if_splits option.splits)
  from y obtain x where x: "find_task s tid = Some x"
    by (auto simp: find_task_update_task)
  have f: "f = t_status x" using assms(3) [OF x] by simp
  have "row_step x (transition_row now f t r ex x)"
    using v e assms(4) x by (intro row_step_transition assms(3)) (auto split: option.splits)
  moreover have "recorded_edge (t_status x) (t_status (transition_row now f t r ex x))"
    using v f by (simp add: recorded_edge_def)
  moreover have "t_attempt_count (transition_row now f t r ex x)
      = t_attempt_count x + attempt_charge (t_status (transition_row now f t r ex x))" by (simp add: attempt_charge_def)
  ultimately have s2: "R s ?s2"
    using R_move [OF assms(2) x, where g = "transition_row now f t r ex"] f by simp
  have wf: "store_wf ?s2"
    using assms(2) by (simp add: store_wf_def update_task_def map_update_where_same)
  have "find_task ?s2 (t_id y) = Some y"
    using y find_task_Some_iff [OF y] by simp
  then have "R ?s2 s'" by (rule R_cleanup [OF c wf])
  then show ?thesis by (rule R_trans [OF s2])
qed

end

locale separate_writes =
  fixes R :: "store \<Rightarrow> store \<Rightarrow> bool"
  assumes W_refl: "R s s"
    and W_trans: "R s t \<Longrightarrow> R t u \<Longrightarrow> R s u"
    and W_event: "R s (record_event_locked now sess tid ty reas fs ts md s)"
    and W_rows: "(\<And>x. x \<in> set (s_tasks s) \<Longrightarrow> p x \<Longrightarrow> row_step x (g x)) \<Longrightarrow>
      R s (s\<lparr>s_tasks := update_where p g (s_tasks s)\<rparr>)"
    and W_insert: "newborn n \<Longrightarrow> insert_task n s = Inr s' \<Longrightarrow> R s s'"
    and W_ensure_lane: "R s (ensure_lane now sess s)"
    and W_lane: "(\<And>l. l_session (h l) = l_session l) \<Longrightarrow> R s (update_lane sess h s)"
    and W_job: "(\<And>v. v \<in> set (s_verify_jobs s) \<Longrightarrow> v_id v = i \<Longrightarrow> job_moves v (jf v)) \<Longrightarrow>
      R s (update_job i jf s)"
    and W_new_job: "job_ok j \<Longrightarrow> find_job s (v_id j) = None \<Longrightarrow>
      (\<And>u. u \<in> set (s_verify_jobs s) \<Longrightarrow> \<not> (v_task_id u = v_task_id j \<and> v_attempt u = v_attempt j)) \<Longrightarrow>
      R s (s\<lparr>s_verify_jobs := s_verify_jobs s @ [j]\<rparr>)"
    and W_rename: "find_lane s new = None \<Longrightarrow> R s (rename_rows now old new s)"
    and W_bind: "find_task s i = Some x \<Longrightarrow> t_status x \<notin> set TERMINAL_STATUSES \<Longrightarrow> store_wf s \<Longrightarrow>
      (\<And>u. u \<in> set (s_tasks s) \<Longrightarrow> t_id u \<noteq> i \<Longrightarrow> \<not> holds_runtime sess u) \<Longrightarrow>
      R s (update_task i (bind_row now sess node state ev) s)"
    and W_drain: "R s (drain_events s)"
begin

lemma W_row:
  assumes "store_wf s" and "find_task s tid = Some x" and "row_step x (g x)"
  shows "R s (update_task tid g s)"
  unfolding update_task_def
  using wf_row_unique [OF assms(1,2)] assms(3) by (intro W_rows) blast

end

sublocale separate_writes \<subseteq> store_writes R
proof
  show "R s (s\<lparr>s_tasks := update_where p g (s_tasks s)\<rparr>)"
    if "\<And>x. x \<in> set (s_tasks s) \<Longrightarrow> p x \<Longrightarrow> row_note x (g x)" for s p g
    using that by (intro W_rows row_note_step)
  show "R s (update_task i (bind_row now sess node state ev) s)"
    if "find_task s i = Some x" "t_status x \<notin> set TERMINAL_STATUSES" "store_wf s"
      "\<And>u. u \<in> set (s_tasks s) \<Longrightarrow> t_id u \<noteq> i \<Longrightarrow> \<not> holds_runtime sess u"
    for s i x now sess node state ev by (rule W_bind [OF that])
qed (fact W_refl W_trans W_event W_insert W_ensure_lane W_lane W_job W_new_job W_rename W_drain
  | rule W_event | erule (2) W_trans [OF W_row W_event] | erule (2) W_trans [OF W_row W_trans [OF W_event W_event]])+

lemma transition_locked_touches:
  assumes "transition_locked now tid f t ty r ex al s = Inr (row, s')" and "store_wf s"
  shows "touches_only {tid} s s'"
proof -
  from assms obtain x where
    "s_tasks s' = update_where (\<lambda>y. t_id y = tid) (final_row now f t r ex) (s_tasks s)"
    by (rule transition_locked_final)
  then show ?thesis by (rule touches_only_update) simp
qed

locale separate_relation = separate_writes +
  assumes W_wf: "R s s' \<Longrightarrow> store_wf s \<Longrightarrow> store_wf s'"

locale store_relation = store_writes +
  assumes R_wf: "R s s' \<Longrightarrow> store_wf s \<Longrightarrow> store_wf s'"
begin

lemma R_for_each_rows:
  assumes "for_each body rows s = Inr s'" and "store_wf s"
    and "distinct (map t_id rows)" and "\<forall>r\<in>set rows. find_task s (t_id r) = Some r"
    and "\<And>r s s'. r \<in> set rows \<Longrightarrow> store_wf s \<Longrightarrow> find_task s (t_id r) = Some r \<Longrightarrow>
           body r s = Inr s' \<Longrightarrow> R s s' \<and> touches_only {t_id r} s s'"
  shows "R s s' \<and> touches_only (t_id ` set rows) s s'"
  using assms
proof (induction rows arbitrary: s)
  case Nil
  then show ?case by (simp add: R_refl)
next
  case (Cons r rows)
  from Cons.prems(1) obtain t where t: "body r s = Inr t" "for_each body rows t = Inr s'"
    by (auto elim: and_then_InrE)
  have step: "R s t" "touches_only {t_id r} s t"
    using Cons.prems(5) [of r s t] Cons.prems(2,4) t(1) by auto
  have rest: "R t s' \<and> touches_only (t_id ` set rows) t s'"
  proof (rule Cons.IH [OF t(2)])
    show "store_wf t" using R_wf [OF step(1) Cons.prems(2)] .
    show "distinct (map t_id rows)" using Cons.prems(3) by simp
    show "\<forall>q\<in>set rows. find_task t (t_id q) = Some q"
    proof
      fix q assume q: "q \<in> set rows"
      with Cons.prems(3) have "t_id q \<noteq> t_id r" by (auto simp: image_iff)
      with step(2) have "find_task t (t_id q) = find_task s (t_id q)"
        by (simp add: touches_only_def)
      with q Cons.prems(4) show "find_task t (t_id q) = Some q" by simp
    qed
    show "R a b \<and> touches_only {t_id q} a b"
      if "q \<in> set rows" "store_wf a" "find_task a (t_id q) = Some q" "body q a = Inr b" for q a b
      using Cons.prems(5) [of q a b] that by simp
  qed
  have "touches_only (t_id ` set (r # rows)) s s'"
    using step(2) rest by (auto simp: touches_only_def)
  with rest show ?case using R_trans [OF step(1)] by blast
qed

lemma R_for_each_transition:
  assumes "for_each (\<lambda>x. step_locked now (t_id x) (src x) (dst x) ty (why x) (ex x)) rows s = Inr s'"
    and "store_wf s" and "distinct (map t_id rows)"
    and "\<forall>x\<in>set rows. find_task s (t_id x) = Some x"
    and "\<And>x. x \<in> set rows \<Longrightarrow> t_status x = src x"
    and "\<And>x. x \<in> set rows \<Longrightarrow> dst x \<in> set TERMINAL_STATUSES \<longrightarrow> no_claim_columns (ex x)"
  shows "R s s' \<and> touches_only (t_id ` set rows) s s'"
proof (rule R_for_each_rows [OF assms(1-4)])
  fix x a b
  assume x: "x \<in> set rows" "store_wf a" "find_task a (t_id x) = Some x"
    and "step_locked now (t_id x) (src x) (dst x) ty (why x) (ex x) a = Inr b"
  then obtain row where tr: "transition_locked now (t_id x) (src x) (dst x) ty (why x) (ex x) False a = Inr (row, b)"
    by (auto simp: step_locked_Inr)
  show "R a b \<and> touches_only {t_id x} a b"
    using R_transition [OF tr x(2) _ assms(6) [OF x(1)]] transition_locked_touches [OF tr x(2)] x(3)
      assms(5) [OF x(1)]
    by simp
qed

end

sublocale separate_relation \<subseteq> store_relation R
  by unfold_locales (rule W_wf)

lemma row_move_bind:
  "t_status x \<notin> set TERMINAL_STATUSES \<Longrightarrow> row_move x (bind_row now sess node state ev x)"
  by (rule row_move.bind) (simp_all add: same_core_def has_evidence_def bind_row_def)

interpretation evolution: separate_relation evolves
proof
  show "evolves s (s\<lparr>s_tasks := update_where p g (s_tasks s)\<rparr>)"
    if "\<And>x. x \<in> set (s_tasks s) \<Longrightarrow> p x \<Longrightarrow> row_step x (g x)" for s p g
    using that by (intro evolves_update_where [where p = p and f = g] row_move.step) simp_all
  show "evolves s (rename_rows now old new s)" for s now old new
  proof (rule evolves_trans)
    let ?t = "s\<lparr>s_tasks := update_where (\<lambda>t. t_session t = old)
                (\<lambda>t. t\<lparr>t_session := new, t_updated_at := now\<rparr>) (s_tasks s)\<rparr>"
    show "evolves s ?t"
      by (rule evolves_update_where [where p = "\<lambda>t. t_session t = old"
             and f = "\<lambda>t. t\<lparr>t_session := new, t_updated_at := now\<rparr>"])
         (auto intro!: row_move.step row_step.annotate simp: same_identity_def has_evidence_def unclaimed_def)
    show "evolves ?t (rename_rows now old new s)"
      by (rule evolves_update_where)
         (auto intro!: row_move.step row_step.annotate
           simp: same_identity_def has_evidence_def unclaimed_def rename_rows_def)
  qed
  show "evolves s (update_task tid (bind_row now sess node state ev) s)"
    if "find_task s tid = Some x" "t_status x \<notin> set TERMINAL_STATUSES" "store_wf s"
    for s tid x now sess node state ev
    using wf_row_unique [OF that(3,1)] that(2) by (auto intro!: evolves_update_task row_move_bind)
qed (auto intro: evolves_trans evolves_insert evolves_same evolves_wf)

section \<open>The audit log is append-only\<close>

definition log_dense :: "store \<Rightarrow> bool" where
  \<comment> \<open>\<open>id INTEGER PRIMARY KEY AUTOINCREMENT\<close>\<close>
  "log_dense s \<longleftrightarrow> map e_id (s_events s) = [1..<Suc (length (s_events s))]"

definition sink_in_step :: "store \<Rightarrow> bool" where
  \<comment> \<open>the sink has been, or is about to be, told of logged events only, in order; some may have been lost\<close>
  "sink_in_step s \<longleftrightarrow>
     (s_event_sink s \<longrightarrow> subseq (map k_queue_event_id (s_published s @ s_pending s)) (map e_id (s_events s)))"

definition same_event :: "event \<Rightarrow> event \<Rightarrow> bool" where
  \<comment> \<open>a session rename relabels the session an event is filed under, and nothing else\<close>
  "same_event e e' \<longleftrightarrow> e'\<lparr>e_session := e_session e\<rparr> = e"

definition audits :: "store \<Rightarrow> store \<Rightarrow> bool" where
  "audits s s' \<longleftrightarrow> (\<exists>olds news. s_events s' = olds @ news \<and> list_all2 same_event (s_events s) olds)
     \<and> s_event_sink s' = s_event_sink s
     \<and> (\<not> s_event_sink s \<longrightarrow> s_pending s = [] \<longrightarrow> s_pending s' = [])
     \<and> (log_dense s \<longrightarrow> log_dense s') \<and> (sink_in_step s \<longrightarrow> sink_in_step s')"

lemma same_event_refl: "same_event e e"
  by (simp add: same_event_def)

lemma same_event_trans: "same_event a b \<Longrightarrow> same_event b c \<Longrightarrow> same_event a c"
  by (cases a; cases b; cases c) (auto simp: same_event_def)

lemma audits_same:
  "s_events s' = s_events s \<Longrightarrow> s_event_sink s' = s_event_sink s \<Longrightarrow>
     s_published s' @ s_pending s' = s_published s @ s_pending s \<Longrightarrow>
     (\<not> s_event_sink s \<longrightarrow> s_pending s = [] \<longrightarrow> s_pending s' = []) \<Longrightarrow> audits s s'"
  unfolding audits_def
  by (intro conjI exI [of _ "s_events s"] exI [of _ "[]"])
     (simp_all add: log_dense_def sink_in_step_def list_all2_refl same_event_refl del: map_append)

lemma audits_event: "audits s (record_event_locked now sess tid ty r f t m s)"
  unfolding audits_def
proof (intro conjI impI)
  show "\<exists>olds news. s_events (record_event_locked now sess tid ty r f t m s) = olds @ news
          \<and> list_all2 same_event (s_events s) olds"
    by (rule exI [of _ "s_events s"]) (auto simp: list_all2_refl same_event_refl)
qed (auto simp: log_dense_def sink_in_step_def record_event_locked_def queue_event_def Let_def
      list_emb_append_mono simp flip: append_assoc)

lemma audits_trans:
  assumes "audits s t" and "audits t u"
  shows "audits s u"
proof -
  from assms(1) obtain o1 n1 where 1: "s_events t = o1 @ n1" "list_all2 same_event (s_events s) o1"
    by (auto simp: audits_def)
  from assms(2) obtain o2 n2 where 2: "s_events u = o2 @ n2" "list_all2 same_event (o1 @ n1) o2"
    by (auto simp: audits_def 1(1))
  from 2(2) obtain oa ob where ab: "o2 = oa @ ob" "list_all2 same_event o1 oa"
    by (auto simp: list_all2_append1)
  have "list_all2 same_event (s_events s) oa"
    by (rule list_all2_trans [OF _ 1(2) ab(2)]) (rule same_event_trans)
  moreover have "s_events u = oa @ (ob @ n2)" by (simp add: 2(1) ab(1))
  ultimately show ?thesis using assms by (auto simp: audits_def)
qed

lemma audits_rename: "audits s (rename_rows now old new s)"
proof -
  let ?es = "update_where (\<lambda>e. e_session e = old) (\<lambda>e. e\<lparr>e_session := new\<rparr>) (s_events s)"
  have "list_all2 same_event (s_events s) ?es"
    by (simp add: list_all2_conv_all_nth update_where_def same_event_def)
  moreover have "map e_id ?es = map e_id (s_events s)"
    by (rule map_update_where_same) simp
  ultimately show ?thesis
    unfolding audits_def by (intro conjI exI [of _ ?es] exI [of _ "[]"])
      (simp_all add: rename_rows_def log_dense_def sink_in_step_def)
qed

interpretation audit: separate_writes audits
proof
  show "audits s u" if "audits s t" "audits t u" for s t u
    using that by (rule audits_trans)
  show "audits s s'" if "newborn n" "insert_task n s = Inr s'" for n s s'
    using that by (auto simp: insert_task_Inr intro: audits_same)
  show "audits s (drain_events s)" for s
    by (rule audits_same) (simp_all add: drain_events_def)
qed (auto intro: audits_event audits_same audits_rename)

section \<open>What a call tells the sink\<close>

definition tells :: "store \<Rightarrow> store \<Rightarrow> bool" where
  \<comment> \<open>exactly the events the call logged, in order\<close>
  "tells s s' \<longleftrightarrow> s_event_sink s' = s_event_sink s \<and> (s_event_sink s \<longrightarrow>
     (\<exists>new. map e_id (s_events s') = map e_id (s_events s) @ new
        \<and> map k_queue_event_id (s_published s' @ s_pending s')
            = map k_queue_event_id (s_published s @ s_pending s) @ new))"

lemma tells_same:
  "map e_id (s_events s') = map e_id (s_events s) \<Longrightarrow> s_event_sink s' = s_event_sink s \<Longrightarrow>
     s_published s' @ s_pending s' = s_published s @ s_pending s \<Longrightarrow> tells s s'"
  by (simp add: tells_def del: map_append)

interpretation telling: separate_writes tells
proof
  show "tells s u" if "tells s t" "tells t u" for s t u
    using that by (auto simp: tells_def)
  show "tells s (record_event_locked now sess tid ty reas fs ts md s)" for s now sess tid ty reas fs ts md
    by (simp add: tells_def record_event_locked_def queue_event_def Let_def)
  show "tells s s'" if "newborn n" "insert_task n s = Inr s'" for n s s'
    using that by (auto simp: insert_task_Inr intro: tells_same)
  show "tells s (rename_rows now old new s)" for s now old new
    by (rule tells_same) (simp_all add: rename_rows_def map_update_where_same)
  show "tells s (drain_events s)" for s
    by (rule tells_same) (simp_all add: drain_events_def)
qed (auto intro: tells_same)

section \<open>The log explains every status\<close>

type_synonym entry = "status \<times> int"

abbreviation entry_of :: "task \<Rightarrow> entry" where
  "entry_of t \<equiv> (t_status t, t_attempt_count t)"

inductive replays :: "string \<Rightarrow> event list \<Rightarrow> entry \<Rightarrow> bool" for i where
  \<comment> \<open>read from the first event on, the log takes task \<open>i\<close> from QUEUED with no attempt to this status and count\<close>
  start: "replays i [] (QUEUED, 0)"
| edge: "replays i es (a, n) \<Longrightarrow> e_task_id e = Some i \<Longrightarrow> e_from_status e = Some (status_name a) \<Longrightarrow>
    e_to_status e = Some (status_name b) \<Longrightarrow> recorded_edge a b \<Longrightarrow> replays i (es @ [e]) (b, n + attempt_charge b)"
| migrated: "replays i es (a, n) \<Longrightarrow> e_task_id e = Some i \<Longrightarrow> e_event_type e = ''MIGRATED_IN'' \<Longrightarrow>
    e_from_status e = None \<Longrightarrow> e_to_status e = None \<Longrightarrow> a \<in> set MIGRATABLE_STATUSES \<Longrightarrow>
    replays i (es @ [e]) (QUEUED, n)"
| echo: "replays i es (a, n) \<Longrightarrow> e_event_type e = ''AI_RECONCILED'' \<Longrightarrow> e_to_status e = Some (status_name a) \<Longrightarrow>
    replays i (es @ [e]) (a, n)"
| other: "replays i es x \<Longrightarrow> e_task_id e \<noteq> Some i \<or> (\<forall>b. e_to_status e \<noteq> Some (status_name b)) \<Longrightarrow>
    replays i (es @ [e]) x"

definition entry_at :: "store \<Rightarrow> string \<Rightarrow> entry" where
  "entry_at s i = (case find_task s i of None \<Rightarrow> (QUEUED, 0) | Some x \<Rightarrow> entry_of x)"

definition log_explains :: "store \<Rightarrow> bool" where
  "log_explains s \<longleftrightarrow> (\<forall>i. replays i (s_events s) (entry_at s i))"

definition keeps_log :: "store \<Rightarrow> store \<Rightarrow> bool" where
  "keeps_log s s' \<longleftrightarrow> (log_explains s \<longrightarrow> log_explains s')"

lemma keeps_logI:
  assumes "\<And>i. replays i (s_events s) (entry_at s i) \<Longrightarrow> replays i (s_events s') (entry_at s' i)"
  shows "keeps_log s s'"
  using assms by (simp add: keeps_log_def log_explains_def)

lemma keeps_log_same:
  assumes "s_events s' = s_events s" and "s_tasks s' = s_tasks s"
  shows "keeps_log s s'"
  using assms by (intro keeps_logI) (simp add: entry_at_def find_task_def)

lemma keeps_log_map:
  assumes "s_events s' = s_events s" and "s_tasks s' = map g (s_tasks s)"
    and "\<And>x. x \<in> set (s_tasks s) \<Longrightarrow> t_id (g x) = t_id x \<and> entry_of (g x) = entry_of x"
  shows "keeps_log s s'"
proof (rule keeps_logI)
  fix i
  have "List.find (\<lambda>t. t_id t = i) (map g xs) = map_option g (List.find (\<lambda>t. t_id t = i) xs)"
    if "\<And>x. x \<in> set xs \<Longrightarrow> t_id (g x) = t_id x" for xs
    using that by (induction xs) auto
  then have "find_task s' i = map_option g (find_task s i)"
    using assms(3) by (simp add: find_task_def assms(2))
  moreover have "x \<in> set (s_tasks s)" if "find_task s i = Some x" for x
    using find_task_Some_iff [OF that] by simp
  ultimately have "entry_at s' i = entry_at s i"
    using assms(3) by (auto simp: entry_at_def split: option.split)
  then show "replays i (s_events s) (entry_at s i) \<Longrightarrow> replays i (s_events s') (entry_at s' i)"
    using assms(1) by simp
qed

lemma replays_same:
  assumes "replays i es x" and "list_all2 same_event es es'"
  shows "replays i es' x"
  using assms
proof (induction arbitrary: es' rule: replays.induct)
  case start
  then show ?case by (simp add: replays.start)
next
  case (edge es a n e b)
  from edge.prems obtain fs f where es': "es' = fs @ [f]" "list_all2 same_event es fs" "same_event e f"
    by (auto simp: list_all2_append1 list_all2_Cons1)
  then show ?case using edge.hyps edge.IH [OF es'(2)]
    by (cases e; cases f) (auto simp: same_event_def intro: replays.edge)
next
  case (migrated es a n e)
  from migrated.prems obtain fs f where es': "es' = fs @ [f]" "list_all2 same_event es fs" "same_event e f"
    by (auto simp: list_all2_append1 list_all2_Cons1)
  then show ?case using migrated.hyps migrated.IH [OF es'(2)]
    by (cases e; cases f) (auto simp: same_event_def intro: replays.migrated)
next
  case (echo es a n e)
  from echo.prems obtain fs f where es': "es' = fs @ [f]" "list_all2 same_event es fs" "same_event e f"
    by (auto simp: list_all2_append1 list_all2_Cons1)
  then show ?case using echo.hyps echo.IH [OF es'(2)]
    by (cases e; cases f) (auto simp: same_event_def intro: replays.echo)
next
  case (other es x e)
  from other.prems obtain fs f where es': "es' = fs @ [f]" "list_all2 same_event es fs" "same_event e f"
    by (auto simp: list_all2_append1 list_all2_Cons1)
  then show ?case using other.hyps other.IH [OF es'(2)]
    by (cases e; cases f) (auto simp: same_event_def intro: replays.other)
qed

lemma entry_at_update:
  assumes "store_wf s" and "find_task s i = Some x" and "t_id (g x) = t_id x"
  shows "entry_at (update_task i g s) j = (if j = i then entry_of (g x) else entry_at s j)"
proof -
  have "update_task i g s = update_task i (\<lambda>y. if y = x then g x else y) s"
    unfolding update_task_def update_where_def using wf_row_unique [OF assms(1,2)] by auto
  moreover have "find_task (update_task i (\<lambda>y. if y = x then g x else y) s) j
      = map_option (\<lambda>t. if j = i then (if t = x then g x else t) else t) (find_task s j)"
    by (rule find_task_update_task) (simp add: assms(3))
  ultimately show ?thesis using assms(2) by (auto simp: entry_at_def split: option.split)
qed

lemma verify_not_task: "verify_status_name w \<noteq> status_name b"
  by (cases w; cases b) (simp_all add: verify_status_name_def)

interpretation history: store_writes keeps_log
proof
  show "keeps_log s u" if "keeps_log s t" "keeps_log t u" for s t u
    using that by (simp add: keeps_log_def)
  show "keeps_log s (record_event_locked now sess tid ty reas None None md s)" for s now sess tid ty reas md
    by (rule keeps_logI) (simp add: entry_at_def replays.other)
  show "keeps_log s (record_event_locked now sess tid ty reas (Some (verify_status_name v))
      (Some (verify_status_name w)) md s)" for s now sess tid ty reas v w md
    by (rule keeps_logI) (simp add: entry_at_def replays.other verify_not_task)
  show "keeps_log s (record_event_locked now sess (Some i) ''AI_RECONCILED'' reas fs (Some (status_name (t_status x))) md s)"
    if "find_task s i = Some x" for s i x now sess reas fs md
  proof (rule keeps_logI)
    fix j assume "replays j (s_events s) (entry_at s j)"
    then show "replays j (s_events (record_event_locked now sess (Some i) ''AI_RECONCILED'' reas fs (Some (status_name (t_status x))) md s))
        (entry_at (record_event_locked now sess (Some i) ''AI_RECONCILED'' reas fs (Some (status_name (t_status x))) md s) j)"
      using that by (cases "j = i") (auto simp: entry_at_def intro: replays.echo replays.other)
  qed
  show "keeps_log s (s\<lparr>s_tasks := update_where p g (s_tasks s)\<rparr>)"
    if "\<And>x. x \<in> set (s_tasks s) \<Longrightarrow> p x \<Longrightarrow> row_note x (g x)" for s p g
    by (rule keeps_log_map [where g = "\<lambda>x. if p x then g x else x"])
      (use that in \<open>auto simp: update_where_def row_note_def same_identity_def\<close>)
  show "keeps_log s (record_event_locked now sess (Some i) ty reas (Some (status_name (t_status x)))
             (Some (status_name (t_status (g x)))) md (update_task i g s))"
    if "store_wf s" "find_task s i = Some x" "row_step x (g x)" "recorded_edge (t_status x) (t_status (g x))"
      "t_attempt_count (g x) = t_attempt_count x + attempt_charge (t_status (g x))" for s i x g now sess ty reas md
  proof (rule keeps_logI)
    fix j
    assume r: "replays j (s_events s) (entry_at s j)"
    have id: "t_id (g x) = t_id x" using row_step_identity [OF that(3)] by (simp add: same_identity_def)
    note E = entry_at_update [OF that(1,2), of g j, OF id]
    show "replays j (s_events (record_event_locked now sess (Some i) ty reas (Some (status_name (t_status x)))
             (Some (status_name (t_status (g x)))) md (update_task i g s)))
           (entry_at (record_event_locked now sess (Some i) ty reas (Some (status_name (t_status x)))
             (Some (status_name (t_status (g x)))) md (update_task i g s)) j)"
    proof (cases "j = i")
      case True
      then show ?thesis using r E that by (auto simp: entry_at_def intro!: replays.edge)
    next
      case False
      then show ?thesis using r E by (auto simp: entry_at_def intro!: replays.other)
    qed
  qed
  show "keeps_log s (record_event_locked now sess (Some i) ''MIGRATED_IN'' reas None None md
            (record_event_locked now sess' (Some i) ''MIGRATED_OUT'' reas None None md' (update_task i g s)))"
    if "store_wf s" "find_task s i = Some x" "row_step x (g x)" "t_status x \<in> set MIGRATABLE_STATUSES"
      "t_status (g x) = QUEUED" "t_attempt_count (g x) = t_attempt_count x" for s i x g now sess reas md sess' md'
  proof (rule keeps_logI)
    fix j
    let ?out = "record_event_locked now sess' (Some i) ''MIGRATED_OUT'' reas None None md' (update_task i g s)"
    assume "replays j (s_events s) (entry_at s j)"
    then have out: "replays j (s_events ?out) (entry_at s j)" by (auto intro: replays.other)
    have id: "t_id (g x) = t_id x" using row_step_identity [OF that(3)] by (simp add: same_identity_def)
    note E = entry_at_update [OF that(1,2), of g j, OF id]
    show "replays j (s_events (record_event_locked now sess (Some i) ''MIGRATED_IN'' reas None None md ?out))
        (entry_at (record_event_locked now sess (Some i) ''MIGRATED_IN'' reas None None md ?out) j)"
    proof (cases "j = i")
      case True
      then show ?thesis using out E that
        by (subst record_event_events) (auto simp: entry_at_def simp del: record_event_events intro!: replays.migrated)
    next
      case False
      then show ?thesis using out E
        by (subst record_event_events) (auto simp: entry_at_def simp del: record_event_events intro!: replays.other)
    qed
  qed
  show "keeps_log s s'" if "newborn n" "insert_task n s = Inr s'" for n s s'
  proof (rule keeps_logI)
    fix j
    have "List.find q (xs @ [n]) = (case List.find q xs of None \<Rightarrow> if q n then Some n else None | Some x \<Rightarrow> Some x)"
      for q xs by (induction xs) auto
    then have "find_task s' j = (case find_task s j of None \<Rightarrow> if t_id n = j then Some n else None | Some x \<Rightarrow> Some x)"
      and "s_events s' = s_events s"
      using that(2) by (auto simp: insert_task_Inr find_task_def)
    then show "replays j (s_events s) (entry_at s j) \<Longrightarrow> replays j (s_events s') (entry_at s' j)"
      using that(1) by (auto simp: entry_at_def newborn_def split: option.splits if_splits)
  qed
  show "keeps_log s (rename_rows now old new s)" for s now old new
  proof -
    let ?s = "s\<lparr>s_events := s_events (rename_rows now old new s)\<rparr>"
    have "list_all2 same_event (s_events s) (s_events ?s)"
      by (simp add: rename_rows_def list_all2_conv_all_nth update_where_def same_event_def)
    then have "keeps_log s ?s"
      by (intro keeps_logI) (auto simp: entry_at_def find_task_def intro: replays_same)
    moreover have "keeps_log ?s (rename_rows now old new s)"
      by (rule keeps_log_map [where g = "\<lambda>t. let u = (if t_session t = old then t\<lparr>t_session := new, t_updated_at := now\<rparr> else t)
         in if t_original_owner u = Some old then u\<lparr>t_original_owner := Some new\<rparr> else u"])
        (simp_all add: rename_rows_def update_where_def Let_def)
    ultimately show ?thesis by (simp add: keeps_log_def)
  qed
  show "keeps_log s (update_task tid (bind_row now sess node state ev) s)" for s tid now sess node state ev
    by (rule keeps_log_map [where g = "\<lambda>t. if t_id t = tid then bind_row now sess node state ev t else t"])
      (simp_all add: update_task_def update_where_def bind_row_def)
qed (auto intro: keeps_log_same)

section \<open>Lanes are never lost\<close>

definition lanes_wf :: "store \<Rightarrow> bool" where
  \<comment> \<open>\<open>session TEXT PRIMARY KEY\<close>\<close>
  "lanes_wf s \<longleftrightarrow> distinct (map l_session (s_lanes s))"

definition lanes_grow :: "store \<Rightarrow> store \<Rightarrow> bool" where
  "lanes_grow s s' \<longleftrightarrow> (lanes_wf s \<longrightarrow> lanes_wf s')
     \<and> length (s_lanes s) \<le> length (s_lanes s')"

lemma lanes_grow_same: "s_lanes s' = s_lanes s \<Longrightarrow> lanes_grow s s'"
  by (simp add: lanes_grow_def lanes_wf_def)

lemma find_lane_None: "find_lane s x = None \<longleftrightarrow> x \<notin> l_session ` set (s_lanes s)"
  by (auto simp: find_lane_def find_None_iff)

interpretation lanes: separate_writes lanes_grow
proof
  show "lanes_grow s (ensure_lane now sess s)" for s now sess
    by (auto simp: lanes_grow_def lanes_wf_def ensure_lane_def find_lane_None)
  show "lanes_grow s (update_lane sess h s)" if "\<And>l. l_session (h l) = l_session l" for h s sess
  proof -
    have "map l_session (update_where (\<lambda>l. l_session l = sess) h (s_lanes s)) = map l_session (s_lanes s)"
      by (rule map_update_where_same) (rule that)
    then have "map l_session (s_lanes (update_lane sess h s)) = map l_session (s_lanes s)"
      by (simp add: update_lane_def)
    then show ?thesis by (simp add: lanes_grow_def lanes_wf_def) (simp add: update_lane_def)
  qed
  show "lanes_grow s (rename_rows now old new s)" if "find_lane s new = None" for s now old new
  proof -
    let ?r = "\<lambda>x. if x = old then new else x"
    have m: "map l_session (update_where (\<lambda>l. l_session l = old)
        (\<lambda>l. l\<lparr>l_session := new, l_updated_at := now\<rparr>) (s_lanes s)) = map ?r (map l_session (s_lanes s))"
      by (simp add: update_where_def)
    have "inj_on ?r (set (map l_session (s_lanes s)))"
      using that by (auto simp: inj_on_def find_lane_None)
    then have "lanes_wf s \<Longrightarrow> lanes_wf (rename_rows now old new s)"
      by (simp add: lanes_wf_def rename_rows_def m distinct_map del: map_map)
    then show ?thesis by (simp add: lanes_grow_def rename_rows_def)
  qed
  show "lanes_grow s s'" if "newborn n" "insert_task n s = Inr s'" for n s s'
    using that by (auto simp: insert_task_Inr intro: lanes_grow_same)
qed (auto simp: lanes_grow_def lanes_wf_def intro: lanes_grow_same)

section \<open>A runtime has one holder\<close>

definition exclusive :: "store \<Rightarrow> bool" where
  "exclusive s \<longleftrightarrow> (\<forall>sess. \<forall>t\<in>set (s_tasks s). \<forall>u\<in>set (s_tasks s).
     holds_runtime sess t \<longrightarrow> holds_runtime sess u \<longrightarrow> t_id t = t_id u)"

lemma exclusiveI:
  "(\<And>sess t u. t \<in> set (s_tasks s) \<Longrightarrow> u \<in> set (s_tasks s) \<Longrightarrow> holds_runtime sess t \<Longrightarrow>
      holds_runtime sess u \<Longrightarrow> t_id t = t_id u) \<Longrightarrow> exclusive s"
  unfolding exclusive_def by blast

lemma exclusiveD:
  "exclusive s \<Longrightarrow> t \<in> set (s_tasks s) \<Longrightarrow> u \<in> set (s_tasks s) \<Longrightarrow> holds_runtime sess t \<Longrightarrow>
      holds_runtime sess u \<Longrightarrow> t_id t = t_id u"
  unfolding exclusive_def by blast

definition keeps_exclusive :: "store \<Rightarrow> store \<Rightarrow> bool" where
  "keeps_exclusive s s' \<longleftrightarrow> (exclusive s \<longrightarrow> exclusive s')"

lemma keeps_exclusive_same:
  assumes "s_tasks s' = s_tasks s"
  shows "keeps_exclusive s s'"
proof -
  have "exclusive s' = exclusive s" unfolding exclusive_def assms ..
  then show ?thesis by (simp add: keeps_exclusive_def)
qed

lemma row_step_runtime:
  assumes "row_step x y" and "holds_runtime sess y"
  shows "holds_runtime sess x"
proof -
  have "terminal x \<longrightarrow> terminal y"
    using row_step_terminal [OF assms(1)] by (auto simp: terminal_def status_groups)
  then show ?thesis
    using row_step_identity [OF assms(1)] assms(2)
    by (auto simp: same_identity_def holds_runtime_def terminal_def)
qed

lemma keeps_exclusive_map:
  assumes "s_tasks s' = map g (s_tasks s)"
    and "\<And>x. x \<in> set (s_tasks s) \<Longrightarrow> t_id (g x) = t_id x"
    and "\<And>x sess. x \<in> set (s_tasks s) \<Longrightarrow> holds_runtime sess (g x) \<Longrightarrow> holds_runtime sess x"
  shows "keeps_exclusive s s'"
  unfolding keeps_exclusive_def exclusive_def assms(1) set_map
proof (intro impI allI ballI)
  fix sess t u
  assume e: "\<forall>sess. \<forall>t\<in>set (s_tasks s). \<forall>u\<in>set (s_tasks s).
     holds_runtime sess t \<longrightarrow> holds_runtime sess u \<longrightarrow> t_id t = t_id u"
    and "t \<in> g ` set (s_tasks s)" "u \<in> g ` set (s_tasks s)" "holds_runtime sess t" "holds_runtime sess u"
  then obtain x y where g: "t = g x" "u = g y" and x: "x \<in> set (s_tasks s)" "y \<in> set (s_tasks s)"
    "holds_runtime sess x" "holds_runtime sess y" using assms(3) by blast
  from e x have "t_id x = t_id y" by blast
  then show "t_id t = t_id u" unfolding g assms(2) [OF x(1)] assms(2) [OF x(2)] .
qed

interpretation binding: separate_writes keeps_exclusive
proof
  show "keeps_exclusive s (s\<lparr>s_tasks := update_where p g (s_tasks s)\<rparr>)"
    if step: "\<And>x. x \<in> set (s_tasks s) \<Longrightarrow> p x \<Longrightarrow> row_step x (g x)" for s p g
  proof (rule keeps_exclusive_map)
    show "s_tasks (s\<lparr>s_tasks := update_where p g (s_tasks s)\<rparr>) = map (\<lambda>x. if p x then g x else x) (s_tasks s)"
      by (simp add: update_where_def)
    show "t_id (if p x then g x else x) = t_id x" if x: "x \<in> set (s_tasks s)" for x
      using row_step_identity [OF step [OF x]] by (simp add: same_identity_def)
    show "holds_runtime sess x" if x: "x \<in> set (s_tasks s)" and h: "holds_runtime sess (if p x then g x else x)" for x sess
      using row_step_runtime [OF step [OF x]] h by (cases "p x") auto
  qed
  show "keeps_exclusive s s'" if "newborn n" "insert_task n s = Inr s'" for n s s'
  proof -
    have "\<not> holds_runtime sess n" for sess
      using that(1) by (auto simp: newborn_def holds_runtime_def ROUTING_BOUND_STATES_def)
    moreover have "s_tasks s' = s_tasks s @ [n]" using that(2) by (simp add: insert_task_Inr)
    ultimately have "exclusive s'" if e: "exclusive s"
      by (intro exclusiveI) (metis exclusiveD [OF e] UnE empty_iff empty_set list.set(2) insertE set_append)
    then show ?thesis by (simp add: keeps_exclusive_def)
  qed
  show "keeps_exclusive s (rename_rows now old new s)" for s now old new
  proof (rule keeps_exclusive_map)
    let ?g = "\<lambda>t. let u = (if t_session t = old then t\<lparr>t_session := new, t_updated_at := now\<rparr> else t)
       in if t_original_owner u = Some old then u\<lparr>t_original_owner := Some new\<rparr> else u"
    show "s_tasks (rename_rows now old new s) = map ?g (s_tasks s)"
      by (simp add: rename_rows_def update_where_def Let_def)
    show "t_id (?g x) = t_id x" for x by (simp add: Let_def)
    show "holds_runtime sess (?g x) \<Longrightarrow> holds_runtime sess x" for x sess
      by (simp add: Let_def holds_runtime_def split: if_splits)
  qed
  show "keeps_exclusive s (update_task tid (bind_row now sess node state ev) s)"
    if others: "\<And>u. u \<in> set (s_tasks s) \<Longrightarrow> t_id u \<noteq> tid \<Longrightarrow> \<not> holds_runtime sess u"
    for s tid now sess node state ev
    unfolding keeps_exclusive_def
  proof
    let ?g = "bind_row now sess node state ev"
    assume e: "exclusive s"
    have g: "t_id (?g x) = t_id x" "holds_runtime a (?g x) \<Longrightarrow> a = sess" for a x
      by (auto simp: bind_row_def holds_runtime_def)
    show "exclusive (update_task tid ?g s)"
    proof (rule exclusiveI)
      fix a t u assume "t \<in> set (s_tasks (update_task tid ?g s))" "u \<in> set (s_tasks (update_task tid ?g s))"
        and h: "holds_runtime a t" "holds_runtime a u"
      then obtain x y where x: "x \<in> set (s_tasks s)" "t = (if t_id x = tid then ?g x else x)"
        and y: "y \<in> set (s_tasks s)" "u = (if t_id y = tid then ?g y else y)"
        by (auto simp: update_task_def set_update_where simp del: if_split)
      from x y h g others exclusiveD [OF e x(1) y(1)] show "t_id t = t_id u"
        by (cases "t_id x = tid"; cases "t_id y = tid") (auto, blast+)
    qed
  qed
  show "keeps_exclusive s u" if "keeps_exclusive s t" "keeps_exclusive t u" for s t u
    using that by (simp add: keeps_exclusive_def)
qed (auto intro: keeps_exclusive_same)

section \<open>A request key names one task\<close>

definition keys_unique :: "store \<Rightarrow> bool" where
  \<comment> \<open>the partial unique index on \<open>request_key\<close>\<close>
  "keys_unique s \<longleftrightarrow> (\<forall>k. \<forall>t\<in>set (s_tasks s). \<forall>u\<in>set (s_tasks s).
     t_request_key t = Some k \<longrightarrow> t_request_key u = Some k \<longrightarrow> t_id u = t_id t)"

definition keeps_keys :: "store \<Rightarrow> store \<Rightarrow> bool" where
  "keeps_keys s s' \<longleftrightarrow> (keys_unique s \<longrightarrow> keys_unique s')"

lemma keys_uniqueI:
  "(\<And>t u k. t \<in> set (s_tasks s) \<Longrightarrow> u \<in> set (s_tasks s) \<Longrightarrow> t_request_key t = Some k \<Longrightarrow>
      t_request_key u = Some k \<Longrightarrow> t_id u = t_id t) \<Longrightarrow> keys_unique s"
  unfolding keys_unique_def by blast

lemma keys_uniqueD:
  "keys_unique s \<Longrightarrow> t \<in> set (s_tasks s) \<Longrightarrow> u \<in> set (s_tasks s) \<Longrightarrow> t_request_key t = Some k \<Longrightarrow>
      t_request_key u = Some k \<Longrightarrow> t_id u = t_id t"
  unfolding keys_unique_def by blast

lemma keeps_keys_same:
  assumes "s_tasks s' = s_tasks s"
  shows "keeps_keys s s'"
  unfolding keeps_keys_def keys_unique_def assms by (rule impI)

lemma keeps_keys_map:
  assumes "s_tasks s' = map g (s_tasks s)"
    and "\<And>x. x \<in> set (s_tasks s) \<Longrightarrow> t_id (g x) = t_id x \<and> t_request_key (g x) = t_request_key x"
  shows "keeps_keys s s'"
  unfolding keeps_keys_def
proof (intro impI keys_uniqueI)
  fix t u k
  assume e: "keys_unique s" and "t \<in> set (s_tasks s')" "u \<in> set (s_tasks s')"
    and k: "t_request_key t = Some k" "t_request_key u = Some k"
  then obtain x y where x: "x \<in> set (s_tasks s)" "t = g x" and y: "y \<in> set (s_tasks s)" "u = g y"
    unfolding assms(1) by auto
  have "t_id y = t_id x"
    using k unfolding x(2) y(2) assms(2) [OF x(1), THEN conjunct2] assms(2) [OF y(1), THEN conjunct2]
    by (rule keys_uniqueD [OF e x(1) y(1)])
  then show "t_id u = t_id t"
    unfolding x(2) y(2) assms(2) [OF x(1), THEN conjunct1] assms(2) [OF y(1), THEN conjunct1] .
qed

interpretation keys: separate_writes keeps_keys
proof
  show "keeps_keys s (s\<lparr>s_tasks := update_where p g (s_tasks s)\<rparr>)"
    if step: "\<And>x. x \<in> set (s_tasks s) \<Longrightarrow> p x \<Longrightarrow> row_step x (g x)" for s p g
  proof (rule keeps_keys_map [where g = "\<lambda>x. if p x then g x else x"])
    show "t_id (if p x then g x else x) = t_id x \<and> t_request_key (if p x then g x else x) = t_request_key x"
      if "x \<in> set (s_tasks s)" for x
      using row_step_identity [OF step [OF that]] by (simp add: same_identity_def)
  qed (simp add: update_where_def)
  show "keeps_keys s s'" if "insert_task n s = Inr s'" for n s s'
    unfolding keeps_keys_def
  proof (intro impI keys_uniqueI)
    fix t u k
    assume e: "keys_unique s" and t: "t \<in> set (s_tasks s')" and u: "u \<in> set (s_tasks s')"
      and k: "t_request_key t = Some k" "t_request_key u = Some k"
    have s': "set (s_tasks s') = insert n (set (s_tasks s))"
      and fresh: "v \<in> set (s_tasks s) \<Longrightarrow> t_request_key n = Some k \<Longrightarrow> t_request_key v \<noteq> Some k" for v
      using that by (auto simp: insert_task_def split: if_splits)
    show "t_id u = t_id t"
      using t u k fresh [of t] fresh [of u] keys_uniqueD [OF e, of t u k] unfolding s' by auto
  qed
  show "keeps_keys s (rename_rows now old new s)" for s now old new
    by (rule keeps_keys_map [where g = "\<lambda>t. let u = (if t_session t = old then t\<lparr>t_session := new, t_updated_at := now\<rparr> else t)
       in if t_original_owner u = Some old then u\<lparr>t_original_owner := Some new\<rparr> else u"])
      (simp_all add: rename_rows_def update_where_def Let_def)
  show "keeps_keys s (update_task tid (bind_row now sess node state ev) s)" for s tid now sess node state ev
    by (rule keeps_keys_map [where g = "\<lambda>t. if t_id t = tid then bind_row now sess node state ev t else t"])
      (simp_all add: update_task_def update_where_def bind_row_def)
  show "keeps_keys s u" if "keeps_keys s t" "keeps_keys t u" for s t u
    using that by (simp add: keeps_keys_def)
qed (auto intro: keeps_keys_same)

section \<open>Verification jobs follow their state machine\<close>

interpretation verify: separate_writes jobs_evolve
proof
  show "jobs_evolve s s'" if "newborn n" "insert_task n s = Inr s'" for n s s'
    using that(2) by (auto simp: insert_task_Inr intro: jobs_evolve_same)
qed (auto intro: jobs_evolve_same jobs_evolve_trans jobs_evolve_update jobs_evolve_insert simp: rename_rows_def)

section \<open>The whole contract\<close>

definition queue_step :: "store \<Rightarrow> store \<Rightarrow> bool" where
  "queue_step s s' \<longleftrightarrow> evolves s s' \<and> audits s s' \<and> lanes_grow s s' \<and> keeps_exclusive s s'
     \<and> keeps_keys s s' \<and> jobs_evolve s s' \<and> keeps_log s s'"

definition queue_commit :: "store \<Rightarrow> store \<Rightarrow> bool" where
  \<comment> \<open>a call that ran to its end: the sink has heard what it logged\<close>
  "queue_commit s s' \<longleftrightarrow> queue_step s s' \<and> tells s s'"

lemma queue_commitI:
  assumes "evolves s s'" and "audits s s'" and "tells s s'" and "keeps_log s s'" and "lanes_grow s s'"
    and "keeps_exclusive s s'" and "keeps_keys s s'" and "jobs_evolve s s'"
  shows "queue_commit s s'"
  using assms by (simp add: queue_commit_def queue_step_def)

interpretation queue: store_relation queue_commit
proof
  show "queue_commit s u" if "queue_commit s t" "queue_commit t u" for s t u
    using that evolves_trans audit.R_trans telling.R_trans history.R_trans lanes.R_trans binding.R_trans keys.R_trans verify.R_trans
    unfolding queue_commit_def queue_step_def by meson
  show "queue_commit s (record_event_locked now sess (Some i) ''AI_RECONCILED'' reas fs (Some (status_name (t_status x))) md s)"
    if "find_task s i = Some x" for s i x now sess reas fs md
    by (rule queue_commitI)
      (rule evolution.R_echo [OF that],
       rule audit.R_echo [OF that],
       rule telling.R_echo [OF that],
       rule history.R_echo [OF that],
       rule lanes.R_echo [OF that],
       rule binding.R_echo [OF that],
       rule keys.R_echo [OF that],
       rule verify.R_echo [OF that])
  show "queue_commit s (s\<lparr>s_tasks := update_where p g (s_tasks s)\<rparr>)"
    if "\<And>x. x \<in> set (s_tasks s) \<Longrightarrow> p x \<Longrightarrow> row_note x (g x)"
    for s p g
    by (rule queue_commitI)
      (rule evolution.R_note [of s p g, OF that], assumption+,
       rule audit.R_note [of s p g, OF that], assumption+,
       rule telling.R_note [of s p g, OF that], assumption+,
       rule history.R_note [of s p g, OF that], assumption+,
       rule lanes.R_note [of s p g, OF that], assumption+,
       rule binding.R_note [of s p g, OF that], assumption+,
       rule keys.R_note [of s p g, OF that], assumption+,
       rule verify.R_note [of s p g, OF that], assumption+)
  show "queue_commit s (record_event_locked now sess (Some i) ty reas (Some (status_name (t_status x)))
      (Some (status_name (t_status (g x)))) md (update_task i g s))"
    if "store_wf s" "find_task s i = Some x" "row_step x (g x)" "recorded_edge (t_status x) (t_status (g x))"
      "t_attempt_count (g x) = t_attempt_count x + attempt_charge (t_status (g x))"
    for s i x g now sess ty reas md
    by (rule queue_commitI)
      (rule evolution.R_move [of s i x g, OF that],
       rule audit.R_move [of s i x g, OF that],
       rule telling.R_move [of s i x g, OF that],
       rule history.R_move [of s i x g, OF that],
       rule lanes.R_move [of s i x g, OF that],
       rule binding.R_move [of s i x g, OF that],
       rule keys.R_move [of s i x g, OF that],
       rule verify.R_move [of s i x g, OF that])
  show "queue_commit s (record_event_locked now sess (Some i) ''MIGRATED_IN'' reas None None md
      (record_event_locked now sess' (Some i) ''MIGRATED_OUT'' reas None None md' (update_task i g s)))"
    if "store_wf s" "find_task s i = Some x" "row_step x (g x)" "t_status x \<in> set MIGRATABLE_STATUSES"
      "t_status (g x) = QUEUED" "t_attempt_count (g x) = t_attempt_count x"
    for s i x g now sess reas md sess' md'
    by (rule queue_commitI)
      (rule evolution.R_migrate [of s i x g, OF that],
       rule audit.R_migrate [of s i x g, OF that],
       rule telling.R_migrate [of s i x g, OF that],
       rule history.R_migrate [of s i x g, OF that],
       rule lanes.R_migrate [of s i x g, OF that],
       rule binding.R_migrate [of s i x g, OF that],
       rule keys.R_migrate [of s i x g, OF that],
       rule verify.R_migrate [of s i x g, OF that])
  show "queue_commit s s'"
    if "newborn n" "insert_task n s = Inr s'"
    for n s s'
    by (rule queue_commitI)
      (rule evolution.R_insert [OF that],
       rule audit.R_insert [OF that],
       rule telling.R_insert [OF that],
       rule history.R_insert [OF that],
       rule lanes.R_insert [OF that],
       rule binding.R_insert [OF that],
       rule keys.R_insert [OF that],
       rule verify.R_insert [OF that])
  show "queue_commit s (update_lane sess h s)"
    if "\<And>l. l_session (h l) = l_session l"
    for s h sess
    by (rule queue_commitI)
      (rule evolution.R_lane [of h, OF that],
       rule audit.R_lane [of h, OF that],
       rule telling.R_lane [of h, OF that],
       rule history.R_lane [of h, OF that],
       rule lanes.R_lane [of h, OF that],
       rule binding.R_lane [of h, OF that],
       rule keys.R_lane [of h, OF that],
       rule verify.R_lane [of h, OF that])
  show "queue_commit s (update_task i (bind_row now sess node state ev) s)"
    if "find_task s i = Some x" "t_status x \<notin> set TERMINAL_STATUSES" "store_wf s"
      "\<And>u. u \<in> set (s_tasks s) \<Longrightarrow> t_id u \<noteq> i \<Longrightarrow> \<not> holds_runtime sess u"
    for s i x now sess node state ev
    by (rule queue_commitI)
      (rule evolution.R_bind [OF that], assumption+,
       rule audit.R_bind [OF that], assumption+,
       rule telling.R_bind [OF that], assumption+,
       rule history.R_bind [OF that], assumption+,
       rule lanes.R_bind [OF that], assumption+,
       rule binding.R_bind [OF that], assumption+,
       rule keys.R_bind [OF that], assumption+,
       rule verify.R_bind [OF that], assumption+)
  show "queue_commit s (update_job i jf s)"
    if "\<And>v. v \<in> set (s_verify_jobs s) \<Longrightarrow> v_id v = i \<Longrightarrow> job_moves v (jf v)"
    for s i jf
    by (rule queue_commitI)
      (rule evolution.R_job [of s i jf, OF that], assumption+,
       rule audit.R_job [of s i jf, OF that], assumption+,
       rule telling.R_job [of s i jf, OF that], assumption+,
       rule history.R_job [of s i jf, OF that], assumption+,
       rule lanes.R_job [of s i jf, OF that], assumption+,
       rule binding.R_job [of s i jf, OF that], assumption+,
       rule keys.R_job [of s i jf, OF that], assumption+,
       rule verify.R_job [of s i jf, OF that], assumption+)
  show "queue_commit s (s\<lparr>s_verify_jobs := s_verify_jobs s @ [j]\<rparr>)"
    if "job_ok j" "find_job s (v_id j) = None"
      "\<And>u. u \<in> set (s_verify_jobs s) \<Longrightarrow> \<not> (v_task_id u = v_task_id j \<and> v_attempt u = v_attempt j)"
    for s j
    by (rule queue_commitI)
      (rule evolution.R_new_job [OF that], assumption+,
       rule audit.R_new_job [OF that], assumption+,
       rule telling.R_new_job [OF that], assumption+,
       rule history.R_new_job [OF that], assumption+,
       rule lanes.R_new_job [OF that], assumption+,
       rule binding.R_new_job [OF that], assumption+,
       rule keys.R_new_job [OF that], assumption+,
       rule verify.R_new_job [OF that], assumption+)
  show "queue_commit s (rename_rows now old new s)"
    if "find_lane s new = None"
    for s now old new
    by (rule queue_commitI)
      (rule evolution.R_rename [OF that],
       rule audit.R_rename [OF that],
       rule telling.R_rename [OF that],
       rule history.R_rename [OF that],
       rule lanes.R_rename [OF that],
       rule binding.R_rename [OF that],
       rule keys.R_rename [OF that],
       rule verify.R_rename [OF that])
  show "store_wf s'" if "queue_commit s s'" "store_wf s" for s s'
    using that by (auto simp: queue_commit_def queue_step_def intro: evolves_wf)
qed (auto intro!: queue_commitI evolution.R_refl audit.R_refl telling.R_refl history.R_refl lanes.R_refl binding.R_refl
      keys.R_refl verify.R_refl evolution.R_event audit.R_event telling.R_event history.R_event lanes.R_event
      binding.R_event keys.R_event verify.R_event evolution.R_job_event audit.R_job_event telling.R_job_event
      history.R_job_event lanes.R_job_event binding.R_job_event keys.R_job_event verify.R_job_event evolution.R_ensure_lane audit.R_ensure_lane telling.R_ensure_lane
      history.R_ensure_lane lanes.R_ensure_lane binding.R_ensure_lane keys.R_ensure_lane verify.R_ensure_lane
      evolution.R_drain audit.R_drain telling.R_drain history.R_drain lanes.R_drain binding.R_drain keys.R_drain
      verify.R_drain)

lemma queue_commit_step: "queue_commit s s' \<Longrightarrow> queue_step s s'"
  by (simp add: queue_commit_def)

lemma queue_step_refl: "queue_step s s"
  by (rule queue_commit_step [OF queue.R_refl])

lemma queue_step_trans: "queue_step s t \<Longrightarrow> queue_step t u \<Longrightarrow> queue_step s u"
  using evolves_trans audit.R_trans history.R_trans lanes.R_trans binding.R_trans keys.R_trans verify.R_trans
  unfolding queue_step_def by meson

lemma queue_step_untold:
  \<comment> \<open>the same write, with part of what it published never received\<close>
  assumes "queue_step s s'" and "s_published s' = s_published s @ new" and "subseq told new"
  shows "queue_step s (s'\<lparr>s_published := s_published s @ told\<rparr>)"
proof -
  let ?s = "s'\<lparr>s_published := s_published s @ told\<rparr>"
  have "subseq (map k_queue_event_id (s_published ?s @ s_pending ?s)) (map k_queue_event_id (s_published s' @ s_pending s'))"
    using assms(3) by (auto simp: assms(2) intro: list_emb_append_mono subseq_map)
  then have "sink_in_step s' \<longrightarrow> sink_in_step ?s"
    by (auto simp: sink_in_step_def intro: subseq_order.trans)
  then have "audits s' ?s"
    unfolding audits_def by (intro conjI exI [of _ "s_events s'"] exI [of _ "[]"])
      (simp_all add: list_all2_refl same_event_refl log_dense_def)
  then have "queue_step s' ?s"
    by (simp add: queue_step_def evolves_same lanes_grow_same keeps_exclusive_same keeps_keys_same jobs_evolve_same keeps_log_same)
  with assms(1) show ?thesis by (rule queue_step_trans)
qed

section \<open>When a transition goes through\<close>

definition edge_allowed :: "status \<Rightarrow> status \<Rightarrow> column list \<Rightarrow> task \<Rightarrow> bool" where
  "edge_allowed f t ex x \<longleftrightarrow> is_valid_transition f t \<and>
     (t \<in> {RUNNING, VERIFYING} \<longrightarrow> valid_execution_evidence
        (case metadata_column ex of None \<Rightarrow> t_metadata x | Some m \<Rightarrow> m))"

lemma transition_locked_cases:
  assumes "find_task s tid = Some x"
  obtains (goes) row s' where "edge_allowed f t ex x"
      "transition_locked now tid f t ty r ex False s = Inr (row, s')"
    | (refused) m where "\<not> edge_allowed f t ex x"
      "transition_locked now tid f t ty r ex False s = Inl (InvalidTransitionError m)"
proof -
  have md: "(case metadata_column ex of Some m \<Rightarrow> m
      | None \<Rightarrow> (case find_task s tid of None \<Rightarrow> [] | Some t \<Rightarrow> t_metadata t)) =
     (case metadata_column ex of None \<Rightarrow> t_metadata x | Some m \<Rightarrow> m)"
    using assms by (simp split: option.splits)
  have up: "find_task (update_task tid (transition_row now f t r ex) s) tid = Some (transition_row now f t r ex x)"
    using assms by (simp add: find_task_update_task)
  show ?thesis
  proof (cases "edge_allowed f t ex x")
    case True
    then have "\<exists>p. transition_locked now tid f t ty r ex False s = Inr p"
      by (auto simp: transition_locked_def Let_def md up edge_allowed_def)
    then show ?thesis using goes [OF True] by auto
  next
    case False
    then have "\<exists>m. transition_locked now tid f t ty r ex False s = Inl (InvalidTransitionError m)"
      by (auto simp: transition_locked_def Let_def md edge_allowed_def)
    then show ?thesis using refused [OF False] by blast
  qed
qed

lemma find_task_final:
  assumes "transition_locked now tid f t ty r ex al s = Inr (row, s')" and "store_wf s"
  shows "find_task s' y = map_option (\<lambda>x. if y = tid then final_row now f t r ex x else x) (find_task s y)"
proof -
  from assms obtain x where u:
    "s_tasks s' = update_where (\<lambda>y. t_id y = tid) (final_row now f t r ex) (s_tasks s)"
    by (rule transition_locked_final)
  show ?thesis by (simp add: find_task_def u find_update_where)
qed

text \<open>A loop of transitions over rows read beforehand, as a whole.\<close>

lemma for_each_transition_result:
  assumes "for_each (\<lambda>x. step_locked now (t_id x) (src x) (dst x) ty (why x) (ex x)) rows s = Inr s'"
    and "store_wf s" and "distinct (map t_id rows)"
    and "\<forall>x\<in>set rows. find_task s (t_id x) = Some x \<and> t_status x = src x
           \<and> (dst x \<in> set TERMINAL_STATUSES \<longrightarrow> no_claim_columns (ex x))"
  shows "(\<forall>x\<in>set rows. find_task s' (t_id x) = Some (final_row now (src x) (dst x) (why x) (ex x) x))
    \<and> (\<forall>y. y \<notin> t_id ` set rows \<longrightarrow> find_task s' y = find_task s y) \<and> s_lanes s' = s_lanes s
    \<and> map t_id (s_tasks s') = map t_id (s_tasks s)"
  using assms
proof (induction rows arbitrary: s)
  case Nil
  then show ?case by simp
next
  case (Cons x rows)
  from Cons.prems(1) obtain row t where
    tr: "transition_locked now (t_id x) (src x) (dst x) ty (why x) (ex x) False s = Inr (row, t)"
    and rest: "for_each (\<lambda>x. step_locked now (t_id x) (src x) (dst x) ty (why x) (ex x)) rows t = Inr s'"
    by (auto simp: step_locked_Inr elim!: and_then_InrE)
  note ft = find_task_final [OF tr Cons.prems(2)]
  from tr Cons.prems(2) obtain z where l: "s_lanes t = s_lanes s"
    and u: "s_tasks t = update_where (\<lambda>y. t_id y = t_id x) (final_row now (src x) (dst x) (why x) (ex x)) (s_tasks s)"
    by (rule transition_locked_final)
  have ids: "map t_id (s_tasks t) = map t_id (s_tasks s)"
    unfolding u by (rule map_update_where_same) simp
  have "evolves s t"
    by (rule transition_locked_evolves [OF tr Cons.prems(2)]) (use Cons.prems(4) in auto)
  then have wf: "store_wf t" using Cons.prems(2) by (rule evolves_wf)
  have neq: "t_id q \<noteq> t_id x" if "q \<in> set rows" for q
    using Cons.prems(3) that by (auto simp: image_iff)
  have IH: "(\<forall>x\<in>set rows. find_task s' (t_id x) = Some (final_row now (src x) (dst x) (why x) (ex x) x))
    \<and> (\<forall>y. y \<notin> t_id ` set rows \<longrightarrow> find_task s' y = find_task t y) \<and> s_lanes s' = s_lanes t
    \<and> map t_id (s_tasks s') = map t_id (s_tasks t)"
    using Cons.prems(3,4) neq by (intro Cons.IH [OF rest wf]) (auto simp: ft)
  have "find_task s' (t_id x) = find_task t (t_id x)"
    using IH Cons.prems(3) by simp
  moreover have "find_task s' y = find_task s y" if "y \<notin> t_id ` set (x # rows)" for y
    using IH that by (simp add: ft option.map_ident)
  ultimately show ?case using IH Cons.prems(4) l ids by (simp add: ft)
qed

lemma for_each_transition_done:
  assumes "store_wf s" and "distinct (map t_id rows)"
    and "\<forall>x\<in>set rows. find_task s (t_id x) = Some x \<and> t_status x = src x
           \<and> (dst x \<in> set TERMINAL_STATUSES \<longrightarrow> no_claim_columns (ex x))"
  shows "(if \<forall>x\<in>set rows. edge_allowed (src x) (dst x) (ex x) x
     then \<exists>s'. for_each (\<lambda>x. step_locked now (t_id x) (src x) (dst x) ty (why x) (ex x)) rows s = Inr s'
     else \<exists>m. for_each (\<lambda>x. step_locked now (t_id x) (src x) (dst x) ty (why x) (ex x)) rows s
                 = Inl (InvalidTransitionError m))"
  using assms
proof (induction rows arbitrary: s)
  case Nil
  then show ?case by simp
next
  case (Cons x rows)
  have x: "find_task s (t_id x) = Some x" using Cons.prems(3) by simp
  show ?case
  proof (cases rule: transition_locked_cases
      [OF x, of "src x" "dst x" "ex x" now ty "why x", case_names goes refused])
    case (goes row t)
    note ft = find_task_final [OF goes(2) Cons.prems(1)]
    have "evolves s t"
      by (rule transition_locked_evolves [OF goes(2) Cons.prems(1)]) (use Cons.prems(3) in auto)
    then have wf: "store_wf t" using Cons.prems(1) by (rule evolves_wf)
    have neq: "t_id q \<noteq> t_id x" if "q \<in> set rows" for q
      using Cons.prems(2) that by (auto simp: image_iff)
    have "step_locked now (t_id x) (src x) (dst x) ty (why x) (ex x) s = Inr t"
      using goes(2) by (simp add: step_locked_def)
    moreover have "distinct (map t_id rows)" using Cons.prems(2) by simp
    moreover have "\<forall>x\<in>set rows. find_task t (t_id x) = Some x \<and> t_status x = src x
           \<and> (dst x \<in> set TERMINAL_STATUSES \<longrightarrow> no_claim_columns (ex x))"
      using Cons.prems(3) neq by (auto simp: ft)
    ultimately show ?thesis using Cons.IH [OF wf] goes(1) by auto
  next
    case (refused m)
    then have "step_locked now (t_id x) (src x) (dst x) ty (why x) (ex x) s = Inl (InvalidTransitionError m)"
      by (simp add: step_locked_def)
    then show ?thesis using refused(1) by auto
  qed
qed

text \<open>The same over the rows a \<open>SELECT ... WHERE p\<close> returned.\<close>

lemma tasks_eqI:
  fixes xs ys :: "task list"
  assumes "map t_id ys = map t_id xs" and "distinct (map t_id xs)"
    and "\<And>x. x \<in> set xs \<Longrightarrow> List.find (\<lambda>t. t_id t = t_id x) ys = Some (g x)"
  shows "ys = map g xs"
proof (rule nth_equalityI)
  show len: "length ys = length (map g xs)" using map_eq_imp_length_eq [OF assms(1)] by simp
  fix i assume i: "i < length ys"
  let ?x = "xs ! i"
  have x: "?x \<in> set xs" using i len by simp
  have id: "t_id (ys ! i) = t_id ?x" using assms(1) i len by (metis length_map nth_map)
  have "List.find (\<lambda>t. t_id t = t_id ?x) ys = Some (ys ! i)"
  proof -
    have "find_task (empty_store False\<lparr>s_tasks := ys\<rparr>) (t_id (ys ! i)) = Some (ys ! i)"
      by (rule wf_find_task) (use i assms(1,2) in \<open>simp_all add: store_wf_def\<close>)
    then show ?thesis by (simp add: find_task_def id)
  qed
  with assms(3) [OF x] i len show "ys ! i = map g xs ! i" by simp
qed

lemma find_task_updated:
  assumes "store_wf s" and "x \<in> set (s_tasks s)"
    and "s_tasks s' = update_where p g (s_tasks s)" and "\<And>x. t_id (g x) = t_id x"
  shows "find_task s' (t_id x) = Some (if p x then g x else x)"
proof -
  have m: "map t_id (s_tasks s') = map t_id (s_tasks s)"
    unfolding assms(3) by (rule map_update_where_same) (rule assms(4))
  have "find_task s' (t_id (if p x then g x else x)) = Some (if p x then g x else x)"
    by (rule wf_find_task) (use assms m in \<open>auto simp: store_wf_def set_update_where\<close>)
  then show ?thesis using assms(4) by (simp split: if_splits)
qed

lemma for_each_selected:
  assumes "store_wf s"
    and "\<And>x. x \<in> set (s_tasks s) \<Longrightarrow> p x \<Longrightarrow> t_status x = src x"
    and "\<And>x. x \<in> set (s_tasks s) \<Longrightarrow> p x \<Longrightarrow> dst x \<in> set TERMINAL_STATUSES \<longrightarrow> no_claim_columns (ex x)"
  shows "if \<forall>x\<in>set (s_tasks s). p x \<longrightarrow> edge_allowed (src x) (dst x) (ex x) x
    then \<exists>s'. for_each (\<lambda>x. step_locked now (t_id x) (src x) (dst x) ty (why x) (ex x)) (filter p (s_tasks s)) s
                = Inr s'
       \<and> s_tasks s' = update_where p (\<lambda>x. final_row now (src x) (dst x) (why x) (ex x) x) (s_tasks s)
       \<and> s_lanes s' = s_lanes s
    else \<exists>m. for_each (\<lambda>x. step_locked now (t_id x) (src x) (dst x) ty (why x) (ex x)) (filter p (s_tasks s)) s
                = Inl (InvalidTransitionError m)"
proof -
  let ?rows = "filter p (s_tasks s)"
  let ?loop = "for_each (\<lambda>x. step_locked now (t_id x) (src x) (dst x) ty (why x) (ex x)) ?rows s"
  have rows: "\<forall>x\<in>set ?rows. find_task s (t_id x) = Some x \<and> t_status x = src x
      \<and> (dst x \<in> set TERMINAL_STATUSES \<longrightarrow> no_claim_columns (ex x))"
    using wf_filter_rows(2) [OF assms(1)] assms(2,3) by simp
  note D = for_each_transition_done [OF assms(1) wf_filter_rows(1) [OF assms(1)] rows, of now ty why]
  show ?thesis
  proof (cases "\<forall>x\<in>set ?rows. edge_allowed (src x) (dst x) (ex x) x")
    case False
    then have "\<exists>m. ?loop = Inl (InvalidTransitionError m)" using D by (simp only: if_False)
    with False show ?thesis by auto
  next
    case True
    then have "\<exists>s'. ?loop = Inr s'" using D by (simp only: if_True)
    then obtain s' where l: "?loop = Inr s'" ..
    note E = for_each_transition_result [OF l assms(1) wf_filter_rows(1) [OF assms(1)] rows]
    have rows': "find_task s' (t_id x) = Some (if p x then final_row now (src x) (dst x) (why x) (ex x) x else x)"
      if x: "x \<in> set (s_tasks s)" for x
    proof (cases "p x")
      case True
      with x E show ?thesis by simp
    next
      case False
      have "t_id x \<notin> t_id ` set ?rows"
      proof
        assume "t_id x \<in> t_id ` set ?rows"
        then obtain z where z: "z \<in> set ?rows" "t_id z = t_id x" by auto
        then have "z = x" using wf_row_unique [OF assms(1) wf_find_task [OF assms(1) x]] by simp
        with z False show False by simp
      qed
      with E False wf_find_task [OF assms(1) x] show ?thesis by simp
    qed
    have "s_tasks s' = update_where p (\<lambda>x. final_row now (src x) (dst x) (why x) (ex x) x) (s_tasks s)"
      unfolding update_where_def
      by (rule tasks_eqI) (use E rows' assms(1) in \<open>simp_all add: find_task_def store_wf_def\<close>)
    with True l E show ?thesis by auto
  qed
qed

lemma for_each_selected_ok:
  assumes "store_wf s"
    and "\<And>x. x \<in> set (s_tasks s) \<Longrightarrow> p x \<Longrightarrow> t_status x = src x \<and>
           (dst x \<in> set TERMINAL_STATUSES \<longrightarrow> no_claim_columns (ex x)) \<and> edge_allowed (src x) (dst x) (ex x) x"
  shows "\<exists>s'. for_each (\<lambda>x. step_locked now (t_id x) (src x) (dst x) ty (why x) (ex x)) (filter p (s_tasks s)) s
            = Inr s'
    \<and> s_tasks s' = update_where p (\<lambda>x. final_row now (src x) (dst x) (why x) (ex x) x) (s_tasks s)
    \<and> s_lanes s' = s_lanes s"
proof -
  have "\<forall>x\<in>set (s_tasks s). p x \<longrightarrow> edge_allowed (src x) (dst x) (ex x) x" using assms(2) by blast
  with for_each_selected [OF assms(1), of p src dst ex now ty why] assms(2) show ?thesis by simp
qed

lemma for_each_selected_refused:
  assumes "store_wf s"
    and "\<And>x. x \<in> set (s_tasks s) \<Longrightarrow> p x \<Longrightarrow> t_status x = src x \<and>
           (dst x \<in> set TERMINAL_STATUSES \<longrightarrow> no_claim_columns (ex x))"
    and "\<exists>y\<in>set (s_tasks s). p y \<and> \<not> edge_allowed (src y) (dst y) (ex y) y"
  shows "\<exists>m.
    for_each (\<lambda>x. step_locked now (t_id x) (src x) (dst x) ty (why x) (ex x)) (filter p (s_tasks s)) s
       = Inl (InvalidTransitionError m)"
proof -
  have "\<not> (\<forall>x\<in>set (s_tasks s). p x \<longrightarrow> edge_allowed (src x) (dst x) (ex x) x)" using assms(3) by blast
  with for_each_selected [OF assms(1), of p src dst ex now ty why] assms(2) show ?thesis by (simp only: if_False) simp
qed

section \<open>The chokepoint\<close>

lemma transition_locked_returns:
  assumes "transition_locked now tid f t ty r ex al s = Inr (row, s')"
  shows "find_task s' tid = Some row"
proof -
  let ?s1 = "update_task tid (transition_row now f t r ex) s"
  from assms obtain y where y: "find_task ?s1 tid = Some y"
    and c: "apply_worktree_cleanup_locked now y f t
        (record_event_locked now (t_session y) (Some tid) ty r (Some (status_name f))
           (Some (status_name t)) [] ?s1) = (row, s')"
    by (auto simp: transition_locked_def Let_def split: if_splits option.splits)
  from y have id: "t_id y = tid" using find_task_Some_iff by blast
  show ?thesis
  proof (cases "changes_record (decide f t (t_metadata y) (t_attempt_count y) (t_max_attempts y) TERMINAL_STATUSES)")
    case False
    with c y show ?thesis by (auto simp: apply_worktree_cleanup_locked_def Let_def)
  next
    case True
    with c y id show ?thesis
      by (auto simp: apply_worktree_cleanup_locked_def Let_def find_task_update_task)
  qed
qed

lemma transition_task_result:
  assumes "store_wf s" and "find_task s tid = Some x"
  shows "if edge_allowed (t_status x) t ex x
    then \<exists>s'. transition_task now tid t ty r ex s = (Inr (final_row now (t_status x) t r ex x), s')
       \<and> (\<forall>z. find_task s' z =
            (if z = tid then Some (final_row now (t_status x) t r ex x) else find_task s z))
       \<and> s_lanes s' = s_lanes s
    else \<exists>m. transition_task now tid t ty r ex s = (Inl (InvalidTransitionError m), discard_events s)"
proof (cases rule: transition_locked_cases [OF assms(2), of "t_status x" t ex now ty r, case_names goes refused])
  case (goes row u)
  note F = find_task_final [OF goes(2) assms(1)]
  have row: "row = final_row now (t_status x) t r ex x"
    using transition_locked_returns [OF goes(2)] F assms(2) by simp
  from goes(2) assms(1) obtain z where l: "s_lanes u = s_lanes s" by (rule transition_locked_final)
  have "transition_task now tid t ty r ex s = (Inr row, drain_events u)"
    using goes(2) assms(2) by (simp add: transition_task_def with_connection_def)
  moreover have "find_task (drain_events u) z = (if z = tid then Some row else find_task s z)" for z
    by (simp add: F row assms(2) option.map_ident)
  ultimately show ?thesis using goes(1) l by (auto simp: row)
next
  case (refused m)
  then show ?thesis using assms(2) by (simp add: transition_task_def with_connection_def)
qed

text \<open>
  C6: A status change succeeds exactly on an edge of the table whose target, when it is
  RUNNING or VERIFYING, comes with valid execution evidence; then the returned row is the
  stored one, its status is the target, DISPATCHING costs one attempt, a terminal status
  drops the claim, and no other task changes. Otherwise it raises and nothing is stored.
\<close>

theorem transition_task_contract:
  assumes "store_wf s" and "find_task s tid = Some x"
  shows "if is_valid_transition (t_status x) to_status
            \<and> (to_status \<in> {RUNNING, VERIFYING} \<longrightarrow> valid_execution_evidence (t_metadata x))
    then \<exists>y s'. transition_task now tid to_status ty reason [] s = (Inr y, s')
       \<and> t_status y = to_status \<and> same_identity x y
       \<and> t_attempt_count y = t_attempt_count x + (if to_status = DISPATCHING then 1 else 0)
       \<and> (to_status \<in> {COMPLETED, SKIPPED, CANCELLED} \<longrightarrow> unclaimed y)
       \<and> (\<forall>z. find_task s' z = (if z = tid then Some y else find_task s z)) \<and> s_lanes s' = s_lanes s
    else \<exists>m. transition_task now tid to_status ty reason [] s = (Inl (InvalidTransitionError m), discard_events s)"
proof -
  have e: "edge_allowed (t_status x) to_status [] x \<longleftrightarrow> is_valid_transition (t_status x) to_status
      \<and> (to_status \<in> {RUNNING, VERIFYING} \<longrightarrow> valid_execution_evidence (t_metadata x))"
    by (simp add: edge_allowed_def)
  have u: "to_status \<in> {COMPLETED, SKIPPED, CANCELLED} \<longrightarrow>
      unclaimed (final_row now (t_status x) to_status reason [] x)"
    using final_row_unclaimed [of to_status "[]"] by (simp add: status_groups)
  let ?y = "final_row now (t_status x) to_status reason [] x"
  note T = transition_task_result [OF assms, of to_status "[]" now ty reason]
  show ?thesis
  proof (cases "edge_allowed (t_status x) to_status [] x")
    case True
    from T obtain s' where s': "transition_task now tid to_status ty reason [] s = (Inr ?y, s')"
      "\<forall>z. find_task s' z = (if z = tid then Some ?y else find_task s z)" "s_lanes s' = s_lanes s"
      unfolding if_P [OF True] by blast
    show ?thesis
      unfolding e [symmetric] if_P [OF True]
      by (intro exI [of _ ?y] exI [of _ s'] conjI s' u final_row_identity final_row_attempts) simp
  next
    case False
    from T show ?thesis unfolding e [symmetric] if_not_P [OF False] .
  qed
qed

text \<open>
  The worktree-cleanup hook: settling a task that owns an isolated worktree, with no
  cleanup record yet, marks the worktree pending; reopening a task clears a pending,
  review or eligible record; every other transition leaves the record as it was.
\<close>

theorem transition_cleanup_record:
  assumes "store_wf s" and "find_task s tid = Some x"
    and "transition_task now tid to_status ty reason [] s = (Inr y, s')"
  shows "cleanup_state (t_metadata y) =
    (let settled = to_status \<in> {COMPLETED, SKIPPED, CANCELLED}
           \<or> (to_status = FAILED \<and> t_attempt_count x \<ge> t_max_attempts x);
         before = cleanup_state (t_metadata x)
     in if settled \<and> has_isolated_worktree (t_metadata x) \<and> before = JNull then JStr CLEANUP_PENDING
        else if \<not> settled \<and> before \<in> {JStr CLEANUP_PENDING, JStr CLEANUP_REVIEW, JStr CLEANUP_ELIGIBLE}
        then JNull else before)"
proof -
  let ?z = "transition_row now (t_status x) to_status reason [] x"
  let ?d = "decide (t_status x) to_status (t_metadata ?z) (t_attempt_count ?z) (t_max_attempts ?z) TERMINAL_STATUSES"
  have "y = final_row now (t_status x) to_status reason [] x"
    using transition_task_result [OF assms(1,2), of to_status "[]" now ty reason] assms(3)
    by (auto split: if_splits)
  then have y: "t_metadata y = apply_decision (t_metadata ?z) ?d now"
    by (auto simp: final_row_def cleanup_row_def Let_def not_changes_iff apply_decision_def)
  have m: "t_metadata ?z = t_metadata x" by (simp add: transition_row_metadata)
  show ?thesis
    unfolding y cleanup_after_decision m
    by (auto simp: Let_def is_terminal_def status_groups CANCELLABLE_STATES_def)
qed

section \<open>Witnesses\<close>

lemma sample_wf [simp]: "store_wf (sample_store ts) = distinct (map t_id ts)"
  by (simp add: store_wf_def)

lemma started_evidence_valid [simp]: "valid_execution_evidence started_evidence"
  by (simp add: started_evidence_def valid_execution_evidence_def evidence_accepted_def EXECUTION_SIGNALS_def)

lemma sample_evidence [simp]: "has_evidence (sample_started tid sess pos st)"
  by (simp add: has_evidence_def)

lemma sample_unclaimed [simp]:
  "unclaimed (sample_task tid sess pos st)" "unclaimed (sample_started tid sess pos st)"
  by (simp_all add: unclaimed_def)

lemma transition_task_contract_witness:
  "\<exists>y s'. transition_task 9 ''t1'' VERIFYING ''VERIFYING'' None []
       (sample_store [sample_started ''t1'' ''a'' 0 RUNNING]) = (Inr y, s') \<and> t_status y = VERIFYING"
  using transition_task_contract
    [of "sample_store [sample_started ''t1'' ''a'' 0 RUNNING]" "''t1''" "sample_started ''t1'' ''a'' 0 RUNNING"
      VERIFYING 9 "''VERIFYING''" None]
  by (auto simp: is_valid_transition_def)

lemma transition_cleanup_record_witness:
  "\<exists>y s'. transition_task 9 ''t1'' CANCELLED ''CANCELLED'' None []
       (sample_store [(sample_task ''t1'' ''a'' 0 QUEUED)\<lparr>t_metadata :=
           [(ISOLATION_KEY, JObj [(''worktree_path'', JStr ''/w'')])]\<rparr>]) = (Inr y, s')
     \<and> cleanup_state (t_metadata y) = JStr CLEANUP_PENDING"
proof -
  let ?t = "(sample_task ''t1'' ''a'' 0 QUEUED)\<lparr>t_metadata := [(ISOLATION_KEY, JObj [(''worktree_path'', JStr ''/w'')])]\<rparr>"
  have wf: "store_wf (sample_store [?t])" and f: "find_task (sample_store [?t]) ''t1'' = Some ?t" by simp_all
  have "edge_allowed (t_status ?t) CANCELLED [] ?t" by (simp add: edge_allowed_def is_valid_transition_def)
  with transition_task_result [OF wf f, of CANCELLED "[]" 9 "''CANCELLED''" None]
  obtain y s' where r: "transition_task 9 ''t1'' CANCELLED ''CANCELLED'' None [] (sample_store [?t]) = (Inr y, s')"
    by auto
  have "has_isolated_worktree (t_metadata ?t)" "cleanup_state (t_metadata ?t) = JNull"
    by (simp_all add: has_isolated_worktree_def cleanup_state_def cleanup_constants)
  with transition_cleanup_record [OF wf f r] r show ?thesis by (auto simp: Let_def)
qed

section \<open>A transition that others overlap\<close>

lemma transition_undisturbed:
  \<comment> \<open>with no other commit in between the statements are the transaction\<close>
  assumes "store_wf s \<or> t \<noteq> DISPATCHING"
  shows "transition_overlapped now tid t ty r ex s s s s = transition_task now tid t ty r ex s"
proof (cases "find_task s tid")
  case None
  then show ?thesis by (simp add: transition_overlapped_def transition_task_def with_connection_def)
next
  case (Some x)
  have "update_task tid (\<lambda>y. counted tid t s (transition_row now (t_status x) t r ex y)) s
      = update_task tid (transition_row now (t_status x) t r ex) s"
  proof (cases "t = DISPATCHING")
    case True
    have "counted tid t s (transition_row now (t_status x) t r ex x) = transition_row now (t_status x) t r ex x"
      using True Some by (simp add: counted_def)
    moreover have "y = x" if "y \<in> set (s_tasks s)" "t_id y = tid" for y
      using wf_row_unique [OF _ Some that] assms True by simp
    ultimately have "map (\<lambda>y. if t_id y = tid then counted tid t s (transition_row now (t_status x) t r ex y) else y) (s_tasks s)
        = map (\<lambda>y. if t_id y = tid then transition_row now (t_status x) t r ex y else y) (s_tasks s)"
      by (intro map_cong) auto
    then show ?thesis by (simp add: update_task_def update_where_def)
  qed (simp add: counted_def)
  then show ?thesis using Some
    by (simp add: transition_overlapped_def transition_task_def with_connection_def transition_locked_def
        transition_write_def Let_def)
qed

definition cleaned :: "timestamp \<Rightarrow> status \<Rightarrow> status \<Rightarrow> task \<Rightarrow> task" where
  \<comment> \<open>a row after the cleanup hook\<close>
  "cleaned now f t y = cleanup_row now (decide f t (t_metadata y) (t_attempt_count y) (t_max_attempts y)
     TERMINAL_STATUSES) (t_metadata y) y"

lemma final_row_cleaned: "final_row now f t r ex x = cleaned now f t (transition_row now f t r ex x)"
  by (simp add: final_row_def cleaned_def Let_def)

lemma transition_write_ok:
  assumes "store_wf s" and "find_task s tid = Some z" and "\<And>y. t_id (g y) = t_id y"
  obtains row s' where "transition_write now tid f t ty r g s = Inr (row, s')"
    and "\<forall>i. find_task s' i = (if i = tid then Some (cleaned now f t (g z)) else find_task s i)"
proof -
  let ?s1 = "update_task tid g s"
  have s1: "find_task ?s1 i = (if i = tid then Some (g z) else find_task s i)" for i
    using find_task_update_task [OF assms(3), where s = s and tid = tid] assms(2)
    by (auto simp: option.map_ident)
  have id: "t_id (g z) = tid" using assms(3) find_task_Some_iff [OF assms(2)] by simp
  let ?s2 = "record_event_locked now (t_session (g z)) (Some tid) ty r (Some (status_name f)) (Some (status_name t)) [] ?s1"
  obtain row s' where c: "apply_worktree_cleanup_locked now (g z) f t ?s2 = (row, s')" by force
  have tasks: "s_tasks s' = update_where (\<lambda>x. t_id x = tid)
      (cleanup_row now (decide f t (t_metadata (g z)) (t_attempt_count (g z)) (t_max_attempts (g z)) TERMINAL_STATUSES)
         (t_metadata (g z))) (s_tasks ?s1)"
    using apply_worktree_cleanup_tasks(1) [OF c] by (simp add: id)
  have "find_task s' i = (if i = tid then Some (cleaned now f t (g z)) else find_task s i)" for i
  proof -
    have "find_task s' i = map_option (\<lambda>x. if i = tid then
        cleanup_row now (decide f t (t_metadata (g z)) (t_attempt_count (g z)) (t_max_attempts (g z)) TERMINAL_STATUSES)
          (t_metadata (g z)) x else x) (find_task ?s1 i)"
      unfolding find_task_def tasks by (rule find_update_where) simp
    then show ?thesis by (auto simp: s1 cleaned_def option.map_ident)
  qed
  moreover have "transition_write now tid f t ty r g s = Inr (row, s')"
    using c by (simp add: transition_write_def s1 Let_def)
  ultimately show ?thesis using that by blast
qed

lemma transition_overlapped_effect:
  assumes "store_wf s" and "t \<noteq> DISPATCHING"
    and "find_task q tid = Some x" and "find_task m tid = Some y" and "find_task s tid = Some z"
  shows "if edge_allowed (t_status x) t ex y
    then \<exists>row s'. transition_overlapped now tid t ty r ex q m a s = (Inr row, s')
      \<and> (\<forall>i. find_task s' i = (if i = tid then Some (final_row now (t_status x) t r ex z) else find_task s i))
    else \<exists>e. transition_overlapped now tid t ty r ex q m a s = (Inl e, discard_events s)"
proof (cases "edge_allowed (t_status x) t ex y")
  case False
  then show ?thesis using assms
    by (auto simp: transition_overlapped_def with_connection_def Let_def edge_allowed_def split: option.split)
next
  case True
  let ?g = "\<lambda>w. counted tid t a (transition_row now (t_status x) t r ex w)"
  obtain row u where u: "transition_write now tid (t_status x) t ty r ?g s = Inr (row, u)"
    and F: "\<forall>i. find_task u i = (if i = tid then Some (cleaned now (t_status x) t (?g z)) else find_task s i)"
    by (rule transition_write_ok [OF assms(1,5), where g = ?g]) (simp_all add: counted_def)
  have g: "?g z = transition_row now (t_status x) t r ex z" using assms(2) by (simp add: counted_def)
  have "transition_overlapped now tid t ty r ex q m a s = (Inr row, drain_events u)"
    using True u assms(2-4)
    by (auto simp: transition_overlapped_def with_connection_def Let_def edge_allowed_def split: option.splits)
  moreover have "find_task (drain_events u) i = find_task u i" for i by simp
  ultimately show ?thesis using True F unfolding g final_row_cleaned by simp
qed

end
