(* ===== verification/QueueLanes.thy ===== *)
theory QueueLanes
  imports QueueEvolution
begin

text \<open>
  The lane operations of \<open>queue_store.py\<close>: pausing and resuming a session's lane,
  its status report, the per-lane settings, the sweep that clears a coordinator pause
  nothing needs any more, and the session rename.
\<close>

section \<open>Pause and resume\<close>

definition PAUSABLE_STATUSES :: "status list" where
  \<comment> \<open>the statuses \<open>_pause_lane_locked\<close> selects\<close>
  "PAUSABLE_STATUSES =
     [PRECHECK, READY, DISPATCHING, DISPATCH_UNCERTAIN, RUNNING, VERIFYING, WAITING_SESSION]"

definition pause_lane_locked ::
  "timestamp \<Rightarrow> string \<Rightarrow> string option \<Rightarrow> string option \<Rightarrow> store \<Rightarrow> queue_error + store" where
  "pause_lane_locked now sess reason orig s =
     (let s1 = update_lane sess (\<lambda>l. l\<lparr>l_paused := True, l_paused_reason := reason,
                 l_paused_origin := orig, l_updated_at := now\<rparr>) (ensure_lane now sess s);
          active = filter (\<lambda>t. t_session t = sess \<and> t_status t \<in> set PAUSABLE_STATUSES) (s_tasks s1)
      in and_then
           (for_each (\<lambda>row. step_locked now (t_id row) (t_status row) PAUSED ''PAUSED'' reason
                              [Paused_from_status (Some (t_status row))]) active s1)
           (\<lambda>s2. Inr (log_event now sess None ''LANE_PAUSED'' reason s2)))"

definition pause_lane ::
  "timestamp \<Rightarrow> string \<Rightarrow> string option \<Rightarrow> string option \<Rightarrow> store \<Rightarrow> (queue_error + unit) \<times> store" where
  "pause_lane now sess reason orig =
     with_connection (\<lambda>s. and_then (pause_lane_locked now sess reason orig s) (\<lambda>s'. Inr ((), s')))"

definition resume_target :: "task \<Rightarrow> status" where
  \<comment> \<open>\<open>row["paused_from_status"] or QUEUED\<close>\<close>
  "resume_target t = (case t_paused_from_status t of None \<Rightarrow> QUEUED | Some st \<Rightarrow> st)"

definition resume_lane :: "timestamp \<Rightarrow> string \<Rightarrow> store \<Rightarrow> (queue_error + unit) \<times> store" where
  "resume_lane now sess = with_connection (\<lambda>s.
     let s1 = update_lane sess (\<lambda>l. l\<lparr>l_paused := False, l_paused_reason := None,
                l_paused_origin := None, l_updated_at := now\<rparr>) (ensure_lane now sess s);
         paused_tasks = filter (\<lambda>t. t_session t = sess \<and> t_status t = PAUSED) (s_tasks s1)
     in and_then
          (for_each (\<lambda>row. step_locked now (t_id row) PAUSED (resume_target row) ''RESUMED'' None
                             [Paused_from_status None]) paused_tasks s1)
          (\<lambda>s2. Inr ((), log_event now sess None ''LANE_RESUMED'' None s2)))"

section \<open>The status report\<close>

record lane_report =
  r_session :: string
  r_paused :: bool
  r_paused_reason :: "string option"
  r_paused_origin :: "string option"
  r_auto_dispatch_enabled :: bool
  r_project :: "string option"
  r_last_rebalance_at :: "timestamp option"
  r_tasks :: "task list"
  r_current_task :: "task option"
  r_queued_count :: nat
  r_completed_count :: nat
  r_total_count :: nat

definition lane_tasks :: "store \<Rightarrow> string \<Rightarrow> task list" where
  \<comment> \<open>\<open>SELECT * FROM queue_tasks WHERE session = ? ORDER BY position ASC\<close>\<close>
  "lane_tasks s sess = sort_key t_position (filter (\<lambda>t. t_session t = sess) (s_tasks s))"

definition lane_status :: "timestamp \<Rightarrow> string \<Rightarrow> store \<Rightarrow> (queue_error + lane_report) \<times> store" where
  "lane_status now sess = with_connection (\<lambda>s.
     let s1 = ensure_lane now sess s; tasks = lane_tasks s1 sess
     in case find_lane s1 sess of
          None \<Rightarrow> Inl TypeError
        | Some l \<Rightarrow> Inr (\<lparr>r_session = sess, r_paused = l_paused l,
              r_paused_reason = l_paused_reason l,
              r_paused_origin = pause_origin (l_paused_origin l) (l_paused_reason l),
              r_auto_dispatch_enabled = l_auto_dispatch_enabled l, r_project = l_project l,
              r_last_rebalance_at = l_last_rebalance_at l, r_tasks = tasks,
              r_current_task = List.find (\<lambda>t. t_status t \<in> set ACTIVE_STATUSES) tasks,
              r_queued_count = length (filter (\<lambda>t. t_status t = QUEUED) tasks),
              r_completed_count = length (filter (\<lambda>t. t_status t = COMPLETED) tasks),
              r_total_count = length tasks\<rparr>, s1))"

primrec list_all_lanes_of :: "timestamp \<Rightarrow> string list \<Rightarrow> store \<Rightarrow> (queue_error + lane_report list) \<times> store" where
  "list_all_lanes_of now [] s = (Inr [], s)"
| "list_all_lanes_of now (x # xs) s =
     (case lane_status now x s of
        (Inl e, s') \<Rightarrow> (Inl e, s')
      | (Inr r, s') \<Rightarrow> (case list_all_lanes_of now xs s' of
            (Inl e, s'') \<Rightarrow> (Inl e, s'')
          | (Inr rs, s'') \<Rightarrow> (Inr (r # rs), s'')))"

definition list_all_lanes :: "timestamp \<Rightarrow> store \<Rightarrow> (queue_error + lane_report list) \<times> store" where
  "list_all_lanes now s = list_all_lanes_of now (map l_session (s_lanes s)) s"

section \<open>Settings\<close>

definition set_auto_dispatch :: "timestamp \<Rightarrow> string \<Rightarrow> bool \<Rightarrow> store \<Rightarrow> (queue_error + unit) \<times> store" where
  "set_auto_dispatch now sess enabled = with_connection (\<lambda>s.
     let s1 = update_lane sess (\<lambda>l. l\<lparr>l_auto_dispatch_enabled := enabled, l_updated_at := now\<rparr>)
                (ensure_lane now sess s)
     in Inr ((), log_event now sess None
          (if enabled then ''AUTO_DISPATCH_ENABLED'' else ''AUTO_DISPATCH_DISABLED'') None s1))"

definition set_lane_project ::
  "timestamp \<Rightarrow> string \<Rightarrow> string option \<Rightarrow> store \<Rightarrow> (queue_error + unit) \<times> store" where
  "set_lane_project now sess proj = with_connection (\<lambda>s.
     Inr ((), update_lane sess (\<lambda>l. l\<lparr>l_project := proj, l_updated_at := now\<rparr>) (ensure_lane now sess s)))"

definition mark_rebalanced :: "timestamp \<Rightarrow> string \<Rightarrow> store \<Rightarrow> (queue_error + unit) \<times> store" where
  "mark_rebalanced now sess = with_connection (\<lambda>s.
     Inr ((), update_lane sess (\<lambda>l. l\<lparr>l_last_rebalance_at := Some now, l_updated_at := now\<rparr>)
                (ensure_lane now sess s)))"

section \<open>Reconciling a coordinator pause\<close>

definition resume_resolved_preflight ::
  "timestamp \<Rightarrow> task \<Rightarrow> store \<Rightarrow> (queue_error + bool) \<times> store" where
  "resume_resolved_preflight now snap = with_connection (\<lambda>s.
     case (find_task s (t_id snap), find_lane s (t_session snap)) of
       (Some row, Some l) \<Rightarrow>
         if t_status row \<noteq> PAUSED \<or> t_updated_at row \<noteq> t_updated_at snap
            \<or> t_started_at row \<noteq> None \<or> t_attempt_count row \<noteq> 0
            \<or> nonempty (t_dispatch_idempotency_key row)
            \<or> pause_origin (l_paused_origin l) (l_paused_reason l) \<noteq> Some PAUSE_ORIGIN_COORDINATOR
         then Inr (False, s)
         else if \<exists>t\<in>set (s_tasks s). t_session t = t_session snap \<and> t_status t = PAUSED
                   \<and> t_id t \<noteq> t_id snap
         then Inr (False, s)
         else and_then
           (step_locked now (t_id snap) PAUSED QUEUED ''PREFLIGHT_BLOCKER_RESOLVED''
              (Some ''fresh preflight review passed; ready for a new claim'')
              ([Paused_from_status None, Coordinator_attempts 0] @ clear_claim) s)
           (\<lambda>s1. Inr (True, update_lane (t_session snap)
              (\<lambda>l. l\<lparr>l_paused := False, l_paused_reason := None, l_paused_origin := None,
                     l_updated_at := now\<rparr>) s1))
     | _ \<Rightarrow> Inr (False, s))"

definition still_guarding :: "store \<Rightarrow> string \<Rightarrow> bool" where
  "still_guarding s sess \<longleftrightarrow> (\<exists>t\<in>set (s_tasks s). t_session t = sess \<and> t_status t = PAUSED)"

definition reconcile_lane :: "timestamp \<Rightarrow> lane \<Rightarrow> store \<Rightarrow> store" where
  "reconcile_lane now row s = log_event now (l_session row) None ''LANE_PAUSE_RECONCILED''
     (Some (''coordinator pause no longer guards any task (was: ''
            @ str_or (l_paused_reason row) ''no reason recorded'' @ '')''))
     (update_lane (l_session row) (\<lambda>l. l\<lparr>l_paused := False, l_paused_reason := None,
        l_paused_origin := None, l_updated_at := now\<rparr>) s)"

definition stale_pause :: "store \<Rightarrow> lane \<Rightarrow> bool" where
  "stale_pause s row \<longleftrightarrow>
     pause_origin (l_paused_origin row) (l_paused_reason row) = Some PAUSE_ORIGIN_COORDINATOR
     \<and> \<not> still_guarding s (l_session row)"

primrec reconcile_lanes :: "timestamp \<Rightarrow> lane list \<Rightarrow> store \<Rightarrow> string list \<times> store" where
  "reconcile_lanes now [] s = ([], s)"
| "reconcile_lanes now (row # rows) s =
     (if stale_pause s row
      then (case reconcile_lanes now rows (reconcile_lane now row s) of
              (done, s') \<Rightarrow> (l_session row # done, s'))
      else reconcile_lanes now rows s)"

definition reconcile_stale_lane_pause ::
  "timestamp \<Rightarrow> string option \<Rightarrow> store \<Rightarrow> (queue_error + string list) \<times> store" where
  "reconcile_stale_lane_pause now sess = with_connection (\<lambda>s.
     Inr (reconcile_lanes now (filter (\<lambda>l. l_paused l
            \<and> (nonempty sess \<longrightarrow> l_session l = the sess)) (s_lanes s)) s))"

section \<open>Renaming a session\<close>

definition rename_session :: "timestamp \<Rightarrow> string \<Rightarrow> string \<Rightarrow> store \<Rightarrow> (queue_error + nat) \<times> store" where
  \<comment> \<open>returns how many tasks the lane held\<close>
  "rename_session now old new = with_connection (\<lambda>s.
     if find_lane s new \<noteq> None
     then Inl (ValueError (''a queue lane already exists for '' @ py_repr new))
     else Inr (length (filter (\<lambda>t. t_session t = old) (s_tasks s)),
               record_event_locked now new None ''SESSION_RENAMED''
                 (Some (''renamed from '' @ py_repr old)) None None
                 [(''from'', JStr old)] (rename_rows now old new s)))"

section \<open>Every lane operation keeps the contract\<close>

context store_relation
begin

lemma R_lane_setting:
  "(\<And>l. l_session (h l) = l_session l) \<Longrightarrow> R s (update_lane sess h (ensure_lane now sess s))"
  by (rule R_trans [OF R_ensure_lane R_lane])

lemma R_pause_locked:
  assumes "pause_lane_locked now sess reason orig s = Inr s'" and "store_wf s"
  shows "R s s'"
proof -
  let ?s1 = "update_lane sess (\<lambda>l. l\<lparr>l_paused := True, l_paused_reason := reason,
                 l_paused_origin := orig, l_updated_at := now\<rparr>) (ensure_lane now sess s)"
  let ?rows = "filter (\<lambda>t. t_session t = sess \<and> t_status t \<in> set PAUSABLE_STATUSES) (s_tasks ?s1)"
  from assms(1) obtain s2 where s2: "for_each (\<lambda>row. step_locked now (t_id row) (t_status row) PAUSED
        ''PAUSED'' reason [Paused_from_status (Some (t_status row))]) ?rows ?s1 = Inr s2"
    and s': "s' = log_event now sess None ''LANE_PAUSED'' reason s2"
    unfolding pause_lane_locked_def Let_def by (rule and_then_InrE) simp
  have wf: "store_wf ?s1" using assms(2) by simp
  have "R ?s1 s2 \<and> touches_only (t_id ` set ?rows) ?s1 s2"
    by (rule R_for_each_transition [OF s2 wf wf_filter_rows [OF wf]]) (simp_all add: status_groups)
  moreover have "R s ?s1" by (rule R_lane_setting) simp
  ultimately show ?thesis unfolding s' using R_trans R_event by blast
qed

lemma R_pause_lane:
  "pause_lane now sess reason orig s = (r, s') \<Longrightarrow> store_wf s \<Longrightarrow> s_pending s = [] \<Longrightarrow> R s s'"
  unfolding pause_lane_def
  by (erule R_connection) (auto simp: and_then_Inr_iff intro: R_pause_locked)

lemma R_resume_lane:
  assumes "resume_lane now sess s = (r, s')" and "store_wf s" and "s_pending s = []"
  shows "R s s'"
  using assms(1) unfolding resume_lane_def
proof (rule R_connection [OF _ assms(3)])
  fix a t
  let ?s1 = "update_lane sess (\<lambda>l. l\<lparr>l_paused := False, l_paused_reason := None,
                l_paused_origin := None, l_updated_at := now\<rparr>) (ensure_lane now sess s)"
  let ?rows = "filter (\<lambda>t. t_session t = sess \<and> t_status t = PAUSED) (s_tasks ?s1)"
  assume "(let s1 = ?s1; paused_tasks = filter (\<lambda>t. t_session t = sess \<and> t_status t = PAUSED) (s_tasks s1)
     in and_then
          (for_each (\<lambda>row. step_locked now (t_id row) PAUSED (resume_target row) ''RESUMED'' None
                             [Paused_from_status None]) paused_tasks s1)
          (\<lambda>s2. Inr ((), log_event now sess None ''LANE_RESUMED'' None s2))) = Inr (a, t)"
  then obtain s2 where s2: "for_each (\<lambda>row. step_locked now (t_id row) PAUSED (resume_target row)
        ''RESUMED'' None [Paused_from_status None]) ?rows ?s1 = Inr s2"
    and t: "t = log_event now sess None ''LANE_RESUMED'' None s2"
    unfolding Let_def by (rule and_then_InrE) simp
  have wf: "store_wf ?s1" using assms(2) by simp
  have "R ?s1 s2 \<and> touches_only (t_id ` set ?rows) ?s1 s2"
    by (rule R_for_each_transition [OF s2 wf wf_filter_rows [OF wf]]) (simp_all add: status_groups)
  moreover have "R s ?s1" by (rule R_lane_setting) simp
  ultimately show "R s t" unfolding t using R_trans R_event by blast
qed

lemma R_lane_status:
  "lane_status now sess s = (r, s') \<Longrightarrow> s_pending s = [] \<Longrightarrow> R s s'"
  unfolding lane_status_def
  by (erule R_connection) (auto simp: Let_def intro: R_ensure_lane split: option.splits)

lemma R_set_auto_dispatch:
  "set_auto_dispatch now sess en s = (r, s') \<Longrightarrow> s_pending s = [] \<Longrightarrow> R s s'"
  unfolding set_auto_dispatch_def
  by (erule R_connection) (auto simp: Let_def intro!: R_trans [OF R_lane_setting R_event])

lemma R_set_lane_project:
  "set_lane_project now sess p s = (r, s') \<Longrightarrow> s_pending s = [] \<Longrightarrow> R s s'"
  unfolding set_lane_project_def
  by (erule R_connection) (auto intro!: R_lane_setting)

lemma R_mark_rebalanced:
  "mark_rebalanced now sess s = (r, s') \<Longrightarrow> s_pending s = [] \<Longrightarrow> R s s'"
  unfolding mark_rebalanced_def
  by (erule R_connection) (auto intro!: R_lane_setting)

lemma R_step_locked:
  assumes "step_locked now tid f t ty r ex s = Inr s'" and "store_wf s"
    and "find_task s tid = Some x" and "t_status x = f"
    and "t \<in> set TERMINAL_STATUSES \<longrightarrow> no_claim_columns ex"
  shows "R s s'"
proof -
  from assms(1) obtain row where
    tr: "transition_locked now tid f t ty r ex False s = Inr (row, s')"
    by (auto simp: step_locked_def and_then_Inr_iff)
  show ?thesis
    by (rule R_transition [OF tr assms(2)]) (use assms(3-5) in auto)
qed

lemma R_resume_preflight:
  "resume_resolved_preflight now snap s = (r, s') \<Longrightarrow> store_wf s \<Longrightarrow> s_pending s = [] \<Longrightarrow> R s s'"
  unfolding resume_resolved_preflight_def
  by (erule R_connection)
     (auto simp: R_refl and_then_Inr_iff status_groups split: option.splits if_splits
       intro!: R_trans [OF R_step_locked R_lane])

lemma R_reconcile_lanes: "reconcile_lanes now rows s = (swept, s') \<Longrightarrow> R s s'"
proof (induction rows arbitrary: s swept)
  case Nil
  then show ?case by (simp add: R_refl)
next
  case (Cons row rows)
  have "R s (reconcile_lane now row s)"
    unfolding reconcile_lane_def by (intro R_trans [OF R_lane R_event]) simp
  with Cons show ?case
    by (auto split: if_splits prod.splits intro: R_trans)
qed

lemma R_reconcile_pause:
  "reconcile_stale_lane_pause now sess s = (r, s') \<Longrightarrow> s_pending s = [] \<Longrightarrow> R s s'"
  unfolding reconcile_stale_lane_pause_def
  by (erule R_connection) (auto intro: R_reconcile_lanes)

lemma R_rename_session:
  "rename_session now old new s = (r, s') \<Longrightarrow> s_pending s = [] \<Longrightarrow> R s s'"
  unfolding rename_session_def
  by (erule R_connection) (auto split: if_splits intro!: R_trans [OF R_rename R_event])

end

section \<open>What pause and resume do\<close>

definition in_lane :: "string \<Rightarrow> status list \<Rightarrow> task \<Rightarrow> bool" where
  "in_lane sess sts t \<longleftrightarrow> t_session t = sess \<and> t_status t \<in> set sts"

definition paused_row :: "timestamp \<Rightarrow> string option \<Rightarrow> task \<Rightarrow> task" where
  "paused_row now reason x =
     final_row now (t_status x) PAUSED reason [Paused_from_status (Some (t_status x))] x"

definition resumed_row :: "timestamp \<Rightarrow> task \<Rightarrow> task" where
  "resumed_row now x = final_row now PAUSED (resume_target x) None [Paused_from_status None] x"

lemma final_row_paused_from:
  "t_paused_from_status (final_row now f t r [Paused_from_status v] x) = v"
  by (simp add: final_row_def transition_row_def Let_def)

lemma paused_row_facts:
  "t_id (paused_row now reason x) = t_id x"
  "t_session (paused_row now reason x) = t_session x"
  "t_status (paused_row now reason x) = PAUSED"
  "t_paused_from_status (paused_row now reason x) = Some (t_status x)"
  "t_attempt_count (paused_row now reason x) = t_attempt_count x"
  "has_evidence (paused_row now reason x) = has_evidence x"
  unfolding has_evidence_def
  by (simp_all add: paused_row_def final_row_paused_from final_row_attempts final_row_evidence
      cong: valid_evidence_cong)

lemma pausable_edge:
  "st \<in> set PAUSABLE_STATUSES \<Longrightarrow> is_valid_transition st PAUSED \<longleftrightarrow> st \<noteq> WAITING_SESSION"
  by (auto simp: PAUSABLE_STATUSES_def is_valid_transition_def)

lemma pause_locked_result:
  assumes "store_wf s"
  shows "if \<exists>t\<in>set (s_tasks s). in_lane sess [WAITING_SESSION] t
    then \<exists>m. pause_lane_locked now sess reason orig s = Inl (InvalidTransitionError m)
    else \<exists>s'. pause_lane_locked now sess reason orig s = Inr s'
       \<and> s_tasks s' = update_where (in_lane sess PAUSABLE_STATUSES) (paused_row now reason) (s_tasks s)
       \<and> (\<exists>l. find_lane s' sess = Some l \<and> l_paused l \<and> l_paused_reason l = reason
             \<and> l_paused_origin l = orig)"
proof -
  let ?s1 = "update_lane sess (\<lambda>l. l\<lparr>l_paused := True, l_paused_reason := reason,
                 l_paused_origin := orig, l_updated_at := now\<rparr>) (ensure_lane now sess s)"
  let ?p = "\<lambda>t. t_session t = sess \<and> t_status t \<in> set PAUSABLE_STATUSES"
  let ?loop = "for_each (\<lambda>row. step_locked now (t_id row) (t_status row) PAUSED
        ''PAUSED'' reason [Paused_from_status (Some (t_status row))]) (filter ?p (s_tasks ?s1)) ?s1"
  have wf: "store_wf ?s1" using assms by simp
  show ?thesis
  proof (cases "\<exists>t\<in>set (s_tasks s). in_lane sess [WAITING_SESSION] t")
    case True
    have "\<exists>m. ?loop = Inl (InvalidTransitionError m)"
      using True
      by (intro for_each_selected_refused [OF wf])
         (auto simp: edge_allowed_def in_lane_def is_valid_transition_def PAUSABLE_STATUSES_def status_groups)
    with True show ?thesis by (auto simp: pause_lane_locked_def Let_def)
  next
    case False
    have "\<exists>s2. ?loop = Inr s2 \<and> s_tasks s2 = update_where ?p (\<lambda>x. final_row now (t_status x) PAUSED
        reason [Paused_from_status (Some (t_status x))] x) (s_tasks ?s1) \<and> s_lanes s2 = s_lanes ?s1"
    proof (rule for_each_selected_ok [OF wf])
      fix x assume "x \<in> set (s_tasks ?s1)" "?p x"
      then have "edge_allowed (t_status x) PAUSED [Paused_from_status (Some (t_status x))] x"
        using False by (auto simp: edge_allowed_def pausable_edge in_lane_def)
      then show "t_status x = t_status x \<and> (PAUSED \<in> set TERMINAL_STATUSES \<longrightarrow>
          no_claim_columns [Paused_from_status (Some (t_status x))]) \<and>
          edge_allowed (t_status x) PAUSED [Paused_from_status (Some (t_status x))] x"
        by (simp add: status_groups)
    qed
    then obtain s2 where l: "?loop = Inr s2"
      and E: "s_tasks s2 = update_where (in_lane sess PAUSABLE_STATUSES) (paused_row now reason) (s_tasks s)"
      and sl: "s_lanes s2 = s_lanes ?s1" by (auto simp: in_lane_def [abs_def] paused_row_def [abs_def])
    obtain l where "find_lane (ensure_lane now sess s) sess = Some l"
      using find_lane_ensure by blast
    then have "\<exists>l. find_lane s2 sess = Some l \<and> l_paused l \<and> l_paused_reason l = reason
             \<and> l_paused_origin l = orig"
      by (simp add: find_lane_cong [OF sl] find_lane_update_lane)
    with False l E show ?thesis by (simp add: pause_lane_locked_def Let_def)
  qed
qed

lemma resume_result:
  assumes "store_wf s"
    and "\<forall>x\<in>set (s_tasks s). in_lane sess [PAUSED] x \<longrightarrow>
           edge_allowed PAUSED (resume_target x) [Paused_from_status None] x"
  shows "\<exists>s'. resume_lane now sess s = (Inr (), s')
       \<and> s_tasks s' = update_where (in_lane sess [PAUSED]) (resumed_row now) (s_tasks s)
       \<and> (\<exists>l. find_lane s' sess = Some l \<and> \<not> l_paused l)"
proof -
  let ?s1 = "update_lane sess (\<lambda>l. l\<lparr>l_paused := False, l_paused_reason := None,
                l_paused_origin := None, l_updated_at := now\<rparr>) (ensure_lane now sess s)"
  let ?p = "\<lambda>t. t_session t = sess \<and> t_status t = PAUSED"
  have wf: "store_wf ?s1" using assms by simp
  have "\<exists>s2. for_each (\<lambda>row. step_locked now (t_id row) PAUSED (resume_target row) ''RESUMED'' None
        [Paused_from_status None]) (filter ?p (s_tasks ?s1)) ?s1 = Inr s2
      \<and> s_tasks s2 = update_where ?p (\<lambda>x. final_row now PAUSED (resume_target x)
        None [Paused_from_status None] x) (s_tasks ?s1) \<and> s_lanes s2 = s_lanes ?s1"
    by (rule for_each_selected_ok [OF wf]) (use assms(2) in \<open>auto simp: in_lane_def\<close>)
  then obtain s2 where l: "for_each (\<lambda>row. step_locked now (t_id row) PAUSED (resume_target row)
        ''RESUMED'' None [Paused_from_status None]) (filter ?p (s_tasks ?s1)) ?s1 = Inr s2"
    and E: "s_tasks s2 = update_where (in_lane sess [PAUSED]) (resumed_row now) (s_tasks s)"
    and sl: "s_lanes s2 = s_lanes ?s1" by (auto simp: in_lane_def [abs_def] resumed_row_def [abs_def])
  obtain l where "find_lane (ensure_lane now sess s) sess = Some l"
    using find_lane_ensure by blast
  then have "\<exists>l. find_lane s2 sess = Some l \<and> \<not> l_paused l"
    by (simp add: find_lane_cong [OF sl] find_lane_update_lane)
  then show ?thesis
    using l E by (simp add: resume_lane_def with_connection_def Let_def)
qed

section \<open>The lane properties\<close>

lemma pause_lane_run:
  "pause_lane_locked now sess reason orig s = Inr s' \<Longrightarrow>
     pause_lane now sess reason orig s = (Inr (), drain_events s')"
  "pause_lane_locked now sess reason orig s = Inl e \<Longrightarrow>
     pause_lane now sess reason orig s = (Inl e, discard_events s)"
  by (simp_all add: pause_lane_def with_connection_def)

text \<open>
  Pausing a lane in which no task waits for its session succeeds, marks the lane with
  the given reason and origin, and moves exactly the lane's started, unfinished tasks to
  PAUSED, each remembering the status it was paused from; every other row is untouched.
\<close>

theorem pause_lane_effect:
  assumes "store_wf s"
    and "\<forall>t\<in>set (s_tasks s). t_session t = sess \<longrightarrow> t_status t \<noteq> WAITING_SESSION"
  shows "\<exists>s'. pause_lane now sess reason orig s = (Inr (), s')
    \<and> (\<exists>l. find_lane s' sess = Some l \<and> l_paused l \<and> l_paused_reason l = reason \<and> l_paused_origin l = orig)
    \<and> (\<forall>x\<in>set (s_tasks s). \<exists>y. find_task s' (t_id x) = Some y \<and>
         (if t_session x = sess \<and> t_status x \<in> {PRECHECK, READY, DISPATCHING, DISPATCH_UNCERTAIN, RUNNING, VERIFYING}
          then t_status y = PAUSED \<and> t_paused_from_status y = Some (t_status x)
               \<and> t_attempt_count y = t_attempt_count x \<and> same_identity x y
          else y = x))"
proof -
  have no: "\<not> (\<exists>t\<in>set (s_tasks s). in_lane sess [WAITING_SESSION] t)"
    using assms(2) by (auto simp: in_lane_def)
  with pause_locked_result [OF assms(1), of sess now reason orig] obtain s' where
    p: "pause_lane_locked now sess reason orig s = Inr s'"
    and t: "s_tasks s' = update_where (in_lane sess PAUSABLE_STATUSES) (paused_row now reason) (s_tasks s)"
    and l: "\<exists>l. find_lane s' sess = Some l \<and> l_paused l \<and> l_paused_reason l = reason \<and> l_paused_origin l = orig"
    by auto
  have "\<exists>y. find_task s' (t_id x) = Some y \<and>
         (if t_session x = sess \<and> t_status x \<in> {PRECHECK, READY, DISPATCHING, DISPATCH_UNCERTAIN, RUNNING, VERIFYING}
          then t_status y = PAUSED \<and> t_paused_from_status y = Some (t_status x)
               \<and> t_attempt_count y = t_attempt_count x \<and> same_identity x y
          else y = x)" if x: "x \<in> set (s_tasks s)" for x
    using find_task_updated [OF assms(1) x t] assms(2) x
    by (auto simp: paused_row_facts in_lane_def PAUSABLE_STATUSES_def) (simp_all add: paused_row_def same_identity_def)
  with p l show ?thesis by (intro exI [of _ "drain_events s'"]) (simp add: pause_lane_run)
qed

text \<open>
  A pause of a lane that holds a WAITING_SESSION task always raises
  InvalidTransitionError and rolls the whole pause back: the code selects such tasks for
  PAUSED, an edge its own table does not have.
\<close>

theorem pause_lane_refused_by_waiting:
  assumes "store_wf s" and "t \<in> set (s_tasks s)" and "t_session t = sess" and "t_status t = WAITING_SESSION"
  shows "\<exists>m. pause_lane now sess reason orig s = (Inl (InvalidTransitionError m), discard_events s)"
proof -
  have "\<exists>t\<in>set (s_tasks s). in_lane sess [WAITING_SESSION] t"
    using assms(2-4) by (auto simp: in_lane_def)
  with pause_locked_result [OF assms(1), of sess now reason orig] show ?thesis
    by (auto dest: pause_lane_run(2))
qed

lemma resume_paused_edge:
  assumes "st \<in> {PRECHECK, READY, DISPATCHING, DISPATCH_UNCERTAIN, RUNNING, VERIFYING}"
    and "t_paused_from_status y = Some st" and "st \<in> {RUNNING, VERIFYING} \<longrightarrow> has_evidence y"
  shows "edge_allowed PAUSED (resume_target y) [Paused_from_status None] y"
  using assms by (auto simp: edge_allowed_def resume_target_def has_evidence_def is_valid_transition_def)

lemma resumed_row_facts:
  "t_id (resumed_row now x) = t_id x"
  "t_status (resumed_row now x) = resume_target x"
  "t_paused_from_status (resumed_row now x) = None"
  "t_attempt_count (resumed_row now x) = t_attempt_count x + (if resume_target x = DISPATCHING then 1 else 0)"
  by (simp_all add: resumed_row_def final_row_paused_from final_row_attempts)

definition resumable :: "task \<Rightarrow> bool" where
  \<comment> \<open>the queue's table and evidence rule let the task go back to where it was paused\<close>
  "resumable x \<longleftrightarrow> edge_allowed PAUSED (resume_target x) [Paused_from_status None] x"

definition comes_back_to :: "task \<Rightarrow> status" where
  \<comment> \<open>a task paused earlier was paused from another status\<close>
  "comes_back_to x = (if t_status x = PAUSED then resume_target x else t_status x)"

lemma paused_row_resumes:
  assumes "\<And>x. x \<in> set ts \<Longrightarrow> row_safe x"
    and "\<forall>t\<in>set ts. t_session t = sess \<longrightarrow> t_status t \<noteq> WAITING_SESSION \<and> (t_status t = PAUSED \<longrightarrow> resumable t)"
    and "y \<in> set (update_where (in_lane sess PAUSABLE_STATUSES) (paused_row now reason) ts)"
    and "in_lane sess [PAUSED] y"
  shows "edge_allowed PAUSED (resume_target y) [Paused_from_status None] y"
proof -
  obtain x where x: "x \<in> set ts" "y = (if in_lane sess PAUSABLE_STATUSES x then paused_row now reason x else x)"
    using assms(3) unfolding set_update_where by blast
  show ?thesis
  proof (cases "in_lane sess PAUSABLE_STATUSES x")
    case False
    then show ?thesis using x assms(2,4) by (auto simp: in_lane_def resumable_def)
  next
    case p: True
    then have "t_status x \<in> {PRECHECK, READY, DISPATCHING, DISPATCH_UNCERTAIN, RUNNING, VERIFYING}"
      using assms(2) x(1) by (auto simp: in_lane_def PAUSABLE_STATUSES_def)
    then show ?thesis
      using assms(1) [OF x(1)] x(2) p
      by (intro resume_paused_edge) (auto simp: paused_row_facts row_safe_def)
  qed
qed

lemma pause_then_resume:
  assumes "table_safe s"
    and "\<forall>t\<in>set (s_tasks s). t_session t = sess \<longrightarrow> t_status t \<noteq> WAITING_SESSION \<and> (t_status t = PAUSED \<longrightarrow> resumable t)"
  shows "\<exists>s1 s2. pause_lane now sess reason orig s = (Inr (), s1) \<and> resume_lane now' sess s1 = (Inr (), s2)
    \<and> (\<forall>x\<in>set (s_tasks s). \<exists>y. find_task s2 (t_id x) = Some y
         \<and> t_status y = (if t_session x = sess then comes_back_to x else t_status x)
         \<and> t_attempt_count y = t_attempt_count x
             + (if t_session x = sess \<and> comes_back_to x = DISPATCHING then 1 else 0))"
proof -
  have wf: "store_wf s" and safe: "\<And>x. x \<in> set (s_tasks s) \<Longrightarrow> row_safe x"
    using assms(1) by (auto simp: table_safe_def)
  have no: "\<not> (\<exists>t\<in>set (s_tasks s). in_lane sess [WAITING_SESSION] t)"
    using assms(2) by (auto simp: in_lane_def)
  with pause_locked_result [OF wf, of sess now reason orig] obtain u where
    p: "pause_lane_locked now sess reason orig s = Inr u"
    and t: "s_tasks u = update_where (in_lane sess PAUSABLE_STATUSES) (paused_row now reason) (s_tasks s)"
    by auto
  let ?s1 = "drain_events u"
  have t1: "s_tasks ?s1 = update_where (in_lane sess PAUSABLE_STATUSES) (paused_row now reason) (s_tasks s)"
    by (simp add: t)
  have wf1: "store_wf ?s1"
    using wf unfolding store_wf_def t1 by (subst map_update_where_same) (simp_all add: paused_row_facts)
  have "\<forall>y\<in>set (s_tasks ?s1). in_lane sess [PAUSED] y \<longrightarrow>
      edge_allowed PAUSED (resume_target y) [Paused_from_status None] y"
    using paused_row_resumes [OF safe assms(2)] unfolding t1 by blast
  with resume_result [OF wf1, of sess now'] obtain s2 where
    r: "resume_lane now' sess ?s1 = (Inr (), s2)"
    and t2: "s_tasks s2 = update_where (in_lane sess [PAUSED]) (resumed_row now') (s_tasks ?s1)"
    by auto
  have "\<exists>y. find_task s2 (t_id x) = Some y \<and> t_status y = (if t_session x = sess then comes_back_to x else t_status x)
       \<and> t_attempt_count y = t_attempt_count x
             + (if t_session x = sess \<and> comes_back_to x = DISPATCHING then 1 else 0)"
    if x: "x \<in> set (s_tasks s)" for x
  proof (cases "in_lane sess PAUSABLE_STATUSES x")
    case True
    let ?y = "paused_row now reason x"
    have y: "?y \<in> set (s_tasks ?s1)" unfolding t1 set_update_where using x True by auto
    have "in_lane sess [PAUSED] ?y" using True by (simp add: in_lane_def paused_row_facts)
    then have "find_task s2 (t_id x) = Some (resumed_row now' ?y)"
      using find_task_updated [OF wf1 y t2] by (simp add: resumed_row_facts paused_row_facts)
    moreover have "t_status x \<noteq> PAUSED" using True by (auto simp: in_lane_def PAUSABLE_STATUSES_def)
    ultimately show ?thesis
      using True by (simp add: resumed_row_facts paused_row_facts resume_target_def in_lane_def comes_back_to_def)
  next
    case False
    have y: "x \<in> set (s_tasks ?s1)" unfolding t1 set_update_where using x False by auto
    show ?thesis
    proof (cases "in_lane sess [PAUSED] x")
      case True
      then have "find_task s2 (t_id x) = Some (resumed_row now' x)"
        using find_task_updated [OF wf1 y t2] by (simp add: resumed_row_facts)
      then show ?thesis using True by (simp add: resumed_row_facts in_lane_def comes_back_to_def)
    next
      case off: False
      then have "find_task s2 (t_id x) = Some x"
        using find_task_updated [OF wf1 y t2] by (simp add: resumed_row_facts)
      then show ?thesis using False off by (auto simp: in_lane_def PAUSABLE_STATUSES_def comes_back_to_def)
    qed
  qed
  with p r show ?thesis by (intro exI [of _ ?s1] exI [of _ s2]) (simp add: pause_lane_run)
qed

text \<open>
  C37: Pausing a lane and resuming it. When a task of the lane waits for its session, the pause raises and
  changes nothing. Otherwise, if the tasks of the lane that were PAUSED already may go back to where they were
  paused, both calls succeed: every task has the status it had, except that a task PAUSED already is
  resumed too, and other lanes are left alone. The attempt counters are kept, except that a task
  that comes back to DISPATCHING is charged one attempt more.
\<close>

theorem pause_resume_roundtrip:
  assumes "table_safe s" and "\<forall>t\<in>set (s_tasks s). t_session t = sess \<and> t_status t = PAUSED \<longrightarrow> resumable t"
  shows "if \<exists>t\<in>set (s_tasks s). t_session t = sess \<and> t_status t = WAITING_SESSION
    then \<exists>m s1. pause_lane now sess reason orig s = (Inl (InvalidTransitionError m), s1)
      \<and> s_tasks s1 = s_tasks s \<and> s_lanes s1 = s_lanes s \<and> s_events s1 = s_events s
    else \<exists>s1 s2. pause_lane now sess reason orig s = (Inr (), s1) \<and> resume_lane now' sess s1 = (Inr (), s2)
      \<and> (\<forall>x\<in>set (s_tasks s). \<exists>y. find_task s2 (t_id x) = Some y
           \<and> t_status y = (if t_session x = sess then comes_back_to x else t_status x)
           \<and> t_attempt_count y = t_attempt_count x
               + (if t_session x = sess \<and> comes_back_to x = DISPATCHING then 1 else 0))"
proof (cases "\<exists>t\<in>set (s_tasks s). t_session t = sess \<and> t_status t = WAITING_SESSION")
  case True
  then have "\<exists>t\<in>set (s_tasks s). in_lane sess [WAITING_SESSION] t" by (auto simp: in_lane_def)
  then obtain m where "pause_lane now sess reason orig s = (Inl (InvalidTransitionError m), discard_events s)"
    using pause_locked_result [of s sess now reason orig] assms(1) by (auto simp: table_safe_def dest: pause_lane_run(2))
  with True show ?thesis by simp
next
  case False
  then show ?thesis using pause_then_resume [OF assms(1), of sess now reason orig now'] assms(2) by auto
qed

lemma still_guarding_cong: "s_tasks s' = s_tasks s \<Longrightarrow> still_guarding s' = still_guarding s"
  by (simp add: still_guarding_def fun_eq_iff)

definition unpause :: "timestamp \<Rightarrow> lane \<Rightarrow> lane" where
  "unpause now l = l\<lparr>l_paused := False, l_paused_reason := None, l_paused_origin := None, l_updated_at := now\<rparr>"

lemma reconcile_lane_facts:
  "s_tasks (reconcile_lane now row s) = s_tasks s"
  "s_lanes (reconcile_lane now row s) = update_where (\<lambda>l. l_session l = l_session row) (unpause now) (s_lanes s)"
  by (simp_all add: reconcile_lane_def update_lane_def unpause_def [abs_def])

lemma reconcile_lanes_result:
  "reconcile_lanes now rows s = (swept, s') \<Longrightarrow>
     swept = map l_session (filter (stale_pause s) rows) \<and> s_tasks s' = s_tasks s
     \<and> s_lanes s' = update_where (\<lambda>l. l_session l \<in> set swept) (unpause now) (s_lanes s)"
proof (induction rows arbitrary: s swept)
  case Nil
  then show ?case by (simp add: update_where_def map_idI)
next
  case (Cons row rows)
  show ?case
  proof (cases "stale_pause s row")
    case False
    with Cons show ?thesis by simp
  next
    case True
    let ?t = "reconcile_lane now row s"
    from True Cons.prems obtain rest where r: "reconcile_lanes now rows ?t = (rest, s')"
      and sw: "swept = l_session row # rest" by (auto split: prod.splits)
    have st: "stale_pause ?t = stale_pause s"
      by (simp add: fun_eq_iff stale_pause_def still_guarding_cong [of ?t s] reconcile_lane_facts)
    from Cons.IH [OF r] True st show ?thesis
      by (simp add: sw reconcile_lane_facts update_where_def unpause_def)
  qed
qed

text \<open>
  The sweep of stale lane pauses clears exactly the lanes that are paused by the
  coordinator and hold no PAUSED task (restricted to one session when one is given),
  reports exactly those, and touches no other lane and no task.
\<close>

theorem reconcile_stale_lane_pause_exact:
  assumes "lanes_wf s" and "reconcile_stale_lane_pause now sess s = (res, s')"
  shows "\<exists>swept. res = Inr swept \<and> s_tasks s' = s_tasks s
    \<and> (\<forall>x. x \<in> set swept \<longleftrightarrow> (\<exists>l\<in>set (s_lanes s). l_session l = x \<and> l_paused l
          \<and> (nonempty sess \<longrightarrow> Some x = sess)
          \<and> pause_origin (l_paused_origin l) (l_paused_reason l) = Some PAUSE_ORIGIN_COORDINATOR
          \<and> (\<forall>t\<in>set (s_tasks s). t_session t = x \<longrightarrow> t_status t \<noteq> PAUSED)))
    \<and> (\<forall>l\<in>set (s_lanes s). find_lane s' (l_session l) =
          Some (if l_session l \<in> set swept then unpause now l else l))"
proof -
  let ?rows = "filter (\<lambda>l. l_paused l \<and> (nonempty sess \<longrightarrow> l_session l = the sess)) (s_lanes s)"
  obtain swept u where r: "reconcile_lanes now ?rows s = (swept, u)" by (cases "reconcile_lanes now ?rows s")
  from reconcile_lanes_result [OF r] have 1: "swept = map l_session (filter (stale_pause s) ?rows)"
    and 2: "s_tasks u = s_tasks s"
    and 3: "s_lanes u = update_where (\<lambda>l. l_session l \<in> set swept) (unpause now) (s_lanes s)" by auto
  from assms(2) r have s': "s' = drain_events u" and res: "res = Inr swept"
    by (auto simp: reconcile_stale_lane_pause_def with_connection_def)
  have the: "nonempty sess \<longrightarrow> (x = the sess \<longleftrightarrow> Some x = sess)" for x
    by (auto simp: nonempty_def)
  have A: "x \<in> set swept \<longleftrightarrow> (\<exists>l\<in>set (s_lanes s). l_session l = x \<and> l_paused l
          \<and> (nonempty sess \<longrightarrow> Some x = sess)
          \<and> pause_origin (l_paused_origin l) (l_paused_reason l) = Some PAUSE_ORIGIN_COORDINATOR
          \<and> (\<forall>t\<in>set (s_tasks s). t_session t = x \<longrightarrow> t_status t \<noteq> PAUSED))" for x
    unfolding 1 using the by (auto simp: stale_pause_def still_guarding_def)
  have B: "find_lane s' (l_session l) = Some (if l_session l \<in> set swept then unpause now l else l)"
    if l: "l \<in> set (s_lanes s)" for l
  proof -
    have "List.find (\<lambda>k. l_session k = l_session l)
        (update_where (\<lambda>l. l_session l \<in> set swept) (unpause now) ls)
          = Some (if l_session l \<in> set swept then unpause now l else l)"
      if "distinct (map l_session ls)" "l \<in> set ls" for ls
      using that by (induction ls) (auto simp: unpause_def)
    with assms(1) l show ?thesis by (simp add: s' find_lane_def 3 lanes_wf_def)
  qed
  show ?thesis unfolding res s' using A B [unfolded s'] 2 by auto
qed

text \<open>
  A refused rename changes nothing; a successful one moves the lane, its tasks and its
  events to the new name, so that nothing is left under the old one.
\<close>

theorem rename_session_moves_everything:
  "(case rename_session now old new s of
      (Inl e, s') \<Rightarrow> find_lane s new \<noteq> None \<and> s' = discard_events s
    | (Inr n, s') \<Rightarrow> find_lane s new = None \<and> n = length (filter (\<lambda>t. t_session t = old) (s_tasks s))
        \<and> map t_session (s_tasks s') = map (\<lambda>t. if t_session t = old then new else t_session t) (s_tasks s)
        \<and> map l_session (s_lanes s') = map (\<lambda>l. if l_session l = old then new else l_session l) (s_lanes s)
        \<and> map e_session (s_events s') =
            map (\<lambda>e. if e_session e = old then new else e_session e) (s_events s) @ [new])"
proof (cases "find_lane s new")
  case None
  have t: "map t_session (update_where (\<lambda>t. t_original_owner t = Some old) (\<lambda>t. t\<lparr>t_original_owner := Some new\<rparr>) ts)
      = map t_session ts" for ts
    by (rule map_update_where_same) simp
  from None show ?thesis
    by (auto simp: rename_session_def with_connection_def rename_rows_def t)
       (simp_all add: update_where_def)
next
  case (Some l)
  then show ?thesis by (simp add: rename_session_def with_connection_def)
qed

text \<open>
  A rename leaves the runtime claim behind: a task bound to the old session moves to the
  renamed lane, but its \<open>execution_session\<close> still names the session that no longer exists.
\<close>

theorem rename_session_strands_runtime:
  assumes "store_wf s" and "find_lane s new = None" and "find_task s tid = Some t"
    and "t_session t = old" and "t_execution_session t = Some old"
  shows "\<exists>n s' y. rename_session now old new s = (Inr n, s') \<and> find_task s' tid = Some y
     \<and> t_session y = new \<and> t_execution_session y = Some old \<and> t_routing_state y = t_routing_state t"
proof -
  let ?f = "\<lambda>t. if t_original_owner t = Some old then t\<lparr>t_original_owner := Some new\<rparr> else t"
  let ?g = "\<lambda>t. if t_session t = old then t\<lparr>t_session := new, t_updated_at := now\<rparr> else t"
  have f: "List.find (\<lambda>t. t_id t = tid) (map (\<lambda>x. ?f (?g x)) ts) =
      map_option (\<lambda>x. ?f (?g x)) (List.find (\<lambda>t. t_id t = tid) ts)" for ts
    by (induction ts) auto
  have "s_tasks (rename_rows now old new s) = map (\<lambda>x. ?f (?g x)) (s_tasks s)"
    by (simp add: rename_rows_def update_where_def)
  then have "find_task (rename_rows now old new s) tid = Some (?f (?g t))"
    using assms(3) by (simp only: find_task_def f) simp
  with assms show ?thesis
    by (simp add: rename_session_def with_connection_def)
qed

section \<open>Witnesses\<close>

lemma pause_lane_effect_witness:
  "\<exists>s' y. pause_lane 9 ''a'' (Some ''lunch'') (Some PAUSE_ORIGIN_USER)
       (sample_store [sample_started ''t1'' ''a'' 0 RUNNING, sample_task ''t2'' ''b'' 0 RUNNING]) = (Inr (), s')
     \<and> find_task s' ''t1'' = Some y \<and> t_status y = PAUSED \<and> t_paused_from_status y = Some RUNNING
     \<and> find_task s' ''t2'' = Some (sample_task ''t2'' ''b'' 0 RUNNING)"
  using pause_lane_effect
    [of "sample_store [sample_started ''t1'' ''a'' 0 RUNNING, sample_task ''t2'' ''b'' 0 RUNNING]" "''a''" 9
      "Some ''lunch''" "Some PAUSE_ORIGIN_USER"]
  by auto

lemma pause_lane_refused_by_waiting_witness:
  "\<exists>m. fst (pause_lane 9 ''a'' None None (sample_store [sample_task ''t1'' ''a'' 0 WAITING_SESSION]))
     = Inl (InvalidTransitionError m)"
  using pause_lane_refused_by_waiting
    [of "sample_store [sample_task ''t1'' ''a'' 0 WAITING_SESSION]" "sample_task ''t1'' ''a'' 0 WAITING_SESSION"
      "''a''" 9 None None]
  by auto

lemma pause_resume_roundtrip_witness:
  "\<exists>s1 s2 y z. pause_lane 9 ''a'' None None (sample_store [sample_task ''t1'' ''a'' 0 DISPATCHING,
       (sample_task ''t2'' ''a'' 1 PAUSED)\<lparr>t_paused_from_status := Some READY\<rparr>]) = (Inr (), s1)
     \<and> resume_lane 10 ''a'' s1 = (Inr (), s2)
     \<and> find_task s2 ''t1'' = Some y \<and> t_status y = DISPATCHING \<and> t_attempt_count y = 1
     \<and> find_task s2 ''t2'' = Some z \<and> t_status z = READY"
proof -
  let ?t1 = "sample_task ''t1'' ''a'' 0 DISPATCHING"
  let ?t2 = "(sample_task ''t2'' ''a'' 1 PAUSED)\<lparr>t_paused_from_status := Some READY\<rparr>"
  have "table_safe (sample_store [?t1, ?t2])" by (simp add: table_safe_def row_safe_def status_groups store_wf_def)
  moreover have "resumable ?t2"
    by (simp add: resumable_def edge_allowed_def resume_target_def is_valid_transition_def)
  ultimately show ?thesis
    using pause_resume_roundtrip [of "sample_store [?t1, ?t2]" "''a''" 9 None None 10]
    by (auto simp: comes_back_to_def resume_target_def)
qed

definition sample_lane :: "string \<Rightarrow> lane" where
  "sample_lane sess = \<lparr>l_session = sess, l_paused = True, l_paused_reason = Some ''coordinator: unsafe'',
     l_paused_origin = Some PAUSE_ORIGIN_COORDINATOR, l_auto_dispatch_enabled = False, l_project = None,
     l_last_rebalance_at = None, l_created_at = 0, l_updated_at = 0\<rparr>"

lemma reconcile_stale_lane_pause_exact_witness:
  "\<exists>swept s'. reconcile_stale_lane_pause 9 None ((sample_store [])\<lparr>s_lanes := [sample_lane ''a'']\<rparr>) = (Inr swept, s')
     \<and> ''a'' \<in> set swept"
proof -
  let ?s = "(sample_store [])\<lparr>s_lanes := [sample_lane ''a'']\<rparr>"
  obtain res s' where r: "reconcile_stale_lane_pause 9 None ?s = (res, s')"
    by (cases "reconcile_stale_lane_pause 9 None ?s")
  have "lanes_wf ?s" by (simp add: lanes_wf_def)
  from reconcile_stale_lane_pause_exact [OF this r] obtain swept where
    "res = Inr swept" "\<forall>x. x \<in> set swept \<longleftrightarrow> (\<exists>l\<in>set (s_lanes ?s). l_session l = x \<and> l_paused l
          \<and> (nonempty None \<longrightarrow> Some x = None)
          \<and> pause_origin (l_paused_origin l) (l_paused_reason l) = Some PAUSE_ORIGIN_COORDINATOR
          \<and> (\<forall>t\<in>set (s_tasks ?s). t_session t = x \<longrightarrow> t_status t \<noteq> PAUSED))" by blast
  with r show ?thesis
    by (simp add: sample_lane_def nonempty_def pause_origin_def PAUSE_ORIGIN_COORDINATOR_def)
qed

lemma rename_session_strands_runtime_witness:
  "\<exists>n s' y. rename_session 9 ''a'' ''b'' (sample_store [(sample_task ''t1'' ''a'' 0 QUEUED)
       \<lparr>t_execution_session := Some ''a'', t_routing_state := Some BOUND\<rparr>]) = (Inr n, s')
     \<and> find_task s' ''t1'' = Some y \<and> t_session y = ''b'' \<and> t_execution_session y = Some ''a''"
  using rename_session_strands_runtime
    [of "sample_store [(sample_task ''t1'' ''a'' 0 QUEUED)
       \<lparr>t_execution_session := Some ''a'', t_routing_state := Some BOUND\<rparr>]" "''b''" "''t1''" _ "''a''" 9]
  by auto

end
