(* ===== verification/QueueCrud.thy ===== *)
theory QueueCrud
  imports QueueLanes
begin

text \<open>
  Task creation and the operator verbs of \<open>queue_store.py\<close>: enqueueing, moving,
  reordering and clearing tasks, retrying, reassigning between sessions, and the
  history, deploy and project columns.
\<close>

section \<open>Enqueueing\<close>

definition enqueue_one ::
  "timestamp \<Rightarrow> string \<Rightarrow> int \<Rightarrow> (nat \<Rightarrow> string) \<Rightarrow> nat \<times> task_spec \<Rightarrow> store \<Rightarrow> queue_error + store" where
  \<comment> \<open>one turn of the loop; \<open>fresh offset\<close> is the \<open>new_task_id()\<close> of that turn\<close>
  "enqueue_one now sess next fresh item s =
     (let offset = fst item; sp = snd item; tid = str_or (p_id sp) (fresh offset)
      in case p_prompt sp of
           None \<Rightarrow> Inl (KeyError ''prompt'')
         | Some prompt \<Rightarrow>
             and_then (insert_task (inserted_row now sess (next + int offset) tid prompt sp) s)
               (\<lambda>s'. Inr (log_event now sess (Some tid) ''ENQUEUED'' None s')))"

definition spec_ids :: "(nat \<Rightarrow> string) \<Rightarrow> task_spec list \<Rightarrow> string list" where
  "spec_ids fresh specs = map (\<lambda>(i, sp). str_or (p_id sp) (fresh i)) (enumerate 0 specs)"

definition set_tasks ::
  "timestamp \<Rightarrow> (nat \<Rightarrow> string) \<Rightarrow> string \<Rightarrow> task_spec list \<Rightarrow> bool \<Rightarrow> store
   \<Rightarrow> (queue_error + string list) \<times> store" where
  "set_tasks now fresh sess specs replace_pending = with_connection (\<lambda>s.
     let s1 = ensure_lane now sess s;
         stale = (if replace_pending
                  then filter (\<lambda>t. t_session t = sess \<and> t_status t = QUEUED) (s_tasks s1) else [])
     in and_then
          (for_each (\<lambda>row. step_locked now (t_id row) QUEUED CANCELLED ''CANCELLED''
                             (Some ''superseded by queue_set'') []) stale s1)
          (\<lambda>s2. and_then
             (for_each (enqueue_one now sess (max_position s2 sess + 1) fresh) (enumerate 0 specs) s2)
             (\<lambda>s3. Inr (spec_ids fresh specs, s3))))"

definition append_tasks ::
  "timestamp \<Rightarrow> (nat \<Rightarrow> string) \<Rightarrow> string \<Rightarrow> task_spec list \<Rightarrow> store
   \<Rightarrow> (queue_error + string list) \<times> store" where
  "append_tasks now fresh sess specs = set_tasks now fresh sess specs False"

definition task_by_request_key :: "store \<Rightarrow> string \<Rightarrow> task option" where
  "task_by_request_key s key =
     (if key = [] then None else List.find (\<lambda>t. t_request_key t = Some key) (s_tasks s))"

definition waiting_since :: "store \<Rightarrow> string \<Rightarrow> string \<Rightarrow> timestamp option" where
  "waiting_since s tid st = map_option e_timestamp
     (List.find (\<lambda>e. e_task_id e = Some tid \<and> e_event_type e = st) (rev (s_events s)))"

definition record_manual_dispatch ::
  "timestamp \<Rightarrow> string \<Rightarrow> dict \<Rightarrow> store \<Rightarrow> (queue_error + dict option) \<times> store" where
  "record_manual_dispatch now tid detail = with_connection (\<lambda>s.
     case find_task s tid of
       None \<Rightarrow> Inr (None, s)
     | Some row \<Rightarrow>
         let metadata = t_metadata row;
             history = (case as_list (dget metadata ''manual_dispatch_history'') of
                          None \<Rightarrow> [] | Some xs \<Rightarrow> xs) @ [JObj detail];
             metadata' = dset (dset metadata ''manual_dispatch'' (JObj detail))
                           ''manual_dispatch_history''
                           (JArr (drop (length history - 10) history))
         in Inr (Some detail,
                 update_task tid (\<lambda>t. t\<lparr>t_metadata := metadata', t_updated_at := now\<rparr>) s))"

section \<open>Moving, reordering, clearing\<close>

datatype move_result =
  Moved task
| TASK_NOT_FOUND
| TASK_NOT_MOVABLE status

definition move_task_to_session ::
  "timestamp \<Rightarrow> string \<Rightarrow> string \<Rightarrow> store \<Rightarrow> (queue_error + move_result) \<times> store" where
  "move_task_to_session now tid new_session = with_connection (\<lambda>s.
     case find_task s tid of
       None \<Rightarrow> Inr (TASK_NOT_FOUND, s)
     | Some row \<Rightarrow>
         if t_status row \<notin> set MOVABLE_STATUSES then Inr (TASK_NOT_MOVABLE (t_status row), s)
         else if t_session row = new_session then Inr (Moved row, s)
         else let s1 = ensure_lane now new_session s;
                  pos = max_position s1 new_session + 1;
                  s2 = update_task tid (\<lambda>t. t\<lparr>t_session := new_session, t_position := pos,
                         t_updated_at := now\<rparr>) s1;
                  s3 = log_event now new_session (Some tid) ''TASK_ASSIGNED''
                         (Some (''moved from '' @ py_repr (t_session row) @ '' to ''
                                @ py_repr new_session)) s2
              in (case find_task s3 tid of None \<Rightarrow> Inl TypeError | Some t \<Rightarrow> Inr (Moved t, s3)))"

definition reorder_tasks ::
  "timestamp \<Rightarrow> string \<Rightarrow> string list \<Rightarrow> store \<Rightarrow> (queue_error + unit) \<times> store" where
  "reorder_tasks now sess ordered_ids = with_connection (\<lambda>s.
     let queued = filter (\<lambda>t. t_session t = sess \<and> t_status t = QUEUED) (s_tasks s);
         positions = sort (map t_position queued);
         wanted = filter (\<lambda>i. i \<in> t_id ` set queued) ordered_ids
     in Inr ((), fold (\<lambda>(tid, pos). update_task tid (\<lambda>t. t\<lparr>t_position := pos, t_updated_at := now\<rparr>))
                   (zip wanted positions) s))"

definition clear_tasks ::
  "timestamp \<Rightarrow> string \<Rightarrow> bool \<Rightarrow> store \<Rightarrow> (queue_error + nat) \<times> store" where
  "clear_tasks now sess only_pending = with_connection (\<lambda>s.
     let statuses = (if only_pending then [QUEUED] else [QUEUED, BLOCKED, FAILED]);
         rows = filter (\<lambda>t. t_session t = sess \<and> t_status t \<in> set statuses) (s_tasks s)
     in and_then
          (for_each (\<lambda>row. step_locked now (t_id row) (t_status row) CANCELLED ''CANCELLED''
                             (Some ''queue_clear'') []) rows s)
          (\<lambda>s1. Inr (length rows, s1)))"

section \<open>Retry\<close>

definition IN_FLIGHT :: "status list" where
  "IN_FLIGHT = [PRECHECK, READY, DISPATCHING, RUNNING, VERIFYING]"

definition active_owner_for :: "store \<Rightarrow> string option \<Rightarrow> string option \<Rightarrow> task option" where
  \<comment> \<open>the row whose id, session, status and owner the code returns\<close>
  "active_owner_for s tid key =
     (let by_id = (if nonempty tid
            then List.find (\<lambda>t. t_id t = the tid \<and> t_status t \<in> set IN_FLIGHT) (s_tasks s) else None)
      in if by_id = None \<and> nonempty key
         then List.find (\<lambda>t. t_request_key t = key \<and> t_status t \<in> set IN_FLIGHT) (s_tasks s)
         else by_id)"

definition owner_name :: "task \<Rightarrow> string" where
  "owner_name t = str_or (t_claimed_by t) (t_session t)"

definition duplicate_retry_is_noop :: "string \<Rightarrow> string option \<Rightarrow> task option \<Rightarrow> bool \<times> string" where
  "duplicate_retry_is_noop tid key active =
     (case active of
        None \<Rightarrow> (False, ''no active owner recorded for this task'')
      | Some t \<Rightarrow>
          if t_id t = tid
          then (True, ''task '' @ tid @ '' is already owned by ''
                      @ str_or (Some (owner_name t)) ''another worker'' @ '' -- retry is a no-op'')
          else if nonempty key \<and> t_request_key t = key
          then (True, ''request_key '' @ py_repr (the key) @ '' is already in flight as task ''
                      @ t_id t @ '' -- retry is a no-op'')
          else (False, ''the active owner belongs to a different logical task''))"

definition active_harness_run_for :: "store \<Rightarrow> string \<Rightarrow> harness_row option" where
  \<comment> \<open>\<open>ORDER BY created_at DESC LIMIT 1\<close>\<close>
  "active_harness_run_for s tid =
     (case sort_key (\<lambda>h. - h_created_at h)
             (filter (\<lambda>h. h_task_id h = tid \<and> h_active h) (s_harness_runs s)) of
        [] \<Rightarrow> None | h # _ \<Rightarrow> Some h)"

definition owns_message :: "string \<Rightarrow> harness_row \<Rightarrow> string" where
  "owns_message tid run = tid @ '' is being executed by harness run '' @ h_id run @ '' (stage ''
     @ h_stage run @ '', iteration '' @ int_str (h_current_iteration run) @ ''). ''
     @ ''A generic retry would restart it from its prompt and discard that work. ''
     @ ''Use terminal_turn(action='' @ py_repr ''harness_resume'' @ '') to continue the ''
     @ ''same run, or harness_cancel first if the attempt really should end.''"

definition retry_task :: "timestamp \<Rightarrow> string \<Rightarrow> store \<Rightarrow> (queue_error + task) \<times> store" where
  "retry_task now tid s = (case get_task s tid of
       None \<Rightarrow> (Inl (KeyError (''no such task: '' @ tid)), s)
     | Some task \<Rightarrow>
         let owner = active_owner_for s (Some tid) (t_request_key task);
             (is_noop, reason) = duplicate_retry_is_noop tid (t_request_key task) owner
         in if is_noop
            then let s' = snd (record_event now (t_session task) (Some tid) ''RETRY_DEDUPED''
                                 (Some reason) [] s)
                 in (Inr (case get_task s' (t_id (the owner)) of None \<Rightarrow> task | Some t \<Rightarrow> t), s')
            else (case active_harness_run_for s tid of
                   Some run \<Rightarrow> (Inl (HarnessRunOwnsTask (owns_message tid run)), s)
                 | None \<Rightarrow> transition_task now tid QUEUED ''RETRIED'' None
                             [Dispatch_idempotency_key None] s))"

section \<open>Reassignment and history\<close>

definition reassign_task ::
  "timestamp \<Rightarrow> string \<Rightarrow> string \<Rightarrow> string \<Rightarrow> string \<Rightarrow> store \<Rightarrow> (queue_error + task option) \<times> store" where
  "reassign_task now tid to_session reason actor s =
     (let (res, s') = with_connection (\<lambda>s.
        case find_task s tid of
          None \<Rightarrow> Inl (KeyError (''no such task: '' @ tid))
        | Some row \<Rightarrow>
            if t_status row \<notin> set MIGRATABLE_STATUSES
            then Inl (TaskAlreadyClaimedError (tid @ '': status is '' @ py_repr (status_name (t_status row))
                   @ '', no longer eligible for reassignment (expected one of (''
                   @ join '', '' (map (\<lambda>st. py_repr (status_name st)) MIGRATABLE_STATUSES) @ ''))''))
            else let from_session = t_session row;
                     history = t_migration_history row @
                       [[(''from'', JStr from_session), (''to'', JStr to_session),
                         (''reason'', JStr reason), (''actor'', JStr actor), (''time'', JInt now)]];
                     pos = max_position s to_session + 1;
                     s1 = ensure_lane now to_session s;
                     s2 = update_task tid (\<lambda>t. t\<lparr>t_session := to_session, t_position := pos,
                            t_status := QUEUED, t_migration_history := history,
                            t_claimed_by := None, t_claim_token := None, t_lease_expires_at := None,
                            t_uncertain_or_waiting_since := None, t_updated_at := now\<rparr>) s1;
                     s3 = record_event_locked now from_session (Some tid) ''MIGRATED_OUT'' (Some reason)
                            None None [(''to'', JStr to_session), (''actor'', JStr actor)] s2
                 in Inr ((), record_event_locked now to_session (Some tid) ''MIGRATED_IN'' (Some reason)
                            None None [(''from'', JStr from_session), (''actor'', JStr actor)] s3)) s
      in case res of Inl e \<Rightarrow> (Inl e, s') | Inr _ \<Rightarrow> (Inr (get_task s' tid), s'))"

definition PM_MIGRATION_KIND :: string where
  "PM_MIGRATION_KIND = ''pm_recovery''"

definition record_pm_decision ::
  "timestamp \<Rightarrow> string \<Rightarrow> string \<Rightarrow> string \<Rightarrow> string \<Rightarrow> string option \<Rightarrow> string option \<Rightarrow> dict
   \<Rightarrow> store \<Rightarrow> (queue_error + task option) \<times> store" where
  \<comment> \<open>\<open>None\<close> is the \<open>TASK_NOT_FOUND\<close> answer\<close>
  "record_pm_decision now tid decision reason actor released_session released_node_id evidence =
     with_connection (\<lambda>s. case find_task s tid of
       None \<Rightarrow> Inr (None, s)
     | Some row \<Rightarrow>
         let entry = [(''kind'', JStr PM_MIGRATION_KIND), (''decision'', JStr decision),
                      (''reason'', JStr reason), (''actor'', JStr actor),
                      (''from'', opt_json released_session),
                      (''from_node_id'', opt_json released_node_id), (''to'', JNull),
                      (''time'', JInt now)]
                     @ (if evidence = [] then [] else [(''evidence'', JObj evidence)]);
             s1 = update_task tid (\<lambda>t. t\<lparr>t_migration_history := t_migration_history row @ [entry],
                    t_updated_at := now\<rparr>) s;
             s2 = record_event_locked now (t_session row) (Some tid) ''TASK_PM_DECISION'' (Some reason)
                    None None [(''decision'', JStr decision), (''actor'', JStr actor),
                      (''released_session'', opt_json released_session)] s1
         in Inr (find_task s2 tid, s2))"

definition assignment_history ::
  "store \<Rightarrow> string \<Rightarrow> queue_error + (string \<times> string option \<times> string \<times> dict list)" where
  "assignment_history s tid = (case get_task s tid of
       None \<Rightarrow> Inl (KeyError (''no such task: '' @ tid))
     | Some t \<Rightarrow> Inr (tid, t_original_owner t, t_session t, t_migration_history t))"

definition mark_at_risk :: "timestamp \<Rightarrow> string \<Rightarrow> bool \<Rightarrow> store \<Rightarrow> (queue_error + task option) \<times> store" where
  "mark_at_risk now tid at_risk s =
     (let (res, s') = with_connection (\<lambda>s.
        let s1 = update_task tid (\<lambda>t. t\<lparr>t_at_risk := at_risk, t_updated_at := now\<rparr>) s
        in case find_task s1 tid of
             None \<Rightarrow> Inl (KeyError (''no such task: '' @ tid))
           | Some row \<Rightarrow> Inr ((), log_event now (t_session row) (Some tid)
               (if at_risk then ''AT_RISK'' else ''AT_RISK_CLEARED'') None s1)) s
      in case res of Inl e \<Rightarrow> (Inl e, s') | Inr _ \<Rightarrow> (Inr (get_task s' tid), s'))"

section \<open>Deploys\<close>

definition DEPLOYED_PROD :: string where
  "DEPLOYED_PROD = ''DEPLOYED_PROD''"

definition DEPLOY_STATES :: "string list" where
  "DEPLOY_STATES = [''NOT_DEPLOYED'', ''DEPLOYED_TEST'', DEPLOYED_PROD]"

definition not_merged_message :: "string \<Rightarrow> harness_row \<Rightarrow> string" where
  "not_merged_message tid run = tid @ '' cannot be deployed to production: harness run '' @ h_id run
     @ '' is at stage '' @ h_stage run @ '', not MERGED. ''
     @ ''A run reaches MERGE_READY on its own and merges only when a ''
     @ ''named approver calls harness_review(approve_merge=true).''"

definition record_deploy ::
  "timestamp \<Rightarrow> string \<Rightarrow> string \<Rightarrow> string option \<Rightarrow> string option \<Rightarrow> store
   \<Rightarrow> (queue_error + task option) \<times> store" where
  "record_deploy now tid deploy_state reference actor s =
     (if deploy_state \<notin> set DEPLOY_STATES
      then (Inl (ValueError (''unknown deploy_state '' @ py_repr deploy_state @ ''; expected one of ''
                  @ json_repr (JArr (map JStr DEPLOY_STATES)))), s)
      else case get_task s tid of
        None \<Rightarrow> (Inl (KeyError tid), s)
      | Some task \<Rightarrow>
          let blocked = (if deploy_state = DEPLOYED_PROD
               then (case active_harness_run_for s tid of
                       None \<Rightarrow> None
                     | Some run \<Rightarrow> if h_stage run \<in> {''MERGED'', ''DONE''} then None else Some run)
               else None)
          in (case blocked of
               Some run \<Rightarrow> (Inl (HarnessRunNotMerged (not_merged_message tid run)), s)
             | None \<Rightarrow>
                 let s1 = snd (with_connection (\<lambda>s. Inr ((), update_task tid
                            (\<lambda>t. t\<lparr>t_deploy_state := Some deploy_state, t_updated_at := now\<rparr>) s)) s);
                     s2 = snd (record_event now (t_session task) (Some tid) ''DEPLOY_RECORDED''
                            (Some (deploy_state
                               @ (if nonempty reference then '' ('' @ the reference @ '')'' else [])
                               @ (if nonempty actor then '' by '' @ the actor else []))) [] s1)
                 in (Inr (get_task s2 tid), s2)))"

section \<open>Every operation keeps the contract\<close>

lemma newborn_inserted: "newborn (inserted_row now sess pos tid prompt sp)"
  by (simp add: newborn_def inserted_row_def unclaimed_def external_metadata_no_evidence)

lemma annotate_plain:
  "same_identity x y \<Longrightarrow> t_status y = t_status x \<Longrightarrow> t_metadata y = t_metadata x \<Longrightarrow>
     t_claimed_by y = t_claimed_by x \<Longrightarrow> t_claim_token y = t_claim_token x \<Longrightarrow>
     t_lease_expires_at y = t_lease_expires_at x \<Longrightarrow> t_attempt_count y = t_attempt_count x \<Longrightarrow> row_note x y"
  by (rule row_noteI) (simp_all add: has_evidence_def unclaimed_def)

lemma annotate_metadata:
  "dget m ''execution_evidence'' = dget (t_metadata x) ''execution_evidence'' \<Longrightarrow>
     row_note x (x\<lparr>t_metadata := m, t_updated_at := now\<rparr>)"
  by (rule row_noteI)
     (simp_all add: has_evidence_def unclaimed_def same_identity_def valid_execution_evidence_def)

context store_relation
begin

lemma R_annotate_task:
  "(\<And>x. same_identity x (g x) \<and> t_status (g x) = t_status x \<and> t_metadata (g x) = t_metadata x
      \<and> t_claimed_by (g x) = t_claimed_by x \<and> t_claim_token (g x) = t_claim_token x
      \<and> t_lease_expires_at (g x) = t_lease_expires_at x \<and> t_attempt_count (g x) = t_attempt_count x)
   \<Longrightarrow> R s (update_task tid g s)"
  by (rule R_note_task, rule annotate_plain) simp_all

lemma R_enqueue_one: "enqueue_one now sess next fresh item s = Inr s' \<Longrightarrow> R s s'"
  by (auto simp: enqueue_one_def Let_def and_then_Inr_iff split: option.splits
      intro: R_trans [OF R_insert [OF newborn_inserted] R_event])

lemma R_enqueue: "for_each (enqueue_one now sess next fresh) items s = Inr s' \<Longrightarrow> R s s'"
  by (rule for_each_mono [where R = R]) (auto intro: R_refl R_trans R_enqueue_one)

lemma R_set_tasks:
  assumes "set_tasks now fresh sess specs rep s = (r, s')" and "store_wf s" and "s_pending s = []"
  shows "R s s'"
  using assms(1) unfolding set_tasks_def
proof (rule R_connection [OF _ assms(3)])
  fix a t
  let ?s1 = "ensure_lane now sess s"
  let ?p = "\<lambda>t. rep \<and> t_session t = sess \<and> t_status t = QUEUED"
  have stale: "(if rep then filter (\<lambda>t. t_session t = sess \<and> t_status t = QUEUED) (s_tasks ?s1) else [])
     = filter ?p (s_tasks ?s1)" by simp
  assume "(let s1 = ?s1; stale = (if rep
                  then filter (\<lambda>t. t_session t = sess \<and> t_status t = QUEUED) (s_tasks s1) else [])
     in and_then
          (for_each (\<lambda>row. step_locked now (t_id row) QUEUED CANCELLED ''CANCELLED''
                             (Some ''superseded by queue_set'') []) stale s1)
          (\<lambda>s2. and_then
             (for_each (enqueue_one now sess (max_position s2 sess + 1) fresh) (enumerate 0 specs) s2)
             (\<lambda>s3. Inr (spec_ids fresh specs, s3)))) = Inr (a, t)"
  then obtain s2 where 1: "for_each (\<lambda>row. step_locked now (t_id row) QUEUED CANCELLED ''CANCELLED''
                             (Some ''superseded by queue_set'') []) (filter ?p (s_tasks ?s1)) ?s1 = Inr s2"
    and 2: "for_each (enqueue_one now sess (max_position s2 sess + 1) fresh) (enumerate 0 specs) s2 = Inr t"
    unfolding Let_def stale by (auto elim!: and_then_InrE)
  have wf: "store_wf ?s1" using assms(2) by simp
  have "R ?s1 s2 \<and> touches_only (t_id ` set (filter ?p (s_tasks ?s1))) ?s1 s2"
    by (rule R_for_each_transition [OF 1 wf wf_filter_rows [OF wf]]) simp_all
  then show "R s t" using R_trans [OF R_ensure_lane R_trans [OF _ R_enqueue [OF 2]]] by blast
qed

lemma R_manual_dispatch:
  assumes "record_manual_dispatch now tid detail s = (r, s')" and "store_wf s" and "s_pending s = []"
  shows "R s s'"
  using assms(1) unfolding record_manual_dispatch_def
  by (rule R_connection [OF _ assms(3)])
     (auto simp: Let_def R_refl split: option.splits
       intro!: R_note_row [OF assms(2)] annotate_metadata)

lemma R_move_task:
  "move_task_to_session now tid sess s = (r, s') \<Longrightarrow> s_pending s = [] \<Longrightarrow> R s s'"
  unfolding move_task_to_session_def
  by (erule R_connection)
     (auto simp: Let_def R_refl same_identity_def split: option.splits if_splits
       intro!: R_trans [OF R_ensure_lane R_trans [OF R_annotate_task R_event]])

lemma R_reorder_fold:
  "R s (fold (\<lambda>(tid, pos). update_task tid (\<lambda>t. t\<lparr>t_position := pos, t_updated_at := now\<rparr>)) ps s)"
proof (induction ps arbitrary: s)
  case Nil
  then show ?case by (simp add: R_refl)
next
  case (Cons p ps)
  have "R s (update_task (fst p) (\<lambda>t. t\<lparr>t_position := snd p, t_updated_at := now\<rparr>) s)"
    by (rule R_annotate_task) (simp add: same_identity_def)
  then show ?case using Cons.IH R_trans by (cases p) auto
qed

lemma R_reorder: "reorder_tasks now sess ids s = (r, s') \<Longrightarrow> s_pending s = [] \<Longrightarrow> R s s'"
  unfolding reorder_tasks_def by (erule R_connection) (auto simp: Let_def intro: R_reorder_fold)

lemma R_clear_tasks:
  assumes "clear_tasks now sess pend s = (r, s')" and "store_wf s" and "s_pending s = []"
  shows "R s s'"
  using assms(1) unfolding clear_tasks_def
proof (rule R_connection [OF _ assms(3)])
  fix a t
  let ?rows = "filter (\<lambda>t. t_session t = sess
     \<and> t_status t \<in> set (if pend then [QUEUED] else [QUEUED, BLOCKED, FAILED])) (s_tasks s)"
  assume "(let statuses = (if pend then [QUEUED] else [QUEUED, BLOCKED, FAILED]);
         rows = filter (\<lambda>t. t_session t = sess \<and> t_status t \<in> set statuses) (s_tasks s)
     in and_then
          (for_each (\<lambda>row. step_locked now (t_id row) (t_status row) CANCELLED ''CANCELLED''
                             (Some ''queue_clear'') []) rows s)
          (\<lambda>s1. Inr (length rows, s1))) = Inr (a, t)"
  then have 1: "for_each (\<lambda>row. step_locked now (t_id row) (t_status row) CANCELLED ''CANCELLED''
                             (Some ''queue_clear'') []) ?rows s = Inr t"
    unfolding Let_def by (rule and_then_InrE) simp
  have "R s t \<and> touches_only (t_id ` set ?rows) s t"
    by (rule R_for_each_transition [OF 1 assms(2) wf_filter_rows [OF assms(2)]]) simp_all
  then show "R s t" ..
qed

lemma R_transition_task:
  assumes "transition_task now tid t ty r ex s = (res, s')" and "store_wf s" and "s_pending s = []"
    and "t \<in> set TERMINAL_STATUSES \<longrightarrow> no_claim_columns ex"
  shows "R s s'"
  using assms(1) unfolding transition_task_def
  by (rule R_connection [OF _ assms(3)])
     (auto split: option.splits intro: R_transition [OF _ assms(2)] simp: assms(4))

lemma R_record_event: "record_event now sess tid ty r m s = (res, s') \<Longrightarrow> s_pending s = [] \<Longrightarrow> R s s'"
  unfolding record_event_def by (erule R_connection) (auto intro: R_event)

lemma R_retry_task:
  assumes "retry_task now tid s = (r, s')" and "store_wf s" and "s_pending s = []"
  shows "R s s'"
  using assms R_record_event [OF prod.collapse [symmetric] assms(3)]
  by (auto simp: retry_task_def R_refl Let_def split: option.splits prod.splits if_splits
      intro: R_transition_task)

lemma R_reassign_row:
  assumes "store_wf s" and "find_task s tid = Some x" and "t_status x \<in> set MIGRATABLE_STATUSES"
  shows "R s (record_event_locked now sess (Some tid) ''MIGRATED_IN'' why None None md
    (record_event_locked now from_session (Some tid) ''MIGRATED_OUT'' why None None md'
    (update_task tid (\<lambda>t. t\<lparr>t_session := sess, t_position := pos, t_status := QUEUED,
      t_migration_history := h, t_claimed_by := None, t_claim_token := None, t_lease_expires_at := None,
      t_uncertain_or_waiting_since := None, t_updated_at := now\<rparr>) s)))"
  by (rule R_migrate [OF assms(1,2)], rule row_step.requeue)
     (use assms(3) in \<open>simp_all add: same_identity_def unclaimed_def\<close>)

lemma R_reassign:
  assumes "reassign_task now tid sess reason actor s = (r, s')" and "store_wf s" and "s_pending s = []"
  shows "R s s'"
proof -
  obtain res where "with_connection (\<lambda>s.
        case find_task s tid of
          None \<Rightarrow> Inl (KeyError (''no such task: '' @ tid))
        | Some row \<Rightarrow>
            if t_status row \<notin> set MIGRATABLE_STATUSES
            then Inl (TaskAlreadyClaimedError (tid @ '': status is '' @ py_repr (status_name (t_status row))
                   @ '', no longer eligible for reassignment (expected one of (''
                   @ join '', '' (map (\<lambda>st. py_repr (status_name st)) MIGRATABLE_STATUSES) @ ''))''))
            else let from_session = t_session row;
                     history = t_migration_history row @
                       [[(''from'', JStr from_session), (''to'', JStr sess),
                         (''reason'', JStr reason), (''actor'', JStr actor), (''time'', JInt now)]];
                     pos = max_position s sess + 1;
                     s1 = ensure_lane now sess s;
                     s2 = update_task tid (\<lambda>t. t\<lparr>t_session := sess, t_position := pos,
                            t_status := QUEUED, t_migration_history := history,
                            t_claimed_by := None, t_claim_token := None, t_lease_expires_at := None,
                            t_uncertain_or_waiting_since := None, t_updated_at := now\<rparr>) s1;
                     s3 = record_event_locked now from_session (Some tid) ''MIGRATED_OUT'' (Some reason)
                            None None [(''to'', JStr sess), (''actor'', JStr actor)] s2
                 in Inr ((), record_event_locked now sess (Some tid) ''MIGRATED_IN'' (Some reason)
                            None None [(''from'', JStr from_session), (''actor'', JStr actor)] s3)) s = (res, s')"
    using assms(1) by (auto simp: reassign_task_def split: prod.splits sum.splits)
  then show ?thesis
    by (rule R_connection [OF _ assms(3)])
       (use assms(2) in \<open>auto simp: Let_def split: option.splits if_splits
          intro!: R_trans [OF R_ensure_lane R_reassign_row]\<close>)
qed

lemma R_pm_decision:
  "record_pm_decision now tid d reason actor rs rn ev s = (r, s') \<Longrightarrow> s_pending s = [] \<Longrightarrow> R s s'"
  unfolding record_pm_decision_def
  by (erule R_connection)
     (auto simp: Let_def R_refl same_identity_def split: option.splits
       intro!: R_trans [OF R_annotate_task R_event])

lemma R_mark_at_risk:
  assumes "mark_at_risk now tid b s = (r, s')" and "s_pending s = []"
  shows "R s s'"
proof -
  obtain res where "with_connection (\<lambda>s.
        let s1 = update_task tid (\<lambda>t. t\<lparr>t_at_risk := b, t_updated_at := now\<rparr>) s
        in case find_task s1 tid of
             None \<Rightarrow> Inl (KeyError (''no such task: '' @ tid))
           | Some row \<Rightarrow> Inr ((), log_event now (t_session row) (Some tid)
               (if b then ''AT_RISK'' else ''AT_RISK_CLEARED'') None s1)) s = (res, s')"
    using assms(1) by (auto simp: mark_at_risk_def split: prod.splits sum.splits)
  then show ?thesis
    by (rule R_connection [OF _ assms(2)])
       (auto simp: Let_def same_identity_def split: option.splits intro!: R_trans [OF R_annotate_task R_event])
qed

lemma R_record_deploy:
  assumes "record_deploy now tid d ref actor s = (r, s')" and "s_pending s = []"
  shows "R s s'"
proof -
  let ?u = "update_task tid (\<lambda>t. t\<lparr>t_deploy_state := Some d, t_updated_at := now\<rparr>) s"
  have 1: "R s (drain_events ?u)"
    by (rule R_trans [OF R_annotate_task R_drain]) (simp add: same_identity_def)
  have 2: "s_pending (drain_events ?u) = []" using assms(2) by (simp add: drain_events_def)
  note E = R_record_event [OF prod.collapse [symmetric] 2]
  show ?thesis
    using assms(1) R_trans [OF 1 E]
    by (auto simp: record_deploy_def with_connection_def [of "\<lambda>s. Inr ((), update_task tid
          (\<lambda>t. t\<lparr>t_deploy_state := Some d, t_updated_at := now\<rparr>) s)"] R_refl Let_def
        split: option.splits if_splits)
qed

end

section \<open>What enqueueing does\<close>

definition spec_rows ::
  "timestamp \<Rightarrow> string \<Rightarrow> int \<Rightarrow> (nat \<Rightarrow> string) \<Rightarrow> (nat \<times> task_spec) list \<Rightarrow> task list" where
  "spec_rows now sess next fresh items = map (\<lambda>(i, sp). inserted_row now sess (next + int i)
     (str_or (p_id sp) (fresh i)) (case p_prompt sp of None \<Rightarrow> [] | Some p \<Rightarrow> p) sp) items"

lemma enqueue_result:
  "for_each (enqueue_one now sess next fresh) items s = Inr s' \<Longrightarrow>
     s_tasks s' = s_tasks s @ spec_rows now sess next fresh items \<and> s_lanes s' = s_lanes s"
proof (induction items arbitrary: s)
  case Nil
  then show ?case by (simp add: spec_rows_def)
next
  case (Cons item items)
  then obtain t where t: "enqueue_one now sess next fresh item s = Inr t"
    and rest: "for_each (enqueue_one now sess next fresh) items t = Inr s'"
    by (auto elim: and_then_InrE)
  have "s_tasks t = s_tasks s @ spec_rows now sess next fresh [item] \<and> s_lanes t = s_lanes s"
    using t by (cases item)
      (auto simp: enqueue_one_def Let_def and_then_Inr_iff insert_task_Inr spec_rows_def split: option.splits)
  with Cons.IH [OF rest] show ?case by (simp add: spec_rows_def)
qed

lemma spec_rows_ids: "map t_id (spec_rows now sess next fresh (enumerate 0 specs)) = spec_ids fresh specs"
  by (simp add: spec_rows_def spec_ids_def inserted_row_def case_prod_beta comp_def)

lemma spec_rows_facts:
  assumes "i < length specs"
  shows "spec_rows now sess next fresh (enumerate 0 specs) ! i =
     inserted_row now sess (next + int i) (str_or (p_id (specs ! i)) (fresh i))
       (case p_prompt (specs ! i) of None \<Rightarrow> [] | Some p \<Rightarrow> p) (specs ! i)"
  using assms by (simp add: spec_rows_def nth_enumerate_eq)

lemma set_tasks_result:
  assumes "store_wf s" and "set_tasks now fresh sess specs rep s = (Inr ids, s')"
  shows "\<exists>next. s_tasks s' =
       update_where (\<lambda>t. rep \<and> t_session t = sess \<and> t_status t = QUEUED)
         (final_row now QUEUED CANCELLED (Some ''superseded by queue_set'') []) (s_tasks s)
       @ spec_rows now sess next fresh (enumerate 0 specs)
     \<and> (\<forall>t\<in>set (s_tasks s). t_session t = sess \<longrightarrow> t_position t < next) \<and> ids = spec_ids fresh specs \<and> store_wf s'"
proof -
  let ?s1 = "ensure_lane now sess s"
  let ?p = "\<lambda>t. rep \<and> t_session t = sess \<and> t_status t = QUEUED"
  have stale: "(if rep then filter (\<lambda>t. t_session t = sess \<and> t_status t = QUEUED) (s_tasks ?s1) else [])
     = filter ?p (s_tasks ?s1)" by simp
  have wf: "store_wf ?s1" using assms(1) by simp
  have "\<exists>s2. for_each (\<lambda>row. step_locked now (t_id row) QUEUED CANCELLED ''CANCELLED''
        (Some ''superseded by queue_set'') []) (filter ?p (s_tasks ?s1)) ?s1 = Inr s2
     \<and> s_tasks s2 = update_where ?p (\<lambda>x. final_row now QUEUED CANCELLED (Some ''superseded by queue_set'') [] x)
        (s_tasks ?s1) \<and> s_lanes s2 = s_lanes ?s1"
    by (rule for_each_selected_ok [OF wf]) (auto simp: edge_allowed_def is_valid_transition_def)
  then obtain s2 where 1: "for_each (\<lambda>row. step_locked now (t_id row) QUEUED CANCELLED ''CANCELLED''
        (Some ''superseded by queue_set'') []) (filter ?p (s_tasks ?s1)) ?s1 = Inr s2"
    and t2: "s_tasks s2 = update_where ?p (final_row now QUEUED CANCELLED (Some ''superseded by queue_set'') [])
        (s_tasks s)" by auto
  let ?next = "max_position s2 sess + 1"
  from assms(2) obtain s3 where 2: "for_each (enqueue_one now sess ?next fresh) (enumerate 0 specs) s2 = Inr s3"
    and s': "s' = drain_events s3" and ids: "ids = spec_ids fresh specs"
    by (cases "for_each (enqueue_one now sess ?next fresh) (enumerate 0 specs) s2")
       (simp_all add: set_tasks_def Let_def stale with_connection_def 1 [simplified])
  have "map t_id (s_tasks s2) = map t_id (s_tasks s)"
    unfolding t2 by (rule map_update_where_same) simp
  then have "store_wf s2" using assms(1) by (simp add: store_wf_def)
  then have wf': "store_wf s'" using evolution.R_wf [OF evolution.R_enqueue [OF 2]] by (simp add: s')
  have "t_position t < ?next" if t: "t \<in> set (s_tasks s)" "t_session t = sess" for t
  proof -
    let ?t = "if ?p t then final_row now QUEUED CANCELLED (Some ''superseded by queue_set'') [] t else t"
    have "?t \<in> set (s_tasks s2)" using t(1) by (auto simp: t2 set_update_where)
    then have "t_position ?t \<le> max_position s2 sess" using t(2) by (intro max_position_ge) auto
    then show ?thesis by (simp split: if_splits)
  qed
  then show ?thesis
    using enqueue_result [OF 2] by (intro exI [of _ ?next]) (simp add: s' t2 ids wf' [unfolded s', simplified])
qed

text \<open>
  A successful enqueue answers one id per entry, in order, all distinct and new; each
  entry becomes a QUEUED row of the lane behind everything already there, in the order
  given, with no claim, no attempt and no execution evidence, whatever its metadata said.
  With \<open>replace_pending\<close> the lane's QUEUED rows are cancelled; every other row is untouched.
\<close>

theorem set_tasks_effect:
  assumes "store_wf s" and "set_tasks now fresh sess specs rep s = (Inr ids, s')"
  shows "length ids = length specs \<and> distinct ids
    \<and> (\<forall>i<length specs. find_task s (ids ! i) = None \<and>
        (\<exists>t. find_task s' (ids ! i) = Some t \<and> t_session t = sess \<and> t_status t = QUEUED
           \<and> unclaimed t \<and> t_attempt_count t = 0 \<and> \<not> has_evidence t
           \<and> (\<forall>u\<in>set (s_tasks s). t_session u = sess \<longrightarrow> t_position u < t_position t)
           \<and> (\<forall>j<i. \<forall>u. find_task s' (ids ! j) = Some u \<longrightarrow> t_position u < t_position t)))
    \<and> (\<forall>x\<in>set (s_tasks s). \<exists>y. find_task s' (t_id x) = Some y \<and>
        (if rep \<and> t_session x = sess \<and> t_status x = QUEUED then t_status y = CANCELLED else y = x))"
proof -
  let ?olds = "update_where (\<lambda>t. rep \<and> t_session t = sess \<and> t_status t = QUEUED)
         (final_row now QUEUED CANCELLED (Some ''superseded by queue_set'') []) (s_tasks s)"
  from set_tasks_result [OF assms] obtain nxt where
    t: "s_tasks s' = ?olds @ spec_rows now sess nxt fresh (enumerate 0 specs)" (is "_ = _ @ ?news")
    and pos: "\<forall>t\<in>set (s_tasks s). t_session t = sess \<longrightarrow> t_position t < nxt"
    and ids: "ids = spec_ids fresh specs" and wf': "store_wf s'" by auto
  have len: "length ids = length specs" by (simp add: ids spec_ids_def)
  have "distinct (map t_id ?olds @ ids)"
    using wf' by (simp add: store_wf_def t spec_rows_ids ids)
  moreover have olds: "map t_id ?olds = map t_id (s_tasks s)" by (rule map_update_where_same) simp
  ultimately have dist: "distinct ids" "\<And>x. x \<in> set (s_tasks s) \<Longrightarrow> t_id x \<notin> set ids" by auto
  have news: "find_task s' (ids ! i) = Some (?news ! i)" if i: "i < length specs" for i
  proof -
    have "?news ! i \<in> set (s_tasks s')" using i by (simp add: t spec_rows_def)
    moreover have "t_id (?news ! i) = ids ! i"
      using i by (simp add: ids spec_rows_ids [symmetric, of _ _ now sess nxt] spec_rows_def del: nth_enumerate_eq)
    ultimately show ?thesis using wf_find_task [OF wf'] by metis
  qed
  have new: "find_task s (ids ! i) = None \<and>
        (\<exists>t. find_task s' (ids ! i) = Some t \<and> t_session t = sess \<and> t_status t = QUEUED
           \<and> unclaimed t \<and> t_attempt_count t = 0 \<and> \<not> has_evidence t
           \<and> (\<forall>u\<in>set (s_tasks s). t_session u = sess \<longrightarrow> t_position u < t_position t)
           \<and> (\<forall>j<i. \<forall>u. find_task s' (ids ! j) = Some u \<longrightarrow> t_position u < t_position t))"
    if i: "i < length specs" for i
  proof -
    have "ids ! i \<in> set ids" using i len by simp
    then have "find_task s (ids ! i) = None" using dist(2) by (metis find_task_None_iff)
    moreover have "newborn (?news ! i)" using i by (simp add: spec_rows_facts newborn_inserted)
    ultimately show ?thesis
      using i pos news by (auto simp: spec_rows_facts newborn_def has_evidence_def
          valid_execution_evidence_def) (auto simp: inserted_row_def)
  qed
  have old: "\<exists>y. find_task s' (t_id x) = Some y \<and>
        (if rep \<and> t_session x = sess \<and> t_status x = QUEUED then t_status y = CANCELLED else y = x)"
    if x: "x \<in> set (s_tasks s)" for x
  proof -
    let ?y = "if rep \<and> t_session x = sess \<and> t_status x = QUEUED
      then final_row now QUEUED CANCELLED (Some ''superseded by queue_set'') [] x else x"
    have "?y \<in> set ?olds" using x by (auto simp: set_update_where)
    then have "?y \<in> set (s_tasks s')" unfolding t by simp
    from wf_find_task [OF wf' this] show ?thesis by (auto split: if_splits)
  qed
  show ?thesis using len dist(1) new old by blast
qed

text \<open>
  Clearing a lane always succeeds, answers how many tasks it cancelled, cancels exactly
  the lane's QUEUED tasks (with \<open>only_pending=False\<close> also its BLOCKED and FAILED ones), drops
  their claims, and never touches a task in flight.
\<close>

theorem clear_tasks_effect:
  assumes "store_wf s"
  shows "\<exists>n s'. clear_tasks now sess only_pending s = (Inr n, s')
    \<and> n = length (filter (\<lambda>t. t_session t = sess \<and> (t_status t = QUEUED
             \<or> (\<not> only_pending \<and> t_status t \<in> {BLOCKED, FAILED}))) (s_tasks s))
    \<and> (\<forall>x\<in>set (s_tasks s). \<exists>y. find_task s' (t_id x) = Some y \<and>
        (if t_session x = sess \<and> (t_status x = QUEUED \<or> (\<not> only_pending \<and> t_status x \<in> {BLOCKED, FAILED}))
         then t_status y = CANCELLED \<and> unclaimed y \<and> same_identity x y else y = x))"
proof -
  let ?sts = "if only_pending then [QUEUED] else [QUEUED, BLOCKED, FAILED]"
  let ?p = "\<lambda>t. t_session t = sess \<and> t_status t \<in> set ?sts"
  let ?q = "\<lambda>t. t_session t = sess \<and> (t_status t = QUEUED \<or> (\<not> only_pending \<and> t_status t \<in> {BLOCKED, FAILED}))"
  let ?f = "\<lambda>x. final_row now (t_status x) CANCELLED (Some ''queue_clear'') [] x"
  have pq: "?p = ?q" by auto
  have "\<exists>s1. for_each (\<lambda>row. step_locked now (t_id row) (t_status row) CANCELLED ''CANCELLED''
      (Some ''queue_clear'') []) (filter ?p (s_tasks s)) s = Inr s1
      \<and> s_tasks s1 = update_where ?p ?f (s_tasks s) \<and> s_lanes s1 = s_lanes s"
    by (rule for_each_selected_ok [OF assms]) (auto simp: edge_allowed_def is_valid_transition_def split: if_splits)
  then obtain s1 where 1: "for_each (\<lambda>row. step_locked now (t_id row) (t_status row) CANCELLED ''CANCELLED''
      (Some ''queue_clear'') []) (filter ?p (s_tasks s)) s = Inr s1"
    and t: "s_tasks s1 = update_where ?p ?f (s_tasks s)" by blast
  have "clear_tasks now sess only_pending s = (Inr (length (filter ?p (s_tasks s))), drain_events s1)"
    unfolding clear_tasks_def Let_def with_connection_def 1 by simp
  moreover have "\<exists>y. find_task (drain_events s1) (t_id x) = Some y \<and>
        (if ?q x then t_status y = CANCELLED \<and> unclaimed y \<and> same_identity x y else y = x)"
    if x: "x \<in> set (s_tasks s)" for x
  proof -
    have un: "unclaimed (?f x)" by (rule final_row_unclaimed) (simp_all add: status_groups)
    have F: "find_task (drain_events s1) (t_id x) = Some (if ?q x then ?f x else x)"
      using find_task_updated [OF assms x t] fun_cong [OF pq, of x] by simp
    show ?thesis
    proof (cases "?q x")
      case True
      with F un show ?thesis by (simp only: if_True) (simp add: final_row_identity)
    next
      case False
      with F show ?thesis by (simp only: if_False) simp
    qed
  qed
  ultimately show ?thesis unfolding pq by blast
qed

text \<open>
  Moving a task to another lane: an unknown task and a task in flight or settled are
  answered with a refusal and change nothing, moving it to where it is changes nothing,
  and otherwise only its lane and its position change, behind everything in the new lane.
\<close>

theorem move_task_effect:
  assumes "store_wf s" and "move_task_to_session now tid sess s = (res, s')"
  shows "case find_task s tid of
      None \<Rightarrow> res = Inr TASK_NOT_FOUND \<and> s' = drain_events s
    | Some t \<Rightarrow>
        if t_status t \<notin> {QUEUED, BLOCKED, PAUSED, WAITING_SESSION}
        then res = Inr (TASK_NOT_MOVABLE (t_status t)) \<and> s' = drain_events s
        else if t_session t = sess then res = Inr (Moved t) \<and> s' = drain_events s
        else \<exists>p. (\<forall>u\<in>set (s_tasks s). t_session u = sess \<longrightarrow> t_position u < p)
          \<and> res = Inr (Moved (t\<lparr>t_session := sess, t_position := p, t_updated_at := now\<rparr>))
          \<and> (\<forall>x. find_task s' x = (if x = tid
                then Some (t\<lparr>t_session := sess, t_position := p, t_updated_at := now\<rparr>) else find_task s x))"
proof (cases "find_task s tid")
  case None
  with assms(2) show ?thesis by (auto simp: move_task_to_session_def with_connection_def)
next
  case (Some t)
  let ?p = "max_position (ensure_lane now sess s) sess + 1"
  have gt: "\<forall>u\<in>set (s_tasks s). t_session u = sess \<longrightarrow> t_position u < ?p"
    using max_position_ge [of _ "ensure_lane now sess s" sess] by fastforce
  show ?thesis
  proof (cases "t_status t \<in> set MOVABLE_STATUSES \<and> t_session t \<noteq> sess")
    case False
    with Some assms(2) show ?thesis
      by (auto simp: move_task_to_session_def with_connection_def status_groups)
  next
    case True
    with Some assms(2) gt show ?thesis
      by (auto simp: move_task_to_session_def with_connection_def find_task_update_task Let_def
          option.map_ident status_groups intro!: exI [of _ ?p])
  qed
qed

section \<open>Reordering\<close>

definition place :: "timestamp \<Rightarrow> int \<Rightarrow> task \<Rightarrow> task" where
  "place now pos t = t\<lparr>t_position := pos, t_updated_at := now\<rparr>"

lemma place_fold:
  assumes "distinct (map fst ps)"
  shows "find_task (fold (\<lambda>(tid, pos). update_task tid (\<lambda>t. t\<lparr>t_position := pos, t_updated_at := now\<rparr>)) ps s) x
    = map_option (\<lambda>t. case map_of ps x of None \<Rightarrow> t | Some pos \<Rightarrow> place now pos t) (find_task s x)"
  using assms
proof (induction ps arbitrary: s)
  case Nil
  then show ?case by (simp add: option.map_ident)
next
  case (Cons p ps)
  obtain tid pos where p: "p = (tid, pos)" by (cases p)
  have none: "map_of ps tid = None" using Cons.prems p by (auto simp: map_of_eq_None_iff)
  show ?case
    using Cons.IH [of "update_task tid (\<lambda>t. t\<lparr>t_position := pos, t_updated_at := now\<rparr>) s"] Cons.prems none
    by (auto simp: p find_task_update_task option.map_comp comp_def place_def option.map_ident
        split: option.splits intro!: option.map_cong)
qed

lemma reorder_run:
  "reorder_tasks now sess ids s = (Inr (), drain_events (fold (\<lambda>(tid, pos).
     update_task tid (\<lambda>t. t\<lparr>t_position := pos, t_updated_at := now\<rparr>))
       (zip (filter (\<lambda>i. i \<in> t_id ` set (filter (\<lambda>t. t_session t = sess \<and> t_status t = QUEUED) (s_tasks s))) ids)
            (sort (map t_position (filter (\<lambda>t. t_session t = sess \<and> t_status t = QUEUED) (s_tasks s))))) s))"
  by (simp add: reorder_tasks_def with_connection_def Let_def)

text \<open>
  Given a permutation of the ids of the lane's QUEUED tasks, reordering gives the i-th
  listed task the i-th smallest of the positions these tasks held, and changes no other task.
\<close>

theorem reorder_tasks_permutation:
  assumes "store_wf s" and "distinct ids"
    and "set ids = t_id ` set (filter (\<lambda>t. t_session t = sess \<and> t_status t = QUEUED) (s_tasks s))"
  shows "\<exists>s'. reorder_tasks now sess ids s = (Inr (), s')
    \<and> (\<forall>i<length ids. \<forall>t. find_task s (ids ! i) = Some t \<longrightarrow> find_task s' (ids ! i) =
         Some (place now (sort (map t_position (filter (\<lambda>t. t_session t = sess \<and> t_status t = QUEUED)
                 (s_tasks s))) ! i) t))
    \<and> (\<forall>x. x \<notin> set ids \<longrightarrow> find_task s' x = find_task s x)"
proof -
  let ?q = "filter (\<lambda>t. t_session t = sess \<and> t_status t = QUEUED) (s_tasks s)"
  let ?pos = "sort (map t_position ?q)"
  have wanted: "filter (\<lambda>i. i \<in> t_id ` set ?q) ids = ids"
    using assms(3) by (simp add: filter_id_conv)
  have "card (set (map t_id ?q)) = length (map t_id ?q)"
    by (rule distinct_card) (rule wf_filter_rows(1) [OF assms(1)])
  then have "length ids = length ?q"
    using distinct_card [OF assms(2)] assms(3) by simp
  then have len: "length ids = length ?pos" by simp
  let ?s' = "drain_events (fold (\<lambda>(tid, pos). update_task tid
      (\<lambda>t. t\<lparr>t_position := pos, t_updated_at := now\<rparr>)) (zip ids ?pos) s)"
  have run: "reorder_tasks now sess ids s = (Inr (), ?s')"
    using reorder_run [of now sess ids s] unfolding wanted .
  have F: "find_task ?s' x = map_option (\<lambda>t. case map_of (zip ids ?pos) x of None \<Rightarrow> t
      | Some pos \<Rightarrow> place now pos t) (find_task s x)" for x
    by (simp add: place_fold [of "zip ids ?pos"] map_fst_zip [OF len] assms(2))
  have "map_of (zip ids ?pos) (ids ! i) = Some (?pos ! i)" if "i < length ids" for i
    by (rule map_of_zip_nth [OF len assms(2)]) (use that len in simp)
  then have "\<forall>i<length ids. \<forall>t. find_task s (ids ! i) = Some t \<longrightarrow>
      find_task ?s' (ids ! i) = Some (place now (?pos ! i) t)"
    by (simp only: F) simp
  moreover have "find_task ?s' x = find_task s x" if "x \<notin> set ids" for x
  proof -
    have "map_of (zip ids ?pos) x = None" using that len by (simp add: map_of_zip_is_None)
    then show ?thesis by (simp only: F) (simp add: option.map_ident)
  qed
  ultimately show ?thesis using run by blast
qed

text \<open>
  Reordering only part of a lane collides: naming one QUEUED task, other than the front
  one, gives it the front task's position and leaves the front task there, so two tasks of
  the lane share one position and their order is no longer determined.
\<close>

theorem reorder_tasks_partial_collides:
  assumes "store_wf s" and "a \<in> set (s_tasks s)" and "b \<in> set (s_tasks s)" and "t_id a \<noteq> t_id b"
    and "t_session a = sess" and "t_status a = QUEUED" and "t_session b = sess" and "t_status b = QUEUED"
    and "\<forall>t\<in>set (s_tasks s). t_session t = sess \<and> t_status t = QUEUED \<longrightarrow> t_position a \<le> t_position t"
  shows "\<exists>s' b'. reorder_tasks now sess [t_id b] s = (Inr (), s') \<and> find_task s' (t_id a) = Some a
    \<and> find_task s' (t_id b) = Some b' \<and> t_position b' = t_position a \<and> t_status b' = QUEUED"
proof -
  let ?q = "filter (\<lambda>t. t_session t = sess \<and> t_status t = QUEUED) (s_tasks s)"
  let ?pos = "sort (map t_position ?q)"
  have a: "a \<in> set ?q" and b: "b \<in> set ?q" using assms by auto
  obtain p ps where ps: "?pos = p # ps"
  proof (cases ?pos)
    case Nil
    have "length ?pos = length ?q" by simp
    then have "?q = []" unfolding Nil by (simp only: list.size length_0_conv eq_commute [of 0])
    with a show ?thesis by simp
  qed
  have "t_position a \<in> set ?pos" using a by simp
  moreover have "sorted ?pos" by simp
  ultimately have "p \<le> t_position a" unfolding ps by auto
  moreover have "p \<in> set ?pos" unfolding ps by simp
  then have "t_position a \<le> p" using assms(9) by auto
  ultimately have p: "p = t_position a" by simp
  have wanted: "filter (\<lambda>i. i \<in> t_id ` set ?q) [t_id b] = [t_id b]" using b by simp
  have "reorder_tasks now sess [t_id b] s = (Inr (), drain_events (fold (\<lambda>(tid, pos).
      update_task tid (\<lambda>t. t\<lparr>t_position := pos, t_updated_at := now\<rparr>)) (zip [t_id b] ?pos) s))"
    using reorder_run [of now sess "[t_id b]" s] unfolding wanted .
  also have "zip [t_id b] ?pos = [(t_id b, t_position a)]" by (simp only: ps p zip_Cons_Cons zip_Nil)
  finally have run: "reorder_tasks now sess [t_id b] s = (Inr (), drain_events (update_task (t_id b)
      (\<lambda>t. t\<lparr>t_position := t_position a, t_updated_at := now\<rparr>) s))" by simp
  show ?thesis
    using wf_find_task [OF assms(1,2)] wf_find_task [OF assms(1,3)] assms(4,8)
    by (simp add: run find_task_update_task)
qed

section \<open>Retry and reassignment\<close>

lemma find_unique:
  assumes "x \<in> set xs" and "p x" and "\<And>y. y \<in> set xs \<Longrightarrow> p y \<Longrightarrow> y = x"
  shows "List.find p xs = Some x"
  using assms
proof (induction xs)
  case Nil
  then show ?case by simp
next
  case (Cons z xs)
  show ?case
  proof (cases "p z")
    case True
    then have "z = x" by (rule Cons.prems(3) [rotated]) simp
    with True show ?thesis by simp
  next
    case False
    with Cons.prems(1,2) have "x \<in> set xs" by auto
    have "List.find p xs = Some x"
      by (rule Cons.IH [OF \<open>x \<in> set xs\<close> Cons.prems(2)]) (rule Cons.prems(3), simp_all)
    with False show ?thesis by simp
  qed
qed

lemma active_owner_by_id:
  assumes "store_wf s" and "find_task s tid = Some t" and "tid \<noteq> []"
    and "\<forall>u\<in>set (s_tasks s). nonempty (t_request_key t) \<and> t_request_key u = t_request_key t \<longrightarrow> u = t"
  shows "active_owner_for s (Some tid) (t_request_key t) = (if t_status t \<in> set IN_FLIGHT then Some t else None)"
proof -
  have t: "t \<in> set (s_tasks s)" "t_id t = tid" using find_task_Some_iff [OF assms(2)] by auto
  have uniq: "y = t" if "y \<in> set (s_tasks s)" "t_id y = tid" for y
    using wf_row_unique [OF assms(1,2) that] .
  show ?thesis
  proof (cases "t_status t \<in> set IN_FLIGHT")
    case True
    have "List.find (\<lambda>u. t_id u = tid \<and> t_status u \<in> set IN_FLIGHT) (s_tasks s) = Some t"
      by (rule find_unique [OF t(1)]) (use t True in simp, use uniq in blast)
    with True assms(3) show ?thesis by (simp add: active_owner_for_def nonempty_def)
  next
    case False
    have "List.find (\<lambda>u. t_id u = tid \<and> t_status u \<in> set IN_FLIGHT) (s_tasks s) = None"
      using False uniq by (auto simp: find_None_iff)
    moreover have "List.find (\<lambda>u. t_request_key u = t_request_key t \<and> t_status u \<in> set IN_FLIGHT) (s_tasks s) = None"
      if "nonempty (t_request_key t)"
      using False assms(4) that by (auto simp: find_None_iff)
    ultimately show ?thesis using False assms(3) by (simp add: active_owner_for_def nonempty_def)
  qed
qed

text \<open>
  Retry, on every branch: a task in flight is answered as it is, with no change to any
  task; a task an active harness run owns is refused; a task at a status with an edge to
  QUEUED goes back to QUEUED with its dispatch idempotency key cleared and its attempt
  count kept; every other status raises and changes nothing.
\<close>

theorem retry_task_contract:
  assumes "store_wf s" and "find_task s tid = Some t" and "tid \<noteq> []"
    and "\<forall>u\<in>set (s_tasks s). nonempty (t_request_key t) \<and> t_request_key u = t_request_key t \<longrightarrow> u = t"
  shows "if t_status t \<in> {PRECHECK, READY, DISPATCHING, RUNNING, VERIFYING}
    then \<exists>s'. retry_task now tid s = (Inr t, s') \<and> s_tasks s' = s_tasks s
    else if active_harness_run_for s tid \<noteq> None
    then \<exists>m. retry_task now tid s = (Inl (HarnessRunOwnsTask m), s)
    else if t_status t \<in> {BLOCKED, FAILED, WAITING_SESSION, PAUSED}
    then \<exists>y s'. retry_task now tid s = (Inr y, s') \<and> t_status y = QUEUED
       \<and> t_dispatch_idempotency_key y = None \<and> t_attempt_count y = t_attempt_count t
       \<and> same_identity t y \<and> (\<forall>z. find_task s' z = (if z = tid then Some y else find_task s z))
    else \<exists>m. retry_task now tid s = (Inl (InvalidTransitionError m), discard_events s)"
proof -
  note owner = active_owner_by_id [OF assms]
  have id: "t_id t = tid" using find_task_Some_iff [OF assms(2)] by simp
  note T = transition_task_result [OF assms(1,2), of QUEUED "[Dispatch_idempotency_key None]" now "''RETRIED''" None]
  have edge: "edge_allowed (t_status t) QUEUED [Dispatch_idempotency_key None] t \<longleftrightarrow>
      t_status t \<in> {PRECHECK, DISPATCHING, BLOCKED, FAILED, WAITING_SESSION, PAUSED}"
    by (cases "t_status t") (simp_all add: edge_allowed_def is_valid_transition_def)
  consider (flight) "t_status t \<in> set IN_FLIGHT"
    | (owned) run where "t_status t \<notin> set IN_FLIGHT" "active_harness_run_for s tid = Some run"
    | (free) "t_status t \<notin> set IN_FLIGHT" "active_harness_run_for s tid = None"
    by blast
  then show ?thesis
  proof cases
    case flight
    have "s_tasks (snd (record_event now sess x ty r m s)) = s_tasks s" for sess x ty r m
      by (simp add: record_event_def with_connection_def)
    then have "\<exists>s'. retry_task now tid s = (Inr t, s') \<and> s_tasks s' = s_tasks s"
      using flight owner id assms(2)
      by (simp add: retry_task_def get_task_def duplicate_retry_is_noop_def find_task_def)
    with flight show ?thesis by (simp add: IN_FLIGHT_def)
  next
    case owned
    then show ?thesis
      using owner assms(2) by (simp add: retry_task_def get_task_def duplicate_retry_is_noop_def) (simp add: IN_FLIGHT_def)
  next
    case free
    have run: "retry_task now tid s = transition_task now tid QUEUED ''RETRIED'' None [Dispatch_idempotency_key None] s"
      using free owner assms(2) by (simp add: retry_task_def get_task_def duplicate_retry_is_noop_def)
    let ?y = "final_row now (t_status t) QUEUED None [Dispatch_idempotency_key None] t"
    have key: "t_dispatch_idempotency_key ?y = None"
      by (simp add: final_row_def cleanup_row_def transition_row_def Let_def)
    show ?thesis
    proof (cases "t_status t \<in> {BLOCKED, FAILED, WAITING_SESSION, PAUSED}")
      case True
      then have "edge_allowed (t_status t) QUEUED [Dispatch_idempotency_key None] t" using edge by auto
      with T obtain s' where "transition_task now tid QUEUED ''RETRIED'' None [Dispatch_idempotency_key None] s = (Inr ?y, s')"
        "\<forall>z. find_task s' z = (if z = tid then Some ?y else find_task s z)" by auto
      then have "\<exists>y s'. retry_task now tid s = (Inr y, s') \<and> t_status y = QUEUED
       \<and> t_dispatch_idempotency_key y = None \<and> t_attempt_count y = t_attempt_count t
       \<and> same_identity t y \<and> (\<forall>z. find_task s' z = (if z = tid then Some y else find_task s z))"
        unfolding run
        by (intro exI [of _ ?y] exI [of _ s']) (simp add: key final_row_attempts final_row_identity)
      with True free show ?thesis by auto
    next
      case False
      with free have "\<not> edge_allowed (t_status t) QUEUED [Dispatch_idempotency_key None] t"
        unfolding edge by (simp add: IN_FLIGHT_def)
      with T have "\<exists>m. retry_task now tid s = (Inl (InvalidTransitionError m), discard_events s)"
        unfolding run by simp
      with False free show ?thesis by (simp add: IN_FLIGHT_def)
    qed
  qed
qed

lemma reassign_run:
  assumes "find_task s tid = Some t" and "t_status t \<in> set MIGRATABLE_STATUSES"
  shows "\<exists>s'. reassign_task now tid sess reason actor s = (Inr (find_task s' tid), s')
    \<and> (\<forall>x. find_task s' x = map_option (\<lambda>u. if x = tid then u\<lparr>t_session := sess,
         t_position := max_position s sess + 1, t_status := QUEUED,
         t_migration_history := t_migration_history t @
           [[(''from'', JStr (t_session t)), (''to'', JStr sess), (''reason'', JStr reason),
             (''actor'', JStr actor), (''time'', JInt now)]],
         t_claimed_by := None, t_claim_token := None, t_lease_expires_at := None,
         t_uncertain_or_waiting_since := None, t_updated_at := now\<rparr> else u) (find_task s x))"
  using assms by (simp add: reassign_task_def with_connection_def Let_def get_task_def find_task_update_task)

text \<open>
  Reassignment: only a QUEUED, WAITING_SESSION, BLOCKED or FAILED task moves, any other
  raises and changes nothing. A moved task is QUEUED and unclaimed behind everything in its
  new lane, keeps its identity, attempts, metadata and original owner, its history grows by
  exactly one entry, and no other task changes.
\<close>

theorem reassign_task_contract:
  assumes "find_task s tid = Some t"
  shows "if t_status t \<in> {QUEUED, WAITING_SESSION, BLOCKED, FAILED}
    then \<exists>y s'. reassign_task now tid sess reason actor s = (Inr (Some y), s')
      \<and> t_status y = QUEUED \<and> unclaimed y \<and> t_session y = sess \<and> same_identity t y
      \<and> t_attempt_count y = t_attempt_count t \<and> t_metadata y = t_metadata t
      \<and> t_original_owner y = t_original_owner t
      \<and> (\<exists>entry. t_migration_history y = t_migration_history t @ [entry]
            \<and> dget entry ''from'' = JStr (t_session t) \<and> dget entry ''to'' = JStr sess)
      \<and> (\<forall>u\<in>set (s_tasks s). t_session u = sess \<longrightarrow> t_position u < t_position y)
      \<and> (\<forall>x. find_task s' x = (if x = tid then Some y else find_task s x))
    else \<exists>m. reassign_task now tid sess reason actor s = (Inl (TaskAlreadyClaimedError m), discard_events s)"
proof (cases "t_status t \<in> set MIGRATABLE_STATUSES")
  case True
  have "\<forall>u\<in>set (s_tasks s). t_session u = sess \<longrightarrow> t_position u < max_position s sess + 1"
    using max_position_ge by fastforce
  with True reassign_run [OF assms True, of now sess reason actor] assms show ?thesis
    by (auto simp: status_groups same_identity_def unclaimed_def option.map_ident)
next
  case False
  with assms show ?thesis
    by (auto simp: reassign_task_def with_connection_def status_groups)
qed

text \<open>
  Reassignment bypasses the transition chokepoint: a task that FAILED with its retry
  budget spent, and whose worktree is therefore marked for removal, is QUEUED again by a
  reassignment with the removal record still pending, where a retry of the same task
  clears the record.
\<close>

theorem reassign_keeps_cleanup_pending:
  assumes "store_wf s" and "find_task s tid = Some t" and "tid \<noteq> []" and "t_status t = FAILED"
    and "t_request_key t = None" and "active_harness_run_for s tid = None"
    and "cleanup_state (t_metadata t) = JStr CLEANUP_PENDING"
  shows "(\<exists>y s'. reassign_task now tid sess reason actor s = (Inr (Some y), s') \<and> t_status y = QUEUED
      \<and> cleanup_state (t_metadata y) = JStr CLEANUP_PENDING)
    \<and> (\<exists>y s'. retry_task now tid s = (Inr y, s') \<and> t_status y = QUEUED \<and> cleanup_state (t_metadata y) = JNull)"
proof (intro conjI)
  show "\<exists>y s'. reassign_task now tid sess reason actor s = (Inr (Some y), s') \<and> t_status y = QUEUED
      \<and> cleanup_state (t_metadata y) = JStr CLEANUP_PENDING"
    using reassign_run [OF assms(2), of now sess reason actor] assms(2,4,7)
    by (auto simp: status_groups)
  have fl: "t_status t \<notin> set IN_FLIGHT" using assms(4) by (simp add: IN_FLIGHT_def)
  have "active_owner_for s (Some tid) (t_request_key t) = None"
    using active_owner_by_id [OF assms(1-3)] assms(5) fl by (simp add: nonempty_def)
  then have run: "retry_task now tid s = transition_task now tid QUEUED ''RETRIED'' None [Dispatch_idempotency_key None] s"
    using assms(2,6) by (simp add: retry_task_def get_task_def duplicate_retry_is_noop_def)
  let ?y = "final_row now FAILED QUEUED None [Dispatch_idempotency_key None] t"
  let ?z = "transition_row now FAILED QUEUED None [Dispatch_idempotency_key None] t"
  have m: "t_metadata ?z = t_metadata t" by (simp add: transition_row_metadata)
  have "t_metadata ?y = apply_decision (t_metadata ?z)
      (decide FAILED QUEUED (t_metadata ?z) (t_attempt_count ?z) (t_max_attempts ?z) TERMINAL_STATUSES) now"
    by (auto simp: final_row_def cleanup_row_def Let_def not_changes_iff apply_decision_def)
  then have "cleanup_state (t_metadata ?y) = JNull"
    using assms(7) unfolding m cleanup_after_decision
    by (simp add: cleanup_after_decision is_terminal_def status_groups CANCELLABLE_STATES_def)
  moreover have "edge_allowed (t_status t) QUEUED [Dispatch_idempotency_key None] t"
    by (simp add: edge_allowed_def assms(4) is_valid_transition_def)
  ultimately show "\<exists>y s'. retry_task now tid s = (Inr y, s') \<and> t_status y = QUEUED \<and> cleanup_state (t_metadata y) = JNull"
    using transition_task_result [OF assms(1,2), of QUEUED "[Dispatch_idempotency_key None]" now "''RETRIED''" None] assms(4)
    unfolding run by auto
qed

section \<open>Where the code falls short of its documentation\<close>

lemma transition_locked_events:
  assumes "transition_locked now tid f t ty r ex al s = Inr (row, s')"
  shows "\<exists>e more. s_events s' = s_events s @ e # more \<and> e_event_type e = ty \<and> e_task_id e = Some tid
     \<and> (\<forall>m\<in>set more. e_event_type m \<in> {EVENT_MARKED, EVENT_CLEARED, []})"
proof -
  have ev: "dec_event_type (decide f t m a mx ts) \<in> {None, Some EVENT_MARKED, Some EVENT_CLEARED}" for m a mx ts
    by (auto simp: decide_def NONE_def Let_def)
  have ev': "str_or (dec_event_type (decide f t m a mx ts)) [] \<in> {EVENT_MARKED, EVENT_CLEARED, []}" for m a mx ts
    using ev [of m a mx ts] by (auto simp: str_or_def split: option.splits)
  from assms obtain y s1 where c: "apply_worktree_cleanup_locked now y f t
        (record_event_locked now (t_session y) (Some tid) ty r (Some (status_name f))
           (Some (status_name t)) [] s1) = (row, s')" and s1: "s_events s1 = s_events s"
    by (auto simp: transition_locked_def Let_def split: if_splits option.splits)
  from c s1 ev' show ?thesis
    by (auto simp: apply_worktree_cleanup_locked_def Let_def split: if_splits)
qed

text \<open>
  \<open>waiting_since\<close> cannot see a task become DISPATCH_UNCERTAIN: the status change is
  logged under the event type SUBMIT_UNKNOWN, so marking a task uncertain never changes the
  answer for that status.
\<close>

theorem uncertain_has_no_waiting_since:
  assumes "mark_dispatch_uncertain now tid reason s = (Inr y, s')"
  shows "t_status y = DISPATCH_UNCERTAIN
    \<and> waiting_since s' tid (status_name DISPATCH_UNCERTAIN) = waiting_since s tid (status_name DISPATCH_UNCERTAIN)"
proof -
  from assms obtain f s1 where
    t: "transition_locked now tid f DISPATCH_UNCERTAIN ''SUBMIT_UNKNOWN'' (Some reason)
        [Uncertain_or_waiting_since (Some now)] False s = Inr (y, s1)" and s': "s' = drain_events s1"
    by (auto simp: mark_dispatch_uncertain_def transition_task_def with_connection_def
        split: option.splits sum.splits)
  from transition_locked_events [OF t] obtain e more where
    ev: "s_events s1 = s_events s @ e # more" "e_event_type e = ''SUBMIT_UNKNOWN''"
      "\<forall>m\<in>set more. e_event_type m \<in> {EVENT_MARKED, EVENT_CLEARED, []}" by blast
  let ?q = "\<lambda>e. e_task_id e = Some tid \<and> e_event_type e = ''DISPATCH_UNCERTAIN''"
  have "List.find ?q (rev (e # more)) = None"
    using ev(2,3) by (auto simp: find_None_iff EVENT_MARKED_def EVENT_CLEARED_def)
  then have w: "waiting_since s' tid (status_name DISPATCH_UNCERTAIN)
      = waiting_since s tid (status_name DISPATCH_UNCERTAIN)"
    by (simp add: waiting_since_def s' ev(1,2) find_append split: option.splits)
  have "t_status y = DISPATCH_UNCERTAIN"
  proof -
    from transition_locked_returns [OF t] have "find_task s1 tid = Some y" .
    moreover from t obtain z where "s_tasks s1 = update_where (\<lambda>x. t_id x = tid) z (s_tasks s)"
      and "\<And>x. t_status (z x) = DISPATCH_UNCERTAIN" and "\<And>x. t_id (z x) = t_id x"
      by (rule transition_locked_ok) auto
    ultimately show ?thesis by (auto simp: find_task_def find_update_where)
  qed
  with w show ?thesis by simp
qed

text \<open>
  One lane can hold two RUNNING tasks: a task paused while RUNNING may be moved to a
  lane in which another task runs, and resuming that lane sets it RUNNING beside the other.
\<close>

theorem move_and_resume_two_running:
  assumes "store_wf s" and "find_task s tid = Some t" and "t_status t = PAUSED"
    and "t_paused_from_status t = Some RUNNING" and "has_evidence t" and "t_session t \<noteq> sess"
    and "find_task s uid = Some u" and "t_session u = sess" and "t_status u = RUNNING"
    and "\<forall>x\<in>set (s_tasks s). t_session x = sess \<longrightarrow> t_status x \<noteq> PAUSED"
  shows "\<exists>y s1 s2 t' u'. move_task_to_session now tid sess s = (Inr (Moved y), s1)
    \<and> resume_lane now' sess s1 = (Inr (), s2) \<and> tid \<noteq> uid
    \<and> find_task s2 tid = Some t' \<and> t_session t' = sess \<and> t_status t' = RUNNING
    \<and> find_task s2 uid = Some u' \<and> t_session u' = sess \<and> t_status u' = RUNNING"
proof -
  let ?p = "max_position (ensure_lane now sess s) sess + 1"
  let ?g = "\<lambda>t. t\<lparr>t_session := sess, t_position := ?p, t_updated_at := now\<rparr>"
  define s1 where "s1 = drain_events (log_event now sess (Some tid) ''TASK_ASSIGNED''
      (Some (''moved from '' @ py_repr (t_session t) @ '' to '' @ py_repr sess))
      (update_task tid ?g (ensure_lane now sess s)))"
  have move: "move_task_to_session now tid sess s = (Inr (Moved (?g t)), s1)"
    using assms(2,3,6)
    by (simp add: move_task_to_session_def with_connection_def find_task_update_task Let_def status_groups s1_def)
  have ts: "s_tasks s1 = update_where (\<lambda>x. t_id x = tid) ?g (s_tasks s)"
    by (simp add: s1_def update_task_def)
  have wf: "store_wf s1"
    using assms(1) unfolding store_wf_def ts by (subst map_update_where_same) simp_all
  have tin: "t \<in> set (s_tasks s)" "t_id t = tid" and uin: "u \<in> set (s_tasks s)" "t_id u = uid"
    using find_task_Some_iff [OF assms(2)] find_task_Some_iff [OF assms(7)] by auto
  have neq: "tid \<noteq> uid" using assms(2,3,7,9) by auto
  have paused: "x = ?g t" if "x \<in> set (s_tasks s1)" "in_lane sess [PAUSED] x" for x
  proof -
    from that(1) obtain z where z: "z \<in> set (s_tasks s)" "x = (if t_id z = tid then ?g z else z)"
      unfolding ts set_update_where by blast
    show ?thesis
    proof (cases "t_id z = tid")
      case True
      then have "z = t" using wf_row_unique [OF assms(1,2) z(1)] by simp
      with z(2) True show ?thesis by simp
    next
      case False
      with z that(2) assms(10) show ?thesis by (auto simp: in_lane_def)
    qed
  qed
  have allowed: "edge_allowed PAUSED (resume_target (?g t)) [Paused_from_status None] (?g t)"
    using assms(4,5) by (intro resume_paused_edge [of RUNNING]) (simp_all add: has_evidence_def)
  have "\<forall>x\<in>set (s_tasks s1). in_lane sess [PAUSED] x \<longrightarrow>
      edge_allowed PAUSED (resume_target x) [Paused_from_status None] x"
    using paused allowed by blast
  from resume_result [OF wf this, of now'] obtain s2 where
    r: "resume_lane now' sess s1 = (Inr (), s2)"
    and t2: "s_tasks s2 = update_where (in_lane sess [PAUSED]) (resumed_row now') (s_tasks s1)" by blast
  have in1: "?g t \<in> set (s_tasks s1)" "u \<in> set (s_tasks s1)"
    unfolding ts set_update_where using tin uin neq by (auto intro: bexI [of _ t] bexI [of _ u])
  have sess_resumed: "t_session (resumed_row now' x) = t_session x" for x by (simp add: resumed_row_def)
  have "find_task s2 tid = Some (resumed_row now' (?g t))"
    using find_task_updated [OF wf in1(1) t2] tin assms(3) by (simp add: resumed_row_facts in_lane_def)
  moreover have "find_task s2 uid = Some u"
    using find_task_updated [OF wf in1(2) t2] uin assms(9) by (simp add: resumed_row_facts in_lane_def)
  ultimately show ?thesis
    using move r neq assms(4,8,9) by (simp add: resumed_row_facts sess_resumed resume_target_def)
qed

section \<open>Witnesses\<close>

lemma set_tasks_effect_witness:
  "\<exists>ids s' y. set_tasks 9 (\<lambda>_. ''new'') ''a'' [plain_spec] True (sample_store [sample_task ''t1'' ''a'' 0 QUEUED])
       = (Inr ids, s') \<and> length ids = 1 \<and> find_task s' ''t1'' = Some y \<and> t_status y = CANCELLED"
proof -
  let ?s = "sample_store [sample_task ''t1'' ''a'' 0 QUEUED]"
  have wf: "store_wf ?s" by simp
  have "fst (set_tasks 9 (\<lambda>_. ''new'') ''a'' [plain_spec] True ?s) = Inr [''new'']" by code_simp
  then obtain s' where r: "set_tasks 9 (\<lambda>_. ''new'') ''a'' [plain_spec] True ?s = (Inr [''new''], s')"
    by (metis prod.collapse)
  from set_tasks_effect [OF wf r] show ?thesis using r by auto
qed

lemma clear_tasks_effect_witness:
  "\<exists>s' y. clear_tasks 9 ''a'' False (sample_store [sample_task ''t1'' ''a'' 0 FAILED, sample_task ''t2'' ''a'' 1 RUNNING])
       = (Inr 1, s') \<and> find_task s' ''t1'' = Some y \<and> t_status y = CANCELLED
     \<and> find_task s' ''t2'' = Some (sample_task ''t2'' ''a'' 1 RUNNING)"
  using clear_tasks_effect
    [of "sample_store [sample_task ''t1'' ''a'' 0 FAILED, sample_task ''t2'' ''a'' 1 RUNNING]" 9 "''a''" False]
  by auto

lemma move_task_effect_witness:
  "\<exists>p s'. move_task_to_session 9 ''t1'' ''b'' (sample_store [sample_task ''t1'' ''a'' 0 QUEUED]) =
     (Inr (Moved ((sample_task ''t1'' ''a'' 0 QUEUED)\<lparr>t_session := ''b'', t_position := p, t_updated_at := 9\<rparr>)), s')"
proof -
  let ?s = "sample_store [sample_task ''t1'' ''a'' 0 QUEUED]"
  obtain res s' where r: "move_task_to_session 9 ''t1'' ''b'' ?s = (res, s')"
    by (cases "move_task_to_session 9 ''t1'' ''b'' ?s")
  have "store_wf ?s" by simp
  from move_task_effect [OF this r] show ?thesis using r by auto
qed

lemma reorder_tasks_permutation_witness:
  "\<exists>s'. reorder_tasks 9 ''a'' [''t2'', ''t1'']
       (sample_store [sample_task ''t1'' ''a'' 0 QUEUED, sample_task ''t2'' ''a'' 1 QUEUED]) = (Inr (), s')
     \<and> find_task s' ''t2'' = Some (place 9 0 (sample_task ''t2'' ''a'' 1 QUEUED))"
proof -
  let ?s = "sample_store [sample_task ''t1'' ''a'' 0 QUEUED, sample_task ''t2'' ''a'' 1 QUEUED]"
  have 1: "store_wf ?s" "distinct [''t2'', ''t1'']" by simp_all
  have 2: "set [''t2'', ''t1''] = t_id ` set (filter (\<lambda>t. t_session t = ''a'' \<and> t_status t = QUEUED) (s_tasks ?s))"
    by auto
  from reorder_tasks_permutation [OF 1 2, of 9] obtain s' where
    "reorder_tasks 9 ''a'' [''t2'', ''t1''] ?s = (Inr (), s')"
    "\<forall>i<length [''t2'', ''t1'']. \<forall>t. find_task ?s ([''t2'', ''t1''] ! i) = Some t \<longrightarrow>
       find_task s' ([''t2'', ''t1''] ! i) = Some (place 9 (sort (map t_position
         (filter (\<lambda>t. t_session t = ''a'' \<and> t_status t = QUEUED) (s_tasks ?s))) ! i) t)" by blast
  moreover from this(2) have "find_task s' ''t2'' = Some (place 9 0 (sample_task ''t2'' ''a'' 1 QUEUED))"
    by (auto dest!: spec [of _ 0])
  ultimately show ?thesis by blast
qed

lemma reorder_tasks_partial_collides_witness:
  "\<exists>s' b'. reorder_tasks 9 ''a'' [''t2'']
       (sample_store [sample_task ''t1'' ''a'' 0 QUEUED, sample_task ''t2'' ''a'' 1 QUEUED]) = (Inr (), s')
     \<and> find_task s' ''t1'' = Some (sample_task ''t1'' ''a'' 0 QUEUED)
     \<and> find_task s' ''t2'' = Some b' \<and> t_position b' = 0"
  using reorder_tasks_partial_collides
    [of "sample_store [sample_task ''t1'' ''a'' 0 QUEUED, sample_task ''t2'' ''a'' 1 QUEUED]"
      "sample_task ''t1'' ''a'' 0 QUEUED" "sample_task ''t2'' ''a'' 1 QUEUED" "''a''" 9]
  by auto

lemma retry_task_contract_witness:
  "\<exists>y s'. retry_task 9 ''t1'' (sample_store [sample_task ''t1'' ''a'' 0 FAILED]) = (Inr y, s') \<and> t_status y = QUEUED"
  using retry_task_contract
    [of "sample_store [sample_task ''t1'' ''a'' 0 FAILED]" "''t1''" "sample_task ''t1'' ''a'' 0 FAILED" 9]
  by (auto simp: active_harness_run_for_def)

lemma reassign_task_contract_witness:
  "\<exists>y s'. reassign_task 9 ''t1'' ''b'' ''rebalance'' ''ops'' (sample_store [sample_task ''t1'' ''a'' 0 BLOCKED])
     = (Inr (Some y), s') \<and> t_status y = QUEUED \<and> t_session y = ''b''"
  using reassign_task_contract
    [of "sample_store [sample_task ''t1'' ''a'' 0 BLOCKED]" "''t1''" "sample_task ''t1'' ''a'' 0 BLOCKED" 9
      "''b''" "''rebalance''" "''ops''"]
  by auto

lemma reassign_keeps_cleanup_pending_witness:
  "\<exists>y s'. reassign_task 9 ''t1'' ''b'' ''move'' ''ops'' (sample_store [(sample_task ''t1'' ''a'' 0 FAILED)
       \<lparr>t_metadata := [(METADATA_KEY, JObj [(''state'', JStr CLEANUP_PENDING)])]\<rparr>]) = (Inr (Some y), s')
     \<and> t_status y = QUEUED \<and> cleanup_state (t_metadata y) = JStr CLEANUP_PENDING"
  using reassign_keeps_cleanup_pending
    [of "sample_store [(sample_task ''t1'' ''a'' 0 FAILED)
       \<lparr>t_metadata := [(METADATA_KEY, JObj [(''state'', JStr CLEANUP_PENDING)])]\<rparr>]" "''t1''"
      "(sample_task ''t1'' ''a'' 0 FAILED)\<lparr>t_metadata := [(METADATA_KEY, JObj [(''state'', JStr CLEANUP_PENDING)])]\<rparr>"
      9 "''b''" "''move''" "''ops''"]
  by (auto simp: active_harness_run_for_def cleanup_state_def)

lemma uncertain_has_no_waiting_since_witness:
  "\<exists>y s'. mark_dispatch_uncertain 9 ''t1'' ''no answer'' (sample_store [sample_task ''t1'' ''a'' 0 DISPATCHING])
     = (Inr y, s') \<and> t_status y = DISPATCH_UNCERTAIN
     \<and> waiting_since s' ''t1'' (status_name DISPATCH_UNCERTAIN) = None"
proof -
  let ?s = "sample_store [sample_task ''t1'' ''a'' 0 DISPATCHING]"
  have wf: "store_wf ?s" and f: "find_task ?s ''t1'' = Some (sample_task ''t1'' ''a'' 0 DISPATCHING)" by simp_all
  from transition_task_result [OF wf f, of DISPATCH_UNCERTAIN "[Uncertain_or_waiting_since (Some 9)]" 9
      "''SUBMIT_UNKNOWN''" "Some ''no answer''"]
  obtain y s' where r: "mark_dispatch_uncertain 9 ''t1'' ''no answer'' ?s = (Inr y, s')"
    by (auto simp: edge_allowed_def is_valid_transition_def mark_dispatch_uncertain_def)
  from uncertain_has_no_waiting_since [OF r] r show ?thesis by (simp add: waiting_since_def)
qed

lemma move_and_resume_two_running_witness:
  "\<exists>y s1 s2 t' u'. move_task_to_session 9 ''t1'' ''b''
       (sample_store [(sample_started ''t1'' ''a'' 0 PAUSED)\<lparr>t_paused_from_status := Some RUNNING\<rparr>,
          sample_started ''t2'' ''b'' 0 RUNNING]) = (Inr (Moved y), s1)
     \<and> resume_lane 10 ''b'' s1 = (Inr (), s2)
     \<and> find_task s2 ''t1'' = Some t' \<and> t_session t' = ''b'' \<and> t_status t' = RUNNING
     \<and> find_task s2 ''t2'' = Some u' \<and> t_session u' = ''b'' \<and> t_status u' = RUNNING"
proof -
  let ?t = "(sample_started ''t1'' ''a'' 0 PAUSED)\<lparr>t_paused_from_status := Some RUNNING\<rparr>"
  have "has_evidence ?t" by (simp add: has_evidence_def)
  then show ?thesis
    using move_and_resume_two_running
      [of "sample_store [?t, sample_started ''t2'' ''b'' 0 RUNNING]" "''t1''" ?t "''b''" "''t2''"
        "sample_started ''t2'' ''b'' 0 RUNNING" 9 10]
    by fastforce
qed

end
