(* ===== verification/QueueProjects.thy ===== *)
theory QueueProjects
  imports QueueCrud
begin

text \<open>
  The project dimension of \<open>queue_store.py\<close>: project-scoped reads over tasks, lanes and
  events, the project and analysis columns, the backfill of missing projects, the live
  monitor's read, and the two side tables of the project feeder: its packets (one live
  packet per worker, one per request key) and the long-task watches.
\<close>

section \<open>Reads\<close>

definition list_tasks_for_project :: "store \<Rightarrow> string \<Rightarrow> string option \<Rightarrow> int \<Rightarrow> task list" where
  "list_tasks_for_project s pid st limit = sql_limit limit
     (sort_key (\<lambda>t. - t_priority t) (sort_key t_position
        (filter (\<lambda>t. t_project_id t = Some pid \<and> (nonempty st \<longrightarrow> status_name (t_status t) = the st))
           (s_tasks s))))"

definition lane_of_project :: "store \<Rightarrow> string \<Rightarrow> string list" where
  \<comment> \<open>the two arms of the \<open>UNION\<close>\<close>
  "lane_of_project s pid =
     map l_session (filter (\<lambda>l. l_project l = Some pid) (s_lanes s))
     @ map t_session (filter (\<lambda>t. t_project_id t = Some pid) (s_tasks s))"

definition lanes_for_project :: "store \<Rightarrow> string \<Rightarrow> string list" where
  "lanes_for_project s pid = sort (remdups (lane_of_project s pid))"

definition in_project_scope :: "store \<Rightarrow> string \<Rightarrow> event \<Rightarrow> bool" where
  \<comment> \<open>\<open>_PROJECT_EVENT_SCOPE\<close>\<close>
  "in_project_scope s pid e \<longleftrightarrow> e_session e \<in> set (lane_of_project s pid)
     \<or> (\<exists>t\<in>set (s_tasks s). t_project_id t = Some pid \<and> e_task_id e = Some (t_id t))"

definition since_ok :: "timestamp option \<Rightarrow> event \<Rightarrow> bool" where
  "since_ok since e = (case since of None \<Rightarrow> True | Some x \<Rightarrow> x \<le> e_timestamp e)"

definition project_events :: "store \<Rightarrow> string \<Rightarrow> timestamp option \<Rightarrow> int \<Rightarrow> event list" where
  "project_events s pid since limit = sql_limit limit
     (rev (filter (\<lambda>e. in_project_scope s pid e \<and> since_ok since e) (s_events s)))"

definition project_transition_counts ::
  "store \<Rightarrow> string \<Rightarrow> timestamp option \<Rightarrow> (string \<times> nat) list" where
  "project_transition_counts s pid since = counts (map (\<lambda>e. the (e_to_status e))
     (filter (\<lambda>e. in_project_scope s pid e \<and> since_ok since e \<and> e_to_status e \<noteq> None) (s_events s)))"

definition project_task_counts :: "store \<Rightarrow> string \<Rightarrow> (string \<times> nat) list" where
  "project_task_counts s pid = counts (map (\<lambda>t. status_name (t_status t))
     (filter (\<lambda>t. t_project_id t = Some pid) (s_tasks s)))"

definition SETTLED_FOR_MONITOR :: "status list" where
  "SETTLED_FOR_MONITOR = [COMPLETED, FAILED, CANCELLED, SKIPPED]"

definition live_task_rows :: "store \<Rightarrow> timestamp \<Rightarrow> int \<Rightarrow> task list" where
  \<comment> \<open>the rows whose columns the answer projects\<close>
  "live_task_rows s since limit = sql_limit (max 1 limit)
     (sort_key (\<lambda>t. - t_updated_at t)
        (filter (\<lambda>t. t_status t \<notin> set SETTLED_FOR_MONITOR \<or> since \<le> t_updated_at t) (s_tasks s)))"

definition tasks_with_statuses :: "store \<Rightarrow> status list \<Rightarrow> task list" where
  "tasks_with_statuses s sts = (if sts = [] then [] else filter (\<lambda>t. t_status t \<in> set sts) (s_tasks s))"

section \<open>Writes\<close>

definition set_task_project ::
  "timestamp \<Rightarrow> string \<Rightarrow> string option \<Rightarrow> store \<Rightarrow> (queue_error + bool) \<times> store" where
  "set_task_project now tid pid = with_connection (\<lambda>s.
     Inr (find_task s tid \<noteq> None,
          update_task tid (\<lambda>t. t\<lparr>t_project_id := pid, t_updated_at := now\<rparr>) s))"

definition set_task_analysis ::
  "timestamp \<Rightarrow> string \<Rightarrow> dict option \<Rightarrow> bool \<Rightarrow> store \<Rightarrow> (queue_error + task option) \<times> store" where
  "set_task_analysis now tid analysis merge = with_connection (\<lambda>s.
     case find_task s tid of
       None \<Rightarrow> Inr (None, s)
     | Some row \<Rightarrow>
         let given = (case analysis of None \<Rightarrow> [] | Some a \<Rightarrow> a);
             updated = (if merge then dupdate (t_analysis row) given else given);
             s1 = update_task tid (\<lambda>t. t\<lparr>t_analysis := updated, t_updated_at := now\<rparr>) s;
             s2 = log_event now (t_session row) (Some tid) ''ANALYSIS_UPDATED'' None s1
         in Inr (find_task s2 tid, s2))"

record backfill_report =
  f_dry_run :: bool
  f_candidates :: nat
  f_planned :: nat
  f_unresolved :: nat
  f_by_project :: "(string \<times> nat) list"

definition planned_projects :: "(string \<Rightarrow> string option) \<Rightarrow> store \<Rightarrow> (string \<times> string) list" where
  \<comment> \<open>a resolver that raises reads as one that answers None\<close>
  "planned_projects resolver s = map (\<lambda>t. (t_id t, the (resolver (t_session t))))
     (filter (\<lambda>t. t_project_id t = None \<and> nonempty (resolver (t_session t))) (s_tasks s))"

definition fill_project :: "timestamp \<Rightarrow> string \<times> string \<Rightarrow> store \<Rightarrow> store" where
  "fill_project now item s = s\<lparr>s_tasks := update_where (\<lambda>t. t_id t = fst item \<and> t_project_id t = None)
     (\<lambda>t. t\<lparr>t_project_id := Some (snd item), t_updated_at := now\<rparr>) (s_tasks s)\<rparr>"

definition backfill_project_ids ::
  "timestamp \<Rightarrow> (string \<Rightarrow> string option) \<Rightarrow> bool \<Rightarrow> store \<Rightarrow> (queue_error + backfill_report) \<times> store" where
  "backfill_project_ids now resolver dry_run s =
     (let rows = filter (\<lambda>t. t_project_id t = None) (s_tasks s);
          planned = planned_projects resolver s;
          s' = (if \<not> dry_run \<and> planned \<noteq> []
                then snd (with_connection (\<lambda>s. Inr ((), fold (fill_project now) planned s)) s) else s)
      in (Inr \<lparr>f_dry_run = dry_run, f_candidates = length rows, f_planned = length planned,
              f_unresolved = length (filter (\<lambda>t. \<not> nonempty (resolver (t_session t))) rows),
              f_by_project = counts (map snd planned)\<rparr>, s'))"

section \<open>Feeder packets\<close>

record packet =
  pk_id :: string
  pk_project_id :: string
  pk_lane :: string
  pk_worker :: string
  pk_task_ids :: "string list"
  pk_task_shas :: dict
  pk_request_key :: string
  pk_state :: string
  pk_lease_expires_at :: "timestamp option"
  pk_heartbeat_at :: "timestamp option"
  pk_checkpoint :: dict
  pk_telemetry :: dict
  pk_created_at :: timestamp
  pk_updated_at :: timestamp

definition packet_live :: "string \<Rightarrow> packet \<Rightarrow> bool" where
  "packet_live worker p \<longleftrightarrow> pk_worker p = worker \<and> (pk_state p = ''RESERVED'' \<or> pk_state p = ''RUNNING'')"

definition project_packet :: "packet list \<Rightarrow> string \<Rightarrow> packet option" where
  "project_packet ps pid = List.find (\<lambda>p. pk_id p = pid) ps"

definition project_packet_by_request_key :: "packet list \<Rightarrow> string \<Rightarrow> packet option" where
  "project_packet_by_request_key ps key = List.find (\<lambda>p. pk_request_key p = key) ps"

definition active_project_packet :: "packet list \<Rightarrow> string \<Rightarrow> packet option" where
  \<comment> \<open>\<open>ORDER BY created_at DESC LIMIT 1\<close>\<close>
  "active_project_packet ps worker =
     (case sort_key (\<lambda>p. - pk_created_at p) (filter (packet_live worker) ps) of [] \<Rightarrow> None | p # _ \<Rightarrow> Some p)"

datatype reservation =
  Reserved packet
| Deduplicated packet
| Worker_packet_active packet

definition reserve_project_packet ::
  "timestamp \<Rightarrow> string \<Rightarrow> string \<Rightarrow> string \<Rightarrow> string \<Rightarrow> string list \<Rightarrow> dict \<Rightarrow> string
   \<Rightarrow> timestamp option \<Rightarrow> dict \<Rightarrow> packet list \<Rightarrow> (queue_error + reservation) \<times> packet list" where
  "reserve_project_packet now pid proj lane_name worker task_ids task_shas key lease telemetry ps =
     (case project_packet_by_request_key ps key of
        Some p \<Rightarrow> (Inr (Deduplicated p), ps)
      | None \<Rightarrow> (case active_project_packet ps worker of
          Some p \<Rightarrow> (Inr (Worker_packet_active p), ps)
        | None \<Rightarrow>
            if project_packet ps pid \<noteq> None then (Inl IntegrityError, ps)
            else let p = \<lparr>pk_id = pid, pk_project_id = proj, pk_lane = lane_name, pk_worker = worker,
                   pk_task_ids = task_ids, pk_task_shas = task_shas, pk_request_key = key,
                   pk_state = ''RESERVED'', pk_lease_expires_at = lease, pk_heartbeat_at = Some now,
                   pk_checkpoint = [], pk_telemetry = telemetry, pk_created_at = now, pk_updated_at = now\<rparr>
                 in (Inr (Reserved p), ps @ [p])))"

definition set_if :: "'a option \<Rightarrow> ('a \<Rightarrow> 'r \<Rightarrow> 'r) \<Rightarrow> 'r \<Rightarrow> 'r" where
  \<comment> \<open>\<open>if v is not None: fields.append(...)\<close>\<close>
  "set_if v f r = (case v of None \<Rightarrow> r | Some x \<Rightarrow> f x r)"

definition packet_update ::
  "timestamp \<Rightarrow> string option \<Rightarrow> dict option \<Rightarrow> dict option \<Rightarrow> timestamp option \<Rightarrow> packet \<Rightarrow> packet" where
  "packet_update now state checkpoint telemetry lease p =
     set_if lease (\<lambda>v r. r\<lparr>pk_lease_expires_at := Some v\<rparr>)
       (set_if telemetry (\<lambda>v r. r\<lparr>pk_telemetry := v\<rparr>)
         (set_if checkpoint (\<lambda>v r. r\<lparr>pk_checkpoint := v\<rparr>)
           (set_if state (\<lambda>v r. r\<lparr>pk_state := v\<rparr>)
             (p\<lparr>pk_heartbeat_at := Some now, pk_updated_at := now\<rparr>))))"

definition update_project_packet ::
  "timestamp \<Rightarrow> string \<Rightarrow> string option \<Rightarrow> dict option \<Rightarrow> dict option \<Rightarrow> timestamp option
   \<Rightarrow> packet list \<Rightarrow> packet option \<times> packet list" where
  "update_project_packet now pid state checkpoint telemetry lease ps =
     (let ps' = update_where (\<lambda>p. pk_id p = pid) (packet_update now state checkpoint telemetry lease) ps
      in (project_packet ps' pid, ps'))"

section \<open>Long-task watches\<close>

record watch =
  w_task_id :: string
  w_submission_id :: string
  w_request_key :: string
  w_session :: string
  w_expected_minutes :: "int option"
  w_columns :: dict
  \<comment> \<open>the columns a caller may set later, by name\<close>
  w_created_at :: timestamp
  w_updated_at :: timestamp

definition long_task_watch :: "watch list \<Rightarrow> string \<Rightarrow> watch option" where
  "long_task_watch ws tid = List.find (\<lambda>w. w_task_id w = tid) ws"

definition ensure_long_task_watch ::
  "timestamp \<Rightarrow> string \<Rightarrow> string \<Rightarrow> string \<Rightarrow> string \<Rightarrow> string option \<Rightarrow> int option
   \<Rightarrow> watch list \<Rightarrow> (queue_error + watch option) \<times> watch list" where
  \<comment> \<open>\<open>ON CONFLICT(task_id) DO UPDATE\<close>; a submission id or request key another task already
     uses violates its UNIQUE constraint\<close>
  "ensure_long_task_watch now tid sub key sess node minutes ws =
     (if long_task_watch ws tid \<noteq> None
      then let ws' = update_where (\<lambda>w. w_task_id w = tid) (\<lambda>w. w\<lparr>w_updated_at := now,
                  w_columns := (case node of None \<Rightarrow> w_columns w
                     | Some n \<Rightarrow> dset (w_columns w) ''node_id'' (JStr n))\<rparr>) ws
           in (Inr (long_task_watch ws' tid), ws')
      else if \<exists>w\<in>set ws. w_submission_id w = sub \<or> w_request_key w = key then (Inl IntegrityError, ws)
      else let ws' = ws @ [\<lparr>w_task_id = tid, w_submission_id = sub, w_request_key = key, w_session = sess,
                  w_expected_minutes = minutes,
                  w_columns = [(''node_id'', opt_json node), (''state'', JStr ''EXECUTION_START_PENDING''),
                    (''recovery_enter_count'', JInt 0), (''resume_count'', JInt 0)],
                  w_created_at = now, w_updated_at = now\<rparr>]
           in (Inr (long_task_watch ws' tid), ws'))"

definition WATCH_ALLOWED :: "string list" where
  "WATCH_ALLOWED = [''state'', ''execution_started_at'', ''first_checkpoint_at'', ''last_progress_at'',
     ''recovery_enter_count'', ''resume_count'', ''output_hash'', ''status_hash'', ''blocker'', ''reason'',
     ''watch_lease_expires_at'', ''node_id'']"

definition update_long_task_watch :: "timestamp \<Rightarrow> string \<Rightarrow> dict \<Rightarrow> watch list \<Rightarrow> bool \<times> watch list" where
  "update_long_task_watch now tid given ws =
     (let values = filter (\<lambda>kv. fst kv \<in> set WATCH_ALLOWED) given
      in if values = [] then (False, ws)
         else (long_task_watch ws tid \<noteq> None,
               update_where (\<lambda>w. w_task_id w = tid)
                 (\<lambda>w. w\<lparr>w_columns := dupdate (w_columns w) values, w_updated_at := now\<rparr>) ws))"

definition WATCH_SETTLED :: "json list" where
  "WATCH_SETTLED = map JStr [''CHECKPOINTED'', ''BLOCKED'', ''DONE'', ''FAILED'', ''STUCK'']"

definition list_long_task_watches :: "watch list \<Rightarrow> bool \<Rightarrow> watch list" where
  "list_long_task_watches ws active_only = sort_key (\<lambda>w. - w_updated_at w)
     (filter (\<lambda>w. active_only \<longrightarrow> dget (w_columns w) ''state'' \<notin> set WATCH_SETTLED) ws)"

section \<open>Every write keeps the contract\<close>

context store_relation
begin

lemma R_set_task_project:
  "set_task_project now tid pid s = (r, s') \<Longrightarrow> s_pending s = [] \<Longrightarrow> R s s'"
  unfolding set_task_project_def
  by (erule R_connection) (auto simp: same_identity_def intro!: R_annotate_task)

lemma R_set_task_analysis:
  "set_task_analysis now tid a m s = (r, s') \<Longrightarrow> s_pending s = [] \<Longrightarrow> R s s'"
  unfolding set_task_analysis_def
  by (erule R_connection)
     (auto simp: Let_def R_refl same_identity_def split: option.splits intro!: R_trans [OF R_annotate_task R_event])

lemma R_fill_project: "R s (fold (fill_project now) items s)"
proof (induction items arbitrary: s)
  case Nil
  then show ?case by (simp add: R_refl)
next
  case (Cons item items)
  have "R s (fill_project now item s)"
    unfolding fill_project_def by (rule R_note) (auto intro!: annotate_plain simp: same_identity_def)
  with Cons.IH show ?case using R_trans by simp
qed

lemma R_backfill: "backfill_project_ids now resolver dry s = (r, s') \<Longrightarrow> R s s'"
  using R_trans [OF R_fill_project R_drain]
  by (auto simp: backfill_project_ids_def Let_def with_connection_def R_refl split: if_splits)

end

section \<open>The backfill\<close>

lemma fill_project_rows:
  assumes "store_wf s" and "distinct (map fst items)"
    and "\<And>k v. (k, v) \<in> set items \<Longrightarrow> \<exists>x\<in>set (s_tasks s). t_id x = k \<and> t_project_id x = None"
  shows "s_tasks (fold (fill_project now) items s) = map (\<lambda>x. case map_of items (t_id x) of
      None \<Rightarrow> x | Some v \<Rightarrow> x\<lparr>t_project_id := Some v, t_updated_at := now\<rparr>) (s_tasks s)"
  using assms
proof (induction items arbitrary: s)
  case Nil
  then show ?case by simp
next
  case (Cons kv items)
  obtain k v where kv: "kv = (k, v)" by (cases kv)
  let ?s = "fill_project now (k, v) s"
  have t: "s_tasks ?s = update_where (\<lambda>t. t_id t = k \<and> t_project_id t = None)
     (\<lambda>t. t\<lparr>t_project_id := Some v, t_updated_at := now\<rparr>) (s_tasks s)" by (simp add: fill_project_def)
  have ids: "map t_id (s_tasks ?s) = map t_id (s_tasks s)" unfolding t by (rule map_update_where_same) simp
  have wf: "store_wf ?s" using Cons.prems(1) ids by (simp add: store_wf_def)
  have k: "k \<notin> fst ` set items" using Cons.prems(2) kv by simp
  have "\<exists>x\<in>set (s_tasks ?s). t_id x = a \<and> t_project_id x = None" if "(a, b) \<in> set items" for a b
  proof -
    from that k have "a \<noteq> k" by force
    from Cons.prems(3) [of a b] that kv obtain x where "x \<in> set (s_tasks s)" "t_id x = a" "t_project_id x = None" by auto
    with \<open>a \<noteq> k\<close> show ?thesis unfolding t set_update_where by (intro bexI [of _ x]) (auto simp: set_update_where)
  qed
  with Cons.IH [OF wf] Cons.prems(2) kv have IH: "s_tasks (fold (fill_project now) items ?s) = map (\<lambda>x. case map_of items (t_id x) of
      None \<Rightarrow> x | Some v \<Rightarrow> x\<lparr>t_project_id := Some v, t_updated_at := now\<rparr>) (s_tasks ?s)" by simp
  have none: "t_project_id x = None" if "x \<in> set (s_tasks s)" "t_id x = k" for x
  proof -
    from Cons.prems(3) [of k v] kv obtain y where y: "y \<in> set (s_tasks s)" "t_id y = k" "t_project_id y = None" by auto
    have "x = y"
      by (rule wf_row_unique [OF Cons.prems(1) wf_find_task [OF Cons.prems(1) y(1)] that(1)]) (simp add: y(2) that(2))
    with y(3) show ?thesis by simp
  qed
  have mk: "map_of items k = None" using k by (simp add: map_of_eq_None_iff)
  have "s_tasks (fold (fill_project now) (kv # items) s) = s_tasks (fold (fill_project now) items ?s)" by (simp add: kv)
  also have "\<dots> = map (\<lambda>x. case map_of (kv # items) (t_id x) of
      None \<Rightarrow> x | Some v \<Rightarrow> x\<lparr>t_project_id := Some v, t_updated_at := now\<rparr>) (s_tasks s)"
    unfolding IH t update_where_def map_map
    by (rule map_cong [OF refl]) (use none mk in \<open>auto simp: kv split: option.splits\<close>)
  finally show ?case .
qed

definition filled :: "timestamp \<Rightarrow> (string \<Rightarrow> string option) \<Rightarrow> task \<Rightarrow> task" where
  "filled now resolver x = (if t_project_id x = None \<and> nonempty (resolver (t_session x))
     then x\<lparr>t_project_id := resolver (t_session x), t_updated_at := now\<rparr> else x)"

lemma planned_map_of:
  assumes "store_wf s" and "x \<in> set (s_tasks s)"
  shows "map_of (planned_projects resolver s) (t_id x) =
    (if t_project_id x = None \<and> nonempty (resolver (t_session x)) then resolver (t_session x) else None)"
proof -
  let ?p = "\<lambda>t. t_project_id t = None \<and> nonempty (resolver (t_session t))"
  have d: "distinct (map t_id (filter ?p (s_tasks s)))"
    using assms(1) by (simp add: store_wf_def distinct_map_filter)
  show ?thesis
  proof (cases "?p x")
    case True
    then have "(t_id x, the (resolver (t_session x))) \<in> set (planned_projects resolver s)"
      using assms(2) by (auto simp: planned_projects_def)
    moreover have "distinct (map fst (planned_projects resolver s))" using d by (simp add: planned_projects_def comp_def)
    ultimately show ?thesis using True by (auto simp: nonempty_def)
  next
    case False
    have "t_id x \<notin> fst ` set (planned_projects resolver s)"
    proof
      assume "t_id x \<in> fst ` set (planned_projects resolver s)"
      then obtain z where z: "z \<in> set (s_tasks s)" "?p z" "t_id z = t_id x" by (auto simp: planned_projects_def)
      have "z = x" by (rule wf_row_unique [OF assms(1) wf_find_task [OF assms(1,2)] z(1,3)])
      with z(2) False show False by simp
    qed
    then have "map_of (planned_projects resolver s) (t_id x) = None" by (simp add: map_of_eq_None_iff)
    with False show ?thesis by (simp only: if_False)
  qed
qed

lemma filter_partition: "length (filter (\<lambda>t. p t \<and> q t) xs) + length (filter (\<lambda>t. p t \<and> \<not> q t) xs) = length (filter p xs)"
  by (induction xs) auto

text \<open>
  The project backfill accounts for every task without a project (planned or
  unresolved, and the per-project counts add up), writes nothing on a dry run, and
  otherwise fills exactly the planned rows with what the resolver said, never touching a
  task that already has a project.
\<close>

theorem backfill_project_ids_safe:
  assumes "store_wf s" and "backfill_project_ids now resolver dry s = (Inr r, s')"
  shows "f_planned r + f_unresolved r = f_candidates r
    \<and> sum_list (map snd (f_by_project r)) = f_planned r
    \<and> (\<forall>x\<in>set (s_tasks s). find_task s' (t_id x) = Some
        (if \<not> dry \<and> t_project_id x = None \<and> nonempty (resolver (t_session x))
         then x\<lparr>t_project_id := resolver (t_session x), t_updated_at := now\<rparr> else x))"
proof -
  let ?items = "planned_projects resolver s"
  have len: "length ?items = length (filter (\<lambda>t. t_project_id t = None \<and> nonempty (resolver (t_session t))) (s_tasks s))"
    by (simp add: planned_projects_def)
  have 1: "f_planned r + f_unresolved r = f_candidates r"
    using assms(2) filter_partition [of "\<lambda>t. t_project_id t = None" "\<lambda>t. nonempty (resolver (t_session t))" "s_tasks s"]
    by (auto simp: backfill_project_ids_def Let_def len conj_commute)
  have 2: "sum_list (map snd (f_by_project r)) = f_planned r"
    using assms(2) by (auto simp: backfill_project_ids_def Let_def sum_counts)
  have "distinct (map fst ?items)"
    using assms(1) by (simp add: planned_projects_def comp_def store_wf_def distinct_map_filter)
  moreover have "\<exists>x\<in>set (s_tasks s). t_id x = k \<and> t_project_id x = None" if "(k, v) \<in> set ?items" for k v
    using that by (auto simp: planned_projects_def)
  ultimately have "s_tasks (fold (fill_project now) ?items s) = map (\<lambda>x. case map_of ?items (t_id x) of
      None \<Rightarrow> x | Some v \<Rightarrow> x\<lparr>t_project_id := Some v, t_updated_at := now\<rparr>) (s_tasks s)"
    by (rule fill_project_rows [OF assms(1)])
  also have "\<dots> = map (filled now resolver) (s_tasks s)"
    by (rule map_cong [OF refl]) (auto simp: planned_map_of [OF assms(1)] filled_def nonempty_def)
  finally have "s_tasks (fold (fill_project now) ?items s) = map (filled now resolver) (s_tasks s)" .
  then have t: "s_tasks s' = map (\<lambda>x. if dry then x else filled now resolver x) (s_tasks s)"
    using assms(2) by (cases dry; cases "?items = []")
      (simp_all add: backfill_project_ids_def Let_def with_connection_def split: if_splits, auto)
  have "map t_id (s_tasks s') = map t_id (s_tasks s)" by (simp add: t filled_def)
  then have wf: "store_wf s'" using assms(1) by (simp add: store_wf_def)
  have "find_task s' (t_id x) = Some (if dry then x else filled now resolver x)" if "x \<in> set (s_tasks s)" for x
  proof -
    have "(if dry then x else filled now resolver x) \<in> set (s_tasks s')" using that by (simp add: t)
    moreover have "t_id (if dry then x else filled now resolver x) = t_id x" by (simp add: filled_def)
    ultimately show ?thesis using wf_find_task [OF wf] by metis
  qed
  with 1 2 show ?thesis by (auto simp: filled_def)
qed

section \<open>The feeder's packets\<close>

definition packets_ok :: "packet list \<Rightarrow> bool" where
  \<comment> \<open>the two unique columns, and at most one live packet per worker\<close>
  "packets_ok ps \<longleftrightarrow> distinct (map pk_id ps) \<and> distinct (map pk_request_key ps)
     \<and> (\<forall>w. length (filter (packet_live w) ps) \<le> 1)"

lemma find_first_None: "project_packet_by_request_key ps key = None \<longleftrightarrow> key \<notin> pk_request_key ` set ps"
  "project_packet ps pid = None \<longleftrightarrow> pid \<notin> pk_id ` set ps"
  by (auto simp: project_packet_by_request_key_def project_packet_def find_None_iff)

lemma active_None: "active_project_packet ps w = None \<longleftrightarrow> filter (packet_live w) ps = []"
proof -
  have "length (sort_key (\<lambda>p. - pk_created_at p) (filter (packet_live w) ps)) = length (filter (packet_live w) ps)" by simp
  then show ?thesis
    unfolding active_project_packet_def
    by (cases "sort_key (\<lambda>p. - pk_created_at p) (filter (packet_live w) ps)") auto
qed

lemma active_live: "active_project_packet ps w = Some p \<Longrightarrow> p \<in> set ps \<and> packet_live w p"
proof -
  assume a: "active_project_packet ps w = Some p"
  then have "p \<in> set (sort_key (\<lambda>p. - pk_created_at p) (filter (packet_live w) ps))"
    unfolding active_project_packet_def
    by (cases "sort_key (\<lambda>p. - pk_created_at p) (filter (packet_live w) ps)") simp_all
  then show ?thesis by simp
qed

text \<open>
  Reserving a feeder packet: a known request key answers the packet it already made; a
  worker with a live packet is refused and told which; otherwise one RESERVED packet is
  added (a reused packet id raises). Keys and ids stay unique and no worker ever has two
  live packets, and asking again with the same key changes nothing.
\<close>

theorem reserve_project_packet_exclusive:
  assumes "packets_ok ps"
    and "reserve_project_packet now pid proj lane_name worker ids shas key lease tel ps = (res, ps')"
  shows "packets_ok ps'
    \<and> (case res of Inl e \<Rightarrow> e = IntegrityError \<and> ps' = ps \<and> pid \<in> pk_id ` set ps
       | Inr (Deduplicated p) \<Rightarrow> ps' = ps \<and> p \<in> set ps \<and> pk_request_key p = key
       | Inr (Worker_packet_active p) \<Rightarrow> ps' = ps \<and> p \<in> set ps \<and> packet_live worker p
           \<and> key \<notin> pk_request_key ` set ps
       | Inr (Reserved p) \<Rightarrow> ps' = ps @ [p] \<and> packet_live worker p \<and> pk_request_key p = key \<and> pk_id p = pid
           \<and> active_project_packet ps' worker = Some p
           \<and> reserve_project_packet later pid' proj' lane' worker' ids' shas' key lease' tel' ps'
               = (Inr (Deduplicated p), ps'))"
proof (cases "project_packet_by_request_key ps key")
  case (Some p)
  then have "p \<in> set ps \<and> pk_request_key p = key"
    using find_Some_in_set [of _ ps p] by (auto simp: project_packet_by_request_key_def)
  with Some assms show ?thesis by (auto simp: reserve_project_packet_def)
next
  case key: None
  show ?thesis
  proof (cases "active_project_packet ps worker")
    case (Some p)
    have "res = Inr (Worker_packet_active p)" "ps' = ps"
      using assms(2) key Some by (simp_all add: reserve_project_packet_def)
    with key assms(1) active_live [OF Some] show ?thesis by (simp add: find_first_None)
  next
    case free: None
    show ?thesis
    proof (cases "project_packet ps pid")
      case (Some p)
      have "res = Inl IntegrityError" "ps' = ps"
        using assms(2) key free Some by (simp_all add: reserve_project_packet_def)
      with Some assms(1) find_first_None(2) [of ps pid] show ?thesis by simp
    next
      case id: None
      let ?p = "\<lparr>pk_id = pid, pk_project_id = proj, pk_lane = lane_name, pk_worker = worker,
           pk_task_ids = ids, pk_task_shas = shas, pk_request_key = key,
           pk_state = ''RESERVED'', pk_lease_expires_at = lease, pk_heartbeat_at = Some now,
           pk_checkpoint = [], pk_telemetry = tel, pk_created_at = now, pk_updated_at = now\<rparr>"
      have r: "res = Inr (Reserved ?p)" "ps' = ps @ [?p]"
        using key free id assms(2) by (simp_all add: reserve_project_packet_def Let_def)
      have live: "packet_live w ?p \<longleftrightarrow> w = worker" for w by (auto simp: packet_live_def)
      have none: "filter (packet_live worker) ps = []" using free by (simp add: active_None)
      have act: "active_project_packet ps' worker = Some ?p"
        unfolding active_project_packet_def r(2) filter_append none by (simp add: live)
      have dd: "project_packet_by_request_key ps' key = Some ?p"
        using key by (simp add: project_packet_by_request_key_def r(2) find_append)
      have "length (filter (packet_live w) ps') \<le> 1" for w
        using assms(1) none by (cases "w = worker") (auto simp: r(2) live packets_ok_def)
      then have "packets_ok ps'"
        using assms(1) key id by (auto simp: packets_ok_def r(2) find_first_None)
      with act dd live show ?thesis by (simp add: r reserve_project_packet_def)
    qed
  qed
qed

section \<open>Witnesses\<close>

lemma backfill_project_ids_safe_witness:
  "\<exists>r s'. backfill_project_ids 9 (\<lambda>x. if x = ''a'' then Some ''p'' else None) False
       (sample_store [sample_task ''t1'' ''a'' 0 QUEUED, sample_task ''t2'' ''b'' 0 QUEUED]) = (Inr r, s')
     \<and> f_planned r + f_unresolved r = f_candidates r
     \<and> (\<exists>t. find_task s' ''t1'' = Some t \<and> t_project_id t = Some ''p'')"
proof -
  let ?s = "sample_store [sample_task ''t1'' ''a'' 0 QUEUED, sample_task ''t2'' ''b'' 0 QUEUED]"
  obtain r s' where r: "backfill_project_ids 9 (\<lambda>x. if x = ''a'' then Some ''p'' else None) False ?s = (Inr r, s')"
    by (simp add: backfill_project_ids_def Let_def)
  have "t_project_id (sample_task ''t1'' ''a'' 0 QUEUED) = None" by code_simp
  then show ?thesis using backfill_project_ids_safe [OF _ r] r by (auto simp: nonempty_def)
qed

lemma reserve_project_packet_exclusive_witness:
  "\<exists>p. reserve_project_packet 9 ''p1'' ''proj'' ''lane'' ''w'' [] [] ''key'' None [] [] = (Inr (Reserved p), [p])
     \<and> active_project_packet [p] ''w'' = Some p"
proof -
  have "packets_ok []" by (simp add: packets_ok_def)
  moreover obtain p where "reserve_project_packet 9 ''p1'' ''proj'' ''lane'' ''w'' [] [] ''key'' None [] []
      = (Inr (Reserved p), [p])"
    by (simp add: reserve_project_packet_def project_packet_by_request_key_def active_project_packet_def
        project_packet_def Let_def)
  ultimately show ?thesis using reserve_project_packet_exclusive by fastforce
qed

end
