(* ===== verification/QueueClaims.thy ===== *)
theory QueueClaims
  imports QueueCrud AiReview
begin

text \<open>
  Claims and leases of \<open>queue_store.py\<close>: which task a lane may dispatch, the atomic
  claim, renewing, releasing and handing off a claim, the coordinator's decision on a
  claimed task, and the sweeps that recover claims and verifier leases nobody holds any
  more. Lease lengths are whole seconds.
\<close>

section \<open>The next task of a lane\<close>

definition dependencies_satisfied :: "store \<Rightarrow> task \<Rightarrow> bool" where
  "dependencies_satisfied s t = list_all
     (\<lambda>d. case find_task s d of None \<Rightarrow> False | Some x \<Rightarrow> t_status x = COMPLETED) (t_depends_on t)"

definition dispatch_order :: "task list \<Rightarrow> task list" where
  \<comment> \<open>\<open>ORDER BY priority DESC, position ASC\<close>\<close>
  "dispatch_order ts = sort_key (\<lambda>t. - t_priority t) (sort_key t_position ts)"

definition lane_occupied :: "store \<Rightarrow> string \<Rightarrow> bool" where
  "lane_occupied s sess \<longleftrightarrow>
     (\<exists>t\<in>set (s_tasks s). t_session t = sess \<and> t_status t \<in> set ACTIVE_STATUSES)"

definition next_dispatchable :: "store \<Rightarrow> string \<Rightarrow> task option" where
  "next_dispatchable s sess =
     (case find_lane s sess of
        None \<Rightarrow> None
      | Some l \<Rightarrow>
          if l_paused l then None
          else if lane_occupied s sess then None
          else List.find (dependencies_satisfied s)
                 (dispatch_order (filter (\<lambda>t. t_session t = sess \<and> t_status t = QUEUED) (s_tasks s))))"

definition queue_position :: "store \<Rightarrow> string \<Rightarrow> nat option" where
  "queue_position s tid =
     (case get_task s tid of
        None \<Rightarrow> None
      | Some task \<Rightarrow>
          if t_status task \<noteq> QUEUED then None
          else map_option (\<lambda>(i, _). i) (List.find (\<lambda>(_, r). t_id r = tid)
            (enumerate 1 (dispatch_order
               (filter (\<lambda>t. t_session t = t_session task \<and> t_status t = QUEUED) (s_tasks s))))))"

section \<open>Claim, renew, release, hand off\<close>

definition rolled_back :: "'a \<Rightarrow> store \<Rightarrow> (queue_error + 'a) \<times> store" where
  "rolled_back a s = (Inr a, discard_events s)"

definition claim_next_task ::
  "timestamp \<Rightarrow> string \<Rightarrow> string \<Rightarrow> string \<Rightarrow> int \<Rightarrow> store \<Rightarrow> (queue_error + task option) \<times> store" where
  \<comment> \<open>\<open>token\<close> is the fresh claim token\<close>
  "claim_next_task now token sess claimed_by lease_seconds s =
     (case next_dispatchable s sess of
        None \<Rightarrow> rolled_back None s
      | Some task \<Rightarrow> with_connection (\<lambda>s.
          and_then (transition_locked now (t_id task) (t_status task) PRECHECK ''CLAIMED'' None
                      [Claimed_by (Some claimed_by), Claim_token (Some token),
                       Lease_expires_at (Some (now + lease_seconds))] False s)
                   (\<lambda>(row, s'). Inr (Some row, s'))) s)"

definition held_claim :: "store \<Rightarrow> string \<Rightarrow> string \<Rightarrow> task option" where
  \<comment> \<open>the row with this id and this token, at a leaseable status\<close>
  "held_claim s tid token =
     List.find (\<lambda>t. t_id t = tid \<and> t_claim_token t = Some token \<and> t_status t \<in> set LEASE_STATES) (s_tasks s)"

definition renew_task_lease ::
  "timestamp \<Rightarrow> string \<Rightarrow> string \<Rightarrow> int \<Rightarrow> store \<Rightarrow> (queue_error + task option) \<times> store" where
  "renew_task_lease now tid token lease_seconds s =
     (case held_claim s tid token of
        None \<Rightarrow> rolled_back None s
      | Some _ \<Rightarrow>
          let s' = snd (with_connection (\<lambda>s. Inr ((), s\<lparr>s_tasks :=
                update_where (\<lambda>t. t_id t = tid \<and> t_claim_token t = Some token)
                  (\<lambda>t. t\<lparr>t_lease_expires_at := Some (now + lease_seconds), t_updated_at := now\<rparr>)
                  (s_tasks s)\<rparr>)) s)
          in (Inr (get_task s' tid), s'))"

definition release_task_claim ::
  "timestamp \<Rightarrow> string \<Rightarrow> string \<Rightarrow> string option \<Rightarrow> store \<Rightarrow> (queue_error + task option) \<times> store" where
  "release_task_claim now tid token reason s =
     (case held_claim s tid token of
        None \<Rightarrow> rolled_back None s
      | Some row \<Rightarrow> with_connection (\<lambda>s.
          and_then (transition_locked now tid (t_status row) QUEUED ''CLAIM_RELEASED''
                      (Some (str_or reason ''claim released by holder'')) clear_claim False s)
                   (\<lambda>(r, s'). Inr (Some r, s'))) s)"

definition opt_str :: "string option \<Rightarrow> string" where
  \<comment> \<open>\<open>str\<close> of an optional string, as an f-string prints it\<close>
  "opt_str v = (case v of None \<Rightarrow> ''None'' | Some x \<Rightarrow> x)"

definition handoff_task ::
  "timestamp \<Rightarrow> string \<Rightarrow> string \<Rightarrow> string \<Rightarrow> string \<Rightarrow> string option \<Rightarrow> string \<Rightarrow> int
   \<Rightarrow> store \<Rightarrow> (queue_error + task option) \<times> store" where
  "handoff_task now new_token tid token to_worker to_session reason lease_seconds s =
     (case held_claim s tid token of
        None \<Rightarrow> rolled_back None s
      | Some row \<Rightarrow>
          let target = str_or to_session (t_session row);
              history = t_migration_history row @
                [[(''at'', JInt now), (''event'', JStr ''handoff''),
                  (''from_worker'', opt_json (t_claimed_by row)), (''to_worker'', JStr to_worker),
                  (''from_session'', JStr (t_session row)), (''to_session'', JStr target),
                  (''reason'', JStr reason)]];
              s' = snd (with_connection (\<lambda>s. Inr ((),
                log_event now (t_session row) (Some tid) ''CLAIM_HANDOFF''
                  (Some (opt_str (t_claimed_by row) @ '' -> '' @ to_worker @ '': '' @ reason))
                  (s\<lparr>s_tasks := update_where (\<lambda>t. t_id t = tid \<and> t_claim_token t = Some token)
                     (\<lambda>t. t\<lparr>t_claimed_by := Some to_worker, t_claim_token := Some new_token,
                            t_lease_expires_at := Some (now + lease_seconds), t_session := target,
                            t_migration_history := history, t_updated_at := now\<rparr>) (s_tasks s)\<rparr>))) s)
          in (Inr (get_task s' tid), s'))"

definition lease_holder ::
  "store \<Rightarrow> string \<Rightarrow> (string \<times> string option \<times> timestamp option \<times> status \<times> string) option" where
  "lease_holder s tid = (case get_task s tid of
       None \<Rightarrow> None
     | Some t \<Rightarrow> if \<not> nonempty (t_claim_token t) then None
         else Some (t_id t, t_claimed_by t, t_lease_expires_at t, t_status t, t_session t))"

section \<open>The coordinator's decision\<close>

definition coordinator_target :: "string \<Rightarrow> status option" where
  "coordinator_target st = map_of [(''READY'', READY), (''BLOCKED'', BLOCKED), (''NEEDS_REWORK'', QUEUED),
     (''NEEDS_HUMAN'', PAUSED)] st"

definition coordinator_columns :: "timestamp \<Rightarrow> status \<Rightarrow> dict \<Rightarrow> string \<Rightarrow> task \<Rightarrow> column list" where
  "coordinator_columns now target decided reason row =
     [Coordinator_decision decided, Coordinator_reason (Some reason), Coordinator_checked_at (Some now),
      Coordinator_attempts (t_coordinator_attempts row + 1)]
     @ (if target = QUEUED \<or> target = BLOCKED then clear_claim else [])
     @ (if target = PAUSED then [Paused_from_status (Some QUEUED)] @ clear_claim else [])"

definition after_decision ::
  "timestamp \<Rightarrow> string \<Rightarrow> string \<Rightarrow> dict \<Rightarrow> task \<Rightarrow> store \<Rightarrow> queue_error + store" where
  \<comment> \<open>what follows the transition: the decision's own event, and the lane pause of NEEDS_HUMAN\<close>
  "after_decision now st reason decided row s =
     (let s' = record_event_locked now (t_session row) (Some (t_id row)) (''COORDINATOR_'' @ st)
                 (Some reason) None None decided s
      in if st = ''NEEDS_HUMAN''
         then pause_lane_locked now (t_session row) (Some (''coordinator: '' @ reason))
                (Some PAUSE_ORIGIN_COORDINATOR) s'
         else Inr s')"

definition record_coordinator_decision ::
  "timestamp \<Rightarrow> string \<Rightarrow> string \<Rightarrow> string \<Rightarrow> string list \<Rightarrow> string list \<Rightarrow> dict
   \<Rightarrow> store \<Rightarrow> (queue_error + task) \<times> store" where
  "record_coordinator_decision now tid st reason blockers required_actions evidence s =
     (let decided = [(''status'', JStr st), (''reason'', JStr reason),
                     (''blockers'', JArr (map JStr blockers)),
                     (''required_actions'', JArr (map JStr required_actions)),
                     (''evidence'', JObj evidence)]
      in case coordinator_target st of
           None \<Rightarrow> (Inl (ValueError (''unknown coordinator decision status: '' @ py_repr st)), s)
         | Some target \<Rightarrow> with_connection (\<lambda>s. case find_task s tid of
             None \<Rightarrow> Inl (KeyError (''no such task: '' @ tid))
           | Some row \<Rightarrow>
               and_then (transition_locked now tid (t_status row) target ''COORDINATOR_DECISION''
                           (Some reason) (coordinator_columns now target decided reason row) False s)
                 (\<lambda>(updated, s1). and_then (after_decision now st reason decided row s1)
                    (\<lambda>s2. Inr (updated, s2)))) s)"

section \<open>Sweeps\<close>

definition in_scope :: "string option \<Rightarrow> task \<Rightarrow> bool" where
  "in_scope sess t \<longleftrightarrow> (nonempty sess \<longrightarrow> t_session t = the sess)"

definition before :: "timestamp option \<Rightarrow> timestamp \<Rightarrow> bool" where
  \<comment> \<open>\<open>col IS NOT NULL AND col < ?\<close>\<close>
  "before v limit = (case v of None \<Rightarrow> False | Some x \<Rightarrow> x < limit)"

definition stale_claim :: "timestamp \<Rightarrow> string option \<Rightarrow> task \<Rightarrow> bool" where
  "stale_claim now sess t \<longleftrightarrow> in_scope sess t \<and> (t_status t = PRECHECK \<or> t_status t = DISPATCHING)
     \<and> before (t_lease_expires_at t) now"

definition stale_target :: "task \<Rightarrow> status" where
  "stale_target t = (if t_status t = DISPATCHING then DISPATCH_UNCERTAIN else QUEUED)"

definition stale_columns :: "timestamp \<Rightarrow> task \<Rightarrow> column list" where
  "stale_columns now t = clear_claim
     @ (if stale_target t = DISPATCH_UNCERTAIN then [Uncertain_or_waiting_since (Some now)] else [])"

definition stale_reason :: "task \<Rightarrow> string" where
  "stale_reason t = (if stale_target t = DISPATCH_UNCERTAIN
     then ''stale dispatch requires evidence-based reconciliation''
     else ''stale precheck reconciled after restart'')"

definition reconcile_stale_claims ::
  "timestamp \<Rightarrow> timestamp \<Rightarrow> string option \<Rightarrow> store \<Rightarrow> (queue_error + string list) \<times> store" where
  \<comment> \<open>\<open>now\<close> is the argument the caller may supply, \<open>clock\<close> the time stamped on the rows\<close>
  "reconcile_stale_claims clock now sess = with_connection (\<lambda>s.
     let rows = filter (stale_claim now sess) (s_tasks s)
     in and_then
          (for_each (\<lambda>row. step_locked clock (t_id row) (t_status row) (stale_target row)
             ''RECOVERED_AFTER_RESTART'' (Some (stale_reason row)) (stale_columns now row)) rows s)
          (\<lambda>s'. Inr (map t_id rows, s')))"

definition reconcile_uncertain_and_waiting ::
  "timestamp \<Rightarrow> timestamp \<Rightarrow> int \<Rightarrow> string option \<Rightarrow> store \<Rightarrow> (queue_error + string list) \<times> store" where
  "reconcile_uncertain_and_waiting clock now grace_seconds sess = with_connection (\<lambda>s.
     let rows = filter (\<lambda>t. in_scope sess t \<and> t_status t = WAITING_SESSION
                  \<and> before (t_uncertain_or_waiting_since t) (now - grace_seconds)) (s_tasks s)
     in and_then
          (for_each (\<lambda>row. step_locked clock (t_id row) WAITING_SESSION QUEUED
             ''RECONCILED_AFTER_GRACE_PERIOD''
             (Some (''WAITING_SESSION exceeded '' @ int_str grace_seconds @ ''.0s grace period''))
             (clear_claim @ [Uncertain_or_waiting_since None])) rows s)
          (\<lambda>s'. Inr (map t_id rows, s')))"

definition expired_verify_lease :: "timestamp \<Rightarrow> verify_job \<Rightarrow> bool" where
  "expired_verify_lease stamp v \<longleftrightarrow> (v_status v = VERIFY_CLAIMED \<or> v_status v = VERIFY_RUNNING)
     \<and> before (v_lease_expires_at v) stamp"

definition return_to_pool :: "timestamp \<Rightarrow> verify_job \<Rightarrow> verify_job" where
  "return_to_pool stamp v = v\<lparr>v_status := VERIFY_PENDING, v_claim_token := None,
     v_lease_expires_at := None, v_verifier := None, v_verifier_node_id := None, v_updated_at := stamp\<rparr>"

definition reclaim_job :: "timestamp \<Rightarrow> timestamp \<Rightarrow> verify_job \<Rightarrow> store \<Rightarrow> store" where
  "reclaim_job clock stamp row s = record_event_locked clock (v_session row) (Some (v_task_id row))
     ''AI_VERIFY_LEASE_RECLAIMED''
     (Some (''verifier lease expired (verifier='' @ str_or (v_verifier row) ''unknown''
            @ ''); job returned to the pool for another capable verifier''))
     (Some (verify_status_name (v_status row))) (Some ''VERIFY_PENDING'')
     [(''actor'', JStr ''ai_reconciler''), (''verify_job_id'', JStr (v_id row)),
      (''claim_count'', JInt (v_claim_count row))]
     (update_job (v_id row) (return_to_pool stamp) s)"

definition reclaim_stale_verify_leases ::
  "timestamp \<Rightarrow> timestamp \<Rightarrow> store \<Rightarrow> (queue_error + string list) \<times> store" where
  "reclaim_stale_verify_leases clock stamp = with_connection (\<lambda>s.
     let rows = filter (expired_verify_lease stamp) (s_verify_jobs s)
     in Inr (map v_id rows, fold (reclaim_job clock stamp) rows s))"

definition refused_delivery :: "dict \<Rightarrow> bool" where
  \<comment> \<open>\<open>str(verdict.get("kind") or "").upper() == "REFUSED"\<close>\<close>
  "refused_delivery metadata =
     (case as_dict (dget metadata ''delivery_verdict'') of
        None \<Rightarrow> False
      | Some v \<Rightarrow> map lower_char (if truthy (dget v ''kind'') then json_str (dget v ''kind'') else [])
                    = ''refused'')"

definition reevaluable :: "timestamp \<Rightarrow> string option \<Rightarrow> task \<Rightarrow> bool" where
  "reevaluable now sess t \<longleftrightarrow> t_status t = BLOCKED \<and> in_scope sess t
     \<and> \<not> refused_delivery (t_metadata t)
     \<and> \<not> startswith (str_or (t_last_error t) []) ''send failed:''
     \<and> \<not> startswith (str_or (t_last_error t) []) ''VERIFICATION_''
     \<and> approval_class_for_task t = None
     \<and> attempts_of t < AI_MAX_AUTOMATIC_ATTEMPTS
     \<and> backoff_seconds (attempts_of t) \<le> now - last_check t"

definition reevaluate_reason :: "task \<Rightarrow> string" where
  "reevaluate_reason t = ''re-evaluating a stale coordinator refusal after '' @ int_str (attempts_of t)
     @ '' attempt(s): '' @ take 160 (str_or (t_coordinator_reason t) ''no reason recorded'')"

definition reevaluate_one :: "timestamp \<Rightarrow> task \<Rightarrow> store \<Rightarrow> queue_error + store" where
  "reevaluate_one clock t s =
     and_then (step_locked clock (t_id t) BLOCKED QUEUED ''AI_BLOCKED_REEVALUATED''
                 (Some (reevaluate_reason t)) clear_claim s)
       (\<lambda>s'. Inr (record_event_locked clock (t_session t) (Some (t_id t)) ''AI_RECONCILED''
          (Some ''AI Review owns BLOCKED; refusal re-evaluated rather than left to expire'')
          (Some (status_name BLOCKED)) (Some (status_name QUEUED))
          [(''actor'', JStr ''ai_reconciler''), (''attempts'', JInt (attempts_of t))] s'))"

definition reevaluate_ai_owned_blocked ::
  "timestamp \<Rightarrow> timestamp \<Rightarrow> string option \<Rightarrow> store \<Rightarrow> (queue_error + string list) \<times> store" where
  "reevaluate_ai_owned_blocked clock now sess = with_connection (\<lambda>s.
     let rows = filter (reevaluable now sess) (s_tasks s)
     in and_then (for_each (reevaluate_one clock) rows s) (\<lambda>s'. Inr (map t_id rows, s')))"

section \<open>Metrics\<close>

record lane_metrics =
  m_queued_depth :: nat
  m_oldest_queued_age :: int
  m_dispatch_uncertain :: nat
  m_waiting_session :: nat

definition metrics :: "timestamp \<Rightarrow> store \<Rightarrow> string \<Rightarrow> lane_metrics" where
  \<comment> \<open>missed and dropped counts are the constant 0\<close>
  "metrics now s sess =
     (let rows = filter (\<lambda>t. t_session t = sess) (s_tasks s);
          queued = filter (\<lambda>t. t_status t = QUEUED) rows
      in \<lparr>m_queued_depth = length queued,
          m_oldest_queued_age = (case map (\<lambda>t. now - t_created_at t) queued of
             [] \<Rightarrow> 0 | a # as \<Rightarrow> fold max as a),
          m_dispatch_uncertain = length (filter (\<lambda>t. t_status t = DISPATCH_UNCERTAIN) rows),
          m_waiting_session = length (filter (\<lambda>t. t_status t = WAITING_SESSION) rows)\<rparr>)"

section \<open>Every operation keeps the contract\<close>

lemma coordinator_target_not_terminal: "coordinator_target st = Some target \<Longrightarrow> target \<notin> set TERMINAL_STATUSES"
  by (auto simp: coordinator_target_def status_groups split: if_splits)

lemma discard_idle: "s_pending s = [] \<Longrightarrow> discard_events s = s"
  by (simp add: discard_events_def)

lemma held_claim_Some:
  assumes "store_wf s" and "held_claim s tid token = Some x"
  shows "find_task s tid = Some x" "t_claim_token x = Some token" "t_status x \<in> set LEASE_STATES"
proof -
  from find_Some_in_set [OF assms(2) [unfolded held_claim_def]]
  have x: "x \<in> set (s_tasks s)" "t_id x = tid" and t: "t_claim_token x = Some token" "t_status x \<in> set LEASE_STATES"
    by auto
  show "find_task s tid = Some x" using wf_find_task [OF assms(1) x(1)] x(2) by simp
  show "t_claim_token x = Some token" "t_status x \<in> set LEASE_STATES" by (fact t)+
qed

lemma lease_not_terminal: "st \<in> set LEASE_STATES \<Longrightarrow> st \<notin> set TERMINAL_STATUSES"
  by (auto simp: status_groups)

lemma held_update:
  \<comment> \<open>updating where the token matches is updating the one row found\<close>
  assumes "store_wf s" and "held_claim s tid token = Some x"
  shows "s\<lparr>s_tasks := update_where (\<lambda>t. t_id t = tid \<and> t_claim_token t = Some token) g (s_tasks s)\<rparr>
     = update_task tid g s"
proof -
  note H = held_claim_Some [OF assms]
  have "update_where (\<lambda>t. t_id t = tid \<and> t_claim_token t = Some token) g (s_tasks s) =
      update_where (\<lambda>t. t_id t = tid) g (s_tasks s)"
    unfolding update_where_def
    by (rule map_cong [OF refl]) (use wf_row_unique [OF assms(1) H(1)] H(2) in auto)
  then show ?thesis by (simp add: update_task_def)
qed

lemma next_dispatchable_row:
  assumes "store_wf s" and "next_dispatchable s sess = Some x"
  shows "find_task s (t_id x) = Some x" "t_status x = QUEUED" "t_session x = sess"
    "dependencies_satisfied s x" "\<not> lane_occupied s sess"
    "\<exists>l. find_lane s sess = Some l \<and> \<not> l_paused l"
proof -
  let ?c = "dispatch_order (filter (\<lambda>t. t_session t = sess \<and> t_status t = QUEUED) (s_tasks s))"
  from assms(2) obtain l where l: "find_lane s sess = Some l" "\<not> l_paused l" and o: "\<not> lane_occupied s sess"
    and f: "List.find (dependencies_satisfied s) ?c = Some x"
    by (auto simp: next_dispatchable_def split: option.splits if_splits)
  from find_Some_in_set [OF f] have "x \<in> set (s_tasks s)" "t_status x = QUEUED" "t_session x = sess"
    "dependencies_satisfied s x" by (auto simp: dispatch_order_def)
  with wf_find_task [OF assms(1)] l o show "find_task s (t_id x) = Some x" "t_status x = QUEUED" "t_session x = sess"
    "dependencies_satisfied s x" "\<not> lane_occupied s sess" "\<exists>l. find_lane s sess = Some l \<and> \<not> l_paused l" by auto
qed

context store_relation
begin

lemma R_rolled_back: "rolled_back a s = (r, s') \<Longrightarrow> s_pending s = [] \<Longrightarrow> R s s'"
  by (auto simp: rolled_back_def discard_idle R_refl)

lemma R_claim:
  assumes "claim_next_task now token sess who secs s = (r, s')" and "store_wf s" and "s_pending s = []"
  shows "R s s'"
proof (cases "next_dispatchable s sess")
  case None
  then show ?thesis using assms by (auto simp: claim_next_task_def intro: R_rolled_back)
next
  case (Some x)
  note N = next_dispatchable_row [OF assms(2) Some]
  from assms(1) Some show ?thesis
    unfolding claim_next_task_def
    by simp (erule R_connection [OF _ assms(3)],
      use N in \<open>auto simp: and_then_Inr_iff status_groups intro: R_transition [OF _ assms(2)]\<close>)
qed

lemma row_note_renew:
  assumes "t_status x \<notin> set TERMINAL_STATUSES"
  shows "row_note x (x\<lparr>t_lease_expires_at := e, t_updated_at := now\<rparr>)"
  using assms by (intro row_noteI) (simp_all add: same_identity_def has_evidence_def)

lemma row_note_handoff:
  assumes "t_status x \<notin> set TERMINAL_STATUSES"
  shows "row_note x (x\<lparr>t_claimed_by := w, t_claim_token := k, t_lease_expires_at := e,
     t_session := sess, t_migration_history := h, t_updated_at := now\<rparr>)"
  using assms by (intro row_noteI) (simp_all add: same_identity_def has_evidence_def)

lemma R_renew:
  assumes "renew_task_lease now tid token secs s = (r, s')" and "store_wf s" and "s_pending s = []"
  shows "R s s'"
proof (cases "held_claim s tid token")
  case None
  then show ?thesis using assms by (auto simp: renew_task_lease_def intro: R_rolled_back)
next
  case (Some x)
  note H = held_claim_Some [OF assms(2) Some]
  have "R s (drain_events (update_task tid (\<lambda>t. t\<lparr>t_lease_expires_at := Some (now + secs), t_updated_at := now\<rparr>) s))"
    by (rule R_trans [OF R_note_row [OF assms(2) H(1)] R_drain])
       (rule row_note_renew, rule lease_not_terminal, rule H(3))
  then show ?thesis
    using assms(1) Some by (auto simp: renew_task_lease_def with_connection_def Let_def held_update [OF assms(2) Some])
qed

lemma R_release:
  assumes "release_task_claim now tid token reason s = (r, s')" and "store_wf s" and "s_pending s = []"
  shows "R s s'"
proof (cases "held_claim s tid token")
  case None
  then show ?thesis using assms by (auto simp: release_task_claim_def intro: R_rolled_back)
next
  case (Some x)
  note H = held_claim_Some [OF assms(2) Some]
  from assms(1) Some show ?thesis
    unfolding release_task_claim_def
    by simp (erule R_connection [OF _ assms(3)],
      use H in \<open>auto simp: and_then_Inr_iff status_groups intro: R_transition [OF _ assms(2)]\<close>)
qed

lemma R_handoff:
  assumes "handoff_task now new tid token w sess reason secs s = (r, s')" and "store_wf s" and "s_pending s = []"
  shows "R s s'"
proof (cases "held_claim s tid token")
  case None
  then show ?thesis using assms by (auto simp: handoff_task_def intro: R_rolled_back)
next
  case (Some x)
  note H = held_claim_Some [OF assms(2) Some]
  have "R s (drain_events (log_event now (t_session x) (Some tid) ''CLAIM_HANDOFF'' m
      (update_task tid (\<lambda>t. t\<lparr>t_claimed_by := Some w, t_claim_token := Some new,
         t_lease_expires_at := Some e, t_session := target, t_migration_history := h,
         t_updated_at := now\<rparr>) s)))" for e h target m
    by (rule R_trans [OF R_trans [OF R_note_row [OF assms(2) H(1)] R_event] R_drain])
       (rule row_note_handoff, rule lease_not_terminal, rule H(3))
  then show ?thesis
    using assms(1) Some by (auto simp: handoff_task_def with_connection_def Let_def held_update [OF assms(2) Some])
qed

lemma R_after_decision:
  assumes "after_decision now st reason d row s = Inr s'" and "store_wf s"
  shows "R s s'"
  using assms R_event R_trans [OF R_event R_pause_locked]
  by (auto simp: after_decision_def Let_def split: if_splits)

lemma R_coordinator:
  assumes "record_coordinator_decision now tid st reason bl ra ev s = (r, s')"
    and "store_wf s" and "s_pending s = []"
  shows "R s s'"
proof (cases "coordinator_target st")
  case None
  then show ?thesis using assms by (auto simp: record_coordinator_decision_def R_refl)
next
  case (Some target)
  from assms(1) show ?thesis
    unfolding record_coordinator_decision_def Let_def Some option.case
  proof (rule R_connection [OF _ assms(3)], goal_cases)
    case (1 a t)
    then obtain row ex d updated s1 where row: "find_task s tid = Some row"
      and tr: "transition_locked now tid (t_status row) target ''COORDINATOR_DECISION'' (Some reason) ex False s
        = Inr (updated, s1)" and rest: "after_decision now st reason d row s1 = Inr t"
      by (fastforce simp: and_then_Inr_iff split: option.splits)
    have "R s s1"
      by (rule R_transition [OF tr assms(2)]) (use row coordinator_target_not_terminal [OF Some] in auto)
    then show ?case using R_trans R_after_decision [OF rest] R_wf assms(2) by blast
  qed
qed

lemma R_stale_claims:
  assumes "reconcile_stale_claims clock now sess s = (r, s')" and "store_wf s" and "s_pending s = []"
  shows "R s s'"
  using assms(1) unfolding reconcile_stale_claims_def Let_def
proof (rule R_connection [OF _ assms(3)], goal_cases)
  case (1 a t)
  then have l: "for_each (\<lambda>row. step_locked clock (t_id row) (t_status row) (stale_target row)
             ''RECOVERED_AFTER_RESTART'' (Some (stale_reason row)) (stale_columns now row))
             (filter (stale_claim now sess) (s_tasks s)) s = Inr t"
    by (auto simp: and_then_Inr_iff)
  have "R s t \<and> touches_only (t_id ` set (filter (stale_claim now sess) (s_tasks s))) s t"
    by (rule R_for_each_transition [OF l assms(2) wf_filter_rows [OF assms(2)]])
      (simp_all add: status_groups stale_target_def)
  then show ?case ..
qed

lemma R_uncertain_waiting:
  assumes "reconcile_uncertain_and_waiting clock now grace sess s = (r, s')" and "store_wf s" and "s_pending s = []"
  shows "R s s'"
  using assms(1) unfolding reconcile_uncertain_and_waiting_def Let_def
proof (rule R_connection [OF _ assms(3)], goal_cases)
  case (1 a t)
  let ?p = "\<lambda>t. in_scope sess t \<and> t_status t = WAITING_SESSION
                  \<and> before (t_uncertain_or_waiting_since t) (now - grace)"
  from 1 have l: "for_each (\<lambda>row. step_locked clock (t_id row) WAITING_SESSION QUEUED
             ''RECONCILED_AFTER_GRACE_PERIOD''
             (Some (''WAITING_SESSION exceeded '' @ int_str grace @ ''.0s grace period''))
             (clear_claim @ [Uncertain_or_waiting_since None])) (filter ?p (s_tasks s)) s = Inr t"
    by (auto simp: and_then_Inr_iff)
  have "R s t \<and> touches_only (t_id ` set (filter ?p (s_tasks s))) s t"
    by (rule R_for_each_transition [OF l assms(2) wf_filter_rows [OF assms(2)]]) (simp_all add: status_groups)
  then show ?case ..
qed

lemma job_moves_pool:
  "v_status v \<in> {VERIFY_CLAIMED, VERIFY_RUNNING} \<Longrightarrow> job_moves v (return_to_pool stamp v)"
  by (auto simp: job_moves_def return_to_pool_def job_ok_def verify_groups job_path_edge)

lemma pending_name: "''VERIFY_PENDING'' = verify_status_name VERIFY_PENDING"
  by (simp add: verify_status_name_def)

lemma R_reclaim_fold:
  assumes "jobs_wf s" "distinct (map v_id rows)"
    and "\<And>r. r \<in> set rows \<Longrightarrow> find_job s (v_id r) = Some r \<and> v_status r \<in> {VERIFY_CLAIMED, VERIFY_RUNNING}"
  shows "R s (fold (reclaim_job clock stamp) rows s)"
  using assms
proof (induction rows arbitrary: s)
  case Nil
  then show ?case by (simp add: R_refl)
next
  case (Cons row rows)
  have row: "find_job s (v_id row) = Some row" "v_status row \<in> {VERIFY_CLAIMED, VERIFY_RUNNING}"
    using Cons.prems(3) by auto
  have moves: "job_moves v (return_to_pool stamp v)" if "v \<in> set (s_verify_jobs s)" "v_id v = v_id row" for v
    using wf_job_unique [OF Cons.prems(1) row(1) that] row(2) by (simp add: job_moves_pool)
  have step: "R s (reclaim_job clock stamp row s)"
    unfolding reclaim_job_def pending_name using moves by (intro R_trans [OF R_job R_job_event])
  have jobs: "s_verify_jobs (reclaim_job clock stamp row s)
      = s_verify_jobs (update_job (v_id row) (return_to_pool stamp) s)"
    by (simp add: reclaim_job_def)
  have "jobs_evolve s (update_job (v_id row) (return_to_pool stamp) s)"
    using moves by (rule jobs_evolve_update)
  with Cons.prems(1) jobs have wf: "jobs_wf (reclaim_job clock stamp row s)"
    by (simp add: jobs_evolve_def jobs_wf_def)
  have "find_job (reclaim_job clock stamp row s) (v_id r) = find_job s (v_id r)" if "r \<in> set rows" for r
  proof -
    have "v_id r \<noteq> v_id row" using Cons.prems(2) that by (auto simp: image_iff)
    moreover have "find_job (reclaim_job clock stamp row s) (v_id r)
        = find_job (update_job (v_id row) (return_to_pool stamp) s) (v_id r)"
      unfolding find_job_def jobs ..
    ultimately show ?thesis by (simp add: find_job_update return_to_pool_def option.map_ident)
  qed
  then have "R (reclaim_job clock stamp row s) (fold (reclaim_job clock stamp) rows (reclaim_job clock stamp row s))"
    using Cons.prems(2,3) by (intro Cons.IH [OF wf]) auto
  then show ?case using R_trans [OF step] by simp
qed

lemma R_reclaim:
  assumes "reclaim_stale_verify_leases clock stamp s = (r, s')" "jobs_wf s" "s_pending s = []"
  shows "R s s'"
proof (rule R_connection [OF assms(1) [unfolded reclaim_stale_verify_leases_def] assms(3)])
  fix a t assume "(let rows = filter (expired_verify_lease stamp) (s_verify_jobs s)
      in Inr (map v_id rows, fold (reclaim_job clock stamp) rows s)) = (Inr (a, t) :: _ + _)"
  then have t: "t = fold (reclaim_job clock stamp) (filter (expired_verify_lease stamp) (s_verify_jobs s)) s"
    by (simp add: Let_def)
  show "R s t"
    unfolding t using wf_filter_jobs [OF assms(2)]
    by (intro R_reclaim_fold [OF assms(2)]) (auto simp: expired_verify_lease_def)
qed

lemma R_reevaluate:
  assumes "reevaluate_ai_owned_blocked clock now sess s = (r, s')" and "store_wf s" and "s_pending s = []"
  shows "R s s'"
  using assms(1) unfolding reevaluate_ai_owned_blocked_def Let_def
proof (rule R_connection [OF _ assms(3)], goal_cases)
  case (1 a t)
  then have l: "for_each (reevaluate_one clock) (filter (reevaluable now sess) (s_tasks s)) s = Inr t"
    by (auto simp: and_then_Inr_iff)
  have "R s t \<and> touches_only (t_id ` set (filter (reevaluable now sess) (s_tasks s))) s t"
  proof (rule R_for_each_rows [OF l assms(2) wf_filter_rows [OF assms(2)]])
    fix x u v assume x: "x \<in> set (filter (reevaluable now sess) (s_tasks s))" "store_wf u"
      "find_task u (t_id x) = Some x" "reevaluate_one clock x u = Inr v"
    from x(4) obtain row w where w: "transition_locked clock (t_id x) BLOCKED QUEUED ''AI_BLOCKED_REEVALUATED''
        (Some (reevaluate_reason x)) clear_claim False u = Inr (row, w)"
      and v: "v = record_event_locked clock (t_session x) (Some (t_id x)) ''AI_RECONCILED''
          (Some ''AI Review owns BLOCKED; refusal re-evaluated rather than left to expire'')
          (Some (status_name BLOCKED)) (Some (status_name QUEUED))
          [(''actor'', JStr ''ai_reconciler''), (''attempts'', JInt (attempts_of x))] w"
      unfolding reevaluate_one_def by (elim and_then_InrE) (auto simp: step_locked_Inr)
    have "R u w" by (rule R_transition [OF w x(2)]) (use x in \<open>auto simp: reevaluable_def status_groups\<close>)
    moreover have "R w v"
    proof -
      have "find_task w (t_id x) = Some (final_row clock BLOCKED QUEUED (Some (reevaluate_reason x)) clear_claim x)"
        using find_task_final [OF w x(2)] x(3) by simp
      from R_echo [OF this] show ?thesis unfolding v by simp
    qed
    ultimately show "R u v \<and> touches_only {t_id x} u v"
      using v transition_locked_touches [OF w x(2)] by (auto intro: R_trans touches_only_trans)
  qed
  then show ?case ..
qed

end

section \<open>Which task is next\<close>

lemma sorted_by_groups:
  fixes f :: "'a \<Rightarrow> 'k::linorder"
  assumes "sorted (map f xs)" and "\<And>k. sorted_wrt Q (filter (\<lambda>y. f y = k) xs)"
  shows "sorted_wrt (\<lambda>a b. f a < f b \<or> f a = f b \<and> Q a b) xs"
  using assms
proof (induction xs)
  case Nil
  then show ?case by simp
next
  case (Cons x xs)
  have "sorted_wrt Q (filter (\<lambda>y. f y = k) xs)" for k
    using Cons.prems(2) [of k] by (simp split: if_splits)
  with Cons have "sorted_wrt (\<lambda>a b. f a < f b \<or> f a = f b \<and> Q a b) xs" by simp
  moreover have "f x < f y \<or> f x = f y \<and> Q x y" if "y \<in> set xs" for y
  proof (cases "f x = f y")
    case True
    then show ?thesis using Cons.prems(2) [of "f x"] that by auto
  next
    case False
    then show ?thesis using Cons.prems(1) that by (auto simp: order_le_less)
  qed
  ultimately show ?case by simp
qed

definition goes_before :: "task \<Rightarrow> task \<Rightarrow> bool" where
  "goes_before a b \<longleftrightarrow> t_priority b < t_priority a \<or> t_priority a = t_priority b \<and> t_position a \<le> t_position b"

lemma dispatch_order_sorted: "sorted_wrt goes_before (dispatch_order ts)"
proof -
  let ?xs = "sort_key (\<lambda>t. - t_priority t) (sort_key t_position ts)"
  have "sorted_wrt (\<lambda>a b. t_position a \<le> t_position b) (filter (\<lambda>y. - t_priority y = k) ?xs)" for k
  proof -
    have "filter (\<lambda>y. - t_priority y = k) ?xs = filter (\<lambda>y. - t_priority y = k) (sort_key t_position ts)"
      by (rule sort_key_stable)
    moreover have "sorted_wrt (\<lambda>a b. t_position a \<le> t_position b) (sort_key t_position ts)"
      using sorted_sort_key [of t_position ts] by (simp add: sorted_map)
    ultimately show ?thesis by (simp add: sorted_wrt_filter)
  qed
  then have "sorted_wrt (\<lambda>a b. - t_priority a < - t_priority b
      \<or> - t_priority a = - t_priority b \<and> t_position a \<le> t_position b) ?xs"
    by (intro sorted_by_groups) simp_all
  then show ?thesis unfolding dispatch_order_def by (rule sorted_wrt_mono_rel [rotated]) (auto simp: goes_before_def)
qed

definition ready_in :: "store \<Rightarrow> string \<Rightarrow> task \<Rightarrow> bool" where
  "ready_in s sess t \<longleftrightarrow> t \<in> set (s_tasks s) \<and> t_session t = sess \<and> t_status t = QUEUED
     \<and> dependencies_satisfied s t"

lemma find_in_order:
  assumes "sorted_wrt Q xs" and "\<And>a. Q a a" and "List.find p xs = Some x" and "y \<in> set xs" and "p y"
  shows "Q x y"
proof -
  from assms(3) obtain i where i: "i < length xs" "xs ! i = x" "\<forall>j<i. \<not> p (xs ! j)"
    by (auto simp: find_Some_iff)
  from assms(4) obtain j where j: "j < length xs" "xs ! j = y" by (auto simp: in_set_conv_nth)
  have "i \<le> j" using i(3) j(2) assms(5) by (meson not_le)
  then show ?thesis
    using i j assms(1,2) by (cases "i = j") (auto simp: sorted_wrt_iff_nth_less)
qed

text \<open>
  The task a lane may dispatch: one exists exactly when the lane is known and not
  paused, holds no task that is claimed, started, waiting, paused, blocked or failed, and
  some QUEUED task of it has all its dependencies COMPLETED; it is then such a task of the
  highest priority, and the earliest position among those.
\<close>

theorem next_dispatchable_spec:
  "case next_dispatchable s sess of
     None \<Rightarrow> (\<forall>l. find_lane s sess = Some l \<longrightarrow> l_paused l) \<or> lane_occupied s sess \<or> (\<forall>y. \<not> ready_in s sess y)
   | Some x \<Rightarrow> ready_in s sess x \<and> \<not> lane_occupied s sess
       \<and> (\<exists>l. find_lane s sess = Some l \<and> \<not> l_paused l)
       \<and> (\<forall>y. ready_in s sess y \<longrightarrow> t_priority y < t_priority x
             \<or> t_priority x = t_priority y \<and> t_position x \<le> t_position y)"
proof -
  let ?c = "dispatch_order (filter (\<lambda>t. t_session t = sess \<and> t_status t = QUEUED) (s_tasks s))"
  have c: "y \<in> set ?c \<and> dependencies_satisfied s y \<longleftrightarrow> ready_in s sess y" for y
    by (auto simp: dispatch_order_def ready_in_def)
  show ?thesis
  proof (cases "next_dispatchable s sess")
    case None
    then show ?thesis
      using c by (auto simp: next_dispatchable_def find_None_iff split: option.splits if_splits)
  next
    case (Some x)
    then have f: "List.find (dependencies_satisfied s) ?c = Some x" and o: "\<not> lane_occupied s sess"
      and l: "\<exists>l. find_lane s sess = Some l \<and> \<not> l_paused l"
      by (auto simp: next_dispatchable_def split: option.splits if_splits)
    have "ready_in s sess x" using find_Some_in_set [OF f] c by blast
    moreover have "goes_before x y" if "ready_in s sess y" for y
      by (rule find_in_order [OF dispatch_order_sorted _ f]) (use c that in \<open>auto simp: goes_before_def\<close>)
    ultimately show ?thesis using Some o l by (auto simp: goes_before_def)
  qed
qed

section \<open>Claims\<close>

lemma transition_locked_result:
  assumes "store_wf s" and "find_task s tid = Some x" and "edge_allowed f t ex x"
  obtains s' where "transition_locked now tid f t ty r ex False s = Inr (final_row now f t r ex x, s')"
    and "\<And>z. find_task s' z = (if z = tid then Some (final_row now f t r ex x) else find_task s z)"
    and "s_lanes s' = s_lanes s"
proof (cases rule: transition_locked_cases [OF assms(2), of f t ex now ty r, case_names goes refused])
  case (goes row u)
  note F = find_task_final [OF goes(2) assms(1)]
  have row: "row = final_row now f t r ex x"
    using transition_locked_returns [OF goes(2)] F assms(2) by simp
  from goes(2) assms(1) obtain z where l: "s_lanes u = s_lanes s" by (rule transition_locked_final)
  show ?thesis
    by (rule that [OF goes(2) [unfolded row] _ l]) (simp add: F assms(2) option.map_ident)
next
  case (refused m)
  then show ?thesis using assms(3) by simp
qed

lemma final_row_claim:
  "t_claimed_by (final_row now f t r [Claimed_by a, Claim_token b, Lease_expires_at c] x) = a"
  "t_claim_token (final_row now f t r [Claimed_by a, Claim_token b, Lease_expires_at c] x) = b"
  "t_lease_expires_at (final_row now f t r [Claimed_by a, Claim_token b, Lease_expires_at c] x) = c"
  by (simp_all add: final_row_def transition_row_def Let_def)

lemma occupied_not_dispatchable:
  "find_task s tid = Some y \<Longrightarrow> t_status y \<in> set ACTIVE_STATUSES \<Longrightarrow> next_dispatchable s (t_session y) = None"
  using find_task_Some_iff [of s tid y]
  by (auto simp: next_dispatchable_def lane_occupied_def split: option.splits)

text \<open>
  C25: Claiming is exclusive: with nothing dispatchable it answers None; otherwise exactly
  the dispatchable task moves to PRECHECK under the caller's name, token and lease, no
  other task changes, and whoever claims from that lane next gets nothing.
\<close>

theorem claim_next_task_exclusive:
  assumes "store_wf s"
  shows "case next_dispatchable s sess of
     None \<Rightarrow> claim_next_task now token sess who secs s = (Inr None, discard_events s)
   | Some x \<Rightarrow> \<exists>y s'. claim_next_task now token sess who secs s = (Inr (Some y), s')
       \<and> t_status y = PRECHECK \<and> t_claimed_by y = Some who \<and> t_claim_token y = Some token
       \<and> t_lease_expires_at y = Some (now + secs) \<and> same_identity x y
       \<and> t_session y = sess \<and> t_attempt_count y = t_attempt_count x
       \<and> (\<forall>z. find_task s' z = (if z = t_id x then Some y else find_task s z))
       \<and> claim_next_task later key sess other secs' s' = (Inr None, discard_events s')"
proof (cases "next_dispatchable s sess")
  case None
  then show ?thesis by (simp add: claim_next_task_def rolled_back_def)
next
  case (Some x)
  note N = next_dispatchable_row [OF assms Some]
  let ?ex = "[Claimed_by (Some who), Claim_token (Some token), Lease_expires_at (Some (now + secs))]"
  let ?y = "final_row now QUEUED PRECHECK None ?ex x"
  have "edge_allowed QUEUED PRECHECK ?ex x" by (simp add: edge_allowed_def is_valid_transition_def)
  from transition_locked_result [OF assms N(1) this, of now "''CLAIMED''" None] obtain u where
    u: "transition_locked now (t_id x) QUEUED PRECHECK ''CLAIMED'' None ?ex False s = Inr (?y, u)"
    and F: "\<And>z. find_task u z = (if z = t_id x then Some ?y else find_task s z)"
    by blast
  have 1: "claim_next_task now token sess who secs s = (Inr (Some ?y), drain_events u)"
    using Some u N(2) by (simp add: claim_next_task_def with_connection_def)
  have "find_task (drain_events u) (t_id x) = Some ?y" by (simp add: F)
  from occupied_not_dispatchable [OF this]
  have "next_dispatchable (drain_events u) sess = None" by (simp add: status_groups N(3))
  then have 2: "claim_next_task later key sess other secs' (drain_events u) = (Inr None, discard_events (drain_events u))"
    by (simp add: claim_next_task_def rolled_back_def)
  show ?thesis unfolding Some option.case
    by (intro exI [of _ ?y] exI [of _ "drain_events u"] conjI 1 2 final_row_identity allI)
       (simp_all add: final_row_claim final_row_attempts N(3) F)
qed

lemma held_claim_iff:
  assumes "store_wf s" and "find_task s tid = Some x"
  shows "held_claim s tid token =
    (if t_claim_token x = Some token \<and> t_status x \<in> set LEASE_STATES then Some x else None)"
proof (cases "held_claim s tid token")
  case None
  then have "\<not> (t_claim_token x = Some token \<and> t_status x \<in> set LEASE_STATES)"
    using find_task_Some_iff [OF assms(2)] by (auto simp: held_claim_def find_None_iff)
  with None show ?thesis by simp
next
  case (Some y)
  from held_claim_Some [OF assms(1) Some] assms(2) Some show ?thesis by simp
qed

lemma held_renew:
  assumes "store_wf s" and "held_claim s tid token = Some x"
  shows "renew_task_lease now tid token secs s =
    (Inr (Some (x\<lparr>t_lease_expires_at := Some (now + secs), t_updated_at := now\<rparr>)),
     drain_events (update_task tid (\<lambda>t. t\<lparr>t_lease_expires_at := Some (now + secs), t_updated_at := now\<rparr>) s))"
  using held_claim_Some(1) [OF assms]
  by (simp add: renew_task_lease_def assms(2) with_connection_def held_update [OF assms] get_task_def
      find_task_update_task Let_def)

text \<open>
  Only the current holder may extend or transfer a claim, and only while the task is
  PRECHECK, DISPATCHING, RUNNING or VERIFYING (not READY). A renewal changes nothing but
  the expiry; a handoff keeps the task's identity, status and attempts, records one history
  entry, and from then on the old token is refused. Any other token changes nothing.
\<close>

theorem lease_verbs_contract:
  assumes "store_wf s" and "find_task s tid = Some x"
  shows "if t_claim_token x = Some token \<and> t_status x \<in> {PRECHECK, DISPATCHING, RUNNING, VERIFYING}
    then (\<exists>s'. renew_task_lease now tid token secs s =
            (Inr (Some (x\<lparr>t_lease_expires_at := Some (now + secs), t_updated_at := now\<rparr>)), s')
            \<and> touches_only {tid} s s')
      \<and> (\<exists>y s'. handoff_task now new tid token w sess reason secs s = (Inr (Some y), s')
            \<and> t_claimed_by y = Some w \<and> t_claim_token y = Some new \<and> t_lease_expires_at y = Some (now + secs)
            \<and> same_identity x y \<and> t_status y = t_status x \<and> t_attempt_count y = t_attempt_count x
            \<and> t_session y = (if nonempty sess then the sess else t_session x)
            \<and> (\<exists>h. t_migration_history y = t_migration_history x @ [h])
            \<and> touches_only {tid} s s'
            \<and> (new = token \<or> renew_task_lease later tid token secs' s' = (Inr None, discard_events s')))
    else renew_task_lease now tid token secs s = (Inr None, discard_events s)
      \<and> handoff_task now new tid token w sess reason secs s = (Inr None, discard_events s)
      \<and> release_task_claim now tid token why s = (Inr None, discard_events s)"
proof (cases "t_claim_token x = Some token \<and> t_status x \<in> set LEASE_STATES")
  case False
  then have "held_claim s tid token = None" unfolding held_claim_iff [OF assms] by (rule if_not_P)
  with False show ?thesis
    by (simp add: renew_task_lease_def handoff_task_def release_task_claim_def rolled_back_def status_groups)
next
  case True
  then have h: "held_claim s tid token = Some x" by (simp add: held_claim_iff [OF assms])
  let ?target = "str_or sess (t_session x)"
  let ?h = "[(''at'', JInt now), (''event'', JStr ''handoff''),
                  (''from_worker'', opt_json (t_claimed_by x)), (''to_worker'', JStr w),
                  (''from_session'', JStr (t_session x)), (''to_session'', JStr ?target),
                  (''reason'', JStr reason)]"
  let ?g = "\<lambda>t. t\<lparr>t_claimed_by := Some w, t_claim_token := Some new, t_lease_expires_at := Some (now + secs),
     t_session := ?target, t_migration_history := t_migration_history x @ [?h], t_updated_at := now\<rparr>"
  let ?u = "drain_events (log_event now (t_session x) (Some tid) ''CLAIM_HANDOFF''
                  (Some (opt_str (t_claimed_by x) @ '' -> '' @ w @ '': '' @ reason)) (update_task tid ?g s))"
  have fu: "find_task ?u z = map_option (\<lambda>t. if z = tid then ?g t else t) (find_task s z)" for z
    by (simp add: find_task_update_task)
  have hand: "handoff_task now new tid token w sess reason secs s = (Inr (Some (?g x)), ?u)"
    using fu [of tid] assms(2)
    by (simp add: handoff_task_def h with_connection_def held_update [OF assms(1) h] get_task_def Let_def)
  have wf: "store_wf ?u" using assms(1) by (simp add: store_wf_update_task)
  have "held_claim ?u tid token = None \<or> new = token"
    using held_claim_iff [OF wf, of tid "?g x"] fu [of tid] assms(2) by simp
  then have old: "new = token \<or> renew_task_lease later tid token secs' ?u = (Inr None, discard_events ?u)"
    by (auto simp: renew_task_lease_def rolled_back_def)
  have ren: "\<exists>s'. renew_task_lease now tid token secs s =
            (Inr (Some (x\<lparr>t_lease_expires_at := Some (now + secs), t_updated_at := now\<rparr>)), s')
            \<and> touches_only {tid} s s'"
    by (simp add: held_renew [OF assms(1) h] touches_only_def find_task_update_task option.map_ident)
  have tou: "touches_only {tid} s ?u" unfolding touches_only_def fu by (simp add: option.map_ident)
  have "\<exists>y s'. handoff_task now new tid token w sess reason secs s = (Inr (Some y), s')
            \<and> t_claimed_by y = Some w \<and> t_claim_token y = Some new \<and> t_lease_expires_at y = Some (now + secs)
            \<and> same_identity x y \<and> t_status y = t_status x \<and> t_attempt_count y = t_attempt_count x
            \<and> t_session y = (if nonempty sess then the sess else t_session x)
            \<and> (\<exists>h. t_migration_history y = t_migration_history x @ [h])
            \<and> touches_only {tid} s s'
            \<and> (new = token \<or> renew_task_lease later tid token secs' s' = (Inr None, discard_events s'))"
    by (intro exI [of _ "?g x"] exI [of _ ?u] conjI hand tou old)
      (auto simp: same_identity_def str_or_def nonempty_def split: option.splits)
  with ren True show ?thesis by (simp add: status_groups)
qed

text \<open>
  What the holder's release does: a task not yet submitted (PRECHECK) and one being
  submitted (DISPATCHING) go back to QUEUED unclaimed; a RUNNING or VERIFYING task cannot be
  released at all, the call raises and nothing is stored.
\<close>

theorem release_task_claim_contract:
  assumes "store_wf s" and "find_task s tid = Some x" and "t_claim_token x = Some token"
    and "t_status x \<in> {PRECHECK, DISPATCHING, RUNNING, VERIFYING}"
  shows "if t_status x \<in> {PRECHECK, DISPATCHING}
    then \<exists>y s'. release_task_claim now tid token why s = (Inr (Some y), s') \<and> t_status y = QUEUED
       \<and> unclaimed y \<and> same_identity x y \<and> t_attempt_count y = t_attempt_count x
       \<and> (\<forall>z. find_task s' z = (if z = tid then Some y else find_task s z))
    else \<exists>m. release_task_claim now tid token why s = (Inl (InvalidTransitionError m), discard_events s)"
proof -
  have h: "held_claim s tid token = Some x"
    using assms(3,4) by (simp add: held_claim_iff [OF assms(1,2)] status_groups)
  let ?r = "Some (str_or why ''claim released by holder'')"
  let ?y = "final_row now (t_status x) QUEUED ?r clear_claim x"
  have e: "edge_allowed (t_status x) QUEUED clear_claim x \<longleftrightarrow> t_status x \<in> {PRECHECK, DISPATCHING}"
    using assms(4) by (auto simp: edge_allowed_def is_valid_transition_def)
  show ?thesis
  proof (cases "t_status x \<in> {PRECHECK, DISPATCHING}")
    case True
    from transition_locked_result [OF assms(1,2) e [THEN iffD2, OF True], of now "''CLAIM_RELEASED''" ?r]
    obtain u where u: "transition_locked now tid (t_status x) QUEUED ''CLAIM_RELEASED'' ?r clear_claim False s = (Inr (?y, u))"
      and F: "\<And>z. find_task u z = (if z = tid then Some ?y else find_task s z)" by blast
    have 1: "release_task_claim now tid token why s = (Inr (Some ?y), drain_events u)"
      using u by (simp add: release_task_claim_def h with_connection_def)
    have 2: "unclaimed ?y" by (simp add: final_row_def transition_row_def clear_claim_def unclaimed_def Let_def)
    have "\<exists>y s'. release_task_claim now tid token why s = (Inr (Some y), s') \<and> t_status y = QUEUED
       \<and> unclaimed y \<and> same_identity x y \<and> t_attempt_count y = t_attempt_count x
       \<and> (\<forall>z. find_task s' z = (if z = tid then Some y else find_task s z))"
      by (intro exI [of _ ?y] exI [of _ "drain_events u"] conjI 1 2 final_row_identity allI)
        (simp_all add: final_row_attempts F)
    with True show ?thesis by simp
  next
    case False
    with e have "\<not> edge_allowed (t_status x) QUEUED clear_claim x" by simp
    with transition_locked_cases [OF assms(2), of "t_status x" QUEUED clear_claim now "''CLAIM_RELEASED''" ?r]
    obtain m where "transition_locked now tid (t_status x) QUEUED ''CLAIM_RELEASED'' ?r clear_claim False s
        = Inl (InvalidTransitionError m)" by metis
    then have "release_task_claim now tid token why s = (Inl (InvalidTransitionError m), discard_events s)"
      by (simp add: release_task_claim_def h with_connection_def)
    with False show ?thesis by auto
  qed
qed

section \<open>What the sweeps do\<close>

lemma stale_row:
  assumes "stale_claim now sess x"
  shows "edge_allowed (t_status x) (stale_target x) (stale_columns now x) x"
    and "stale_target x \<in> set TERMINAL_STATUSES \<longrightarrow> no_claim_columns (stale_columns now x)"
  using assms by (auto simp: stale_claim_def edge_allowed_def stale_target_def is_valid_transition_def status_groups)

lemma swept:
  \<comment> \<open>a sweep that moves every selected row along an edge that is always open\<close>
  assumes "store_wf s"
    and "\<And>x. x \<in> set (s_tasks s) \<Longrightarrow> p x \<Longrightarrow> t_status x = src x \<and>
           (dst x \<in> set TERMINAL_STATUSES \<longrightarrow> no_claim_columns (ex x)) \<and> edge_allowed (src x) (dst x) (ex x) x"
  obtains u where "with_connection (\<lambda>s. and_then
        (for_each (\<lambda>x. step_locked now (t_id x) (src x) (dst x) ty (why x) (ex x)) (filter p (s_tasks s)) s)
        (\<lambda>s'. Inr (map t_id (filter p (s_tasks s)), s'))) s
      = (Inr (map t_id (filter p (s_tasks s))), drain_events u)"
    and "s_tasks u = update_where p (\<lambda>x. final_row now (src x) (dst x) (why x) (ex x) x) (s_tasks s)"
    and "s_lanes u = s_lanes s"
proof -
  have "\<exists>s'. for_each (\<lambda>x. step_locked now (t_id x) (src x) (dst x) ty (why x) (ex x)) (filter p (s_tasks s)) s
            = Inr s'
    \<and> s_tasks s' = update_where p (\<lambda>x. final_row now (src x) (dst x) (why x) (ex x) x) (s_tasks s)
    \<and> s_lanes s' = s_lanes s"
    by (rule for_each_selected_ok [OF assms(1)]) (use assms(2) in blast)
  then show ?thesis using that by (auto simp: with_connection_def)
qed

lemma stale_final_row:
  assumes "stale_claim now sess x"
  shows "t_status (final_row c f (stale_target x) r (stale_columns now x) x) = stale_target x"
    and "unclaimed (final_row c f (stale_target x) r (stale_columns now x) x)"
    and "stale_target x = DISPATCH_UNCERTAIN \<Longrightarrow>
      t_uncertain_or_waiting_since (final_row c f (stale_target x) r (stale_columns now x) x) = Some now"
  using assms
  by (auto simp: final_row_def transition_row_def stale_columns_def clear_claim_def unclaimed_def Let_def
      cleanup_row_def stale_target_def)

lemma map_update_where_other:
  "(\<And>x. x \<in> set xs \<Longrightarrow> p x \<Longrightarrow> \<not> p (g x)) \<Longrightarrow> filter p (update_where p g xs) = []"
  by (induction xs) auto

text \<open>
  The restart sweep always succeeds and touches exactly the PRECHECK and DISPATCHING
  tasks whose lease has run out: the first go back to QUEUED, the second, whose prompt may
  have been delivered, to DISPATCH_UNCERTAIN with the clock started; both lose their claim
  and keep their attempts. Sweeping again finds nothing.
\<close>

theorem reconcile_stale_claims_exact:
  assumes "store_wf s"
  shows "\<exists>s'. reconcile_stale_claims clock now sess s = (Inr (map t_id (filter (stale_claim now sess) (s_tasks s))), s')
    \<and> (\<forall>x\<in>set (s_tasks s). if stale_claim now sess x
        then (\<exists>y. find_task s' (t_id x) = Some y \<and> unclaimed y \<and> same_identity x y
           \<and> t_attempt_count y = t_attempt_count x
           \<and> (t_status y, t_uncertain_or_waiting_since y) = (if t_status x = DISPATCHING
                then (DISPATCH_UNCERTAIN, Some now) else (QUEUED, t_uncertain_or_waiting_since x)))
        else find_task s' (t_id x) = Some x)
    \<and> reconcile_stale_claims clock' now sess s' = (Inr [], drain_events s')"
proof -
  let ?g = "\<lambda>x. final_row clock (t_status x) (stale_target x) (Some (stale_reason x)) (stale_columns now x) x"
  have "\<exists>u. reconcile_stale_claims clock now sess s =
      (Inr (map t_id (filter (stale_claim now sess) (s_tasks s))), drain_events u)
      \<and> s_tasks u = update_where (stale_claim now sess) ?g (s_tasks s)"
    using swept [OF assms, of "stale_claim now sess" t_status stale_target "stale_columns now" clock
        "''RECOVERED_AFTER_RESTART''" "\<lambda>x. Some (stale_reason x)"] stale_row
    unfolding reconcile_stale_claims_def Let_def by (metis (no_types, lifting))
  then obtain u where r: "reconcile_stale_claims clock now sess s =
      (Inr (map t_id (filter (stale_claim now sess) (s_tasks s))), drain_events u)"
    and u: "s_tasks u = update_where (stale_claim now sess) ?g (s_tasks s)" by blast
  have f: "find_task (drain_events u) (t_id x) = Some (if stale_claim now sess x then ?g x else x)"
    if "x \<in> set (s_tasks s)" for x
    using find_task_updated [OF assms that u] by simp
  have "filter (stale_claim now sess) (s_tasks (drain_events u)) = []"
    unfolding drain_frame u
    by (rule map_update_where_other) (use stale_final_row in \<open>auto simp: stale_claim_def stale_target_def\<close>)
  then have again: "reconcile_stale_claims clock' now sess (drain_events u) = (Inr [], drain_events (drain_events u))"
    by (simp add: reconcile_stale_claims_def with_connection_def Let_def)
  have row: "if stale_claim now sess x
        then (\<exists>y. find_task (drain_events u) (t_id x) = Some y \<and> unclaimed y \<and> same_identity x y
           \<and> t_attempt_count y = t_attempt_count x
           \<and> (t_status y, t_uncertain_or_waiting_since y) = (if t_status x = DISPATCHING
                then (DISPATCH_UNCERTAIN, Some now) else (QUEUED, t_uncertain_or_waiting_since x)))
        else find_task (drain_events u) (t_id x) = Some x" if x: "x \<in> set (s_tasks s)" for x
  proof (cases "stale_claim now sess x")
    case True
    then have "t_uncertain_or_waiting_since (?g x) =
        (if t_status x = DISPATCHING then Some now else t_uncertain_or_waiting_since x)"
      by (auto simp: final_row_def transition_row_def stale_columns_def clear_claim_def Let_def
          cleanup_row_def stale_target_def stale_claim_def)
    with True show ?thesis
      using f [OF x] stale_final_row [OF True]
      by (intro if_P [THEN iffD2] exI [of _ "?g x"])
        (auto simp: final_row_identity final_row_attempts stale_target_def)
  next
    case False
    with f [OF x] show ?thesis by simp
  qed
  show ?thesis using r row again by blast
qed

lemma reevaluate_loop:
  assumes "store_wf s" and "distinct (map t_id rows)"
    and "\<forall>x\<in>set rows. find_task s (t_id x) = Some x \<and> t_status x = BLOCKED"
  shows "\<exists>s'. for_each (reevaluate_one clock) rows s = Inr s'
    \<and> (\<forall>x\<in>set rows. find_task s' (t_id x) =
         Some (final_row clock BLOCKED QUEUED (Some (reevaluate_reason x)) clear_claim x))
    \<and> (\<forall>y. y \<notin> t_id ` set rows \<longrightarrow> find_task s' y = find_task s y)"
  using assms
proof (induction rows arbitrary: s)
  case Nil
  then show ?case by simp
next
  case (Cons x rows)
  let ?y = "final_row clock BLOCKED QUEUED (Some (reevaluate_reason x)) clear_claim x"
  have x: "find_task s (t_id x) = Some x" using Cons.prems(3) by simp
  have e: "edge_allowed BLOCKED QUEUED clear_claim x" by (simp add: edge_allowed_def is_valid_transition_def)
  from transition_locked_result [OF Cons.prems(1) x e, of clock "''AI_BLOCKED_REEVALUATED''" "Some (reevaluate_reason x)"]
  obtain w where w: "transition_locked clock (t_id x) BLOCKED QUEUED ''AI_BLOCKED_REEVALUATED''
        (Some (reevaluate_reason x)) clear_claim False s = Inr (?y, w)"
    and F: "\<And>z. find_task w z = (if z = t_id x then Some ?y else find_task s z)" by blast
  have "evolves s w"
    by (rule transition_locked_evolves [OF w Cons.prems(1)]) (use Cons.prems(3) in \<open>auto simp: status_groups\<close>)
  then have wf: "store_wf w" using Cons.prems(1) by (rule evolves_wf)
  from w obtain v where v: "reevaluate_one clock x s = Inr v" and vt: "s_tasks v = s_tasks w"
    by (simp add: reevaluate_one_def step_locked_def)
  have fv: "find_task v z = (if z = t_id x then Some ?y else find_task s z)" for z
    by (simp add: find_task_cong [OF vt] F)
  have "\<exists>s'. for_each (reevaluate_one clock) rows v = Inr s'
    \<and> (\<forall>x\<in>set rows. find_task s' (t_id x) =
         Some (final_row clock BLOCKED QUEUED (Some (reevaluate_reason x)) clear_claim x))
    \<and> (\<forall>y. y \<notin> t_id ` set rows \<longrightarrow> find_task s' y = find_task v y)"
    using Cons.prems(2,3) wf by (intro Cons.IH) (auto simp: store_wf_def vt fv image_iff)
  then obtain s' where "for_each (reevaluate_one clock) rows v = Inr s'"
    and "\<forall>x\<in>set rows. find_task s' (t_id x) =
         Some (final_row clock BLOCKED QUEUED (Some (reevaluate_reason x)) clear_claim x)"
    and "\<forall>y. y \<notin> t_id ` set rows \<longrightarrow> find_task s' y = find_task v y" by blast
  with v fv Cons.prems(2) show ?case by auto
qed

lemma reevaluate_result:
  assumes "store_wf s"
  obtains s' where "reevaluate_ai_owned_blocked clock now sess s =
      (Inr (map t_id (filter (reevaluable now sess) (s_tasks s))), s')"
    and "\<And>x. x \<in> set (s_tasks s) \<Longrightarrow> find_task s' (t_id x) = Some (if reevaluable now sess x
      then final_row clock BLOCKED QUEUED (Some (reevaluate_reason x)) clear_claim x else x)"
proof -
  let ?rows = "filter (reevaluable now sess) (s_tasks s)"
  have rows: "\<forall>x\<in>set ?rows. find_task s (t_id x) = Some x \<and> t_status x = BLOCKED"
    using wf_filter_rows(2) [OF assms] by (simp add: reevaluable_def)
  from reevaluate_loop [OF assms wf_filter_rows(1) [OF assms] rows] obtain u where
    l: "for_each (reevaluate_one clock) ?rows s = Inr u"
    and in_rows: "\<forall>x\<in>set ?rows. find_task u (t_id x) =
         Some (final_row clock BLOCKED QUEUED (Some (reevaluate_reason x)) clear_claim x)"
    and others: "\<forall>y. y \<notin> t_id ` set ?rows \<longrightarrow> find_task u y = find_task s y" by blast
  show ?thesis
  proof (rule that)
    show "reevaluate_ai_owned_blocked clock now sess s = (Inr (map t_id ?rows), drain_events u)"
      by (simp add: reevaluate_ai_owned_blocked_def with_connection_def l Let_def)
    fix x assume x: "x \<in> set (s_tasks s)"
    show "find_task (drain_events u) (t_id x) = Some (if reevaluable now sess x
      then final_row clock BLOCKED QUEUED (Some (reevaluate_reason x)) clear_claim x else x)"
    proof (cases "reevaluable now sess x")
      case True
      with in_rows x show ?thesis by simp
    next
      case False
      have "t_id x \<notin> t_id ` set ?rows"
      proof
        assume "t_id x \<in> t_id ` set ?rows"
        then obtain z where z: "z \<in> set ?rows" "t_id z = t_id x" by auto
        then have "z = x" using wf_row_unique [OF assms wf_find_task [OF assms x]] by simp
        with z False show False by simp
      qed
      with others False wf_find_task [OF assms x] show ?thesis by simp
    qed
  qed
qed

text \<open>
  The AI re-evaluation sweep always succeeds and requeues exactly the BLOCKED tasks it
  may touch, unclaimed and with their attempts kept. It leaves every task whose delivery
  was refused, whose verification or send failed, that has used up its attempts, or that is
  within its backoff, and every task that AI Review shows as owned by a human.
\<close>

theorem reevaluate_exact:
  assumes "store_wf s"
  shows "\<exists>s'. reevaluate_ai_owned_blocked clock now sess s =
      (Inr (map t_id (filter (reevaluable now sess) (s_tasks s))), s')
    \<and> (\<forall>x\<in>set (s_tasks s). if reevaluable now sess x
        then (\<exists>y. find_task s' (t_id x) = Some y \<and> t_status x = BLOCKED \<and> t_status y = QUEUED \<and> unclaimed y
           \<and> same_identity x y \<and> t_attempt_count y = t_attempt_count x)
        else find_task s' (t_id x) = Some x)
    \<and> (\<forall>x\<in>set (s_tasks s). \<forall>l. refused_delivery (t_metadata x) \<or> 6 \<le> attempts_of x
          \<or> now < last_check x + backoff_seconds (attempts_of x)
          \<or> (\<exists>i. classify_task now x l = Some i \<and> a_owner i = OWNER_USER)
        \<longrightarrow> find_task s' (t_id x) = Some x)"
proof -
  from reevaluate_result [OF assms, of clock now sess] obtain s' where
    r: "reevaluate_ai_owned_blocked clock now sess s =
      (Inr (map t_id (filter (reevaluable now sess) (s_tasks s))), s')"
    and f: "\<And>x. x \<in> set (s_tasks s) \<Longrightarrow> find_task s' (t_id x) = Some (if reevaluable now sess x
      then final_row clock BLOCKED QUEUED (Some (reevaluate_reason x)) clear_claim x else x)" by blast
  have un: "unclaimed (final_row clock BLOCKED QUEUED w clear_claim x)" for w x
    by (simp add: final_row_def transition_row_def clear_claim_def unclaimed_def Let_def)
  have blocked: "reevaluable now sess x \<Longrightarrow> t_status x = BLOCKED" for x by (simp add: reevaluable_def)
  have human: "\<not> reevaluable now sess x" if "refused_delivery (t_metadata x) \<or> 6 \<le> attempts_of x
          \<or> now < last_check x + backoff_seconds (attempts_of x)
          \<or> (\<exists>i. classify_task now x l = Some i \<and> a_owner i = OWNER_USER)" for x l
    using that by (auto simp: reevaluable_def AI_MAX_AUTOMATIC_ATTEMPTS_def classify_task_def
        classify_blocked_def attention_item_def Let_def)
  show ?thesis
    by (intro exI [of _ s'] conjI r ballI)
      (use f human blocked in \<open>auto simp: un final_row_identity final_row_attempts\<close>)
qed

section \<open>What the coordinator's decision does\<close>

abbreviation decided_row :: "timestamp \<Rightarrow> status \<Rightarrow> status \<Rightarrow> dict \<Rightarrow> string \<Rightarrow> task \<Rightarrow> task" where
  "decided_row now f target d reason x \<equiv>
     final_row now f target (Some reason) (coordinator_columns now target d reason x) x"

lemma decided_row_facts:
  "t_coordinator_attempts (decided_row now f target d reason x) = t_coordinator_attempts x + 1"
  "t_coordinator_reason (decided_row now f target d reason x) = Some reason"
  "target = READY \<Longrightarrow> t_claim_token (decided_row now f target d reason x) = t_claim_token x"
  "target \<in> {QUEUED, BLOCKED, PAUSED} \<Longrightarrow> unclaimed (decided_row now f target d reason x)"
  "target = PAUSED \<Longrightarrow> t_paused_from_status (decided_row now f target d reason x) = Some QUEUED"
  by (auto simp: coordinator_columns_def final_row_def transition_row_def clear_claim_def unclaimed_def
      Let_def cleanup_row_def status_groups)

lemma after_decision_result:
  assumes "store_wf s" and "find_task s tid = Some y"
    and "st = ''NEEDS_HUMAN'' \<longrightarrow> t_status y \<notin> set PAUSABLE_STATUSES"
    and "t_session row = t_session y"
  shows "if st = ''NEEDS_HUMAN'' \<and> (\<exists>u\<in>set (s_tasks s). in_lane (t_session y) [WAITING_SESSION] u)
    then \<exists>m. after_decision now st reason d row s = Inl (InvalidTransitionError m)
    else \<exists>s'. after_decision now st reason d row s = Inr s' \<and> find_task s' tid = Some y
      \<and> (st \<noteq> ''NEEDS_HUMAN'' \<or> (\<exists>l. find_lane s' (t_session y) = Some l \<and> l_paused l
            \<and> l_paused_origin l = Some PAUSE_ORIGIN_COORDINATOR))"
proof (cases "st = ''NEEDS_HUMAN''")
  case False
  then show ?thesis using assms(2) by (simp add: after_decision_def Let_def)
next
  case True
  let ?t = "record_event_locked now (t_session y) (Some (t_id row)) (''COORDINATOR_'' @ st) (Some reason) None None d s"
  have wf: "store_wf ?t" using assms(1) by simp
  note P = pause_locked_result [OF wf, of "t_session y" now "Some (''coordinator: '' @ reason)" "Some PAUSE_ORIGIN_COORDINATOR"]
  have a: "after_decision now st reason d row s = pause_lane_locked now (t_session y)
      (Some (''coordinator: '' @ reason)) (Some PAUSE_ORIGIN_COORDINATOR) ?t"
    by (simp add: after_decision_def Let_def True assms(4))
  show ?thesis
  proof (cases "\<exists>u\<in>set (s_tasks s). in_lane (t_session y) [WAITING_SESSION] u")
    case w: True
    then have "\<exists>u\<in>set (s_tasks ?t). in_lane (t_session y) [WAITING_SESSION] u" by simp
    from P [unfolded if_P [OF this]] show ?thesis unfolding if_P [OF conjI [OF True w]] a .
  next
    case w: False
    then have "\<not> (\<exists>u\<in>set (s_tasks ?t). in_lane (t_session y) [WAITING_SESSION] u)" by simp
    from P [unfolded if_not_P [OF this]] obtain s' where
      p: "pause_lane_locked now (t_session y)
      (Some (''coordinator: '' @ reason)) (Some PAUSE_ORIGIN_COORDINATOR) ?t = Inr s'"
      and u: "s_tasks s' = update_where (in_lane (t_session y) PAUSABLE_STATUSES)
          (paused_row now (Some (''coordinator: '' @ reason))) (s_tasks ?t)"
      and l: "\<exists>l. find_lane s' (t_session y) = Some l \<and> l_paused l
          \<and> l_paused_origin l = Some PAUSE_ORIGIN_COORDINATOR" by blast
    have y: "y \<in> set (s_tasks ?t)" "t_id y = tid" using find_task_Some_iff [OF assms(2)] by auto
    have "find_task s' tid = Some y"
      using find_task_updated [OF wf y(1) u] assms(3) True y(2) by (simp add: paused_row_facts in_lane_def)
    with p l w show ?thesis by (simp add: a)
  qed
qed

lemma bex_update_where:
  assumes "\<And>x. x \<in> set xs \<Longrightarrow> P (if p x then f x else x) \<longleftrightarrow> Q x"
  shows "(\<exists>y\<in>set (update_where p f xs). P y) \<longleftrightarrow> (\<exists>x\<in>set xs. Q x)"
  by (simp only: update_where_def set_map bex_simps assms cong: bex_cong)

text \<open>
  What a coordinator decision does to a task under review: READY keeps its claim,
  BLOCKED and NEEDS_REWORK (back to QUEUED) drop it, NEEDS_HUMAN drops it, pauses the task so
  that a resume requeues it, and pauses its lane in the coordinator's name; each counts one
  review and records the reason. A NEEDS_HUMAN decision raises and stores nothing when the
  lane also holds a task waiting for its session.
\<close>

theorem coordinator_decision_effect:
  assumes "store_wf s" and "find_task s tid = Some x" and "t_status x = PRECHECK"
    and "coordinator_target st = Some target"
  shows "if st = ''NEEDS_HUMAN'' \<and> (\<exists>u\<in>set (s_tasks s). t_session u = t_session x \<and> t_status u = WAITING_SESSION)
    then \<exists>m. record_coordinator_decision now tid st reason bl ra ev s = (Inl (InvalidTransitionError m), discard_events s)
    else \<exists>y s'. record_coordinator_decision now tid st reason bl ra ev s = (Inr y, s')
      \<and> find_task s' tid = Some y \<and> same_identity x y
      \<and> t_status y = (if st = ''READY'' then READY else if st = ''BLOCKED'' then BLOCKED
           else if st = ''NEEDS_REWORK'' then QUEUED else PAUSED)
      \<and> (if st = ''READY'' then t_claim_token y = t_claim_token x else unclaimed y)
      \<and> t_coordinator_attempts y = t_coordinator_attempts x + 1 \<and> t_coordinator_reason y = Some reason
      \<and> (st \<noteq> ''NEEDS_HUMAN'' \<or> resume_target y = QUEUED
           \<and> (\<exists>l. find_lane s' (t_session x) = Some l \<and> l_paused l \<and> l_paused_origin l = Some PAUSE_ORIGIN_COORDINATOR))"
proof -
  let ?d = "[(''status'', JStr st), (''reason'', JStr reason), (''blockers'', JArr (map JStr bl)),
     (''required_actions'', JArr (map JStr ra)), (''evidence'', JObj ev)]"
  let ?y = "decided_row now PRECHECK target ?d reason x"
  have t: "target \<in> {READY, BLOCKED, QUEUED, PAUSED}"
    "target = (if st = ''READY'' then READY else if st = ''BLOCKED'' then BLOCKED
           else if st = ''NEEDS_REWORK'' then QUEUED else PAUSED)" "target = PAUSED \<longleftrightarrow> st = ''NEEDS_HUMAN''"
    "target = READY \<longleftrightarrow> st = ''READY''"
    using assms(4) by (auto simp: coordinator_target_def split: if_splits)
  have e: "edge_allowed PRECHECK target (coordinator_columns now target ?d reason x) x"
    using t(1) by (auto simp: edge_allowed_def is_valid_transition_def)
  from transition_locked_result [OF assms(1,2) e, of now "''COORDINATOR_DECISION''" "Some reason"]
  obtain u where u: "transition_locked now tid PRECHECK target ''COORDINATOR_DECISION'' (Some reason)
        (coordinator_columns now target ?d reason x) False s = Inr (?y, u)"
    and F: "\<And>z. find_task u z = (if z = tid then Some ?y else find_task s z)" by blast
  have wf: "store_wf u"
    using transition_locked_evolves(1) [OF u assms(1)] assms(1-3) coordinator_target_not_terminal [OF assms(4)]
    by (auto dest: evolves_wf)
  from u assms(1) obtain z where ut: "s_tasks u = update_where (\<lambda>y. t_id y = tid) (final_row now PRECHECK target
      (Some reason) (coordinator_columns now target ?d reason x)) (s_tasks s)" by (rule transition_locked_final)
  have rows: "(\<exists>v\<in>set (s_tasks u). in_lane (t_session ?y) [WAITING_SESSION] v) \<longleftrightarrow>
      (\<exists>v\<in>set (s_tasks s). t_session v = t_session x \<and> t_status v = WAITING_SESSION)"
    unfolding ut in_lane_def
    by (rule bex_update_where) (use t(1) wf_row_unique [OF assms(1,2)] assms(3) in auto)
  have fy: "find_task u tid = Some ?y" by (simp add: F)
  have ty: "st = ''NEEDS_HUMAN'' \<longrightarrow> t_status ?y \<notin> set PAUSABLE_STATUSES"
    using t(3) by (auto simp: PAUSABLE_STATUSES_def)
  note A = after_decision_result [OF wf fy ty, where row = x and now = now and reason = reason and d = ?d]
  have run: "record_coordinator_decision now tid st reason bl ra ev s =
      (case after_decision now st reason ?d x u of Inl m \<Rightarrow> (Inl m, discard_events s)
       | Inr v \<Rightarrow> (Inr ?y, drain_events v))"
    using u assms(2-4) by (simp add: record_coordinator_decision_def with_connection_def and_then_def split: sum.splits)
  show ?thesis
  proof (cases "st = ''NEEDS_HUMAN'' \<and> (\<exists>v\<in>set (s_tasks s). t_session v = t_session x \<and> t_status v = WAITING_SESSION)")
    case True
    with A [simplified rows] obtain m where "after_decision now st reason ?d x u = Inl (InvalidTransitionError m)" by auto
    then show ?thesis unfolding if_P [OF True] run by simp
  next
    case False
    with A [simplified rows] obtain v where v: "after_decision now st reason ?d x u = Inr v" "find_task v tid = Some ?y"
      "st \<noteq> ''NEEDS_HUMAN'' \<or> (\<exists>l. find_lane v (t_session ?y) = Some l \<and> l_paused l
            \<and> l_paused_origin l = Some PAUSE_ORIGIN_COORDINATOR)"
      by auto
    have "if st = ''READY'' then t_claim_token ?y = t_claim_token x else unclaimed ?y"
    proof (cases "st = ''READY''")
      case True
      then show ?thesis using t(4) by (simp add: decided_row_facts(3))
    next
      case False
      then have "target \<in> {QUEUED, BLOCKED, PAUSED}" using t(1,4) by auto
      with False show ?thesis by (simp add: decided_row_facts(4))
    qed
    moreover have "st \<noteq> ''NEEDS_HUMAN'' \<or> resume_target ?y = QUEUED"
    proof (cases "st = ''NEEDS_HUMAN''")
      case True
      then have "target = PAUSED" using t(3) by simp
      then show ?thesis by (simp add: resume_target_def decided_row_facts(5))
    qed simp
    ultimately show ?thesis
      unfolding if_not_P [OF False] run v(1) sum.case
      by (intro exI [of _ ?y] exI [of _ "drain_events v"])
        (use v t(2) in \<open>simp add: final_row_identity decided_row_facts\<close>)
  qed
qed

section \<open>Witnesses\<close>

abbreviation two_tasks :: store where
  "two_tasks \<equiv> ensure_lane 0 ''a'' (sample_store [sample_task ''t1'' ''a'' 0 QUEUED,
     (sample_task ''t2'' ''a'' 1 QUEUED)\<lparr>t_priority := 5\<rparr>])"

abbreviation claimed_task :: "status \<Rightarrow> task" where
  "claimed_task st \<equiv> (sample_task ''t1'' ''a'' 0 st)\<lparr>t_claimed_by := Some ''w'', t_claim_token := Some ''k'',
     t_lease_expires_at := Some 5\<rparr>"

lemma next_dispatchable_spec_witness:
  "\<exists>x. next_dispatchable two_tasks ''a'' = Some x \<and> t_id x = ''t2'' \<and> ready_in two_tasks ''a'' x"
proof -
  have "map_option t_id (next_dispatchable two_tasks ''a'') = Some ''t2''" by code_simp
  then obtain x where "next_dispatchable two_tasks ''a'' = Some x" "t_id x = ''t2''" by auto
  with next_dispatchable_spec [of two_tasks "''a''"] show ?thesis by auto
qed

lemma claim_next_task_exclusive_witness:
  "\<exists>y s'. claim_next_task 9 ''k'' ''a'' ''w'' 300 two_tasks = (Inr (Some y), s') \<and> t_id y = ''t2''
     \<and> claim_next_task 10 ''k2'' ''a'' ''w2'' 300 s' = (Inr None, discard_events s')"
proof -
  have "map_option t_id (next_dispatchable two_tasks ''a'') = Some ''t2''" by code_simp
  then obtain x where x: "next_dispatchable two_tasks ''a'' = Some x" "t_id x = ''t2''" by auto
  have "store_wf two_tasks" by simp
  from claim_next_task_exclusive [OF this, where sess = "''a''" and now = 9 and token = "''k''"
      and who = "''w''" and secs = 300 and later = 10 and key = "''k2''" and other = "''w2''" and secs' = 300] x
  show ?thesis by (fastforce simp: same_identity_def)
qed

lemma lease_verbs_contract_witness:
  "\<exists>y s'. handoff_task 9 ''k2'' ''t1'' ''k'' ''v'' None ''verify'' 300 (sample_store [claimed_task VERIFYING])
     = (Inr (Some y), s') \<and> t_claimed_by y = Some ''v'' \<and> t_status y = VERIFYING
     \<and> renew_task_lease 10 ''t1'' ''k'' 300 s' = (Inr None, discard_events s')"
  using lease_verbs_contract [of "sample_store [claimed_task VERIFYING]" "''t1''" "claimed_task VERIFYING" "''k''"
      9 300 "''k2''" "''v''" None "''verify''" 10 300 None]
  by fastforce

lemma release_task_claim_contract_witness:
  "(\<exists>y s'. release_task_claim 9 ''t1'' ''k'' None (sample_store [claimed_task DISPATCHING]) = (Inr (Some y), s')
     \<and> t_status y = QUEUED)
   \<and> (\<exists>m. release_task_claim 9 ''t1'' ''k'' None (sample_store [claimed_task RUNNING])
     = (Inl (InvalidTransitionError m), discard_events (sample_store [claimed_task RUNNING])))"
  using release_task_claim_contract [of "sample_store [claimed_task DISPATCHING]" "''t1''" "claimed_task DISPATCHING"
      "''k''" 9 None]
    release_task_claim_contract [of "sample_store [claimed_task RUNNING]" "''t1''" "claimed_task RUNNING"
      "''k''" 9 None]
  by fastforce

lemma reconcile_stale_claims_exact_witness:
  "\<exists>y s'. reconcile_stale_claims 9 9 None (sample_store [claimed_task DISPATCHING]) = (Inr [''t1''], s')
     \<and> find_task s' ''t1'' = Some y \<and> t_status y = DISPATCH_UNCERTAIN \<and> unclaimed y"
proof -
  have "stale_claim 9 None (claimed_task DISPATCHING)"
    by (simp add: stale_claim_def in_scope_def nonempty_def before_def)
  then show ?thesis
    using reconcile_stale_claims_exact [of "sample_store [claimed_task DISPATCHING]" 9 9 None 10] by auto
qed

lemma reevaluate_exact_witness:
  "\<exists>y s'. reevaluate_ai_owned_blocked 99 99 None (sample_store [sample_task ''t1'' ''a'' 0 BLOCKED]) = (Inr [''t1''], s')
     \<and> find_task s' ''t1'' = Some y \<and> t_status y = QUEUED"
proof -
  have "reevaluable 99 None (sample_task ''t1'' ''a'' 0 BLOCKED)" by code_simp
  then show ?thesis
    using reevaluate_exact [of "sample_store [sample_task ''t1'' ''a'' 0 BLOCKED]" 99 99 None] by auto
qed

lemma coordinator_decision_effect_witness:
  "\<exists>y s' l. record_coordinator_decision 9 ''t1'' ''NEEDS_HUMAN'' ''why'' [] [] [] (sample_store [claimed_task PRECHECK])
     = (Inr y, s') \<and> t_status y = PAUSED \<and> unclaimed y \<and> find_lane s' ''a'' = Some l \<and> l_paused l"
  using coordinator_decision_effect [of "sample_store [claimed_task PRECHECK]" "''t1''" "claimed_task PRECHECK"
      "''NEEDS_HUMAN''" PAUSED 9 "''why''" "[]" "[]" "[]"]
  by (fastforce simp: coordinator_target_def)

end
