(* ===== verification/QueueRouting.thy ===== *)
theory QueueRouting
  imports QueueClaims
begin

text \<open>
  Routing in \<open>queue_store.py\<close>: binding a task to the session that will run it (at most one
  unfinished task per runtime), giving the runtime back, recording why none was found, the
  agent columns, and the work lists a router reads: tasks waiting for a runtime that
  routing may place, and tasks bound but not started.
\<close>

section \<open>Binding\<close>

definition is_bound :: "task \<Rightarrow> bool" where
  "is_bound t \<longleftrightarrow> t_routing_state t \<in> set ROUTING_BOUND_STATES"

definition tasks_bound_to_session :: "store \<Rightarrow> string \<Rightarrow> task list" where
  "tasks_bound_to_session s sess = sort_key t_position (filter (holds_runtime sess) (s_tasks s))"

definition write_agent_binding ::
  "string \<Rightarrow> string option \<Rightarrow> string list option \<Rightarrow> store \<Rightarrow> store" where
  \<comment> \<open>\<open>_write_agent_binding_locked\<close>\<close>
  "write_agent_binding tid agent skills s =
     (let s1 = (case agent of None \<Rightarrow> s | Some a \<Rightarrow> update_task tid (\<lambda>t. t\<lparr>t_agent_id := Some a\<rparr>) s)
      in case skills of None \<Rightarrow> s1 | Some ks \<Rightarrow> update_task tid (\<lambda>t. t\<lparr>t_skill_ids := ks\<rparr>) s1)"

datatype binding =
  Bound task bool
  \<comment> \<open>the task and its \<open>rebound\<close> flag\<close>
| BIND_TASK_NOT_FOUND
| TASK_ALREADY_SETTLED status
| TASK_ALREADY_BOUND string
| TASK_NOT_BINDABLE status
| SESSION_ALREADY_CLAIMED string

definition rehome :: "timestamp \<Rightarrow> task \<Rightarrow> string \<Rightarrow> store \<Rightarrow> store" where
  \<comment> \<open>the row moves into the session's lane, behind everything there\<close>
  "rehome now task sess s =
     (if t_session task \<noteq> sess
      then let s1 = ensure_lane now sess s; pos = max_position s1 sess + 1
           in update_task (t_id task) (\<lambda>t. t\<lparr>t_session := sess, t_position := pos\<rparr>) s1
      else s)"

definition routed_event ::
  "timestamp \<Rightarrow> task \<Rightarrow> string \<Rightarrow> string option \<Rightarrow> routing \<Rightarrow> dict \<Rightarrow> store \<Rightarrow> store" where
  "routed_event now task sess node state evidence s =
     record_event_locked now sess (Some (t_id task)) ''TASK_ROUTED''
       (json_text (dget evidence ''reason'')) None None
       [(''routing_state'', JStr (case state of UNROUTED \<Rightarrow> ''UNROUTED'' | BOUND \<Rightarrow> ''BOUND''
           | SPAWNED \<Rightarrow> ''SPAWNED'' | WAITING_RUNTIME \<Rightarrow> ''WAITING_RUNTIME'')),
        (''node_id'', opt_json node), (''from_lane'', JStr (t_session task)),
        (''score'', dget evidence ''score'')] s"

definition reroute :: "timestamp \<Rightarrow> task \<Rightarrow> string \<Rightarrow> store \<Rightarrow> queue_error + store" where
  \<comment> \<open>the first step of a granted binding\<close>
  "reroute now task sess s =
     (if t_status task = WAITING_SESSION
      then step_locked now (t_id task) WAITING_SESSION QUEUED ''REROUTED''
             (Some (''re-homed from '' @ py_repr (t_session task) @ '' to '' @ py_repr sess
                    @ '' for a fresh claim'')) [] s
      else Inr s)"

definition bind_locked ::
  "timestamp \<Rightarrow> task \<Rightarrow> string \<Rightarrow> string option \<Rightarrow> routing \<Rightarrow> dict \<Rightarrow> string option
   \<Rightarrow> string list option \<Rightarrow> store \<Rightarrow> queue_error + (binding \<times> store)" where
  \<comment> \<open>the writes of a granted binding\<close>
  "bind_locked now task sess node state evidence agent skills s =
     and_then (reroute now task sess s) (\<lambda>s1.
        let s2 = update_task (t_id task) (bind_row now sess node state evidence) (rehome now task sess s1);
            s3 = routed_event now task sess node state evidence (write_agent_binding (t_id task) agent skills s2)
        in case find_task s3 (t_id task) of
             None \<Rightarrow> Inl TypeError
           | Some t \<Rightarrow> Inr (Bound t True, s3))"

definition bind_task_to_session ::
  "timestamp \<Rightarrow> string \<Rightarrow> string \<Rightarrow> string option \<Rightarrow> routing \<Rightarrow> dict \<Rightarrow> string option
   \<Rightarrow> string list option \<Rightarrow> store \<Rightarrow> (queue_error + binding) \<times> store" where
  "bind_task_to_session now tid sess node state evidence agent skills s =
     (case find_task s tid of
        None \<Rightarrow> (Inr BIND_TASK_NOT_FOUND, s)
      | Some task \<Rightarrow>
          if t_status task \<in> set TERMINAL_STATUSES
          then (Inr (TASK_ALREADY_SETTLED (t_status task)), s)
          else if is_bound task \<and> nonempty (t_execution_session task) \<and> t_execution_session task = Some sess
          then (Inr (Bound task False), s)
          else if is_bound task \<and> nonempty (t_execution_session task)
          then (Inr (TASK_ALREADY_BOUND (the (t_execution_session task))), s)
          else if t_status task \<notin> set MOVABLE_STATUSES
          then (Inr (TASK_NOT_BINDABLE (t_status task)), s)
          else (case List.find (\<lambda>t. t_id t \<noteq> tid \<and> holds_runtime sess t) (s_tasks s) of
                  Some holder \<Rightarrow> (Inr (SESSION_ALREADY_CLAIMED (t_id holder)), s)
                | None \<Rightarrow> with_connection (bind_locked now task sess node state evidence agent skills) s))"

definition release_execution_binding ::
  "timestamp \<Rightarrow> string \<Rightarrow> string \<Rightarrow> store \<Rightarrow> (queue_error + (task \<times> bool) option) \<times> store" where
  \<comment> \<open>the task and its \<open>released\<close> flag; None is \<open>TASK_NOT_FOUND\<close>\<close>
  "release_execution_binding now tid reason = with_connection (\<lambda>s.
     case find_task s tid of
       None \<Rightarrow> Inr (None, s)
     | Some task \<Rightarrow>
         if \<not> is_bound task then Inr (Some (task, False), s)
         else let s1 = update_task tid (\<lambda>t. t\<lparr>t_execution_session := None, t_execution_node_id := None,
                         t_routing_state := Some UNROUTED, t_updated_at := now\<rparr>) s;
                  s2 = record_event_locked now (t_session task) (Some tid) ''TASK_ROUTE_RELEASED''
                         (Some reason) None None
                         [(''released_session'', opt_json (t_execution_session task))] s1
              in (case find_task s2 tid of None \<Rightarrow> Inl TypeError | Some t \<Rightarrow> Inr (Some (t, True), s2)))"

definition record_routing_deferral ::
  "timestamp \<Rightarrow> string \<Rightarrow> dict \<Rightarrow> store \<Rightarrow> (queue_error + (task \<times> bool) option) \<times> store" where
  "record_routing_deferral now tid evidence = with_connection (\<lambda>s.
     case find_task s tid of
       None \<Rightarrow> Inr (None, s)
     | Some task \<Rightarrow>
         if is_bound task then Inr (Some (task, False), s)
         else let s1 = update_task tid (\<lambda>t. t\<lparr>t_routing_state := Some WAITING_RUNTIME,
                         t_routing_evidence := evidence, t_updated_at := now\<rparr>) s;
                  s2 = record_event_locked now (t_session task) (Some tid) ''TASK_ROUTE_DEFERRED''
                         (json_text (dget evidence ''reason'')) None None
                         [(''candidates_considered'', dget evidence ''candidates_considered'')] s1
              in (case find_task s2 tid of None \<Rightarrow> Inl TypeError | Some t \<Rightarrow> Inr (Some (t, True), s2)))"

definition set_agent_binding ::
  "timestamp \<Rightarrow> string \<Rightarrow> string option \<Rightarrow> string list option \<Rightarrow> store
   \<Rightarrow> (queue_error + task option) \<times> store" where
  "set_agent_binding now tid agent skills = with_connection (\<lambda>s.
     case find_task s tid of
       None \<Rightarrow> Inr (None, s)
     | Some _ \<Rightarrow>
         let s1 = update_task tid (\<lambda>t. t\<lparr>t_updated_at := now\<rparr>) (write_agent_binding tid agent skills s)
         in (case find_task s1 tid of None \<Rightarrow> Inl TypeError | Some t \<Rightarrow> Inr (Some t, s1)))"

section \<open>Work lists\<close>

definition bound_unstarted_tasks :: "store \<Rightarrow> int \<Rightarrow> task list" where
  "bound_unstarted_tasks s limit = sql_limit limit
     (sort_key (\<lambda>t. - t_priority t) (sort_key t_updated_at
        (filter (\<lambda>t. is_bound t \<and> t_execution_session t \<noteq> None
           \<and> t_status t \<in> set PRE_DISPATCH_STATUSES) (s_tasks s))))"

definition runtime_bound_tasks :: "store \<Rightarrow> int \<Rightarrow> task list" where
  "runtime_bound_tasks s limit = sql_limit limit
     (sort_key (\<lambda>t. - t_priority t) (sort_key t_updated_at
        (filter (\<lambda>t. t_execution_session t \<noteq> None \<and> is_bound t
           \<and> t_status t \<notin> set TERMINAL_STATUSES) (s_tasks s))))"

definition tasks_for_agent :: "store \<Rightarrow> string \<Rightarrow> int \<Rightarrow> task list" where
  \<comment> \<open>\<open>ORDER BY created_at DESC, rowid DESC\<close>\<close>
  "tasks_for_agent s agent limit = sql_limit limit
     (sort_key (\<lambda>t. - t_created_at t) (rev (filter (\<lambda>t. t_agent_id t = Some agent) (s_tasks s))))"

definition ROUTER_OWNED_METADATA_KEY :: string where
  "ROUTER_OWNED_METADATA_KEY = ''router_owned''"

definition is_rescuable :: "task \<Rightarrow> bool" where
  "is_rescuable t \<longleftrightarrow> t_session t = UNASSIGNED_LANE \<or> t_status t = WAITING_SESSION
     \<or> truthy (dget (t_metadata t) ROUTER_OWNED_METADATA_KEY)"

definition lane_candidate :: "store \<Rightarrow> string \<Rightarrow> task option" where
  \<comment> \<open>what the engine would pick next, else the lane's first unbound WAITING_SESSION task\<close>
  "lane_candidate s sess = (case next_dispatchable s sess of
     Some t \<Rightarrow> Some t
   | None \<Rightarrow> (case dispatch_order (filter (\<lambda>t. t_session t = sess \<and> t_status t = WAITING_SESSION
                   \<and> \<not> is_bound t) (s_tasks s)) of [] \<Rightarrow> None | t # _ \<Rightarrow> Some t))"

definition routable_in_lane :: "store \<Rightarrow> string \<Rightarrow> task list" where
  "routable_in_lane s sess =
     (if sess = UNASSIGNED_LANE
      then dispatch_order (filter (\<lambda>t. t_session t = sess
             \<and> (t_status t = QUEUED \<or> t_status t = WAITING_SESSION) \<and> \<not> is_bound t) (s_tasks s))
      else (case lane_candidate s sess of
              None \<Rightarrow> []
            | Some t \<Rightarrow> if is_bound t then [] else if is_rescuable t then [t] else []))"

definition routing_lanes :: "store \<Rightarrow> string list" where
  "routing_lanes s = remdups (map t_session (filter (\<lambda>t. (t_status t = QUEUED \<or> t_status t = WAITING_SESSION)
     \<and> \<not> is_bound t) (s_tasks s)))"

definition py_take :: "int \<Rightarrow> 'a list \<Rightarrow> 'a list" where
  \<comment> \<open>\<open>xs[:n]\<close>: a negative bound counts from the end\<close>
  "py_take n xs = (if n < 0 then take (nat (int (length xs) + n)) xs else take (nat n) xs)"

definition routable_tasks :: "store \<Rightarrow> int \<Rightarrow> task list" where
  \<comment> \<open>sorted by priority (descending), age, position\<close>
  "routable_tasks s limit = py_take limit
     (sort_key (\<lambda>t. - t_priority t) (sort_key t_created_at (sort_key t_position
        (concat (map (routable_in_lane s) (routing_lanes s))))))"

section \<open>Every write keeps the contract\<close>

lemma rehome_touches: "touches_only {t_id task} s (rehome now task sess s)"
proof (cases "t_session task = sess")
  case False
  have "touches_only {t_id task} (ensure_lane now sess s) (rehome now task sess s)"
    unfolding rehome_def Let_def if_P [OF False]
    by (rule touches_only_update [where f = "\<lambda>t. t\<lparr>t_session := sess,
          t_position := max_position (ensure_lane now sess s) sess + 1\<rparr>"]) (simp_all add: update_task_def)
  then show ?thesis by (rule touches_only_trans [OF touches_only_frames(2)])
qed (simp add: rehome_def)

lemma store_wf_rehome [simp]: "store_wf (rehome now task sess s) = store_wf s"
  by (simp add: rehome_def Let_def store_wf_update_task)

lemma others_keep_runtime:
  assumes "store_wf s" and "store_wf s'" and "touches_only {tid} s s'"
    and "u \<in> set (s_tasks s')" and "t_id u \<noteq> tid"
  shows "u \<in> set (s_tasks s)"
proof -
  have "find_task s (t_id u) = Some u"
    using wf_find_task [OF assms(2,4)] assms(3,5) by (simp add: touches_only_def)
  then show ?thesis using find_task_Some_iff by blast
qed

lemma reroute_result:
  assumes "store_wf s" and "find_task s (t_id task) = Some task"
  obtains u x where "reroute now task sess s = Inr u" and "store_wf u" and "touches_only {t_id task} s u"
    and "find_task u (t_id task) = Some x" and "same_core task x" and "t_session x = t_session task"
    and "t_status x = (if t_status task = WAITING_SESSION then QUEUED else t_status task)"
    and "t_attempt_count x = t_attempt_count task"
proof (cases "t_status task = WAITING_SESSION")
  case False
  show ?thesis by (rule that [of s task]) (use assms False in \<open>simp_all add: reroute_def\<close>)
next
  case True
  let ?why = "Some (''re-homed from '' @ py_repr (t_session task) @ '' to '' @ py_repr sess @ '' for a fresh claim'')"
  have "edge_allowed WAITING_SESSION QUEUED [] task" by (simp add: edge_allowed_def is_valid_transition_def)
  from transition_locked_result [OF assms this, of now "''REROUTED''" ?why] obtain u where
    u: "transition_locked now (t_id task) WAITING_SESSION QUEUED ''REROUTED'' ?why [] False s
      = Inr (final_row now WAITING_SESSION QUEUED ?why [] task, u)"
    and F: "\<And>z. find_task u z = (if z = t_id task then Some (final_row now WAITING_SESSION QUEUED ?why [] task)
        else find_task s z)" by blast
  have "evolves s u"
    by (rule transition_locked_evolves [OF u assms(1)]) (use assms(2) True in \<open>auto simp: status_groups\<close>)
  then have wf: "store_wf u" using assms(1) by (rule evolves_wf)
  show ?thesis
    by (rule that [of u "final_row now WAITING_SESSION QUEUED ?why [] task"])
      (use u wf True transition_locked_touches [OF u assms(1)] in
        \<open>simp_all add: reroute_def step_locked_def F same_core_def final_row_attempts\<close>)
qed

lemma rehome_row:
  assumes "find_task s (t_id task) = Some x" and "t_session x = t_session task"
  obtains y where "find_task (rehome now task sess s) (t_id task) = Some y" and "t_session y = sess"
    and "same_core x y" and "t_status y = t_status x" and "t_attempt_count y = t_attempt_count x"
proof (cases "t_session task = sess")
  case True
  then show ?thesis using assms by (intro that [of x]) (simp_all add: rehome_def)
next
  case False
  let ?y = "x\<lparr>t_session := sess, t_position := max_position (ensure_lane now sess s) sess + 1\<rparr>"
  show ?thesis
    by (rule that [of ?y]) (use assms(1) False in \<open>simp_all add: rehome_def Let_def find_task_update_task same_core_def\<close>)
qed

context store_relation
begin

lemma R_write_agent_binding: "R s (write_agent_binding tid agent skills s)"
proof -
  let ?s1 = "case agent of None \<Rightarrow> s | Some a \<Rightarrow> update_task tid (\<lambda>t. t\<lparr>t_agent_id := Some a\<rparr>) s"
  have 1: "R s ?s1"
    by (cases agent) (auto intro: R_refl R_annotate_task simp: same_identity_def)
  have "R ?s1 (case skills of None \<Rightarrow> ?s1 | Some ks \<Rightarrow> update_task tid (\<lambda>t. t\<lparr>t_skill_ids := ks\<rparr>) ?s1)"
    by (cases skills) (auto intro: R_refl R_annotate_task simp: same_identity_def)
  then show ?thesis unfolding write_agent_binding_def Let_def by (rule R_trans [OF 1])
qed

lemma R_rehome: "R s (rehome now task sess s)"
proof (cases "t_session task = sess")
  case False
  have "R u (update_task (t_id task) (\<lambda>t. t\<lparr>t_session := sess, t_position := p\<rparr>) u)" for u p
    by (rule R_annotate_task) (simp add: same_identity_def)
  then show ?thesis unfolding rehome_def Let_def if_P [OF False] by (rule R_trans [OF R_ensure_lane])
qed (simp add: rehome_def R_refl)

lemma R_reroute:
  assumes "reroute now task sess s = Inr u" and "store_wf s" and "find_task s (t_id task) = Some task"
  shows "R s u"
  using assms by (auto simp: reroute_def R_refl status_groups split: if_splits intro: R_step_locked)

lemma R_bind_locked:
  assumes "bind_locked now task sess node state ev agent skills s = Inr (b, s')"
    and "store_wf s" and "find_task s (t_id task) = Some task" and "t_status task \<notin> set TERMINAL_STATUSES"
    and "\<And>u. u \<in> set (s_tasks s) \<Longrightarrow> t_id u \<noteq> t_id task \<Longrightarrow> \<not> holds_runtime sess u"
  shows "R s s'"
proof -
  from reroute_result [OF assms(2,3), of now sess] obtain s1 x where r: "reroute now task sess s = Inr s1"
    and wf: "store_wf s1" and t: "touches_only {t_id task} s s1" and f: "find_task s1 (t_id task) = Some x"
    and x: "t_session x = t_session task" "t_status x = (if t_status task = WAITING_SESSION then QUEUED else t_status task)" .
  let ?s2 = "rehome now task sess s1"
  have s': "s' = routed_event now task sess node state ev (write_agent_binding (t_id task) agent skills
       (update_task (t_id task) (bind_row now sess node state ev) ?s2))"
    using assms(1) r by (auto simp: bind_locked_def Let_def split: option.splits)
  from rehome_row [OF f x(1), of now sess] obtain y where y: "find_task ?s2 (t_id task) = Some y"
    "t_status y = t_status x" by metis
  have wf2: "store_wf ?s2" using wf by simp
  have t2: "touches_only {t_id task} s ?s2" using t rehome_touches touches_only_trans by blast
  have bind: "R ?s2 (update_task (t_id task) (bind_row now sess node state ev) ?s2)"
    by (rule R_bind [OF y(1) _ wf2])
      (use assms(4) x(2) y(2) others_keep_runtime [OF assms(2) wf2 t2] assms(5) in \<open>auto simp: status_groups\<close>)
  show ?thesis
    unfolding s' routed_event_def
    by (rule R_trans [OF R_trans [OF R_reroute [OF r assms(2,3)] R_rehome] R_trans [OF bind
          R_trans [OF R_write_agent_binding R_event]]])
qed

lemma R_bind_task:
  assumes "bind_task_to_session now tid sess node state ev agent skills s = (r, s')"
    and "store_wf s" and "s_pending s = []"
  shows "R s s'"
proof (cases "find_task s tid")
  case None
  then show ?thesis using assms(1) by (simp add: bind_task_to_session_def R_refl)
next
  case (Some task)
  have id: "t_id task = tid" using find_task_Some_iff [OF Some] by simp
  show ?thesis
  proof (cases "s' = s")
    case True
    then show ?thesis by (simp add: R_refl)
  next
    case False
    with assms(1) Some have nt: "t_status task \<notin> set TERMINAL_STATUSES"
      and free: "List.find (\<lambda>t. t_id t \<noteq> tid \<and> holds_runtime sess t) (s_tasks s) = None"
      and w: "with_connection (bind_locked now task sess node state ev agent skills) s = (r, s')"
      by (auto simp: bind_task_to_session_def split: if_splits option.splits)
    show ?thesis
      by (rule R_connection [OF w assms(3)], erule R_bind_locked)
        (use assms(2) Some id nt free in \<open>auto simp: find_None_iff\<close>)
  qed
qed

lemma R_release_binding:
  "release_execution_binding now tid reason s = (r, s') \<Longrightarrow> s_pending s = [] \<Longrightarrow> R s s'"
  unfolding release_execution_binding_def
  by (erule R_connection)
     (auto simp: Let_def R_refl same_identity_def ROUTING_BOUND_STATES_def split: option.splits if_splits
       intro!: R_trans [OF R_annotate_task R_event])

lemma R_routing_deferral:
  "record_routing_deferral now tid ev s = (r, s') \<Longrightarrow> s_pending s = [] \<Longrightarrow> R s s'"
  unfolding record_routing_deferral_def
  by (erule R_connection)
     (auto simp: Let_def R_refl same_identity_def ROUTING_BOUND_STATES_def split: option.splits if_splits
       intro!: R_trans [OF R_annotate_task R_event])

lemma R_agent_binding:
  "set_agent_binding now tid agent skills s = (r, s') \<Longrightarrow> s_pending s = [] \<Longrightarrow> R s s'"
  unfolding set_agent_binding_def
  by (erule R_connection)
     (auto simp: Let_def R_refl same_identity_def split: option.splits
       intro!: R_trans [OF R_write_agent_binding R_annotate_task])

end

section \<open>What binding does\<close>

lemma write_agent_binding_find:
  "find_task (write_agent_binding tid agent skills s) z =
     map_option (\<lambda>t. if z = tid then t\<lparr>t_agent_id := (case agent of None \<Rightarrow> t_agent_id t | Some a \<Rightarrow> Some a),
        t_skill_ids := (case skills of None \<Rightarrow> t_skill_ids t | Some k \<Rightarrow> k)\<rparr> else t) (find_task s z)"
  by (cases agent; cases skills; cases "find_task s z")
    (simp_all add: write_agent_binding_def Let_def find_task_update_task)

definition bindable :: "task \<Rightarrow> bool" where
  "bindable t \<longleftrightarrow> t_status t \<in> set MOVABLE_STATUSES \<and> \<not> (is_bound t \<and> nonempty (t_execution_session t))"

lemma bind_granted:
  assumes "store_wf s" and "find_task s tid = Some x" and "bindable x"
    and "List.find (\<lambda>t. t_id t \<noteq> tid \<and> holds_runtime sess t) (s_tasks s) = None"
  obtains y s' where "bind_task_to_session now tid sess node state ev agent skills s = (Inr (Bound y True), s')"
    and "store_wf s'" and "find_task s' tid = Some y" and "touches_only {tid} s s'" and "same_core x y"
    and "t_session y = sess" and "t_execution_session y = Some sess" and "t_routing_state y = Some state"
    and "t_status y = (if t_status x = WAITING_SESSION then QUEUED else t_status x)"
    and "t_attempt_count y = t_attempt_count x"
proof -
  have id: "t_id x = tid" using find_task_Some_iff [OF assms(2)] by simp
  have fx: "find_task s (t_id x) = Some x" using assms(2) id by simp
  from reroute_result [OF assms(1) fx, of now sess] obtain s1 x1 where r: "reroute now x sess s = Inr s1"
    and wf: "store_wf s1" and t: "touches_only {t_id x} s s1" and f: "find_task s1 (t_id x) = Some x1"
    and x1: "same_core x x1" "t_session x1 = t_session x"
      "t_status x1 = (if t_status x = WAITING_SESSION then QUEUED else t_status x)"
      "t_attempt_count x1 = t_attempt_count x" .
  let ?s2 = "rehome now x sess s1"
  let ?b = "bind_row now sess node state ev"
  from rehome_row [OF f x1(2), of now sess] obtain x2 where f2: "find_task ?s2 (t_id x) = Some x2" "t_session x2 = sess"
    "same_core x1 x2" "t_status x2 = t_status x1" "t_attempt_count x2 = t_attempt_count x1" .
  let ?y = "(?b x2)\<lparr>t_agent_id := (case agent of None \<Rightarrow> t_agent_id (?b x2) | Some a \<Rightarrow> Some a),
        t_skill_ids := (case skills of None \<Rightarrow> t_skill_ids (?b x2) | Some k \<Rightarrow> k)\<rparr>"
  let ?s3 = "routed_event now x sess node state ev (write_agent_binding (t_id x) agent skills
     (update_task (t_id x) ?b ?s2))"
  have b: "t_id (?b z) = t_id z" for z by (simp add: bind_row_def)
  have fy: "find_task ?s3 tid = Some ?y"
    using f2(1) id by (simp add: routed_event_def write_agent_binding_find find_task_update_task b)
  have t3: "touches_only {tid} ?s2 ?s3"
    by (simp add: touches_only_def routed_event_def write_agent_binding_find find_task_update_task b id option.map_ident)
  have lk: "bind_locked now x sess node state ev agent skills s = Inr (Bound ?y True, ?s3)"
    using r fy id by (simp add: bind_locked_def Let_def)
  have nt: "t_status x \<notin> set TERMINAL_STATUSES" using assms(3) by (auto simp: bindable_def status_groups)
  have run: "bind_task_to_session now tid sess node state ev agent skills s = (Inr (Bound ?y True), drain_events ?s3)"
    using assms(2-4) lk nt by (auto simp: bind_task_to_session_def bindable_def with_connection_def)
  have wf3: "store_wf ?s3"
    using evolution.R_wf [OF evolution.R_bind_locked [OF lk assms(1) fx nt] assms(1)] assms(4) id
    by (auto simp: find_None_iff)
  have "touches_only {tid} s ?s3"
    using t t3 rehome_touches [of x s1 now sess] id touches_only_trans by metis
  then show ?thesis
    using f2 x1 same_core_trans [OF x1(1) f2(3)] wf3 fy
    by (intro that [OF run]) (simp_all add: touches_only_def bind_row_def same_core_def)
qed

text \<open>
  Binding a task to a session, on every branch: unknown, settled and mid-flight tasks
  are refused; a task already bound answers itself for its own session and is refused for
  another; a session held by another unfinished task is refused, naming the holder; else the
  task claims it, moves into its lane keeping identity, status and attempts (a task that
  waited for its old session is requeued), binding it again changes nothing, and no other
  task can claim that session.
\<close>

theorem bind_task_to_session_contract:
  assumes "store_wf s" and "find_task s tid = Some x" and "sess \<noteq> []" and "state \<in> {BOUND, SPAWNED}"
  shows "let holder = List.find (\<lambda>t. t_id t \<noteq> tid \<and> holds_runtime sess t) (s_tasks s);
         result = bind_task_to_session now tid sess node state ev agent skills s
    in if terminal x then result = (Inr (TASK_ALREADY_SETTLED (t_status x)), s)
       else if is_bound x \<and> nonempty (t_execution_session x)
       then result = (Inr (if t_execution_session x = Some sess then Bound x False
                           else TASK_ALREADY_BOUND (the (t_execution_session x))), s)
       else if t_status x \<notin> {QUEUED, BLOCKED, PAUSED, WAITING_SESSION}
       then result = (Inr (TASK_NOT_BINDABLE (t_status x)), s)
       else if holder \<noteq> None then result = (Inr (SESSION_ALREADY_CLAIMED (t_id (the holder))), s)
       else \<exists>y s'. result = (Inr (Bound y True), s') \<and> find_task s' tid = Some y \<and> touches_only {tid} s s'
         \<and> same_core x y \<and> t_session y = sess \<and> holds_runtime sess y
         \<and> t_status y = (if t_status x = WAITING_SESSION then QUEUED else t_status x)
         \<and> t_attempt_count y = t_attempt_count x
         \<and> bind_task_to_session later tid sess node' state' ev' agent' skills' s' = (Inr (Bound y False), s')
         \<and> (\<forall>k z. k \<noteq> tid \<and> find_task s' k = Some z \<and> bindable z \<longrightarrow>
              (\<exists>h. bind_task_to_session later k sess node' state' ev' agent' skills' s'
                     = (Inr (SESSION_ALREADY_CLAIMED h), s')))"
proof (cases "bindable x \<and> List.find (\<lambda>t. t_id t \<noteq> tid \<and> holds_runtime sess t) (s_tasks s) = None")
  case False
  show ?thesis
  proof (cases "terminal x")
    case True
    with assms(2) show ?thesis by (simp add: bind_task_to_session_def terminal_def)
  next
    case nt: False
    show ?thesis
    proof (cases "is_bound x \<and> nonempty (t_execution_session x)")
      case True
      with nt assms(2) show ?thesis by (simp add: bind_task_to_session_def terminal_def)
    next
      case nb: False
      show ?thesis
      proof (cases "t_status x \<in> {QUEUED, BLOCKED, PAUSED, WAITING_SESSION}")
        case True
        with nb False obtain h where h: "List.find (\<lambda>t. t_id t \<noteq> tid \<and> holds_runtime sess t) (s_tasks s) = Some h"
          by (auto simp: bindable_def MOVABLE_STATUSES_def)
        have "bind_task_to_session now tid sess node state ev agent skills s = (Inr (SESSION_ALREADY_CLAIMED (t_id h)), s)"
          using nt nb True assms(2) h by (auto simp: bind_task_to_session_def terminal_def MOVABLE_STATUSES_def)
        then show ?thesis unfolding Let_def h if_not_P [OF nt] if_not_P [OF nb] using True by simp
      next
        case ns: False
        have "bind_task_to_session now tid sess node state ev agent skills s = (Inr (TASK_NOT_BINDABLE (t_status x)), s)"
          using nt nb ns assms(2) by (auto simp: bind_task_to_session_def terminal_def MOVABLE_STATUSES_def)
        then show ?thesis unfolding Let_def if_not_P [OF nt] if_not_P [OF nb] using ns by simp
      qed
    qed
  qed
next
  case True
  then have b: "bindable x" and n: "List.find (\<lambda>t. t_id t \<noteq> tid \<and> holds_runtime sess t) (s_tasks s) = None" by auto
  from bind_granted [OF assms(1,2) b n, of now node state ev agent skills] obtain y s' where
    r: "bind_task_to_session now tid sess node state ev agent skills s = (Inr (Bound y True), s')"
    and fy: "find_task s' tid = Some y" and t: "touches_only {tid} s s'" and c: "same_core x y"
    and y: "t_session y = sess" "t_execution_session y = Some sess" "t_routing_state y = Some state"
      "t_status y = (if t_status x = WAITING_SESSION then QUEUED else t_status x)"
      "t_attempt_count y = t_attempt_count x" .
  have st: "t_status x \<in> {QUEUED, BLOCKED, PAUSED, WAITING_SESSION}"
    using b by (auto simp: bindable_def status_groups)
  have nt: "t_status y \<notin> set TERMINAL_STATUSES" using y(4) st by (auto simp: status_groups)
  have bd: "is_bound y" "nonempty (t_execution_session y)"
    using y(2,3) assms(3,4) by (auto simp: is_bound_def ROUTING_BOUND_STATES_def nonempty_def)
  have h: "holds_runtime sess y" using y(2) bd(1) nt by (simp add: holds_runtime_def is_bound_def)
  have again: "bind_task_to_session later tid sess node' state' ev' agent' skills' s' = (Inr (Bound y False), s')"
    using fy nt bd y(2) by (simp add: bind_task_to_session_def)
  have other: "\<exists>h. bind_task_to_session later k sess node' state' ev' agent' skills' s'
                     = (Inr (SESSION_ALREADY_CLAIMED h), s')"
    if "k \<noteq> tid" "find_task s' k = Some z" "bindable z" for k z
  proof -
    from find_task_Some_iff [OF fy] that(1) h
    have "List.find (\<lambda>t. t_id t \<noteq> k \<and> holds_runtime sess t) (s_tasks s') \<noteq> None"
      by (auto simp: find_None_iff)
    then show ?thesis
      using that by (auto simp: bind_task_to_session_def bindable_def status_groups)
  qed
  have nx: "\<not> terminal x" using st by (auto simp: terminal_def status_groups)
  have nb: "\<not> (is_bound x \<and> nonempty (t_execution_session x))" using b by (simp add: bindable_def)
  have "\<exists>y s'. bind_task_to_session now tid sess node state ev agent skills s = (Inr (Bound y True), s')
         \<and> find_task s' tid = Some y \<and> touches_only {tid} s s'
         \<and> same_core x y \<and> t_session y = sess \<and> holds_runtime sess y
         \<and> t_status y = (if t_status x = WAITING_SESSION then QUEUED else t_status x)
         \<and> t_attempt_count y = t_attempt_count x
         \<and> bind_task_to_session later tid sess node' state' ev' agent' skills' s' = (Inr (Bound y False), s')
         \<and> (\<forall>k z. k \<noteq> tid \<and> find_task s' k = Some z \<and> bindable z \<longrightarrow>
              (\<exists>h. bind_task_to_session later k sess node' state' ev' agent' skills' s'
                     = (Inr (SESSION_ALREADY_CLAIMED h), s')))"
    using r fy t c y(1,4,5) h again other by blast
  then show ?thesis unfolding Let_def n if_not_P [OF nx] if_not_P [OF nb] using st by auto
qed

section \<open>What may be routed\<close>

lemma routable_in_lane_facts:
  assumes "t \<in> set (routable_in_lane s sess)"
  shows "t \<in> set (s_tasks s) \<and> t_session t = sess \<and> \<not> is_bound t
    \<and> (t_status t = QUEUED \<or> t_status t = WAITING_SESSION) \<and> is_rescuable t"
proof (cases "sess = UNASSIGNED_LANE")
  case True
  then show ?thesis using assms by (auto simp: routable_in_lane_def dispatch_order_def is_rescuable_def)
next
  case False
  with assms have c: "lane_candidate s sess = Some t" "\<not> is_bound t" "is_rescuable t"
    by (auto simp: routable_in_lane_def split: option.splits if_splits)
  show ?thesis
  proof (cases "next_dispatchable s sess")
    case (Some u)
    then show ?thesis
      using c next_dispatchable_spec [of s sess] by (simp add: lane_candidate_def ready_in_def)
  next
    case None
    let ?l = "dispatch_order (filter (\<lambda>t. t_session t = sess \<and> t_status t = WAITING_SESSION \<and> \<not> is_bound t) (s_tasks s))"
    have "t \<in> set ?l" using c(1) None by (cases ?l) (auto simp: lane_candidate_def)
    then show ?thesis using c(3) by (auto simp: dispatch_order_def)
  qed
qed

lemma set_py_take: "set (py_take n xs) \<subseteq> set xs"
  by (simp add: py_take_def set_take_subset)

lemma py_take_all: "int (length (py_take n xs)) < n \<Longrightarrow> py_take n xs = xs"
  by (cases "n < 0") (auto simp: py_take_def min_def split: if_splits)

lemma routable_in_named_lane:
  "sess \<noteq> UNASSIGNED_LANE \<Longrightarrow> t \<in> set (routable_in_lane s sess) \<Longrightarrow> lane_candidate s sess = Some t"
  by (auto simp: routable_in_lane_def split: option.splits if_splits)

lemma lane_candidate_queued:
  assumes "lane_candidate s sess = Some t" and "t_status t = QUEUED"
  shows "next_dispatchable s sess = Some t"
proof (cases "next_dispatchable s sess")
  case (Some u)
  then show ?thesis using assms(1) by (simp add: lane_candidate_def)
next
  case None
  let ?l = "dispatch_order (filter (\<lambda>t. t_session t = sess \<and> t_status t = WAITING_SESSION \<and> \<not> is_bound t) (s_tasks s))"
  have "t \<in> set ?l" using assms(1) None by (cases ?l) (auto simp: lane_candidate_def)
  then show ?thesis using assms(2) by (simp add: dispatch_order_def)
qed

text \<open>
  What the router may place: only tasks without a runtime that are QUEUED or waiting for
  their session, and only where no caller's choice of lane is overridden (unassigned,
  waiting, or router-owned); from a named lane at most one task, and a QUEUED one only if the
  engine itself would dispatch it next. Unless the limit was reached, every such unassigned
  task is offered.
\<close>

theorem routable_tasks_spec:
  "(\<forall>t\<in>set (routable_tasks s limit). t \<in> set (s_tasks s) \<and> \<not> is_bound t
      \<and> (t_status t = QUEUED \<or> t_status t = WAITING_SESSION)
      \<and> (t_session t = UNASSIGNED_LANE \<or> t_status t = WAITING_SESSION
         \<or> truthy (dget (t_metadata t) ROUTER_OWNED_METADATA_KEY))
      \<and> (t_session t = UNASSIGNED_LANE \<or> t_status t = WAITING_SESSION
         \<or> next_dispatchable s (t_session t) = Some t)
      \<and> (\<forall>u\<in>set (routable_tasks s limit). t_session u = t_session t \<longrightarrow> t_session t = UNASSIGNED_LANE \<or> u = t))
   \<and> (int (length (routable_tasks s limit)) < limit \<longrightarrow>
      (\<forall>t\<in>set (s_tasks s). t_session t = UNASSIGNED_LANE \<and> \<not> is_bound t
         \<and> (t_status t = QUEUED \<or> t_status t = WAITING_SESSION) \<longrightarrow> t \<in> set (routable_tasks s limit)))"
proof (intro conjI ballI impI)
  let ?all = "concat (map (routable_in_lane s) (routing_lanes s))"
  let ?sorted = "sort_key (\<lambda>t. - t_priority t) (sort_key t_created_at (sort_key t_position ?all))"
  have "\<exists>sess. t \<in> set (routable_in_lane s sess)" if "t \<in> set (routable_tasks s limit)" for t
    using set_py_take [of limit ?sorted] that by (auto simp: routable_tasks_def)
  then have lane: "t \<in> set (routable_in_lane s (t_session t))" if "t \<in> set (routable_tasks s limit)" for t
    using that routable_in_lane_facts by metis
  fix t assume t: "t \<in> set (routable_tasks s limit)"
  note F = routable_in_lane_facts [OF lane [OF t]]
  show "t \<in> set (s_tasks s)" "\<not> is_bound t" "t_status t = QUEUED \<or> t_status t = WAITING_SESSION"
    using F by auto
  show "t_session t = UNASSIGNED_LANE \<or> t_status t = WAITING_SESSION
         \<or> truthy (dget (t_metadata t) ROUTER_OWNED_METADATA_KEY)" using F by (simp add: is_rescuable_def)
  show "t_session t = UNASSIGNED_LANE \<or> t_status t = WAITING_SESSION \<or> next_dispatchable s (t_session t) = Some t"
    using F lane_candidate_queued [OF routable_in_named_lane [OF _ lane [OF t]]] by auto
  fix u assume u: "u \<in> set (routable_tasks s limit)" "t_session u = t_session t"
  show "t_session t = UNASSIGNED_LANE \<or> u = t"
    using routable_in_named_lane [OF _ lane [OF t]] routable_in_named_lane [OF _ lane [OF u(1)]] u(2) by auto
next
  let ?all = "concat (map (routable_in_lane s) (routing_lanes s))"
  let ?sorted = "sort_key (\<lambda>t. - t_priority t) (sort_key t_created_at (sort_key t_position ?all))"
  fix t assume l: "int (length (routable_tasks s limit)) < limit" and t: "t \<in> set (s_tasks s)"
    and p: "t_session t = UNASSIGNED_LANE \<and> \<not> is_bound t \<and> (t_status t = QUEUED \<or> t_status t = WAITING_SESSION)"
  have "routable_tasks s limit = ?sorted"
    using l unfolding routable_tasks_def by (rule py_take_all)
  moreover have "t \<in> set ?all"
    using t p by (auto simp: routing_lanes_def routable_in_lane_def dispatch_order_def
        intro!: bexI [of _ UNASSIGNED_LANE])
  ultimately show "t \<in> set (routable_tasks s limit)" by simp
qed

section \<open>Witnesses\<close>

lemma bind_task_to_session_contract_witness:
  "\<exists>y s'. bind_task_to_session 9 ''t1'' ''b'' None BOUND [] None None
       (sample_store [sample_task ''t1'' ''a'' 0 WAITING_SESSION]) = (Inr (Bound y True), s')
     \<and> holds_runtime ''b'' y \<and> t_session y = ''b'' \<and> t_status y = QUEUED"
  using bind_task_to_session_contract
    [of "sample_store [sample_task ''t1'' ''a'' 0 WAITING_SESSION]" "''t1''" "sample_task ''t1'' ''a'' 0 WAITING_SESSION"
      "''b''" BOUND 9 None "[]" None None]
  by (fastforce simp: Let_def terminal_def is_bound_def ROUTING_BOUND_STATES_def status_groups holds_runtime_def)

lemma routable_tasks_spec_witness:
  "t_id (hd (routable_tasks (sample_store [sample_task ''t1'' UNASSIGNED_LANE 0 QUEUED]) 5)) = ''t1''
   \<and> \<not> is_bound (hd (routable_tasks (sample_store [sample_task ''t1'' UNASSIGNED_LANE 0 QUEUED]) 5))"
proof -
  let ?s = "sample_store [sample_task ''t1'' UNASSIGNED_LANE 0 QUEUED]"
  have l: "map t_id (routable_tasks ?s 5) = [''t1'']" by code_simp
  then obtain t where "routable_tasks ?s 5 = [t]" "t_id t = ''t1''" by auto
  then show ?thesis using routable_tasks_spec [of ?s 5, THEN conjunct1, THEN bspec, of t] by auto
qed

end
