(* ===== verification/QueueDeps.thy ===== *)
theory QueueDeps
  imports QueueClaims
begin

text \<open>
  Task dependencies in \<open>queue_store.py\<close>: the iterative search for the cycle a task would
  join, the validation of proposed dependencies, and the diagnosis of deadlocked tasks. The
  search is shown to terminate, to return a real cycle, and to miss none.
\<close>

section \<open>The search\<close>

definition deps_of :: "store \<Rightarrow> string \<Rightarrow> string list" where
  "deps_of s tid = (case find_task s tid of None \<Rightarrow> [] | Some t \<Rightarrow> t_depends_on t)"

function cycle_search ::
  "store \<Rightarrow> string \<Rightarrow> (string \<times> string list) list \<Rightarrow> string list \<Rightarrow> string list option" where
  \<comment> \<open>the \<open>while stack\<close> loop; the head of the list is the top of the stack\<close>
  "cycle_search s tid [] seen = None"
| "cycle_search s tid ((current, path) # stack) seen =
     (if current = tid then Some path
      else if current \<in> set seen then cycle_search s tid stack seen
      else (case find_task s current of
              None \<Rightarrow> cycle_search s tid stack (current # seen)
            | Some row \<Rightarrow> cycle_search s tid
                (rev (map (\<lambda>nxt. (nxt, path @ [nxt])) (t_depends_on row)) @ stack) (current # seen)))"
  by pat_completeness auto

lemma known_unseen_decreases:
  assumes "find_task s current = Some row" and "current \<notin> set seen"
  shows "card (t_id ` set (s_tasks s) - insert current (set seen)) < card (t_id ` set (s_tasks s) - set seen)"
proof (rule psubset_card_mono)
  have "current \<in> t_id ` set (s_tasks s)" using find_task_Some_iff [OF assms(1)] by auto
  then show "t_id ` set (s_tasks s) - insert current (set seen) \<subset> t_id ` set (s_tasks s) - set seen"
    using assms(2) by auto
qed simp

lemma unknown_unseen_keeps:
  assumes "find_task s current = None"
  shows "t_id ` set (s_tasks s) - insert current (set seen) = t_id ` set (s_tasks s) - set seen"
  using assms by (auto simp: find_task_None_iff)

termination cycle_search
  by (relation "measures [\<lambda>(s, tid, stack, seen). card (t_id ` set (s_tasks s) - set seen),
        \<lambda>(s, tid, stack, seen). length stack]")
     (simp_all add: known_unseen_decreases unknown_unseen_keeps)

primrec dependency_cycle_locked :: "store \<Rightarrow> string \<Rightarrow> string list \<Rightarrow> string list option" where
  "dependency_cycle_locked s tid [] = None"
| "dependency_cycle_locked s tid (first # rest) =
     (case cycle_search s tid [(first, [tid, first])] [] of
        Some path \<Rightarrow> Some path
      | None \<Rightarrow> dependency_cycle_locked s tid rest)"

definition dependency_cycle :: "store \<Rightarrow> string \<Rightarrow> string list \<Rightarrow> string list option" where
  "dependency_cycle s tid depends_on = dependency_cycle_locked s tid depends_on"

section \<open>Validation and diagnosis\<close>

definition missing_tasks :: "store \<Rightarrow> string list \<Rightarrow> string list" where
  "missing_tasks s ds = filter (\<lambda>d. find_task s d = None) ds"

definition validate_dependencies :: "store \<Rightarrow> string \<Rightarrow> string list \<Rightarrow> bool \<Rightarrow> queue_error + unit" where
  "validate_dependencies s tid depends_on require_existing =
     (let wanted = filter (\<lambda>d. d \<noteq> []) depends_on
      in if wanted = [] then Inr ()
         else if tid \<in> set wanted then Inl (DependencyError (tid @ '' cannot depend on itself''))
         else if require_existing \<and> missing_tasks s wanted \<noteq> []
         then Inl (DependencyError (''depends_on references task(s) that do not exist: ''
                @ join '', '' (missing_tasks s wanted) @ '' -- ''
                @ ''a missing dependency is treated as unmet forever, so the task would never dispatch''))
         else (case dependency_cycle_locked s tid wanted of
                 Some cyc \<Rightarrow> Inl (DependencyError (''dependency cycle: '' @ join '' -> '' cyc))
               | None \<Rightarrow> Inr ()))"

record deadlock =
  d_task_id :: string
  d_session :: string
  d_status :: status
  d_cycle :: "string list option"
  d_missing :: "string list"

definition deadlock_of :: "store \<Rightarrow> task \<Rightarrow> deadlock option" where
  \<comment> \<open>one turn of the loop\<close>
  "deadlock_of s t =
     (let cyc = dependency_cycle_locked s (t_id t) (t_depends_on t); missing = missing_tasks s (t_depends_on t)
      in if t_depends_on t = [] \<or> t_status t \<in> set TERMINAL_STATUSES then None
         else if (cyc \<noteq> None \<and> cyc \<noteq> Some []) \<or> missing \<noteq> []
         then Some \<lparr>d_task_id = t_id t, d_session = t_session t, d_status = t_status t,
                    d_cycle = cyc, d_missing = missing\<rparr>
         else None)"

definition dependency_deadlocks :: "store \<Rightarrow> deadlock list" where
  "dependency_deadlocks s = List.map_filter (deadlock_of s) (s_tasks s)"

section \<open>The search finds exactly the cycles\<close>

definition dep_edges :: "store \<Rightarrow> (string \<times> string) set" where
  "dep_edges s = {(a, b). b \<in> set (deps_of s a)}"

fun walk :: "store \<Rightarrow> string list \<Rightarrow> bool" where
  \<comment> \<open>each id depends on the next one\<close>
  "walk s (a # b # rest) = (b \<in> set (deps_of s a) \<and> walk s (b # rest))"
| "walk s _ = True"

lemma walk_snoc: "walk s xs \<Longrightarrow> xs \<noteq> [] \<Longrightarrow> b \<in> set (deps_of s (last xs)) \<Longrightarrow> walk s (xs @ [b])"
  by (induction s xs rule: walk.induct) auto

lemma walk_reaches: "walk s (a # xs) \<Longrightarrow> (a, last (a # xs)) \<in> (dep_edges s)\<^sup>*"
proof (induction xs arbitrary: a)
  case Nil
  then show ?case by simp
next
  case (Cons b xs)
  then have "(a, b) \<in> dep_edges s" "(b, last (b # xs)) \<in> (dep_edges s)\<^sup>*" by (auto simp: dep_edges_def)
  then show ?case by (simp add: converse_rtrancl_into_rtrancl)
qed

definition path_to :: "store \<Rightarrow> string \<Rightarrow> string list \<Rightarrow> string \<times> string list \<Rightarrow> bool" where
  \<comment> \<open>a stack entry carries a walk from a proposed dependency to its node\<close>
  "path_to s tid wanted e \<longleftrightarrow> (\<exists>first xs. snd e = tid # first # xs \<and> first \<in> set wanted
     \<and> walk s (first # xs) \<and> last (first # xs) = fst e)"

lemma path_to_next:
  assumes "path_to s tid wanted (cur, path)" and "nxt \<in> set (deps_of s cur)"
  shows "path_to s tid wanted (nxt, path @ [nxt])"
proof -
  from assms(1) obtain first xs where p: "path = tid # first # xs" "first \<in> set wanted"
    "walk s (first # xs)" "last (first # xs) = cur" by (auto simp: path_to_def)
  have "walk s ((first # xs) @ [nxt])" by (rule walk_snoc) (use p assms(2) in auto)
  then show ?thesis using p by (auto simp: path_to_def)
qed

lemma cycle_search_sound:
  "cycle_search s tid stack seen = Some p \<Longrightarrow> (\<And>e. e \<in> set stack \<Longrightarrow> path_to s tid wanted e) \<Longrightarrow>
     path_to s tid wanted (tid, p)"
proof (induction s tid stack seen rule: cycle_search.induct)
  case (1 s tid seen)
  then show ?case by simp
next
  case (2 s tid current path stack seen)
  show ?case
  proof (cases "current = tid")
    case True
    then show ?thesis using "2.prems" by auto
  next
    case new: False
    show ?thesis
    proof (cases "current \<in> set seen")
      case True
      then show ?thesis using "2.IH"(1) [OF new True] "2.prems" new by auto
    next
      case uns: False
      show ?thesis
      proof (cases "find_task s current")
        case None
        then show ?thesis using "2.IH"(2) [OF new uns None] "2.prems" new uns by auto
      next
        case (Some row)
        have search: "cycle_search s tid (rev (map (\<lambda>n. (n, path @ [n])) (t_depends_on row)) @ stack) (current # seen)
            = Some p" using 2(4) new uns Some by simp
        show ?thesis
        proof (rule "2.IH"(3) [OF new uns Some search])
          fix e assume "e \<in> set (rev (map (\<lambda>n. (n, path @ [n])) (t_depends_on row)) @ stack)"
          then have "e \<in> set stack \<or> (\<exists>n. n \<in> set (deps_of s current) \<and> e = (n, path @ [n]))"
            using Some by (auto simp: deps_of_def)
          then show "path_to s tid wanted e"
            using "2.prems"(2) [of e] "2.prems"(2) [of "(current, path)"] path_to_next by auto
        qed
      qed
    qed
  qed
qed

lemma cycle_search_complete:
  "cycle_search s tid stack seen = None \<Longrightarrow>
     \<exists>V. set seen \<subseteq> V \<and> fst ` set stack \<subseteq> V \<and> tid \<notin> V - set seen
       \<and> (\<forall>v\<in>V - set seen. set (deps_of s v) \<subseteq> V)"
proof (induction s tid stack seen rule: cycle_search.induct)
  case (1 s tid seen)
  then show ?case by (intro exI [of _ "set seen"]) auto
next
  case (2 s tid current path stack seen)
  have new: "current \<noteq> tid" using "2.prems" by auto
  show ?case
  proof (cases "current \<in> set seen")
    case True
    then obtain V where "set seen \<subseteq> V" "fst ` set stack \<subseteq> V" "tid \<notin> V - set seen"
      "\<forall>v\<in>V - set seen. set (deps_of s v) \<subseteq> V" using "2.IH"(1) [OF new True] "2.prems" new by auto
    with True show ?thesis by (intro exI [of _ V]) auto
  next
    case uns: False
    show ?thesis
    proof (cases "find_task s current")
      case None
      then obtain V where "set (current # seen) \<subseteq> V" "fst ` set stack \<subseteq> V" "tid \<notin> V - set (current # seen)"
        "\<forall>v\<in>V - set (current # seen). set (deps_of s v) \<subseteq> V"
        using "2.IH"(2) [OF new uns None] "2.prems" new uns by auto
      moreover have "deps_of s current = []" using None by (simp add: deps_of_def)
      ultimately show ?thesis using new by (intro exI [of _ V]) auto
    next
      case (Some row)
      let ?st = "rev (map (\<lambda>n. (n, path @ [n])) (t_depends_on row)) @ stack"
      have d: "deps_of s current = t_depends_on row" using Some by (simp add: deps_of_def)
      have n: "fst ` set ?st = set (t_depends_on row) \<union> fst ` set stack" by (simp add: image_Un image_image)
      from Some obtain V where V: "set (current # seen) \<subseteq> V" "fst ` set ?st \<subseteq> V" "tid \<notin> V - set (current # seen)"
        "\<forall>v\<in>V - set (current # seen). set (deps_of s v) \<subseteq> V"
        using "2.IH"(3) [OF new uns Some] "2.prems" new uns by auto
      from V(2) have "set (deps_of s current) \<subseteq> V" "fst ` set stack \<subseteq> V" unfolding n d by auto
      with V(1,3,4) new show ?thesis by (intro exI [of _ V]) auto
    qed
  qed
qed

lemma closed_reach:
  assumes "(a, b) \<in> (dep_edges s)\<^sup>*" and "a \<in> V" and "\<And>v. v \<in> V \<Longrightarrow> set (deps_of s v) \<subseteq> V"
  shows "b \<in> V"
  using assms(1,2) by (induction rule: rtrancl_induct) (use assms(3) in \<open>auto simp: dep_edges_def\<close>)

lemma dependency_cycle_None:
  "dependency_cycle_locked s tid wanted = None \<longleftrightarrow> (\<forall>d\<in>set wanted. (d, tid) \<notin> (dep_edges s)\<^sup>*)"
proof (induction wanted)
  case Nil
  then show ?case by simp
next
  case (Cons d wanted)
  have "cycle_search s tid [(d, [tid, d])] [] = None \<longleftrightarrow> (d, tid) \<notin> (dep_edges s)\<^sup>*"
  proof
    assume "cycle_search s tid [(d, [tid, d])] [] = None"
    from cycle_search_complete [OF this] obtain V where "d \<in> V" "tid \<notin> V" "\<And>v. v \<in> V \<Longrightarrow> set (deps_of s v) \<subseteq> V" by auto
    then show "(d, tid) \<notin> (dep_edges s)\<^sup>*" using closed_reach by blast
  next
    assume n: "(d, tid) \<notin> (dep_edges s)\<^sup>*"
    show "cycle_search s tid [(d, [tid, d])] [] = None"
    proof (rule ccontr)
      assume "cycle_search s tid [(d, [tid, d])] [] \<noteq> None"
      then obtain p where "cycle_search s tid [(d, [tid, d])] [] = Some p" by auto
      then have "path_to s tid [d] (tid, p)" by (rule cycle_search_sound) (simp add: path_to_def)
      then obtain xs where "walk s (d # xs)" "last (d # xs) = tid" by (auto simp: path_to_def)
      with walk_reaches n show False by metis
    qed
  qed
  with Cons.IH show ?case by (auto split: option.splits)
qed

text \<open>
  C38: The cycle search terminates and is exact: it answers a path precisely when some
  proposed dependency leads back to the task, and the path it answers starts and ends at the
  task, goes through a proposed dependency first, and follows recorded dependencies.
\<close>

theorem dependency_cycle_exact:
  "case dependency_cycle s tid wanted of
     None \<Rightarrow> \<forall>d\<in>set wanted. (d, tid) \<notin> (dep_edges s)\<^sup>*
   | Some p \<Rightarrow> \<exists>d xs. p = tid # d # xs \<and> d \<in> set wanted \<and> walk s (d # xs) \<and> last p = tid
       \<and> (d, tid) \<in> (dep_edges s)\<^sup>*"
proof (cases "dependency_cycle s tid wanted")
  case None
  then show ?thesis using dependency_cycle_None [of s tid wanted] by (simp add: dependency_cycle_def)
next
  case (Some p)
  have "path_to s tid wanted (tid, p)" if "dependency_cycle_locked s tid ws = Some p" "set ws \<subseteq> set wanted" for ws
    using that
  proof (induction ws)
    case Nil
    then show ?case by simp
  next
    case (Cons d ws)
    show ?case
    proof (cases "cycle_search s tid [(d, [tid, d])] []")
      case None
      then show ?thesis using Cons by simp
    next
      case (Some q)
      moreover from Some Cons.prems(1) have "q = p" by simp
      ultimately show ?thesis
        using cycle_search_sound [of s tid "[(d, [tid, d])]" "[]" p wanted] Cons.prems(2) by (simp add: path_to_def)
    qed
  qed
  from this [of wanted] Some obtain d xs where p: "p = tid # d # xs" "d \<in> set wanted" "walk s (d # xs)"
    "last (d # xs) = tid" by (auto simp: dependency_cycle_def path_to_def)
  with walk_reaches [OF p(3)] have "(d, tid) \<in> (dep_edges s)\<^sup>*" by simp
  with p Some show ?thesis by auto
qed

lemma reach_without_new_edges:
  assumes "(d, tid) \<in> (E \<union> {tid} \<times> W)\<^sup>*"
  shows "(d, tid) \<in> E\<^sup>*"
  using assms
proof (induction rule: converse_rtrancl_induct)
  case base
  then show ?case by simp
next
  case (step y z)
  then show ?case by (auto intro: converse_rtrancl_into_rtrancl)
qed

lemma acyclic_new_edges:
  assumes "acyclic E" and "finite W" and "\<forall>d\<in>W. (d, tid) \<notin> E\<^sup>*"
  shows "acyclic (E \<union> {tid} \<times> W)"
  using assms(2,3)
proof (induction W rule: finite_induct)
  case empty
  then show ?case using assms(1) by simp
next
  case (insert d W)
  have "E \<union> {tid} \<times> insert d W = insert (tid, d) (E \<union> {tid} \<times> W)" by auto
  moreover have "(d, tid) \<notin> (E \<union> {tid} \<times> W)\<^sup>*"
  proof
    assume "(d, tid) \<in> (E \<union> {tid} \<times> W)\<^sup>*"
    from reach_without_new_edges [OF this] show False using insert.prems by simp
  qed
  ultimately show ?case using insert by (simp add: acyclic_insert)
qed

text \<open>
  Accepted dependencies are sound: they all exist (when that is required), none is the
  task itself, and adding them to an acyclic dependency graph leaves it acyclic; they are
  refused only for one of these reasons.
\<close>

theorem validate_dependencies_sound:
  "case validate_dependencies s tid ds must_exist of
     Inr _ \<Rightarrow> (acyclic (dep_edges s) \<longrightarrow> acyclic (dep_edges s \<union> {tid} \<times> (set ds - {[]})))
        \<and> tid \<notin> set ds - {[]} \<and> (must_exist \<longrightarrow> (\<forall>d\<in>set ds - {[]}. find_task s d \<noteq> None))
   | Inl e \<Rightarrow> (\<exists>m. e = DependencyError m) \<and> (\<exists>d\<in>set ds - {[]}. d = tid
        \<or> (must_exist \<and> find_task s d = None) \<or> (d, tid) \<in> (dep_edges s)\<^sup>*)"
proof -
  let ?w = "filter (\<lambda>d. d \<noteq> []) ds"
  have w: "set ?w = set ds - {[]}" by auto
  show ?thesis
  proof (cases "validate_dependencies s tid ds must_exist")
    case (Inr u)
    then have 1: "?w = [] \<or> (tid \<notin> set ?w \<and> (must_exist \<longrightarrow> missing_tasks s ?w = [])
        \<and> dependency_cycle_locked s tid ?w = None)"
      by (auto simp: validate_dependencies_def Let_def split: if_splits option.splits)
    then have nr: "\<forall>d\<in>set ?w. (d, tid) \<notin> (dep_edges s)\<^sup>*" using dependency_cycle_None by (metis empty_iff empty_set)
    have "acyclic (dep_edges s) \<longrightarrow> acyclic (dep_edges s \<union> {tid} \<times> (set ds - {[]}))"
      using acyclic_new_edges [of "dep_edges s" "set ?w" tid] nr unfolding w by simp
    moreover have "tid \<notin> set ds - {[]}" using 1 unfolding w [symmetric] by (metis empty_iff empty_set)
    moreover have "must_exist \<longrightarrow> (\<forall>d\<in>set ds - {[]}. find_task s d \<noteq> None)"
      using 1 unfolding w [symmetric] by (auto simp: missing_tasks_def filter_empty_conv)
    ultimately show ?thesis using Inr by simp
  next
    case (Inl e)
    have cyc: "dependency_cycle_locked s tid ?w \<noteq> None \<Longrightarrow> \<exists>d\<in>set ds - {[]}. (d, tid) \<in> (dep_edges s)\<^sup>*"
      unfolding dependency_cycle_None w by simp
    have miss: "missing_tasks s ?w \<noteq> [] \<Longrightarrow> \<exists>d\<in>set ds - {[]}. find_task s d = None"
      by (auto simp: missing_tasks_def filter_empty_conv)
    show ?thesis
      using Inl cyc miss by (auto simp: validate_dependencies_def Let_def split: if_splits option.splits)
  qed
qed

text \<open>
  The deadlock diagnosis reports exactly the unfinished tasks that depend on a missing
  task or on themselves through recorded dependencies.
\<close>

theorem dependency_deadlocks_exact:
  assumes "store_wf s" and "find_task s tid = Some x"
  shows "(\<exists>d\<in>set (dependency_deadlocks s). d_task_id d = tid) \<longleftrightarrow>
     t_status x \<notin> {COMPLETED, SKIPPED, CANCELLED}
     \<and> (\<exists>d\<in>set (t_depends_on x). find_task s d = None \<or> (d, tid) \<in> (dep_edges s)\<^sup>*)"
proof -
  have id: "t_id x = tid" and mem: "x \<in> set (s_tasks s)" using find_task_Some_iff [OF assms(2)] by auto
  have "(\<exists>d\<in>set (dependency_deadlocks s). d_task_id d = tid) \<longleftrightarrow> deadlock_of s x \<noteq> None"
  proof
    assume "\<exists>d\<in>set (dependency_deadlocks s). d_task_id d = tid"
    then obtain t d where t: "t \<in> set (s_tasks s)" "deadlock_of s t = Some d" "d_task_id d = tid"
      by (auto simp: dependency_deadlocks_def List.map_filter_def)
    then have "t_id t = tid" by (auto simp: deadlock_of_def Let_def split: if_splits)
    then have "t = x" by (rule wf_row_unique [OF assms t(1)])
    then show "deadlock_of s x \<noteq> None" using t(2) by simp
  next
    assume "deadlock_of s x \<noteq> None"
    then obtain d where d: "deadlock_of s x = Some d" by auto
    then have "d_task_id d = tid" using id by (auto simp: deadlock_of_def Let_def split: if_splits)
    then show "\<exists>d\<in>set (dependency_deadlocks s). d_task_id d = tid"
      using mem d by (force simp: dependency_deadlocks_def List.map_filter_def)
  qed
  also have "\<dots> \<longleftrightarrow> t_status x \<notin> set TERMINAL_STATUSES
     \<and> (dependency_cycle_locked s tid (t_depends_on x) \<noteq> None \<or> missing_tasks s (t_depends_on x) \<noteq> [])"
  proof -
    have "dependency_cycle_locked s tid (t_depends_on x) \<noteq> Some []"
      using dependency_cycle_exact [where s = s and tid = tid and wanted = "t_depends_on x"] by (auto simp: dependency_cycle_def split: option.splits)
    then show ?thesis by (auto simp: deadlock_of_def Let_def id missing_tasks_def)
  qed
  also have "\<dots> \<longleftrightarrow> t_status x \<notin> {COMPLETED, SKIPPED, CANCELLED}
     \<and> (\<exists>d\<in>set (t_depends_on x). find_task s d = None \<or> (d, tid) \<in> (dep_edges s)\<^sup>*)"
    unfolding dependency_cycle_None by (auto simp: missing_tasks_def filter_empty_conv status_groups)
  finally show ?thesis .
qed

text \<open>
  A task that depends on a SKIPPED or CANCELLED task can never be dispatched again,
  whatever the queue does from then on, and yet the diagnosis, which looks only for missing
  tasks and cycles, does not report it.
\<close>

theorem cancelled_dependency_deadlock_unreported:
  assumes "store_wf s" and "find_task s tid = Some x" and "dep \<in> set (t_depends_on x)"
    and "find_task s dep = Some d" and "t_status d \<in> {SKIPPED, CANCELLED}"
    and "\<forall>e\<in>set (t_depends_on x). find_task s e \<noteq> None \<and> (e, tid) \<notin> (dep_edges s)\<^sup>*"
    and "queue_step s s'"
  shows "(\<forall>r\<in>set (dependency_deadlocks s). d_task_id r \<noteq> tid)
    \<and> (\<exists>y. find_task s' tid = Some y \<and> (\<forall>sess. next_dispatchable s' sess \<noteq> Some y))"
proof
  have "\<not> (\<exists>r\<in>set (dependency_deadlocks s). d_task_id r = tid)"
  proof -
    have "\<forall>t\<in>set (s_tasks s). \<forall>r. deadlock_of s t = Some r \<longrightarrow> d_task_id r \<noteq> tid"
    proof (intro ballI allI impI notI)
      fix t r assume t: "t \<in> set (s_tasks s)" "deadlock_of s t = Some r" "d_task_id r = tid"
      then have i: "t_id t = tid" by (auto simp: deadlock_of_def Let_def split: if_splits)
      have "t = x" by (rule wf_row_unique [OF assms(1,2) t(1) i])
      moreover have "missing_tasks s (t_depends_on x) = []" "dependency_cycle_locked s tid (t_depends_on x) = None"
        using assms(6) dependency_cycle_None [of s tid "t_depends_on x"]
        by (auto simp: missing_tasks_def filter_empty_conv)
      ultimately show False using t(2) i by (simp add: deadlock_of_def Let_def split: if_splits)
    qed
    then show ?thesis by (auto simp: dependency_deadlocks_def List.map_filter_def)
  qed
  then show "\<forall>r\<in>set (dependency_deadlocks s). d_task_id r \<noteq> tid" by blast
  have ev: "evolves s s'" using assms(7) by (simp add: queue_step_def)
  from evolves_keeps_rows [OF ev assms(1,2)] obtain y where y: "find_task s' tid = Some y" "row_move\<^sup>*\<^sup>* x y" .
  from evolves_keeps_rows [OF ev assms(1,4)] obtain e where e: "find_task s' dep = Some e" "row_move\<^sup>*\<^sup>* d e" .
  have "terminal d" using assms(5) by (auto simp: terminal_def status_groups)
  from row_moves_terminal [OF e(2) this] assms(5) have "t_status e \<noteq> COMPLETED" by auto
  moreover have "dep \<in> set (t_depends_on y)" using row_moves_core [OF y(2)] assms(3) by (simp add: same_core_def)
  ultimately have "\<not> dependencies_satisfied s' y"
    using e(1) by (auto simp: dependencies_satisfied_def list_all_iff intro!: bexI [of _ dep])
  then have "next_dispatchable s' sess \<noteq> Some y" for sess
    using next_dispatchable_row(4) [OF evolves_wf [OF ev assms(1)], of sess y] by blast
  with y(1) show "\<exists>y. find_task s' tid = Some y \<and> (\<forall>sess. next_dispatchable s' sess \<noteq> Some y)" by blast
qed

section \<open>Witnesses\<close>

abbreviation waiting_pair :: store where
  "waiting_pair \<equiv> sample_store [sample_task ''t1'' ''a'' 0 CANCELLED,
     (sample_task ''t2'' ''a'' 1 QUEUED)\<lparr>t_depends_on := [''t1'']\<rparr>]"

lemma waiting_pair_reach: "(''t1'', b) \<in> (dep_edges waiting_pair)\<^sup>* \<Longrightarrow> b = ''t1''"
  by (rule closed_reach [of "''t1''" b waiting_pair "{''t1''}", simplified]) (simp_all add: deps_of_def)

lemma dependency_cycle_exact_witness:
  "\<exists>xs. dependency_cycle waiting_pair ''t1'' [''t2''] = Some (''t1'' # ''t2'' # xs) \<and> last (''t2'' # xs) = ''t1''"
proof -
  have "dependency_cycle waiting_pair ''t1'' [''t2''] = Some [''t1'', ''t2'', ''t1'']" by code_simp
  then show ?thesis using dependency_cycle_exact [where s = waiting_pair and tid = "''t1''" and wanted = "[''t2'']"] by auto
qed

lemma waiting_pair_edges: "dep_edges waiting_pair \<subseteq> {(''t2'', ''t1'')}"
  by (auto simp: dep_edges_def deps_of_def find_task_def split: if_splits)

lemma waiting_pair_acyclic: "acyclic (dep_edges waiting_pair)"
proof (rule acyclic_subset [OF _ waiting_pair_edges])
  have "acyclic ({} :: (string \<times> string) set)" by (simp add: acyclic_def)
  then show "acyclic {(''t2'', ''t1'')}" by (simp add: acyclic_insert)
qed

lemma validate_dependencies_sound_witness:
  "acyclic (dep_edges waiting_pair \<union> {(''t3'', ''t2'')})"
proof -
  have "validate_dependencies waiting_pair ''t3'' [''t2''] True = Inr ()" by code_simp
  then show ?thesis using waiting_pair_acyclic validate_dependencies_sound
        [where s = waiting_pair and tid = "''t3''" and ds = "[''t2'']" and must_exist = True] by simp
qed

lemma dependency_deadlocks_exact_witness:
  "\<exists>d\<in>set (dependency_deadlocks (sample_store [(sample_task ''t2'' ''a'' 1 QUEUED)\<lparr>t_depends_on := [''t1'']\<rparr>])).
     d_task_id d = ''t2''"
  using dependency_deadlocks_exact
    [of "sample_store [(sample_task ''t2'' ''a'' 1 QUEUED)\<lparr>t_depends_on := [''t1'']\<rparr>]" "''t2''"
      "(sample_task ''t2'' ''a'' 1 QUEUED)\<lparr>t_depends_on := [''t1'']\<rparr>"]
  by simp

lemma cancelled_dependency_deadlock_unreported_witness:
  "\<not> (\<exists>r\<in>set (dependency_deadlocks waiting_pair). d_task_id r = ''t2'')
   \<and> (\<exists>y. find_task waiting_pair ''t2'' = Some y \<and> (\<forall>sess. next_dispatchable waiting_pair sess \<noteq> Some y))"
  using cancelled_dependency_deadlock_unreported [of waiting_pair "''t2''"
      "(sample_task ''t2'' ''a'' 1 QUEUED)\<lparr>t_depends_on := [''t1'']\<rparr>" "''t1''" "sample_task ''t1'' ''a'' 0 CANCELLED"
      waiting_pair] queue_step_refl [of waiting_pair] waiting_pair_reach [of "''t2''"]
  by auto

end
