(* ===== verification/QueueEvidence.thy ===== *)
theory QueueEvidence
  imports QueueClaims
begin

text \<open>
  What \<open>queue_store.py\<close> remembers about a task while it runs: recovery state, the durable
  inactivity window and the recovery of a stale task, the worktree-cleanup records and delivery
  verdicts kept in the metadata column, dispatch observations, progress checkpoints, and the
  one door into RUNNING that stores its own proof.
\<close>

section \<open>Recovery state\<close>

definition json_empty :: "json \<Rightarrow> bool" where
  \<comment> \<open>\<open>v in (None, "", [], {}, ())\<close>\<close>
  "json_empty v \<longleftrightarrow> v = JNull \<or> v = JStr [] \<or> v = JArr [] \<or> v = JObj []"

definition prune :: "dict \<Rightarrow> dict" where
  "prune d = filter (\<lambda>kv. \<not> json_empty (snd kv)) d"

definition recovery_identity :: "dict \<Rightarrow> dict \<Rightarrow> dict" where
  \<comment> \<open>\<open>incoming\<close>: a known resume token is never traded for another\<close>
  "recovery_identity recovery identity =
     (let incoming = prune identity; held = dget recovery ''conversation_id''
      in if truthy held \<and> dget incoming ''conversation_id'' \<noteq> JNull \<and> dget incoming ''conversation_id'' \<noteq> held
         then dpop incoming ''conversation_id'' else incoming)"

definition merge_recovery :: "timestamp \<Rightarrow> dict \<Rightarrow> dict \<Rightarrow> dict \<Rightarrow> dict" where
  "merge_recovery now recovery identity capsule =
     (let merged = dupdate recovery (recovery_identity recovery identity);
          boxed = dupdate (dict_or_empty (dget recovery ''capsule'')) (prune capsule)
      in dset (if boxed \<noteq> [] then dset merged ''capsule'' (JObj boxed) else merged) ''updated_at'' (JInt now))"

definition write_metadata :: "timestamp \<Rightarrow> string \<Rightarrow> dict \<Rightarrow> store \<Rightarrow> store" where
  \<comment> \<open>\<open>UPDATE queue_tasks SET metadata = ?, updated_at = ? WHERE id = ?\<close>\<close>
  "write_metadata now tid m = update_task tid (\<lambda>t. t\<lparr>t_metadata := m, t_updated_at := now\<rparr>)"

definition record_recovery_state ::
  "timestamp \<Rightarrow> string \<Rightarrow> dict \<Rightarrow> dict \<Rightarrow> store \<Rightarrow> (queue_error + dict) \<times> store" where
  "record_recovery_state now tid identity capsule = with_connection (\<lambda>s.
     case find_task s tid of
       None \<Rightarrow> Inl (KeyError (''no such task: '' @ tid))
     | Some row \<Rightarrow>
         let recovery = merge_recovery now (dict_or_empty (dget (t_metadata row) ''recovery'')) identity capsule
         in Inr (recovery, write_metadata now tid (dset (t_metadata row) ''recovery'' (JObj recovery)) s))"

definition get_recovery_state :: "store \<Rightarrow> string \<Rightarrow> queue_error + dict" where
  "get_recovery_state s tid = (case get_task s tid of
       None \<Rightarrow> Inl (KeyError (''no such task: '' @ tid))
     | Some t \<Rightarrow> Inr (dict_or_empty (dget (t_metadata t) ''recovery'')))"

section \<open>Inactivity and stale recovery\<close>

definition live_job :: "timestamp \<Rightarrow> string \<Rightarrow> verify_job \<Rightarrow> bool" where
  "live_job now tid j \<longleftrightarrow> v_task_id j = tid \<and> v_status j \<in> {VERIFY_CLAIMED, VERIFY_RUNNING}
     \<and> (case v_lease_expires_at j of None \<Rightarrow> False | Some e \<Rightarrow> now < e)"

definition has_live_verification :: "timestamp \<Rightarrow> store \<Rightarrow> string \<Rightarrow> bool" where
  "has_live_verification now s tid = list_ex (live_job now tid) (s_verify_jobs s)"

definition same_snapshot :: "task \<Rightarrow> task \<Rightarrow> bool" where
  \<comment> \<open>the compare of the compare-and-set: the row is still the one observed\<close>
  "same_snapshot seen row \<longleftrightarrow> t_status row = t_status seen \<and> t_updated_at row = t_updated_at seen
     \<and> t_attempt_count row = t_attempt_count seen \<and> t_claim_token row = t_claim_token seen"

definition observe_inactive_task ::
  "timestamp \<Rightarrow> task \<Rightarrow> string \<Rightarrow> timestamp \<Rightarrow> store \<Rightarrow> (queue_error + task option) \<times> store" where
  "observe_inactive_task now seen signature observed_at = with_connection (\<lambda>s.
     case find_task s (t_id seen) of
       None \<Rightarrow> Inr (None, s)
     | Some row \<Rightarrow>
         if \<not> same_snapshot seen row then Inr (None, s)
         else if has_live_verification now s (t_id seen) then Inr (Some row, s)
         else if t_inactive_signature row \<noteq> Some signature \<or> t_inactive_observed_at row = None
         then let s1 = update_task (t_id seen) (\<lambda>t. t\<lparr>t_inactive_observed_at := Some observed_at,
                         t_inactive_signature := Some signature\<rparr>) s
              in Inr (find_task s1 (t_id seen), s1)
         else Inr (Some row, s))"

definition clear_inactive_observation :: "string \<Rightarrow> store \<Rightarrow> (queue_error + unit) \<times> store" where
  "clear_inactive_observation tid = with_connection (\<lambda>s.
     Inr ((), s\<lparr>s_tasks := update_where
       (\<lambda>t. t_id t = tid \<and> (t_inactive_observed_at t \<noteq> None \<or> t_inactive_signature t \<noteq> None))
       (\<lambda>t. t\<lparr>t_inactive_observed_at := None, t_inactive_signature := None\<rparr>) (s_tasks s)\<rparr>))"

definition stale_recovery_columns :: "timestamp \<Rightarrow> status \<Rightarrow> string \<Rightarrow> column list" where
  "stale_recovery_columns now to_status reason =
     clear_claim @ [Uncertain_or_waiting_since (if to_status = WAITING_SESSION then Some now else None),
       Inactive_observed_at None, Inactive_signature None]
     @ (if to_status = CANCELLED then [Last_error (Some reason)] else [])"

definition recover_stale_active_task ::
  "timestamp \<Rightarrow> task \<Rightarrow> status \<Rightarrow> string \<Rightarrow> store \<Rightarrow> (queue_error + task option) \<times> store" where
  "recover_stale_active_task now seen to_status reason s =
     (if t_status seen \<notin> {RUNNING, VERIFYING, DISPATCH_UNCERTAIN}
         \<or> to_status \<notin> {WAITING_SESSION, BLOCKED, CANCELLED}
      then (Inl (ValueError ''invalid stale active recovery''), s)
      else with_connection (\<lambda>s. case find_task s (t_id seen) of
          None \<Rightarrow> Inr (None, s)
        | Some row \<Rightarrow>
            if \<not> same_snapshot seen row then Inr (None, s)
            else if has_live_verification now s (t_id seen) then Inr (None, s)
            else and_then (transition_locked now (t_id seen) (t_status seen) to_status
                     ''STALE_ACTIVE_RECOVERED'' (Some reason) (stale_recovery_columns now to_status reason) False s)
                   (\<lambda>(row, s'). Inr (Some row, s'))) s)"

section \<open>Records kept in the metadata column\<close>

definition isolation_field :: "string \<Rightarrow> dict \<Rightarrow> json" where
  \<comment> \<open>\<open>json_extract(metadata, '$.git_isolation.<field>')\<close>\<close>
  "isolation_field k m = dget (dict_or_empty (dget m ISOLATION_KEY)) k"

definition list_isolated_worktree_paths :: "store \<Rightarrow> int \<Rightarrow> json list" where
  \<comment> \<open>a set in the code\<close>
  "list_isolated_worktree_paths s limit = filter truthy
     (sql_limit limit (filter (\<lambda>p. p \<noteq> JNull)
        (map (\<lambda>t. isolation_field ''worktree_path'' (t_metadata t)) (s_tasks s))))"

definition cleanup_state :: "dict \<Rightarrow> json" where
  \<comment> \<open>\<open>json_extract(metadata, '$.worktree_cleanup.state')\<close>\<close>
  "cleanup_state m = dget (dict_or_empty (dget m METADATA_KEY)) ''state''"

record cleanup_item =
  ct_id :: string
  ct_session :: string
  ct_status :: status
  ct_attempt_count :: int
  ct_max_attempts :: int
  ct_metadata :: dict
  ct_terminal_at :: timestamp
  ct_state :: json
  ct_worktree_path :: json
  ct_repo_path :: json

definition cleanup_item_of :: "task \<Rightarrow> cleanup_item" where
  "cleanup_item_of t = \<lparr>ct_id = t_id t, ct_session = t_session t, ct_status = t_status t,
     ct_attempt_count = t_attempt_count t, ct_max_attempts = t_max_attempts t, ct_metadata = t_metadata t,
     ct_terminal_at = (case t_completed_at t of None \<Rightarrow> t_updated_at t | Some c \<Rightarrow> c),
     ct_state = cleanup_state (t_metadata t),
     ct_worktree_path = isolation_field ''worktree_path'' (t_metadata t),
     ct_repo_path = isolation_field ''repo_path'' (t_metadata t)\<rparr>"

definition list_worktree_cleanup_tasks :: "store \<Rightarrow> json list \<Rightarrow> int \<Rightarrow> cleanup_item list" where
  "list_worktree_cleanup_tasks s states limit =
     (if limit \<le> 0 then []
      else map cleanup_item_of (take (nat limit) (sort_key t_updated_at
        (filter (\<lambda>t. cleanup_state (t_metadata t) \<noteq> JNull
            \<and> (states \<noteq> [] \<longrightarrow> cleanup_state (t_metadata t) \<in> set states)) (s_tasks s)))))"

definition patch_worktree_cleanup :: "string \<Rightarrow> dict \<Rightarrow> store \<Rightarrow> (queue_error + unit) \<times> store" where
  "patch_worktree_cleanup tid patch = with_connection (\<lambda>s.
     case find_task s tid of
       None \<Rightarrow> Inr ((), s)
     | Some row \<Rightarrow>
         let record = dupdate (dict_or_empty (dget (t_metadata row) METADATA_KEY)) patch;
             m = dset (t_metadata row) METADATA_KEY (JObj record)
         in Inr ((), update_task tid (\<lambda>t. t\<lparr>t_metadata := m\<rparr>) s))"

definition last_five :: "'a list \<Rightarrow> 'a list" where
  \<comment> \<open>\<open>history[-5:]\<close>\<close>
  "last_five xs = drop (length xs - 5) xs"

definition with_verdict :: "timestamp \<Rightarrow> dict \<Rightarrow> dict \<Rightarrow> dict" where
  "with_verdict now verdict m =
     (let entry = JObj (dset verdict ''at'' (JInt now));
          history = (case as_list (dget m ''delivery_verdict_history'') of None \<Rightarrow> [] | Some h \<Rightarrow> h)
      in dset (dset m ''delivery_verdict'' entry) ''delivery_verdict_history'' (JArr (last_five (history @ [entry]))))"

definition record_delivery_verdict :: "timestamp \<Rightarrow> string \<Rightarrow> dict \<Rightarrow> store \<Rightarrow> (queue_error + unit) \<times> store" where
  "record_delivery_verdict now tid verdict = with_connection (\<lambda>s.
     case find_task s tid of
       None \<Rightarrow> Inr ((), s)
     | Some row \<Rightarrow> Inr ((), update_task tid (\<lambda>t. t\<lparr>t_metadata := with_verdict now verdict (t_metadata row)\<rparr>) s))"

definition refused_verdict :: "dict \<Rightarrow> dict option" where
  \<comment> \<open>the verdict when it is a dictionary whose kind is REFUSED\<close>
  "refused_verdict m = (case as_dict (dget m ''delivery_verdict'') of
       None \<Rightarrow> None
     | Some v \<Rightarrow> if dget v ''kind'' = JStr ''REFUSED'' then Some v else None)"

definition persisted_refusal :: "string option \<Rightarrow> task \<Rightarrow> bool" where
  "persisted_refusal sess t \<longleftrightarrow> t_status t \<in> {QUEUED, READY, DISPATCHING} \<and> in_scope sess t
     \<and> refused_verdict (t_metadata t) \<noteq> None"

definition refusal_reason :: "task \<Rightarrow> string" where
  "refusal_reason t = (let v = (case refused_verdict (t_metadata t) of None \<Rightarrow> [] | Some v \<Rightarrow> v)
     in ''persisted delivery refusal: '' @ or_text (dget v ''activation'') ''REFUSED'' @ ''; ''
        @ or_text (dget v ''detail'') ''operator must resolve the target before retry'')"

definition reconcile_persisted_refusals ::
  "timestamp \<Rightarrow> string option \<Rightarrow> store \<Rightarrow> (queue_error + string list) \<times> store" where
  "reconcile_persisted_refusals now sess = with_connection (\<lambda>s.
     let rows = filter (persisted_refusal sess) (s_tasks s)
     in and_then (for_each (\<lambda>row. step_locked now (t_id row) (t_status row) BLOCKED
               ''PERSISTED_DELIVERY_REFUSAL_RECOVERED'' (Some (refusal_reason row)) clear_claim) rows s)
          (\<lambda>s'. Inr (map t_id rows, s')))"

section \<open>Dispatch evidence\<close>

definition OBSERVATION_KEYS :: "string list" where
  "OBSERVATION_KEYS = [''submission_id'', ''dispatch_idempotency_key'', ''node_id'', ''state'',
     ''output_sha256'', ''observed_at'', ''signal'', ''reconciliation_attempts'', ''requires_human'',
     ''enter_sent'', ''submit_key'']"

definition allowed_observation :: "dict \<Rightarrow> dict" where
  "allowed_observation obs = map (\<lambda>k. (k, dget obs k)) (filter (dhas obs) OBSERVATION_KEYS)"

definition record_dispatch_observation ::
  "timestamp \<Rightarrow> string \<Rightarrow> dict \<Rightarrow> store \<Rightarrow> (queue_error + unit) \<times> store" where
  "record_dispatch_observation now tid obs = with_connection (\<lambda>s.
     case find_task s tid of
       None \<Rightarrow> Inl (KeyError tid)
     | Some row \<Rightarrow>
         let current = dupdate (dict_or_empty (dget (t_metadata row) ''dispatch_observation'')) (allowed_observation obs)
         in Inr ((), write_metadata now tid (dset (t_metadata row) ''dispatch_observation'' (JObj current)) s))"

definition CHECKPOINT_KEYS :: "string list" where
  "CHECKPOINT_KEYS = [''goal'', ''findings'', ''files_read'', ''changed_files'', ''tests'', ''failures'',
     ''next_action'', ''repo'', ''task_id'']"

definition bounded_text :: "(string \<Rightarrow> string) \<Rightarrow> dict \<Rightarrow> string \<Rightarrow> dict" where
  \<comment> \<open>\<open>redact\<close> stands for \<open>redaction.redact_text\<close>\<close>
  "bounded_text redact c k = (if dget c k = JNull then [] else [(k, JStr (take 1200 (redact (json_str (dget c k)))))])"

definition bounded_list :: "(string \<Rightarrow> string) \<Rightarrow> dict \<Rightarrow> string \<Rightarrow> queue_error + dict" where
  "bounded_list redact c k =
     (if \<not> dhas c k then Inr []
      else case as_list (dget c k) of
        None \<Rightarrow> Inl (ValueError (k @ '' must be a list''))
      | Some xs \<Rightarrow> Inr [(k, JArr (map (\<lambda>x. JStr (take 300 (redact (json_str x)))) (take 50 xs)))])"

definition bounded_repo :: "(string \<Rightarrow> string) \<Rightarrow> dict \<Rightarrow> queue_error + dict" where
  "bounded_repo redact c =
     (let repo = (if dhas c ''repo'' then dget c ''repo'' else JObj [])
      in if \<not> truthy repo then Inr []
         else case as_dict repo of
           None \<Rightarrow> Inl (ValueError ''repo must be an object'')
         | Some r \<Rightarrow> Inr [(''repo'', JObj (map (\<lambda>k. (k, JStr (take 500 (redact (json_str (dget r k))))))
             (filter (\<lambda>k. dget r k \<noteq> JNull) [''path'', ''branch'', ''commit''])))])"

definition bounded_checkpoint :: "(string \<Rightarrow> string) \<Rightarrow> dict \<Rightarrow> queue_error + dict" where
  "bounded_checkpoint redact c =
     (let unknown = filter (\<lambda>k. k \<notin> set CHECKPOINT_KEYS) (map fst c)
      in if unknown \<noteq> []
         then Inl (ValueError (''unsupported checkpoint fields: ['' @ join '', '' (map py_repr (sort (remdups unknown))) @ '']''))
         else and_then (map_each (bounded_list redact c) [''findings'', ''files_read'', ''changed_files'', ''tests'', ''failures''])
           (\<lambda>lists. and_then (bounded_repo redact c) (\<lambda>repo.
              Inr (bounded_text redact c ''goal'' @ bounded_text redact c ''next_action'' @ concat lists @ repo))))"

definition record_fast_agent_checkpoint ::
  "(string \<Rightarrow> string) \<Rightarrow> timestamp \<Rightarrow> string \<Rightarrow> json \<Rightarrow> store \<Rightarrow> (queue_error + dict) \<times> store" where
  "record_fast_agent_checkpoint redact now tid checkpoint s =
     (case as_dict checkpoint of
        None \<Rightarrow> (Inl (ValueError ''checkpoint must be an object''), s)
      | Some c \<Rightarrow> (case bounded_checkpoint redact c of
          Inl e \<Rightarrow> (Inl e, s)
        | Inr bounded \<Rightarrow> with_connection (\<lambda>s. case find_task s tid of
            None \<Rightarrow> Inl (KeyError tid)
          | Some row \<Rightarrow>
              let old = dict_or_empty (dget (t_metadata row) ''fast_agent_checkpoint'')
              in (case py_int (if dhas old ''version'' then dget old ''version'' else JInt 0) of
                    Inl e \<Rightarrow> Inl (PyError e)
                  | Inr v \<Rightarrow>
                      let saved = dupdate (dupdate old bounded)
                            [(''task_id'', JStr tid), (''version'', JInt (v + 1)), (''updated_at'', JInt now)];
                          s1 = write_metadata now tid (dset (t_metadata row) ''fast_agent_checkpoint'' (JObj saved)) s
                      in Inr (saved, log_event now (t_session row) (Some tid) ''FAST_AGENT_CHECKPOINT''
                                       (Some ''progress delta saved'') s1))) s))"

definition record_uncertain_reconciliation ::
  "timestamp \<Rightarrow> string \<Rightarrow> string \<Rightarrow> string option \<Rightarrow> int \<Rightarrow> store \<Rightarrow> (queue_error + dict) \<times> store" where
  "record_uncertain_reconciliation now tid outcome submission max_attempts = with_connection (\<lambda>s.
     case find_task s tid of
       None \<Rightarrow> Inl (KeyError tid)
     | Some row \<Rightarrow>
         let obs = dict_or_empty (dget (t_metadata row) ''dispatch_observation'');
             counted = (if truthy (dget obs ''reconciliation_attempts'') then dget obs ''reconciliation_attempts'' else JInt 0)
         in (case py_int counted of
               Inl e \<Rightarrow> Inl (PyError e)
             | Inr n \<Rightarrow>
                 let attempts = n + 1;
                     obs1 = dupdate obs [(''reconciliation_attempts'', JInt attempts),
                       (''last_reconciliation'', JStr outcome), (''last_reconciled_at'', JInt now),
                       (''requires_human'', JBool (max_attempts \<le> attempts))];
                     obs2 = (if nonempty submission then dset obs1 ''submission_id'' (JStr (the submission)) else obs1)
                 in Inr (obs2, write_metadata now tid (dset (t_metadata row) ''dispatch_observation'' (JObj obs2)) s)))"

definition stamped_evidence :: "timestamp \<Rightarrow> dict \<Rightarrow> dict" where
  \<comment> \<open>\<open>{**evidence, "accepted_at": evidence.get("accepted_at") or iso_now()}\<close>\<close>
  "stamped_evidence now evidence = dset evidence ''accepted_at''
     (if truthy (dget evidence ''accepted_at'') then dget evidence ''accepted_at'' else JInt now)"

definition mark_running_with_evidence ::
  "timestamp \<Rightarrow> string \<Rightarrow> dict \<Rightarrow> string option \<Rightarrow> store \<Rightarrow> (queue_error + task) \<times> store" where
  "mark_running_with_evidence now tid evidence reason s =
     (if \<not> evidence_accepted evidence
      then (Inl (InvalidTransitionError (tid @ '': valid execution evidence is required'')), s)
      else with_connection (\<lambda>s. case find_task s tid of
          None \<Rightarrow> Inl (KeyError tid)
        | Some row \<Rightarrow> transition_locked now tid (t_status row) RUNNING ''STARTED'' reason
            [Metadata (dset (t_metadata row) ''execution_evidence'' (JObj (stamped_evidence now evidence)))] False s) s)"

section \<open>Every operation keeps the contract\<close>

lemma row_note_metadata_only:
  assumes "dget m ''execution_evidence'' = dget (t_metadata x) ''execution_evidence''"
  shows "row_note x (x\<lparr>t_metadata := m\<rparr>)"
  using annotate_metadata [OF assms, of "t_updated_at x"] by simp

lemma row_note_inactive: "row_note x (x\<lparr>t_inactive_observed_at := a, t_inactive_signature := b\<rparr>)"
  by (rule row_noteI) (simp_all add: same_identity_def has_evidence_def unclaimed_def)

lemma stale_recovery_no_claim [simp]: "no_claim_columns (stale_recovery_columns now st reason)"
  by (simp add: stale_recovery_columns_def)

lemma stale_recovery_metadata [simp]: "metadata_column (stale_recovery_columns now st reason) = None"
  by (simp add: stale_recovery_columns_def)

context store_relation
begin

lemma R_write_metadata:
  assumes "store_wf s" and "find_task s tid = Some row"
    and "dget m ''execution_evidence'' = dget (t_metadata row) ''execution_evidence''"
  shows "R s (write_metadata now tid m s)"
  unfolding write_metadata_def by (rule R_note_row [OF assms(1,2)]) (rule annotate_metadata [OF assms(3)])

lemma R_metadata_only:
  assumes "store_wf s" and "find_task s tid = Some row"
    and "dget m ''execution_evidence'' = dget (t_metadata row) ''execution_evidence''"
  shows "R s (update_task tid (\<lambda>t. t\<lparr>t_metadata := m\<rparr>) s)"
  by (rule R_note_row [OF assms(1,2)]) (rule row_note_metadata_only [OF assms(3)])

lemma R_recovery_state:
  assumes "record_recovery_state now tid identity capsule s = (r, s')" and "store_wf s" and "s_pending s = []"
  shows "R s s'"
  using assms(1) unfolding record_recovery_state_def
  by (rule R_connection [OF _ assms(3)]) (auto simp: Let_def intro: R_write_metadata assms(2) split: option.splits)

lemma R_observe_inactive:
  assumes "observe_inactive_task now seen sig at s = (r, s')" and "store_wf s" and "s_pending s = []"
  shows "R s s'"
  using assms(1) unfolding observe_inactive_task_def
  by (rule R_connection [OF _ assms(3)])
    (auto simp: Let_def R_refl intro!: R_note_task row_note_inactive split: option.splits if_splits)

lemma R_clear_inactive:
  assumes "clear_inactive_observation tid s = (r, s')" and "s_pending s = []"
  shows "R s s'"
  using assms(1) unfolding clear_inactive_observation_def
  by (rule R_connection [OF _ assms(2)]) (auto intro!: R_note row_note_inactive)

lemma R_recover_stale:
  assumes "recover_stale_active_task now seen st reason s = (r, s')" and "store_wf s" and "s_pending s = []"
  shows "R s s'"
proof (cases "t_status seen \<notin> {RUNNING, VERIFYING, DISPATCH_UNCERTAIN} \<or> st \<notin> {WAITING_SESSION, BLOCKED, CANCELLED}")
  case True
  then show ?thesis using assms by (auto simp: recover_stale_active_task_def R_refl)
next
  case False
  from assms(1) show ?thesis
    unfolding recover_stale_active_task_def if_not_P [OF False]
  proof (rule R_connection [OF _ assms(3)], goal_cases)
    case (1 a t)
    then show ?case
      by (auto simp: and_then_Inr_iff R_refl same_snapshot_def split: option.splits if_splits
          intro: R_transition [OF _ assms(2)])
  qed
qed

lemma R_patch_cleanup:
  assumes "patch_worktree_cleanup tid p s = (r, s')" and "store_wf s" and "s_pending s = []"
  shows "R s s'"
  using assms(1) unfolding patch_worktree_cleanup_def
  by (rule R_connection [OF _ assms(3)])
    (auto simp: Let_def R_refl METADATA_KEY_def intro!: R_metadata_only assms(2) split: option.splits)

lemma R_delivery_verdict:
  assumes "record_delivery_verdict now tid v s = (r, s')" and "store_wf s" and "s_pending s = []"
  shows "R s s'"
  using assms(1) unfolding record_delivery_verdict_def
  by (rule R_connection [OF _ assms(3)])
    (auto simp: Let_def R_refl with_verdict_def intro!: R_metadata_only assms(2) split: option.splits)

lemma R_persisted_refusals:
  assumes "reconcile_persisted_refusals now sess s = (r, s')" and "store_wf s" and "s_pending s = []"
  shows "R s s'"
  using assms(1) unfolding reconcile_persisted_refusals_def Let_def
proof (rule R_connection [OF _ assms(3)], goal_cases)
  case (1 a t)
  then have l: "for_each (\<lambda>row. step_locked now (t_id row) (t_status row) BLOCKED
      ''PERSISTED_DELIVERY_REFUSAL_RECOVERED'' (Some (refusal_reason row)) clear_claim)
      (filter (persisted_refusal sess) (s_tasks s)) s = Inr t" by (auto simp: and_then_Inr_iff)
  have "R s t \<and> touches_only (t_id ` set (filter (persisted_refusal sess) (s_tasks s))) s t"
    by (rule R_for_each_transition [OF l assms(2) wf_filter_rows [OF assms(2)]]) (simp_all add: status_groups)
  then show ?case ..
qed

lemma R_dispatch_observation:
  assumes "record_dispatch_observation now tid obs s = (r, s')" and "store_wf s" and "s_pending s = []"
  shows "R s s'"
  using assms(1) unfolding record_dispatch_observation_def
  by (rule R_connection [OF _ assms(3)]) (auto simp: Let_def intro: R_write_metadata assms(2) split: option.splits)

lemma R_checkpoint:
  assumes "record_fast_agent_checkpoint redact now tid c s = (r, s')" and "store_wf s" and "s_pending s = []"
  shows "R s s'"
proof (cases "as_dict c")
  case None
  then show ?thesis using assms by (auto simp: record_fast_agent_checkpoint_def R_refl)
next
  case (Some d)
  show ?thesis
  proof (cases "bounded_checkpoint redact d")
    case (Inl e)
    then show ?thesis using assms Some by (auto simp: record_fast_agent_checkpoint_def R_refl)
  next
    case (Inr b)
    from assms(1) show ?thesis
      unfolding record_fast_agent_checkpoint_def Some option.case Inr sum.case
      by (rule R_connection [OF _ assms(3)])
        (auto simp: Let_def intro: R_trans [OF R_write_metadata R_event] assms(2) split: option.splits sum.splits)
  qed
qed

lemma R_uncertain_reconciliation:
  assumes "record_uncertain_reconciliation now tid result sub n s = (r, s')" and "store_wf s" and "s_pending s = []"
  shows "R s s'"
  using assms(1) unfolding record_uncertain_reconciliation_def
  by (rule R_connection [OF _ assms(3)])
    (auto simp: Let_def intro: R_write_metadata assms(2) split: option.splits sum.splits)

lemma R_mark_running:
  assumes "mark_running_with_evidence now tid ev reason s = (r, s')" and "store_wf s" and "s_pending s = []"
  shows "R s s'"
proof (cases "evidence_accepted ev")
  case False
  then show ?thesis using assms by (auto simp: mark_running_with_evidence_def R_refl)
next
  case True
  then have n: "\<not> \<not> evidence_accepted ev" by simp
  from assms(1) show ?thesis
    unfolding mark_running_with_evidence_def if_not_P [OF n]
    by (rule R_connection [OF _ assms(3)])
      (auto simp: status_groups split: option.splits intro: R_transition [OF _ assms(2)])
qed

end

section \<open>Recovery state only grows\<close>

lemma dget_dupdate_cases: "dget (dupdate d e) k = dget d k \<or> (k, dget (dupdate d e) k) \<in> set e"
proof (induction e arbitrary: d)
  case Nil
  then show ?case by simp
next
  case (Cons kv e)
  from Cons.IH [of "dset d (fst kv) (snd kv)"] show ?case by (cases kv; cases "k = fst kv") auto
qed

lemma dget_dupdate_pruned:
  "\<not> json_empty (dget d k) \<Longrightarrow> \<not> json_empty (dget (dupdate d (prune e)) k)"
  using dget_dupdate_cases [of d "prune e" k] by (auto simp: prune_def)

lemma dpop_subset: "set (dpop d k) \<subseteq> set d"
  by (auto simp: dpop_def AList.delete_eq)

lemma recovery_identity_entries: "(k, v) \<in> set (recovery_identity recovery identity) \<Longrightarrow> \<not> json_empty v"
  using dpop_subset [of "prune identity" "''conversation_id''"]
  by (auto simp: recovery_identity_def Let_def prune_def split: if_splits)

lemma dget_entry: "(k, v) \<in> set d \<Longrightarrow> distinct (map fst d) \<Longrightarrow> dget d k = v"
  by (simp add: dget_def)

lemma prune_distinct: "distinct (map fst d) \<Longrightarrow> distinct (map fst (prune d))"
  unfolding prune_def by (rule distinct_map_filter)

lemma recovery_identity_conversation:
  assumes "truthy (dget recovery ''conversation_id'')" and "distinct (map fst identity)"
    and "(''conversation_id'', v) \<in> set (recovery_identity recovery identity)"
  shows "v = dget recovery ''conversation_id''"
proof -
  let ?in = "prune identity" and ?k = "''conversation_id''"
  have not_popped: "(?k, v) \<notin> set (dpop ?in ?k)" by (auto simp: dpop_def AList.delete_eq)
  with assms(1,3) have "(?k, v) \<in> set ?in" and "dget ?in ?k = JNull \<or> dget ?in ?k = dget recovery ?k"
    by (auto simp: recovery_identity_def Let_def split: if_splits)
  moreover from this(1) have "dget ?in ?k = v" by (rule dget_entry [OF _ prune_distinct [OF assms(2)]])
  moreover from \<open>(?k, v) \<in> set ?in\<close> have "v \<noteq> JNull" by (auto simp: prune_def json_empty_def)
  ultimately show ?thesis by auto
qed

lemma merge_recovery_keeps:
  assumes "\<not> json_empty (dget recovery k)"
  shows "\<not> json_empty (dget (merge_recovery now recovery identity capsule) k)"
proof -
  let ?m = "dupdate recovery (recovery_identity recovery identity)"
  have "\<not> json_empty (dget ?m k)"
    using assms dget_dupdate_cases [of recovery "recovery_identity recovery identity" k] recovery_identity_entries
    by metis
  then show ?thesis by (simp add: merge_recovery_def Let_def json_empty_def)
qed

lemma merge_recovery_capsule:
  assumes "\<not> json_empty (dget (dict_or_empty (dget recovery ''capsule'')) k)"
  shows "\<not> json_empty (dget (dict_or_empty (dget (merge_recovery now recovery identity capsule) ''capsule'')) k)"
proof -
  let ?b = "dupdate (dict_or_empty (dget recovery ''capsule'')) (prune capsule)"
  have b: "\<not> json_empty (dget ?b k)" by (rule dget_dupdate_pruned [OF assms])
  then have "?b \<noteq> []" by (auto simp: json_empty_def)
  then have "dget (merge_recovery now recovery identity capsule) ''capsule'' = JObj ?b"
    by (simp add: merge_recovery_def Let_def)
  with b show ?thesis by (simp add: dict_or_empty_def)
qed

lemma merge_recovery_conversation:
  assumes "truthy (dget recovery ''conversation_id'')" and "distinct (map fst identity)"
  shows "dget (merge_recovery now recovery identity capsule) ''conversation_id'' = dget recovery ''conversation_id''"
proof -
  have "dget (dupdate recovery (recovery_identity recovery identity)) ''conversation_id'' = dget recovery ''conversation_id''"
    using dget_dupdate_cases [of recovery "recovery_identity recovery identity" "''conversation_id''"]
      recovery_identity_conversation [OF assms] by metis
  then show ?thesis by (simp add: merge_recovery_def Let_def)
qed

text \<open>
  Recording recovery state never thins it: every non-empty entry of the stored block and of
  its progress capsule is still non-empty afterwards, a known resume token is unchanged, and
  reading the block back, from any later store with the same row, gives what was written.
\<close>

theorem recovery_state_only_grows:
  assumes "store_wf s" and "get_recovery_state s tid = Inr before_it" and "distinct (map fst identity)"
    and "record_recovery_state now tid identity capsule s = (Inr now_it, s')"
  shows "get_recovery_state s' tid = Inr now_it
    \<and> (\<forall>k. \<not> json_empty (dget before_it k) \<longrightarrow> \<not> json_empty (dget now_it k))
    \<and> (\<forall>k. \<not> json_empty (dget (dict_or_empty (dget before_it ''capsule'')) k)
         \<longrightarrow> \<not> json_empty (dget (dict_or_empty (dget now_it ''capsule'')) k))
    \<and> (truthy (dget before_it ''conversation_id'')
         \<longrightarrow> dget now_it ''conversation_id'' = dget before_it ''conversation_id'')"
proof -
  from assms(2) obtain x where x: "find_task s tid = Some x" "before_it = dict_or_empty (dget (t_metadata x) ''recovery'')"
    by (auto simp: get_recovery_state_def get_task_def split: option.splits)
  have n: "now_it = merge_recovery now before_it identity capsule"
    and s': "s' = drain_events (write_metadata now tid (dset (t_metadata x) ''recovery'' (JObj now_it)) s)"
    using assms(4) x by (auto simp: record_recovery_state_def with_connection_def Let_def)
  have "get_recovery_state s' tid = Inr now_it"
    using x(1) by (simp add: s' get_recovery_state_def get_task_def write_metadata_def find_task_update_task
        dict_or_empty_def)
  then show ?thesis
    unfolding n using merge_recovery_keeps merge_recovery_capsule merge_recovery_conversation [OF _ assms(3)] by blast
qed

section \<open>A stale task is released only as observed\<close>

text \<open>
  Recovering a stale task is a compare-and-set. It acts only when the row is still the one
  observed (status, update time, attempts, claim) and no verifier holds a live lease; then the
  task takes the target status with its claim and its inactivity window cleared, and nothing
  else changes; when the row moved on or is being verified, nothing changes at all.
\<close>

theorem recover_stale_active_task_contract:
  assumes "store_wf s" and "s_pending s = []" and "find_task s (t_id seen) = Some x"
    and "t_status seen \<in> {RUNNING, VERIFYING, DISPATCH_UNCERTAIN}"
    and "to_status \<in> {WAITING_SESSION, BLOCKED, CANCELLED}"
  shows "if same_snapshot seen x \<and> \<not> has_live_verification now s (t_id seen)
    then (if t_status seen = DISPATCH_UNCERTAIN \<and> to_status \<noteq> CANCELLED
          then \<exists>m. recover_stale_active_task now seen to_status reason s = (Inl (InvalidTransitionError m), s)
          else \<exists>y s'. recover_stale_active_task now seen to_status reason s = (Inr (Some y), s')
            \<and> find_task s' (t_id seen) = Some y \<and> t_status y = to_status \<and> unclaimed y
            \<and> t_inactive_observed_at y = None \<and> t_inactive_signature y = None
            \<and> (\<forall>z. z \<noteq> t_id seen \<longrightarrow> find_task s' z = find_task s z) \<and> s_lanes s' = s_lanes s)
    else fst (recover_stale_active_task now seen to_status reason s) = Inr None
       \<and> s_tasks (snd (recover_stale_active_task now seen to_status reason s)) = s_tasks s
       \<and> s_events (snd (recover_stale_active_task now seen to_status reason s)) = s_events s"
proof -
  have g: "\<not> (t_status seen \<notin> {RUNNING, VERIFYING, DISPATCH_UNCERTAIN} \<or> to_status \<notin> {WAITING_SESSION, BLOCKED, CANCELLED})"
    using assms(4,5) by simp
  let ?ex = "stale_recovery_columns now to_status reason"
  show ?thesis
  proof (cases "same_snapshot seen x \<and> \<not> has_live_verification now s (t_id seen)")
    case False
    then show ?thesis
      unfolding recover_stale_active_task_def if_not_P [OF g] if_not_P [OF False]
      using assms(3) by (auto simp: with_connection_def)
  next
    case True
    then have st: "t_status x = t_status seen" by (simp add: same_snapshot_def)
    let ?f = "final_row now (t_status seen) to_status (Some reason) ?ex x"
    show ?thesis
    proof (cases rule: transition_locked_cases [OF assms(3), of "t_status seen" to_status ?ex now
          "''STALE_ACTIVE_RECOVERED''" "Some reason", case_names goes refused])
      case (goes row u)
      have run: "recover_stale_active_task now seen to_status reason s = (Inr (Some row), drain_events u)"
        unfolding recover_stale_active_task_def if_not_P [OF g]
        using True assms(3) goes(2) by (simp add: with_connection_def)
      note F = find_task_final [OF goes(2) assms(1)]
      have row: "row = ?f" using transition_locked_returns [OF goes(2)] F assms(3) by simp
      from goes(2) assms(1) obtain z where l: "s_lanes u = s_lanes s" by (rule transition_locked_final)
      have "t_status row = to_status" "unclaimed row" "t_inactive_observed_at row = None" "t_inactive_signature row = None"
        using assms(5) by (auto simp: row final_row_def Let_def cleanup_row_def stale_recovery_columns_def clear_claim_def
            transition_row_def unclaimed_def)
      moreover have n: "\<not> (t_status seen = DISPATCH_UNCERTAIN \<and> to_status \<noteq> CANCELLED)"
        using goes(1) assms(5) by (auto simp: edge_allowed_def is_valid_transition_def)
      moreover have "find_task (drain_events u) (t_id seen) = Some row" using F assms(3) by (simp add: row)
      moreover have "\<forall>z. z \<noteq> t_id seen \<longrightarrow> find_task (drain_events u) z = find_task s z"
        using F by (simp add: option.map_ident)
      ultimately show ?thesis unfolding if_P [OF True] if_not_P [OF n] using run l by auto
    next
      case (refused m)
      have run: "recover_stale_active_task now seen to_status reason s = (Inl (InvalidTransitionError m), s)"
        unfolding recover_stale_active_task_def if_not_P [OF g]
        using True assms(2,3) refused(2) by (simp add: with_connection_def discard_idle)
      have "t_status seen = DISPATCH_UNCERTAIN \<and> to_status \<noteq> CANCELLED"
        using refused(1) assms(4,5) by (auto simp: edge_allowed_def is_valid_transition_def)
      then show ?thesis using True run by simp
    qed
  qed
qed

section \<open>A refused send is never replayed\<close>

text \<open>
  The refusal sweep settles every row it should and no other: each QUEUED, READY or
  DISPATCHING task in scope whose stored verdict is a refusal becomes BLOCKED with its claim
  cleared and the refusal as its error; every other row is untouched, and a second sweep finds
  nothing.
\<close>

theorem persisted_refusals_exact:
  assumes "store_wf s"
  shows "\<exists>s'. reconcile_persisted_refusals now sess s
      = (Inr (map t_id (filter (persisted_refusal sess) (s_tasks s))), s')
    \<and> s_tasks s' = update_where (persisted_refusal sess)
        (\<lambda>x. final_row now (t_status x) BLOCKED (Some (refusal_reason x)) clear_claim x) (s_tasks s)
    \<and> filter (persisted_refusal sess) (s_tasks s') = [] \<and> s_lanes s' = s_lanes s"
proof -
  have "\<exists>s'. for_each (\<lambda>row. step_locked now (t_id row) (t_status row) BLOCKED
        ''PERSISTED_DELIVERY_REFUSAL_RECOVERED'' (Some (refusal_reason row)) clear_claim)
        (filter (persisted_refusal sess) (s_tasks s)) s = Inr s'
    \<and> s_tasks s' = update_where (persisted_refusal sess)
        (\<lambda>x. final_row now (t_status x) BLOCKED (Some (refusal_reason x)) clear_claim x) (s_tasks s)
    \<and> s_lanes s' = s_lanes s"
    by (rule for_each_selected_ok [OF assms])
      (auto simp: persisted_refusal_def edge_allowed_def is_valid_transition_def status_groups)
  then obtain u where u: "for_each (\<lambda>row. step_locked now (t_id row) (t_status row) BLOCKED
        ''PERSISTED_DELIVERY_REFUSAL_RECOVERED'' (Some (refusal_reason row)) clear_claim)
        (filter (persisted_refusal sess) (s_tasks s)) s = Inr u"
    "s_tasks u = update_where (persisted_refusal sess)
        (\<lambda>x. final_row now (t_status x) BLOCKED (Some (refusal_reason x)) clear_claim x) (s_tasks s)"
    "s_lanes u = s_lanes s" by blast
  have "\<not> persisted_refusal sess (final_row now f BLOCKED r clear_claim x)" for f r x
    by (simp add: persisted_refusal_def)
  then have "filter (persisted_refusal sess) (s_tasks u) = []"
    by (auto simp: u(2) update_where_def filter_empty_conv)
  with u show ?thesis by (simp add: reconcile_persisted_refusals_def with_connection_def Let_def)
qed

section \<open>Witnesses\<close>

abbreviation recovering_task :: task where
  "recovering_task \<equiv> (sample_task ''t1'' ''a'' 0 RUNNING)\<lparr>t_metadata :=
     [(''recovery'', JObj [(''conversation_id'', JStr ''c1''), (''session'', JStr ''a'')])]\<rparr>"

lemma recovery_state_only_grows_witness:
  "\<exists>kept s'. record_recovery_state 7 ''t1'' [(''conversation_id'', JStr ''c2''), (''session'', JStr [])] []
      (sample_store [recovering_task]) = (Inr kept, s')
    \<and> dget kept ''conversation_id'' = JStr ''c1'' \<and> \<not> json_empty (dget kept ''session'')"
proof -
  let ?s = "sample_store [recovering_task]"
  let ?i = "[(''conversation_id'', JStr ''c2''), (''session'', JStr [])]"
  obtain kept s' where r: "record_recovery_state 7 ''t1'' ?i [] ?s = (Inr kept, s')"
    by (cases "record_recovery_state 7 ''t1'' ?i [] ?s"; cases "fst (record_recovery_state 7 ''t1'' ?i [] ?s)")
       (code_simp, auto)
  have b: "get_recovery_state ?s ''t1'' = Inr [(''conversation_id'', JStr ''c1''), (''session'', JStr ''a'')]" by code_simp
  have "store_wf ?s" "distinct (map fst ?i)" by simp_all
  from recovery_state_only_grows [OF this(1) b this(2) r]
  have "dget kept ''conversation_id'' = JStr ''c1''" "\<not> json_empty (dget kept ''session'')"
    by (auto simp: json_empty_def)
  with r show ?thesis by blast
qed

lemma recover_stale_active_task_contract_witness:
  "\<exists>y s'. recover_stale_active_task 9 (sample_task ''t1'' ''a'' 0 RUNNING) BLOCKED ''idle''
      (sample_store [sample_task ''t1'' ''a'' 0 RUNNING]) = (Inr (Some y), s') \<and> t_status y = BLOCKED"
  using recover_stale_active_task_contract [of "sample_store [sample_task ''t1'' ''a'' 0 RUNNING]"
      "sample_task ''t1'' ''a'' 0 RUNNING" "sample_task ''t1'' ''a'' 0 RUNNING" BLOCKED 9 "''idle''"]
  by (auto simp: same_snapshot_def has_live_verification_def)

lemma persisted_refusals_exact_witness:
  "\<exists>s'. reconcile_persisted_refusals 9 None (sample_store [(sample_task ''t1'' ''a'' 0 READY)\<lparr>t_metadata :=
      [(''delivery_verdict'', JObj [(''kind'', JStr ''REFUSED'')])]\<rparr>]) = (Inr [''t1''], s')"
  using persisted_refusals_exact [of "sample_store [(sample_task ''t1'' ''a'' 0 READY)\<lparr>t_metadata :=
      [(''delivery_verdict'', JObj [(''kind'', JStr ''REFUSED'')])]\<rparr>]" 9 None]
  by (auto simp: persisted_refusal_def in_scope_def refused_verdict_def nonempty_def)

end
