(* ===== verification/RequirementContract.thy ===== *)
theory RequirementContract
  imports Prelude
begin

text \<open>
  The requirement contract of a task and the completion gate over it
  (\<open>terminal_mcp/requirement_contract.py\<close>): the append-only chain of contract
  versions, the evidence matrix, their JSON forms, and \<open>reconcile\<close>, which decides
  whether the evidence covers what was asked.
\<close>

section \<open>Requirements and contracts\<close>

definition KINDS :: "string list" where
  "KINDS = [''acceptance'', ''constraint'', ''deliverable'']"

datatype contract_error =
  ContractError string
| Raised py_error

definition raised :: "py_error + 'a \<Rightarrow> contract_error + 'a" where
  "raised r = (case r of Inl e \<Rightarrow> Inl (Raised e) | Inr a \<Rightarrow> Inr a)"

record requirement =
  r_id :: string
  r_text :: string
  r_kind :: string
  r_required :: bool
  r_source :: string
  r_added :: int

record contract_version =
  cv_version :: int
  cv_created_at :: string
  cv_source :: string
  cv_prompt :: string
  cv_requirements :: "requirement list"
  cv_actor :: json

record contract =
  c_versions :: "contract_version list"
  c_schema :: int

definition dget_or :: "dict \<Rightarrow> string \<Rightarrow> json \<Rightarrow> json" where
  \<comment> \<open>\<open>d.get(k, default)\<close>\<close>
  "dget_or d k v = (case map_of d k of None \<Rightarrow> v | Some x \<Rightarrow> x)"

definition requirement_to_dict :: "requirement \<Rightarrow> dict" where
  "requirement_to_dict r = [(''id'', JStr (r_id r)), (''text'', JStr (r_text r)),
     (''kind'', JStr (r_kind r)), (''required'', JBool (r_required r)),
     (''source'', JStr (r_source r)), (''added_in_version'', JInt (r_added r))]"

definition requirement_from_dict :: "dict \<Rightarrow> contract_error + requirement" where
  "requirement_from_dict raw =
     (let rid = strip (or_text (dget raw ''id'') []);
          text = strip (or_text (dget raw ''text'') []);
          kind = map lower_char (strip (or_text (dget raw ''kind'') ''acceptance''))
      in if rid = [] then Inl (ContractError ''requirement needs a non-empty stable id'')
         else if text = []
         then Inl (ContractError (''requirement '' @ py_repr rid @ '' needs non-empty text''))
         else if kind \<notin> set KINDS
         then Inl (ContractError (''requirement '' @ py_repr rid @ '' has unknown kind '' @ py_repr kind))
         else and_then (raised (py_int (dget_or raw ''added_in_version'' (JInt 1))))
           (\<lambda>added. Inr \<lparr>r_id = rid, r_text = text, r_kind = kind,
              r_required = truthy (dget_or raw ''required'' (JBool True)),
              r_source = or_text (dget raw ''source'') ''original'', r_added = added\<rparr>))"

definition version_to_dict :: "contract_version \<Rightarrow> dict" where
  "version_to_dict v = [(''version'', JInt (cv_version v)), (''created_at'', JStr (cv_created_at v)),
     (''source'', JStr (cv_source v)), (''prompt'', JStr (cv_prompt v)), (''actor'', cv_actor v),
     (''requirements'', JArr (map (\<lambda>r. JObj (requirement_to_dict r)) (cv_requirements v)))]"

definition requirement_from_json :: "json \<Rightarrow> contract_error + requirement" where
  \<comment> \<open>\<open>raw.get\<close> on anything but a dictionary raises\<close>
  "requirement_from_json j = (case as_dict j of
       None \<Rightarrow> Inl (Raised PyAttributeError) | Some d \<Rightarrow> requirement_from_dict d)"

definition requirements_from_json :: "json \<Rightarrow> contract_error + requirement list" where
  \<comment> \<open>\<open>tuple(Requirement.from_dict(r) for r in (raw or ()))\<close>: text and dictionaries iterate
     over strings, numbers do not iterate\<close>
  "requirements_from_json j =
     (if \<not> truthy j then Inr []
      else case j of
        JArr xs \<Rightarrow> map_each requirement_from_json xs
      | JStr _ \<Rightarrow> Inl (Raised PyAttributeError)
      | JObj _ \<Rightarrow> Inl (Raised PyAttributeError)
      | _ \<Rightarrow> Inl (Raised PyTypeError))"

definition version_from_dict :: "json \<Rightarrow> contract_error + contract_version" where
  "version_from_dict j =
     (case as_dict j of
        None \<Rightarrow> Inl (Raised PyTypeError)
      | Some raw \<Rightarrow> if \<not> dhas raw ''version'' then Inl (Raised (PyKeyError ''version''))
          else and_then (raised (py_int (dget raw ''version''))) (\<lambda>n.
               and_then (requirements_from_json (dget raw ''requirements'')) (\<lambda>rs.
                 Inr \<lparr>cv_version = n, cv_created_at = or_text (dget raw ''created_at'') [],
                   cv_source = or_text (dget raw ''source'') ''original'',
                   cv_prompt = or_text (dget raw ''prompt'') [], cv_requirements = rs,
                   cv_actor = dget raw ''actor''\<rparr>)))"

definition contract_number :: "contract \<Rightarrow> int" where
  \<comment> \<open>the property \<open>contract_version\<close>\<close>
  "contract_number c = (case map cv_version (c_versions c) of [] \<Rightarrow> 0 | n # ns \<Rightarrow> fold max ns n)"

definition merge_requirement :: "requirement \<Rightarrow> requirement list \<Rightarrow> requirement list" where
  \<comment> \<open>one turn of the loop of \<open>requirements\<close>: a restated id keeps its place, source and version\<close>
  "merge_requirement r merged =
     (if list_ex (\<lambda>m. r_id m = r_id r) merged
      then update_where (\<lambda>m. r_id m = r_id r)
             (\<lambda>m. m\<lparr>r_text := r_text r, r_kind := r_kind r, r_required := r_required r\<rparr>) merged
      else merged @ [r])"

definition requirements :: "contract \<Rightarrow> requirement list" where
  "requirements c =
     fold merge_requirement (concat (map cv_requirements (sort_key cv_version (c_versions c)))) []"

definition required_ids :: "contract \<Rightarrow> string list" where
  "required_ids c = map r_id (filter r_required (requirements c))"

definition original_prompt :: "contract \<Rightarrow> string" where
  "original_prompt c = (case sort_key cv_version (c_versions c) of [] \<Rightarrow> [] | v # _ \<Rightarrow> cv_prompt v)"

definition contract_to_dict :: "contract \<Rightarrow> dict" where
  "contract_to_dict c = [(''schema_version'', JInt (c_schema c)),
     (''contract_version'', JInt (contract_number c)),
     (''versions'', JArr (map (\<lambda>v. JObj (version_to_dict v)) (c_versions c)))]"

definition contract_from_dict :: "dict \<Rightarrow> contract_error + contract option" where
  \<comment> \<open>\<open>raw\<close> is a decoded column, a dictionary that may be empty\<close>
  "contract_from_dict raw =
     (if raw = [] \<or> \<not> truthy (dget raw ''versions'') then Inr None
      else case dget raw ''versions'' of
        JArr vs \<Rightarrow> and_then (map_each version_from_dict vs) (\<lambda>versions.
            and_then (raised (py_int (dget_or raw ''schema_version'' (JInt 1)))) (\<lambda>n.
              Inr (Some \<lparr>c_versions = versions, c_schema = n\<rparr>)))
      | _ \<Rightarrow> Inl (Raised PyTypeError))"

definition duplicate_error :: "string \<Rightarrow> contract_error" where
  "duplicate_error rid = ContractError (''duplicate requirement id '' @ py_repr rid
     @ '' in one version -- ids must be stable AND unique'')"

fun refuse_duplicate_ids :: "string list \<Rightarrow> requirement list \<Rightarrow> contract_error + unit" where
  \<comment> \<open>with the set \<open>seen\<close>\<close>
  "refuse_duplicate_ids seen [] = Inr ()"
| "refuse_duplicate_ids seen (r # rs) =
     (if r_id r \<in> set seen then Inl (duplicate_error (r_id r))
      else refuse_duplicate_ids (r_id r # seen) rs)"

definition parse_requirements ::
  "string \<Rightarrow> int \<Rightarrow> dict list \<Rightarrow> contract_error + requirement list" where
  \<comment> \<open>\<open>{**dict(r), "source": source, "added_in_version": n}\<close>\<close>
  "parse_requirements source n rs = map_each
     (\<lambda>r. requirement_from_dict (dset (dset r ''source'' (JStr source)) ''added_in_version'' (JInt n))) rs"

definition create_contract ::
  "string \<Rightarrow> dict list \<Rightarrow> string \<Rightarrow> string option \<Rightarrow> contract_error + contract" where
  "create_contract prompt rs created_at actor =
     and_then (parse_requirements ''original'' 1 rs) (\<lambda>parsed.
     and_then (refuse_duplicate_ids [] parsed) (\<lambda>_.
       Inr \<lparr>c_versions = [\<lparr>cv_version = 1, cv_created_at = created_at, cv_source = ''original'',
              cv_prompt = prompt, cv_requirements = parsed, cv_actor = opt_json actor\<rparr>],
            c_schema = 1\<rparr>))"

definition amend_contract ::
  "contract \<Rightarrow> string \<Rightarrow> dict list \<Rightarrow> string \<Rightarrow> string option \<Rightarrow> contract_error + contract" where
  "amend_contract c prompt rs created_at actor =
     (let next_version = contract_number c + 1
      in and_then (parse_requirements ''amendment'' next_version rs) (\<lambda>parsed.
         let existing = map r_id (requirements c);
             fresh = filter (\<lambda>r. r_id r \<notin> set existing) parsed
         in and_then (refuse_duplicate_ids [] fresh) (\<lambda>_.
           Inr \<lparr>c_versions = c_versions c @ [\<lparr>cv_version = next_version, cv_created_at = created_at,
                   cv_source = ''amendment'', cv_prompt = prompt, cv_requirements = parsed,
                   cv_actor = opt_json actor\<rparr>],
                c_schema = c_schema c\<rparr>)))"

section \<open>Evidence\<close>

record evidence_entry =
  ee_requirement_id :: string
  ee_status :: string
  ee_evidence :: "string list"
  ee_note :: json
  ee_waived_by :: json
  ee_waived_reason :: json

record evidence_matrix =
  m_entries :: "evidence_entry list"
  m_reconciled :: int
  m_produced_by :: json
  m_produced_at :: json

definition empty_matrix :: evidence_matrix where
  "empty_matrix = \<lparr>m_entries = [], m_reconciled = 0, m_produced_by = JNull, m_produced_at = JNull\<rparr>"

definition by_id :: "evidence_matrix \<Rightarrow> string \<Rightarrow> evidence_entry option" where
  \<comment> \<open>a dictionary comprehension: the last entry of an id wins\<close>
  "by_id m = map_of (rev (map (\<lambda>e. (ee_requirement_id e, e)) (m_entries m)))"

definition entry_to_dict :: "evidence_entry \<Rightarrow> dict" where
  "entry_to_dict e = [(''requirement_id'', JStr (ee_requirement_id e)), (''status'', JStr (ee_status e)),
     (''evidence'', JArr (map JStr (ee_evidence e))), (''note'', ee_note e),
     (''waived_by'', ee_waived_by e), (''waived_reason'', ee_waived_reason e)]"

definition iterate_texts :: "json \<Rightarrow> contract_error + string list" where
  \<comment> \<open>the \<open>evidence\<close> field: one string stands for itself, a list or the keys of a dictionary
     are taken as text\<close>
  "iterate_texts v =
     (if \<not> truthy v then Inr []
      else case v of
        JStr s \<Rightarrow> Inr [s]
      | JArr xs \<Rightarrow> Inr (map json_str xs)
      | JObj d \<Rightarrow> Inr (remdups (map fst d))
      | _ \<Rightarrow> Inl (Raised PyTypeError))"

definition entry_from_json :: "json \<Rightarrow> contract_error + evidence_entry" where
  "entry_from_json j = (case as_dict j of
       None \<Rightarrow> Inl (Raised PyAttributeError)
     | Some raw \<Rightarrow> and_then (iterate_texts (dget raw ''evidence'')) (\<lambda>ev.
         Inr \<lparr>ee_requirement_id = strip (or_text (dget raw ''requirement_id'') []),
           ee_status = map lower_char (strip (or_text (dget raw ''status'') [])),
           ee_evidence = ev, ee_note = dget raw ''note'', ee_waived_by = dget raw ''waived_by'',
           ee_waived_reason = dget raw ''waived_reason''\<rparr>))"

definition matrix_to_dict :: "evidence_matrix \<Rightarrow> dict" where
  "matrix_to_dict m = [(''entries'', JArr (map (\<lambda>e. JObj (entry_to_dict e)) (m_entries m))),
     (''reconciled_contract_version'', JInt (m_reconciled m)),
     (''produced_by'', m_produced_by m), (''produced_at'', m_produced_at m)]"

definition entries_from_json :: "json \<Rightarrow> contract_error + evidence_entry list" where
  "entries_from_json j =
     (if \<not> truthy j then Inr []
      else case j of
        JArr xs \<Rightarrow> map_each entry_from_json xs
      | JStr _ \<Rightarrow> Inl (Raised PyAttributeError)
      | JObj _ \<Rightarrow> Inl (Raised PyAttributeError)
      | _ \<Rightarrow> Inl (Raised PyTypeError))"

definition matrix_from_dict :: "dict \<Rightarrow> contract_error + evidence_matrix" where
  "matrix_from_dict raw =
     (if raw = [] then Inr empty_matrix
      else and_then (entries_from_json (dget raw ''entries'')) (\<lambda>es.
           and_then (raised (py_int (dget_or raw ''reconciled_contract_version'' (JInt 0)))) (\<lambda>n.
             Inr \<lparr>m_entries = es, m_reconciled = n, m_produced_by = dget raw ''produced_by'',
               m_produced_at = dget raw ''produced_at''\<rparr>)))"

section \<open>The gate\<close>

datatype gate_reason =
  VERIFIED | NO_CONTRACT | STALE_CONTRACT_VERSION | REQUIREMENTS_NOT_COVERED | INVALID_WAIVER
| UNKNOWN_STATUS | DETECTOR_FINDING

definition STATUSES :: "string list" where
  "STATUSES = [''covered'', ''partial'', ''missing'', ''waived'']"

record check_item =
  ci_requirement :: requirement
  ci_status :: string
  ci_evidence :: "string list"
  ci_waived_by :: json
  ci_waived_reason :: json

record gate_decision =
  g_verified_done :: bool
  g_reason :: gate_reason
  g_detail :: string
  g_contract_version :: int
  g_reconciled_version :: int
  g_missing :: "string list"
  g_partial :: "string list"
  g_invalid_waivers :: "string list"
  g_unknown_requirements :: "string list"
  g_findings :: "(string \<times> string) list"
  g_checklist :: "check_item list"

fun remember :: "string list \<Rightarrow> string list \<Rightarrow> string list" where
  \<comment> \<open>the loop of \<open>blocking_ids\<close>: append what is not there yet\<close>
  "remember seen [] = seen"
| "remember seen (x # xs) = remember (if x \<in> set seen then seen else seen @ [x]) xs"

definition blocking_ids :: "gate_decision \<Rightarrow> string list" where
  "blocking_ids g = remember [] (g_missing g @ g_partial g @ g_invalid_waivers g @ map fst (g_findings g))"

record detector =
  \<comment> \<open>an extra check: the findings it yields before it ends or raises\<close>
  dt_name :: string
  dt_run :: "contract \<Rightarrow> evidence_matrix \<Rightarrow> (string \<times> string) list \<times> string option"

definition run_detector :: "contract \<Rightarrow> evidence_matrix \<Rightarrow> detector \<Rightarrow> (string \<times> string) list" where
  "run_detector c m d = (case dt_run d c m of (found, failure) \<Rightarrow>
     found @ (case failure of None \<Rightarrow> []
       | Some exc \<Rightarrow> [([], ''detector '' @ py_repr (dt_name d) @ '' failed: '' @ exc)]))"

definition recorded_status :: "evidence_matrix \<Rightarrow> requirement \<Rightarrow> string" where
  \<comment> \<open>\<open>status\<close> before an unrecognised one is read as missing\<close>
  "recorded_status m r = (case by_id m (r_id r) of None \<Rightarrow> ''missing'' | Some e \<Rightarrow> ee_status e)"

definition effective_status :: "evidence_matrix \<Rightarrow> requirement \<Rightarrow> string" where
  "effective_status m r =
     (if recorded_status m r \<in> set STATUSES then recorded_status m r else ''missing'')"

definition valid_waiver :: "evidence_matrix \<Rightarrow> requirement \<Rightarrow> bool" where
  "valid_waiver m r = (case by_id m (r_id r) of None \<Rightarrow> False
     | Some e \<Rightarrow> strip (or_text (ee_waived_by e) []) \<noteq> [] \<and> strip (or_text (ee_waived_reason e) []) \<noteq> [])"

definition check_of :: "evidence_matrix \<Rightarrow> requirement \<Rightarrow> check_item" where
  "check_of m r = \<lparr>ci_requirement = r, ci_status = effective_status m r,
     ci_evidence = (case by_id m (r_id r) of None \<Rightarrow> [] | Some e \<Rightarrow> ee_evidence e),
     ci_waived_by = (case by_id m (r_id r) of None \<Rightarrow> JNull | Some e \<Rightarrow> ee_waived_by e),
     ci_waived_reason = (case by_id m (r_id r) of None \<Rightarrow> JNull | Some e \<Rightarrow> ee_waived_reason e)\<rparr>"

definition ids_where :: "(requirement \<Rightarrow> bool) \<Rightarrow> contract \<Rightarrow> string list" where
  "ids_where p c = map r_id (filter p (requirements c))"

definition sorted_ids :: "string list \<Rightarrow> string list" where
  \<comment> \<open>\<open>tuple(sorted(set(xs)))\<close>\<close>
  "sorted_ids xs = sort (remdups xs)"

definition stale_claims :: "contract \<Rightarrow> evidence_matrix \<Rightarrow> string list" where
  "stale_claims c m = sort (ids_where (\<lambda>r. effective_status m r \<noteq> ''missing''
     \<and> m_reconciled m < r_added r) c)"

definition base_decision :: "contract \<Rightarrow> evidence_matrix \<Rightarrow> detector list \<Rightarrow> gate_decision" where
  \<comment> \<open>what the loop over the requirements and the detectors gather\<close>
  "base_decision c m detectors = \<lparr>g_verified_done = False, g_reason = VERIFIED, g_detail = [],
     g_contract_version = contract_number c, g_reconciled_version = m_reconciled m,
     g_missing = ids_where (\<lambda>r. effective_status m r = ''missing'' \<and> r_required r) c,
     g_partial = ids_where (\<lambda>r. effective_status m r = ''partial'' \<and> r_required r) c,
     g_invalid_waivers = ids_where (\<lambda>r. effective_status m r = ''waived'' \<and> \<not> valid_waiver m r) c,
     g_unknown_requirements = sorted_ids (filter (\<lambda>i. i \<notin> r_id ` set (requirements c))
        (map ee_requirement_id (m_entries m))),
     g_findings = concat (map (run_detector c m) detectors),
     g_checklist = map (check_of m) (requirements c)\<rparr>"

definition unknown_status :: "contract \<Rightarrow> evidence_matrix \<Rightarrow> string list" where
  "unknown_status c m = ids_where (\<lambda>r. recorded_status m r \<notin> set STATUSES) c"

definition stale_detail :: "contract \<Rightarrow> evidence_matrix \<Rightarrow> string" where
  "stale_detail c m = ''evidence was reconciled against contract v'' @ int_str (m_reconciled m)
     @ '' but '' @ join '', '' (stale_claims c m) @ '' ''
     @ (if length (stale_claims c m) = 1 then ''was'' else ''were'') @ '' added later, in contract v''
     @ int_str (contract_number c)"

definition no_contract :: gate_decision where
  "no_contract = \<lparr>g_verified_done = True, g_reason = NO_CONTRACT,
     g_detail = ''task carries no requirement contract; nothing to reconcile'', g_contract_version = 0,
     g_reconciled_version = 0, g_missing = [], g_partial = [], g_invalid_waivers = [],
     g_unknown_requirements = [], g_findings = [], g_checklist = []\<rparr>"

definition finding_text :: "string \<times> string \<Rightarrow> string" where
  "finding_text f = (if fst f = [] then ''-'' else fst f) @ '': '' @ snd f"

definition judge :: "contract \<Rightarrow> evidence_matrix \<Rightarrow> gate_decision \<Rightarrow> gate_decision" where
  \<comment> \<open>the returns that follow the loops\<close>
  "judge c m base =
     (if stale_claims c m \<noteq> []
      then base\<lparr>g_reason := STALE_CONTRACT_VERSION, g_detail := stale_detail c m,
             g_missing := sorted_ids (g_missing base @ stale_claims c m)\<rparr>
      else if unknown_status c m \<noteq> []
      then base\<lparr>g_reason := UNKNOWN_STATUS,
             g_missing := sorted_ids (g_missing base @ unknown_status c m),
             g_detail := ''unrecognised evidence status for: '' @ join '', '' (unknown_status c m)\<rparr>
      else if g_invalid_waivers base \<noteq> []
      then base\<lparr>g_reason := INVALID_WAIVER,
             g_detail := ''a waiver needs both waived_by and waived_reason: ''
               @ join '', '' (g_invalid_waivers base)\<rparr>
      else if g_missing base \<noteq> [] \<or> g_partial base \<noteq> []
      then base\<lparr>g_reason := REQUIREMENTS_NOT_COVERED,
             g_detail := ''required criteria not covered: ''
               @ join '', '' (g_missing base @ g_partial base)\<rparr>
      else if g_findings base \<noteq> []
      then base\<lparr>g_reason := DETECTOR_FINDING, g_detail := join ''; '' (map finding_text (g_findings base))\<rparr>
      else base\<lparr>g_verified_done := True, g_reason := VERIFIED,
             g_detail := ''all '' @ int_str (int (length (requirements c)))
               @ '' requirement(s) reconciled against contract v'' @ int_str (contract_number c)\<rparr>)"

definition reconcile ::
  "contract option \<Rightarrow> evidence_matrix option \<Rightarrow> detector list \<Rightarrow> gate_decision" where
  "reconcile co mo detectors = (case co of
       None \<Rightarrow> no_contract
     | Some c \<Rightarrow> if c_versions c = [] then no_contract
         else let m = (case mo of None \<Rightarrow> empty_matrix | Some m \<Rightarrow> m)
              in judge c m (base_decision c m detectors))"

definition self_reported :: "evidence_entry \<Rightarrow> (string \<times> string) option" where
  \<comment> \<open>one turn of the loop of \<open>detector_evidence_must_not_be_self_reported\<close>\<close>
  "self_reported e =
     (let refs = filter (\<lambda>x. x \<noteq> []) (map strip (ee_evidence e))
      in if ee_status e \<noteq> ''covered'' then None
         else if refs = [] then Some (ee_requirement_id e, ''marked covered with no evidence reference'')
         else if list_all (\<lambda>x. startswith x ''completion_marker'') refs
         then Some (ee_requirement_id e, ''only evidence is a self-reported completion marker'')
         else None)"

definition detector_evidence_must_not_be_self_reported :: detector where
  "detector_evidence_must_not_be_self_reported =
     \<lparr>dt_name = ''detector_evidence_must_not_be_self_reported'',
      dt_run = (\<lambda>c m. (List.map_filter self_reported (m_entries m), None))\<rparr>"

section \<open>Merged requirements\<close>

lemma merge_requirement_ids:
  "map r_id (merge_requirement r ms) = map r_id ms @ (if r_id r \<in> set (map r_id ms) then [] else [r_id r])"
  by (auto simp: merge_requirement_def list_ex_iff map_update_where_same image_iff dest: sym)

lemma merge_keeps:
  assumes "m \<in> set ms" and "distinct (map r_id ms)"
  shows "\<exists>m'\<in>set (fold merge_requirement rs ms). r_id m' = r_id m \<and> r_added m' = r_added m \<and> r_source m' = r_source m
     \<and> (r_id m \<notin> r_id ` set rs \<longrightarrow> m' = m)"
  using assms
proof (induction rs arbitrary: m ms)
  case Nil
  then show ?case by auto
next
  case (Cons r rs)
  have d: "distinct (map r_id (merge_requirement r ms))" using Cons.prems(2) by (simp add: merge_requirement_ids)
  have "\<exists>k\<in>set (merge_requirement r ms). r_id k = r_id m \<and> r_added k = r_added m \<and> r_source k = r_source m
     \<and> (r_id m \<noteq> r_id r \<longrightarrow> k = m)"
  proof (cases "r_id m = r_id r")
    case True
    let ?f = "\<lambda>m. m\<lparr>r_text := r_text r, r_kind := r_kind r, r_required := r_required r\<rparr>"
    have "?f m \<in> set (merge_requirement r ms)"
      using Cons.prems(1) True by (auto simp: merge_requirement_def set_update_where list_ex_iff)
    then show ?thesis using True by (intro bexI [of _ "?f m"]) simp_all
  next
    case False
    then have "m \<in> set (merge_requirement r ms)"
      using Cons.prems(1) by (auto simp: merge_requirement_def set_update_where list_ex_iff)
    then show ?thesis by blast
  qed
  then obtain k where k: "k \<in> set (merge_requirement r ms)" "r_id k = r_id m" "r_added k = r_added m"
    "r_source k = r_source m" "r_id m \<noteq> r_id r \<longrightarrow> k = m" by blast
  from Cons.IH [OF k(1) d] k(2-5) show ?case by (auto simp: image_iff)
qed

lemma merge_ids:
  "\<exists>new. map r_id (fold merge_requirement rs ms) = map r_id ms @ new \<and> set new = r_id ` set rs - r_id ` set ms
     \<and> distinct new"
proof (induction rs arbitrary: ms)
  case Nil
  then show ?case by simp
next
  case (Cons r rs)
  from Cons.IH [of "merge_requirement r ms"] obtain new where
    n: "map r_id (fold merge_requirement rs (merge_requirement r ms)) = map r_id (merge_requirement r ms) @ new"
    "set new = r_id ` set rs - r_id ` set (merge_requirement r ms)" "distinct new" by blast
  have "r_id ` set (merge_requirement r ms) = insert (r_id r) (r_id ` set ms)"
    using arg_cong [OF merge_requirement_ids [of r ms], of set] by auto
  with n show ?case by (auto simp: merge_requirement_ids)
qed

lemma fold_merge_distinct: "distinct (map r_id ms) \<Longrightarrow> distinct (map r_id (fold merge_requirement rs ms))"
  by (induction rs arbitrary: ms) (simp_all add: merge_requirement_ids)

lemma distinct_requirements: "distinct (map r_id (requirements c))"
  unfolding requirements_def by (rule fold_merge_distinct) simp

lemma merge_requirement_id_set: "r_id ` set (merge_requirement r ms) = insert (r_id r) (r_id ` set ms)"
  using arg_cong [OF merge_requirement_ids [of r ms], of set] by auto

lemma merged_added:
  assumes "m \<in> set (fold merge_requirement rs ms)" and "distinct (map r_id ms)" and "r_id m \<notin> r_id ` set ms"
  shows "\<exists>r\<in>set rs. r_added r = r_added m"
  using assms
proof (induction rs arbitrary: ms)
  case Nil
  then show ?case by auto
next
  case (Cons r rs)
  let ?ms = "merge_requirement r ms"
  have d: "distinct (map r_id ?ms)" using Cons.prems(2) by (simp add: merge_requirement_ids)
  have f: "m \<in> set (fold merge_requirement rs ?ms)" using Cons.prems(1) by simp
  show ?case
  proof (cases "r_id m \<in> r_id ` set ?ms")
    case False
    from Cons.IH [OF f d False] show ?thesis by auto
  next
    case True
    with Cons.prems(3) have i: "r_id m = r_id r" by (auto simp: merge_requirement_id_set)
    then have "r \<in> set ?ms" using Cons.prems(3) by (auto simp: merge_requirement_def list_ex_iff image_iff)
    from merge_keeps [OF this d] obtain k where k: "k \<in> set (fold merge_requirement rs ?ms)" "r_id k = r_id r"
      "r_added k = r_added r" by blast
    have "inj_on r_id (set (fold merge_requirement rs ?ms))"
      using fold_merge_distinct [OF d] by (simp add: distinct_map)
    from inj_onD [OF this _ k(1) f] k(2) i have "k = m" by simp
    with k(3) show ?thesis by auto
  qed
qed

section \<open>The gate, stated requirement by requirement\<close>

definition requirement_met :: "evidence_matrix \<Rightarrow> requirement \<Rightarrow> bool" where
  "requirement_met m r \<longleftrightarrow>
     recorded_status m r \<in> set STATUSES
     \<and> (recorded_status m r \<noteq> ''missing'' \<longrightarrow> r_added r \<le> m_reconciled m)
     \<and> (recorded_status m r = ''waived'' \<longrightarrow> valid_waiver m r)
     \<and> (r_required r \<longrightarrow> recorded_status m r = ''covered'' \<or> recorded_status m r = ''waived'')"

lemma ids_where_empty: "ids_where p c = [] \<longleftrightarrow> (\<forall>r\<in>set (requirements c). \<not> p r)"
  by (auto simp: ids_where_def filter_empty_conv)

lemma judge_verified:
  "g_verified_done (judge c m (base_decision c m ds)) \<longleftrightarrow>
     stale_claims c m = [] \<and> unknown_status c m = [] \<and> g_invalid_waivers (base_decision c m ds) = []
     \<and> g_missing (base_decision c m ds) = [] \<and> g_partial (base_decision c m ds) = []
     \<and> g_findings (base_decision c m ds) = []"
  unfolding judge_def by (auto simp: base_decision_def)

lemma sort_empty_iff [simp]: "sort_key f xs = [] \<longleftrightarrow> xs = []"
  by (metis length_0_conv length_sort)

lemma requirement_met_effective:
  "requirement_met m r \<longleftrightarrow>
     \<not> (effective_status m r \<noteq> ''missing'' \<and> m_reconciled m < r_added r)
     \<and> \<not> recorded_status m r \<notin> set STATUSES
     \<and> \<not> (effective_status m r = ''waived'' \<and> \<not> valid_waiver m r)
     \<and> \<not> (effective_status m r = ''missing'' \<and> r_required r)
     \<and> \<not> (effective_status m r = ''partial'' \<and> r_required r)"
proof (cases "recorded_status m r \<in> set STATUSES")
  case True
  then have "effective_status m r = recorded_status m r" by (simp add: effective_status_def)
  with True show ?thesis by (auto simp: requirement_met_def STATUSES_def)
next
  case False
  then show ?thesis by (simp add: requirement_met_def)
qed

lemma judge_verified_iff:
  "g_verified_done (judge c m (base_decision c m ds)) \<longleftrightarrow>
     (\<forall>r\<in>set (requirements c). requirement_met m r) \<and> (\<forall>d\<in>set ds. run_detector c m d = [])"
proof -
  have "stale_claims c m = [] \<and> unknown_status c m = [] \<and> g_invalid_waivers (base_decision c m ds) = []
     \<and> g_missing (base_decision c m ds) = [] \<and> g_partial (base_decision c m ds) = []
     \<longleftrightarrow> (\<forall>r\<in>set (requirements c). requirement_met m r)"
    unfolding stale_claims_def unknown_status_def base_decision_def gate_decision.simps sort_empty_iff
      ids_where_empty ball_conj_distrib [symmetric]
    by (rule ball_cong [OF refl]) (unfold requirement_met_effective, rule refl)
  moreover have "g_findings (base_decision c m ds) = [] \<longleftrightarrow> (\<forall>d\<in>set ds. run_detector c m d = [])"
    by (simp add: base_decision_def)
  ultimately show ?thesis unfolding judge_verified by blast
qed

text \<open>
  C9: The completion gate is exact. A task without a contract passes; with one it passes
  exactly when every requirement has a readable status, nothing is claimed covered by evidence
  older than the requirement, every waiver names its actor and reason, every required one is
  covered or waived, and no detector has a finding. In particular adding detectors never turns
  a refusal into a pass.
\<close>

theorem reconcile_verified_iff:
  "g_verified_done (reconcile co mo detectors) \<longleftrightarrow>
     (case co of None \<Rightarrow> True
      | Some c \<Rightarrow> let m = (case mo of None \<Rightarrow> empty_matrix | Some m \<Rightarrow> m) in
          c_versions c = []
          \<or> (\<forall>r\<in>set (requirements c). requirement_met m r) \<and> (\<forall>d\<in>set detectors. run_detector c m d = []))"
  by (simp add: reconcile_def no_contract_def judge_verified_iff Let_def split: option.split)

lemma set_remember: "set (remember seen xs) = set seen \<union> set xs"
  by (induction seen xs rule: remember.induct) auto

lemma set_blocking_ids:
  "set (blocking_ids g) = set (g_missing g) \<union> set (g_partial g) \<union> set (g_invalid_waivers g) \<union> fst ` set (g_findings g)"
  by (auto simp: blocking_ids_def set_remember)

lemma set_ids_where: "set (ids_where p c) \<subseteq> r_id ` set (requirements c)"
  by (auto simp: ids_where_def)

text \<open>
  A refusal always says what to do about it: it names at least one blocking id, and every
  id it names is a requirement of the contract or comes from a detector.
\<close>

theorem refusal_names_a_blocker:
  assumes "\<not> g_verified_done (reconcile co mo detectors)"
  shows "blocking_ids (reconcile co mo detectors) \<noteq> []
    \<and> (\<exists>c. co = Some c \<and> set (blocking_ids (reconcile co mo detectors))
          \<subseteq> r_id ` set (requirements c) \<union> fst ` set (g_findings (reconcile co mo detectors)))"
proof -
  from assms obtain c where c: "co = Some c" "c_versions c \<noteq> []"
    by (auto simp: reconcile_def no_contract_def split: option.splits if_splits)
  define m where "m = (case mo of None \<Rightarrow> empty_matrix | Some m \<Rightarrow> m)"
  let ?b = "base_decision c m detectors" and ?g = "judge c m (base_decision c m detectors)"
  have g: "reconcile co mo detectors = ?g" using c by (simp add: reconcile_def m_def Let_def)
  have sub: "set (stale_claims c m) \<subseteq> r_id ` set (requirements c)" "set (unknown_status c m) \<subseteq> r_id ` set (requirements c)"
    "set (g_missing ?b) \<subseteq> r_id ` set (requirements c)" "set (g_partial ?b) \<subseteq> r_id ` set (requirements c)"
    "set (g_invalid_waivers ?b) \<subseteq> r_id ` set (requirements c)"
    by (simp_all add: stale_claims_def unknown_status_def base_decision_def set_ids_where)
  have "set (blocking_ids ?g) \<subseteq> r_id ` set (requirements c) \<union> fst ` set (g_findings ?g)"
    using sub by (auto simp: judge_def set_blocking_ids sorted_ids_def)
  moreover have "set (blocking_ids ?g) \<noteq> {}"
    using assms unfolding g judge_verified by (auto simp: judge_def set_blocking_ids sorted_ids_def)
  ultimately show ?thesis using c(1) g by auto
qed

section \<open>The life of a contract\<close>

inductive built :: "contract \<Rightarrow> bool" where
  \<comment> \<open>the contracts the module can produce\<close>
  created: "create_contract prompt rs created_at actor = Inr c \<Longrightarrow> built c"
| amended: "built c \<Longrightarrow> amend_contract c prompt rs created_at actor = Inr c' \<Longrightarrow> built c'"

definition requirement_ok :: "requirement \<Rightarrow> bool" where
  "requirement_ok r \<longleftrightarrow> r_id r \<noteq> [] \<and> strip (r_id r) = r_id r \<and> r_text r \<noteq> [] \<and> strip (r_text r) = r_text r
     \<and> r_kind r \<in> set KINDS \<and> r_source r \<noteq> []"

definition contract_ok :: "contract \<Rightarrow> bool" where
  "contract_ok c \<longleftrightarrow> c_versions c \<noteq> []
     \<and> map cv_version (c_versions c) = map int [1..<Suc (length (c_versions c))]
     \<and> (\<forall>v\<in>set (c_versions c). cv_source v \<noteq> [] \<and> (\<forall>r\<in>set (cv_requirements v). requirement_ok r
          \<and> r_added r = cv_version v))"

lemma dropWhile_idem: "dropWhile P (dropWhile P xs) = dropWhile P xs"
  by (induction xs) auto

lemma dropWhile_rev_keeps_front:
  "xs = [] \<or> \<not> P (hd xs) \<Longrightarrow> (let ys = rev (dropWhile P (rev xs)) in ys = [] \<or> \<not> P (hd ys))"
proof (induction xs rule: rev_induct)
  case Nil
  then show ?case by simp
next
  case (snoc x xs)
  then show ?case by (cases xs) (auto simp: Let_def)
qed

lemma dropWhile_id: "xs = [] \<or> \<not> P (hd xs) \<Longrightarrow> dropWhile P xs = xs"
  by (cases xs) auto

lemma strip_idem [simp]: "strip (strip s) = strip s"
proof -
  let ?d = "dropWhile is_space s"
  let ?t = "rev (dropWhile is_space (rev ?d))"
  have "?d = [] \<or> \<not> is_space (hd ?d)" by (metis hd_dropWhile)
  from dropWhile_rev_keeps_front [of ?d is_space, OF this] have t: "?t = [] \<or> \<not> is_space (hd ?t)" by (simp add: Let_def)
  from dropWhile_id [of ?t is_space, OF t] show ?thesis unfolding strip_def by (simp add: dropWhile_idem)
qed

lemma kinds_stable: "k \<in> set KINDS \<Longrightarrow> map lower_char (strip k) = k \<and> k \<noteq> []"
proof -
  have "\<forall>k\<in>set KINDS. map lower_char (strip k) = k \<and> k \<noteq> []" by code_simp
  then show "k \<in> set KINDS \<Longrightarrow> map lower_char (strip k) = k \<and> k \<noteq> []" by blast
qed

lemma requirement_from_dict_ok:
  assumes "requirement_from_dict raw = Inr r"
  shows "requirement_ok r"
  using assms by (auto simp: requirement_from_dict_def requirement_ok_def Let_def and_then_Inr_iff or_text_nonempty
      split: if_splits)

lemma requirement_roundtrip:
  assumes "requirement_ok r"
  shows "requirement_from_json (JObj (requirement_to_dict r)) = Inr r"
  using assms kinds_stable [of "r_kind r"]
  by (simp add: requirement_from_json_def requirement_from_dict_def requirement_to_dict_def requirement_ok_def
      or_text_def dget_or_def raised_def)

lemma version_roundtrip:
  assumes "cv_source v \<noteq> []" and "\<forall>r\<in>set (cv_requirements v). requirement_ok r"
  shows "version_from_dict (JObj (version_to_dict v)) = Inr v"
proof -
  have "map_each requirement_from_json (map (\<lambda>r. JObj (requirement_to_dict r)) (cv_requirements v))
      = Inr (map (\<lambda>r. r) (cv_requirements v))"
    by (rule map_each_map) (use assms(2) requirement_roundtrip in blast)
  then have "requirements_from_json (JArr (map (\<lambda>r. JObj (requirement_to_dict r)) (cv_requirements v)))
      = Inr (cv_requirements v)" by (simp add: requirements_from_json_def)
  then show ?thesis using assms(1)
    by (simp add: version_from_dict_def version_to_dict_def dhas_def raised_def or_text_def)
qed

lemma contract_roundtrip:
  assumes "contract_ok c"
  shows "contract_from_dict (contract_to_dict c) = Inr (Some c)"
proof -
  have "map_each version_from_dict (map (\<lambda>v. JObj (version_to_dict v)) (c_versions c)) = Inr (map (\<lambda>v. v) (c_versions c))"
    by (rule map_each_map) (use assms version_roundtrip in \<open>auto simp: contract_ok_def\<close>)
  then show ?thesis using assms
    by (simp add: contract_from_dict_def contract_to_dict_def contract_ok_def dget_or_def raised_def)
qed

lemma contract_ok_number:
  assumes "contract_ok c"
  shows "contract_number c = int (length (c_versions c))" and "\<forall>v\<in>set (c_versions c). cv_version v \<le> contract_number c"
proof -
  let ?n = "length (c_versions c)"
  have v: "map cv_version (c_versions c) = map int [1..<Suc ?n]" and n: "?n \<noteq> 0"
    using assms by (auto simp: contract_ok_def)
  have "contract_number c = Max (set (map cv_version (c_versions c)))"
    using n unfolding contract_number_def
    by (cases "map cv_version (c_versions c)") (simp_all add: Max.set_eq_fold [symmetric])
  also have "\<dots> = int ?n" unfolding v using n by (intro Max_eqI) (auto simp: image_iff Suc_le_eq)
  finally show g: "contract_number c = int ?n" .
  have "set (map cv_version (c_versions c)) = int ` {1..<Suc ?n}" unfolding v by (simp only: set_map set_upt)
  then have "cv_version v \<in> int ` {1..<Suc ?n}" if "v \<in> set (c_versions c)" for v using that by (metis imageI set_map)
  then show "\<forall>v\<in>set (c_versions c). cv_version v \<le> contract_number c" unfolding g by force
qed

lemma parse_requirements_ok:
  assumes "parse_requirements source n rs = Inr parsed" and "r \<in> set parsed"
  shows "requirement_ok r \<and> r_added r = n"
proof -
  obtain x where x: "requirement_from_dict (dset (dset x ''source'' (JStr source)) ''added_in_version'' (JInt n)) = Inr r"
    using map_each_all [OF assms(1) [unfolded parse_requirements_def] assms(2)] by auto
  have "map_of (dset (dset x ''source'' (JStr source)) ''added_in_version'' (JInt n)) ''added_in_version'' = Some (JInt n)"
    by (simp add: dset_def update_conv')
  then have "r_added r = n" using x
    by (auto simp: requirement_from_dict_def Let_def dget_or_def raised_def split: if_splits)
  with requirement_from_dict_ok [OF x] show ?thesis by simp
qed

lemma amend_contract_result:
  assumes "amend_contract c prompt rs created_at actor = Inr c'"
  obtains parsed where "parse_requirements ''amendment'' (contract_number c + 1) rs = Inr parsed"
    "c' = c\<lparr>c_versions := c_versions c @ [\<lparr>cv_version = contract_number c + 1, cv_created_at = created_at,
       cv_source = ''amendment'', cv_prompt = prompt, cv_requirements = parsed, cv_actor = opt_json actor\<rparr>]\<rparr>"
  using assms that by (auto simp: amend_contract_def Let_def and_then_Inr_iff)

lemma built_ok: "built c \<Longrightarrow> contract_ok c"
proof (induction rule: built.induct)
  case (created prompt rs created_at actor c)
  then show ?case using parse_requirements_ok
    by (auto simp: create_contract_def and_then_Inr_iff contract_ok_def)
next
  case (amended c prompt rs created_at actor c')
  from amend_contract_result [OF amended.hyps(2)] obtain parsed where
    p: "parse_requirements ''amendment'' (contract_number c + 1) rs = Inr parsed" and
    c': "c' = c\<lparr>c_versions := c_versions c @ [\<lparr>cv_version = contract_number c + 1, cv_created_at = created_at,
       cv_source = ''amendment'', cv_prompt = prompt, cv_requirements = parsed, cv_actor = opt_json actor\<rparr>]\<rparr>" .
  show ?case using amended.IH parse_requirements_ok [OF p] contract_ok_number(1) [OF amended.IH]
    by (auto simp: c' contract_ok_def)
qed

lemmas contract_storage_roundtrip_plain = contract_roundtrip [OF built_ok]

text \<open>
  A contract survives storage: reading back the JSON form of any contract that creation and
  amendments can produce yields that contract, and its versions are numbered 1, 2, 3, ...
  without a gap.
\<close>

theorem contract_storage_roundtrip:
  assumes "built c"
  shows "contract_from_dict (contract_to_dict c) = Inr (Some c)
    \<and> map cv_version (c_versions c) = map int [1..<Suc (length (c_versions c))]"
  using contract_roundtrip [OF built_ok [OF assms]] built_ok [OF assms] by (simp add: contract_ok_def)

lemma insort_key_snoc: "f a \<le> f x \<Longrightarrow> insort_key f a (ys @ [x]) = insort_key f a ys @ [x]"
  for f :: "'a \<Rightarrow> 'b::linorder"
  by (induction ys) auto

lemma sort_key_snoc: "\<forall>y\<in>set xs. f y \<le> f x \<Longrightarrow> sort_key f (xs @ [x]) = sort_key f xs @ [x]"
  for f :: "'a \<Rightarrow> 'b::linorder"
  by (induction xs) (simp_all add: insort_key_snoc)

lemma amended_versions:
  assumes "built c" and "amend_contract c prompt rs created_at actor = Inr c'"
  obtains parsed v where "parse_requirements ''amendment'' (contract_number c + 1) rs = Inr parsed"
    "v = \<lparr>cv_version = contract_number c + 1, cv_created_at = created_at, cv_source = ''amendment'',
           cv_prompt = prompt, cv_requirements = parsed, cv_actor = opt_json actor\<rparr>"
    "c' = c\<lparr>c_versions := c_versions c @ [v]\<rparr>"
    "sort_key cv_version (c_versions c') = sort_key cv_version (c_versions c) @ [v]"
    "requirements c' = fold merge_requirement parsed (requirements c)"
proof -
  from amend_contract_result [OF assms(2)] obtain parsed where
    p: "parse_requirements ''amendment'' (contract_number c + 1) rs = Inr parsed" and
    c': "c' = c\<lparr>c_versions := c_versions c @ [\<lparr>cv_version = contract_number c + 1, cv_created_at = created_at,
       cv_source = ''amendment'', cv_prompt = prompt, cv_requirements = parsed, cv_actor = opt_json actor\<rparr>]\<rparr>" .
  define v where "v = \<lparr>cv_version = contract_number c + 1, cv_created_at = created_at, cv_source = ''amendment'',
     cv_prompt = prompt, cv_requirements = parsed, cv_actor = opt_json actor\<rparr>"
  have "\<forall>y\<in>set (c_versions c). cv_version y \<le> cv_version v"
    using contract_ok_number(2) [OF built_ok [OF assms(1)]] by (force simp: v_def)
  from sort_key_snoc [OF this] have "sort_key cv_version (c_versions c') = sort_key cv_version (c_versions c) @ [v]"
    by (simp add: c' v_def)
  then show thesis using that [OF p v_def] by (simp add: c' v_def requirements_def)
qed

lemma merged_ok:
  "\<forall>r\<in>set rs. requirement_ok r \<Longrightarrow> \<forall>r\<in>set ms. requirement_ok r \<Longrightarrow> \<forall>r\<in>set (fold merge_requirement rs ms). requirement_ok r"
proof (induction rs arbitrary: ms)
  case Nil
  then show ?case by simp
next
  case (Cons q rs)
  have "\<forall>r\<in>set (merge_requirement q ms). requirement_ok r"
    using Cons.prems by (auto simp: merge_requirement_def set_update_where requirement_ok_def split: if_splits)
  with Cons show ?case by simp
qed

lemma requirements_ok: "contract_ok c \<Longrightarrow> \<forall>r\<in>set (requirements c). requirement_ok r"
  unfolding requirements_def by (rule merged_ok) (auto simp: contract_ok_def)

text \<open>
  An amendment only adds. The old versions stay as they were, the new one comes last with
  the next number, every requirement keeps its id, its place, its source and the version that
  introduced it, one the amendment does not restate is unchanged, each other requirement is new
  in the new version, and the original prompt stays.
\<close>

theorem amend_contract_only_adds:
  assumes "built c" and "amend_contract c prompt rs created_at actor = Inr c'"
  shows "\<exists>v new. c_versions c' = c_versions c @ [v] \<and> cv_version v = contract_number c + 1
    \<and> contract_number c' = contract_number c + 1 \<and> cv_prompt v = prompt \<and> original_prompt c' = original_prompt c
    \<and> map r_id (requirements c') = map r_id (requirements c) @ new \<and> distinct (map r_id (requirements c'))
    \<and> (\<forall>r\<in>set (requirements c). \<exists>r'\<in>set (requirements c'). r_id r' = r_id r \<and> r_added r' = r_added r
         \<and> r_source r' = r_source r \<and> (r_id r \<notin> r_id ` set (cv_requirements v) \<longrightarrow> r' = r))
    \<and> (\<forall>r\<in>set (requirements c'). r_id r \<in> set new \<longrightarrow> r_added r = contract_number c + 1)"
proof -
  from amended_versions [OF assms] obtain parsed v where
    p: "parse_requirements ''amendment'' (contract_number c + 1) rs = Inr parsed" and
    v: "v = \<lparr>cv_version = contract_number c + 1, cv_created_at = created_at, cv_source = ''amendment'',
           cv_prompt = prompt, cv_requirements = parsed, cv_actor = opt_json actor\<rparr>" and
    c': "c' = c\<lparr>c_versions := c_versions c @ [v]\<rparr>" and
    srt: "sort_key cv_version (c_versions c') = sort_key cv_version (c_versions c) @ [v]" and
    rq: "requirements c' = fold merge_requirement parsed (requirements c)" .
  have vr: "cv_requirements v = parsed" by (simp add: v)
  have ok: "contract_ok c" by (rule built_ok [OF assms(1)])
  have n: "contract_number c' = contract_number c + 1"
    using contract_ok_number(1) [OF ok] contract_ok_number(1) [OF built_ok [OF built.amended [OF assms]]]
    by (simp add: c')
  obtain new where new: "map r_id (requirements c') = map r_id (requirements c) @ new"
    "set new = r_id ` set parsed - r_id ` set (requirements c)" using merge_ids unfolding rq by metis
  have "sort_key cv_version (c_versions c) \<noteq> []" using ok by (simp add: contract_ok_def)
  then have pr: "original_prompt c' = original_prompt c"
    by (simp add: original_prompt_def srt split: list.split)
  have keep: "\<forall>r\<in>set (requirements c). \<exists>r'\<in>set (requirements c'). r_id r' = r_id r \<and> r_added r' = r_added r
       \<and> r_source r' = r_source r \<and> (r_id r \<notin> r_id ` set (cv_requirements v) \<longrightarrow> r' = r)"
    unfolding rq vr using merge_keeps [OF _ distinct_requirements] by blast
  have "\<forall>r\<in>set (requirements c'). r_id r \<in> set new \<longrightarrow> r_added r = contract_number c + 1"
  proof (intro ballI impI)
    fix r assume "r \<in> set (requirements c')" "r_id r \<in> set new"
    then have "\<exists>q\<in>set parsed. r_added q = r_added r"
      unfolding rq new(2) by (intro merged_added [OF _ distinct_requirements]) auto
    then show "r_added r = contract_number c + 1" using parse_requirements_ok [OF p] by auto
  qed
  moreover have "c_versions c' = c_versions c @ [v]" "cv_version v = contract_number c + 1" "cv_prompt v = prompt"
    by (simp_all add: c' v)
  ultimately show ?thesis using n pr keep new(1) distinct_requirements [of c']
    by (intro exI [of _ v] exI [of _ new] conjI)
qed

lemma required_update:
  "\<not> b \<Longrightarrow> map r_id (filter r_required (update_where (\<lambda>m. r_id m = i) (\<lambda>m. m\<lparr>r_text := t, r_kind := k, r_required := b\<rparr>) ms))
     = filter (\<lambda>j. j \<noteq> i) (map r_id (filter r_required ms))"
  by (induction ms) auto

text \<open>
  Restating a requirement can take it out of the gate: an amendment that repeats its id with
  \<open>required\<close> false is accepted, and the gate then passes with that requirement missing, without
  any waiver.
\<close>

theorem restating_drops_requirement:
  assumes "built c" and "r \<in> set (requirements c)"
    and "amend_contract c prompt [[(''id'', JStr (r_id r)), (''text'', JStr text), (''required'', JBool False)]]
           created_at actor = Inr c'"
  shows "required_ids c' = filter (\<lambda>i. i \<noteq> r_id r) (required_ids c)"
proof -
  from amended_versions [OF assms(1,3)] obtain parsed where
    p: "parse_requirements ''amendment'' (contract_number c + 1)
      [[(''id'', JStr (r_id r)), (''text'', JStr text), (''required'', JBool False)]] = Inr parsed" and
    rq: "requirements c' = fold merge_requirement parsed (requirements c)" by metis
  from requirements_ok [OF built_ok [OF assms(1)]] assms(2) have "requirement_ok r" by blast
  then have "strip (r_id r) = r_id r" "r_id r \<noteq> []" by (simp_all add: requirement_ok_def)
  then obtain q where q: "parsed = [q]" "r_id q = r_id r" "\<not> r_required q"
    using p by (auto simp: parse_requirements_def and_then_Inr_iff requirement_from_dict_def Let_def or_text_def
        dget_or_def dset_def raised_def split: if_splits)
  have "list_ex (\<lambda>m. r_id m = r_id q) (requirements c)" using assms(2) q(2) by (auto simp: list_ex_iff)
  then have "requirements c' = update_where (\<lambda>m. r_id m = r_id r)
      (\<lambda>m. m\<lparr>r_text := r_text q, r_kind := r_kind q, r_required := r_required q\<rparr>) (requirements c)"
    using q by (simp add: rq merge_requirement_def)
  then show ?thesis using required_update [OF q(3)] by (simp add: required_ids_def)
qed

section \<open>Witnesses\<close>

abbreviation demo_requirement :: requirement where
  "demo_requirement \<equiv> \<lparr>r_id = ''R1'', r_text = ''it works'', r_kind = ''acceptance'', r_required = True,
     r_source = ''original'', r_added = 1\<rparr>"

abbreviation demo_contract :: contract where
  "demo_contract \<equiv> \<lparr>c_versions = [\<lparr>cv_version = 1, cv_created_at = ''t0'', cv_source = ''original'',
     cv_prompt = ''do it'', cv_requirements = [demo_requirement], cv_actor = JNull\<rparr>], c_schema = 1\<rparr>"

abbreviation demo_amendment :: "string \<Rightarrow> bool \<Rightarrow> contract_error + contract" where
  "demo_amendment rid req \<equiv> amend_contract demo_contract ''also this''
     [[(''id'', JStr rid), (''text'', JStr ''more''), (''required'', JBool req)]] ''t1'' None"

lemma demo_built: "built demo_contract"
proof -
  have "create_contract ''do it'' [[(''id'', JStr ''R1''), (''text'', JStr ''it works'')]] ''t0'' None = Inr demo_contract"
    by code_simp
  then show ?thesis by (rule built.created)
qed

lemma demo_requirements: "requirements demo_contract = [demo_requirement]"
  by code_simp

abbreviation covering_matrix :: "int \<Rightarrow> evidence_matrix" where
  "covering_matrix n \<equiv> \<lparr>m_entries = [\<lparr>ee_requirement_id = ''R1'', ee_status = ''covered'',
     ee_evidence = [''tests/test_r1.py''], ee_note = JNull, ee_waived_by = JNull, ee_waived_reason = JNull\<rparr>],
     m_reconciled = n, m_produced_by = JNull, m_produced_at = JNull\<rparr>"

lemma reconcile_verified_iff_witness:
  "g_verified_done (reconcile (Some demo_contract) (Some (covering_matrix 1)) [])
   \<and> \<not> g_verified_done (reconcile (Some demo_contract) (Some (covering_matrix 0)) [])"
proof -
  have "requirement_met (covering_matrix 1) demo_requirement" "\<not> requirement_met (covering_matrix 0) demo_requirement"
    by code_simp+
  then show ?thesis by (simp add: reconcile_verified_iff demo_requirements)
qed

lemma refusal_names_a_blocker_witness:
  "blocking_ids (reconcile (Some demo_contract) None []) \<noteq> []"
proof -
  have "\<not> g_verified_done (reconcile (Some demo_contract) None [])" by code_simp
  from refusal_names_a_blocker [OF this] show ?thesis by blast
qed

lemma contract_storage_roundtrip_witness:
  "contract_from_dict (contract_to_dict demo_contract) = Inr (Some demo_contract)"
  using contract_storage_roundtrip [OF demo_built] by simp

lemma amend_contract_only_adds_witness:
  "\<exists>c'. demo_amendment ''R2'' True = Inr c' \<and> original_prompt c' = ''do it'' \<and> contract_number c' = 2"
proof -
  obtain c' where c': "demo_amendment ''R2'' True = Inr c'" by (cases "demo_amendment ''R2'' True") (code_simp, simp)
  have "original_prompt demo_contract = ''do it''" "contract_number demo_contract = 1" by code_simp+
  with amend_contract_only_adds [OF demo_built c'] c' show ?thesis by auto
qed

lemma restating_drops_requirement_witness:
  "\<exists>c'. demo_amendment ''R1'' False = Inr c' \<and> required_ids c' = []"
proof -
  obtain c' where c': "demo_amendment ''R1'' False = Inr c'" by (cases "demo_amendment ''R1'' False") (code_simp, simp)
  have "required_ids demo_contract = [''R1'']" by code_simp
  with restating_drops_requirement [OF demo_built, of demo_requirement, unfolded demo_requirements, simplified] c'
  show ?thesis by auto
qed

end
