(* ===== verification/QueueCompletion.thy ===== *)
theory QueueCompletion
  imports QueueEvidence RequirementContract
begin

text \<open>
  How a task becomes COMPLETED in \<open>queue_store.py\<close>: the verification nonce, the requirement
  contract and evidence matrix stored on the row, the objective repository proof a task can
  demand, \<open>mark_completed_with_evidence\<close> behind the contract gate, and the audited
  invalidation of a completion proved false.
\<close>

section \<open>The verification nonce\<close>

definition ensure_verification_nonce ::
  "timestamp \<Rightarrow> string \<Rightarrow> string \<Rightarrow> store \<Rightarrow> (queue_error + string) \<times> store" where
  \<comment> \<open>\<open>fresh\<close> is the id \<open>uuid4\<close> would mint\<close>
  "ensure_verification_nonce now fresh tid = with_connection (\<lambda>s.
     case find_task s tid of
       None \<Rightarrow> Inl (KeyError (''no such task: '' @ tid))
     | Some row \<Rightarrow>
         if nonempty (t_verification_nonce row) then Inr (the (t_verification_nonce row), s)
         else Inr (fresh, update_task tid (\<lambda>t. t\<lparr>t_verification_nonce := Some fresh, t_updated_at := now\<rparr>) s))"

section \<open>The requirement contract of a task\<close>

definition lift_contract :: "contract_error + 'a \<Rightarrow> queue_error + 'a" where
  "lift_contract r = (case r of
       Inl (ContractError m) \<Rightarrow> Inl (ContractRefused m)
     | Inl (Raised e) \<Rightarrow> Inl (PyError e)
     | Inr a \<Rightarrow> Inr a)"

definition get_requirement_contract :: "store \<Rightarrow> string \<Rightarrow> queue_error + contract option" where
  "get_requirement_contract s tid = (case get_task s tid of
       None \<Rightarrow> Inl (KeyError tid)
     | Some t \<Rightarrow> lift_contract (contract_from_dict (t_requirement_contract t)))"

definition get_evidence_matrix :: "store \<Rightarrow> string \<Rightarrow> queue_error + evidence_matrix" where
  "get_evidence_matrix s tid = (case get_task s tid of
       None \<Rightarrow> Inl (KeyError tid)
     | Some t \<Rightarrow> lift_contract (matrix_from_dict (t_evidence_matrix t)))"

definition write_contract :: "timestamp \<Rightarrow> string \<Rightarrow> contract \<Rightarrow> store \<Rightarrow> store" where
  "write_contract now tid c s = snd (with_connection (\<lambda>s. Inr ((),
     update_task tid (\<lambda>t. t\<lparr>t_requirement_contract := contract_to_dict c, t_updated_at := now\<rparr>) s)) s)"

definition already_contracted :: "string \<Rightarrow> dict \<Rightarrow> queue_error" where
  "already_contracted tid c = ContractRefused (tid @ '' already has a contract (v''
     @ json_str (dget c ''contract_version'') @ ''); ''
     @ ''use amend_requirement_contract -- a contract is never overwritten'')"

definition set_requirement_contract ::
  "timestamp \<Rightarrow> string \<Rightarrow> dict list \<Rightarrow> string option \<Rightarrow> string option \<Rightarrow> store
   \<Rightarrow> (queue_error + contract) \<times> store" where
  "set_requirement_contract now tid rs prompt actor s = (case get_task s tid of
       None \<Rightarrow> (Inl (KeyError tid), s)
     | Some t \<Rightarrow>
         if t_requirement_contract t \<noteq> [] then (Inl (already_contracted tid (t_requirement_contract t)), s)
         else (case lift_contract (create_contract (case prompt of None \<Rightarrow> t_prompt t | Some p \<Rightarrow> p)
                   rs (iso_text now) actor) of
                 Inl e \<Rightarrow> (Inl e, s)
               | Inr c \<Rightarrow> (Inr c, snd (record_event now (t_session t) (Some tid) ''REQUIREMENT_CONTRACT_SET''
                   (Some (''v1 with '' @ int_str (int (length (required_ids c))) @ '' required criteria'')) []
                   (write_contract now tid c s)))))"

definition contract_to_amend :: "timestamp \<Rightarrow> task \<Rightarrow> string option \<Rightarrow> contract_error + contract" where
  \<comment> \<open>the stored contract, or a first version made of the task's own prompt\<close>
  "contract_to_amend now t actor = and_then (contract_from_dict (t_requirement_contract t)) (\<lambda>co. case co of
       Some c \<Rightarrow> Inr c
     | None \<Rightarrow> create_contract (t_prompt t) [] (iso_text now) actor)"

definition amend_requirement_contract ::
  "timestamp \<Rightarrow> string \<Rightarrow> string \<Rightarrow> dict list \<Rightarrow> string option \<Rightarrow> store
   \<Rightarrow> (queue_error + contract) \<times> store" where
  "amend_requirement_contract now tid prompt rs actor s = (case get_task s tid of
       None \<Rightarrow> (Inl (KeyError tid), s)
     | Some t \<Rightarrow> (case lift_contract (and_then (contract_to_amend now t actor)
                     (\<lambda>c. amend_contract c prompt rs (iso_text now) actor)) of
           Inl e \<Rightarrow> (Inl e, s)
         | Inr c \<Rightarrow> (Inr c, snd (record_event now (t_session t) (Some tid) ''REQUIREMENT_CONTRACT_AMENDED''
             (Some (''v'' @ int_str (contract_number c) @ '': +'' @ int_str (int (length rs)) @ '' requirement(s)'')) []
             (write_contract now tid c s)))))"

definition set_evidence_matrix ::
  "timestamp \<Rightarrow> string \<Rightarrow> evidence_matrix \<Rightarrow> store \<Rightarrow> (queue_error + unit) \<times> store" where
  "set_evidence_matrix now tid m s = (case get_task s tid of
       None \<Rightarrow> (Inl (KeyError tid), s)
     | Some _ \<Rightarrow> with_connection (\<lambda>s. Inr ((),
         update_task tid (\<lambda>t. t\<lparr>t_evidence_matrix := matrix_to_dict m, t_updated_at := now\<rparr>) s)) s)"

definition completion_decision :: "store \<Rightarrow> string \<Rightarrow> detector list \<Rightarrow> queue_error + gate_decision" where
  "completion_decision s tid detectors =
     and_then (get_requirement_contract s tid) (\<lambda>c. and_then (get_evidence_matrix s tid) (\<lambda>m.
       Inr (reconcile c (Some m)
         (if detectors = [] then [detector_evidence_must_not_be_self_reported] else detectors))))"

section \<open>Repository proof\<close>

definition field_text :: "dict \<Rightarrow> string \<Rightarrow> string" where
  \<comment> \<open>\<open>str(d.get(k) or "").strip()\<close>\<close>
  "field_text d k = strip (or_text (dget d k) [])"

definition line_texts :: "json \<Rightarrow> queue_error + string list" where
  \<comment> \<open>\<open>tuple(str(line) for line in (v or ()))\<close>\<close>
  "line_texts v =
     (if \<not> truthy v then Inr []
      else case v of
        JArr xs \<Rightarrow> Inr (map json_str xs)
      | JStr s \<Rightarrow> Inr (map (\<lambda>c. [c]) s)
      | JObj d \<Rightarrow> Inr (remdups (map fst d))
      | _ \<Rightarrow> Inl (PyError PyTypeError))"

definition wrong_repo :: "string \<Rightarrow> string \<Rightarrow> string \<Rightarrow> queue_error" where
  "wrong_repo what current baseline = CompletionEvidenceError (''GIT_EVIDENCE_WRONG_REPO: current '' @ what @ '' ''
     @ py_repr current @ '' does not match baseline '' @ py_repr baseline)"

definition compare_repo :: "dict \<Rightarrow> dict \<Rightarrow> queue_error + unit" where
  \<comment> \<open>baseline and current observation, both dictionaries\<close>
  "compare_repo baseline current =
     (if field_text baseline ''head'' = [] \<or> field_text current ''head'' = []
      then Inl (CompletionEvidenceError ''GIT_EVIDENCE_UNAVAILABLE: baseline and current HEAD are required'')
      else if field_text baseline ''cwd'' \<noteq> [] \<and> field_text current ''cwd'' \<noteq> field_text baseline ''cwd''
      then Inl (wrong_repo ''cwd'' (field_text current ''cwd'') (field_text baseline ''cwd''))
      else if field_text baseline ''node_id'' \<noteq> [] \<and> field_text current ''node_id'' \<noteq> field_text baseline ''node_id''
      then Inl (wrong_repo ''node'' (field_text current ''node_id'') (field_text baseline ''node_id''))
      else and_then (line_texts (dget baseline ''status_lines'')) (\<lambda>was.
           and_then (line_texts (dget current ''status_lines'')) (\<lambda>is_now.
             if field_text current ''head'' = field_text baseline ''head'' \<and> is_now = was
             then Inl (CompletionEvidenceError (''GIT_EVIDENCE_UNCHANGED: HEAD remains '' @ field_text current ''head''
                    @ '' and the working-tree snapshot has no task-produced delta''))
             else Inr ())))"

definition validate_git_completion_evidence :: "task \<Rightarrow> dict \<Rightarrow> queue_error + unit" where
  "validate_git_completion_evidence t evidence =
     (let raw = dget (t_coordinator_decision t) ''evidence''; baseline = (if truthy raw then raw else JObj [])
      in case as_dict (dget evidence ''git_evidence'') of
           None \<Rightarrow> Inl (CompletionEvidenceError (''GIT_EVIDENCE_REQUIRED: completion marker is only a candidate; ''
                @ ''this task requires a current repository observation''))
         | Some current \<Rightarrow> (case as_dict baseline of
               None \<Rightarrow> Inl (PyError PyAttributeError)
             | Some b \<Rightarrow> compare_repo b current))"

section \<open>Completion\<close>

definition gate_reason_name :: "gate_reason \<Rightarrow> string" where
  "gate_reason_name r = (case r of
     VERIFIED \<Rightarrow> ''VERIFIED'' | NO_CONTRACT \<Rightarrow> ''NO_CONTRACT''
   | STALE_CONTRACT_VERSION \<Rightarrow> ''STALE_CONTRACT_VERSION''
   | REQUIREMENTS_NOT_COVERED \<Rightarrow> ''REQUIREMENTS_NOT_COVERED'' | INVALID_WAIVER \<Rightarrow> ''INVALID_WAIVER''
   | UNKNOWN_STATUS \<Rightarrow> ''UNKNOWN_STATUS'' | DETECTOR_FINDING \<Rightarrow> ''DETECTOR_FINDING'')"

definition evidence_message :: "queue_error \<Rightarrow> string option" where
  \<comment> \<open>\<open>except CompletionEvidenceError as exc: str(exc)\<close>\<close>
  "evidence_message e = (case e of CompletionEvidenceError m \<Rightarrow> Some m | _ \<Rightarrow> None)"

definition refused_completion ::
  "timestamp \<Rightarrow> task \<Rightarrow> string \<Rightarrow> string \<Rightarrow> queue_error \<Rightarrow> store \<Rightarrow> (queue_error + task) \<times> store" where
  \<comment> \<open>record the refusal, then raise\<close>
  "refused_completion now t event_type reason e s =
     (Inl e, snd (record_event now (t_session t) (Some (t_id t)) event_type (Some reason) [] s))"

definition gated_completion ::
  "timestamp \<Rightarrow> task \<Rightarrow> dict \<Rightarrow> string \<Rightarrow> store \<Rightarrow> (queue_error + task) \<times> store" where
  \<comment> \<open>from the contract gate on\<close>
  "gated_completion now t evidence event_type s =
     (case completion_decision s (t_id t) [] of
        Inl e \<Rightarrow> (Inl e, s)
      | Inr g \<Rightarrow> if \<not> g_verified_done g
          then refused_completion now t ''COMPLETION_REFUSED_REQUIREMENTS''
                 (gate_reason_name (g_reason g) @ '': ''
                    @ (let ids = join '', '' (blocking_ids g) in if ids = [] then g_detail g else ids))
                 (RequirementsNotCoveredError (gate_reason_name (g_reason g) @ '': '' @ g_detail g)) s
          else transition_task now (t_id t) COMPLETED event_type None [Verification_evidence evidence] s)"

definition mark_completed_with_evidence ::
  "timestamp \<Rightarrow> string \<Rightarrow> dict \<Rightarrow> string \<Rightarrow> store \<Rightarrow> (queue_error + task) \<times> store" where
  "mark_completed_with_evidence now tid evidence event_type s =
     (if evidence = [] then (Inl (ValueError (''mark_completed_with_evidence requires non-empty evidence -- ''
            @ ''use transition_task directly only for a test/legacy no-evidence path'')), s)
      else case get_task s tid of
        None \<Rightarrow> (Inl (KeyError tid), s)
      | Some t \<Rightarrow>
          if truthy (dget (t_metadata t) ''requires_git_evidence'')
          then (case validate_git_completion_evidence t evidence of
                  Inr _ \<Rightarrow> gated_completion now t evidence event_type s
                | Inl e \<Rightarrow> (case evidence_message e of
                      Some m \<Rightarrow> refused_completion now t ''COMPLETION_REFUSED_EVIDENCE'' m e s
                    | None \<Rightarrow> (Inl e, s)))
          else gated_completion now t evidence event_type s)"

definition completion_overlapped ::
  "timestamp \<Rightarrow> string \<Rightarrow> dict \<Rightarrow> string \<Rightarrow> store \<Rightarrow> store \<Rightarrow> store \<Rightarrow> (queue_error + task) \<times> store" where
  \<comment> \<open>the same with other processes at work between its transactions: the task is read in \<open>q\<close>, the gate
      decides in \<open>g\<close>, the refusal or the transition is written in \<open>s\<close>\<close>
  "completion_overlapped now tid evidence event_type q g s =
     (if evidence = [] then (Inl (ValueError (''mark_completed_with_evidence requires non-empty evidence -- ''
            @ ''use transition_task directly only for a test/legacy no-evidence path'')), s)
      else case get_task q tid of
        None \<Rightarrow> (Inl (KeyError tid), s)
      | Some t \<Rightarrow>
          (case (if truthy (dget (t_metadata t) ''requires_git_evidence'')
                 then validate_git_completion_evidence t evidence else Inr ()) of
             Inl e \<Rightarrow> (case evidence_message e of
                 Some m \<Rightarrow> refused_completion now t ''COMPLETION_REFUSED_EVIDENCE'' m e s
               | None \<Rightarrow> (Inl e, s))
           | Inr _ \<Rightarrow> (case completion_decision g tid [] of
                 Inl e \<Rightarrow> (Inl e, s)
               | Inr d \<Rightarrow> if g_verified_done d
                   then transition_task now tid COMPLETED event_type None [Verification_evidence evidence] s
                   else (case find_task s tid of
                       None \<Rightarrow> (Inl TypeError, s)
                     | Some u \<Rightarrow> refused_completion now u ''COMPLETION_REFUSED_REQUIREMENTS''
                         (gate_reason_name (g_reason d) @ '': ''
                            @ (let ids = join '', '' (blocking_ids d) in if ids = [] then g_detail d else ids))
                         (RequirementsNotCoveredError (gate_reason_name (g_reason d) @ '': '' @ g_detail d)) s))))"

lemma completion_undisturbed:
  "completion_overlapped now tid evidence ty s s s = mark_completed_with_evidence now tid evidence ty s"
proof (cases "find_task s tid")
  case None
  then show ?thesis by (simp add: completion_overlapped_def mark_completed_with_evidence_def get_task_def)
next
  case (Some t)
  then have "t_id t = tid" using find_task_Some_iff by blast
  with Some show ?thesis
    by (auto simp: completion_overlapped_def mark_completed_with_evidence_def get_task_def gated_completion_def
        split: sum.split)
qed

definition invalidation_audit :: "task \<Rightarrow> string \<Rightarrow> string \<Rightarrow> dict \<Rightarrow> dict" where
  "invalidation_audit t reason proof_text git = [(''invalidated_completion'', JObj
     [(''reason'', JStr reason), (''proof'', JStr proof_text), (''git_evidence'', JObj git),
      (''previous_verification_evidence'', JObj (t_verification_evidence t))])]"

definition invalidate_locked ::
  "timestamp \<Rightarrow> task \<Rightarrow> string \<Rightarrow> string \<Rightarrow> dict \<Rightarrow> store \<Rightarrow> task txn" where
  "invalidate_locked now t reason proof_text git s =
     (let gone = Inl (CompletionEvidenceError ''FALSE_COMPLETION_INVALIDATION_REFUSED: task changed during audit'')
      in case find_task s (t_id t) of
        None \<Rightarrow> gone
      | Some row \<Rightarrow> if t_status row \<noteq> COMPLETED \<or> t_updated_at row \<noteq> t_updated_at t then gone
          else transition_locked now (t_id t) COMPLETED CANCELLED ''COMPLETION_INVALIDATED'' (Some reason)
                 (clear_claim @ [Completed_at None, Last_error (Some (proof_text @ ''; '' @ reason)),
                    Verification_evidence (invalidation_audit t reason proof_text git)]) True s)"

definition invalidate_false_completion ::
  "timestamp \<Rightarrow> string \<Rightarrow> string \<Rightarrow> dict \<Rightarrow> store \<Rightarrow> (queue_error + task) \<times> store" where
  "invalidate_false_completion now tid reason git s =
     (case get_task s tid of
        None \<Rightarrow> (Inl (KeyError tid), s)
      | Some t \<Rightarrow>
          if t_status t \<noteq> COMPLETED \<or> \<not> truthy (dget (t_metadata t) ''requires_git_evidence'')
          then (Inl (CompletionEvidenceError (''FALSE_COMPLETION_INVALIDATION_REFUSED: task must be COMPLETED and ''
                  @ ''declare requires_git_evidence'')), s)
          else (case validate_git_completion_evidence t [(''git_evidence'', JObj git)] of
                  Inr _ \<Rightarrow> (Inl (CompletionEvidenceError (''FALSE_COMPLETION_INVALIDATION_REFUSED: repository evidence contains ''
                      @ ''a change from the dispatch baseline'')), s)
                | Inl e \<Rightarrow> (case evidence_message e of
                      Some m \<Rightarrow> if startswith m ''GIT_EVIDENCE_UNCHANGED:''
                        then with_connection (invalidate_locked now t reason m git) s
                        else (Inl e, s)
                    | None \<Rightarrow> (Inl e, s))))"

section \<open>Every operation keeps the contract of the store\<close>

lemma record_event_idle: "s_pending s = [] \<Longrightarrow> s_pending (write_contract now tid c s) = []"
  by (simp add: write_contract_def with_connection_def drain_events_def)

context store_relation
begin

lemma R_nonce:
  assumes "ensure_verification_nonce now fresh tid s = (r, s')" and "s_pending s = []"
  shows "R s s'"
  using assms(1) unfolding ensure_verification_nonce_def
  by (rule R_connection [OF _ assms(2)])
    (auto simp: R_refl same_identity_def split: option.splits if_splits intro!: R_annotate_task)

lemma R_write_contract: "R s (write_contract now tid c s)"
  unfolding write_contract_def
  by (auto simp: with_connection_def same_identity_def intro!: R_trans [OF R_annotate_task R_drain])

lemma R_contract_event:
  assumes "s_pending s = []"
  shows "R s (snd (record_event now sess i ty m d (write_contract now tid c s)))"
  by (rule R_trans [OF R_write_contract R_record_event [OF prod.collapse [symmetric] record_event_idle [OF assms]]])

lemma R_set_contract:
  assumes "set_requirement_contract now tid rs p a s = (r, s')" and "s_pending s = []"
  shows "R s s'"
  using assms R_contract_event [OF assms(2)]
  by (auto simp: set_requirement_contract_def R_refl split: option.splits if_splits sum.splits)

lemma R_amend_contract:
  assumes "amend_requirement_contract now tid p rs a s = (r, s')" and "s_pending s = []"
  shows "R s s'"
  using assms R_contract_event [OF assms(2)]
  by (auto simp: amend_requirement_contract_def R_refl split: option.splits sum.splits)

lemma R_set_matrix:
  assumes "set_evidence_matrix now tid m s = (r, s')" and "s_pending s = []"
  shows "R s s'"
proof (cases "get_task s tid")
  case None
  then show ?thesis using assms by (simp add: set_evidence_matrix_def R_refl)
next
  case (Some t)
  from assms(1) show ?thesis
    unfolding set_evidence_matrix_def Some option.case
    by (rule R_connection [OF _ assms(2)]) (auto simp: same_identity_def intro!: R_annotate_task)
qed

lemma R_gated_completion:
  assumes "gated_completion now t ev ty s = (r, s')" and "store_wf s" and "s_pending s = []"
  shows "R s s'"
  using assms(1) R_record_event [OF prod.collapse [symmetric] assms(3)]
  by (auto simp: gated_completion_def refused_completion_def R_refl split: sum.splits if_splits
      intro: R_transition_task [OF _ assms(2,3)])

lemma R_mark_completed:
  assumes "mark_completed_with_evidence now tid ev ty s = (r, s')" and "store_wf s" and "s_pending s = []"
  shows "R s s'"
  using assms(1) R_record_event [OF prod.collapse [symmetric] assms(3)]
  by (auto simp: mark_completed_with_evidence_def refused_completion_def R_refl split: option.splits sum.splits if_splits
      intro: R_gated_completion [OF _ assms(2,3)])

lemma R_invalidate_locked:
  assumes "invalidate_locked now t reason m git s = Inr (row, s')" and "store_wf s"
  shows "R s s'"
  using assms(1)
  by (auto simp: invalidate_locked_def Let_def clear_claim_def split: option.splits if_splits
      intro: R_transition [OF _ assms(2)])

lemma R_invalidate:
  assumes "invalidate_false_completion now tid reason git s = (r, s')" and "store_wf s" and "s_pending s = []"
  shows "R s s'"
  using assms(1)
  by (auto simp: invalidate_false_completion_def R_refl split: option.splits sum.splits if_splits
      intro: R_connection [OF _ assms(3)] R_invalidate_locked [OF _ assms(2)])

end

section \<open>The only way to COMPLETED with evidence\<close>

lemma record_event_tasks [simp]: "s_tasks (snd (record_event now sess i ty m d s)) = s_tasks s"
  by (simp add: record_event_def with_connection_def)

lemma find_task_recorded [simp]: "find_task (snd (record_event now sess i ty m d s)) x = find_task s x"
  by (rule find_task_cong) simp

definition proven :: "store \<Rightarrow> task \<Rightarrow> dict \<Rightarrow> bool" where
  \<comment> \<open>what a completion of \<open>x\<close> must show\<close>
  "proven s x evidence \<longleftrightarrow> evidence \<noteq> []
     \<and> (truthy (dget (t_metadata x) ''requires_git_evidence'') \<longrightarrow> validate_git_completion_evidence x evidence = Inr ())
     \<and> (\<exists>g. completion_decision s (t_id x) [] = Inr g \<and> g_verified_done g)
     \<and> is_valid_transition (t_status x) COMPLETED"

lemma gated_completion_cases:
  assumes "store_wf s" and "find_task s (t_id x) = Some x"
  shows "if (\<exists>g. completion_decision s (t_id x) [] = Inr g \<and> g_verified_done g) \<and> is_valid_transition (t_status x) COMPLETED
    then \<exists>y s'. gated_completion now x ev ty s = (Inr y, s') \<and> find_task s' (t_id x) = Some y
      \<and> t_status y = COMPLETED \<and> t_verification_evidence y = ev \<and> unclaimed y
      \<and> (\<forall>z. z \<noteq> t_id x \<longrightarrow> find_task s' z = find_task s z)
    else \<exists>e s'. gated_completion now x ev ty s = (Inl e, s') \<and> s_tasks s' = s_tasks s"
proof (cases "\<exists>g. completion_decision s (t_id x) [] = Inr g \<and> g_verified_done g")
  case False
  then show ?thesis
    by (cases "completion_decision s (t_id x) []") (auto simp: gated_completion_def refused_completion_def)
next
  case True
  then have run: "gated_completion now x ev ty s
      = transition_task now (t_id x) COMPLETED ty None [Verification_evidence ev] s"
    by (auto simp: gated_completion_def)
  have ed: "edge_allowed (t_status x) COMPLETED [Verification_evidence ev] x = is_valid_transition (t_status x) COMPLETED"
    by (simp add: edge_allowed_def)
  let ?f = "final_row now (t_status x) COMPLETED None [Verification_evidence ev] x"
  have f: "t_status ?f = COMPLETED" "t_verification_evidence ?f = ev" "unclaimed ?f"
    by (simp_all add: final_row_unclaimed status_groups) (simp add: final_row_def Let_def cleanup_row_def transition_row_def)
  show ?thesis
  proof (cases "is_valid_transition (t_status x) COMPLETED")
    case valid: True
    from transition_task_result [OF assms, of COMPLETED "[Verification_evidence ev]" now ty None, unfolded ed if_P [OF valid]]
    show ?thesis using True valid f unfolding run by auto
  next
    case invalid: False
    from transition_task_result [OF assms, of COMPLETED "[Verification_evidence ev]" now ty None, unfolded ed if_not_P [OF invalid]]
    show ?thesis using invalid unfolding run by auto
  qed
qed

lemma completion_outcome:
  assumes "store_wf s" and "find_task s tid = Some x"
  shows "if proven s x evidence
    then \<exists>y s'. mark_completed_with_evidence now tid evidence ty s = (Inr y, s') \<and> find_task s' tid = Some y
      \<and> t_status y = COMPLETED \<and> t_verification_evidence y = evidence \<and> unclaimed y
      \<and> (\<forall>z. z \<noteq> tid \<longrightarrow> find_task s' z = find_task s z)
    else \<exists>e s'. mark_completed_with_evidence now tid evidence ty s = (Inl e, s') \<and> s_tasks s' = s_tasks s"
proof -
  have id: "t_id x = tid" using find_task_Some_iff [OF assms(2)] by simp
  note G = gated_completion_cases [OF assms(1), of x now evidence ty, unfolded id, OF assms(2)]
  let ?needs = "truthy (dget (t_metadata x) ''requires_git_evidence'')"
  let ?check = "validate_git_completion_evidence x evidence"
  consider (none) "evidence = []" | (bad) "evidence \<noteq> []" "?needs" "?check \<noteq> Inr ()"
    | (good) "evidence \<noteq> []" "?needs \<longrightarrow> ?check = Inr ()" by blast
  then show ?thesis
  proof cases
    case none
    then show ?thesis by (simp add: proven_def mark_completed_with_evidence_def)
  next
    case bad
    then obtain e where "?check = Inl e" by (cases ?check) auto
    with bad have "\<exists>e s'. mark_completed_with_evidence now tid evidence ty s = (Inl e, s') \<and> s_tasks s' = s_tasks s"
      using assms(2) by (auto simp: mark_completed_with_evidence_def get_task_def refused_completion_def split: option.split)
    with bad show ?thesis by (simp add: proven_def)
  next
    case good
    then have "mark_completed_with_evidence now tid evidence ty s = gated_completion now x evidence ty s"
      using assms(2) by (auto simp: mark_completed_with_evidence_def get_task_def)
    moreover have "proven s x evidence \<longleftrightarrow> (\<exists>g. completion_decision s tid [] = Inr g \<and> g_verified_done g)
        \<and> is_valid_transition (t_status x) COMPLETED" using good by (simp add: proven_def id)
    ultimately show ?thesis using G by simp
  qed
qed

text \<open>
  C7: A task completes with evidence exactly when it is proven: evidence is given, a task that
  demands repository proof shows a delta of the right repository, the contract gate passes
  without self-reported coverage, and the status of the task has an edge to COMPLETED in the queue's table:
  QUEUED, DISPATCHING, VERIFYING, BLOCKED or PAUSED, not VERIFYING alone. Then exactly
  that row becomes COMPLETED with the evidence stored and its claim dropped; otherwise the call
  raises and no row changes. The steps of the call are transactions of their own; here no other process writes between them.
\<close>

theorem completion_needs_proof:
  assumes "store_wf s" and "find_task s tid = Some x"
  shows "if proven s x evidence
    then t_status x \<in> {QUEUED, DISPATCHING, VERIFYING, BLOCKED, PAUSED}
      \<and> (\<exists>y s'. mark_completed_with_evidence now tid evidence ty s = (Inr y, s') \<and> find_task s' tid = Some y
        \<and> t_status y = COMPLETED \<and> t_verification_evidence y = evidence \<and> unclaimed y
        \<and> (\<forall>z. z \<noteq> tid \<longrightarrow> find_task s' z = find_task s z))
    else \<exists>e s'. mark_completed_with_evidence now tid evidence ty s = (Inl e, s') \<and> s_tasks s' = s_tasks s"
  using completion_outcome [OF assms] into_COMPLETED [of "t_status x"]
  by (auto simp: proven_def split: if_splits)

section \<open>Invalidating a false completion\<close>

text \<open>
  Only a completion that demanded repository proof and whose recorded observation shows no
  change at all is invalidated: the row becomes CANCELLED, loses its completion time and keeps
  its previous evidence inside the audit record, and no other row changes. In every other case
  the call raises and changes nothing.
\<close>

theorem invalidate_false_completion_contract:
  assumes "store_wf s" and "s_pending s = []" and "find_task s tid = Some x"
  shows "if t_status x = COMPLETED \<and> truthy (dget (t_metadata x) ''requires_git_evidence'')
      \<and> (\<exists>m. validate_git_completion_evidence x [(''git_evidence'', JObj git)] = Inl (CompletionEvidenceError m)
           \<and> startswith m ''GIT_EVIDENCE_UNCHANGED:'')
    then \<exists>y m s'. invalidate_false_completion now tid reason git s = (Inr y, s') \<and> find_task s' tid = Some y
      \<and> t_status y = CANCELLED \<and> t_completed_at y = None \<and> unclaimed y
      \<and> t_verification_evidence y = invalidation_audit x reason m git
      \<and> (\<forall>z. z \<noteq> tid \<longrightarrow> find_task s' z = find_task s z)
    else \<exists>e. invalidate_false_completion now tid reason git s = (Inl e, s)"
proof -
  have id: "t_id x = tid" using find_task_Some_iff [OF assms(3)] by simp
  let ?v = "validate_git_completion_evidence x [(''git_evidence'', JObj git)]"
  let ?c = "t_status x = COMPLETED \<and> truthy (dget (t_metadata x) ''requires_git_evidence'')
      \<and> (\<exists>m. ?v = Inl (CompletionEvidenceError m) \<and> startswith m ''GIT_EVIDENCE_UNCHANGED:'')"
  show ?thesis
  proof (cases ?c)
    case False
    then show ?thesis unfolding if_not_P [OF False]
      using assms(3) by (auto simp: invalidate_false_completion_def get_task_def evidence_message_def
          split: sum.split queue_error.split)
  next
    case True
    then obtain m where m: "?v = Inl (CompletionEvidenceError m)" "startswith m ''GIT_EVIDENCE_UNCHANGED:''" by blast
    let ?ex = "clear_claim @ [Completed_at None, Last_error (Some (m @ ''; '' @ reason)),
       Verification_evidence (invalidation_audit x reason m git)]"
    have run: "invalidate_false_completion now tid reason git s = with_connection
        (\<lambda>s. transition_locked now tid COMPLETED CANCELLED ''COMPLETION_INVALIDATED'' (Some reason) ?ex True s) s"
      using True m assms(3) by (simp add: invalidate_false_completion_def get_task_def evidence_message_def
          with_connection_def invalidate_locked_def id)
    obtain row u where tr: "transition_locked now tid COMPLETED CANCELLED ''COMPLETION_INVALIDATED'' (Some reason) ?ex True s
        = Inr (row, u)"
      using assms(3) by (cases "transition_locked now tid COMPLETED CANCELLED ''COMPLETION_INVALIDATED'' (Some reason) ?ex True s")
        (auto simp: transition_locked_def Let_def find_task_update_task)
    note F = find_task_final [OF tr assms(1)]
    have row: "row = final_row now COMPLETED CANCELLED (Some reason) ?ex x"
      using transition_locked_returns [OF tr] F assms(3) by simp
    have "t_status row = CANCELLED" "t_completed_at row = None" "unclaimed row"
      "t_verification_evidence row = invalidation_audit x reason m git"
      by (simp_all add: row final_row_def Let_def cleanup_row_def transition_row_def clear_claim_def unclaimed_def)
    moreover have "find_task (drain_events u) tid = Some row" "\<forall>z. z \<noteq> tid \<longrightarrow> find_task (drain_events u) z = find_task s z"
      using F assms(3) by (simp_all add: row option.map_ident)
    moreover have "invalidate_false_completion now tid reason git s = (Inr row, drain_events u)"
      using tr by (simp add: run with_connection_def)
    ultimately show ?thesis unfolding if_P [OF True] by blast
  qed
qed

section \<open>Stored contracts stay readable\<close>

definition contracts_ok :: "store \<Rightarrow> bool" where
  "contracts_ok s \<longleftrightarrow> (\<forall>t\<in>set (s_tasks s). t_requirement_contract t = []
     \<or> (\<exists>c. built c \<and> t_requirement_contract t = contract_to_dict c))"

lemma write_contract_tasks [simp]:
  "s_tasks (write_contract now tid c s) = update_where (\<lambda>t. t_id t = tid)
     (\<lambda>t. t\<lparr>t_requirement_contract := contract_to_dict c, t_updated_at := now\<rparr>) (s_tasks s)"
  by (simp add: write_contract_def with_connection_def update_task_def)

lemma written_contract:
  assumes "store_wf s" and "contracts_ok s" and "find_task s tid = Some x" and "built c"
    and "s_tasks s' = s_tasks (write_contract now tid c s)"
  shows "contracts_ok s' \<and> get_requirement_contract s' tid = Inr (Some c)"
proof -
  have "find_task s' tid = Some (x\<lparr>t_requirement_contract := contract_to_dict c, t_updated_at := now\<rparr>)"
    using assms(3) by (simp add: find_task_def assms(5) find_update_where)
  moreover have "contracts_ok s'"
    unfolding contracts_ok_def
  proof
    fix t assume "t \<in> set (s_tasks s')"
    then obtain y where y: "y \<in> set (s_tasks s)"
      "t = (if t_id y = tid then y\<lparr>t_requirement_contract := contract_to_dict c, t_updated_at := now\<rparr> else y)"
      by (auto simp: assms(5) set_update_where simp del: if_split)
    then have "t_requirement_contract t = contract_to_dict c \<or> t = y" by simp
    with y(1) assms(2,4) show "t_requirement_contract t = [] \<or> (\<exists>c. built c \<and> t_requirement_contract t = contract_to_dict c)"
      unfolding contracts_ok_def by blast
  qed
  ultimately show ?thesis
    using contract_storage_roundtrip_plain [OF assms(4)] by (simp add: get_requirement_contract_def get_task_def lift_contract_def)
qed

text \<open>
  Stored contracts stay readable and never lose a version: setting or amending a task's
  contract keeps every stored contract in readable form, the task's contract reads back as the
  one returned, and it extends the one stored before.
\<close>

theorem stored_contract_extends:
  assumes "store_wf s" and "contracts_ok s"
    and "set_requirement_contract now tid rs given actor s = (Inr c, s')
       \<or> amend_requirement_contract now tid prompt rs actor s = (Inr c, s')"
  shows "contracts_ok s' \<and> get_requirement_contract s' tid = Inr (Some c)
    \<and> (\<forall>old. get_requirement_contract s tid = Inr (Some old)
         \<longrightarrow> take (length (c_versions old)) (c_versions c) = c_versions old)"
proof -
  obtain x where x: "find_task s tid = Some x"
    using assms(3) by (auto simp: set_requirement_contract_def amend_requirement_contract_def get_task_def
        split: option.splits)
  have stored: "t_requirement_contract x = [] \<or> (\<exists>c. built c \<and> t_requirement_contract x = contract_to_dict c)"
    using assms(2) find_task_Some_iff [OF x] by (auto simp: contracts_ok_def)
  from assms(3) show ?thesis
  proof
    assume r: "set_requirement_contract now tid rs given actor s = (Inr c, s')"
    then have e: "t_requirement_contract x = []" and c: "built c" and s': "s_tasks s' = s_tasks (write_contract now tid c s)"
      using x by (auto simp: set_requirement_contract_def get_task_def lift_contract_def built.created
          split: if_splits sum.splits contract_error.splits)
    have "get_requirement_contract s tid = Inr None"
      using x e by (simp add: get_requirement_contract_def get_task_def lift_contract_def contract_from_dict_def)
    then show ?thesis using written_contract [OF assms(1,2) x c s'] by simp
  next
    assume r: "amend_requirement_contract now tid prompt rs actor s = (Inr c, s')"
    then obtain base where b: "contract_to_amend now x actor = Inr base"
      and a: "amend_contract base prompt rs (iso_text now) actor = Inr c"
      and s': "s_tasks s' = s_tasks (write_contract now tid c s)"
      using x by (auto simp: amend_requirement_contract_def get_task_def lift_contract_def and_then_Inr_iff
          split: sum.splits contract_error.splits)
    have base: "built base \<and> (\<forall>old. get_requirement_contract s tid = Inr (Some old) \<longrightarrow> base = old)"
      using stored
    proof
      assume e: "t_requirement_contract x = []"
      then show ?thesis using b x
        by (auto simp: contract_to_amend_def contract_from_dict_def get_requirement_contract_def get_task_def
            lift_contract_def intro: built.created)
    next
      assume "\<exists>c. built c \<and> t_requirement_contract x = contract_to_dict c"
      then obtain d where "built d" "t_requirement_contract x = contract_to_dict d" by blast
      then show ?thesis using b x contract_storage_roundtrip_plain [OF \<open>built d\<close>]
        by (auto simp: contract_to_amend_def get_requirement_contract_def get_task_def lift_contract_def)
    qed
    then have c: "built c" using built.amended [OF _ a] by simp
    obtain v where "c_versions c = c_versions base @ [v]"
      by (rule amend_contract_result [OF a]) (auto intro: that)
    then show ?thesis using written_contract [OF assms(1,2) x c s'] base by auto
  qed
qed

section \<open>Witnesses\<close>

abbreviation verifying_task :: task where
  "verifying_task \<equiv> (sample_started ''t1'' ''a'' 0 VERIFYING)\<lparr>t_requirement_contract := contract_to_dict demo_contract,
     t_evidence_matrix := matrix_to_dict (covering_matrix 1)\<rparr>"

lemma completion_needs_proof_witness:
  "\<exists>y s'. mark_completed_with_evidence 9 ''t1'' [(''by'', JStr ''tests'')] ''VERIFIED'' (sample_store [verifying_task])
     = (Inr y, s') \<and> t_status y = COMPLETED"
proof -
  let ?s = "sample_store [verifying_task]"
  have "(case completion_decision ?s ''t1'' [] of Inl _ \<Rightarrow> False | Inr g \<Rightarrow> g_verified_done g)" by code_simp
  then have "proven ?s verifying_task [(''by'', JStr ''tests'')]"
    by (auto simp: proven_def is_valid_transition_def started_evidence_def split: sum.splits)
  then show ?thesis
    using completion_needs_proof [of ?s "''t1''" verifying_task "[(''by'', JStr ''tests'')]" 9 "''VERIFIED''"] by auto
qed

abbreviation false_completion :: task where
  "false_completion \<equiv> (sample_task ''t1'' ''a'' 0 COMPLETED)\<lparr>
     t_metadata := [(''requires_git_evidence'', JBool True)],
     t_coordinator_decision := [(''evidence'', JObj [(''head'', JStr ''abc'')])]\<rparr>"

lemma invalidate_false_completion_contract_witness:
  "\<exists>y s'. invalidate_false_completion 9 ''t1'' ''no delta'' [(''head'', JStr ''abc'')] (sample_store [false_completion])
     = (Inr y, s') \<and> t_status y = CANCELLED"
proof -
  let ?s = "sample_store [false_completion]"
  have "validate_git_completion_evidence false_completion [(''git_evidence'', JObj [(''head'', JStr ''abc'')])]
     = Inl (CompletionEvidenceError ''GIT_EVIDENCE_UNCHANGED: HEAD remains abc and the working-tree snapshot has no task-produced delta'')"
    by code_simp
  moreover have "startswith ''GIT_EVIDENCE_UNCHANGED: HEAD remains abc and the working-tree snapshot has no task-produced delta''
      ''GIT_EVIDENCE_UNCHANGED:''" by code_simp
  ultimately show ?thesis
    using invalidate_false_completion_contract [of ?s "''t1''" false_completion "[(''head'', JStr ''abc'')]" 9 "''no delta''"]
    by auto
qed

lemma stored_contract_extends_witness:
  "\<exists>c s'. amend_requirement_contract 9 ''t1'' ''also this'' [[(''id'', JStr ''R2''), (''text'', JStr ''more'')]] None
      (sample_store [verifying_task]) = (Inr c, s') \<and> get_requirement_contract s' ''t1'' = Inr (Some c)"
proof -
  let ?s = "sample_store [verifying_task]"
  let ?op = "amend_requirement_contract 9 ''t1'' ''also this'' [[(''id'', JStr ''R2''), (''text'', JStr ''more'')]] None ?s"
  have "case fst ?op of Inl _ \<Rightarrow> False | Inr _ \<Rightarrow> True" by code_simp
  then obtain c s' where r: "?op = (Inr c, s')" by (cases ?op; cases "fst ?op") auto
  have "contracts_ok ?s" using demo_built by (auto simp: contracts_ok_def)
  with stored_contract_extends [of ?s 9 "''t1''" "[[(''id'', JStr ''R2''), (''text'', JStr ''more'')]]" None None c s' "''also this''"] r
  show ?thesis by auto
qed

end
