(* ===== verification/Capability.thy ===== *)
theory Capability
  imports Prelude
begin

text \<open>
  The capability model of \<open>capability_profile.py\<close>: how a requirement is compared with what a
  worker declared and what was probed for it, and the one machine-readable answer to why there
  is nothing to route to. Case folding is that of ASCII text.
\<close>

section \<open>Capability sets\<close>

definition casefold :: "string \<Rightarrow> string" where
  "casefold s = map lower_char s"

fun add_capabilities :: "string list \<Rightarrow> string list \<Rightarrow> string list" where
  \<comment> \<open>the loop of \<open>normalise_capabilities\<close>: what is out so far, what is still to come\<close>
  "add_capabilities out [] = out"
| "add_capabilities out (v # vs) =
     (let text = casefold (strip v)
      in add_capabilities (if text \<noteq> [] \<and> text \<notin> set out then out @ [text] else out) vs)"

definition normalise_capabilities :: "string list \<Rightarrow> string list" where
  "normalise_capabilities values = add_capabilities [] values"

definition skill_name :: "json \<Rightarrow> string option" where
  "skill_name skill = (case as_dict skill of None \<Rightarrow> None
     | Some d \<Rightarrow> if truthy (dget d ''name'') then Some (json_str (dget d ''name'')) else None)"

definition declared_capability_set :: "string list \<Rightarrow> json list \<Rightarrow> string list" where
  "declared_capability_set runtime_tools skills =
     normalise_capabilities (runtime_tools @ List.map_filter skill_name skills)"

section \<open>One worker against one requirement\<close>

datatype source = SOURCE_DECLARED | SOURCE_DETECTED | SOURCE_UNDECLARED

datatype match_verdict = MATCH_OK | MATCH_MISSING | MATCH_UNKNOWN

record capability_match =
  cm_verdict :: match_verdict
  cm_required :: "string list"
  cm_matched :: "string list"
  cm_missing :: "string list"
  cm_source :: source

definition list_text :: "string list \<Rightarrow> string" where
  \<comment> \<open>\<open>str(list(xs))\<close>\<close>
  "list_text xs = json_repr (JArr (map JStr xs))"

definition match_reason :: "capability_match \<Rightarrow> string option" where
  "match_reason m = (case cm_verdict m of
       MATCH_OK \<Rightarrow> None
     | MATCH_MISSING \<Rightarrow> Some (''missing required capabilities: '' @ list_text (cm_missing m))
     | MATCH_UNKNOWN \<Rightarrow> Some (''capability unknown: '' @ list_text (cm_missing m)
         @ '' -- this worker has no declared capability profile and its node was not probed for this, so it is not ''
         @ ''eligible (declare it with terminal_worker_declare)''))"

definition source_of :: "string list \<Rightarrow> string list \<Rightarrow> bool \<Rightarrow> source" where
  "source_of declared detected has_profile =
     (if detected \<noteq> [] \<and> declared = [] then SOURCE_DETECTED
      else if declared \<noteq> [] \<or> has_profile then SOURCE_DECLARED else SOURCE_UNDECLARED)"

definition capability_pool :: "string list \<Rightarrow> string list \<Rightarrow> bool \<Rightarrow> string set" where
  "capability_pool declared detected trust_declared =
     set (normalise_capabilities detected)
     \<union> (if trust_declared then set (normalise_capabilities declared) else {})"

definition match_capabilities ::
  "string list \<Rightarrow> string list \<Rightarrow> string list \<Rightarrow> bool \<Rightarrow> bool \<Rightarrow> capability_match" where
  "match_capabilities required declared detected has_profile trust_declared =
     (let wanted = normalise_capabilities required;
          src = source_of (normalise_capabilities declared) (normalise_capabilities detected) has_profile;
          pool = capability_pool declared detected trust_declared;
          matched = filter (\<lambda>c. c \<in> pool) wanted;
          missing = filter (\<lambda>c. c \<notin> pool) wanted
      in if wanted = [] then \<lparr>cm_verdict = MATCH_OK, cm_required = [], cm_matched = [], cm_missing = [], cm_source = src\<rparr>
         else if missing = [] then \<lparr>cm_verdict = MATCH_OK, cm_required = wanted, cm_matched = matched,
                                    cm_missing = [], cm_source = src\<rparr>
         else if \<not> has_profile then \<lparr>cm_verdict = MATCH_UNKNOWN, cm_required = wanted, cm_matched = matched,
                                    cm_missing = missing, cm_source = SOURCE_UNDECLARED\<rparr>
         else \<lparr>cm_verdict = MATCH_MISSING, cm_required = wanted, cm_matched = matched,
                cm_missing = missing, cm_source = src\<rparr>)"

section \<open>The diagnosis of a fleet\<close>

record candidate_view =
  cw_key :: string
  cw_online :: bool
  cw_busy :: bool
  cw_has_profile :: bool
  cw_capability :: capability_match
  cw_role_match :: match_verdict
  cw_ineligible_reason :: "string option"

datatype worker_verdict = OFFLINE | UNKNOWN | MISSING | BUSY | INELIGIBLE | ELIGIBLE

definition worker_verdict :: "candidate_view \<Rightarrow> worker_verdict" where
  "worker_verdict v =
     (if \<not> cw_online v then OFFLINE
      else if MATCH_UNKNOWN \<in> {cm_verdict (cw_capability v), cw_role_match v} then UNKNOWN
      else if MATCH_MISSING \<in> {cm_verdict (cw_capability v), cw_role_match v} then MISSING
      else if cw_busy v then BUSY
      else if nonempty (cw_ineligible_reason v) then INELIGIBLE
      else ELIGIBLE)"

datatype diagnosis_code =
  CANDIDATES_AVAILABLE | NO_WORKERS_REGISTERED | NO_WORKERS_ONLINE | WORKERS_BUSY
| WORKERS_LACK_CAPABILITY | CAPABILITY_UNKNOWN | WORKERS_INELIGIBLE

definition diagnosis_code_name :: "diagnosis_code \<Rightarrow> string" where
  "diagnosis_code_name c = (case c of
     CANDIDATES_AVAILABLE \<Rightarrow> ''CANDIDATES_AVAILABLE'' | NO_WORKERS_REGISTERED \<Rightarrow> ''NO_WORKERS_REGISTERED''
   | NO_WORKERS_ONLINE \<Rightarrow> ''NO_WORKERS_ONLINE'' | WORKERS_BUSY \<Rightarrow> ''WORKERS_BUSY''
   | WORKERS_LACK_CAPABILITY \<Rightarrow> ''WORKERS_LACK_CAPABILITY'' | CAPABILITY_UNKNOWN \<Rightarrow> ''CAPABILITY_UNKNOWN''
   | WORKERS_INELIGIBLE \<Rightarrow> ''WORKERS_INELIGIBLE'')"

definition diagnosis_reason :: "diagnosis_code \<Rightarrow> string" where
  "diagnosis_reason c = (case c of
     CANDIDATES_AVAILABLE \<Rightarrow> ''at least one worker is eligible right now''
   | NO_WORKERS_REGISTERED \<Rightarrow> ''no worker is registered at all -- nothing has a capability profile and no session is running queue work''
   | NO_WORKERS_ONLINE \<Rightarrow> ''every known worker is offline''
   | WORKERS_BUSY \<Rightarrow> ''a capable worker exists but is busy or at its WIP limit -- this is capacity, not a capability gap''
   | WORKERS_LACK_CAPABILITY \<Rightarrow> ''workers are online and declared, and none of them declares what this work requires''
   | CAPABILITY_UNKNOWN \<Rightarrow> ''workers are online but nobody declared what they can do, so they are not eligible -- declare them with terminal_worker_declare''
   | WORKERS_INELIGIBLE \<Rightarrow> ''workers are online and capable, but every one of them failed some other hard constraint (affinity, permissions, exclusion, pin)'')"

record view_counts =
  n_total :: nat
  n_eligible :: nat
  n_offline :: nat
  n_busy :: nat
  n_missing :: nat
  n_unknown :: nat
  n_ineligible :: nat
  n_undeclared :: nat

definition count_verdict :: "worker_verdict \<Rightarrow> view_counts \<Rightarrow> view_counts" where
  "count_verdict w c = (case w of
     ELIGIBLE \<Rightarrow> c\<lparr>n_eligible := Suc (n_eligible c)\<rparr> | OFFLINE \<Rightarrow> c\<lparr>n_offline := Suc (n_offline c)\<rparr>
   | BUSY \<Rightarrow> c\<lparr>n_busy := Suc (n_busy c)\<rparr> | MISSING \<Rightarrow> c\<lparr>n_missing := Suc (n_missing c)\<rparr>
   | UNKNOWN \<Rightarrow> c\<lparr>n_unknown := Suc (n_unknown c)\<rparr> | INELIGIBLE \<Rightarrow> c\<lparr>n_ineligible := Suc (n_ineligible c)\<rparr>)"

definition count_view :: "candidate_view \<Rightarrow> view_counts \<Rightarrow> view_counts" where
  "count_view v c = count_verdict (worker_verdict v)
     (if cw_has_profile v then c else c\<lparr>n_undeclared := Suc (n_undeclared c)\<rparr>)"

definition view_counts :: "candidate_view list \<Rightarrow> view_counts" where
  "view_counts views = fold count_view views
     \<lparr>n_total = length views, n_eligible = 0, n_offline = 0, n_busy = 0, n_missing = 0, n_unknown = 0,
      n_ineligible = 0, n_undeclared = 0\<rparr>"

definition diagnosis_code_of :: "candidate_view list \<Rightarrow> view_counts \<Rightarrow> diagnosis_code" where
  "diagnosis_code_of views c =
     (if views = [] then NO_WORKERS_REGISTERED
      else if n_eligible c \<noteq> 0 then CANDIDATES_AVAILABLE
      else if n_offline c = length views then NO_WORKERS_ONLINE
      else if n_busy c \<noteq> 0 then WORKERS_BUSY
      else if n_unknown c \<noteq> 0 then CAPABILITY_UNKNOWN
      else if n_missing c \<noteq> 0 then WORKERS_LACK_CAPABILITY
      else WORKERS_INELIGIBLE)"

record diagnosis =
  di_code :: diagnosis_code
  di_reason :: string
  di_required :: "string list"
  di_counts :: view_counts
  di_eligible :: "string list"
  di_candidates :: "candidate_view list"

definition diagnose :: "candidate_view list \<Rightarrow> string list \<Rightarrow> diagnosis" where
  "diagnose views required_capabilities =
     (let counts = view_counts views; code = diagnosis_code_of views counts
      in \<lparr>di_code = code, di_reason = diagnosis_reason code,
          di_required = normalise_capabilities required_capabilities, di_counts = counts,
          di_eligible = map cw_key (filter (\<lambda>v. worker_verdict v = ELIGIBLE) views),
          di_candidates = views\<rparr>)"

section \<open>Normalised sets\<close>

lemma add_capabilities_spec:
  assumes "distinct out" and "[] \<notin> set out"
  shows "distinct (add_capabilities out vs)
    \<and> set (add_capabilities out vs) = set out \<union> {c. c \<noteq> [] \<and> c \<in> (\<lambda>v. casefold (strip v)) ` set vs}"
  using assms
proof (induction vs arbitrary: out)
  case (Cons v vs)
  let ?text = "casefold (strip v)"
  let ?out = "if ?text \<noteq> [] \<and> ?text \<notin> set out then out @ [?text] else out"
  have "distinct ?out" "[] \<notin> set ?out" using Cons.prems by auto
  from Cons.IH [OF this] show ?case by (auto simp: Let_def)
qed simp

lemma normalise_distinct: "distinct (normalise_capabilities vs)"
  using add_capabilities_spec [of "[]" vs] by (simp add: normalise_capabilities_def)

lemma set_normalise: "set (normalise_capabilities vs) = {c. c \<noteq> [] \<and> c \<in> (\<lambda>v. casefold (strip v)) ` set vs}"
  using add_capabilities_spec [of "[]" vs] by (simp add: normalise_capabilities_def)

text \<open>
  The verdict on one worker. It passes exactly when every named capability, compared without
  regard to case and surrounding space, was probed or (where declarations are trusted) declared;
  an empty requirement passes everyone. When something is missing the verdict is UNKNOWN exactly
  for a worker without a profile, never a refutation, and what matched and what is missing split
  the requirement.
\<close>

theorem match_capabilities_exact:
  "let m = match_capabilities required declared detected has_profile trust_declared;
       names = (\<lambda>cs. {c. c \<noteq> [] \<and> c \<in> (\<lambda>v. casefold (strip v)) ` set cs});
       pool = names detected \<union> (if trust_declared then names declared else {})
   in (cm_verdict m = MATCH_OK \<longleftrightarrow> names required \<subseteq> pool)
    \<and> (cm_verdict m = MATCH_UNKNOWN \<longleftrightarrow> \<not> names required \<subseteq> pool \<and> \<not> has_profile)
    \<and> (match_reason m = None \<longleftrightarrow> cm_verdict m = MATCH_OK)
    \<and> set (cm_missing m) = names required - pool
    \<and> set (cm_matched m) = names required \<inter> pool
    \<and> distinct (cm_matched m @ cm_missing m)"
proof -
  let ?w = "normalise_capabilities required"
  let ?pool = "capability_pool declared detected trust_declared"
  have sets: "set ?w = {c. c \<noteq> [] \<and> c \<in> (\<lambda>v. casefold (strip v)) ` set required}"
    "?pool = {c. c \<noteq> [] \<and> c \<in> (\<lambda>v. casefold (strip v)) ` set detected}
       \<union> (if trust_declared then {c. c \<noteq> [] \<and> c \<in> (\<lambda>v. casefold (strip v)) ` set declared} else {})"
    by (auto simp: set_normalise capability_pool_def)
  have missing: "filter (\<lambda>c. c \<notin> ?pool) ?w = [] \<longleftrightarrow> set ?w \<subseteq> ?pool" by (auto simp: filter_empty_conv)
  let ?m = "match_capabilities required declared detected has_profile trust_declared"
  have m: "cm_verdict ?m = (if set ?w \<subseteq> ?pool then MATCH_OK else if has_profile then MATCH_MISSING else MATCH_UNKNOWN)"
    "cm_missing ?m = filter (\<lambda>c. c \<notin> ?pool) ?w" "cm_matched ?m = filter (\<lambda>c. c \<in> ?pool) ?w"
    using missing by (auto simp: match_capabilities_def Let_def)
  have "match_reason ?m = None \<longleftrightarrow> cm_verdict ?m = MATCH_OK"
    by (simp add: match_reason_def split: match_verdict.split)
  then show ?thesis
    unfolding Let_def sets [symmetric] using normalise_distinct [of required]
    by (auto simp: m)
qed

section \<open>The diagnosis is exact\<close>

lemma view_counts_fold:
  "fold count_view views c =
     \<lparr>n_total = n_total c,
      n_eligible = n_eligible c + length (filter (\<lambda>v. worker_verdict v = ELIGIBLE) views),
      n_offline = n_offline c + length (filter (\<lambda>v. worker_verdict v = OFFLINE) views),
      n_busy = n_busy c + length (filter (\<lambda>v. worker_verdict v = BUSY) views),
      n_missing = n_missing c + length (filter (\<lambda>v. worker_verdict v = MISSING) views),
      n_unknown = n_unknown c + length (filter (\<lambda>v. worker_verdict v = UNKNOWN) views),
      n_ineligible = n_ineligible c + length (filter (\<lambda>v. worker_verdict v = INELIGIBLE) views),
      n_undeclared = n_undeclared c + length (filter (\<lambda>v. \<not> cw_has_profile v) views)\<rparr>"
proof (induction views arbitrary: c)
  case (Cons v views)
  show ?case
    by (simp only: fold_simps comp_apply Cons.IH)
      (cases "worker_verdict v"; simp add: count_view_def count_verdict_def)
qed simp

lemma verdicts_split:
  "length (filter (\<lambda>v. worker_verdict v = ELIGIBLE) views) + length (filter (\<lambda>v. worker_verdict v = OFFLINE) views)
   + length (filter (\<lambda>v. worker_verdict v = BUSY) views) + length (filter (\<lambda>v. worker_verdict v = MISSING) views)
   + length (filter (\<lambda>v. worker_verdict v = UNKNOWN) views)
   + length (filter (\<lambda>v. worker_verdict v = INELIGIBLE) views) = length views"
proof (induction views)
  case (Cons v views)
  then show ?case by (cases "worker_verdict v") simp_all
qed simp

lemma all_offline: "length (filter p xs) = length xs \<longleftrightarrow> (\<forall>x\<in>set xs. p x)"
  by (induction xs) (auto, metis length_filter_le Suc_n_not_le_n)

lemma none_such: "length (filter p xs) \<noteq> 0 \<longleftrightarrow> (\<exists>x\<in>set xs. p x)"
  by (auto simp: filter_empty_conv)

text \<open>
  The diagnosis of a fleet names the first of these that holds: nobody is registered, somebody
  is eligible, everybody is offline, a capable worker is busy, a worker's capabilities are unknown,
  a worker lacks the capability, and otherwise another constraint excluded everyone. The six counts
  add up to the number of workers, and work is routable exactly when an eligible worker is listed.
\<close>

theorem diagnose_exact:
  "let d = diagnose views required; c = di_counts d in
   di_code d =
     (if views = [] then NO_WORKERS_REGISTERED
      else if \<exists>v\<in>set views. worker_verdict v = ELIGIBLE then CANDIDATES_AVAILABLE
      else if \<forall>v\<in>set views. \<not> cw_online v then NO_WORKERS_ONLINE
      else if \<exists>v\<in>set views. worker_verdict v = BUSY then WORKERS_BUSY
      else if \<exists>v\<in>set views. worker_verdict v = UNKNOWN then CAPABILITY_UNKNOWN
      else if \<exists>v\<in>set views. worker_verdict v = MISSING then WORKERS_LACK_CAPABILITY
      else WORKERS_INELIGIBLE)
   \<and> n_eligible c + n_offline c + n_busy c + n_missing c + n_unknown c + n_ineligible c = length views
   \<and> n_total c = length views
   \<and> (di_eligible d = [] \<longleftrightarrow> di_code d \<noteq> CANDIDATES_AVAILABLE)"
proof -
  have offline: "worker_verdict v = OFFLINE \<longleftrightarrow> \<not> cw_online v" for v
    by (simp add: worker_verdict_def)
  have code: "di_code (diagnose views required) =
     (if views = [] then NO_WORKERS_REGISTERED
      else if \<exists>v\<in>set views. worker_verdict v = ELIGIBLE then CANDIDATES_AVAILABLE
      else if \<forall>v\<in>set views. \<not> cw_online v then NO_WORKERS_ONLINE
      else if \<exists>v\<in>set views. worker_verdict v = BUSY then WORKERS_BUSY
      else if \<exists>v\<in>set views. worker_verdict v = UNKNOWN then CAPABILITY_UNKNOWN
      else if \<exists>v\<in>set views. worker_verdict v = MISSING then WORKERS_LACK_CAPABILITY
      else WORKERS_INELIGIBLE)"
    by (simp only: diagnose_def Let_def diagnosis_code_of_def view_counts_def view_counts_fold
        view_counts.select_convs diagnosis.select_convs add_0 all_offline none_such offline)
  have counts: "n_eligible c + n_offline c + n_busy c + n_missing c + n_unknown c + n_ineligible c = length views
      \<and> n_total c = length views" if "c = di_counts (diagnose views required)" for c
    using verdicts_split [of views] by (simp add: that diagnose_def Let_def view_counts_def view_counts_fold)
  have "di_eligible (diagnose views required) = [] \<longleftrightarrow> \<not> (\<exists>v\<in>set views. worker_verdict v = ELIGIBLE)"
    by (simp add: diagnose_def Let_def filter_empty_conv)
  then have "di_eligible (diagnose views required) = [] \<longleftrightarrow> di_code (diagnose views required) \<noteq> CANDIDATES_AVAILABLE"
    unfolding code by (cases "views = []") (simp_all split: if_splits)
  with code counts show ?thesis by (simp add: Let_def)
qed

section \<open>Instances\<close>

abbreviation undeclared_view :: "string \<Rightarrow> bool \<Rightarrow> candidate_view" where
  "undeclared_view key online \<equiv> \<lparr>cw_key = key, cw_online = online, cw_busy = False, cw_has_profile = False,
     cw_capability = match_capabilities [''Playwright''] [] [''dotnet''] False True,
     cw_role_match = MATCH_OK, cw_ineligible_reason = None\<rparr>"

lemma match_capabilities_exact_witness:
  "cm_verdict (match_capabilities ['' Playwright ''] [''playwright''] [] True True) = MATCH_OK"
proof -
  have "casefold (strip '' Playwright '') = ''playwright''" "casefold (strip ''playwright'') = ''playwright''"
    by code_simp+
  then have "{c. c \<noteq> [] \<and> c \<in> (\<lambda>v. casefold (strip v)) ` set ['' Playwright '']}
      \<subseteq> {c. c \<noteq> [] \<and> c \<in> (\<lambda>v. casefold (strip v)) ` set []}
        \<union> (if True then {c. c \<noteq> [] \<and> c \<in> (\<lambda>v. casefold (strip v)) ` set [''playwright'']} else {})"
    by simp
  with match_capabilities_exact [of "['' Playwright '']" "[''playwright'']" "[]" True True] show ?thesis
    by (simp only: Let_def)
qed

lemma diagnose_exact_witness:
  "di_code (diagnose [undeclared_view ''n1'' False, undeclared_view ''n2'' True] [''playwright'']) = CAPABILITY_UNKNOWN"
proof -
  have "worker_verdict (undeclared_view ''n1'' False) = OFFLINE" "worker_verdict (undeclared_view ''n2'' True) = UNKNOWN"
    by code_simp+
  with diagnose_exact [of "[undeclared_view ''n1'' False, undeclared_view ''n2'' True]" "[''playwright'']"] show ?thesis
    by (simp add: Let_def)
qed

end
