(* ===== verification/VerifyQueue.thy ===== *)
theory VerifyQueue
  imports QueueClaims QueueCompletion Capability
begin

text \<open>
  The verification queue of \<open>verify_queue.py\<close>: verification as work that can be claimed, leased,
  handed over and judged, on the same database as the task queue. A job is a satellite of a
  task; each verdict moves the task along an edge of the task table in the same transaction. The
  redaction of texts is a parameter, \<open>redact\<close>. The two callbacks fired after a commit (the event
  sink and the handoff hook) swallow every exception and write nothing here; they are left out.
\<close>

section \<open>Vocabulary\<close>

fun verify_result_to_task_status :: "verify_status \<Rightarrow> status option" where
  \<comment> \<open>\<open>VERIFY_RESULT_TO_TASK_STATUS\<close>\<close>
  "verify_result_to_task_status VERIFIED_PASS = Some COMPLETED"
| "verify_result_to_task_status VERIFIED_FAIL = Some FAILED"
| "verify_result_to_task_status NEEDS_REWORK = Some FAILED"
| "verify_result_to_task_status VERIFY_BLOCKED = Some BLOCKED"
| "verify_result_to_task_status _ = None"

definition VALID_FALLBACKS :: "string list" where
  "VALID_FALLBACKS = [''in_session'', ''hold'']"

section \<open>The evidence gate\<close>

definition SELF_REPORT_KEYS :: "string list" where
  "SELF_REPORT_KEYS = [''summary'', ''message'', ''note'', ''notes'', ''claim'', ''claimed'', ''agent_report'',
     ''report'', ''status_text'', ''description'', ''comment'', ''assertion'']"

definition empty_value :: "json \<Rightarrow> bool" where
  "empty_value v \<longleftrightarrow> v \<in> {JNull, JStr [], JArr [], JObj []}"

definition substantive_keys :: "dict \<Rightarrow> string list" where
  "substantive_keys d = filter (\<lambda>k. k \<notin> set SELF_REPORT_KEYS \<and> \<not> empty_value (dget d k)) (remdups (map fst d))"

definition type_name :: "json \<Rightarrow> string" where
  "type_name v = (case v of JNull \<Rightarrow> ''NoneType'' | JBool _ \<Rightarrow> ''bool'' | JInt _ \<Rightarrow> ''int'' | JStr _ \<Rightarrow> ''str''
     | JArr _ \<Rightarrow> ''list'' | JObj _ \<Rightarrow> ''dict'')"

definition positive_int :: "json \<Rightarrow> bool" where
  "positive_int v = (case v of JInt n \<Rightarrow> 0 < n | _ \<Rightarrow> False)"

definition contradiction :: "dict \<Rightarrow> string option" where
  \<comment> \<open>what in the evidence itself speaks against a pass\<close>
  "contradiction d =
     (let after = (if dget d ''passed'' = JBool False then Some ''evidence reports passed=false -- not a pass''
          else if positive_int (dget d ''tests_failed'')
          then Some (''evidence reports tests_failed='' @ json_str (dget d ''tests_failed'') @ '' -- not a pass'')
          else None)
      in case dget d ''exit_code'' of
           JNull \<Rightarrow> after
         | JInt n \<Rightarrow> if n \<noteq> 0 then Some (''evidence reports exit_code='' @ int_str n @ '' -- not a pass'') else after
         | v \<Rightarrow> Some (''exit_code must be an integer, got '' @ type_name v))"

definition evidence_verdict :: "json \<Rightarrow> bool \<times> string" where
  "evidence_verdict evidence = (case as_dict evidence of
       None \<Rightarrow> (False, ''evidence must be a non-empty object'')
     | Some d \<Rightarrow> if d = [] then (False, ''evidence must be a non-empty object'')
         else if substantive_keys d = []
         then (False, ''evidence contains only agent self-report keys (''
                @ join '', '' (sort (remdups (filter (\<lambda>k. k \<in> set SELF_REPORT_KEYS) (map fst d))))
                @ '') or empty values -- a pass needs something checkable: exit_code, command, ''
                @ ''test_results, completion_marker, commit_sha, artifact, ...'')
         else (case contradiction d of Some why \<Rightarrow> (False, why) | None \<Rightarrow> (True, ''accepted'')))"

fun redact_structure :: "(string \<Rightarrow> string) \<Rightarrow> json \<Rightarrow> json" where
  "redact_structure redact (JStr s) = JStr (redact s)"
| "redact_structure redact (JObj d) = JObj (map (\<lambda>kv. (fst kv, redact_structure redact (snd kv))) d)"
| "redact_structure redact (JArr xs) = JArr (map (redact_structure redact) xs)"
| "redact_structure redact v = v"

definition redact_dict :: "(string \<Rightarrow> string) \<Rightarrow> dict \<Rightarrow> dict" where
  "redact_dict redact d = map (\<lambda>kv. (fst kv, redact_structure redact (snd kv))) d"

section \<open>Routing by reported facts\<close>

record node =
  nd_id :: string
  nd_status :: string
  nd_draining :: bool
  nd_capabilities :: "string list"
  nd_shell_capabilities :: "string list"
  nd_platform :: string
  nd_session_backend :: string

definition node_capability_set :: "node \<Rightarrow> string list" where
  "node_capability_set n = remdups (nd_capabilities n @ nd_shell_capabilities n
     @ filter (\<lambda>v. v \<noteq> []) [nd_platform n, nd_session_backend n])"

definition node_online :: "node \<Rightarrow> bool" where
  "node_online n \<longleftrightarrow> nd_status n = ''online''"

definition node_view :: "string list \<Rightarrow> node \<Rightarrow> candidate_view" where
  "node_view required n = \<lparr>cw_key = nd_id n, cw_online = node_online n, cw_busy = nd_draining n,
     cw_has_profile = True, cw_capability = match_capabilities required [] (node_capability_set n) True True,
     cw_role_match = MATCH_OK, cw_ineligible_reason = None\<rparr>"

definition diagnose_nodes :: "node list \<Rightarrow> string list \<Rightarrow> diagnosis" where
  "diagnose_nodes nodes required = diagnose (map (node_view required) nodes) required"

definition match_nodes_by_capability :: "node list \<Rightarrow> string list \<Rightarrow> bool \<Rightarrow> node list" where
  "match_nodes_by_capability nodes required online_only =
     filter (\<lambda>n. (\<not> online_only \<or> node_online n) \<and> set required \<subseteq> set (node_capability_set n)) nodes"

record routability =
  rt_routable :: "bool option"
  rt_reason :: string
  rt_candidates :: "string list"
  rt_diagnosis :: "diagnosis option"

definition routability :: "verify_job \<Rightarrow> node list option \<Rightarrow> routability" where
  \<comment> \<open>\<open>None\<close>: no registry is wired\<close>
  "routability job registry = (case registry of
       None \<Rightarrow> \<lparr>rt_routable = None, rt_reason = ''no node registry wired -- routability unknown'',
                rt_candidates = [], rt_diagnosis = None\<rparr>
     | Some all_nodes \<Rightarrow>
         (let candidates = map nd_id (match_nodes_by_capability all_nodes (v_required_capabilities job) True);
              d = diagnose_nodes all_nodes (v_required_capabilities job);
              names = join '', '' (v_required_capabilities job);
              only_self = ''the only capable node is the implementer, and this job requires an independent verifier''
          in if candidates = []
             then \<lparr>rt_routable = Some False,
                    rt_reason = ''['' @ diagnosis_code_name (di_code d) @ ''] no online node reports every required capability: ''
                      @ (if names = [] then ''(none)'' else names),
                    rt_candidates = [], rt_diagnosis = Some d\<rparr>
             else if v_require_independent job \<and> nonempty (v_implementer job)
                       \<and> candidates = [the (v_implementer job)]
             then \<lparr>rt_routable = Some False, rt_reason = only_self, rt_candidates = candidates,
                    rt_diagnosis = Some (d\<lparr>di_code := WORKERS_INELIGIBLE, di_reason := only_self\<rparr>)\<rparr>
             else \<lparr>rt_routable = Some True, rt_reason = ''capable verifier available'',
                    rt_candidates = candidates, rt_diagnosis = Some d\<rparr>))"

section \<open>Jobs on the store\<close>

definition append_history ::
  "timestamp \<Rightarrow> verify_job \<Rightarrow> string option \<Rightarrow> string \<Rightarrow> string option \<Rightarrow> dict \<Rightarrow> dict list" where
  "append_history now row actor event reason extra =
     (let entry = [(''at'', JInt now), (''event'', JStr event), (''actor'', opt_json actor)];
          entry = (if nonempty reason then dset entry ''reason'' (opt_json reason) else entry)
      in v_history row @ [dupdate entry (filter (\<lambda>kv. snd kv \<noteq> JNull) extra)])"

definition reread :: "string \<Rightarrow> store \<Rightarrow> verify_job txn" where
  \<comment> \<open>\<open>VerifyJob.from_row(self._row(connection, job_id))\<close>\<close>
  "reread i s = (case find_job s i of None \<Rightarrow> Inl (PyError PyTypeError) | Some v \<Rightarrow> Inr (v, s))"

definition set_status_locked ::
  "timestamp \<Rightarrow> verify_job \<Rightarrow> verify_status \<Rightarrow> string option \<Rightarrow> string option
   \<Rightarrow> (verify_job \<Rightarrow> verify_job) \<Rightarrow> string \<Rightarrow> store \<Rightarrow> verify_job txn" where
  \<comment> \<open>\<open>fields\<close> are the columns the caller adds\<close>
  "set_status_locked now row to_status actor reason fields_of event s =
     (if to_status \<notin> set (verify_transitions (v_status row))
      then Inl (InvalidVerifyTransition (v_id row @ '': '' @ verify_status_name (v_status row) @ '' -> ''
             @ verify_status_name to_status @ '' is not a valid verify transition''))
      else reread (v_id row) (update_job (v_id row)
        (\<lambda>v. (fields_of (v\<lparr>v_status := to_status, v_updated_at := now\<rparr>))
             \<lparr>v_history := append_history now row actor event reason
               [(''from_status'', JStr (verify_status_name (v_status row))),
                (''to_status'', JStr (verify_status_name to_status))]\<rparr>) s))"

definition unclaim_job :: "verify_job \<Rightarrow> verify_job" where
  \<comment> \<open>the columns a job loses on its way back to the pool\<close>
  "unclaim_job v = v\<lparr>v_verifier := None, v_verifier_node_id := None, v_claim_token := None,
     v_lease_expires_at := None, v_claimed_at := None\<rparr>"

definition held_job :: "store \<Rightarrow> string \<Rightarrow> string \<Rightarrow> verify_job option" where
  \<comment> \<open>the job, if this token holds it\<close>
  "held_job s job_id token = (case find_job s job_id of None \<Rightarrow> None
     | Some v \<Rightarrow> if v_claim_token v = Some token \<and> v_status v \<in> set LEASED_VERIFY_STATUSES then Some v else None)"

section \<open>Creating and claiming a job\<close>

definition new_job ::
  "timestamp \<Rightarrow> string \<Rightarrow> task \<Rightarrow> task \<Rightarrow> string list \<Rightarrow> bool \<Rightarrow> string \<Rightarrow> string option
   \<Rightarrow> string option \<Rightarrow> string option \<Rightarrow> string \<Rightarrow> verify_job" where
  \<comment> \<open>\<open>task\<close> is the caller's snapshot, \<open>row\<close> the stored task\<close>
  "new_job now job_id task row required independent fallback backlog branch commit actor =
     \<lparr>v_id = job_id, v_task_id = t_id task, v_attempt = t_attempt_count task, v_session = t_session row,
      v_status = VERIFY_PENDING, v_created_at = now, v_updated_at = now, v_project_id = t_project_id row,
      v_backlog_id = backlog, v_required_capabilities = required, v_require_independent = independent,
      v_fallback = fallback, v_implementer = t_claimed_by row, v_branch = branch, v_commit_sha = commit,
      v_verifier = None, v_verifier_node_id = None, v_claim_token = None, v_lease_expires_at = None,
      v_claim_count = 0, v_evidence = [], v_failure_summary = [], v_block_reason = None,
      v_history = [[(''at'', JInt now), (''event'', JStr ''CREATED''), (''actor'', JStr actor),
        (''required_capabilities'', JArr (map JStr required)), (''fallback'', JStr fallback)]],
      v_claimed_at = None, v_completed_at = None\<rparr>"

definition insert_job :: "verify_job \<Rightarrow> store \<Rightarrow> verify_job txn" where
  "insert_job v s =
     (if find_job s (v_id v) \<noteq> None
         \<or> (\<exists>u\<in>set (s_verify_jobs s). v_task_id u = v_task_id v \<and> v_attempt u = v_attempt v)
      then Inl IntegrityError
      else reread (v_id v) (s\<lparr>s_verify_jobs := s_verify_jobs s @ [v]\<rparr>))"

definition await_verification :: "timestamp \<Rightarrow> task \<Rightarrow> bool \<Rightarrow> store \<Rightarrow> unit txn" where
  \<comment> \<open>move the stored task to VERIFYING, unless it is there\<close>
  "await_verification now row independent s =
     (if t_status row = RUNNING
      then and_then (transition_locked now (t_id row) RUNNING VERIFYING ''VERIFY_REQUESTED''
             (Some (if independent then ''verify job created -- awaiting an independent verifier''
                    else ''verify job created'')) [] False s)
           (\<lambda>(_, s'). Inr ((), s'))
      else if t_status row \<noteq> VERIFYING
      then Inl (InvalidVerifyTransition (t_id row @ '': cannot open a verify job from status ''
             @ status_name (t_status row) @ '' -- a task must be RUNNING or VERIFYING''))
      else Inr ((), s))"

definition ensure_locked ::
  "timestamp \<Rightarrow> string \<Rightarrow> task \<Rightarrow> string list \<Rightarrow> bool \<Rightarrow> string \<Rightarrow> string option \<Rightarrow> string option
   \<Rightarrow> string option \<Rightarrow> string \<Rightarrow> store \<Rightarrow> verify_job txn" where
  "ensure_locked now job_id task required independent fallback backlog branch commit actor s =
     (case find_row (\<lambda>v. v_task_id v = t_id task \<and> v_attempt v = t_attempt_count task) (s_verify_jobs s) of
        Some v \<Rightarrow> Inr (v, s)
      | None \<Rightarrow> (case find_task s (t_id task) of
          None \<Rightarrow> Inl (KeyError (''no such task: '' @ t_id task))
        | Some row \<Rightarrow> and_then (await_verification now row independent s) (\<lambda>(_, s').
            insert_job (new_job now job_id task row required independent fallback backlog branch commit actor) s')))"

definition ensure_verify_job ::
  "timestamp \<Rightarrow> string \<Rightarrow> task \<Rightarrow> string list \<Rightarrow> bool \<Rightarrow> string \<Rightarrow> string option \<Rightarrow> string option
   \<Rightarrow> string option \<Rightarrow> string \<Rightarrow> store \<Rightarrow> (queue_error + verify_job) \<times> store" where
  \<comment> \<open>\<open>job_id\<close> is the id \<open>uuid4\<close> would mint\<close>
  "ensure_verify_job now job_id task required independent fallback backlog branch commit actor s =
     (if fallback \<notin> set VALID_FALLBACKS
      then (Inl (ValueError (''fallback must be one of ('' @ join '', '' (map py_repr VALID_FALLBACKS)
             @ ''), got '' @ py_repr fallback)), s)
      else with_connection
        (ensure_locked now job_id task required independent fallback backlog branch commit actor) s)"

definition verify_policy_for :: "task \<Rightarrow> dict option" where
  "verify_policy_for t = (case as_dict (dget (t_completion_policy t) ''verify'') of
     None \<Rightarrow> None | Some d \<Rightarrow> if d = [] then None else Some d)"

definition claimable :: "string \<Rightarrow> string list \<Rightarrow> string option \<Rightarrow> verify_job \<Rightarrow> bool" where
  "claimable verifier capabilities project v \<longleftrightarrow> v_status v = VERIFY_PENDING
     \<and> (nonempty project \<longrightarrow> v_project_id v = project)
     \<and> set (v_required_capabilities v) \<subseteq> set capabilities
     \<and> \<not> (v_require_independent v \<and> nonempty (v_implementer v) \<and> v_implementer v = Some verifier)"

definition oldest_first :: "verify_job list \<Rightarrow> verify_job list" where
  \<comment> \<open>\<open>ORDER BY created_at, id\<close>\<close>
  "oldest_first vs = sort_key v_created_at (sort_key v_id vs)"

definition claim_next ::
  "timestamp \<Rightarrow> string \<Rightarrow> string \<Rightarrow> string list \<Rightarrow> string option \<Rightarrow> string option \<Rightarrow> int
   \<Rightarrow> store \<Rightarrow> (queue_error + verify_job option) \<times> store" where
  "claim_next now token verifier capabilities project node lease_seconds = with_connection (\<lambda>s.
     case find_row (claimable verifier capabilities project) (oldest_first (s_verify_jobs s)) of
       None \<Rightarrow> Inr (None, s)
     | Some row \<Rightarrow> and_then (set_status_locked now row VERIFY_CLAIMED (Some verifier) None
           (\<lambda>v. v\<lparr>v_verifier := Some verifier, v_verifier_node_id := node, v_claim_token := Some token,
              v_lease_expires_at := Some (now + lease_seconds), v_claimed_at := Some now,
              v_claim_count := v_claim_count row + 1, v_block_reason := None\<rparr>) ''CLAIMED'' s)
         (\<lambda>(v, s'). Inr (Some v, s')))"

definition start_job ::
  "timestamp \<Rightarrow> string \<Rightarrow> string \<Rightarrow> string option \<Rightarrow> store \<Rightarrow> (queue_error + verify_job option) \<times> store" where
  "start_job now job_id token detail = with_connection (\<lambda>s.
     case find_job s job_id of
       None \<Rightarrow> Inr (None, s)
     | Some row \<Rightarrow> if v_claim_token row \<noteq> Some token \<or> v_status row \<noteq> VERIFY_CLAIMED then Inr (None, s)
         else and_then (set_status_locked now row VERIFY_RUNNING (v_verifier row) detail id ''STARTED'' s)
           (\<lambda>(v, s'). Inr (Some v, s')))"

definition renew_job ::
  "timestamp \<Rightarrow> string \<Rightarrow> string \<Rightarrow> int \<Rightarrow> store \<Rightarrow> (queue_error + verify_job option) \<times> store" where
  "renew_job now job_id token lease_seconds = with_connection (\<lambda>s.
     case held_job s job_id token of
       None \<Rightarrow> Inr (None, s)
     | Some row \<Rightarrow> and_then (reread job_id (update_job job_id (\<lambda>v. if v_claim_token v = Some token
           then v\<lparr>v_lease_expires_at := Some (now + lease_seconds), v_updated_at := now\<rparr> else v) s))
         (\<lambda>(v, s'). Inr (Some v, s')))"

definition release_job ::
  "timestamp \<Rightarrow> string \<Rightarrow> string \<Rightarrow> string option \<Rightarrow> store \<Rightarrow> (queue_error + verify_job option) \<times> store" where
  "release_job now job_id token reason = with_connection (\<lambda>s.
     case held_job s job_id token of
       None \<Rightarrow> Inr (None, s)
     | Some row \<Rightarrow> and_then (set_status_locked now row VERIFY_PENDING (v_verifier row)
           (Some (str_or reason ''verify claim released by holder'')) unclaim_job ''RELEASED'' s)
         (\<lambda>(v, s'). Inr (Some v, s')))"

definition handoff_job ::
  "timestamp \<Rightarrow> string \<Rightarrow> string \<Rightarrow> string \<Rightarrow> string \<Rightarrow> string \<Rightarrow> string option \<Rightarrow> int
   \<Rightarrow> store \<Rightarrow> (queue_error + verify_job option) \<times> store" where
  \<comment> \<open>\<open>fresh\<close> is the rotated token\<close>
  "handoff_job now fresh job_id token to_verifier reason to_node lease_seconds = with_connection (\<lambda>s.
     case held_job s job_id token of
       None \<Rightarrow> Inr (None, s)
     | Some row \<Rightarrow> and_then (reread job_id (update_job job_id (\<lambda>v. if v_claim_token v = Some token
           then v\<lparr>v_verifier := Some to_verifier, v_verifier_node_id := to_node, v_claim_token := Some fresh,
                  v_lease_expires_at := Some (now + lease_seconds), v_claimed_at := Some now,
                  v_claim_count := v_claim_count row + 1,
                  v_history := append_history now row (v_verifier row) ''HANDOFF'' (Some reason)
                    [(''from_verifier'', opt_json (v_verifier row)), (''to_verifier'', JStr to_verifier)],
                  v_updated_at := now\<rparr> else v) s))
         (\<lambda>(v, s'). Inr (Some v, s')))"

section \<open>Verdicts\<close>

datatype verdict_answer =
  Verdict verify_job status
| Refused string string

definition not_holder :: verdict_answer where
  "not_holder = Refused ''NOT_LEASE_HOLDER'' ''claim_token is not the current holder, or the job is not claimed''"

definition not_verifying :: "task option \<Rightarrow> verdict_answer" where
  "not_verifying row = Refused ''TASK_NOT_VERIFYING'' (''task is ''
     @ (case row of None \<Rightarrow> ''missing'' | Some t \<Rightarrow> status_name (t_status t)) @ '', not VERIFYING'')"

definition settle_job ::
  "timestamp \<Rightarrow> verify_job \<Rightarrow> verify_status \<Rightarrow> status \<Rightarrow> string \<Rightarrow> string \<Rightarrow> column list
   \<Rightarrow> string option \<Rightarrow> string option \<Rightarrow> (verify_job \<Rightarrow> verify_job) \<Rightarrow> store \<Rightarrow> verdict_answer txn" where
  \<comment> \<open>the task transition and the job verdict, in one transaction\<close>
  "settle_job now row result target event_type why columns actor job_reason fields_of s =
     and_then (transition_locked now (v_task_id row) VERIFYING target event_type (Some why) columns False s)
       (\<lambda>(_, s'). and_then (set_status_locked now row result actor job_reason fields_of
                     (verify_status_name result) s')
         (\<lambda>(v, s''). Inr (Verdict v target, s'')))"

definition complete_locked ::
  "timestamp \<Rightarrow> string \<Rightarrow> string \<Rightarrow> dict \<Rightarrow> string option \<Rightarrow> store \<Rightarrow> verdict_answer txn" where
  "complete_locked now job_id token clean actor s =
     (case held_job s job_id token of
        None \<Rightarrow> Inr (not_holder, s)
      | Some row \<Rightarrow> (case find_task s (v_task_id row) of
          None \<Rightarrow> Inr (not_verifying None, s)
        | Some t \<Rightarrow>
            if t_status t \<noteq> VERIFYING then Inr (not_verifying (Some t), s)
            else let settle = settle_job now row VERIFIED_PASS COMPLETED ''VERIFIED''
                   (''verified by '' @ opt_str (v_verifier row)) [Verification_evidence clean]
                   (if nonempty actor then actor else v_verifier row) None
                   (\<lambda>v. v\<lparr>v_evidence := clean, v_completed_at := Some now, v_claim_token := None,
                          v_lease_expires_at := None\<rparr>) s
              in if truthy (dget (t_metadata t) ''requires_git_evidence'')
                 then (case validate_git_completion_evidence t clean of
                     Inr _ \<Rightarrow> settle
                   | Inl e \<Rightarrow> (case evidence_message e of
                       None \<Rightarrow> Inl e
                     | Some m \<Rightarrow> Inr (Refused ''EVIDENCE_REJECTED'' m,
                         record_event_locked now (t_session t) (Some (t_id t)) ''COMPLETION_REFUSED_EVIDENCE''
                           (Some m) None None [] s)))
                 else settle))"

definition complete_job ::
  "(string \<Rightarrow> string) \<Rightarrow> timestamp \<Rightarrow> string \<Rightarrow> string \<Rightarrow> json \<Rightarrow> string option \<Rightarrow> store
   \<Rightarrow> (queue_error + verdict_answer) \<times> store" where
  "complete_job redact now job_id token evidence actor s =
     (case evidence_verdict evidence of
        (False, reason) \<Rightarrow> (Inr (Refused ''EVIDENCE_REJECTED'' reason), s)
      | (True, _) \<Rightarrow> with_connection
          (complete_locked now job_id token (redact_dict redact (dict_or_empty evidence)) actor) s)"

definition negative_result :: "string \<Rightarrow> (verify_status \<times> status) option" where
  \<comment> \<open>the result \<open>fail\<close> accepts under this name, and where it sends the task\<close>
  "negative_result name = (case List.find (\<lambda>v. verify_status_name v = name) ALL_VERIFY_STATUSES of
     None \<Rightarrow> None
   | Some v \<Rightarrow> if v = VERIFIED_PASS then None
       else map_option (Pair v) (verify_result_to_task_status v))"

definition headline :: "dict \<Rightarrow> string \<Rightarrow> string" where
  "headline clean result = (if truthy (dget clean ''headline'') then json_str (dget clean ''headline'')
     else if truthy (dget clean ''reason'') then json_str (dget clean ''reason'') else result)"

definition fail_locked ::
  "timestamp \<Rightarrow> string \<Rightarrow> string \<Rightarrow> verify_status \<Rightarrow> status \<Rightarrow> dict \<Rightarrow> string option \<Rightarrow> store
   \<Rightarrow> verdict_answer txn" where
  "fail_locked now job_id token result target clean actor s =
     (case held_job s job_id token of
        None \<Rightarrow> Inr (not_holder, s)
      | Some row \<Rightarrow> (case find_task s (v_task_id row) of
          None \<Rightarrow> Inr (not_verifying None, s)
        | Some t \<Rightarrow>
            if t_status t \<noteq> VERIFYING then Inr (not_verifying (Some t), s)
            else let name = verify_status_name result; head = headline clean name
              in settle_job now row result target name
                   (name @ '' by '' @ opt_str (v_verifier row) @ '': '' @ head) []
                   (if nonempty actor then actor else v_verifier row) (Some head)
                   (\<lambda>v. v\<lparr>v_failure_summary := clean, v_claim_token := None, v_lease_expires_at := None,
                      v_completed_at := (if result = VERIFY_BLOCKED then None else Some now),
                      v_block_reason := (if result = VERIFY_BLOCKED then Some head else v_block_reason v)\<rparr>) s))"

definition fail_job ::
  "(string \<Rightarrow> string) \<Rightarrow> timestamp \<Rightarrow> string \<Rightarrow> string \<Rightarrow> string \<Rightarrow> json \<Rightarrow> string option \<Rightarrow> store
   \<Rightarrow> (queue_error + verdict_answer) \<times> store" where
  "fail_job redact now job_id token result summary actor s =
     (case negative_result result of
        None \<Rightarrow> (Inr (Refused ''INVALID_RESULT''
          (''result must be one of VERIFIED_FAIL, NEEDS_REWORK, VERIFY_BLOCKED -- got '' @ py_repr result)), s)
      | Some (v, target) \<Rightarrow>
          if dict_or_empty summary = []
          then (Inr (Refused ''FAILURE_SUMMARY_REQUIRED''
                 ''a negative verdict must carry a structured, non-empty failure_summary''), s)
          else with_connection
            (fail_locked now job_id token v target (redact_dict redact (dict_or_empty summary)) actor) s)"

definition requeue_job ::
  "timestamp \<Rightarrow> string \<Rightarrow> string \<Rightarrow> string \<Rightarrow> store \<Rightarrow> (queue_error + verify_job option) \<times> store" where
  "requeue_job now job_id actor reason = with_connection (\<lambda>s.
     case find_job s job_id of
       None \<Rightarrow> Inr (None, s)
     | Some row \<Rightarrow> if v_status row \<noteq> VERIFY_BLOCKED then Inr (None, s)
         else and_then (set_status_locked now row VERIFY_PENDING (Some actor) (Some reason)
             (\<lambda>v. (unclaim_job v)\<lparr>v_block_reason := None\<rparr>) ''REQUEUED'' s)
           (\<lambda>(v, s'). Inr (Some v, s')))"

section \<open>Reads\<close>

definition open_job_for_task :: "store \<Rightarrow> string \<Rightarrow> verify_job option" where
  \<comment> \<open>\<open>ORDER BY attempt DESC LIMIT 1\<close>\<close>
  "open_job_for_task s tid =
     (case sort_key (\<lambda>v. - v_attempt v)
             (filter (\<lambda>v. v_task_id v = tid \<and> v_status v \<in> set OPEN_VERIFY_STATUSES) (s_verify_jobs s)) of
        [] \<Rightarrow> None | v # _ \<Rightarrow> Some v)"

definition list_jobs ::
  "store \<Rightarrow> string option \<Rightarrow> string option \<Rightarrow> string option \<Rightarrow> int \<Rightarrow> verify_job list" where
  "list_jobs s status_filter project tid limit = sql_limit limit
     (sort_key (\<lambda>v. - v_created_at v) (sort_key v_id (filter (\<lambda>v.
        (nonempty status_filter \<longrightarrow> verify_status_name (v_status v) = the status_filter)
        \<and> (nonempty project \<longrightarrow> v_project_id v = project)
        \<and> (nonempty tid \<longrightarrow> Some (v_task_id v) = tid)) (s_verify_jobs s))))"

definition verify_stats :: "store \<Rightarrow> string option \<Rightarrow> (verify_status \<times> nat) list" where
  "verify_stats s project = map (\<lambda>st. (st, length (filter (\<lambda>v. v_status v = st
        \<and> (nonempty project \<longrightarrow> v_project_id v = project)) (s_verify_jobs s)))) ALL_VERIFY_STATUSES"

record verify_trace =
  tr_task :: task
  tr_backlog_id :: json
  tr_implementer :: "string option"
  tr_branch :: json
  tr_commit_sha :: json
  tr_jobs :: "verify_job list"

definition or_metadata :: "string option \<Rightarrow> task \<Rightarrow> string \<Rightarrow> json" where
  "or_metadata v t k = (if nonempty v then opt_json v else dget (t_metadata t) k)"

definition trace :: "store \<Rightarrow> string \<Rightarrow> verify_trace option" where
  \<comment> \<open>\<open>None\<close>: \<open>TASK_NOT_FOUND\<close>; the other columns of the answer are columns of the task\<close>
  "trace s tid = (let jobs = list_jobs s None None (Some tid) 50;
       latest = (\<lambda>f. case jobs of [] \<Rightarrow> None | v # _ \<Rightarrow> f v)
     in map_option (\<lambda>t. \<lparr>tr_task = t, tr_backlog_id = or_metadata (latest v_backlog_id) t ''backlog_id'',
          tr_implementer = (if nonempty (latest v_implementer) then latest v_implementer else t_claimed_by t),
          tr_branch = or_metadata (latest v_branch) t ''branch'',
          tr_commit_sha = or_metadata (latest v_commit_sha) t ''commit_sha'', tr_jobs = jobs\<rparr>)
        (get_task s tid))"

section \<open>Recovery\<close>

definition expire_job :: "timestamp \<Rightarrow> string \<Rightarrow> verify_job \<Rightarrow> store \<Rightarrow> queue_error + store" where
  "expire_job clock actor row s = and_then (set_status_locked clock row VERIFY_PENDING (Some actor)
       (Some (''verify lease expired (held by '' @ opt_str (v_verifier row) @ '') -- returned to the pool''))
       unclaim_job ''LEASE_EXPIRED'' s) (\<lambda>(_, s'). Inr s')"

definition status_of_task :: "store \<Rightarrow> verify_job \<Rightarrow> status option" where
  "status_of_task s v = map_option t_status (find_task s (v_task_id v))"

definition status_text :: "status option \<Rightarrow> string" where
  "status_text st = (case st of None \<Rightarrow> ''missing'' | Some x \<Rightarrow> status_name x)"

definition close_job :: "timestamp \<Rightarrow> string \<Rightarrow> verify_job \<Rightarrow> store \<Rightarrow> queue_error + store" where
  \<comment> \<open>close a job whose task left VERIFYING\<close>
  "close_job clock actor row s = and_then
     (if status_of_task s row = Some COMPLETED
      then set_status_locked clock row VERIFIED_PASS (Some actor)
             (Some ''task completed through the in-session evidence gate before a verifier claimed this job'')
             (\<lambda>v. v\<lparr>v_evidence := (case find_task s (v_task_id row) of None \<Rightarrow> [] | Some t \<Rightarrow> t_verification_evidence t),
                    v_completed_at := Some clock, v_claim_token := None, v_lease_expires_at := None\<rparr>)
             ''VERIFIED_PASS'' s
      else set_status_locked clock row VERIFY_CANCELLED (Some actor)
             (Some (''task left VERIFYING (now '' @ status_text (status_of_task s row) @ '') -- nothing left to verify''))
             (\<lambda>v. v\<lparr>v_completed_at := Some clock, v_claim_token := None, v_lease_expires_at := None\<rparr>)
             ''VERIFY_CANCELLED'' s)
     (\<lambda>(_, s'). Inr s')"

definition orphaned :: "store \<Rightarrow> verify_job \<Rightarrow> bool" where
  "orphaned s v \<longleftrightarrow> v_status v \<in> set OPEN_VERIFY_STATUSES \<and> status_of_task s v \<noteq> Some VERIFYING"

record reconcile_report =
  rr_expired :: "string list"
  rr_closed :: "(string \<times> string) list"

definition reconcile_jobs ::
  "timestamp \<Rightarrow> timestamp \<Rightarrow> string \<Rightarrow> store \<Rightarrow> (queue_error + reconcile_report) \<times> store" where
  "reconcile_jobs clock now actor = with_connection (\<lambda>s.
     let expired = filter (expired_verify_lease now) (s_verify_jobs s)
     in and_then (for_each (expire_job clock actor) expired s) (\<lambda>s1.
       let orphans = filter (orphaned s1) (s_verify_jobs s1)
       in and_then (for_each (close_job clock actor) orphans s1) (\<lambda>s2.
         Inr (\<lparr>rr_expired = map v_id expired,
               rr_closed = map (\<lambda>v. (v_id v, status_text (status_of_task s1 v))) orphans\<rparr>, s2))))"

section \<open>Every operation keeps the contract of the store\<close>

lemma reread_Inr [simp]: "reread i s = Inr (v, s') \<longleftrightarrow> s' = s \<and> find_job s i = Some v"
  by (auto simp: reread_def split: option.splits)

lemma history_grows:
  obtains h where "append_history now row actor event reason extra = v_history row @ [h]"
  by (simp add: append_history_def Let_def)

lemma set_status_Inr:
  assumes "set_status_locked now row st actor reason fields_of event s = Inr (v, s')"
  obtains h where "st \<in> set (verify_transitions (v_status row))"
    "s' = update_job (v_id row) (\<lambda>v. (fields_of (v\<lparr>v_status := st, v_updated_at := now\<rparr>))
        \<lparr>v_history := v_history row @ [h]\<rparr>) s"
    "find_job s' (v_id row) = Some v"
proof -
  obtain h where h: "append_history now row actor event reason
      [(''from_status'', JStr (verify_status_name (v_status row))), (''to_status'', JStr (verify_status_name st))]
      = v_history row @ [h]" by (rule history_grows)
  show ?thesis using assms that unfolding set_status_locked_def h by (auto split: if_splits)
qed

lemma held_jobD:
  "held_job s i token = Some v \<Longrightarrow> find_job s i = Some v \<and> v_id v = i \<and> v_claim_token v = Some token
     \<and> v_status v \<in> set LEASED_VERIFY_STATUSES"
  using find_jobD by (auto simp: held_job_def split: option.splits if_splits)

lemma oldest_found: "find_row p (oldest_first vs) = Some v \<Longrightarrow> v \<in> set vs"
  using find_Some_in_set [of p "oldest_first vs" v] by (simp add: find_row_def oldest_first_def)

context store_relation
begin

lemma R_set_status:
  assumes "set_status_locked now row st actor reason fields_of event s = Inr (v, s')"
    and "\<And>u. u \<in> set (s_verify_jobs s) \<Longrightarrow> v_id u = v_id row \<Longrightarrow> u = row"
    and "\<And>h. st \<in> set (verify_transitions (v_status row)) \<Longrightarrow>
      job_moves row ((fields_of (row\<lparr>v_status := st, v_updated_at := now\<rparr>))\<lparr>v_history := v_history row @ [h]\<rparr>)"
  shows "R s s'"
  using assms(1)
proof (cases rule: set_status_Inr)
  case (1 h)
  show ?thesis unfolding 1(2) using assms(2,3) 1(1) by (intro R_job) auto
qed

lemma R_set_status_wf:
  assumes "set_status_locked now row st actor reason fields_of event s = Inr (v, s')"
    and "jobs_wf s" "find_job s (v_id row) = Some row"
    and "\<And>h. st \<in> set (verify_transitions (v_status row)) \<Longrightarrow>
      job_moves row ((fields_of (row\<lparr>v_status := st, v_updated_at := now\<rparr>))\<lparr>v_history := v_history row @ [h]\<rparr>)"
  shows "R s s'"
  using assms(1) wf_job_unique [OF assms(2,3)] assms(4) by (rule R_set_status)

lemma R_insert_job: "insert_job v s = Inr (v', s') \<Longrightarrow> job_ok v \<Longrightarrow> R s s'"
  by (auto simp: insert_job_def split: if_splits intro!: R_new_job)

lemma R_await:
  assumes "await_verification now row independent s = Inr (u, s')" "store_wf s" "find_task s (t_id row) = Some row"
  shows "R s s'"
proof (cases "t_status row = RUNNING")
  case True
  with assms(1) obtain t why where "transition_locked now (t_id row) RUNNING VERIFYING ''VERIFY_REQUESTED'' why [] False s = Inr (t, s')"
    by (auto simp: await_verification_def and_then_Inr_iff)
  from R_transition [OF this assms(2)] assms(3) True show ?thesis by (auto simp: status_groups)
next
  case False
  with assms(1) show ?thesis by (auto simp: await_verification_def R_refl split: if_splits)
qed

lemma R_ensure_locked:
  assumes "ensure_locked now i task req ind fb bl br co actor s = Inr (v, s')" "store_wf s"
  shows "R s s'"
  using assms R_trans [OF R_await [OF _ assms(2)] R_insert_job] find_task_Some_iff
  by (auto simp: ensure_locked_def and_then_Inr_iff R_refl new_job_def job_ok_def verify_groups split: option.splits)

lemma R_ensure_job:
  assumes "ensure_verify_job now i task req ind fb bl br co actor s = (r, s')" "store_wf s" "s_pending s = []"
  shows "R s s'"
  using assms(1) R_connection [OF _ assms(3) R_ensure_locked [OF _ assms(2)]]
  by (auto simp: ensure_verify_job_def R_refl split: if_splits)

lemma R_claim_next:
  assumes "claim_next now token who caps p node secs s = (r, s')" "jobs_wf s" "s_pending s = []"
  shows "R s s'"
  using assms(1) unfolding claim_next_def
proof (rule R_connection [OF _ assms(3)], goal_cases)
  case (1 a t)
  let ?found = "find_row (claimable who caps p) (oldest_first (s_verify_jobs s))"
  show ?case
  proof (cases ?found)
    case None
    with 1 show ?thesis by (simp add: R_refl)
  next
    case (Some row)
    then have row: "row \<in> set (s_verify_jobs s)" by (rule oldest_found)
    have "job_ok row \<Longrightarrow> 0 \<le> v_claim_count row" by (simp add: job_ok_def)
    with 1 Some show ?thesis
      by (auto simp: and_then_Inr_iff job_moves_def job_ok_def verify_groups job_path_edge
          intro!: R_set_status_wf [OF _ assms(2) wf_find_job [OF assms(2) row]])
  qed
qed

lemma R_held_status:
  assumes "set_status_locked now row st actor reason fields_of event s = Inr (v, s')"
    and "jobs_wf s" "held_job s i token = Some row"
    and "\<And>h. st \<in> set (verify_transitions (v_status row)) \<Longrightarrow>
      job_moves row ((fields_of (row\<lparr>v_status := st, v_updated_at := now\<rparr>))\<lparr>v_history := v_history row @ [h]\<rparr>)"
  shows "R s s'"
  using held_jobD [OF assms(3)] by (intro R_set_status_wf [OF assms(1,2) _ assms(4)]) auto

lemma R_held_update:
  assumes "jobs_wf s" "held_job s i token = Some row" "job_moves row (f row)"
  shows "R s (update_job i f s)"
  using wf_job_unique [OF assms(1)] held_jobD [OF assms(2)] assms(3) by (intro R_job) auto

lemma R_start:
  assumes "start_job now i token detail s = (r, s')" "jobs_wf s" "s_pending s = []"
  shows "R s s'"
  using assms(1) unfolding start_job_def
proof (rule R_connection [OF _ assms(3)], goal_cases)
  case (1 a t)
  show ?case
  proof (cases "find_job s i")
    case None
    with 1 show ?thesis by (simp add: R_refl)
  next
    case (Some row)
    with 1 find_jobD [OF Some] show ?thesis
      by (auto simp: and_then_Inr_iff R_refl job_moves_def job_ok_def verify_groups job_path_edge split: if_splits
          intro!: R_set_status_wf [OF _ assms(2)])
  qed
qed

lemma R_renew_job:
  assumes "renew_job now i token secs s = (r, s')" "jobs_wf s" "s_pending s = []"
  shows "R s s'"
  using assms(1) unfolding renew_job_def
proof (rule R_connection [OF _ assms(3)], goal_cases)
  case (1 a t)
  show ?case
  proof (cases "held_job s i token")
    case None
    with 1 show ?thesis by (simp add: R_refl)
  next
    case (Some row)
    then have t: "t = update_job i (\<lambda>v. if v_claim_token v = Some token
        then v\<lparr>v_lease_expires_at := Some (now + secs), v_updated_at := now\<rparr> else v) s"
      using 1 by (auto simp: and_then_Inr_iff)
    show ?thesis unfolding t
      by (rule R_held_update [OF assms(2) Some]) (auto simp: job_moves_def job_ok_def)
  qed
qed

lemma R_release_job:
  assumes "release_job now i token reason s = (r, s')" "jobs_wf s" "s_pending s = []"
  shows "R s s'"
  using assms(1) unfolding release_job_def
proof (rule R_connection [OF _ assms(3)], goal_cases)
  case (1 a t)
  then show ?case
    by (auto simp: and_then_Inr_iff R_refl job_moves_def job_ok_def unclaim_job_def verify_groups job_path_edge
        split: option.splits intro!: R_held_status [OF _ assms(2)])
qed

lemma R_handoff_job:
  assumes "handoff_job now fresh i token who reason node secs s = (r, s')" "jobs_wf s" "s_pending s = []"
  shows "R s s'"
  using assms(1) unfolding handoff_job_def
proof (rule R_connection [OF _ assms(3)], goal_cases)
  case (1 a t)
  show ?case
  proof (cases "held_job s i token")
    case None
    with 1 show ?thesis by (simp add: R_refl)
  next
    case (Some row)
    obtain h where h: "append_history now row (v_verifier row) ''HANDOFF'' (Some reason)
        [(''from_verifier'', opt_json (v_verifier row)), (''to_verifier'', JStr who)] = v_history row @ [h]"
      by (rule history_grows)
    let ?f = "\<lambda>v. if v_claim_token v = Some token
       then v\<lparr>v_verifier := Some who, v_verifier_node_id := node, v_claim_token := Some fresh,
              v_lease_expires_at := Some (now + secs), v_claimed_at := Some now,
              v_claim_count := v_claim_count row + 1, v_history := v_history row @ [h], v_updated_at := now\<rparr> else v"
    have t: "t = update_job i ?f s" using 1 Some by (auto simp: and_then_Inr_iff h cong: if_cong)
    show ?thesis unfolding t
      using held_jobD [OF Some] by (intro R_held_update [OF assms(2) Some]) (auto simp: job_moves_def job_ok_def)
  qed
qed

lemma R_requeue:
  assumes "requeue_job now i actor reason s = (r, s')" "jobs_wf s" "s_pending s = []"
  shows "R s s'"
  using assms(1) unfolding requeue_job_def
proof (rule R_connection [OF _ assms(3)], goal_cases)
  case (1 a t)
  show ?case
  proof (cases "find_job s i")
    case None
    with 1 show ?thesis by (simp add: R_refl)
  next
    case (Some row)
    with 1 find_jobD [OF Some] show ?thesis
      by (auto simp: and_then_Inr_iff R_refl job_moves_def job_ok_def verify_groups job_path_edge unclaim_job_def
          split: if_splits intro!: R_set_status_wf [OF _ assms(2)])
  qed
qed

lemma R_settle:
  assumes "settle_job now row result target ty why cols actor jr fields_of s = Inr (ans, s')"
    and "store_wf s" "jobs_wf s" "find_job s (v_id row) = Some row"
    and "find_task s (v_task_id row) = Some t" "t_status t = VERIFYING"
    and "target \<in> set TERMINAL_STATUSES \<longrightarrow> no_claim_columns cols"
    and "\<And>h. result \<in> set (verify_transitions (v_status row)) \<Longrightarrow>
      job_moves row ((fields_of (row\<lparr>v_status := result, v_updated_at := now\<rparr>))\<lparr>v_history := v_history row @ [h]\<rparr>)"
  shows "R s s'"
proof -
  from assms(1) obtain y u v where
    tr: "transition_locked now (v_task_id row) VERIFYING target ty (Some why) cols False s = Inr (y, u)"
    and st: "set_status_locked now row result actor jr fields_of (verify_status_name result) u = Inr (v, s')"
    by (auto simp: settle_job_def and_then_Inr_iff)
  from tr assms(2) obtain z where "s_verify_jobs u = s_verify_jobs s" by (rule transition_locked_final)
  then have u: "jobs_wf u" "find_job u (v_id row) = Some row"
    using assms(3,4) by (simp_all add: jobs_wf_def find_job_def)
  have "R s u" using assms(5-7) by (intro R_transition [OF tr assms(2)]) auto
  moreover have "R u s'" by (rule R_set_status_wf [OF st u assms(8)])
  ultimately show ?thesis by (rule R_trans)
qed

lemma R_complete_locked:
  assumes "complete_locked now i token clean actor s = Inr (ans, s')" "store_wf s" "jobs_wf s"
  shows "R s s'"
proof (cases "held_job s i token")
  case None
  with assms(1) show ?thesis by (simp add: complete_locked_def R_refl)
next
  case (Some row)
  note held = held_jobD [OF Some]
  show ?thesis
  proof (cases "find_task s (v_task_id row)")
    case None
    with assms(1) Some show ?thesis by (simp add: complete_locked_def R_refl)
  next
    case task: (Some t)
    have settled: "R s s'" if "t_status t = VERIFYING"
      "settle_job now row VERIFIED_PASS COMPLETED ''VERIFIED''
         (''verified by '' @ opt_str (v_verifier row)) [Verification_evidence clean]
         (if nonempty actor then actor else v_verifier row) None
         (\<lambda>v. v\<lparr>v_evidence := clean, v_completed_at := Some now, v_claim_token := None,
                v_lease_expires_at := None\<rparr>) s = Inr (ans, s')"
      using held by (intro R_settle [OF that(2) assms(2,3) _ task that(1)])
        (auto simp: no_claim_columns_def job_moves_def job_ok_def verify_groups job_path_edge)
    from assms(1) Some task settled show ?thesis
      by (auto simp: complete_locked_def Let_def R_refl R_event split: if_splits sum.splits option.splits)
  qed
qed

lemma R_complete_job:
  assumes "complete_job redact now i token ev actor s = (r, s')" "store_wf s" "jobs_wf s" "s_pending s = []"
  shows "R s s'"
  using assms(1) R_connection [OF _ assms(4) R_complete_locked [OF _ assms(2,3)]]
  by (auto simp: complete_job_def R_refl split: prod.splits bool.splits)

lemma R_fail_locked:
  assumes "fail_locked now i token result target clean actor s = Inr (ans, s')" "store_wf s" "jobs_wf s"
    and "verify_result_to_task_status result = Some target" "result \<noteq> VERIFIED_PASS"
  shows "R s s'"
proof (cases "held_job s i token")
  case None
  with assms(1) show ?thesis by (simp add: fail_locked_def R_refl)
next
  case (Some row)
  note held = held_jobD [OF Some]
  show ?thesis
  proof (cases "find_task s (v_task_id row)")
    case None
    with assms(1) Some show ?thesis by (simp add: fail_locked_def R_refl)
  next
    case task: (Some t)
    have result: "result \<in> {VERIFIED_FAIL, NEEDS_REWORK, VERIFY_BLOCKED}" "target \<notin> set TERMINAL_STATUSES"
      using assms(4,5) by (cases result; auto simp: status_groups)+
    show ?thesis
    proof (cases "t_status t = VERIFYING")
      case False
      with assms(1) Some task show ?thesis by (simp add: fail_locked_def R_refl)
    next
      case True
      with assms(1) Some task show ?thesis
        using held result
        by (auto simp: fail_locked_def Let_def job_moves_def job_ok_def verify_groups job_path_edge
            intro!: R_settle [OF _ assms(2,3) _ task True])
    qed
  qed
qed

lemma R_fail_job:
  assumes "fail_job redact now i token result summary actor s = (r, s')" "store_wf s" "jobs_wf s" "s_pending s = []"
  shows "R s s'"
  using assms(1) R_connection [OF _ assms(4) R_fail_locked [OF _ assms(2,3)]]
  by (auto simp: fail_job_def negative_result_def R_refl split: option.splits if_splits)

end

end
