(* ===== verification/VerifyVerdicts.thy ===== *)
theory VerifyVerdicts
  imports VerifyQueue
begin

text \<open>
  What the verification queue guarantees. A verdict settles the task and its job together or
  leaves both as they were; the recovery sweep (\<open>reconcile_jobs\<close>) is computed as one map over
  the table, from which its effect, its soundness and its idempotence follow.
\<close>

section \<open>One status change\<close>

definition status_row ::
  "timestamp \<Rightarrow> verify_job \<Rightarrow> verify_status \<Rightarrow> string option \<Rightarrow> string option
   \<Rightarrow> (verify_job \<Rightarrow> verify_job) \<Rightarrow> string \<Rightarrow> verify_job" where
  \<comment> \<open>the row \<open>set_status_locked\<close> writes\<close>
  "status_row now row st actor reason fields_of event =
     (fields_of (row\<lparr>v_status := st, v_updated_at := now\<rparr>))
       \<lparr>v_history := append_history now row actor event reason
          [(''from_status'', JStr (verify_status_name (v_status row))),
           (''to_status'', JStr (verify_status_name st))]\<rparr>"

lemma update_job_const:
  assumes "jobs_wf s" "find_job s i = Some row" "f row = x"
  shows "update_job i f s = update_job i (\<lambda>_. x) s"
proof -
  have "update_where (\<lambda>v. v_id v = i) f (s_verify_jobs s) = update_where (\<lambda>v. v_id v = i) (\<lambda>_. x) (s_verify_jobs s)"
    using wf_job_unique [OF assms(1,2)] assms(3) by (auto simp: update_where_def)
  then show ?thesis by (simp add: update_job_def)
qed

lemma set_status_done:
  assumes "jobs_wf s" "find_job s (v_id row) = Some row" "st \<in> set (verify_transitions (v_status row))"
    and "\<And>v. v_id (fields_of v) = v_id v"
  shows "set_status_locked now row st actor reason fields_of event s =
    Inr (status_row now row st actor reason fields_of event,
         update_job (v_id row) (\<lambda>_. status_row now row st actor reason fields_of event) s)"
proof -
  let ?f = "\<lambda>v. (fields_of (v\<lparr>v_status := st, v_updated_at := now\<rparr>))
       \<lparr>v_history := append_history now row actor event reason
          [(''from_status'', JStr (verify_status_name (v_status row))),
           (''to_status'', JStr (verify_status_name st))]\<rparr>"
  have "find_job (update_job (v_id row) ?f s) (v_id row) = Some (?f row)"
    using assms(2,4) by (simp add: find_job_update)
  moreover have "update_job (v_id row) ?f s = update_job (v_id row) (\<lambda>_. ?f row) s"
    by (rule update_job_const [OF assms(1,2) refl])
  ultimately show ?thesis
    using assms(3) by (simp add: set_status_locked_def reread_def status_row_def)
qed

section \<open>A verdict\<close>

lemma final_row_verified [simp]:
  "t_verification_evidence (final_row now f t r [Verification_evidence ev] x) = ev"
  by (simp add: final_row_def cleanup_row_def transition_row_def Let_def)

lemma settle_done:
  assumes "store_wf s" "jobs_wf s" "find_job s (v_id row) = Some row"
    and "find_task s (v_task_id row) = Some t" "edge_allowed VERIFYING target cols t"
    and "result \<in> set (verify_transitions (v_status row))" "\<And>v. v_id (fields_of v) = v_id v"
  obtains s' where
    "settle_job now row result target ty why cols actor jr fields_of s =
      Inr (Verdict (status_row now row result actor jr fields_of (verify_status_name result)) target, s')"
    "\<And>z. find_task s' z = (if z = v_task_id row then Some (final_row now VERIFYING target (Some why) cols t) else find_task s z)"
    "s_verify_jobs s' = update_where (\<lambda>v. v_id v = v_id row)
       (\<lambda>_. status_row now row result actor jr fields_of (verify_status_name result)) (s_verify_jobs s)"
proof (cases rule: transition_locked_cases [OF assms(4), of VERIFYING target cols now ty "Some why", case_names goes refused])
  case (refused m)
  with assms(5) show ?thesis by simp
next
  case (goes y u)
  note F = find_task_final [OF goes(2) assms(1)]
  from goes(2) assms(1) have js: "s_verify_jobs u = s_verify_jobs s" by (rule transition_locked_final)
  then have u: "jobs_wf u" "find_job u (v_id row) = Some row"
    using assms(2,3) by (simp_all add: jobs_wf_def find_job_def)
  let ?new = "status_row now row result actor jr fields_of (verify_status_name result)"
  show ?thesis
  proof (rule that)
    show "settle_job now row result target ty why cols actor jr fields_of s =
      Inr (Verdict ?new target, update_job (v_id row) (\<lambda>_. ?new) u)"
      by (simp add: settle_job_def goes(2) set_status_done [OF u assms(6,7)])
    show "find_task (update_job (v_id row) (\<lambda>_. ?new) u) z =
        (if z = v_task_id row then Some (final_row now VERIFYING target (Some why) cols t) else find_task s z)" for z
      by (simp add: F assms(4) option.map_ident)
    show "s_verify_jobs (update_job (v_id row) (\<lambda>_. ?new) u)
        = update_where (\<lambda>v. v_id v = v_id row) (\<lambda>_. ?new) (s_verify_jobs s)" by (simp add: js)
  qed
qed

lemma find_job_replaced:
  assumes "s_verify_jobs s' = update_where (\<lambda>v. v_id v = i) (\<lambda>_. x) (s_verify_jobs s)" "v_id x = i"
  shows "find_job s' j = (if j = i \<and> find_job s i \<noteq> None then Some x else find_job s j)"
proof -
  let ?f = "\<lambda>v. if v_id v = i then x else v"
  have "s_verify_jobs s' = s_verify_jobs (update_job i ?f s)"
    using assms(1) by (auto simp: update_where_def)
  then have "find_job s' j = find_job (update_job i ?f s) j" by (simp add: find_job_def)
  also have "\<dots> = map_option (\<lambda>v. if j = i then ?f v else v) (find_job s j)"
    using assms(2) by (intro find_job_update) simp
  also have "\<dots> = (if j = i \<and> find_job s i \<noteq> None then Some x else find_job s j)"
    by (cases "find_job s j") (auto dest: find_jobD)
  finally show ?thesis .
qed

definition may_pass :: "store \<Rightarrow> string \<Rightarrow> string \<Rightarrow> json \<Rightarrow> dict \<Rightarrow> verify_job \<Rightarrow> task \<Rightarrow> bool" where
  \<comment> \<open>what a passing verdict needs: real evidence, the lease on \<open>row\<close>, its task \<open>t\<close> in VERIFYING,
     and the git proof where the task asks for it\<close>
  "may_pass s i token evidence clean row t \<longleftrightarrow> fst (evidence_verdict evidence) \<and> held_job s i token = Some row
     \<and> find_task s (v_task_id row) = Some t \<and> t_status t = VERIFYING
     \<and> (truthy (dget (t_metadata t) ''requires_git_evidence'') \<longrightarrow> validate_git_completion_evidence t clean = Inr ())"

lemma complete_refused:
  assumes "\<nexists>row t. held_job s i token = Some row \<and> find_task s (v_task_id row) = Some t \<and> t_status t = VERIFYING
     \<and> (truthy (dget (t_metadata t) ''requires_git_evidence'') \<longrightarrow> validate_git_completion_evidence t clean = Inr ())"
    and "complete_locked now i token clean actor s = Inr (ans, s')"
  shows "s_tasks s' = s_tasks s \<and> s_verify_jobs s' = s_verify_jobs s \<and> (\<exists>code why. ans = Refused code why)"
  using assms
  by (auto simp: complete_locked_def Let_def not_holder_def not_verifying_def split: option.splits if_splits sum.splits)

lemma complete_passes:
  assumes "store_wf s" "jobs_wf s" "may_pass s i token ev clean row t"
  obtains v s' where "complete_locked now i token clean actor s = Inr (Verdict v COMPLETED, s')"
    "find_job s' i = Some v" "v_status v = VERIFIED_PASS" "v_evidence v = clean" "v_claim_token v = None" "v_task_id v = v_task_id row"
    "\<And>z. find_task s' z = (if z = v_task_id row
       then Some (final_row now VERIFYING COMPLETED (Some (''verified by '' @ opt_str (v_verifier row))) [Verification_evidence clean] t)
       else find_task s z)"
    "\<And>j. j \<noteq> i \<Longrightarrow> find_job s' j = find_job s j"
proof -
  from assms(3) have held: "held_job s i token = Some row" and task: "find_task s (v_task_id row) = Some t"
    and st: "t_status t = VERIFYING" by (simp_all add: may_pass_def)
  note H = held_jobD [OF held]
  let ?fields = "\<lambda>v. v\<lparr>v_evidence := clean, v_completed_at := Some now, v_claim_token := None, v_lease_expires_at := None\<rparr>"
  let ?actor = "if nonempty actor then actor else v_verifier row"
  let ?new = "status_row now row VERIFIED_PASS ?actor None ?fields (verify_status_name VERIFIED_PASS)"
  have edge: "edge_allowed VERIFYING COMPLETED [Verification_evidence clean] t"
    by (simp add: edge_allowed_def is_valid_transition_def)
  have pass: "VERIFIED_PASS \<in> set (verify_transitions (v_status row))"
    using H by (auto simp: verify_groups)
  have fj: "find_job s (v_id row) = Some row" using H by simp
  obtain s' where S: "settle_job now row VERIFIED_PASS COMPLETED ''VERIFIED''
       (''verified by '' @ opt_str (v_verifier row)) [Verification_evidence clean] ?actor None ?fields s = Inr (Verdict ?new COMPLETED, s')"
    "\<And>z. find_task s' z = (if z = v_task_id row
       then Some (final_row now VERIFYING COMPLETED (Some (''verified by '' @ opt_str (v_verifier row))) [Verification_evidence clean] t)
       else find_task s z)"
    "s_verify_jobs s' = update_where (\<lambda>v. v_id v = v_id row) (\<lambda>_. ?new) (s_verify_jobs s)"
    by (rule settle_done [OF assms(1,2) fj task edge pass, where fields_of = ?fields and ty = "''VERIFIED''"
        and why = "''verified by '' @ opt_str (v_verifier row)" and now = now and actor = ?actor and jr = None])
      (simp, rule that)
  have id: "v_id ?new = v_id row" "v_task_id ?new = v_task_id row" "v_status ?new = VERIFIED_PASS"
    "v_evidence ?new = clean" "v_claim_token ?new = None"
    by (simp_all add: status_row_def)
  note fjs = find_job_replaced [OF S(3) id(1)]
  have "complete_locked now i token clean actor s = Inr (Verdict ?new COMPLETED, s')"
    using assms(3) held task st S(1) by (auto simp: complete_locked_def may_pass_def Let_def split: if_splits)
  then show ?thesis using that [of ?new s'] fjs id S(2) H fj by simp
qed

text \<open>
  C8: A verifier's pass and the task's completion are one step. \<open>complete\<close> settles both exactly
  when the evidence is checkable and does not contradict itself, the token holds the job's lease,
  the task is VERIFYING and, where the task asks for git proof, the evidence passes it: the job is then
  VERIFIED_PASS and unclaimed, the task COMPLETED, both store the redacted evidence, and every other task and
  job is as before. In every other case no task and no job changes.
\<close>

theorem verify_complete_contract:
  assumes "store_wf s" and "jobs_wf s"
    and "complete_job redact now i token evidence actor s = (r, s')"
    and "clean = redact_dict redact (dict_or_empty evidence)"
  shows "if \<exists>row t. may_pass s i token evidence clean row t
    then \<exists>v t'. r = Inr (Verdict v COMPLETED) \<and> find_job s' i = Some v \<and> v_status v = VERIFIED_PASS
       \<and> v_evidence v = clean \<and> v_claim_token v = None \<and> find_task s' (v_task_id v) = Some t'
       \<and> t_status t' = COMPLETED \<and> t_verification_evidence t' = clean
       \<and> (\<forall>z. z \<noteq> v_task_id v \<longrightarrow> find_task s' z = find_task s z)
       \<and> (\<forall>j. j \<noteq> i \<longrightarrow> find_job s' j = find_job s j)
    else s_tasks s' = s_tasks s \<and> s_verify_jobs s' = s_verify_jobs s \<and> (\<forall>v st. r \<noteq> Inr (Verdict v st))"
proof (cases "\<exists>row t. may_pass s i token evidence clean row t")
  case True
  then obtain row t where pass: "may_pass s i token evidence clean row t" by blast
  then obtain why where ok: "evidence_verdict evidence = (True, why)"
    by (cases "evidence_verdict evidence") (auto simp: may_pass_def)
  from complete_passes [OF assms(1,2) pass, of now actor] obtain v u where
    U: "complete_locked now i token clean actor s = Inr (Verdict v COMPLETED, u)"
    "find_job u i = Some v" "v_status v = VERIFIED_PASS" "v_evidence v = clean" "v_claim_token v = None" "v_task_id v = v_task_id row"
    "\<And>z. find_task u z = (if z = v_task_id row
       then Some (final_row now VERIFYING COMPLETED (Some (''verified by '' @ opt_str (v_verifier row))) [Verification_evidence clean] t)
       else find_task s z)" "\<And>j. j \<noteq> i \<Longrightarrow> find_job u j = find_job s j" by metis
  have "r = Inr (Verdict v COMPLETED)" "s' = drain_events u"
    using assms(3,4) ok U(1) by (simp_all add: complete_job_def with_connection_def)
  moreover have "find_job (drain_events u) j = find_job u j" for j by (simp add: find_job_def)
  ultimately show ?thesis unfolding if_P [OF True] using U by simp
next
  case False
  show ?thesis
  proof (cases "evidence_verdict evidence")
    case (Pair ok why)
    show ?thesis
    proof (cases ok)
      case False
      with Pair assms(3) show ?thesis unfolding if_not_P [OF \<open>\<nexists>row t. may_pass s i token evidence clean row t\<close>]
        by (auto simp: complete_job_def)
    next
      case True
      then have run: "with_connection (complete_locked now i token clean actor) s = (r, s')"
        using Pair assms(3,4) by (simp add: complete_job_def)
      have none: "\<nexists>row t. held_job s i token = Some row \<and> find_task s (v_task_id row) = Some t \<and> t_status t = VERIFYING
         \<and> (truthy (dget (t_metadata t) ''requires_git_evidence'') \<longrightarrow> validate_git_completion_evidence t clean = Inr ())"
        using False True Pair by (auto simp: may_pass_def)
      show ?thesis unfolding if_not_P [OF False]
        using run by (cases rule: with_connection_cases) (auto dest: complete_refused [OF none])
    qed
  qed
qed

definition may_fail :: "store \<Rightarrow> string \<Rightarrow> string \<Rightarrow> json \<Rightarrow> string \<Rightarrow> verify_status \<Rightarrow> status \<Rightarrow> verify_job \<Rightarrow> task \<Rightarrow> bool" where
  \<comment> \<open>what a negative verdict needs\<close>
  "may_fail s i token summary name result target row t \<longleftrightarrow> negative_result name = Some (result, target)
     \<and> dict_or_empty summary \<noteq> [] \<and> held_job s i token = Some row
     \<and> find_task s (v_task_id row) = Some t \<and> t_status t = VERIFYING"

lemma negative_resultD:
  "negative_result name = Some (result, target) \<Longrightarrow>
     (result, target) \<in> {(VERIFIED_FAIL, FAILED), (NEEDS_REWORK, FAILED), (VERIFY_BLOCKED, BLOCKED)}"
  by (cases result) (auto simp: negative_result_def split: option.splits if_splits)

lemma fail_refused:
  assumes "\<nexists>row t. held_job s i token = Some row \<and> find_task s (v_task_id row) = Some t \<and> t_status t = VERIFYING"
    and "fail_locked now i token result target clean actor s = Inr (ans, s')"
  shows "s' = s \<and> (\<exists>code why. ans = Refused code why)"
  using assms
  by (auto simp: fail_locked_def Let_def not_holder_def not_verifying_def split: option.splits if_splits)

lemma fail_settles:
  assumes "store_wf s" "jobs_wf s" "may_fail s i token summary name result target row t"
  obtains v s' where "fail_locked now i token result target clean actor s = Inr (Verdict v target, s')"
    "find_job s' i = Some v" "v_status v = result" "v_failure_summary v = clean" "v_claim_token v = None" "v_task_id v = v_task_id row"
    "\<And>z. z \<noteq> v_task_id row \<Longrightarrow> find_task s' z = find_task s z"
    "map_option t_status (find_task s' (v_task_id row)) = Some target"
    "\<And>j. j \<noteq> i \<Longrightarrow> find_job s' j = find_job s j"
proof -
  from assms(3) have held: "held_job s i token = Some row" and task: "find_task s (v_task_id row) = Some t"
    and st: "t_status t = VERIFYING" and neg: "negative_result name = Some (result, target)"
    by (simp_all add: may_fail_def)
  note H = held_jobD [OF held]
  let ?head = "headline clean (verify_status_name result)"
  let ?why = "verify_status_name result @ '' by '' @ opt_str (v_verifier row) @ '': '' @ ?head"
  let ?fields = "\<lambda>v. v\<lparr>v_failure_summary := clean, v_claim_token := None, v_lease_expires_at := None,
      v_completed_at := (if result = VERIFY_BLOCKED then None else Some now),
      v_block_reason := (if result = VERIFY_BLOCKED then Some ?head else v_block_reason v)\<rparr>"
  let ?actor = "if nonempty actor then actor else v_verifier row"
  let ?new = "status_row now row result ?actor (Some ?head) ?fields (verify_status_name result)"
  have edge: "edge_allowed VERIFYING target [] t"
    using negative_resultD [OF neg] by (auto simp: edge_allowed_def is_valid_transition_def)
  have res: "result \<in> set (verify_transitions (v_status row))"
    using H negative_resultD [OF neg] by (auto simp: verify_groups)
  have fj: "find_job s (v_id row) = Some row" using H by simp
  obtain s' where S: "settle_job now row result target (verify_status_name result) ?why [] ?actor (Some ?head) ?fields s
       = Inr (Verdict ?new target, s')"
    "\<And>z. find_task s' z = (if z = v_task_id row then Some (final_row now VERIFYING target (Some ?why) [] t) else find_task s z)"
    "s_verify_jobs s' = update_where (\<lambda>v. v_id v = v_id row) (\<lambda>_. ?new) (s_verify_jobs s)"
    by (rule settle_done [OF assms(1,2) fj task edge res, where fields_of = ?fields and ty = "verify_status_name result"
        and why = ?why and now = now and actor = ?actor and jr = "Some ?head"]) (simp, rule that)
  have id: "v_id ?new = v_id row" "v_task_id ?new = v_task_id row" "v_status ?new = result"
    "v_failure_summary ?new = clean" "v_claim_token ?new = None"
    by (simp_all add: status_row_def)
  note fjs = find_job_replaced [OF S(3) id(1)]
  have "fail_locked now i token result target clean actor s = Inr (Verdict ?new target, s')"
    using held task st S(1) by (simp only: fail_locked_def option.case Let_def simp_thms if_False)
  then show ?thesis using that [of ?new s'] fjs id S(2) H fj by simp
qed

text \<open>
  A negative verdict also settles both rows or neither. With a named result, a non-empty
  summary, the lease and a VERIFYING task, a VERIFIED_FAIL or NEEDS_REWORK job sends its task to FAILED and a
  VERIFY_BLOCKED job sends it to BLOCKED, the claim is dropped and the redacted summary stored;
  in every other case neither table changes.
\<close>

theorem verify_fail_contract:
  assumes "store_wf s" and "jobs_wf s"
    and "fail_job redact now i token name summary actor s = (r, s')"
  shows "if \<exists>result target row t. may_fail s i token summary name result target row t
    then \<exists>v t'. r = Inr (Verdict v (t_status t')) \<and> find_job s' i = Some v \<and> find_task s' (v_task_id v) = Some t'
       \<and> (v_status v, t_status t') \<in> {(VERIFIED_FAIL, FAILED), (NEEDS_REWORK, FAILED), (VERIFY_BLOCKED, BLOCKED)}
       \<and> v_failure_summary v = redact_dict redact (dict_or_empty summary) \<and> v_claim_token v = None
       \<and> (\<forall>z. z \<noteq> v_task_id v \<longrightarrow> find_task s' z = find_task s z)
       \<and> (\<forall>j. j \<noteq> i \<longrightarrow> find_job s' j = find_job s j)
    else s_tasks s' = s_tasks s \<and> s_verify_jobs s' = s_verify_jobs s \<and> (\<forall>v st. r \<noteq> Inr (Verdict v st))"
proof (cases "\<exists>result target row t. may_fail s i token summary name result target row t")
  case True
  then obtain result target row t where may: "may_fail s i token summary name result target row t" by blast
  let ?clean = "redact_dict redact (dict_or_empty summary)"
  from fail_settles [OF assms(1,2) may, of now ?clean actor] obtain v u where
    U: "fail_locked now i token result target ?clean actor s = Inr (Verdict v target, u)"
    "find_job u i = Some v" "v_status v = result" "v_failure_summary v = ?clean" "v_claim_token v = None" "v_task_id v = v_task_id row"
    "\<And>z. z \<noteq> v_task_id row \<Longrightarrow> find_task u z = find_task s z"
    "map_option t_status (find_task u (v_task_id row)) = Some target"
    "\<And>j. j \<noteq> i \<Longrightarrow> find_job u j = find_job s j" by metis
  have neg: "negative_result name = Some (result, target)" using may by (simp add: may_fail_def)
  have "r = Inr (Verdict v target)" "s' = drain_events u"
    using assms(3) may U(1) by (simp_all add: fail_job_def may_fail_def with_connection_def)
  moreover have "find_job (drain_events u) j = find_job u j" for j by (simp add: find_job_def)
  ultimately show ?thesis unfolding if_P [OF True] using U negative_resultD [OF neg] by auto
next
  case False
  have none: "\<nexists>row t. held_job s i token = Some row \<and> find_task s (v_task_id row) = Some t \<and> t_status t = VERIFYING"
    if "negative_result name = Some (result, target)" "dict_or_empty summary \<noteq> []" for result target
    using False that by (simp add: may_fail_def)
  show ?thesis
  proof (cases "negative_result name \<noteq> None \<and> dict_or_empty summary \<noteq> []")
    case True
    then obtain result target where neg: "negative_result name = Some (result, target)" by auto
    have run: "with_connection (fail_locked now i token result target (redact_dict redact (dict_or_empty summary)) actor) s = (r, s')"
      using True neg assms(3) by (simp add: fail_job_def)
    note no = none [OF neg conjunct2 [OF True]]
    show ?thesis unfolding if_not_P [OF False]
      using run by (cases rule: with_connection_cases) (auto dest: fail_refused [OF no])
  next
    case invalid: False
    with assms(3) show ?thesis unfolding if_not_P [OF False]
      by (auto simp: fail_job_def split: option.splits if_splits)
  qed
qed

text \<open>
  A verifier's pass does not ask the Requirement Contract. Whenever a pass is otherwise due, a task
  whose contract gate refuses completion is completed all the same, while \<open>mark_completed_with_evidence\<close>,
  called on the same store with the same evidence, refuses it and changes no task.
\<close>

theorem verify_pass_skips_contract:
  assumes "store_wf s" and "jobs_wf s"
    and "may_pass s i token evidence (redact_dict redact (dict_or_empty evidence)) row t"
    and "completion_decision s (v_task_id row) [] = Inr g" and "\<not> g_verified_done g"
  shows "(\<exists>v s'. complete_job redact now i token evidence actor s = (Inr (Verdict v COMPLETED), s')
      \<and> map_option t_status (find_task s' (v_task_id row)) = Some COMPLETED)
    \<and> (\<exists>e s'. mark_completed_with_evidence now (v_task_id row) (redact_dict redact (dict_or_empty evidence)) ty s
         = (Inl e, s') \<and> s_tasks s' = s_tasks s)"
proof
  let ?clean = "redact_dict redact (dict_or_empty evidence)"
  from assms(3) have task: "find_task s (v_task_id row) = Some t" by (simp add: may_pass_def)
  obtain why where ok: "evidence_verdict evidence = (True, why)"
    using assms(3) by (cases "evidence_verdict evidence") (auto simp: may_pass_def)
  from complete_passes [OF assms(1-3), of now actor] obtain v u where
    U: "complete_locked now i token ?clean actor s = Inr (Verdict v COMPLETED, u)"
    "\<And>z. find_task u z = (if z = v_task_id row
       then Some (final_row now VERIFYING COMPLETED (Some (''verified by '' @ opt_str (v_verifier row))) [Verification_evidence ?clean] t)
       else find_task s z)" by metis
  then show "\<exists>v s'. complete_job redact now i token evidence actor s = (Inr (Verdict v COMPLETED), s')
      \<and> map_option t_status (find_task s' (v_task_id row)) = Some COMPLETED"
    using ok by (intro exI [of _ v] exI [of _ "drain_events u"]) (simp add: complete_job_def with_connection_def)
  have "t_id t = v_task_id row" using find_task_Some_iff [OF task] by simp
  then have "\<not> proven s t ?clean" using assms(4,5) by (auto simp: proven_def)
  from completion_outcome [OF assms(1) task, of ?clean now ty] \<open>\<not> proven s t ?clean\<close>
  show "\<exists>e s'. mark_completed_with_evidence now (v_task_id row) ?clean ty s = (Inl e, s') \<and> s_tasks s' = s_tasks s" by simp
qed

section \<open>The sweep\<close>

lemma for_each_jobs:
  assumes "jobs_wf s" "distinct (map v_id rows)" "\<forall>r\<in>set rows. find_job s (v_id r) = Some r"
    and "\<And>r u. r \<in> set rows \<Longrightarrow> jobs_wf u \<Longrightarrow> find_job u (v_id r) = Some r \<Longrightarrow> s_tasks u = s_tasks s \<Longrightarrow>
      body r u = Inr (update_job (v_id r) (\<lambda>_. new r) u)"
    and "\<And>r. r \<in> set rows \<Longrightarrow> job_moves r (new r)"
  shows "for_each body rows s =
    Inr (s\<lparr>s_verify_jobs := update_where (\<lambda>v. v_id v \<in> v_id ` set rows) new (s_verify_jobs s)\<rparr>)"
  using assms
proof (induction rows arbitrary: s)
  case Nil
  then show ?case by (simp add: update_where_def)
next
  case (Cons r rows)
  let ?u = "update_job (v_id r) (\<lambda>_. new r) s"
  have r: "find_job s (v_id r) = Some r" using Cons.prems(3) by simp
  have moves: "job_moves r (new r)" using Cons.prems(5) by simp
  then have id: "v_id (new r) = v_id r" by (simp add: job_moves_def)
  have u: "update_job (v_id r) (\<lambda>_. new r) s = update_job (v_id r) new s"
    by (rule update_job_const [OF Cons.prems(1) r refl, symmetric])
  have "jobs_evolve s ?u"
    unfolding u using wf_job_unique [OF Cons.prems(1) r] moves by (intro jobs_evolve_update) auto
  then have wf: "jobs_wf ?u" using Cons.prems(1) by (simp add: jobs_evolve_def)
  have other: "find_job ?u (v_id q) = Some q" if "q \<in> set rows" for q
  proof (rule wf_find_job [OF wf])
    have "v_id q \<noteq> v_id r" using Cons.prems(2) that by (auto simp: image_iff)
    moreover have "q \<in> set (s_verify_jobs s)" using Cons.prems(3) that find_jobD by fastforce
    ultimately show "q \<in> set (s_verify_jobs ?u)" by (auto simp: update_where_def image_iff)
  qed
  have "for_each body (r # rows) s = for_each body rows ?u"
    using Cons.prems(4) [of r s] Cons.prems(1) r by simp
  also have "\<dots> = Inr (?u\<lparr>s_verify_jobs := update_where (\<lambda>v. v_id v \<in> v_id ` set rows) new (s_verify_jobs ?u)\<rparr>)"
    using Cons.prems(2,4,5) other by (intro Cons.IH [OF wf]) auto
  also have "update_where (\<lambda>v. v_id v \<in> v_id ` set rows) new (s_verify_jobs ?u)
      = update_where (\<lambda>v. v_id v \<in> v_id ` set (r # rows)) new (s_verify_jobs s)"
  proof -
    have "v_id r \<notin> v_id ` set rows" using Cons.prems(2) by auto
    then show ?thesis
      using wf_job_unique [OF Cons.prems(1) r] id
      by (auto simp: update_where_def)
  qed
  finally show ?case by (simp add: update_job_def)
qed

lemma for_each_filtered_jobs:
  assumes "jobs_wf s"
    and "\<And>r u. r \<in> set (s_verify_jobs s) \<Longrightarrow> p r \<Longrightarrow> jobs_wf u \<Longrightarrow> find_job u (v_id r) = Some r \<Longrightarrow>
      s_tasks u = s_tasks s \<Longrightarrow> body r u = Inr (update_job (v_id r) (\<lambda>_. new r) u)"
    and "\<And>r. r \<in> set (s_verify_jobs s) \<Longrightarrow> p r \<Longrightarrow> job_moves r (new r)"
  shows "for_each body (filter p (s_verify_jobs s)) s = Inr (s\<lparr>s_verify_jobs := update_where p new (s_verify_jobs s)\<rparr>)"
proof -
  have "for_each body (filter p (s_verify_jobs s)) s = Inr (s\<lparr>s_verify_jobs :=
      update_where (\<lambda>v. v_id v \<in> v_id ` set (filter p (s_verify_jobs s))) new (s_verify_jobs s)\<rparr>)"
    by (rule for_each_jobs [OF assms(1) wf_filter_jobs(1) [OF assms(1)]])
      (use wf_filter_jobs(2) [OF assms(1)] assms(2,3) in auto)
  also have "update_where (\<lambda>v. v_id v \<in> v_id ` set (filter p (s_verify_jobs s))) new (s_verify_jobs s)
      = update_where p new (s_verify_jobs s)"
  proof -
    have "v_id v \<in> v_id ` set (filter p (s_verify_jobs s)) \<longleftrightarrow> p v" if "v \<in> set (s_verify_jobs s)" for v
      using wf_job_unique [OF assms(1) wf_find_job [OF assms(1) that]] that by (auto simp: image_iff)
    then show ?thesis by (auto simp: update_where_def)
  qed
  finally show ?thesis .
qed

definition expired_row :: "timestamp \<Rightarrow> string \<Rightarrow> verify_job \<Rightarrow> verify_job" where
  "expired_row clock actor row = status_row clock row VERIFY_PENDING (Some actor)
     (Some (''verify lease expired (held by '' @ opt_str (v_verifier row) @ '') -- returned to the pool''))
     unclaim_job ''LEASE_EXPIRED''"

definition closed_row :: "store \<Rightarrow> timestamp \<Rightarrow> string \<Rightarrow> verify_job \<Rightarrow> verify_job" where
  "closed_row s clock actor row =
     (if status_of_task s row = Some COMPLETED
      then status_row clock row VERIFIED_PASS (Some actor)
             (Some ''task completed through the in-session evidence gate before a verifier claimed this job'')
             (\<lambda>v. v\<lparr>v_evidence := (case find_task s (v_task_id row) of None \<Rightarrow> [] | Some t \<Rightarrow> t_verification_evidence t),
                    v_completed_at := Some clock, v_claim_token := None, v_lease_expires_at := None\<rparr>)
             ''VERIFIED_PASS''
      else status_row clock row VERIFY_CANCELLED (Some actor)
             (Some (''task left VERIFYING (now '' @ status_text (status_of_task s row) @ '') -- nothing left to verify''))
             (\<lambda>v. v\<lparr>v_completed_at := Some clock, v_claim_token := None, v_lease_expires_at := None\<rparr>)
             ''VERIFY_CANCELLED'')"

lemma status_row_moves:
  assumes "st \<in> set (verify_transitions (v_status row))"
    and "\<And>h. job_moves row ((fields_of (row\<lparr>v_status := st, v_updated_at := now\<rparr>))\<lparr>v_history := v_history row @ [h]\<rparr>)"
  shows "job_moves row (status_row now row st actor reason fields_of event)"
proof -
  obtain h where h: "append_history now row actor event reason
      [(''from_status'', JStr (verify_status_name (v_status row))), (''to_status'', JStr (verify_status_name st))]
      = v_history row @ [h]" by (rule history_grows)
  show ?thesis unfolding status_row_def h by (rule assms(2))
qed

lemma open_edges:
  assumes "v_status r \<in> set OPEN_VERIFY_STATUSES"
  shows "VERIFIED_PASS \<in> set (verify_transitions (v_status r))" "VERIFY_CANCELLED \<in> set (verify_transitions (v_status r))"
  using assms by (auto simp: verify_groups)

lemma expired_row_moves: "expired_verify_lease now r \<Longrightarrow> job_moves r (expired_row clock actor r)"
  unfolding expired_row_def
  by (rule status_row_moves)
    (auto simp: expired_verify_lease_def job_moves_def unclaim_job_def job_ok_def verify_groups job_path_edge)

lemma closed_row_moves:
  assumes "v_status r \<in> set OPEN_VERIFY_STATUSES"
  shows "job_moves r (closed_row s clock actor r)"
proof (cases "status_of_task s r = Some COMPLETED")
  case True
  show ?thesis
    unfolding closed_row_def if_P [OF True]
    by (rule status_row_moves [OF open_edges(1) [OF assms]])
      (use open_edges(1) [OF assms] in \<open>auto simp: job_moves_def job_ok_def verify_groups job_path_edge\<close>)
next
  case False
  show ?thesis
    unfolding closed_row_def if_not_P [OF False]
    by (rule status_row_moves [OF open_edges(2) [OF assms]])
      (use open_edges(2) [OF assms] in \<open>auto simp: job_moves_def job_ok_def verify_groups job_path_edge\<close>)
qed

lemma expire_done:
  assumes "jobs_wf u" "find_job u (v_id r) = Some r" "expired_verify_lease now r"
  shows "expire_job clock actor r u = Inr (update_job (v_id r) (\<lambda>_. expired_row clock actor r) u)"
proof -
  have "VERIFY_PENDING \<in> set (verify_transitions (v_status r))"
    using assms(3) by (auto simp: expired_verify_lease_def verify_groups)
  then have "set_status_locked clock r VERIFY_PENDING (Some actor)
      (Some (''verify lease expired (held by '' @ opt_str (v_verifier r) @ '') -- returned to the pool''))
      unclaim_job ''LEASE_EXPIRED'' u = Inr (expired_row clock actor r, update_job (v_id r) (\<lambda>_. expired_row clock actor r) u)"
    unfolding expired_row_def by (rule set_status_done [OF assms(1,2)]) (simp add: unclaim_job_def)
  then show ?thesis by (simp only: expire_job_def and_then_simps prod.case)
qed

lemma close_done:
  assumes "jobs_wf u" "find_job u (v_id r) = Some r" "v_status r \<in> set OPEN_VERIFY_STATUSES" "s_tasks u = s_tasks s"
  shows "close_job clock actor r u = Inr (update_job (v_id r) (\<lambda>_. closed_row s clock actor r) u)"
proof -
  have "status_of_task u r = status_of_task s r" "find_task u (v_task_id r) = find_task s (v_task_id r)"
    using assms(4) by (simp_all add: status_of_task_def find_task_def)
  then show ?thesis
    using open_edges [OF assms(3)]
    by (simp add: close_job_def closed_row_def set_status_done [OF assms(1,2)])
qed

definition swept :: "store \<Rightarrow> timestamp \<Rightarrow> timestamp \<Rightarrow> string \<Rightarrow> verify_job \<Rightarrow> verify_job" where
  \<comment> \<open>what the sweep makes of one job\<close>
  "swept s clock now actor v =
     (let u = (if expired_verify_lease now v then expired_row clock actor v else v)
      in if orphaned s u then closed_row s clock actor u else u)"

lemma orphaned_cong: "s_tasks u = s_tasks s \<Longrightarrow> orphaned u = orphaned s \<and> status_of_task u = status_of_task s"
  by (simp add: orphaned_def status_of_task_def find_task_def fun_eq_iff)

lemma jobs_evolve_map:
  assumes "\<And>v. v \<in> set (s_verify_jobs s) \<Longrightarrow> job_moves v (f v)"
  shows "jobs_evolve s (s\<lparr>s_verify_jobs := map f (s_verify_jobs s)\<rparr>)"
proof -
  have all: "list_all2 job_moves (s_verify_jobs s) (map f (s_verify_jobs s))"
    using assms by (simp add: list_all2_conv_all_nth)
  have "map v_id (map f (s_verify_jobs s)) = map v_id (s_verify_jobs s)"
    "map (\<lambda>v. (v_task_id v, v_attempt v)) (map f (s_verify_jobs s)) = map (\<lambda>v. (v_task_id v, v_attempt v)) (s_verify_jobs s)"
    using assms by (auto simp: job_moves_def)
  then have "jobs_wf (s\<lparr>s_verify_jobs := map f (s_verify_jobs s)\<rparr>) = jobs_wf s"
    by (simp add: jobs_wf_def del: map_map map_eq_conv)
  with all show ?thesis
    unfolding jobs_evolve_def by (intro conjI exI [of _ "map f (s_verify_jobs s)"] exI [of _ "[]"]) simp_all
qed

definition expire_sweep :: "timestamp \<Rightarrow> timestamp \<Rightarrow> string \<Rightarrow> verify_job \<Rightarrow> verify_job" where
  "expire_sweep clock now actor v = (if expired_verify_lease now v then expired_row clock actor v else v)"

lemma swept_alt: "swept s clock now actor v =
    (if orphaned s (expire_sweep clock now actor v)
     then closed_row s clock actor (expire_sweep clock now actor v) else expire_sweep clock now actor v)"
  by (simp add: swept_def expire_sweep_def Let_def)

lemma reconcile_result:
  assumes "jobs_wf s"
  shows "reconcile_jobs clock now actor s =
    (Inr \<lparr>rr_expired = map v_id (filter (expired_verify_lease now) (s_verify_jobs s)),
          rr_closed = map (\<lambda>v. (v_id v, status_text (status_of_task s v)))
            (filter (orphaned s) (map (expire_sweep clock now actor) (s_verify_jobs s)))\<rparr>,
     drain_events (s\<lparr>s_verify_jobs := map (swept s clock now actor) (s_verify_jobs s)\<rparr>))"
proof -
  let ?jobs = "map (expire_sweep clock now actor) (s_verify_jobs s)"
  let ?u = "s\<lparr>s_verify_jobs := ?jobs\<rparr>"
  have "update_where (expired_verify_lease now) (expired_row clock actor) (s_verify_jobs s) = ?jobs"
    by (simp add: update_where_def expire_sweep_def)
  then have 1: "for_each (expire_job clock actor) (filter (expired_verify_lease now) (s_verify_jobs s)) s = Inr ?u"
    using for_each_filtered_jobs [OF assms, where p = "expired_verify_lease now" and new = "expired_row clock actor"
        and body = "expire_job clock actor"] expire_done expired_row_moves by simp
  have "jobs_evolve s ?u" by (rule jobs_evolve_map) (simp add: expire_sweep_def expired_row_moves)
  then have wf: "jobs_wf ?u" using assms by (simp add: jobs_evolve_def)
  have tasks: "orphaned ?u = orphaned s" "status_of_task ?u = status_of_task s"
    using orphaned_cong [of ?u s] by simp_all
  have "for_each (close_job clock actor) (filter (orphaned s) (s_verify_jobs ?u)) ?u
      = Inr (?u\<lparr>s_verify_jobs := update_where (orphaned s) (closed_row s clock actor) (s_verify_jobs ?u)\<rparr>)"
  proof (rule for_each_filtered_jobs [OF wf])
    fix r assume r: "orphaned s r"
    show "job_moves r (closed_row s clock actor r)" using r by (simp add: orphaned_def closed_row_moves)
    fix u assume "jobs_wf u" "find_job u (v_id r) = Some r" "s_tasks u = s_tasks ?u"
    then show "close_job clock actor r u = Inr (update_job (v_id r) (\<lambda>_. closed_row s clock actor r) u)"
      using r by (intro close_done) (simp_all add: orphaned_def)
  qed
  moreover have "update_where (orphaned s) (closed_row s clock actor) ?jobs = map (swept s clock now actor) (s_verify_jobs s)"
    by (simp add: update_where_def swept_alt)
  ultimately have 2: "for_each (close_job clock actor) (filter (orphaned s) ?jobs) ?u
      = Inr (s\<lparr>s_verify_jobs := map (swept s clock now actor) (s_verify_jobs s)\<rparr>)" by simp
  show ?thesis
    by (simp add: reconcile_jobs_def with_connection_def Let_def 1 2 tasks del: map_map)
qed


context store_relation
begin

lemma R_jobs_at:
  assumes "distinct ids" "\<And>v. v \<in> set (s_verify_jobs s) \<Longrightarrow> v_id v \<in> set ids \<Longrightarrow> job_moves v (f v)"
  shows "R s (s\<lparr>s_verify_jobs := update_where (\<lambda>v. v_id v \<in> set ids) f (s_verify_jobs s)\<rparr>)"
  using assms
proof (induction ids arbitrary: s)
  case Nil
  then show ?case by (simp add: update_where_def R_refl)
next
  case (Cons i ids)
  let ?u = "update_job i f s"
  have moves: "job_moves v (f v)" if "v \<in> set (s_verify_jobs s)" "v_id v \<in> set (i # ids)" for v
    using Cons.prems(2) that by blast
  have "R s ?u" using moves by (intro R_job) simp
  moreover have "R ?u (?u\<lparr>s_verify_jobs := update_where (\<lambda>v. v_id v \<in> set ids) f (s_verify_jobs ?u)\<rparr>)"
  proof (rule Cons.IH)
    show "distinct ids" using Cons.prems(1) by simp
    fix v assume v: "v \<in> set (s_verify_jobs ?u)" "v_id v \<in> set ids"
    then obtain u where u: "u \<in> set (s_verify_jobs s)" "v = (if v_id u = i then f u else u)"
      by (auto simp: update_where_def)
    have "v_id (f u) = v_id u" if "v_id u = i" using moves [OF u(1)] that by (simp add: job_moves_def)
    with u v(2) Cons.prems(1) have "v = u" by auto
    then show "job_moves v (f v)" using moves u(1) v(2) by simp
  qed
  moreover have "update_where (\<lambda>v. v_id v \<in> set ids) f (s_verify_jobs ?u)
      = update_where (\<lambda>v. v_id v \<in> set (i # ids)) f (s_verify_jobs s)"
    using moves Cons.prems(1) by (auto simp: update_where_def job_moves_def)
  ultimately show ?case using R_trans by (simp add: update_job_def)
qed

lemma R_jobs_map:
  assumes "\<And>v. v \<in> set (s_verify_jobs s) \<Longrightarrow> job_moves v (f v)"
  shows "R s (s\<lparr>s_verify_jobs := map f (s_verify_jobs s)\<rparr>)"
proof -
  have "update_where (\<lambda>v. v_id v \<in> set (remdups (map v_id (s_verify_jobs s)))) f (s_verify_jobs s) = map f (s_verify_jobs s)"
    by (simp add: update_where_def)
  then show ?thesis
    using R_jobs_at [of "remdups (map v_id (s_verify_jobs s))" s f] assms by simp
qed

end

lemma swept_moves: "job_moves v (swept s clock now actor v)"
proof -
  have 1: "job_moves v (expire_sweep clock now actor v)"
    by (simp add: expire_sweep_def expired_row_moves)
  moreover have "job_moves (expire_sweep clock now actor v) (swept s clock now actor v)"
    by (simp add: swept_alt orphaned_def closed_row_moves)
  ultimately show ?thesis by (rule job_moves_trans)
qed

context store_relation
begin

lemma R_reconcile:
  assumes "reconcile_jobs clock now actor s = (r, s')" "jobs_wf s"
  shows "R s s'"
  using assms(1) R_trans [OF R_jobs_map R_drain] swept_moves
  by (auto simp: reconcile_result [OF assms(2)])

end

lemma swept_settled:
  "\<not> expired_verify_lease now (swept s clock now actor v)"
  "\<not> orphaned s (swept s clock now actor v)"
  by (auto simp: swept_alt expire_sweep_def expired_row_def closed_row_def status_row_def unclaim_job_def
      expired_verify_lease_def orphaned_def verify_groups)

lemma swept_pass:
  assumes "swept s clock now actor v \<noteq> v" "v_status (swept s clock now actor v) = VERIFIED_PASS"
  shows "\<exists>t. find_task s (v_task_id v) = Some t \<and> t_status t = COMPLETED
    \<and> v_evidence (swept s clock now actor v) = t_verification_evidence t"
proof -
  let ?u = "expire_sweep clock now actor v"
  have id: "v_task_id ?u = v_task_id v"
    by (simp add: expire_sweep_def expired_row_def status_row_def unclaim_job_def)
  show ?thesis
  proof (cases "orphaned s ?u")
    case True
    with assms id show ?thesis
      by (auto simp: swept_alt closed_row_def status_row_def status_of_task_def split: if_splits option.splits)
  next
    case False
    with assms show ?thesis
      by (auto simp: swept_alt expire_sweep_def expired_row_def status_row_def unclaim_job_def split: if_splits)
  qed
qed

lemma find_job_mapped:
  assumes "s_verify_jobs s' = map f (s_verify_jobs s)" "\<And>v. v_id (f v) = v_id v"
  shows "find_job s' i = map_option f (find_job s i)"
proof -
  have "List.find (\<lambda>v. v_id v = i) (map f vs) = map_option f (List.find (\<lambda>v. v_id v = i) vs)" for vs
    using assms(2) by (induction vs) simp_all
  then show ?thesis by (simp add: find_job_def find_row_def assms(1))
qed

lemma drain_idem [simp]: "drain_events (drain_events s) = drain_events s"
  by (simp add: drain_events_def)

text \<open>
  C26: The sweep is total, sound and settles everything in one pass. It never raises and changes no
  task; afterwards no lease is expired and no open job belongs to a task that is not VERIFYING; a job it
  turns into VERIFIED_PASS has a COMPLETED task and carries that task's own evidence; a job with a live
  lease on a VERIFYING task is untouched; and running it again with the same cut-off reports nothing and changes nothing.
\<close>

theorem reconcile_settles:
  assumes "jobs_wf s" and "reconcile_jobs clock now actor s = (r, s')"
  shows "\<exists>report. r = Inr report \<and> s_tasks s' = s_tasks s \<and> jobs_wf s'
    \<and> (\<forall>v\<in>set (s_verify_jobs s'). \<not> expired_verify_lease now v
         \<and> (v_status v \<in> set OPEN_VERIFY_STATUSES \<longrightarrow>
              (\<exists>t. find_task s' (v_task_id v) = Some t \<and> t_status t = VERIFYING)))
    \<and> (\<forall>i v v'. find_job s i = Some v \<and> find_job s' i = Some v' \<and> v \<noteq> v' \<and> v_status v' = VERIFIED_PASS \<longrightarrow>
         (\<exists>t. find_task s (v_task_id v) = Some t \<and> t_status t = COMPLETED
            \<and> v_evidence v' = t_verification_evidence t))
    \<and> (\<forall>i v. find_job s i = Some v \<and> \<not> expired_verify_lease now v
         \<and> map_option t_status (find_task s (v_task_id v)) = Some VERIFYING \<longrightarrow> find_job s' i = Some v)
    \<and> reconcile_jobs clock2 now actor2 s' = (Inr \<lparr>rr_expired = [], rr_closed = []\<rparr>, s')"
proof -
  note R = reconcile_result [OF assms(1), of clock now actor, unfolded assms(2) prod.inject]
  let ?f = "swept s clock now actor"
  have s': "s' = drain_events (s\<lparr>s_verify_jobs := map ?f (s_verify_jobs s)\<rparr>)" using R by simp
  have js: "s_verify_jobs s' = map ?f (s_verify_jobs s)" and ts: "s_tasks s' = s_tasks s" by (simp_all add: s')
  have wf: "jobs_wf s'"
    using jobs_evolve_map [of s ?f] swept_moves assms(1) by (simp add: s' jobs_evolve_def jobs_wf_def)
  have drained: "drain_events s' = s'" by (simp add: s')
  have o: "orphaned s' = orphaned s" using orphaned_cong [OF ts] by simp
  have settled: "\<not> expired_verify_lease now (?f v)" "\<not> orphaned s (?f v)" for v
    by (rule swept_settled)+
  have fj: "find_job s' i = map_option ?f (find_job s i)" for i
    by (rule find_job_mapped [OF js]) (use swept_moves in \<open>simp add: job_moves_def\<close>)
  have settled': "\<not> expired_verify_lease now v" "\<not> orphaned s' v" if "v \<in> set (s_verify_jobs s')" for v
    using that by (auto simp: js o settled)
  have "map (expire_sweep clock2 now actor2) (s_verify_jobs s') = s_verify_jobs s'"
    by (rule map_idI) (simp add: expire_sweep_def settled')
  moreover have "map (swept s' clock2 now actor2) (s_verify_jobs s') = s_verify_jobs s'"
    by (rule map_idI) (simp add: swept_def settled')
  moreover have "filter (orphaned s') (s_verify_jobs s') = []" "filter (expired_verify_lease now) (s_verify_jobs s') = []"
    by (simp_all add: filter_empty_conv settled')
  ultimately have "reconcile_jobs clock2 now actor2 s' = (Inr \<lparr>rr_expired = [], rr_closed = []\<rparr>, drain_events (s'\<lparr>s_verify_jobs := s_verify_jobs s'\<rparr>))"
    using reconcile_result [OF wf, of clock2 now actor2] by simp
  moreover have "drain_events (s'\<lparr>s_verify_jobs := s_verify_jobs s'\<rparr>) = s'" by (simp add: drained)
  moreover have "\<exists>t. find_task s' (v_task_id v) = Some t \<and> t_status t = VERIFYING"
    if "v \<in> set (s_verify_jobs s')" "v_status v \<in> set OPEN_VERIFY_STATUSES" for v
    using that settled'(2) [OF that(1)] by (auto simp: orphaned_def status_of_task_def)
  moreover have "\<exists>t. find_task s (v_task_id v) = Some t \<and> t_status t = COMPLETED \<and> v_evidence (?f v) = t_verification_evidence t"
    if "?f v \<noteq> v" "v_status (?f v) = VERIFIED_PASS" for v
    using that by (rule swept_pass)
  moreover have "?f v = v" if "\<not> expired_verify_lease now v" "map_option t_status (find_task s (v_task_id v)) = Some VERIFYING" for v
    using that by (auto simp: swept_def orphaned_def status_of_task_def)
  ultimately show ?thesis
    using R ts wf settled(1) js fj by auto
qed

section \<open>Asking for verification\<close>

lemma find_row_some: "find_row p xs = Some x \<Longrightarrow> x \<in> set xs \<and> p x"
  using find_Some_in_set [of p xs x] by (simp add: find_row_def)

lemma find_row_unique:
  assumes "x \<in> set xs" "p x" "\<And>y. y \<in> set xs \<Longrightarrow> p y \<Longrightarrow> y = x"
  shows "find_row p xs = Some x"
proof (cases "List.find p xs")
  case None
  with assms(1,2) show ?thesis by (auto simp: find_None_iff)
next
  case (Some y)
  with find_Some_in_set [OF Some] assms(3) show ?thesis by (simp add: find_row_def)
qed

lemma attempt_unique:
  "jobs_wf s \<Longrightarrow> u \<in> set (s_verify_jobs s) \<Longrightarrow> v \<in> set (s_verify_jobs s) \<Longrightarrow>
     v_task_id u = v_task_id v \<Longrightarrow> v_attempt u = v_attempt v \<Longrightarrow> u = v"
  by (auto simp: jobs_wf_def distinct_map inj_on_def)

lemma ensure_locked_Inr:
  assumes "ensure_locked now i task req ind fb bl br co actor s = Inr (v, s')" "store_wf s" "jobs_wf s"
  shows "jobs_wf s' \<and> v \<in> set (s_verify_jobs s') \<and> v_task_id v = t_id task \<and> v_attempt v = t_attempt_count task
    \<and> (v \<notin> set (s_verify_jobs s) \<longrightarrow> v_status v = VERIFY_PENDING
         \<and> map_option t_status (find_task s' (t_id task)) = Some VERIFYING)"
proof (cases "find_row (\<lambda>v. v_task_id v = t_id task \<and> v_attempt v = t_attempt_count task) (s_verify_jobs s)")
  case (Some u)
  with assms(1,3) find_row_some [OF Some] show ?thesis by (simp add: ensure_locked_def)
next
  case None
  with assms(1) obtain row u where row: "find_task s (t_id task) = Some row"
    and aw: "await_verification now row ind s = Inr ((), u)"
    and ins: "insert_job (new_job now i task row req ind fb bl br co actor) u = Inr (v, s')"
    by (auto simp: ensure_locked_def and_then_Inr_iff split: option.splits)
  have id: "t_id row = t_id task" using find_task_Some_iff [OF row] by simp
  have u: "s_verify_jobs u = s_verify_jobs s \<and> map_option t_status (find_task u (t_id task)) = Some VERIFYING"
  proof (cases "t_status row = RUNNING")
    case True
    with aw id obtain y why where tr: "transition_locked now (t_id task) RUNNING VERIFYING ''VERIFY_REQUESTED'' why [] False s = Inr (y, u)"
      by (auto simp: await_verification_def and_then_Inr_iff)
    from tr assms(2) obtain z where "s_verify_jobs u = s_verify_jobs s" by (rule transition_locked_final)
    with find_task_final [OF tr assms(2)] row show ?thesis by simp
  next
    case False
    with aw row show ?thesis by (auto simp: await_verification_def split: if_splits)
  qed
  then have wf: "jobs_wf u" using assms(3) by (simp add: jobs_wf_def)
  let ?new = "new_job now i task row req ind fb bl br co actor"
  have new: "v_id ?new = i" "v_task_id ?new = t_id task" "v_attempt ?new = t_attempt_count task"
    "v_status ?new = VERIFY_PENDING" "job_ok ?new"
    by (simp_all add: new_job_def job_ok_def verify_groups)
  from ins have s': "s' = u\<lparr>s_verify_jobs := s_verify_jobs u @ [?new]\<rparr>" and v: "find_job s' i = Some v"
    and fresh: "find_job u i = None" and key: "\<And>w. w \<in> set (s_verify_jobs u) \<Longrightarrow> \<not> (v_task_id w = t_id task \<and> v_attempt w = t_attempt_count task)"
    by (auto simp: insert_job_def new split: if_splits)
  have wf': "jobs_wf s'"
    using jobs_evolve_insert [OF new(5), of u] fresh key wf by (simp add: s' new jobs_evolve_def)
  have "?new \<in> set (s_verify_jobs s')" by (simp add: s')
  with wf_job_unique [OF wf' v] new(1) have "v = ?new" by metis
  then show ?thesis using wf' new u by (simp add: s' find_task_def)
qed

text \<open>
  A task attempt has one verification job, however often it is asked for. After a successful
  request the answer is the job of exactly this task and attempt, freshly made jobs are VERIFY_PENDING
  and their task is VERIFYING, and any later request for the same attempt, with whatever requirements,
  fallback, actor and id, returns that same job and changes nothing.
\<close>

theorem ensure_verify_job_idempotent:
  assumes "store_wf s" and "jobs_wf s"
    and "ensure_verify_job now i task req ind fb bl br co actor s = (Inr v, s')"
    and "t_id again = t_id task" and "t_attempt_count again = t_attempt_count task" and "fb2 \<in> set VALID_FALLBACKS"
  shows "find_job s' (v_id v) = Some v \<and> v_task_id v = t_id task \<and> v_attempt v = t_attempt_count task
    \<and> (v \<in> set (s_verify_jobs s) \<or> v_status v = VERIFY_PENDING
         \<and> map_option t_status (find_task s' (t_id task)) = Some VERIFYING)
    \<and> ensure_verify_job now2 j again req2 ind2 fb2 bl2 br2 co2 actor2 s' = (Inr v, s')"
proof -
  have "with_connection (ensure_locked now i task req ind fb bl br co actor) s = (Inr v, s')"
    using assms(3) by (auto simp: ensure_verify_job_def split: if_splits)
  then obtain u where loc: "ensure_locked now i task req ind fb bl br co actor s = Inr (v, u)" and s': "s' = drain_events u"
    by (cases rule: with_connection_cases) auto
  note E = ensure_locked_Inr [OF loc assms(1,2)]
  have wf: "jobs_wf s'" using E by (simp add: s' jobs_wf_def)
  have "find_row (\<lambda>v. v_task_id v = t_id again \<and> v_attempt v = t_attempt_count again) (s_verify_jobs s') = Some v"
    using E attempt_unique [OF wf] assms(4,5) by (intro find_row_unique) (simp_all add: s')
  then have "ensure_locked now2 j again req2 ind2 fb2 bl2 br2 co2 actor2 s' = Inr (v, s')"
    by (simp add: ensure_locked_def)
  then have "ensure_verify_job now2 j again req2 ind2 fb2 bl2 br2 co2 actor2 s' = (Inr v, s')"
    using assms(6) by (simp add: ensure_verify_job_def with_connection_def s')
  moreover have "find_job s' (v_id v) = Some v" using E wf_find_job [OF wf] by (simp add: s')
  ultimately show ?thesis using E by (auto simp: s')
qed

section \<open>Claiming\<close>

text \<open>
  A claim is exclusive, eligible and fair. \<open>claim_next\<close> gives a verifier a pending job whose every
  required capability it reported, never one it implemented itself when independence is required,
  and no eligible job was created earlier; the job is leased to it under the new token. It returns
  nothing, and changes nothing, exactly when no job is eligible.
\<close>

theorem claim_next_contract:
  assumes "jobs_wf s" and "claim_next now token who caps project node secs s = (r, s')"
  shows "if \<exists>v\<in>set (s_verify_jobs s). claimable who caps project v
    then \<exists>row v. r = Inr (Some v) \<and> row \<in> set (s_verify_jobs s) \<and> claimable who caps project row
       \<and> (\<forall>u\<in>set (s_verify_jobs s). claimable who caps project u \<longrightarrow> v_created_at row \<le> v_created_at u)
       \<and> find_job s' (v_id row) = Some v \<and> v_status v = VERIFY_CLAIMED \<and> v_verifier v = Some who
       \<and> v_claim_token v = Some token \<and> v_lease_expires_at v = Some (now + secs)
       \<and> v_claim_count v = v_claim_count row + 1 \<and> s_tasks s' = s_tasks s
       \<and> (\<forall>j. j \<noteq> v_id row \<longrightarrow> find_job s' j = find_job s j)
    else r = Inr None \<and> s_tasks s' = s_tasks s \<and> s_verify_jobs s' = s_verify_jobs s"
proof (cases "find_row (claimable who caps project) (oldest_first (s_verify_jobs s))")
  case None
  then have "\<not> (\<exists>v\<in>set (s_verify_jobs s). claimable who caps project v)"
    by (simp add: find_row_def oldest_first_def find_None_iff)
  then show ?thesis using assms(2) None
    by (auto simp: claim_next_def with_connection_def)
next
  case (Some row)
  have row: "row \<in> set (s_verify_jobs s)" "claimable who caps project row"
    using find_row_some [OF Some] by (simp_all add: oldest_first_def)
  then have some: "\<exists>v\<in>set (s_verify_jobs s). claimable who caps project v" by blast
  have first: "v_created_at row \<le> v_created_at u" if "u \<in> set (s_verify_jobs s)" "claimable who caps project u" for u
  proof (rule find_in_order [of "\<lambda>a b. v_created_at a \<le> v_created_at b"])
    show "sorted_wrt (\<lambda>a b. v_created_at a \<le> v_created_at b) (oldest_first (s_verify_jobs s))"
      using sorted_sort_key [of v_created_at] by (simp add: oldest_first_def sorted_map)
    show "List.find (claimable who caps project) (oldest_first (s_verify_jobs s)) = Some row"
      using Some by (simp add: find_row_def)
  qed (use that in \<open>simp_all add: oldest_first_def\<close>)
  let ?claim = "\<lambda>v. v\<lparr>v_verifier := Some who, v_verifier_node_id := node, v_claim_token := Some token,
      v_lease_expires_at := Some (now + secs), v_claimed_at := Some now,
      v_claim_count := v_claim_count row + 1, v_block_reason := None\<rparr>"
  let ?new = "status_row now row VERIFY_CLAIMED (Some who) None ?claim ''CLAIMED''"
  have "set_status_locked now row VERIFY_CLAIMED (Some who) None ?claim ''CLAIMED'' s
      = Inr (?new, update_job (v_id row) (\<lambda>_. ?new) s)"
    using row by (intro set_status_done [OF assms(1) wf_find_job [OF assms(1) row(1)]]) (simp_all add: claimable_def)
  then have run: "r = Inr (Some ?new)" "s' = drain_events (update_job (v_id row) (\<lambda>_. ?new) s)"
    using assms(2) Some by (simp_all add: claim_next_def with_connection_def)
  have new: "v_id ?new = v_id row" "v_status ?new = VERIFY_CLAIMED" "v_verifier ?new = Some who"
    "v_claim_token ?new = Some token" "v_lease_expires_at ?new = Some (now + secs)" "v_claim_count ?new = v_claim_count row + 1"
    by (simp_all add: status_row_def)
  have "find_job s' j = (if j = v_id row then Some ?new else find_job s j)" for j
    using find_job_replaced [of s' "v_id row" ?new s j] wf_find_job [OF assms(1) row(1)] new(1) by (simp add: run(2))
  with run new row first show ?thesis unfolding if_P [OF some]
    by (intro exI [of _ row] exI [of _ ?new]) (simp add: run(2))
qed

section \<open>The evidence gate\<close>

text \<open>
  The evidence gate is exact: it accepts a value precisely when it is an object in which some key
  outside the self-report vocabulary has a non-empty value, its exit code, if present, is the integer
  zero, it does not say \<open>passed: false\<close>, and it reports no positive number of failed tests.
\<close>

theorem evidence_verdict_exact:
  "fst (evidence_verdict evidence) \<longleftrightarrow> (\<exists>d. evidence = JObj d
     \<and> (\<exists>k. k \<in> fst ` set d \<and> k \<notin> set SELF_REPORT_KEYS \<and> dget d k \<notin> {JNull, JStr [], JArr [], JObj []})
     \<and> dget d ''exit_code'' \<in> {JNull, JInt 0} \<and> dget d ''passed'' \<noteq> JBool False
     \<and> (\<nexists>n. dget d ''tests_failed'' = JInt n \<and> 0 < n))"
proof (cases "\<exists>d. evidence = JObj d")
  case False
  then have "as_dict evidence = None" by (cases evidence) simp_all
  with False show ?thesis by (simp add: evidence_verdict_def)
next
  case True
  then obtain d where ev: "evidence = JObj d" by blast
  have keys: "substantive_keys d = [] \<longleftrightarrow> \<not> (\<exists>k. k \<in> fst ` set d \<and> k \<notin> set SELF_REPORT_KEYS
      \<and> dget d k \<notin> {JNull, JStr [], JArr [], JObj []})"
    by (auto simp: substantive_keys_def empty_value_def filter_empty_conv)
  have contra: "contradiction d = None \<longleftrightarrow> dget d ''exit_code'' \<in> {JNull, JInt 0} \<and> dget d ''passed'' \<noteq> JBool False
      \<and> (\<nexists>n. dget d ''tests_failed'' = JInt n \<and> 0 < n)"
    by (auto simp: contradiction_def positive_int_def Let_def split: json.splits)
  have "fst (evidence_verdict evidence) \<longleftrightarrow> substantive_keys d \<noteq> [] \<and> contradiction d = None"
    by (auto simp: evidence_verdict_def ev substantive_keys_def split: option.splits)
  then show ?thesis unfolding keys contra ev by blast
qed

section \<open>Witnesses\<close>

abbreviation asked :: store where
  \<comment> \<open>a started task, handed to verification\<close>
  "asked \<equiv> snd (ensure_verify_job 5 ''j1'' (sample_started ''t1'' ''a'' 0 RUNNING) [''linux''] False ''hold'' None None None ''pm''
     (sample_store [sample_started ''t1'' ''a'' 0 RUNNING, sample_started ''t2'' ''b'' 0 RUNNING]))"

abbreviation leased :: store where
  "leased \<equiv> snd (claim_next 6 ''tok'' ''v'' [''linux''] None None 60 asked)"

abbreviation exit_zero :: json where
  "exit_zero \<equiv> JObj [(''exit_code'', JInt 0), (''command'', JStr ''make test'')]"

lemma leased_wf: "store_wf asked \<and> jobs_wf asked \<and> store_wf leased \<and> jobs_wf leased"
  by code_simp

lemma verify_complete_contract_witness:
  "\<exists>v s'. complete_job (\<lambda>x. x) 7 ''j1'' ''tok'' exit_zero None leased = (Inr (Verdict v COMPLETED), s')
     \<and> map_option t_status (find_task s' (v_task_id v)) = Some COMPLETED"
proof -
  let ?clean = "redact_dict (\<lambda>x. x) (dict_or_empty exit_zero)"
  have "(case held_job leased ''j1'' ''tok'' of None \<Rightarrow> False | Some row \<Rightarrow>
      (case find_task leased (v_task_id row) of None \<Rightarrow> False | Some t \<Rightarrow> may_pass leased ''j1'' ''tok'' exit_zero ?clean row t))"
    by code_simp
  then have "\<exists>row t. may_pass leased ''j1'' ''tok'' exit_zero ?clean row t" by (auto split: option.splits)
  with verify_complete_contract [of leased "\<lambda>x. x" 7 "''j1''" "''tok''" exit_zero None _ _ ?clean, OF _ _ prod.collapse [symmetric] refl] leased_wf
  show ?thesis by (metis option.map(2) prod.collapse)
qed

lemma verify_fail_contract_witness:
  "\<exists>v t' s'. fail_job (\<lambda>x. x) 7 ''j1'' ''tok'' ''NEEDS_REWORK'' (JObj [(''reason'', JStr ''flaky'')]) None leased
      = (Inr (Verdict v (t_status t')), s') \<and> find_task s' (v_task_id v) = Some t'"
proof -
  let ?why = "JObj [(''reason'', JStr ''flaky'')]"
  have "(case held_job leased ''j1'' ''tok'' of None \<Rightarrow> False | Some row \<Rightarrow>
      (case find_task leased (v_task_id row) of None \<Rightarrow> False
       | Some t \<Rightarrow> may_fail leased ''j1'' ''tok'' ?why ''NEEDS_REWORK'' NEEDS_REWORK FAILED row t))"
    by code_simp
  then have "\<exists>result target row t. may_fail leased ''j1'' ''tok'' ?why ''NEEDS_REWORK'' result target row t"
    by (auto split: option.splits)
  with verify_fail_contract [of leased "\<lambda>x. x" 7 "''j1''" "''tok''" "''NEEDS_REWORK''" ?why None, OF _ _ prod.collapse [symmetric]] leased_wf
  show ?thesis by (metis prod.collapse)
qed

abbreviation uncovered :: store where
  \<comment> \<open>the same, with a contract whose evidence matrix is empty\<close>
  "uncovered \<equiv> leased\<lparr>s_tasks := map (\<lambda>t. t\<lparr>t_requirement_contract := contract_to_dict demo_contract\<rparr>) (s_tasks leased)\<rparr>"

lemma verify_pass_skips_contract_witness:
  "\<exists>(row :: verify_job) v s' e s2. complete_job (\<lambda>x. x) 7 ''j1'' ''tok'' exit_zero None uncovered = (Inr (Verdict v COMPLETED), s')
     \<and> mark_completed_with_evidence 7 (v_task_id row) (redact_dict (\<lambda>x. x) (dict_or_empty exit_zero)) ''VERIFIED'' uncovered = (Inl e, s2)"
proof -
  let ?clean = "redact_dict (\<lambda>x. x) (dict_or_empty exit_zero)"
  have wf: "store_wf uncovered \<and> jobs_wf uncovered" by code_simp
  have "(case held_job uncovered ''j1'' ''tok'' of None \<Rightarrow> False | Some row \<Rightarrow>
      (case find_task uncovered (v_task_id row) of None \<Rightarrow> False | Some t \<Rightarrow> may_pass uncovered ''j1'' ''tok'' exit_zero ?clean row t
         \<and> (case completion_decision uncovered (v_task_id row) [] of Inl _ \<Rightarrow> False | Inr g \<Rightarrow> \<not> g_verified_done g)))"
    by code_simp
  then obtain row t g where "may_pass uncovered ''j1'' ''tok'' exit_zero ?clean row t"
    "completion_decision uncovered (v_task_id row) [] = Inr g" "\<not> g_verified_done g"
    by (auto split: option.splits sum.splits)
  from verify_pass_skips_contract [OF conjunct1 [OF wf] conjunct2 [OF wf] this, of 7 None "''VERIFIED''"]
  obtain v s' e s2 where "complete_job (\<lambda>x. x) 7 ''j1'' ''tok'' exit_zero None uncovered = (Inr (Verdict v COMPLETED), s')"
    "mark_completed_with_evidence 7 (v_task_id row) ?clean ''VERIFIED'' uncovered = (Inl e, s2)" by (elim conjE exE)
  then show ?thesis by (intro exI conjI)
qed

lemma reconcile_settles_witness:
  "\<exists>report s'. reconcile_jobs 100 100 ''supervisor'' leased = (Inr report, s') \<and> s_tasks s' = s_tasks leased
     \<and> rr_expired report = [''j1'']"
proof -
  have "(case fst (reconcile_jobs 100 100 ''supervisor'' leased) of Inl _ \<Rightarrow> False | Inr rep \<Rightarrow> rr_expired rep = [''j1''])"
    by code_simp
  then obtain rep s' where op: "reconcile_jobs 100 100 ''supervisor'' leased = (Inr rep, s')" "rr_expired rep = [''j1'']"
    by (cases "reconcile_jobs 100 100 ''supervisor'' leased") (auto split: sum.splits)
  have "jobs_wf leased" using leased_wf by (elim conjE)
  from reconcile_settles [OF this op(1), of 0 "''x''"] have "s_tasks s' = s_tasks leased" by (elim exE conjE)
  with op show ?thesis by (intro exI conjI)
qed

lemma ensure_verify_job_idempotent_witness:
  "\<exists>v. find_job asked ''j1'' = Some v
     \<and> ensure_verify_job 8 ''j2'' (sample_started ''t1'' ''a'' 0 VERIFYING) [] True ''in_session'' None None None ''x'' asked = (Inr v, asked)"
proof -
  let ?s = "sample_store [sample_started ''t1'' ''a'' 0 RUNNING, sample_started ''t2'' ''b'' 0 RUNNING]"
  let ?op = "ensure_verify_job 5 ''j1'' (sample_started ''t1'' ''a'' 0 RUNNING) [''linux''] False ''hold'' None None None ''pm'' ?s"
  have "(case fst ?op of Inl _ \<Rightarrow> False | Inr v \<Rightarrow> v_id v = ''j1'')" by code_simp
  then obtain v where v: "?op = (Inr v, asked)" "v_id v = ''j1''" by (cases ?op) (auto split: sum.splits)
  have "store_wf ?s" "jobs_wf ?s" by code_simp+
  from ensure_verify_job_idempotent [OF this v(1), of "sample_started ''t1'' ''a'' 0 VERIFYING" "''in_session''" 8 "''j2''" "[]" True None None None "''x''"] v(2)
  show ?thesis by (auto simp: VALID_FALLBACKS_def)
qed

lemma claim_next_contract_witness:
  "\<exists>v. fst (claim_next 6 ''tok'' ''v'' [''linux''] None None 60 asked) = Inr (Some v) \<and> v_verifier v = Some ''v''"
proof -
  have "\<exists>v\<in>set (s_verify_jobs asked). claimable ''v'' [''linux''] None v" by code_simp
  moreover have "jobs_wf asked" using leased_wf by (elim conjE)
  ultimately show ?thesis
    using claim_next_contract [where s = asked and now = 6 and token = "''tok''" and who = "''v''" and caps = "[''linux'']"
        and project = None and node = None and secs = 60, OF _ prod.collapse [symmetric]] by auto
qed

end
