(* ===== verification/QueueMachine.thy ===== *)
theory QueueMachine
  imports QueueProjects QueueRouting QueueDeps VerifyVerdicts
begin

text \<open>
  The whole queue as a state machine. \<open>queue_call\<close> is one committed or refused call of any
  operation of \<open>QueueStore\<close> and of the verification queue, with any arguments; \<open>queue_op\<close> is a call by any
  process, whose sink may have missed some or all of the events of the call: the process has no sink of
  its own, dies between commit and publication, or its sink raises, which is swallowed. \<open>reachable\<close> are the stores some
  sequence of calls leads to from an empty database. An operation made of several transactions is one call here;
  its transactions are themselves calls (\<open>record_event\<close>, \<open>transition_task\<close>), so a
  sequence in which those of two processes alternate is a history as well. The contracts of the components
  (\<open>queue_step\<close>, one lemma \<open>R_...\<close> per operation) then give the invariants of every reachable
  store and what can become of a task over any number of calls.
\<close>

section \<open>One call\<close>

inductive queue_call :: "store \<Rightarrow> store \<Rightarrow> bool" where
  set_tasks: "set_tasks now fresh sess specs rep s = (r1, s') \<Longrightarrow> queue_call s s'"
| manual_dispatch: "record_manual_dispatch now tid detail s = (r2, s') \<Longrightarrow> queue_call s s'"
| move: "move_task_to_session now tid sess s = (r3, s') \<Longrightarrow> queue_call s s'"
| reorder: "reorder_tasks now sess ids s = (r4, s') \<Longrightarrow> queue_call s s'"
| clear: "clear_tasks now sess pend s = (r5, s') \<Longrightarrow> queue_call s s'"
| retry: "retry_task now tid s = (r6, s') \<Longrightarrow> queue_call s s'"
| reassign: "reassign_task now tid sess why actor s = (r7, s') \<Longrightarrow> queue_call s s'"
| pm_decision: "record_pm_decision now tid d why actor rs rn ev s = (r8, s') \<Longrightarrow> queue_call s s'"
| at_risk: "mark_at_risk now tid b s = (r9, s') \<Longrightarrow> queue_call s s'"
| deploy: "record_deploy now tid d ref actor s = (r10, s') \<Longrightarrow> queue_call s s'"
| transition: "transition_task now tid t ty why ex s = (r11, s') \<Longrightarrow>
    (t \<in> set TERMINAL_STATUSES \<Longrightarrow> no_claim_columns ex) \<Longrightarrow> queue_call s s'"
| pause: "pause_lane now sess why orig s = (r12, s') \<Longrightarrow> queue_call s s'"
| resume: "resume_lane now sess s = (r13, s') \<Longrightarrow> queue_call s s'"
| lane_report: "lane_status now sess s = (r14, s') \<Longrightarrow> queue_call s s'"
| auto_dispatch: "set_auto_dispatch now sess en s = (r15, s') \<Longrightarrow> queue_call s s'"
| lane_project: "set_lane_project now sess p s = (r16, s') \<Longrightarrow> queue_call s s'"
| rebalanced: "mark_rebalanced now sess s = (r17, s') \<Longrightarrow> queue_call s s'"
| preflight: "resume_resolved_preflight now snap s = (r18, s') \<Longrightarrow> queue_call s s'"
| stale_pause: "reconcile_stale_lane_pause now osess s = (r19, s') \<Longrightarrow> queue_call s s'"
| rename: "rename_session now old new s = (r20, s') \<Longrightarrow> queue_call s s'"
| claim: "claim_next_task now token sess who secs s = (r21, s') \<Longrightarrow> queue_call s s'"
| renew: "renew_task_lease now tid token secs s = (r22, s') \<Longrightarrow> queue_call s s'"
| release: "release_task_claim now tid token owhy s = (r23, s') \<Longrightarrow> queue_call s s'"
| handoff: "handoff_task now fresh_token tid token w sess why secs s = (r24, s') \<Longrightarrow> queue_call s s'"
| decision: "record_coordinator_decision now tid st why bl ra ev2 s = (r25, s') \<Longrightarrow> queue_call s s'"
| stale_claims: "reconcile_stale_claims clock now osess s = (r26, s') \<Longrightarrow> queue_call s s'"
| uncertain_sweep: "reconcile_uncertain_and_waiting clock now grace osess s = (r27, s') \<Longrightarrow> queue_call s s'"
| verify_sweep: "reclaim_stale_verify_leases clock stamp s = (r28, s') \<Longrightarrow> queue_call s s'"
| reevaluate: "reevaluate_ai_owned_blocked clock now osess s = (r29, s') \<Longrightarrow> queue_call s s'"
| task_project: "set_task_project now tid pid s = (r30, s') \<Longrightarrow> queue_call s s'"
| task_analysis: "set_task_analysis now tid a m s = (r31, s') \<Longrightarrow> queue_call s s'"
| backfill: "backfill_project_ids now resolver dry s = (r32, s') \<Longrightarrow> queue_call s s'"
| bind: "bind_task_to_session now tid sess node state ety agent skills s = (r33, s') \<Longrightarrow> queue_call s s'"
| unbind: "release_execution_binding now tid owhy s = (r34, s') \<Longrightarrow> queue_call s s'"
| deferral: "record_routing_deferral now tid ev3 s = (r35, s') \<Longrightarrow> queue_call s s'"
| agent: "set_agent_binding now tid oagent skills s = (r36, s') \<Longrightarrow> queue_call s s'"
| recovery_state: "record_recovery_state now tid identity capsule s = (r37, s') \<Longrightarrow> queue_call s s'"
| observe: "observe_inactive_task now seen sig at s = (r38, s') \<Longrightarrow> queue_call s s'"
| unobserve: "clear_inactive_observation tid s = (r39, s') \<Longrightarrow> queue_call s s'"
| recover: "recover_stale_active_task now seen st2 why s = (r40, s') \<Longrightarrow> queue_call s s'"
| cleanup_patch: "patch_worktree_cleanup tid d2 s = (r41, s') \<Longrightarrow> queue_call s s'"
| verdict: "record_delivery_verdict now tid d2 s = (r42, s') \<Longrightarrow> queue_call s s'"
| refusals: "reconcile_persisted_refusals now osess s = (r43, s') \<Longrightarrow> queue_call s s'"
| observation: "record_dispatch_observation now tid d2 s = (r44, s') \<Longrightarrow> queue_call s s'"
| checkpoint: "record_fast_agent_checkpoint redact now tid c s = (r45, s') \<Longrightarrow> queue_call s s'"
| inspect: "record_uncertain_reconciliation now tid seen_as sub n s = (r46, s') \<Longrightarrow> queue_call s s'"
| run: "mark_running_with_evidence now tid d2 owhy s = (r47, s') \<Longrightarrow> queue_call s s'"
| nonce: "ensure_verification_nonce now fresh_id tid s = (r48, s') \<Longrightarrow> queue_call s s'"
| contract: "set_requirement_contract now tid reqs op oa s = (r49, s') \<Longrightarrow> queue_call s s'"
| amend: "amend_requirement_contract now tid p2 reqs oa s = (r50, s') \<Longrightarrow> queue_call s s'"
| matrix: "set_evidence_matrix now tid mat s = (r51, s') \<Longrightarrow> queue_call s s'"
| complete: "mark_completed_with_evidence now tid d2 ty s = (r52, s') \<Longrightarrow> queue_call s s'"
| invalidate: "invalidate_false_completion now tid why d2 s = (r53, s') \<Longrightarrow> queue_call s s'"
| verify_ensure: "ensure_verify_job now fresh_job vtask vreq vind vfb vbl vbr vco vactor s = (w1, s') \<Longrightarrow> queue_call s s'"
| verify_claim: "claim_next now token verifier vcaps vp vnode secs s = (w2, s') \<Longrightarrow> queue_call s s'"
| verify_start: "start_job now job token odetail s = (w3, s') \<Longrightarrow> queue_call s s'"
| verify_renew: "renew_job now job token secs s = (w4, s') \<Longrightarrow> queue_call s s'"
| verify_release: "release_job now job token odetail s = (w5, s') \<Longrightarrow> queue_call s s'"
| verify_handoff: "handoff_job now fresh_token job token verifier vwhy vnode secs s = (w6, s') \<Longrightarrow> queue_call s s'"
| verify_pass: "complete_job redact now job token vev oactor s = (w7, s') \<Longrightarrow> queue_call s s'"
| verify_fail: "fail_job redact now job token vres vev oactor s = (w8, s') \<Longrightarrow> queue_call s s'"
| verify_requeue: "requeue_job now job vactor vwhy s = (w9, s') \<Longrightarrow> queue_call s s'"
| verify_recover: "reconcile_jobs vclock now vactor s = (w10, s') \<Longrightarrow> queue_call s s'"
| event: "record_event now osess tid_or_none ety why d2 s = (r53e, s') \<Longrightarrow> queue_call s s'"

inductive queue_op :: "store \<Rightarrow> store \<Rightarrow> bool" where
  told: "queue_call s s' \<Longrightarrow> queue_op s s'"
| untold: "queue_call s s' \<Longrightarrow> s_published s' = s_published s @ new \<Longrightarrow> subseq told new \<Longrightarrow>
    queue_op s (s'\<lparr>s_published := s_published s @ told\<rparr>)"

inductive reachable :: "store \<Rightarrow> bool" where
  empty: "reachable (empty_store sink)"
| call: "reachable s \<Longrightarrow> queue_op s s' \<Longrightarrow> reachable s'"

section \<open>Every call keeps the contract\<close>

lemmas queue_contract =
  queue.R_set_tasks queue.R_manual_dispatch queue.R_move_task queue.R_reorder queue.R_clear_tasks
  queue.R_retry_task queue.R_reassign queue.R_pm_decision queue.R_mark_at_risk
  queue.R_record_deploy queue.R_transition_task queue.R_record_event queue.R_pause_lane queue.R_resume_lane
  queue.R_lane_status queue.R_set_auto_dispatch queue.R_set_lane_project queue.R_mark_rebalanced
  queue.R_resume_preflight queue.R_reconcile_pause queue.R_rename_session queue.R_claim
  queue.R_renew queue.R_release queue.R_handoff queue.R_coordinator queue.R_stale_claims
  queue.R_uncertain_waiting queue.R_reclaim queue.R_reevaluate queue.R_set_task_project
  queue.R_set_task_analysis queue.R_backfill queue.R_bind_task queue.R_release_binding
  queue.R_routing_deferral queue.R_agent_binding queue.R_recovery_state queue.R_observe_inactive
  queue.R_clear_inactive queue.R_recover_stale queue.R_patch_cleanup queue.R_delivery_verdict
  queue.R_persisted_refusals queue.R_dispatch_observation queue.R_checkpoint
  queue.R_uncertain_reconciliation queue.R_mark_running queue.R_nonce queue.R_set_contract
  queue.R_amend_contract queue.R_set_matrix queue.R_mark_completed queue.R_invalidate
  queue.R_ensure_job queue.R_claim_next queue.R_start queue.R_renew_job queue.R_release_job
  queue.R_handoff_job queue.R_complete_job queue.R_fail_job queue.R_requeue queue.R_reconcile

lemmas queue_operations =
  set_tasks_def record_manual_dispatch_def move_task_to_session_def reorder_tasks_def
  clear_tasks_def retry_task_def reassign_task_def record_pm_decision_def mark_at_risk_def
  record_deploy_def transition_task_def pause_lane_def resume_lane_def lane_status_def
  set_auto_dispatch_def set_lane_project_def mark_rebalanced_def resume_resolved_preflight_def
  reconcile_stale_lane_pause_def rename_session_def claim_next_task_def renew_task_lease_def
  release_task_claim_def handoff_task_def record_coordinator_decision_def
  reconcile_stale_claims_def reconcile_uncertain_and_waiting_def reclaim_stale_verify_leases_def
  reevaluate_ai_owned_blocked_def set_task_project_def set_task_analysis_def
  backfill_project_ids_def bind_task_to_session_def release_execution_binding_def
  record_routing_deferral_def set_agent_binding_def record_recovery_state_def
  observe_inactive_task_def clear_inactive_observation_def recover_stale_active_task_def
  patch_worktree_cleanup_def record_delivery_verdict_def reconcile_persisted_refusals_def
  record_dispatch_observation_def record_fast_agent_checkpoint_def
  record_uncertain_reconciliation_def mark_running_with_evidence_def ensure_verification_nonce_def
  set_requirement_contract_def amend_requirement_contract_def set_evidence_matrix_def
  mark_completed_with_evidence_def invalidate_false_completion_def rolled_back_def
  record_event_def refused_completion_def gated_completion_def
  ensure_verify_job_def claim_next_def start_job_def renew_job_def release_job_def handoff_job_def
  complete_job_def fail_job_def requeue_job_def reconcile_jobs_def

theorem queue_call_commit:
  assumes "queue_call s s'" and "store_wf s" and "jobs_wf s" and "s_pending s = []"
  shows "queue_commit s s'"
  using assms
  by (cases rule: queue_call.cases) (auto dest: queue_contract queue.R_transition_task)

lemma queue_op_step:
  assumes "queue_op s s'" and "store_wf s" and "jobs_wf s" and "s_pending s = []"
  shows "queue_step s s'"
  using assms
  by (cases rule: queue_op.cases) (auto intro: queue_step_untold queue_commit_step [OF queue_call_commit])

lemma idle_connection: "s_event_sink (snd (with_connection body s)) \<Longrightarrow> s_pending (snd (with_connection body s)) = []"
  by (auto simp: with_connection_def drain_events_def discard_events_def split: sum.splits prod.splits if_splits)

lemma idle_discard [simp]: "s_pending (discard_events s) = []"
  by (simp add: discard_events_def)

lemma connection_idle: "with_connection body s = (r, s') \<Longrightarrow> s_event_sink s' \<Longrightarrow> s_pending s' = []"
  using idle_connection [of body s] by simp

lemma queue_call_drained:
  assumes "queue_call s s'" and "s_pending s = []" and "s_event_sink s'"
  shows "s_pending s' = []"
  using assms
  by (cases rule: queue_call.cases)
    (auto simp: queue_operations Let_def split: if_splits option.splits sum.splits prod.splits bool.splits
      dest: connection_idle intro: idle_connection)

lemma queue_op_drained:
  assumes "queue_op s s'" and "s_pending s = []" and "s_event_sink s'"
  shows "s_pending s' = []"
  using assms by (cases rule: queue_op.cases) (auto dest: queue_call_drained)

section \<open>Reachable stores\<close>

definition queue_invariant :: "store \<Rightarrow> bool" where
  "queue_invariant s \<longleftrightarrow> table_safe s \<and> lanes_wf s \<and> log_dense s \<and> sink_in_step s
     \<and> log_explains s \<and> exclusive s \<and> keys_unique s \<and> jobs_wf s \<and> (\<forall>v\<in>set (s_verify_jobs s). job_ok v) \<and> s_pending s = []"

lemma queue_op_invariant:
  assumes "queue_op s s'" and "queue_invariant s"
  shows "queue_invariant s'"
proof -
  have wf: "store_wf s" "jobs_wf s" and idle: "s_pending s = []"
    using assms(2) by (auto simp: queue_invariant_def table_safe_def)
  have step: "queue_step s s'" by (rule queue_op_step [OF assms(1) wf idle])
  then have sink: "s_event_sink s' = s_event_sink s" "\<not> s_event_sink s \<longrightarrow> s_pending s' = []"
    using idle by (auto simp: queue_step_def audits_def)
  have "s_pending s' = []" using queue_op_drained [OF assms(1) idle] sink by blast
  moreover have "jobs_wf s'" "\<forall>v\<in>set (s_verify_jobs s'). job_ok v"
    using step jobs_evolve_ok [of s s'] assms(2) by (auto simp: queue_step_def jobs_evolve_def queue_invariant_def)
  ultimately show ?thesis
    using step assms(2) evolves_safe
    by (auto simp: queue_invariant_def queue_step_def audits_def lanes_grow_def keeps_exclusive_def keeps_keys_def keeps_log_def)
qed

lemma empty_invariant: "queue_invariant (empty_store sink)"
  by (simp add: queue_invariant_def empty_store_def table_safe_def store_wf_def lanes_wf_def log_dense_def
      sink_in_step_def log_explains_def entry_at_def find_task_def replays.start exclusive_def keys_unique_def jobs_wf_def)

lemma reachable_ok: "reachable s \<Longrightarrow> queue_invariant s"
  by (induction rule: reachable.induct) (auto intro: empty_invariant queue_op_invariant)

lemma queue_ops_invariant: "queue_op\<^sup>*\<^sup>* s s' \<Longrightarrow> queue_invariant s \<Longrightarrow> queue_invariant s'"
  by (induction rule: rtranclp_induct) (auto intro: queue_op_invariant)

lemma queue_ops_step:
  assumes "queue_op\<^sup>*\<^sup>* s s'" and "queue_invariant s"
  shows "queue_step s s'"
  using assms(1)
proof (induction rule: rtranclp_induct)
  case base
  show ?case by (rule queue_step_refl)
next
  case (step t u)
  have "queue_invariant t" by (rule queue_ops_invariant [OF step.hyps(1) assms(2)])
  then have "queue_step t u"
    by (intro queue_op_step [OF step.hyps(2)]) (auto simp: queue_invariant_def table_safe_def)
  with step.IH show ?case by (rule queue_step_trans)
qed

lemma runtime_of_one: "queue_invariant s \<Longrightarrow> t \<in> set (s_tasks s) \<Longrightarrow> u \<in> set (s_tasks s) \<Longrightarrow>
    holds_runtime sess t \<Longrightarrow> holds_runtime sess u \<Longrightarrow> t = u"
  using exclusiveD wf_find_task by (metis option.inject queue_invariant_def table_safe_def)

lemma call_tells:
  assumes "queue_invariant s" and "s_event_sink s \<and> queue_call s s'"
  shows "\<exists>new. map e_id (s_events s') = map e_id (s_events s) @ new
    \<and> map k_queue_event_id (s_published s') = map k_queue_event_id (s_published s) @ new"
proof -
  have "queue_commit s s'"
    using assms queue_call_commit by (simp add: queue_invariant_def table_safe_def)
  then have "tells s s'" by (simp add: queue_commit_def)
  moreover have "s_pending s = []" using assms(1) by (simp add: queue_invariant_def)
  moreover have "s_pending s' = []"
    using assms(2) calculation queue_call_drained [of s s'] by (auto simp: tells_def)
  ultimately show ?thesis using assms(2) by (simp add: tells_def)
qed



text \<open>
  C2: Whatever operations are called, in whatever order and with whatever arguments, from an empty
  database on: task ids, lane names and non-null request keys stay unique, the audit log is numbered
  1, 2, 3 and so on without a gap, and a configured event sink has been told logged events only, each at most once
  and in the order of the log, though it may have missed some. A further call in which nothing is
  lost tells it exactly the events the call logs.
\<close>

theorem reachable_store_wellformed:
  assumes "reachable s"
  shows "distinct (map t_id (s_tasks s)) \<and> distinct (map l_session (s_lanes s))
    \<and> (\<forall>k t u. t \<in> set (s_tasks s) \<and> u \<in> set (s_tasks s) \<and> t_request_key t = Some k
         \<and> t_request_key u = Some k \<longrightarrow> t = u)
    \<and> map e_id (s_events s) = [1..<Suc (length (s_events s))]
    \<and> (s_event_sink s \<longrightarrow> subseq (map k_queue_event_id (s_published s)) (map e_id (s_events s)))
    \<and> (\<forall>s'. s_event_sink s \<and> queue_call s s' \<longrightarrow> (\<exists>new. map e_id (s_events s') = map e_id (s_events s) @ new
         \<and> map k_queue_event_id (s_published s') = map k_queue_event_id (s_published s) @ new))"
proof -
  note I = reachable_ok [OF assms, unfolded queue_invariant_def]
  have wf: "store_wf s" using I by (simp add: table_safe_def)
  have "t = u" if "t \<in> set (s_tasks s)" "u \<in> set (s_tasks s)" "t_request_key t = Some k" "t_request_key u = Some k" for k t u
    using keys_uniqueD [of s t u k] wf_find_task [OF wf that(1)] wf_find_task [OF wf that(2)] that I by simp
  with I have "distinct (map t_id (s_tasks s)) \<and> distinct (map l_session (s_lanes s))
    \<and> (\<forall>k t u. t \<in> set (s_tasks s) \<and> u \<in> set (s_tasks s) \<and> t_request_key t = Some k
         \<and> t_request_key u = Some k \<longrightarrow> t = u)
    \<and> map e_id (s_events s) = [1..<Suc (length (s_events s))]
    \<and> (s_event_sink s \<longrightarrow> subseq (map k_queue_event_id (s_published s)) (map e_id (s_events s)))"
    by (auto simp: table_safe_def store_wf_def lanes_wf_def log_dense_def sink_in_step_def)
  then show ?thesis using call_tells [OF reachable_ok [OF assms]] by blast
qed

text \<open>
  C1: In every reachable store, a task that is RUNNING or VERIFYING carries accepted execution
  evidence, a task that is COMPLETED, SKIPPED or CANCELLED holds no claim, no attempt counter is
  negative, and no two unfinished tasks claim the same runtime session.
\<close>

theorem reachable_tasks_safe:
  assumes "reachable s" and "t \<in> set (s_tasks s)"
  shows "(t_status t \<in> {RUNNING, VERIFYING} \<longrightarrow> valid_execution_evidence (t_metadata t))
    \<and> (t_status t \<in> {COMPLETED, SKIPPED, CANCELLED} \<longrightarrow>
         t_claimed_by t = None \<and> t_claim_token t = None \<and> t_lease_expires_at t = None)
    \<and> 0 \<le> t_attempt_count t
    \<and> (\<forall>sess u. u \<in> set (s_tasks s) \<and> holds_runtime sess t \<and> holds_runtime sess u \<longrightarrow> u = t)"
proof -
  note I = reachable_ok [OF assms(1)]
  have "row_safe t" using I assms(2) by (simp add: queue_invariant_def table_safe_def)
  then show ?thesis
    using runtime_of_one [OF I] assms(2)
    by (auto simp: row_safe_def has_evidence_def unclaimed_def status_groups)
qed


text \<open>
  C27: Over any number of further calls a verification job is never lost, retargeted or reopened: it is
  still there, for the same task attempt and with the same requirements; a verdict or a cancellation stays for
  ever; its history only grows and its claim counter does not fall; and in every reachable store exactly the
  claimed and running jobs carry a token, a holder and an expiry.
\<close>

theorem verify_job_history:
  assumes "reachable s" and "find_job s i = Some v" and "queue_op\<^sup>*\<^sup>* s s'"
  shows "\<exists>v'. find_job s' i = Some v' \<and> v_task_id v' = v_task_id v \<and> v_attempt v' = v_attempt v
    \<and> v_required_capabilities v' = v_required_capabilities v
    \<and> v_require_independent v' = v_require_independent v \<and> v_implementer v' = v_implementer v
    \<and> (v_status v \<in> {VERIFIED_PASS, VERIFIED_FAIL, NEEDS_REWORK, VERIFY_CANCELLED} \<longrightarrow> v_status v' = v_status v)
    \<and> (\<exists>more. v_history v' = v_history v @ more) \<and> v_claim_count v \<le> v_claim_count v'
    \<and> (v_status v' \<in> {VERIFY_CLAIMED, VERIFY_RUNNING} \<longleftrightarrow> v_claim_token v' \<noteq> None)
    \<and> (v_claim_token v' \<noteq> None \<longrightarrow> v_verifier v' \<noteq> None \<and> v_lease_expires_at v' \<noteq> None)"
proof -
  note I = reachable_ok [OF assms(1)]
  have wf: "jobs_wf s" and ok: "\<forall>v\<in>set (s_verify_jobs s). job_ok v" using I by (simp_all add: queue_invariant_def)
  have ev: "jobs_evolve s s'" using queue_ops_step [OF assms(3) I] by (simp add: queue_step_def)
  from jobs_evolve_keeps [OF ev wf assms(2)] obtain v' where v': "find_job s' i = Some v'" "job_moves v v'" .
  have "job_ok v'" using jobs_evolve_ok [OF ev ok] find_jobD [OF v'(1)] by blast
  moreover have "v_status v \<in> set TERMINAL_VERIFY_STATUSES \<Longrightarrow> v_status v' = v_status v"
    using v'(2) job_path_terminal by (simp add: job_moves_def)
  ultimately show ?thesis
    using v' by (intro exI [of _ v']) (auto simp: job_moves_def job_ok_def verify_groups split: if_splits)
qed

text \<open>
  C3: The log explains every task. In every reachable store, reading the events of a task in the order of the log
  takes it from QUEUED with no attempt to the status and the attempt count its row has: an event that names two
  statuses of a task leaves the first, at which the task stands, along an edge of the table (or withdraws a
  completion) and charges an attempt when it enters DISPATCHING; a MIGRATED_IN event may return a task
  that is not yet in flight to QUEUED; an AI_RECONCILED event may name again the status just reached; no
  other event changes anything. So no call changes a status or a count without logging it, logs a change it does
  not make, or skips a status on the way.
\<close>

theorem task_log_replays:
  assumes "reachable s" and "find_task s i = Some t"
  shows "replays i (s_events s) (t_status t, t_attempt_count t)"
proof -
  have "replays i (s_events s) (entry_at s i)"
    using reachable_ok [OF assms(1)] by (simp add: queue_invariant_def log_explains_def)
  with assms(2) show ?thesis by (simp add: entry_at_def)
qed

section \<open>Witnesses\<close>

abbreviation enqueued :: store where
  "enqueued \<equiv> snd (set_tasks 9 (\<lambda>_. ''new'') ''a'' [plain_spec] True (empty_store True))"

abbreviation claimed :: store where
  "claimed \<equiv> snd (claim_next_task 10 ''token'' ''a'' ''w'' 60 enqueued)"

lemma enqueued_reachable: "reachable enqueued"
  by (rule reachable.call [OF reachable.empty queue_op.told [OF queue_call.set_tasks [OF prod.collapse [symmetric]]]])

lemma claim_called: "queue_op enqueued claimed"
  by (rule queue_op.told [OF queue_call.claim [OF prod.collapse [symmetric]]])

lemma claimed_reachable: "reachable claimed"
  by (rule reachable.call [OF enqueued_reachable claim_called])

lemma reachable_store_wellformed_witness:
  "map e_id (s_events claimed) = [1..<Suc (length (s_events claimed))] \<and> length (s_events claimed) = 2"
proof -
  have "length (s_events claimed) = 2" by code_simp
  with reachable_store_wellformed [OF claimed_reachable] show ?thesis by simp
qed

lemma reachable_tasks_safe_witness:
  "\<exists>t. find_task claimed ''new'' = Some t \<and> t_status t = PRECHECK \<and> 0 \<le> t_attempt_count t"
proof -
  have "map_option t_status (find_task claimed ''new'') = Some PRECHECK" by code_simp
  then obtain t where t: "find_task claimed ''new'' = Some t" "t_status t = PRECHECK" by auto
  with reachable_tasks_safe [OF claimed_reachable, of t] find_task_Some_iff [OF t(1)] show ?thesis by auto
qed


abbreviation dispatched :: store where
  "dispatched \<equiv> snd (transition_task 11 ''new'' DISPATCHING ''DISPATCHING'' None [] enqueued)"

abbreviation running :: store where
  "running \<equiv> snd (mark_running_with_evidence 12 ''new''
     [(''accepted'', JBool True), (''signal'', JStr ''process_started'')] None dispatched)"

abbreviation verifying :: store where
  "verifying \<equiv> snd (ensure_verify_job 13 ''job'' (sample_task ''new'' ''a'' 0 RUNNING) [] False ''hold''
     None None None ''pm'' running)"

lemma dispatched_reachable: "reachable dispatched"
  by (rule reachable.call [OF enqueued_reachable queue_op.told [OF queue_call.transition [OF prod.collapse [symmetric]]]])
    (simp add: status_groups)

lemma task_log_replays_witness:
  "replays ''new'' (s_events dispatched) (DISPATCHING, 1) \<and> length (s_events dispatched) = 2"
proof -
  have "map_option entry_of (find_task dispatched ''new'') = Some (DISPATCHING, 1)" "length (s_events dispatched) = 2"
    by code_simp+
  then show ?thesis using task_log_replays [OF dispatched_reachable, of "''new''"] by auto
qed

lemma verifying_reachable: "reachable verifying"
proof -
  have "reachable running" by (rule reachable.call [OF dispatched_reachable queue_op.told [OF queue_call.run [OF prod.collapse [symmetric]]]])
  then show ?thesis by (rule reachable.call [OF _ queue_op.told [OF queue_call.verify_ensure [OF prod.collapse [symmetric]]]])
qed

lemma verify_job_history_witness:
  "\<exists>v v'. find_job verifying ''job'' = Some v
     \<and> find_job (snd (claim_next 14 ''tok'' ''v'' [] None None 60 verifying)) ''job'' = Some v'
     \<and> v_task_id v' = v_task_id v \<and> v_claim_count v \<le> v_claim_count v'"
proof -
  have "find_job verifying ''job'' \<noteq> None" by code_simp
  then obtain v where v: "find_job verifying ''job'' = Some v" by blast
  have "queue_op verifying (snd (claim_next 14 ''tok'' ''v'' [] None None 60 verifying))"
    by (rule queue_op.told [OF queue_call.verify_claim [OF prod.collapse [symmetric]]])
  from verify_job_history [OF verifying_reachable v r_into_rtranclp [where r = queue_op, OF this]] v show ?thesis by blast
qed

end
