(* ===== verification/HarnessService.thy ===== *)
theory HarnessService
  imports HarnessOutcomes QueueMachine
begin

text \<open>
  The service around the orchestrator (\<open>harness_service.py\<close>): where the definition of a run
  comes from, what an operator may ask for, and the projection, the only place where a harness run writes to the
  task queue. The state joins the two stores. The projection reads the task, and then calls
  \<open>transition_task\<close>, whose statements read the status, read the evidence and write without holding the write lock;
  between any two of these four steps other processes may commit. What they do is an argument
  (\<open>tick\<close>), next to the reading of the clock. Of the
  answers the error codes and the rows are modelled, not the explanations and the renderings for the board.
\<close>

section \<open>State and errors\<close>

record skipped_projection =
  sk_run :: string
  sk_task :: string
  sk_label :: board_label
  sk_why :: string

record service =
  sv_queue :: "store option"
  sv_db :: harness_db
  sv_skipped :: "skipped_projection list"

record tick =
  tk_now :: timestamp
  tk_before :: "store \<Rightarrow> store"  \<comment> \<open>commits between the reading of the task and the SELECT of its status\<close>
  tk_checked :: "store \<Rightarrow> store"  \<comment> \<open>between that SELECT and the one of the evidence\<close>
  tk_proven :: "store \<Rightarrow> store"  \<comment> \<open>between that one and the UPDATE\<close>

definition quiet_tick :: "timestamp \<Rightarrow> tick" where
  "quiet_tick now = \<lparr>tk_now = now, tk_before = (\<lambda>q. q), tk_checked = (\<lambda>q. q), tk_proven = (\<lambda>q. q)\<rparr>"

definition status_seen :: "tick \<Rightarrow> store \<Rightarrow> store" where
  \<comment> \<open>the store the status is read from\<close>
  "status_seen tk q = tk_before tk q"

definition evidence_seen :: "tick \<Rightarrow> store \<Rightarrow> store" where
  "evidence_seen tk q = tk_checked tk (tk_before tk q)"

definition written_to :: "tick \<Rightarrow> store \<Rightarrow> store" where
  "written_to tk q = tk_proven tk (tk_checked tk (tk_before tk q))"

datatype service_error = HarnessRaised harness_error | TaskRaised contract_error | ValueRaised py_error

datatype 'a reply = Refused string | Answered 'a

type_synonym 'a svx = "service \<Rightarrow> (service_error + 'a) \<times> service"

section \<open>The projection\<close>

definition FINAL_STATUSES :: "status list" where
  \<comment> \<open>\<open>_TERMINAL_QUEUE_STATUSES\<close>\<close>
  "FINAL_STATUSES = [status.COMPLETED, status.FAILED, status.CANCELLED, status.SKIPPED]"

fun stage_to_queue_status :: "board_label \<Rightarrow> status option" where
  "stage_to_queue_status L_PLANNING = Some status.RUNNING"
| "stage_to_queue_status L_BUILDING = Some status.RUNNING"
| "stage_to_queue_status L_EVALUATING = Some status.VERIFYING"
| "stage_to_queue_status L_REVISING = Some status.RUNNING"
| "stage_to_queue_status L_BLOCKED = Some status.BLOCKED"
| "stage_to_queue_status L_MERGE_READY = None"
| "stage_to_queue_status L_DONE = None"

definition skip_projection :: "timestamp \<Rightarrow> harness_run \<Rightarrow> board_label \<Rightarrow> string \<Rightarrow> service \<Rightarrow> service" where
  "skip_projection now r label why sv =
     sv\<lparr>sv_skipped := sv_skipped sv @ [\<lparr>sk_run = hr_id r, sk_task = hr_task r, sk_label = label, sk_why = why\<rparr>],
        sv_db := snd (record_harness_event now (hr_id r) ''QUEUE_PROJECTION_SKIPPED'' None None (Some why) (sv_db sv))\<rparr>"

fun transition_error_text :: "queue_error \<Rightarrow> string" where
  \<comment> \<open>\<open>str(exc)\<close> of the two errors a transition raises; a KeyError shows its argument's \<open>repr\<close>\<close>
  "transition_error_text (InvalidTransitionError m) = m"
| "transition_error_text (KeyError m) = py_repr m"
| "transition_error_text _ = []"

definition projection_reason :: "harness_run \<Rightarrow> string" where
  "projection_reason r = ''harness '' @ stage_name (hr_stage r) @ '' ('' @ mode_name (hr_mode r) @ ''/''
     @ authority_name (hr_authority r) @ '') run '' @ hr_id r"

definition write_projection :: "tick \<Rightarrow> harness_run \<Rightarrow> board_label \<Rightarrow> task \<Rightarrow> status \<Rightarrow> store \<Rightarrow> service \<Rightarrow> service" where
  \<comment> \<open>the transition and its record; the task was read before the others of the tick committed\<close>
  "write_projection tk r label t target q sv =
     (case transition_overlapped (tk_now tk) (hr_task r) target ''HARNESS_PROJECTION'' (Some (projection_reason r)) []
             (status_seen tk q) (evidence_seen tk q) (written_to tk q) (written_to tk q) of
        (Inl e, q1) \<Rightarrow> skip_projection (tk_now tk) r label (''queue write failed: '' @ transition_error_text e)
           (sv\<lparr>sv_queue := Some q1\<rparr>)
      | (Inr t1, q1) \<Rightarrow> sv\<lparr>sv_queue := Some q1,
           sv_db := snd (record_harness_event (tk_now tk) (hr_id r) ''QUEUE_PROJECTED'' None None
             (Some (''task -> '' @ status_name target)) (sv_db sv))\<rparr>)"

abbreviation projected :: "tick \<Rightarrow> harness_run \<Rightarrow> status \<Rightarrow> store \<Rightarrow> store" where
  \<comment> \<open>the queue after the transition\<close>
  "projected tk r target q \<equiv> snd (transition_overlapped (tk_now tk) (hr_task r) target ''HARNESS_PROJECTION''
     (Some (projection_reason r)) [] (status_seen tk q) (evidence_seen tk q) (written_to tk q) (written_to tk q))"

definition project_run :: "tick \<Rightarrow> harness_run \<Rightarrow> board_label \<Rightarrow> service \<Rightarrow> service" where
  "project_run tk r label sv = (case sv_queue sv of
       None \<Rightarrow> sv
     | Some q \<Rightarrow> (case stage_to_queue_status label of
         None \<Rightarrow> skip_projection (tk_now tk) r label ''no queue meaning: the merge gate owns it'' sv
       | Some target \<Rightarrow>
           if target \<in> set FINAL_STATUSES
           then skip_projection (tk_now tk) r label ''refused: a harness stage never writes a final task state'' sv
           else (case get_task q (hr_task r) of
               None \<Rightarrow> skip_projection (tk_now tk) r label (''no durable task '' @ hr_task r) sv
             | Some t \<Rightarrow>
                 if t_status t = target then sv
                 else if t_status t \<in> set FINAL_STATUSES
                 then skip_projection (tk_now tk) r label
                        (''task is already '' @ status_name (t_status t) @ ''; the harness does not reopen it'') sv
                 else if \<not> is_valid_transition (t_status t) target
                 then skip_projection (tk_now tk) r label
                        (''queue refuses '' @ status_name (t_status t) @ '' -> '' @ status_name target) sv
                 else write_projection tk r label t target q sv)))"

section \<open>Steps with the projector\<close>

definition in_harness :: "'a htx \<Rightarrow> 'a svx" where
  "in_harness op sv = (case op (sv_db sv) of
       (Inl e, db) \<Rightarrow> (Inl (HarnessRaised e), sv\<lparr>sv_db := db\<rparr>)
     | (Inr a, db) \<Rightarrow> (Inr a, sv\<lparr>sv_db := db\<rparr>))"

definition with_projector :: "tick \<Rightarrow> step_outcome htx \<Rightarrow> step_outcome svx" where
  \<comment> \<open>the projector is the last thing \<open>_to\<close> calls, with the run as it was just written\<close>
  "with_projector tk op sv = (case in_harness op sv of
       (Inl e, sv1) \<Rightarrow> (Inl e, sv1)
     | (Inr so, sv1) \<Rightarrow> (Inr so, case so_projected so of
           None \<Rightarrow> sv1
         | Some (i, label) \<Rightarrow> (case get_run i (sv_db sv1) of
               None \<Rightarrow> sv1 | Some r \<Rightarrow> project_run tk r label sv1)))"

definition service_engine :: "engine \<Rightarrow> engine" where
  \<comment> \<open>\<open>engine()\<close>: bound to the projector\<close>
  "service_engine en = en\<lparr>en_projects := True\<rparr>"

primrec drive_service ::
  "engine \<Rightarrow> string \<Rightarrow> tick list \<Rightarrow> service \<Rightarrow> (step_outcome list \<times> service_error option) \<times> service" where
  \<comment> \<open>\<open>_drive\<close>: a step that raises ends the drive, what was done before is still answered\<close>
  "drive_service en i [] sv = (([], None), sv)"
| "drive_service en i (tk # tks) sv =
     (case with_projector tk (step (service_engine en) (tk_now tk) i) sv of
        (Inl e, sv1) \<Rightarrow> (([], Some e), sv1)
      | (Inr so, sv1) \<Rightarrow>
          if so_action so = ''idle'' \<or> outcome_done so \<or> so_pending so then (([so], None), sv1)
          else (case drive_service en i tks sv1 of ((sos, err), sv2) \<Rightarrow> ((so # sos, err), sv2)))"

section \<open>Where the definition of a run comes from\<close>

record task_definition =
  td_prompt :: string
  td_title :: string
  td_project :: "string option"
  td_acceptance :: "string list"
  td_checks :: "string list"

definition clean_texts :: "string list \<Rightarrow> string list" where
  "clean_texts xs = filter (\<lambda>x. x \<noteq> []) (map strip xs)"

definition clean_json :: "json \<Rightarrow> py_error + string list" where
  \<comment> \<open>\<open>_clean\<close> of a value out of the metadata\<close>
  "clean_json v = and_then (py_tuple v) (\<lambda>xs. Inr (clean_texts (map (\<lambda>x. or_text x []) xs)))"

definition definition_for :: "string \<Rightarrow> service \<Rightarrow> service_error + task_definition option" where
  \<comment> \<open>None: there is no durable task, the caller's own words count\<close>
  "definition_for tid sv = (case Option.bind (sv_queue sv) (\<lambda>q. get_task q tid) of
       None \<Rightarrow> Inr None
     | Some t \<Rightarrow> (case contract_from_dict (t_requirement_contract t) of
           Inl e \<Rightarrow> Inl (TaskRaised e)
         | Inr c \<Rightarrow> (case clean_json (if truthy (dget (t_metadata t) ''checks'') then dget (t_metadata t) ''checks''
                                    else dget (t_metadata t) ''required_checks'') of
               Inl e \<Rightarrow> Inl (ValueRaised e)
             | Inr checks \<Rightarrow> Inr (Some \<lparr>td_prompt = t_prompt t, td_title = t_title t, td_project = t_project_id t,
                 td_acceptance = map r_text (filter (\<lambda>r. r_kind r = ''acceptance'')
                   (case c of None \<Rightarrow> [] | Some c \<Rightarrow> requirements c)),
                 td_checks = checks\<rparr>))))"

section \<open>What a caller may ask for\<close>

record service_request =
  rq_task :: string
  rq_prompt :: "string option"
  rq_title :: "string option"
  rq_project :: "string option"
  rq_acceptance :: "string list"
  rq_checks :: "string list"
  rq_changed :: "string list"
  rq_mode :: "string option"
  rq_authority :: string
  rq_node :: "string option"
  rq_actor :: "string option"

definition list_or :: "'a list \<Rightarrow> 'a list \<Rightarrow> 'a list" where
  "list_or xs ys = (if xs = [] then ys else xs)"

definition request_prompt :: "service_request \<Rightarrow> task_definition option \<Rightarrow> string" where
  "request_prompt rq d = strip (str_or (rq_prompt rq) (case d of None \<Rightarrow> [] | Some d \<Rightarrow> td_prompt d))"

definition engine_request :: "service_request \<Rightarrow> string \<Rightarrow> task_definition option \<Rightarrow> start_request" where
  "engine_request rq tid d =
     \<lparr>sr_task = tid, sr_prompt = request_prompt rq d,
      sr_title = strip (str_or (rq_title rq) (case d of None \<Rightarrow> [] | Some d \<Rightarrow> td_title d)),
      sr_project = (if nonempty (rq_project rq) then rq_project rq else Option.bind d td_project),
      sr_acceptance = list_or (clean_texts (rq_acceptance rq)) (case d of None \<Rightarrow> [] | Some d \<Rightarrow> td_acceptance d),
      sr_checks = list_or (clean_texts (rq_checks rq)) (case d of None \<Rightarrow> [] | Some d \<Rightarrow> td_checks d),
      sr_changed = clean_texts (rq_changed rq), sr_mode = rq_mode rq, sr_authority = rq_authority rq,
      sr_node = rq_node rq, sr_inherit_session = None, sr_inherit_task = None, sr_actor = rq_actor rq\<rparr>"

record started =
  sd_created :: bool
  sd_run :: harness_run
  sd_from_task :: bool
  sd_steps :: "step_outcome list"
  sd_drive_error :: "service_error option"

definition start_service ::
  "(string \<Rightarrow> bool) \<Rightarrow> (string \<Rightarrow> string list \<Rightarrow> classification) \<Rightarrow> engine \<Rightarrow> timestamp \<Rightarrow> service_request \<Rightarrow> tick list
   \<Rightarrow> started reply svx" where
  "start_service which classify en now rq tks sv =
     (let tid = strip (rq_task rq) in
      if tid = [] then (Inr (Refused ''TASK_ID_REQUIRED''), sv)
      else if rq_authority rq \<notin> set (map authority_name [SHADOW, SUPERVISED, AUTONOMOUS])
      then (Inr (Refused ''INVALID_WRITE_AUTHORITY''), sv)
      else if (case rq_mode rq of None \<Rightarrow> False | Some m \<Rightarrow> m \<notin> set (map mode_name [LIGHT, STANDARD, CRITICAL]))
      then (Inr (Refused ''INVALID_MODE''), sv)
      else case definition_for tid sv of
        Inl e \<Rightarrow> (Inl e, sv)
      | Inr d \<Rightarrow>
          if request_prompt rq d = [] then (Inr (Refused ''PROMPT_REQUIRED''), sv)
          else case in_harness (start which classify (en_sha en) now (engine_request rq tid d)) sv of
            (Inl e, sv1) \<Rightarrow> (Inr (Refused ''START_FAILED''), sv1)
          | (Inr (r, created), sv1) \<Rightarrow> (case drive_service en (hr_id r) tks sv1 of ((steps, err), sv2) \<Rightarrow>
              (case in_harness (require_run (hr_id r)) sv2 of
                 (Inl e, sv3) \<Rightarrow> (Inl e, sv3)
               | (Inr r1, sv3) \<Rightarrow> (Inr (Answered \<lparr>sd_created = created, sd_run = r1, sd_from_task = d \<noteq> None,
                   sd_steps = steps, sd_drive_error = err\<rparr>), sv3))))"

definition resolve_run :: "string option \<Rightarrow> string option \<Rightarrow> service \<Rightarrow> harness_run option" where
  "resolve_run run task sv =
     (if nonempty run then get_run (strip (the run)) (sv_db sv)
      else if nonempty task then run_for_task (strip (the task)) False (sv_db sv) else None)"

record resumed =
  rs_from :: stage
  rs_to :: stage
  rs_checkpoint :: "checkpoint option"
  rs_steps :: "step_outcome list"
  rs_drive_error :: "service_error option"
  rs_run :: harness_run

definition resume_place :: "engine \<Rightarrow> timestamp \<Rightarrow> string option \<Rightarrow> harness_run \<Rightarrow> stage htx" where
  \<comment> \<open>an interrupted run is brought back, a run that stands in a resumable stage stays there\<close>
  "resume_place en now actor r =
     (if hr_stage r \<in> {FAILED_INFRA, RECOVERY_REQUIRED, CONTEXT_ROLLOVER}
      then hbind (resume (service_engine en) now (hr_id r)) (\<lambda>so. hreturn (so_to so))
      else hseq (record_harness_event now (hr_id r) ''RESUMED_IN_PLACE'' None actor
                   (Some (''already at '' @ stage_name (hr_stage r) @ ''; no transition written'')))
             (hreturn (hr_stage r)))"

definition resume_service ::
  "engine \<Rightarrow> timestamp \<Rightarrow> string option \<Rightarrow> string option \<Rightarrow> string option \<Rightarrow> tick list \<Rightarrow> resumed reply svx" where
  "resume_service en now run task actor tks sv = (case resolve_run run task sv of
       None \<Rightarrow> (Inr (Refused ''NO_RUN''), sv)
     | Some r \<Rightarrow>
         if hr_stage r \<in> set TERMINAL_STAGES then (Inr (Refused ''RUN_IS_TERMINAL''), sv)
         else if hr_stage r \<in> {stage.BLOCKED, NEEDS_REDEFINE} then (Inr (Refused ''NEEDS_DECISION''), sv)
         else if hr_stage r \<notin> {FAILED_INFRA, RECOVERY_REQUIRED, CONTEXT_ROLLOVER} \<union> set RESUMABLE_STAGES
         then (Inr (Refused ''NOT_RESUMABLE''), sv)
         else case in_harness (resume_place en now actor r) sv of
           (Inl e, sv1) \<Rightarrow> (Inl e, sv1)
         | (Inr to, sv1) \<Rightarrow> (case drive_service en (hr_id r) tks sv1 of ((steps, err), sv2) \<Rightarrow>
             (case in_harness (require_run (hr_id r)) sv2 of
                (Inl e, sv3) \<Rightarrow> (Inl e, sv3)
              | (Inr r1, sv3) \<Rightarrow> (Inr (Answered \<lparr>rs_from = hr_stage r, rs_to = to,
                  rs_checkpoint = latest_checkpoint (hr_id r) (sv_db sv), rs_steps = steps,
                  rs_drive_error = err, rs_run = r1\<rparr>), sv3))))"

definition cancel_service ::
  "timestamp \<Rightarrow> string option \<Rightarrow> string option \<Rightarrow> string \<Rightarrow> string option \<Rightarrow> (bool \<times> harness_run) reply svx" where
  \<comment> \<open>answers whether the run was cancelled already, and the run\<close>
  "cancel_service now run task reason actor sv = (case resolve_run run task sv of
       None \<Rightarrow> (Inr (Refused ''NO_RUN''), sv)
     | Some r \<Rightarrow>
         if hr_stage r = stage.CANCELLED then (Inr (Answered (True, r)), sv)
         else if hr_stage r \<in> set TERMINAL_STAGES then (Inr (Refused ''RUN_IS_TERMINAL''), sv)
         else case in_harness (advance now (hr_id r) stage.CANCELLED (Some (str_or actor ''operator'')) (Some reason) None []) sv of
           (Inl e, sv1) \<Rightarrow> (Inr (Refused ''CANCEL_REFUSED''), sv1)
         | (Inr r1, sv1) \<Rightarrow> (Inr (Answered (False, r1)), sv1))"

definition human_decisions :: "string option \<Rightarrow> int \<Rightarrow> service \<Rightarrow> human_decision list" where
  "human_decisions project limit sv =
     filter (\<lambda>d. hd_reason d \<in> set HUMAN_DECISION_REASONS) (list_decisions ''open'' None project limit (sv_db sv))"

datatype review =
  Decided "human_decision option"
| Approved step_outcome harness_run
| Waiting "human_decision list" "(harness_run \<times> human_decision list \<times> evaluation list \<times> exec_contract option) option"

definition review_read :: "string option \<Rightarrow> harness_run option \<Rightarrow> service \<Rightarrow> review" where
  "review_read project r sv =
     Waiting (human_decisions (if nonempty project then project else Option.bind r hr_project) 100 sv)
       (map_option (\<lambda>r. (r, list_decisions ''open'' (Some (hr_id r)) None 100 (sv_db sv),
          evaluations_of (hr_id r) (sv_db sv), get_contract (hr_id r) None (sv_db sv))) r)"

definition approve_service ::
  "engine \<Rightarrow> tick \<Rightarrow> harness_run option \<Rightarrow> string option \<Rightarrow> review reply svx" where
  \<comment> \<open>only the engine's own refusals become an answer; a lost lease and the like are raised\<close>
  "approve_service en tk r actor sv = (case r of
       None \<Rightarrow> (Inr (Refused ''NO_RUN''), sv)
     | Some r \<Rightarrow>
         if \<not> nonempty actor then (Inr (Refused ''ACTOR_REQUIRED''), sv)
         else case with_projector tk (approve_merge (service_engine en) (tk_now tk) (hr_id r) (the actor) None) sv of
           (Inl e, sv1) \<Rightarrow>
             (case e of HarnessRaised (HarnessError m) \<Rightarrow> (Inr (Refused ''MERGE_REFUSED''), sv1)
                | HarnessRaised (NoContract m) \<Rightarrow> (Inr (Refused ''MERGE_REFUSED''), sv1)
                | _ \<Rightarrow> (Inl e, sv1))
         | (Inr so, sv1) \<Rightarrow> (case in_harness (require_run (hr_id r)) sv1 of
               (Inl e, sv2) \<Rightarrow> (Inl e, sv2) | (Inr r1, sv2) \<Rightarrow> (Inr (Answered (Approved so r1)), sv2)))"

definition review_service ::
  "engine \<Rightarrow> tick \<Rightarrow> string option \<Rightarrow> string option \<Rightarrow> string option \<Rightarrow> string option \<Rightarrow> bool \<Rightarrow> string option
   \<Rightarrow> string option \<Rightarrow> review reply svx" where
  "review_service en tk run task decision resolution approve actor project sv =
     (if nonempty decision then
        if \<not> nonempty resolution then (Inr (Refused ''RESOLUTION_REQUIRED''), sv)
        else (case in_harness (resolve_decision (tk_now tk) (the decision) (the resolution) (str_or actor ''operator'')) sv of
            (Inl e, sv1) \<Rightarrow> (Inr (Refused ''NO_DECISION''), sv1)
          | (Inr d, sv1) \<Rightarrow> (Inr (Answered (Decided d)), sv1))
      else if approve then approve_service en tk (resolve_run run task sv) actor sv
      else (Inr (Answered (review_read project (resolve_run run task sv) sv)), sv))"

definition ladder_position :: "stage \<Rightarrow> int" where
  \<comment> \<open>the index of a stage on the way from INIT to DONE; REVISING counts as BUILDING\<close>
  "ladder_position st =
     (case st of PLANNING \<Rightarrow> 1 | PLAN_READY \<Rightarrow> 2 | BUILDING \<Rightarrow> 3 | REVISING \<Rightarrow> 3 | EVALUATING \<Rightarrow> 4
        | MERGE_READY \<Rightarrow> 5 | MERGED \<Rightarrow> 6 | DONE \<Rightarrow> 7 | _ \<Rightarrow> 0)"

definition progress :: "harness_run \<Rightarrow> int \<times> int \<times> int \<times> int \<times> int" where
  \<comment> \<open>step, of, percent, iteration, budget; sevenths of a hundred are never half way between two integers\<close>
  "progress r = (ladder_position (hr_stage r), 7, (200 * ladder_position (hr_stage r) + 7) div 14,
     hr_iteration r, hr_max_iterations r)"


section \<open>What the projection does to the two stores\<close>

lemma label_targets:
  "stage_to_queue_status label = Some t \<Longrightarrow> t \<in> {status.RUNNING, status.VERIFYING, status.BLOCKED}"
  by (cases label) auto

lemma target_not_final: "stage_to_queue_status label = Some t \<Longrightarrow> t \<notin> set FINAL_STATUSES"
  by (drule label_targets) (auto simp: FINAL_STATUSES_def)

lemma final_stays:
  "a \<in> set FINAL_STATUSES \<Longrightarrow> b \<in> {status.RUNNING, status.VERIFYING, status.BLOCKED} \<Longrightarrow> \<not> is_valid_transition a b"
  by (auto simp: FINAL_STATUSES_def is_valid_transition_def)

definition recorded :: "harness_db \<Rightarrow> harness_db \<Rightarrow> bool" where
  \<comment> \<open>nothing, or one event that is no change of stage\<close>
  "recorded db db' \<longleftrightarrow> db' = db \<or> (\<exists>now i etype why. etype \<noteq> ''STAGE''
     \<and> db' = snd (record_harness_event now i etype None None why db))"

lemma recorded_event:
  "etype \<noteq> ''STAGE'' \<Longrightarrow> recorded db (snd (record_harness_event now i etype None None why db))"
  unfolding recorded_def by blast

lemma recorded_follows: "recorded db db' \<Longrightarrow> follows sha db (x, db')"
  unfolding recorded_def
  by (metis follows_refl follows_note follows_snd)

lemma recorded_runs: "recorded db db' \<Longrightarrow> db_runs db' = db_runs db"
  by (auto simp: recorded_def record_harness_event_def)

lemma skip_frame [simp]:
  "sv_queue (skip_projection now r label why sv) = sv_queue sv"
  "sv_skipped (skip_projection now r label why sv) = sv_skipped sv
     @ [\<lparr>sk_run = hr_id r, sk_task = hr_task r, sk_label = label, sk_why = why\<rparr>]"
  "recorded (sv_db sv) (sv_db (skip_projection now r label why sv))"
  by (simp_all add: skip_projection_def recorded_event)

lemma write_frame:
  "recorded (sv_db sv) (sv_db (write_projection tk r label t target q sv))"
  "sv_queue (write_projection tk r label t target q sv) = Some (projected tk r target q)"
proof -
  have "recorded (sv_db sv) (snd (record_harness_event now i ''QUEUE_PROJECTED'' None None why (sv_db sv)))" for now i why
    by (rule recorded_event) simp
  then show "recorded (sv_db sv) (sv_db (write_projection tk r label t target q sv))"
    using skip_frame(3)[of "sv\<lparr>sv_queue := w\<rparr>" for w] by (auto simp: write_projection_def split: prod.split sum.split)
  show "sv_queue (write_projection tk r label t target q sv) = Some (projected tk r target q)"
    by (simp add: write_projection_def split: prod.split sum.split)
qed

lemma project_recorded: "recorded (sv_db sv) (sv_db (project_run tk r label sv))"
proof -
  have "recorded (sv_db sv) (sv_db sv)" by (simp add: recorded_def)
  then show ?thesis
    by (auto simp: project_run_def write_frame(1) split: option.split)
qed

lemma project_queue:
  assumes "sv_queue sv = Some q"
  obtains "sv_queue (project_run tk r label sv) = Some q"
  | target where "stage_to_queue_status label = Some target"
    "sv_queue (project_run tk r label sv) = Some (projected tk r target q)"
proof -
  have "sv_queue (project_run tk r label sv) = Some q \<or> (\<exists>target. stage_to_queue_status label = Some target
      \<and> sv_queue (project_run tk r label sv) = Some (projected tk r target q))"
    by (auto simp: project_run_def assms write_frame(2) split: option.split)
  then show ?thesis using that by blast
qed

definition moves_task :: "store \<Rightarrow> string \<Rightarrow> status \<Rightarrow> store \<Rightarrow> bool" where
  \<comment> \<open>one task takes one edge of the queue's table, on evidence where the status asks for it\<close>
  "moves_task q tid t q' \<longleftrightarrow> (\<exists>x y. find_task q tid = Some x \<and> t_status y = t \<and> is_valid_transition (t_status x) t
     \<and> (t \<in> {status.RUNNING, status.VERIFYING} \<longrightarrow> valid_execution_evidence (t_metadata x))
     \<and> same_identity x y \<and> (\<forall>i. find_task q' i = (if i = tid then Some y else find_task q i)))"

lemma final_row_status [simp]: "t_status (final_row now f t why ex x) = t"
  by (simp add: final_row_def Let_def transition_row_def)

lemma reachable_wf: "reachable q \<Longrightarrow> store_wf q"
  using reachable_ok by (simp add: queue_invariant_def table_safe_def)

lemma transition_effect:
  assumes "store_wf q"
  shows "if (\<exists>x. find_task q tid = Some x \<and> edge_allowed (t_status x) t [] x)
    then moves_task q tid t (snd (transition_task now tid t ty why [] q)) \<and> (\<exists>y. fst (transition_task now tid t ty why [] q) = Inr y)
    else (\<forall>i. find_task (snd (transition_task now tid t ty why [] q)) i = find_task q i)
      \<and> (\<exists>e. fst (transition_task now tid t ty why [] q) = Inl e)"
proof (cases "find_task q tid")
  case None
  then show ?thesis by (simp add: transition_task_def with_connection_def find_task_def)
next
  case (Some x)
  note T = transition_task_result[OF assms Some, of t "[]" now ty why]
  show ?thesis
  proof (cases "edge_allowed (t_status x) t [] x")
    case True
    with T obtain s' where "transition_task now tid t ty why [] q = (Inr (final_row now (t_status x) t why [] x), s')"
      "\<forall>z. find_task s' z = (if z = tid then Some (final_row now (t_status x) t why [] x) else find_task q z)" by auto
    then show ?thesis using True Some final_row_identity[of x now "t_status x" t why "[]"]
      by (auto simp: moves_task_def edge_allowed_def)
  next
    case False
    with T obtain m where "transition_task now tid t ty why [] q = (Inl (InvalidTransitionError m), discard_events q)" by auto
    then show ?thesis using False Some by (simp add: find_task_def)
  qed
qed

lemma projected_reachable:
  assumes "reachable q" and "t \<in> {status.RUNNING, status.VERIFYING, status.BLOCKED}"
  shows "reachable (snd (transition_task now tid t ty why [] q))"
  by (rule reachable.call[OF assms(1) queue_op.told[OF queue_call.transition[OF prod.collapse[symmetric]]]])
     (use assms(2) in \<open>auto simp: status_groups\<close>)

lemma still_there:
  assumes "reachable q" and "find_task q i = Some x" and "queue_op\<^sup>*\<^sup>* q q'"
  shows "\<exists>y. find_task q' i = Some y"
  using queue_ops_step[OF assms(3) reachable_ok[OF assms(1)]] evolves_keeps_rows[OF _ reachable_wf[OF assms(1)] assms(2)]
  by (auto simp: queue_step_def)

lemma reachable_calls: "queue_op\<^sup>*\<^sup>* q q' \<Longrightarrow> reachable q \<Longrightarrow> reachable q'"
  by (induction rule: rtranclp_induct) (auto intro: reachable.call)

section \<open>The service as a client of both stores\<close>

definition undisturbed :: "tick \<Rightarrow> bool" where
  \<comment> \<open>no other process commits between the reading and the write\<close>
  "undisturbed tk \<longleftrightarrow> tk_before tk = (\<lambda>q. q) \<and> tk_checked tk = (\<lambda>q. q) \<and> tk_proven tk = (\<lambda>q. q)"

lemma undisturbed_transition:
  assumes "undisturbed tk" and "t \<noteq> status.DISPATCHING"
  shows "transition_overlapped now tid t ty why ex (status_seen tk q) (evidence_seen tk q) (written_to tk q) (written_to tk q)
    = transition_task now tid t ty why ex q"
  using assms transition_undisturbed[of q t]
  by (simp add: undisturbed_def status_seen_def evidence_seen_def written_to_def)

lemma undisturbed_quiet [simp]: "undisturbed (quiet_tick now)" "tk_now (quiet_tick now) = now"
  by (simp_all add: undisturbed_def quiet_tick_def)

inductive projects :: "store \<Rightarrow> store \<Rightarrow> bool" where
  "t \<in> {status.RUNNING, status.VERIFYING, status.BLOCKED} \<Longrightarrow>
   projects q (snd (transition_task now tid t ty why [] q))"

definition serves :: "(string \<Rightarrow> string) \<Rightarrow> service \<Rightarrow> service \<Rightarrow> bool" where
  \<comment> \<open>honest calls on the tables of the harness, projections on the queue\<close>
  "serves sha sv sv' \<longleftrightarrow> follows sha (sv_db sv) ((), sv_db sv')
     \<and> rel_option projects\<^sup>*\<^sup>* (sv_queue sv) (sv_queue sv')"

lemma serves_refl: "serves sha sv sv"
  by (simp add: serves_def follows_refl option.rel_refl)

lemma serves_trans: "serves sha sv sv1 \<Longrightarrow> serves sha sv1 sv2 \<Longrightarrow> serves sha sv sv2"
  by (auto simp: serves_def intro: follows_trans elim!: option.rel_cases intro: rtranclp_trans)

lemma serves_project:
  assumes "undisturbed tk"
  shows "serves sha sv (project_run tk r label sv)"
proof -
  have "rel_option projects\<^sup>*\<^sup>* (sv_queue sv) (sv_queue (project_run tk r label sv))"
  proof (cases "sv_queue sv")
    case None
    then show ?thesis by (simp add: project_run_def)
  next
    case (Some q)
    show ?thesis
    proof (rule project_queue[OF Some, of tk r label])
      assume "sv_queue (project_run tk r label sv) = Some q"
      then show ?thesis by (simp add: Some)
    next
      fix target
      assume "stage_to_queue_status label = Some target"
        "sv_queue (project_run tk r label sv) = Some (projected tk r target q)"
      then show ?thesis using label_targets[of label target] undisturbed_transition[OF assms, of target]
        by (auto simp: Some intro!: r_into_rtranclp projects.intros)
    qed
  qed
  then show ?thesis using recorded_follows[OF project_recorded] by (simp add: serves_def)
qed

lemma serves_in_harness:
  assumes "in_harness op sv = (res, sv1)" and "\<And>db. follows sha db (op db)"
  shows "serves sha sv sv1"
  using assms(1) assms(2)[of "sv_db sv"]
  by (auto simp: serves_def in_harness_def follows_def option.rel_refl split: prod.splits sum.splits)

lemma serves_with_projector:
  assumes "with_projector tk op sv = (res, sv2)" and "undisturbed tk" and "\<And>db. follows sha db (op db)"
  shows "serves sha sv sv2"
proof -
  obtain x sv1 where op: "in_harness op sv = (x, sv1)" by force
  from serves_in_harness[OF this] assms(3) have first: "serves sha sv sv1" by blast
  have "sv2 = sv1 \<or> (\<exists>r label. sv2 = project_run tk r label sv1)"
    using assms(1) by (auto simp: with_projector_def op split: sum.splits option.splits) blast
  then show ?thesis using first serves_project[OF assms(2)] serves_trans by blast
qed

lemma service_engine_step:
  assumes "honest_engine en"
  shows "follows (en_sha en) db (step (service_engine en) now i db)"
  using follows_step[of "service_engine en" db now i] assms by (simp add: honest_engine_def service_engine_def)

lemma serves_drive:
  assumes "honest_engine en"
  shows "drive_service en i tks sv = (res, sv') \<Longrightarrow> list_all undisturbed tks \<Longrightarrow> serves (en_sha en) sv sv'"
proof (induction tks arbitrary: sv res sv')
  case Nil
  then show ?case by (simp add: serves_refl)
next
  case (Cons tk tks)
  obtain x sv1 where w: "with_projector tk (step (service_engine en) (tk_now tk) i) sv = (x, sv1)" by force
  have first: "serves (en_sha en) sv sv1"
    by (rule serves_with_projector[OF w]) (use Cons.prems service_engine_step[OF assms] in simp_all)
  obtain y sv2 where d: "drive_service en i tks sv1 = (y, sv2)" by (metis surj_pair)
  have "serves (en_sha en) sv1 sv2" using Cons.IH[OF d] Cons.prems by simp
  moreover have "sv' = sv1 \<or> sv' = sv2"
    using Cons.prems(1) by (auto simp: w d split: sum.splits if_splits prod.splits)
  ultimately show ?case using first serves_trans by blast
qed

lemma serves_start:
  assumes "honest_engine en" and "list_all undisturbed tks" and "start_service which classify en now rq tks sv = (res, sv')"
  shows "serves (en_sha en) sv sv'"
proof -
  have require: "serves (en_sha en) a b" if "in_harness (require_run i) a = (x, b)" for i a x b
    by (rule serves_in_harness[OF that follows_require_run])
  have opens: "serves (en_sha en) a b"
    if "in_harness (start which classify (en_sha en) now sr) a = (x, b)" for sr a x b
    by (rule serves_in_harness[OF that follows_start])
  note drives = serves_drive[OF assms(1) _ assms(2)]
  show ?thesis
    using assms(3) unfolding start_service_def Let_def
    by (auto simp: serves_refl split: if_splits sum.splits prod.splits dest!: require opens drives
        intro: serves_trans)
qed

lemma serves_resume:
  assumes "honest_engine en" and "list_all undisturbed tks" and "resume_service en now run task actor tks sv = (res, sv')"
  shows "serves (en_sha en) sv sv'"
proof -
  have require: "serves (en_sha en) a b" if "in_harness (require_run i) a = (x, b)" for i a x b
    by (rule serves_in_harness[OF that follows_require_run])
  have place: "serves (en_sha en) a b" if "in_harness (resume_place en now actor r) a = (x, b)" for r a x b
    by (rule serves_in_harness[OF that]) (auto simp: resume_place_def intro!: follows_intros)
  note drives = serves_drive[OF assms(1) _ assms(2)]
  show ?thesis
    using assms(3) unfolding resume_service_def
    by (auto simp: serves_refl split: if_splits sum.splits prod.splits option.splits dest!: require place drives
        intro: serves_trans)
qed

lemma serves_cancel:
  assumes "cancel_service now run task reason actor sv = (res, sv')"
  shows "serves sha sv sv'"
proof -
  have "serves sha a b" if "in_harness (advance now i st who why None []) a = (x, b)" for i st who why a x b
    by (rule serves_in_harness[OF that follows_advance])
  then show ?thesis
    using assms unfolding cancel_service_def
    by (auto simp: serves_refl split: if_splits sum.splits prod.splits option.splits)
qed

lemma serves_review:
  assumes "undisturbed tk" and "review_service en tk run task decision resolution approve actor project sv = (res, sv')"
  shows "serves (en_sha en) sv sv'"
proof -
  have require: "serves (en_sha en) a b" if "in_harness (require_run i) a = (x, b)" for i a x b
    by (rule serves_in_harness[OF that follows_require_run])
  have resolve: "serves (en_sha en) a b" if "in_harness (resolve_decision now d words who) a = (x, b)" for now d words who a x b
    by (rule serves_in_harness[OF that]) (rule follows_call[where call = "CallResolve now d words who"], simp_all)
  have merge: "serves (en_sha en) a b"
    if "with_projector tk (approve_merge (service_engine en) now i who None) a = (x, b)" for now i who a x b
    by (rule serves_with_projector[OF that assms(1) follows_approve_merge])
  have "serves (en_sha en) sv b" if "approve_service en tk r actor sv = (x, b)" for r x b
    using that unfolding approve_service_def
    by (auto simp: serves_refl split: if_splits sum.splits prod.splits option.splits service_error.splits harness_error.splits
        dest!: require merge intro: serves_trans)
  then show ?thesis
    using assms(2) unfolding review_service_def
    by (auto simp: serves_refl split: if_splits sum.splits prod.splits dest!: resolve)
qed

datatype service_op =
  SvStart timestamp service_request "tick list"
| SvResume timestamp "string option" "string option" "string option" "tick list"
| SvCancel timestamp "string option" "string option" string "string option"
| SvReview tick "string option" "string option" "string option" "string option" bool "string option" "string option"

fun service_exec ::
  "(string \<Rightarrow> bool) \<Rightarrow> (string \<Rightarrow> string list \<Rightarrow> classification) \<Rightarrow> engine \<Rightarrow> service_op \<Rightarrow> service \<Rightarrow> service" where
  "service_exec which classify en (SvStart now rq tks) sv = snd (start_service which classify en now rq tks sv)"
| "service_exec which classify en (SvResume now run task actor tks) sv = snd (resume_service en now run task actor tks sv)"
| "service_exec which classify en (SvCancel now run task reason actor) sv = snd (cancel_service now run task reason actor sv)"
| "service_exec which classify en (SvReview tk run task decision resolution approve actor project) sv =
     snd (review_service en tk run task decision resolution approve actor project sv)"

fun undisturbed_op :: "service_op \<Rightarrow> bool" where
  "undisturbed_op (SvStart now rq tks) = list_all undisturbed tks"
| "undisturbed_op (SvResume now run task actor tks) = list_all undisturbed tks"
| "undisturbed_op (SvCancel now run task reason actor) = True"
| "undisturbed_op (SvReview tk run task decision resolution approve actor project) = undisturbed tk"

lemma serves_history:
  assumes "honest_engine en"
  shows "list_all undisturbed_op ops \<Longrightarrow> serves (en_sha en) sv (fold (service_exec which classify en) ops sv)"
proof (induction ops arbitrary: sv)
  case (Cons op ops)
  have "serves (en_sha en) sv (service_exec which classify en op sv)"
    using Cons.prems
    by (cases op) (auto intro: serves_start[OF assms _ prod.collapse[symmetric]] serves_resume[OF assms _ prod.collapse[symmetric]]
        serves_cancel[OF prod.collapse[symmetric]] serves_review[OF _ prod.collapse[symmetric]])
  then show ?case using Cons by (auto intro: serves_trans)
qed (simp add: serves_refl)


section \<open>Final tasks stay final\<close>

lemma projects_keeps:
  assumes "projects q q'" and "reachable q"
  shows "reachable q'"
    and "case find_task q i of None \<Rightarrow> find_task q' i = None
      | Some x \<Rightarrow> if t_status x \<in> set FINAL_STATUSES then find_task q' i = Some x
                  else \<exists>y. find_task q' i = Some y \<and> t_status y \<notin> set FINAL_STATUSES \<and> t_id y = t_id x"
proof -
  obtain t now tid ty why where t: "t \<in> {status.RUNNING, status.VERIFYING, status.BLOCKED}"
      "q' = snd (transition_task now tid t ty why [] q)"
    using assms(1) that unfolding projects.simps by blast
  then show "reachable q'" using projected_reachable[OF assms(2) t(1)] by simp
  have effect: "moves_task q tid t q' \<or> (\<forall>i. find_task q' i = find_task q i)"
    using transition_effect[OF reachable_wf[OF assms(2)], of tid t now ty why] t(2) by (auto split: if_splits)
  have fresh: "t \<notin> set FINAL_STATUSES" using t(1) by (auto simp: FINAL_STATUSES_def)
  show "case find_task q i of None \<Rightarrow> find_task q' i = None
      | Some x \<Rightarrow> if t_status x \<in> set FINAL_STATUSES then find_task q' i = Some x
                  else \<exists>y. find_task q' i = Some y \<and> t_status y \<notin> set FINAL_STATUSES \<and> t_id y = t_id x"
    using effect
  proof
    assume "moves_task q tid t q'"
    then obtain x y where xy: "find_task q tid = Some x" "t_status y = t" "is_valid_transition (t_status x) t"
        "same_identity x y" "\<forall>i. find_task q' i = (if i = tid then Some y else find_task q i)"
      by (auto simp: moves_task_def)
    moreover have "t_status x \<notin> set FINAL_STATUSES" using final_stays t(1) xy(3) by blast
    ultimately show ?thesis using fresh by (auto simp: same_identity_def split: option.split)
  qed (auto split: option.split)
qed

lemma projections_keep:
  assumes "projects\<^sup>*\<^sup>* q q'" and "reachable q"
  shows "reachable q' \<and> (case find_task q i of None \<Rightarrow> find_task q' i = None
      | Some x \<Rightarrow> if t_status x \<in> set FINAL_STATUSES then find_task q' i = Some x
                  else \<exists>y. find_task q' i = Some y \<and> t_status y \<notin> set FINAL_STATUSES \<and> t_id y = t_id x)"
  using assms(1)
proof (induction rule: rtranclp_induct)
  case base
  then show ?case using assms(2) by (auto split: option.split)
next
  case (step q1 q2)
  then show ?case using projects_keeps(1)[of q1 q2] projects_keeps(2)[of q1 q2 i] by (auto split: option.splits if_splits)
qed

section \<open>Properties\<close>

definition logs :: "string \<Rightarrow> string \<Rightarrow> harness_db \<Rightarrow> harness_db \<Rightarrow> bool" where
  \<comment> \<open>one event of the run is all that is new\<close>
  "logs etype i db db' \<longleftrightarrow> (\<exists>e. db_events db' = db_events db @ [e] \<and> he_run e = i \<and> he_type e = etype) \<and> db_runs db' = db_runs db"

definition says_why :: "harness_run \<Rightarrow> board_label \<Rightarrow> store \<Rightarrow> service \<Rightarrow> service \<Rightarrow> bool" where
  \<comment> \<open>no task changes, and the skipped projection is noted with its reason\<close>
  "says_why r label q sv sv' \<longleftrightarrow>
     (\<exists>q'. sv_queue sv' = Some q' \<and> (\<forall>i. find_task q' i = find_task q i))
   \<and> (\<exists>why. why \<noteq> [] \<and> sv_skipped sv' = sv_skipped sv
        @ [\<lparr>sk_run = hr_id r, sk_task = hr_task r, sk_label = label, sk_why = why\<rparr>])
   \<and> logs ''QUEUE_PROJECTION_SKIPPED'' (hr_id r) (sv_db sv) (sv_db sv')"

lemma skip_says_why:
  assumes "sv_queue sv = Some q'" and "\<forall>i. find_task q' i = find_task q i" and "why \<noteq> []"
  shows "says_why r label q sv (skip_projection now r label why sv)"
  using assms
  by (simp add: says_why_def skip_projection_def logs_def record_harness_event_def note_locked_def event_locked_def)

text \<open>
  C16: A projection moves the task or says why not. When the label of the run means a status of the queue,
  the task exists and stands elsewhere, and the queue's table and evidence rule allow the move, exactly this task takes
  it and the run logs it; a task that is there already costs nothing; in every other case no task
  changes, and the skipped projection is kept and logged with its reason.
\<close>

theorem projection_moves_or_says_why:
  assumes "sv_queue sv = Some q" and "store_wf q" and "undisturbed tk"
  shows "case stage_to_queue_status label of
      None \<Rightarrow> says_why r label q sv (project_run tk r label sv)
    | Some t \<Rightarrow> (case find_task q (hr_task r) of
        None \<Rightarrow> says_why r label q sv (project_run tk r label sv)
      | Some x \<Rightarrow>
          if t_status x = t then project_run tk r label sv = sv
          else if is_valid_transition (t_status x) t
              \<and> (t \<in> {status.RUNNING, status.VERIFYING} \<longrightarrow> valid_execution_evidence (t_metadata x))
          then (\<exists>q'. sv_queue (project_run tk r label sv) = Some q' \<and> moves_task q (hr_task r) t q')
             \<and> sv_skipped (project_run tk r label sv) = sv_skipped sv
             \<and> logs ''QUEUE_PROJECTED'' (hr_id r) (sv_db sv) (sv_db (project_run tk r label sv))
          else says_why r label q sv (project_run tk r label sv))"
proof (cases "stage_to_queue_status label")
  case None
  then show ?thesis using assms(1) by (simp add: project_run_def skip_says_why)
next
  case (Some t)
  show ?thesis
  proof (cases "find_task q (hr_task r)")
    case None
    then show ?thesis using assms(1) Some target_not_final[OF Some]
      by (simp add: project_run_def get_task_def skip_says_why)
  next
    case found: (Some x)
    show ?thesis
    proof (cases "t_status x = t \<or> \<not> is_valid_transition (t_status x) t")
      case True
      then show ?thesis using assms(1) Some found target_not_final[OF Some] final_stays label_targets[OF Some]
        by (auto simp: project_run_def get_task_def skip_says_why)
    next
      case False
      then have there: "t_status x \<notin> set FINAL_STATUSES" using final_stays label_targets[OF Some] by blast
      have run: "project_run tk r label sv = write_projection tk r label x t q sv"
        using assms(1) Some found target_not_final[OF Some] False there by (simp add: project_run_def get_task_def)
      let ?w = "transition_task (tk_now tk) (hr_task r) t ''HARNESS_PROJECTION'' (Some (projection_reason r)) [] q"
      have "t \<noteq> status.DISPATCHING" using label_targets[OF Some] by auto
      note serial = undisturbed_transition[OF assms(3) this]
      note effect = transition_effect[OF assms(2), of "hr_task r" t "tk_now tk" "''HARNESS_PROJECTION''" "Some (projection_reason r)"]
      show ?thesis
      proof (cases "fst ?w")
        case (Inl e)
        then have same: "\<forall>i. find_task (snd ?w) i = find_task q i" and refused: "\<not> edge_allowed (t_status x) t [] x"
          using effect found by (auto split: if_splits)
        let ?sv = "sv\<lparr>sv_queue := Some (snd ?w)\<rparr>" and ?why = "''queue write failed: '' @ transition_error_text e"
        have "says_why r label q ?sv (skip_projection (tk_now tk) r label ?why ?sv)"
          by (rule skip_says_why[OF _ same]) simp_all
        then have "says_why r label q sv (skip_projection (tk_now tk) r label ?why ?sv)" by (simp add: says_why_def)
        moreover have "project_run tk r label sv = skip_projection (tk_now tk) r label ?why ?sv"
          using Inl by (cases ?w) (simp add: run write_projection_def serial)
        ultimately show ?thesis using refused Some found False by (simp add: edge_allowed_def)
      next
        case (Inr y)
        then have "moves_task q (hr_task r) t (snd ?w)" and "edge_allowed (t_status x) t [] x"
          using effect found by (auto split: if_splits)
        then show ?thesis using Some found False Inr
          by (cases ?w) (simp add: run write_projection_def serial edge_allowed_def logs_def record_harness_event_def
              note_locked_def event_locked_def)
      qed
    qed
  qed
qed

text \<open>
  C17: A projection is decided on what it read. Once the service has read a task whose status has an
  edge to the target, any calls of the queue may commit before the status is read again, between that and the
  reading of the evidence, and between that and the write. The projection takes effect exactly when the status
  read has the edge and the evidence read is accepted where it is asked for: then the task has the target
  status, whatever status it has been given meanwhile, a final one included, no other task changes and the move is
  logged. Otherwise no task changes and the reason is noted. When nothing commits between the
  readings and the write, no settled task is written. No run of the harness changes.
\<close>

theorem projection_decided_on_what_it_read:
  assumes "sv_queue sv = Some q" and "reachable q" and "stage_to_queue_status label = Some t"
    and "find_task q (hr_task r) = Some task" and "t_status task \<noteq> t" and "is_valid_transition (t_status task) t"
    and "queue_op\<^sup>*\<^sup>* q (status_seen tk q)" and "queue_op\<^sup>*\<^sup>* (status_seen tk q) (evidence_seen tk q)"
    and "queue_op\<^sup>*\<^sup>* (evidence_seen tk q) (written_to tk q)"
  shows "\<exists>x y z. find_task (status_seen tk q) (hr_task r) = Some x \<and> find_task (evidence_seen tk q) (hr_task r) = Some y
    \<and> find_task (written_to tk q) (hr_task r) = Some z
    \<and> (if is_valid_transition (t_status x) t \<and> (t \<in> {status.RUNNING, status.VERIFYING} \<longrightarrow> valid_execution_evidence (t_metadata y))
       then (\<exists>q' z'. sv_queue (project_run tk r label sv) = Some q' \<and> t_status z' = t \<and> same_identity z z'
              \<and> (\<forall>i. find_task q' i = (if i = hr_task r then Some z' else find_task (written_to tk q) i)))
            \<and> logs ''QUEUE_PROJECTED'' (hr_id r) (sv_db sv) (sv_db (project_run tk r label sv))
            \<and> (written_to tk q = status_seen tk q \<longrightarrow> t_status z \<notin> set FINAL_STATUSES)
       else says_why r label (written_to tk q) sv (project_run tk r label sv))
    \<and> db_runs (sv_db (project_run tk r label sv)) = db_runs (sv_db sv)"
proof -
  note targets = label_targets[OF assms(3)]
  have ok: "reachable (status_seen tk q)" "reachable (evidence_seen tk q)" "reachable (written_to tk q)"
    using assms(2,7-9) reachable_calls by blast+
  obtain x y z where xyz: "find_task (status_seen tk q) (hr_task r) = Some x"
      "find_task (evidence_seen tk q) (hr_task r) = Some y" "find_task (written_to tk q) (hr_task r) = Some z"
    using still_there[OF assms(2,4,7)] still_there[OF ok(1) _ assms(8)] still_there[OF ok(2) _ assms(9)] by blast
  have nd: "t \<noteq> status.DISPATCHING" using targets by auto
  let ?w = "transition_overlapped (tk_now tk) (hr_task r) t ''HARNESS_PROJECTION'' (Some (projection_reason r)) []
      (status_seen tk q) (evidence_seen tk q) (written_to tk q) (written_to tk q)"
  note effect = transition_overlapped_effect[OF reachable_wf[OF ok(3)] nd xyz, of "[]" "tk_now tk"
      "''HARNESS_PROJECTION''" "Some (projection_reason r)" "written_to tk q"]
  have run: "project_run tk r label sv = write_projection tk r label task t q sv"
    using assms(1,3-6) target_not_final[OF assms(3)] final_stays targets by (auto simp: project_run_def get_task_def)
  have same: "db_runs (sv_db (project_run tk r label sv)) = db_runs (sv_db sv)"
    by (rule recorded_runs[OF project_recorded])
  show ?thesis
  proof (cases "edge_allowed (t_status x) t [] y")
    case True
    then obtain row q' where w: "?w = (Inr row, q')" and find: "\<forall>i. find_task q' i =
        (if i = hr_task r then Some (final_row (tk_now tk) (t_status x) t (Some (projection_reason r)) [] z)
         else find_task (written_to tk q) i)" using effect by auto
    let ?z = "final_row (tk_now tk) (t_status x) t (Some (projection_reason r)) [] z"
    have "t_status x \<notin> set FINAL_STATUSES" using True final_stays targets unfolding edge_allowed_def by blast
    then have settled: "written_to tk q = status_seen tk q \<longrightarrow> t_status z \<notin> set FINAL_STATUSES" using xyz by auto
    have prun: "project_run tk r label sv = sv\<lparr>sv_queue := Some q', sv_db := snd (record_harness_event (tk_now tk) (hr_id r)
        ''QUEUE_PROJECTED'' None None (Some (''task -> '' @ status_name t)) (sv_db sv))\<rparr>"
      by (simp add: run write_projection_def w)
    have queue: "sv_queue (project_run tk r label sv) = Some q'" by (simp add: prun)
    have logged: "logs ''QUEUE_PROJECTED'' (hr_id r) (sv_db sv) (sv_db (project_run tk r label sv))"
      by (simp add: prun logs_def record_harness_event_def note_locked_def event_locked_def)
    have "\<exists>q' z'. sv_queue (project_run tk r label sv) = Some q' \<and> t_status z' = t \<and> same_identity z z'
              \<and> (\<forall>i. find_task q' i = (if i = hr_task r then Some z' else find_task (written_to tk q) i))"
      by (intro exI[of _ q'] exI[of _ ?z] conjI queue find final_row_status final_row_identity)
    moreover have "is_valid_transition (t_status x) t
        \<and> (t \<in> {status.RUNNING, status.VERIFYING} \<longrightarrow> valid_execution_evidence (t_metadata y))"
      using True by (simp add: edge_allowed_def)
    ultimately show ?thesis using logged settled same xyz by simp
  next
    case False
    then obtain e where w: "?w = (Inl e, discard_events (written_to tk q))" using effect by auto
    let ?sv = "sv\<lparr>sv_queue := Some (discard_events (written_to tk q))\<rparr>"
    let ?why = "''queue write failed: '' @ transition_error_text e"
    have "says_why r label (written_to tk q) ?sv (skip_projection (tk_now tk) r label ?why ?sv)"
      by (rule skip_says_why[where q' = "discard_events (written_to tk q)"]) simp_all
    then have says: "says_why r label (written_to tk q) sv (project_run tk r label sv)"
      by (simp add: says_why_def run write_projection_def w)
    have refused: "\<not> (is_valid_transition (t_status x) t
        \<and> (t \<in> {status.RUNNING, status.VERIFYING} \<longrightarrow> valid_execution_evidence (t_metadata y)))"
      using False by (simp add: edge_allowed_def)
    show ?thesis
      by (rule exI[of _ x], rule exI[of _ y], rule exI[of _ z]) (simp only: if_not_P[OF refused] says xyz same simp_thms)
  qed
qed

text \<open>
  C18: The service completes no task. Any starts, resumes, cancellations and reviews, with a runner that writes no
  STAGE event by hand and no other process at work on the queue meanwhile, leave every completed, failed, skipped or
  cancelled task as it was and bring no other task into such a state; no task appears or vanishes, the store of
  the queue stays reachable, and the tables of the harness are reached by honest calls of its store.
\<close>

theorem service_settles_nothing:
  assumes "honest_engine en" and "list_all undisturbed_op ops" and "sv_queue sv = Some q" and "reachable q"
  shows "\<exists>q' calls. sv_queue (fold (service_exec which classify en) ops sv) = Some q' \<and> reachable q'
    \<and> (case find_task q i of None \<Rightarrow> find_task q' i = None
       | Some x \<Rightarrow> if t_status x \<in> set FINAL_STATUSES then find_task q' i = Some x
                   else \<exists>y. find_task q' i = Some y \<and> t_status y \<notin> set FINAL_STATUSES \<and> t_id y = t_id x)
    \<and> list_all honest_call calls
    \<and> sv_db (fold (service_exec which classify en) ops sv) = harness_after (en_sha en) calls (sv_db sv)"
proof -
  have "serves (en_sha en) sv (fold (service_exec which classify en) ops sv)" by (rule serves_history[OF assms(1,2)])
  then obtain q' calls where "sv_queue (fold (service_exec which classify en) ops sv) = Some q'" "projects\<^sup>*\<^sup>* q q'"
      "list_all honest_call calls" "sv_db (fold (service_exec which classify en) ops sv) = harness_after (en_sha en) calls (sv_db sv)"
    using assms(3) by (auto simp: serves_def follows_def option_rel_Some1)
  then show ?thesis using projections_keep[of q q' i] assms(4) by blast
qed


lemma merged_run_called_unstarted:
  assumes "resolve_run run task sv = Some r" and "hr_stage r = MERGED"
  shows "resume_service en now run task actor tks sv = (Inr (Refused ''NOT_RESUMABLE''), sv)"
  using assms by (simp add: resume_service_def TERMINAL_STAGES_def RESUMABLE_STAGES_def)

section \<open>Witnesses\<close>

definition sample_service :: "store \<Rightarrow> service" where
  "sample_service q = \<lparr>sv_queue = Some q, sv_db = sample_tables (sample_row EVALUATING 1) [], sv_skipped = []\<rparr>"

lemma sample_service_simps [simp]: "sv_queue (sample_service q) = Some q" "sv_skipped (sample_service q) = []"
  by (simp_all add: sample_service_def)

lemma sample_row_task [simp]: "hr_task (sample_row st n) = ''t''"
  by (simp add: sample_row_def run_row_def sample_run_def)

theorem projection_moves_or_says_why_witness:
  "\<exists>q'. sv_queue (project_run (quiet_tick 9) (sample_row EVALUATING 1) L_EVALUATING
       (sample_service (sample_store [sample_started ''t'' ''a'' 0 RUNNING]))) = Some q'
     \<and> moves_task (sample_store [sample_started ''t'' ''a'' 0 RUNNING]) ''t'' status.VERIFYING q'"
proof -
  let ?q = "sample_store [sample_started ''t'' ''a'' 0 RUNNING]"
  have wf: "store_wf ?q" by simp
  have row: "find_task ?q ''t'' = Some (sample_started ''t'' ''a'' 0 RUNNING)" by (simp add: find_task_def)
  from projection_moves_or_says_why[OF _ wf undisturbed_quiet(1)[of 9], where label = L_EVALUATING and r = "sample_row EVALUATING 1"]
  show ?thesis by (simp add: row is_valid_transition_def)
qed

definition sample_cancel :: "store \<Rightarrow> store" where
  \<comment> \<open>another process cancels the task\<close>
  "sample_cancel q = snd (transition_task 14 ''new'' status.CANCELLED ''CANCELLED'' None [] q)"

lemma running_reachable: "reachable running"
  by (rule reachable.call[OF reachable.call[OF enqueued_reachable queue_op.told[OF queue_call.transition[OF prod.collapse[symmetric]]]]
        queue_op.told[OF queue_call.run[OF prod.collapse[symmetric]]]]) (simp add: status_groups)

definition cancelled_meanwhile :: tick where
  \<comment> \<open>another process cancels the task after its status was read\<close>
  "cancelled_meanwhile = (quiet_tick 15)\<lparr>tk_checked := sample_cancel\<rparr>"

theorem projection_decided_on_what_it_read_witness:
  "map_option t_status (find_task (written_to cancelled_meanwhile running) ''new'') = Some status.CANCELLED
   \<and> (\<exists>q'. sv_queue (project_run cancelled_meanwhile ((sample_row EVALUATING 1)\<lparr>hr_task := ''new''\<rparr>) L_EVALUATING
        (sample_service running)) = Some q' \<and> map_option t_status (find_task q' ''new'') = Some status.VERIFYING)"
proof -
  let ?tk = cancelled_meanwhile
  have seen: "status_seen ?tk running = running" "evidence_seen ?tk running = sample_cancel running"
      "written_to ?tk running = sample_cancel running"
    by (simp_all add: status_seen_def evidence_seen_def written_to_def cancelled_meanwhile_def quiet_tick_def)
  have "queue_op running (sample_cancel running)"
    unfolding sample_cancel_def
    by (rule queue_op.told[OF queue_call.transition[OF prod.collapse[symmetric]]]) (simp add: no_claim_columns_def)
  then have ops: "queue_op\<^sup>*\<^sup>* running (status_seen ?tk running)" "queue_op\<^sup>*\<^sup>* (status_seen ?tk running) (evidence_seen ?tk running)"
      "queue_op\<^sup>*\<^sup>* (evidence_seen ?tk running) (written_to ?tk running)"
    by (simp_all add: seen)
  have "map_option t_status (find_task running ''new'') = Some status.RUNNING" by code_simp
  then obtain x where x: "find_task running ''new'' = Some x" "t_status x = status.RUNNING" by auto
  have "map_option (\<lambda>y. (t_status y, valid_execution_evidence (t_metadata y))) (find_task (sample_cancel running) ''new'')
      = Some (status.CANCELLED, True)" by code_simp
  then obtain y where y: "find_task (sample_cancel running) ''new'' = Some y" "t_status y = status.CANCELLED"
      "valid_execution_evidence (t_metadata y)" by auto
  from projection_decided_on_what_it_read[of "sample_service running" running L_EVALUATING status.VERIFYING
      "(sample_row EVALUATING 1)\<lparr>hr_task := ''new''\<rparr>" x ?tk, OF _ running_reachable _ _ _ _ ops]
  show ?thesis using x y by (auto simp: seen is_valid_transition_def)
qed

definition sample_service_ops :: "service_op list" where
  "sample_service_ops = [SvResume 5 (Some ''hrn_0'') None None [quiet_tick 6], SvCancel 7 (Some ''hrn_0'') None ''stop'' None]"

theorem service_settles_nothing_witness:
  "\<exists>q' y. sv_queue (fold (service_exec (\<lambda>c. True) (\<lambda>p ps. sample_class) (sample_engine 0 None)) sample_service_ops
       (sample_service claimed)) = Some q' \<and> find_task q' ''new'' = Some y \<and> t_status y \<notin> set FINAL_STATUSES"
proof -
  have engine: "honest_engine (sample_engine 0 None)" by (simp add: honest_engine_def sample_engine_def)
  have ops: "list_all undisturbed_op sample_service_ops" by (simp add: sample_service_ops_def)
  have "map_option t_status (find_task claimed ''new'') = Some status.PRECHECK" by code_simp
  then obtain x where "find_task claimed ''new'' = Some x" "t_status x \<notin> set FINAL_STATUSES"
    by (auto simp: FINAL_STATUSES_def)
  with service_settles_nothing[OF engine ops sample_service_simps(1) claimed_reachable, where i = "''new''"]
  show ?thesis by fastforce
qed

end
