(* ===== verification/HarnessScheduler.thy ===== *)
theory HarnessScheduler
  imports HarnessState
begin

text \<open>
  The task scheduler (\<open>harness_scheduler.py\<close>): the dependency closure of a target, the longest
  remaining path of every task, and the plan that orders the tasks and carries a lane's session
  from one task to the next. The search recurses on the path, so it ends on every graph; the loop of the plan
  loses a task in every round. The occupancy of a lane is a rational number.
\<close>

section \<open>Policies and nodes\<close>

record scheduling =
  sc_mode :: string
  sc_builders :: int
  sc_per_lane :: int
  sc_reuse :: bool
  sc_ceiling :: rat
  sc_planners :: int

datatype schedule_error = UnknownMode string | DependencyCycle "string list"

definition scheduler_policy :: "string \<Rightarrow> schedule_error + scheduling" where
  "scheduler_policy mode =
     (if mode = ''cost_first'' then Inr \<lparr>sc_mode = mode, sc_builders = 1, sc_per_lane = 1, sc_reuse = True,
          sc_ceiling = 85, sc_planners = 1\<rparr>
      else if mode = ''balanced'' then Inr \<lparr>sc_mode = mode, sc_builders = 2, sc_per_lane = 1, sc_reuse = True,
          sc_ceiling = 85, sc_planners = 1\<rparr>
      else if mode = ''speed_first'' then Inr \<lparr>sc_mode = mode, sc_builders = 4, sc_per_lane = 2, sc_reuse = False,
          sc_ceiling = 85, sc_planners = 1\<rparr>
      else Inl (UnknownMode (''unknown scheduling mode '' @ py_repr mode
          @ ''; expected one of cost_first, balanced, speed_first'')))"

record task_node =
  tn_lane :: string
  tn_priority :: string
  tn_depends :: "string list"
  tn_autonomous :: bool
  tn_reason :: "string option"
  tn_mode :: "string option"
  tn_infra :: "string option"

type_synonym task_graph = "(string \<times> task_node) list"

definition startable :: "task_node \<Rightarrow> bool" where
  "startable n \<longleftrightarrow> tn_autonomous n \<and> tn_infra n = None"

definition node_depends :: "task_graph \<Rightarrow> string \<Rightarrow> string list" where
  "node_depends ns t = (case map_of ns t of None \<Rightarrow> [] | Some n \<Rightarrow> tn_depends n)"

section \<open>The closure\<close>

function visit :: "task_graph \<Rightarrow> string list \<Rightarrow> string \<Rightarrow> string list \<Rightarrow> string list + string list"
  and visit_each :: "task_graph \<Rightarrow> string list \<Rightarrow> string list \<Rightarrow> string list \<Rightarrow> string list + string list" where
  \<comment> \<open>\<open>walk\<close>: the tasks on the way down, and the tasks done so far in the order they were done\<close>
  "visit ns path t ordered =
     (if t \<in> set ordered then Inr ordered
      else if t \<in> set path then Inl (dropWhile (\<lambda>x. x \<noteq> t) path @ [t])
      else case map_of ns t of
        None \<Rightarrow> Inr (ordered @ [t])
      | Some n \<Rightarrow> (case visit_each ns (path @ [t]) (tn_depends n) ordered of
            Inl cycle \<Rightarrow> Inl cycle
          | Inr ordered1 \<Rightarrow> Inr (ordered1 @ [t])))"
| "visit_each ns path [] ordered = Inr ordered"
| "visit_each ns path (d # ds) ordered =
     (case visit ns path d ordered of
        Inl cycle \<Rightarrow> Inl cycle
      | Inr ordered1 \<Rightarrow> visit_each ns path ds ordered1)"
  by pat_completeness auto

lemma unvisited_decreases:
  assumes "map_of ns t = Some n" and "t \<notin> set path"
  shows "card (fst ` set ns - insert t (set path)) < card (fst ` set ns - set path)"
proof (rule psubset_card_mono)
  have "t \<in> fst ` set ns" using map_of_SomeD[OF assms(1)] by force
  then show "fst ` set ns - insert t (set path) \<subset> fst ` set ns - set path" using assms(2) by auto
qed simp

termination visit
  by (relation "measures [\<lambda>x. case x of Inl (ns, path, t, ordered) \<Rightarrow> card (fst ` set ns - set path)
        | Inr (ns, path, ds, ordered) \<Rightarrow> card (fst ` set ns - set path),
      \<lambda>x. case x of Inl (ns, path, t, ordered) \<Rightarrow> 0 | Inr (ns, path, ds, ordered) \<Rightarrow> Suc (length ds)]")
    (auto simp: unvisited_decreases)

definition closure :: "task_graph \<Rightarrow> string \<Rightarrow> schedule_error + string list" where
  "closure ns target = (case visit ns [] target [] of Inl cycle \<Rightarrow> Inl (DependencyCycle cycle) | Inr order \<Rightarrow> Inr order)"

section \<open>The critical path\<close>

definition max_or_zero :: "int list \<Rightarrow> int" where
  "max_or_zero xs = (case xs of [] \<Rightarrow> 0 | y # ys \<Rightarrow> fold max ys y)"

definition depth_step :: "task_graph \<Rightarrow> string list \<Rightarrow> string \<Rightarrow> string \<Rightarrow> (string \<Rightarrow> int option) \<Rightarrow> string \<Rightarrow> int option" where
  "depth_step ns order target t depth =
     depth(t \<mapsto> (if t = target then 0
       else 1 + max_or_zero (map (\<lambda>d. case depth d of None \<Rightarrow> 0 | Some n \<Rightarrow> n)
              (filter (\<lambda>u. t \<in> set (node_depends ns u)) order))))"

definition depths_of :: "task_graph \<Rightarrow> string \<Rightarrow> string list \<Rightarrow> string \<Rightarrow> int option" where
  "depths_of ns target order = fold (depth_step ns order target) (rev order) (\<lambda>_. None)"

definition depth_to :: "task_graph \<Rightarrow> string \<Rightarrow> schedule_error + (string \<Rightarrow> int option)" where
  "depth_to ns target = and_then (closure ns target) (\<lambda>order. Inr (depths_of ns target order))"

definition priority_rank :: "string \<Rightarrow> int" where
  "priority_rank p = (if p = ''P0'' then 0 else if p = ''P1'' then 1 else if p = ''P2'' then 2
     else if p = ''P3'' then 3 else 9)"

definition ready_among :: "task_graph \<Rightarrow> string list \<Rightarrow> string list \<Rightarrow> string list" where
  "ready_among ns finished order = filter (\<lambda>t. t \<notin> set finished \<and> (case map_of ns t of
       None \<Rightarrow> False | Some n \<Rightarrow> set (tn_depends n) \<subseteq> set finished)) order"

definition ready :: "task_graph \<Rightarrow> string list \<Rightarrow> string \<Rightarrow> schedule_error + string list" where
  "ready ns satisfied target = and_then (closure ns target) (\<lambda>order. Inr (ready_among ns satisfied order))"

section \<open>The plan\<close>

record assignment =
  as_task :: string
  as_lane :: string
  as_mode :: "string option"
  as_reuse :: "string option"
  as_reason :: string

record plan_state =
  ps_order :: "assignment list"
  ps_deferred :: "(string \<times> string) list"
  ps_infra :: "(string \<times> string) list"
  ps_lanes :: "string \<Rightarrow> string option"
  ps_last :: "string option"
  ps_finished :: "string list"
  ps_remaining :: "string list"

definition warmth :: "scheduling \<Rightarrow> (string \<times> rat) list \<Rightarrow> plan_state \<Rightarrow> task_node \<Rightarrow> int" where
  "warmth sched occupancy st n =
     (if \<not> (sc_reuse sched \<and> tn_lane n \<noteq> []) then 2
      else if sc_ceiling sched \<le> (case map_of occupancy (tn_lane n) of None \<Rightarrow> 0 | Some p \<Rightarrow> p) then 2
      else if ps_last st = Some (tn_lane n) \<and> nonempty (ps_lanes st (tn_lane n)) then 0
      else if nonempty (ps_lanes st (tn_lane n)) then 1 else 2)"

definition best_first ::
  "task_graph \<Rightarrow> (string \<Rightarrow> int option) \<Rightarrow> (task_node \<Rightarrow> int) \<Rightarrow> string list \<Rightarrow> string list" where
  \<comment> \<open>sorting by the tuple (- depth, warmth, priority, id), as stable sorts from the last key to the first\<close>
  "best_first ns depths warm candidates =
     sort_key (\<lambda>t. - (case depths t of None \<Rightarrow> 0 | Some n \<Rightarrow> n))
      (sort_key (\<lambda>t. warm (the (map_of ns t)))
        (sort_key (\<lambda>t. priority_rank (tn_priority (the (map_of ns t)))) (sort candidates)))"

definition defer_blocked :: "task_graph \<Rightarrow> string \<Rightarrow> plan_state \<Rightarrow> plan_state" where
  "defer_blocked ns t st =
     (let n = the (map_of ns t);
          st1 = (if nonempty (tn_infra n)
            then st\<lparr>ps_infra := ps_infra st @ [(t, the (tn_infra n))], ps_deferred := ps_deferred st @ [(t, the (tn_infra n))]\<rparr>
            else st\<lparr>ps_deferred := ps_deferred st
                 @ [(t, str_or (tn_reason n) ''needs an input only a person can supply'')]\<rparr>)
      in st1\<lparr>ps_remaining := filter (\<lambda>x. x \<noteq> t) (ps_remaining st1)\<rparr>)"

definition defer_rest :: "task_graph \<Rightarrow> plan_state \<Rightarrow> plan_state" where
  "defer_rest ns st = st\<lparr>ps_deferred := ps_deferred st @ map (\<lambda>t.
     let missing = filter (\<lambda>d. d \<notin> set (ps_finished st)) (node_depends ns t)
     in (t, if missing \<noteq> [] then ''unsatisfiable dependencies: '' @ join '', '' missing
            else ''not in the definition graph'')) (sort (ps_remaining st))\<rparr>"

definition assign_task :: "scheduling \<Rightarrow> (string \<times> rat) list \<Rightarrow> task_graph \<Rightarrow> string \<Rightarrow> plan_state \<Rightarrow> plan_state" where
  "assign_task sched occupancy ns t st =
     (let n = the (map_of ns t);
          reuse = (if warmth sched occupancy st n < 2 \<and> nonempty (ps_lanes st (tn_lane n)) then ps_lanes st (tn_lane n) else None);
          a = \<lparr>as_task = t, as_lane = tn_lane n, as_mode = tn_mode n, as_reuse = reuse,
               as_reason = (case reuse of None \<Rightarrow> ''critical path''
                 | Some s \<Rightarrow> ''lane '' @ tn_lane n @ '' session opened for '' @ s
                     @ '' is still loaded with this lane's modules; only the contract is sent'')\<rparr>
      in st\<lparr>ps_order := ps_order st @ [a], ps_lanes := (ps_lanes st)(tn_lane n \<mapsto> t), ps_last := Some (tn_lane n),
          ps_finished := ps_finished st @ [t], ps_remaining := filter (\<lambda>x. x \<noteq> t) (ps_remaining st)\<rparr>)"

definition candidates_of :: "task_graph \<Rightarrow> string list \<Rightarrow> plan_state \<Rightarrow> string list" where
  "candidates_of ns order st = filter (\<lambda>t. t \<in> set (ps_remaining st)) (ready_among ns (ps_finished st) order)"

definition can_start :: "task_graph \<Rightarrow> string \<Rightarrow> bool" where
  "can_start ns t \<longleftrightarrow> (case map_of ns t of None \<Rightarrow> True | Some n \<Rightarrow> startable n)"

lemma defer_blocked_remaining [simp]:
  "ps_remaining (defer_blocked ns t st) = filter (\<lambda>x. x \<noteq> t) (ps_remaining st)"
  by (simp add: defer_blocked_def Let_def)

lemma fold_defer_remaining [simp]:
  "ps_remaining (fold (defer_blocked ns) ts st) = filter (\<lambda>x. x \<notin> set ts) (ps_remaining st)"
  by (induction ts arbitrary: st) (auto intro: filter_cong)

lemma candidates_remaining: "set (candidates_of ns order st) \<subseteq> set (ps_remaining st)"
  by (auto simp: candidates_of_def)

function plan_loop ::
  "scheduling \<Rightarrow> (string \<times> rat) list \<Rightarrow> task_graph \<Rightarrow> string list \<Rightarrow> (string \<Rightarrow> int option) \<Rightarrow> plan_state \<Rightarrow> plan_state" where
  "plan_loop sched occupancy ns order depths st =
     (let candidates = candidates_of ns order st;
          st1 = fold (defer_blocked ns) (filter (\<lambda>t. \<not> can_start ns t) candidates) st
      in if ps_remaining st = [] then st
         else if candidates = [] then defer_rest ns st
         else case best_first ns depths (warmth sched occupancy st1) (filter (can_start ns) candidates) of
             [] \<Rightarrow> plan_loop sched occupancy ns order depths st1
           | chosen # _ \<Rightarrow> plan_loop sched occupancy ns order depths (assign_task sched occupancy ns chosen st1))"
  by pat_completeness auto

lemma best_first_nil [simp]: "best_first ns depths warm ts = [] \<longleftrightarrow> ts = []"
  by (simp add: best_first_def length_0_conv[symmetric] del: length_0_conv)

lemma best_first_set [simp]: "set (best_first ns depths warm ts) = set ts"
  by (simp add: best_first_def)

lemma best_first_head: "best_first ns depths warm ts = c # cs \<Longrightarrow> c \<in> set ts"
  by (metis best_first_set list.set_intros(1))

lemma assign_remaining [simp]:
  "ps_remaining (assign_task sched occupancy ns t st) = filter (\<lambda>x. x \<noteq> t) (ps_remaining st)"
  by (simp add: assign_task_def Let_def)

termination plan_loop
proof (relation "measure (\<lambda>(sched, occupancy, ns, order, depths, st). length (ps_remaining st))", simp, goal_cases)
  case (1 sched occupancy ns order depths st candidates st1)
  then obtain t where "t \<in> set candidates" "\<not> can_start ns t"
    by (auto simp: filter_empty_conv) (metis list.set_intros(1) neq_Nil_conv)
  moreover have "set candidates \<subseteq> set (ps_remaining st)" using 1 candidates_remaining by simp
  ultimately show ?case using 1 by (auto intro!: length_filter_less)
next
  case (2 sched occupancy ns order depths st candidates st1 chosen rest)
  have "chosen \<in> set (filter (can_start ns) candidates)"
    by (rule best_first_head) (use 2 in simp)
  moreover have "set candidates \<subseteq> set (ps_remaining st)" using 2 candidates_remaining by simp
  ultimately have "chosen \<in> set (ps_remaining st1)" using 2 by auto
  then have "length (filter (\<lambda>x. x \<noteq> chosen) (ps_remaining st1)) < length (ps_remaining st1)"
    by (intro length_filter_less) auto
  moreover have "length (ps_remaining st1) \<le> length (ps_remaining st)" using 2 by simp
  ultimately show ?case by simp
qed

record plan_result =
  pl_order :: "assignment list"
  pl_deferred :: "(string \<times> string) list"
  pl_infra :: "(string \<times> string) list"
  pl_policy :: scheduling

definition plan :: "task_graph \<Rightarrow> string \<Rightarrow> string list \<Rightarrow> string \<Rightarrow> (string \<times> rat) list \<Rightarrow> schedule_error + plan_result" where
  "plan ns target satisfied mode occupancy =
     and_then (scheduler_policy mode) (\<lambda>sched.
     and_then (closure ns target) (\<lambda>order.
       let st = plan_loop sched occupancy ns order (depths_of ns target order)
             \<lparr>ps_order = [], ps_deferred = [], ps_infra = [], ps_lanes = (\<lambda>_. None), ps_last = None,
              ps_finished = satisfied, ps_remaining = filter (\<lambda>t. t \<notin> set satisfied) order\<rparr>
       in Inr \<lparr>pl_order = ps_order st, pl_deferred = ps_deferred st, pl_infra = ps_infra st, pl_policy = sched\<rparr>))"

definition session_reuses :: "plan_result \<Rightarrow> nat" where
  "session_reuses p = length (filter (\<lambda>a. as_reuse a \<noteq> None) (pl_order p))"

definition concurrency_slots :: "plan_result \<Rightarrow> int" where
  "concurrency_slots p = sc_builders (pl_policy p)"

section \<open>The closure is what the target needs\<close>

definition needs :: "task_graph \<Rightarrow> (string \<times> string) set" where
  "needs ns = {(t, d). d \<in> set (node_depends ns t)}"

definition settled :: "task_graph \<Rightarrow> string list \<Rightarrow> bool" where
  \<comment> \<open>no task twice, and every task after all it depends on\<close>
  "settled ns xs \<longleftrightarrow> distinct xs \<and> (\<forall>ys t zs. xs = ys @ t # zs \<longrightarrow> set (node_depends ns t) \<subseteq> set ys)"

definition descends :: "task_graph \<Rightarrow> string list \<Rightarrow> bool" where
  "descends ns xs \<longleftrightarrow> successively (\<lambda>t d. (t, d) \<in> needs ns) xs"

lemma settled_snoc:
  "settled ns xs \<Longrightarrow> t \<notin> set xs \<Longrightarrow> set (node_depends ns t) \<subseteq> set xs \<Longrightarrow> settled ns (xs @ [t])"
  by (auto simp: settled_def append_eq_append_conv2 Cons_eq_append_conv append_eq_Cons_conv)

lemma settled_closed:
  assumes "settled ns xs" and "(t, d) \<in> (needs ns)\<^sup>*" and "t \<in> set xs"
  shows "d \<in> set xs"
  using assms(2,3)
proof (induction rule: rtrancl_induct)
  case (step u d)
  then obtain ys zs where "xs = ys @ u # zs" by (meson split_list)
  then show ?case using assms(1) step.hyps(2) by (auto simp: settled_def needs_def)
qed

lemma visit_sound:
  "visit ns path t ordered = Inr ordered' \<Longrightarrow> settled ns ordered \<Longrightarrow> set path \<inter> set ordered = {} \<Longrightarrow>
     settled ns ordered' \<and> t \<in> set ordered' \<and> set path \<inter> set ordered' = {}
     \<and> (\<exists>zs. ordered' = ordered @ zs \<and> (\<forall>z\<in>set zs. (t, z) \<in> (needs ns)\<^sup>*))"
  "visit_each ns path ds ordered = Inr ordered' \<Longrightarrow> settled ns ordered \<Longrightarrow> set path \<inter> set ordered = {} \<Longrightarrow>
     settled ns ordered' \<and> set ds \<subseteq> set ordered' \<and> set path \<inter> set ordered' = {}
     \<and> (\<exists>zs. ordered' = ordered @ zs \<and> (\<forall>z\<in>set zs. \<exists>d\<in>set ds. (d, z) \<in> (needs ns)\<^sup>*))"
proof (induction ns path t ordered and ns path ds ordered arbitrary: ordered' and ordered' rule: visit_visit_each.induct)
  case (1 ns path t ordered)
  show ?case
  proof (cases "t \<in> set ordered")
    case True
    then show ?thesis using "1.prems" by simp
  next
    case new: False
    then have off: "t \<notin> set path" using "1.prems"(1) by (auto split: if_splits)
    show ?thesis
    proof (cases "map_of ns t")
      case None
      then have "ordered' = ordered @ [t]" "node_depends ns t = []"
        using "1.prems"(1) new off by (simp_all add: node_depends_def)
      then show ?thesis using "1.prems"(2,3) new off settled_snoc[of ns ordered t] by auto
    next
      case (Some n)
      obtain ordered1 where each: "visit_each ns (path @ [t]) (tn_depends n) ordered = Inr ordered1"
          "ordered' = ordered1 @ [t]"
        using "1.prems"(1) new off Some by (auto split: sum.splits)
      have deps: "node_depends ns t = tn_depends n" using Some by (simp add: node_depends_def)
      have below: "settled ns ordered1" "set (tn_depends n) \<subseteq> set ordered1" "set (path @ [t]) \<inter> set ordered1 = {}"
          "\<exists>zs. ordered1 = ordered @ zs \<and> (\<forall>z\<in>set zs. \<exists>d\<in>set (tn_depends n). (d, z) \<in> (needs ns)\<^sup>*)"
        using "1.IH"[OF new off Some each(1) "1.prems"(2)] "1.prems"(3) new by auto
      then obtain zs where zs: "ordered1 = ordered @ zs" "\<forall>z\<in>set zs. \<exists>d\<in>set (tn_depends n). (d, z) \<in> (needs ns)\<^sup>*"
        by blast
      have "(t, z) \<in> (needs ns)\<^sup>*" if z: "z \<in> set (zs @ [t])" for z
      proof (cases "z = t")
        case False
        then obtain d where "d \<in> set (tn_depends n)" "(d, z) \<in> (needs ns)\<^sup>*" using z zs(2) by auto
        moreover from this(1) have "(t, d) \<in> needs ns" by (simp add: needs_def deps)
        ultimately show ?thesis by (blast intro: converse_rtrancl_into_rtrancl)
      qed simp
      then have "\<exists>zs. ordered' = ordered @ zs \<and> (\<forall>z\<in>set zs. (t, z) \<in> (needs ns)\<^sup>*)"
        using each(2) zs(1) by (intro exI[of _ "zs @ [t]"]) simp
      then show ?thesis using each(2) below(1-3) settled_snoc[of ns ordered1 t] deps off by auto
    qed
  qed
next
  case (2 ns path ordered)
  then show ?case by simp
next
  case (3 ns path d ds ordered)
  obtain ordered1 where first: "visit ns path d ordered = Inr ordered1" and rest: "visit_each ns path ds ordered1 = Inr ordered'"
    using "3.prems"(1) by (auto split: sum.splits)
  have a: "settled ns ordered1" "d \<in> set ordered1" "set path \<inter> set ordered1 = {}"
      "\<exists>zs. ordered1 = ordered @ zs \<and> (\<forall>z\<in>set zs. (d, z) \<in> (needs ns)\<^sup>*)"
    using "3.IH"(1)[OF first "3.prems"(2,3)] by auto
  have b: "settled ns ordered'" "set ds \<subseteq> set ordered'" "set path \<inter> set ordered' = {}"
      "\<exists>zs. ordered' = ordered1 @ zs \<and> (\<forall>z\<in>set zs. \<exists>d\<in>set ds. (d, z) \<in> (needs ns)\<^sup>*)"
    using "3.IH"(2)[OF first rest a(1,3)] by auto
  from a(4) b(4) obtain zs zs' where "ordered1 = ordered @ zs" "\<forall>z\<in>set zs. (d, z) \<in> (needs ns)\<^sup>*"
      "ordered' = ordered1 @ zs'" "\<forall>z\<in>set zs'. \<exists>d\<in>set ds. (d, z) \<in> (needs ns)\<^sup>*" by blast
  then have "\<exists>zs. ordered' = ordered @ zs \<and> (\<forall>z\<in>set zs. \<exists>x\<in>set (d # ds). (x, z) \<in> (needs ns)\<^sup>*)"
    by (intro exI[of _ "zs @ zs'"]) auto
  with a(2) b show ?case using \<open>ordered' = ordered1 @ zs'\<close> by auto
qed

lemma descends_reach: "descends ns xs \<Longrightarrow> x \<in> set xs \<Longrightarrow> (hd xs, x) \<in> (needs ns)\<^sup>*"
proof (induction xs)
  case (Cons t xs)
  then show ?case
    by (cases xs) (auto simp: descends_def intro: converse_rtrancl_into_rtrancl)
qed simp

lemma back_edge:
  assumes "descends ns (path @ [t])" and "t \<in> set path"
  shows "descends ns (dropWhile (\<lambda>x. x \<noteq> t) path @ [t])" "2 \<le> length (dropWhile (\<lambda>x. x \<noteq> t) path @ [t])"
    "hd (dropWhile (\<lambda>x. x \<noteq> t) path @ [t]) = t"
proof -
  let ?loop = "dropWhile (\<lambda>x. x \<noteq> t) path"
  have "?loop \<noteq> []" using assms(2) by (auto simp: dropWhile_eq_Nil_conv)
  then show "2 \<le> length (?loop @ [t])" "hd (?loop @ [t]) = t"
    using hd_dropWhile[of "\<lambda>x. x \<noteq> t" path] by (cases ?loop; simp)+
  have "descends ns (takeWhile (\<lambda>x. x \<noteq> t) path @ (?loop @ [t]))"
    using assms(1) by (simp only: append_assoc[symmetric] takeWhile_dropWhile_id)
  then show "descends ns (?loop @ [t])" unfolding descends_def by (simp only: successively_append_iff)
qed

lemma visit_cycle:
  "visit ns path t ordered = Inl c \<Longrightarrow> descends ns (path @ [t]) \<Longrightarrow>
     descends ns c \<and> 2 \<le> length c \<and> hd c = last c \<and> (hd (path @ [t]), hd c) \<in> (needs ns)\<^sup>*"
  "visit_each ns path ds ordered = Inl c \<Longrightarrow> path \<noteq> [] \<Longrightarrow> descends ns path \<Longrightarrow> set ds \<subseteq> set (node_depends ns (last path)) \<Longrightarrow>
     descends ns c \<and> 2 \<le> length c \<and> hd c = last c \<and> (hd path, hd c) \<in> (needs ns)\<^sup>*"
proof (induction ns path t ordered and ns path ds ordered arbitrary: c and c rule: visit_visit_each.induct)
  case (1 ns path t ordered)
  have new: "t \<notin> set ordered" using "1.prems"(1) by auto
  show ?case
  proof (cases "t \<in> set path")
    case True
    then have "c = dropWhile (\<lambda>x. x \<noteq> t) path @ [t]" using "1.prems"(1) new by simp
    then show ?thesis using back_edge[OF "1.prems"(2) True] descends_reach[OF "1.prems"(2), of t] by simp
  next
    case off: False
    then obtain n where n: "map_of ns t = Some n" using "1.prems"(1) new by (cases "map_of ns t") auto
    then have "visit_each ns (path @ [t]) (tn_depends n) ordered = Inl c"
      using "1.prems"(1) new off by (auto split: sum.splits)
    then have "descends ns c \<and> 2 \<le> length c \<and> hd c = last c \<and> (hd (path @ [t]), hd c) \<in> (needs ns)\<^sup>*"
      by (rule "1.IH"[OF new off n]) (use "1.prems"(2) n in \<open>simp_all add: node_depends_def\<close>)
    then show ?thesis .
  qed
next
  case (2 ns path ordered)
  then show ?case by simp
next
  case (3 ns path d ds ordered)
  show ?case
  proof (cases "visit ns path d ordered")
    case (Inl c')
    then have c: "visit ns path d ordered = Inl c" using "3.prems"(1) by simp
    have "descends ns (path @ [d])"
      using "3.prems"(2-4) by (simp add: descends_def successively_append_iff needs_def)
    from "3.IH"(1)[OF c this] show ?thesis unfolding hd_append2[OF "3.prems"(2)] .
  next
    case (Inr ordered1)
    have "descends ns c \<and> 2 \<le> length c \<and> hd c = last c \<and> (hd path, hd c) \<in> (needs ns)\<^sup>*"
      by (rule "3.IH"(2)[OF Inr]) (use Inr "3.prems" in simp_all)
    then show ?thesis .
  qed
qed

lemma visit_last: "visit ns path t [] = Inr ordered \<Longrightarrow> ordered \<noteq> [] \<and> last ordered = t"
  by (auto split: if_splits option.splits sum.splits)

lemma closure_order:
  assumes "closure ns target = Inr order"
  shows "settled ns order" and "set order = {t. (target, t) \<in> (needs ns)\<^sup>*}" and "order \<noteq> []" and "last order = target"
proof -
  have v: "visit ns [] target [] = Inr order" using assms by (auto simp: closure_def split: sum.splits)
  have s: "settled ns order \<and> target \<in> set order \<and> (\<exists>zs. order = [] @ zs \<and> (\<forall>z\<in>set zs. (target, z) \<in> (needs ns)\<^sup>*))"
    using visit_sound(1)[OF v] by (simp add: settled_def)
  then show "settled ns order" "set order = {t. (target, t) \<in> (needs ns)\<^sup>*}"
    using settled_closed[of ns order target] by auto
  show "order \<noteq> []" "last order = target" using visit_last[OF v] by simp_all
qed

section \<open>Depths are longest routes\<close>

inductive route :: "task_graph \<Rightarrow> string \<Rightarrow> int \<Rightarrow> string \<Rightarrow> bool" for ns target where
  here: "route ns target 0 target"
| down: "route ns target n u \<Longrightarrow> (u, t) \<in> needs ns \<Longrightarrow> route ns target (n + 1) t"

inductive_cases route_cases: "route ns target n t"

definition longest_route :: "task_graph \<Rightarrow> string \<Rightarrow> string \<Rightarrow> int \<Rightarrow> bool" where
  "longest_route ns target t n \<longleftrightarrow> route ns target n t \<and> (\<forall>m. route ns target m t \<longrightarrow> m \<le> n)"

lemma route_reach: "route ns target n t \<Longrightarrow> (target, t) \<in> (needs ns)\<^sup>* \<and> 0 \<le> n"
  by (induction rule: route.induct) auto

lemma max_or_zero_Max: "xs \<noteq> [] \<Longrightarrow> max_or_zero xs = Max (set xs)"
  by (cases xs) (auto simp: max_or_zero_def Max.set_eq_fold simp del: list.set)

lemma max_or_zero_in: "xs \<noteq> [] \<Longrightarrow> max_or_zero xs \<in> set xs"
  by (simp add: max_or_zero_Max)

lemma max_or_zero_upper: "x \<in> set xs \<Longrightarrow> x \<le> max_or_zero xs"
  by (cases "xs = []") (simp_all add: max_or_zero_Max)

lemma settled_needs: "settled ns (ys @ t # zs) \<Longrightarrow> (t, d) \<in> needs ns \<Longrightarrow> d \<in> set ys"
  unfolding settled_def needs_def by blast

lemma dependent_after:
  assumes "settled ns (xs @ h # ys)" and "u \<in> set (xs @ h # ys)" and "(u, h) \<in> needs ns"
  shows "u \<in> set ys"
proof (rule ccontr)
  assume "u \<notin> set ys"
  with assms(2) have "u \<in> set (xs @ [h])" by auto
  then obtain a b where "xs @ [h] = a @ u # b" by (meson split_list)
  then have whole: "xs @ h # ys = a @ u # (b @ ys)" by (metis append.assoc append_Cons append_Nil)
  then have "h \<in> set a" using settled_needs[of ns a u "b @ ys" h] assms(1,3) by (simp only: whole)
  moreover have "h \<in> set (u # b)" using \<open>xs @ [h] = a @ u # b\<close> by (metis last_appendR last_in_set last_snoc list.distinct(1))
  moreover have "distinct (a @ u # b)" using assms(1) unfolding whole by (auto simp: settled_def)
  ultimately show False by auto
qed

lemma target_needed_by_none:
  assumes "closure ns target = Inr order" and "(target, u) \<in> (needs ns)\<^sup>*"
  shows "(u, target) \<notin> needs ns"
proof
  assume "(u, target) \<in> needs ns"
  note order = closure_order[OF assms(1)]
  have "order = butlast order @ target # []" using order(3,4) by (metis append_butlast_last_id)
  then have "u \<in> set []" using dependent_after[of ns "butlast order" target "[]" u] order(1,2) assms(2) \<open>(u, target) \<in> needs ns\<close>
    by (metis mem_Collect_eq)
  then show False by simp
qed

lemma depth_chain:
  assumes "closure ns target = Inr order" and "order = xs @ ys"
  shows "t \<in> set ys \<Longrightarrow> \<exists>n. foldr (depth_step ns order target) ys (\<lambda>_. None) t = Some n \<and> longest_route ns target t n"
    and "t \<notin> set ys \<Longrightarrow> foldr (depth_step ns order target) ys (\<lambda>_. None) t = None"
proof -
  let ?D = "\<lambda>ys. foldr (depth_step ns order target) ys (\<lambda>_. None)"
  note order = closure_order[OF assms(1)]
  have "(t \<in> set ys \<longrightarrow> (\<exists>n. ?D ys t = Some n \<and> longest_route ns target t n)) \<and> (t \<notin> set ys \<longrightarrow> ?D ys t = None)" for t
    using assms(2)
  proof (induction ys arbitrary: xs t)
    case (Cons h ys)
    have pos: "order = (xs @ [h]) @ ys" using Cons.prems by simp
    note IH = Cons.IH[OF pos]
    have head: "\<exists>n. ?D (h # ys) h = Some n \<and> longest_route ns target h n"
    proof (cases "h = target")
      case True
      have "m \<le> 0" if "route ns target m target" for m
        using that target_needed_by_none[OF assms(1)] route_reach by (cases rule: route_cases) auto
      then show ?thesis using True by (simp add: depth_step_def longest_route_def route.here)
    next
      case False
      let ?users = "filter (\<lambda>u. h \<in> set (node_depends ns u)) order"
      let ?val = "\<lambda>u. case ?D ys u of None \<Rightarrow> 0 | Some n \<Rightarrow> n"
      have users: "u \<in> set ?users \<longleftrightarrow> (target, u) \<in> (needs ns)\<^sup>* \<and> (u, h) \<in> needs ns" for u
        using order(2) by (auto simp: needs_def)
      have val: "longest_route ns target u (?val u)" if "u \<in> set ?users" for u
      proof -
        have "u \<in> set order" "(u, h) \<in> needs ns" using that by (simp_all add: needs_def)
        then have "u \<in> set ys" using dependent_after[of ns xs h ys u] order(1) by (simp only: Cons.prems)
        then show ?thesis using IH[of u] by auto
      qed
      have "(target, h) \<in> (needs ns)\<^sup>*" using order(2) Cons.prems by auto
      then obtain u where "(target, u) \<in> (needs ns)\<^sup>*" "(u, h) \<in> needs ns" using False by (metis rtranclE)
      then have "map ?val ?users \<noteq> []" using users[of u] by (auto simp: filter_empty_conv)
      from max_or_zero_in[OF this] have "max_or_zero (map ?val ?users) \<in> ?val ` set ?users" by (simp only: set_map)
      then obtain v where v: "v \<in> set ?users" "max_or_zero (map ?val ?users) = ?val v" by (elim imageE)
      have top: "?val u \<le> ?val v" if "u \<in> set ?users" for u
        unfolding v(2)[symmetric] by (rule max_or_zero_upper) (use that in simp)
      have "route ns target (?val v + 1) h" using val[OF v(1)] users[of v] v(1) by (auto simp: longest_route_def intro: route.down)
      moreover have "m \<le> ?val v + 1" if "route ns target m h" for m
        using that
      proof (cases rule: route.cases)
        case here
        then show ?thesis using False by simp
      next
        case (down n u)
        then have u: "u \<in> set ?users" using users[of u] route_reach[of ns target n u] by simp
        then have "n \<le> ?val u" using val[OF u] down by (simp add: longest_route_def)
        then show ?thesis using top[OF u] down by simp
      qed
      ultimately show ?thesis using False v(2) by (simp add: depth_step_def longest_route_def add.commute)
    qed
    moreover have "?D (h # ys) t = ?D ys t" if "t \<noteq> h" using that by (simp add: depth_step_def)
    ultimately show ?case by (cases "t = h") (use IH[of t] in \<open>simp_all del: foldr_Cons\<close>)
  qed simp
  then show "t \<in> set ys \<Longrightarrow> \<exists>n. ?D ys t = Some n \<and> longest_route ns target t n" "t \<notin> set ys \<Longrightarrow> ?D ys t = None"
    by blast+
qed

lemma depths_longest:
  assumes "closure ns target = Inr order"
  shows "t \<in> set order \<Longrightarrow> \<exists>n. depths_of ns target order t = Some n \<and> longest_route ns target t n"
    and "t \<notin> set order \<Longrightarrow> depths_of ns target order t = None"
  using depth_chain[OF assms, of "[]" order t] by (simp_all add: depths_of_def foldr_conv_fold)

section \<open>The loop of the plan\<close>

definition tasks_of :: "assignment list \<Rightarrow> string set" where
  "tasks_of as = as_task ` set as"

definition lane_session :: "assignment list \<Rightarrow> string \<Rightarrow> string option" where
  \<comment> \<open>the task last assigned to a lane\<close>
  "lane_session as lane = (let ys = filter (\<lambda>a. as_lane a = lane) as in if ys = [] then None else Some (as_task (last ys)))"

definition may_start :: "task_graph \<Rightarrow> string set \<Rightarrow> string \<Rightarrow> bool" where
  \<comment> \<open>in the graph, startable, and everything it depends on is there\<close>
  "may_start ns have t \<longleftrightarrow> (\<exists>n. map_of ns t = Some n \<and> startable n \<and> set (tn_depends n) \<subseteq> have)"

definition depth_of :: "(string \<Rightarrow> int option) \<Rightarrow> string \<Rightarrow> int" where
  "depth_of depths t = (case depths t of None \<Rightarrow> 0 | Some n \<Rightarrow> n)"

definition plan_ok ::
  "scheduling \<Rightarrow> (string \<times> rat) list \<Rightarrow> task_graph \<Rightarrow> string list \<Rightarrow> string list \<Rightarrow> (string \<Rightarrow> int option)
   \<Rightarrow> plan_state \<Rightarrow> bool" where
  "plan_ok sched occupancy ns order satisfied depths st \<longleftrightarrow>
     distinct (map as_task (ps_order st) @ map fst (ps_deferred st) @ ps_remaining st)
   \<and> set (map as_task (ps_order st) @ map fst (ps_deferred st) @ ps_remaining st) = set order - set satisfied
   \<and> set (ps_finished st) = set satisfied \<union> tasks_of (ps_order st)
   \<and> ps_lanes st = lane_session (ps_order st)
   \<and> (\<forall>xs a ys. ps_order st = xs @ a # ys \<longrightarrow>
        may_start ns (set satisfied \<union> tasks_of xs) (as_task a)
      \<and> (\<forall>t. t \<in> tasks_of ys \<or> t \<in> set (ps_remaining st) \<longrightarrow> may_start ns (set satisfied \<union> tasks_of xs) t \<longrightarrow>
           depth_of depths t \<le> depth_of depths (as_task a))
      \<and> (\<forall>s. as_reuse a = Some s \<longrightarrow> lane_session xs (as_lane a) = Some s \<and> as_lane a \<noteq> [] \<and> sc_reuse sched
           \<and> (case map_of occupancy (as_lane a) of None \<Rightarrow> 0 | Some p \<Rightarrow> p) < sc_ceiling sched))"

lemma defer_blocked_frame [simp]:
  "ps_order (defer_blocked ns t st) = ps_order st" "ps_lanes (defer_blocked ns t st) = ps_lanes st"
  "ps_finished (defer_blocked ns t st) = ps_finished st"
  "map fst (ps_deferred (defer_blocked ns t st)) = map fst (ps_deferred st) @ [t]"
  by (simp_all add: defer_blocked_def Let_def)

lemma plan_ok_defer:
  assumes "plan_ok sched occupancy ns order satisfied depths st" and "t \<in> set (ps_remaining st)"
  shows "plan_ok sched occupancy ns order satisfied depths (defer_blocked ns t st)"
proof -
  have "distinct (ps_remaining st)" using assms(1) by (simp add: plan_ok_def)
  then show ?thesis using assms
    unfolding plan_ok_def defer_blocked_frame defer_blocked_remaining
    by (intro conjI) (auto simp del: map_eq_conv)
qed

lemma fold_defer_frame [simp]:
  "ps_order (fold (defer_blocked ns) ts st) = ps_order st" "ps_lanes (fold (defer_blocked ns) ts st) = ps_lanes st"
  "ps_finished (fold (defer_blocked ns) ts st) = ps_finished st"
  by (induction ts arbitrary: st) simp_all

lemma plan_ok_defer_all:
  "plan_ok sched occupancy ns order satisfied depths st \<Longrightarrow> distinct ts \<Longrightarrow> set ts \<subseteq> set (ps_remaining st) \<Longrightarrow>
   plan_ok sched occupancy ns order satisfied depths (fold (defer_blocked ns) ts st)"
proof (induction ts arbitrary: st)
  case (Cons t ts)
  then have "plan_ok sched occupancy ns order satisfied depths (defer_blocked ns t st)" by (intro plan_ok_defer) simp_all
  moreover have "set ts \<subseteq> set (ps_remaining (defer_blocked ns t st))" using Cons.prems by auto
  ultimately show ?case using Cons.IH Cons.prems(2) by simp
qed simp

lemma lane_session_snoc: "lane_session (as @ [a]) = (lane_session as)(as_lane a \<mapsto> as_task a)"
  by (simp add: lane_session_def fun_eq_iff Let_def)

lemma assign_frame:
  "map as_task (ps_order (assign_task sched occupancy ns t st)) = map as_task (ps_order st) @ [t]"
  "ps_deferred (assign_task sched occupancy ns t st) = ps_deferred st"
  "ps_finished (assign_task sched occupancy ns t st) = ps_finished st @ [t]"
  "\<exists>a. ps_order (assign_task sched occupancy ns t st) = ps_order st @ [a] \<and> as_task a = t
     \<and> ps_lanes (assign_task sched occupancy ns t st) = (ps_lanes st)(as_lane a \<mapsto> t)
     \<and> (\<forall>s. as_reuse a = Some s \<longrightarrow> ps_lanes st (as_lane a) = Some s \<and> as_lane a \<noteq> [] \<and> sc_reuse sched
          \<and> (case map_of occupancy (as_lane a) of None \<Rightarrow> 0 | Some p \<Rightarrow> p) < sc_ceiling sched)"
  by (auto simp: assign_task_def Let_def warmth_def split: if_splits)

lemma plan_ok_assign:
  assumes "plan_ok sched occupancy ns order satisfied depths st" and "t \<in> set (ps_remaining st)"
    and "may_start ns (set (ps_finished st)) t"
    and "\<And>u. u \<in> set (ps_remaining st) \<Longrightarrow> may_start ns (set (ps_finished st)) u \<Longrightarrow> depth_of depths u \<le> depth_of depths t"
  shows "plan_ok sched occupancy ns order satisfied depths (assign_task sched occupancy ns t st)"
proof -
  let ?st = "assign_task sched occupancy ns t st"
  obtain a where a: "ps_order ?st = ps_order st @ [a]" "as_task a = t" "ps_lanes ?st = (ps_lanes st)(as_lane a \<mapsto> t)"
      "\<forall>s. as_reuse a = Some s \<longrightarrow> ps_lanes st (as_lane a) = Some s \<and> as_lane a \<noteq> [] \<and> sc_reuse sched
          \<and> (case map_of occupancy (as_lane a) of None \<Rightarrow> 0 | Some p \<Rightarrow> p) < sc_ceiling sched"
    using assign_frame(4) by blast
  have ok: "distinct (map as_task (ps_order st) @ map fst (ps_deferred st) @ ps_remaining st)"
      "set (map as_task (ps_order st) @ map fst (ps_deferred st) @ ps_remaining st) = set order - set satisfied"
      "set (ps_finished st) = set satisfied \<union> tasks_of (ps_order st)" "ps_lanes st = lane_session (ps_order st)"
    using assms(1) unfolding plan_ok_def by blast+
  show ?thesis
    unfolding plan_ok_def
  proof (intro conjI allI impI)
    show "distinct (map as_task (ps_order ?st) @ map fst (ps_deferred ?st) @ ps_remaining ?st)"
      using ok(1) assms(2) by (auto simp: assign_frame(1,2))
    show "set (map as_task (ps_order ?st) @ map fst (ps_deferred ?st) @ ps_remaining ?st) = set order - set satisfied"
      unfolding ok(2)[symmetric] assign_frame(1,2) assign_remaining using assms(2) by auto
    show "set (ps_finished ?st) = set satisfied \<union> tasks_of (ps_order ?st)"
      using ok(3) by (auto simp: assign_frame(3) a(1,2) tasks_of_def)
    show "ps_lanes ?st = lane_session (ps_order ?st)"
      by (simp add: a ok(4) lane_session_snoc)
  next
    fix xs b ys
    assume split: "ps_order ?st = xs @ b # ys"
    consider (old) zs where "ps_order st = xs @ b # zs" "ys = zs @ [a]" | (new) "ps_order st = xs" "b = a" "ys = []"
      using split unfolding a(1) by (cases ys rule: rev_cases) auto
    note cases = this
    have inv: "may_start ns (set satisfied \<union> tasks_of xs) (as_task b)
      \<and> (\<forall>u. u \<in> tasks_of zs \<or> u \<in> set (ps_remaining st) \<longrightarrow> may_start ns (set satisfied \<union> tasks_of xs) u \<longrightarrow>
           depth_of depths u \<le> depth_of depths (as_task b))
      \<and> (\<forall>s. as_reuse b = Some s \<longrightarrow> lane_session xs (as_lane b) = Some s \<and> as_lane b \<noteq> [] \<and> sc_reuse sched
           \<and> (case map_of occupancy (as_lane b) of None \<Rightarrow> 0 | Some p \<Rightarrow> p) < sc_ceiling sched)"
      if "ps_order st = xs @ b # zs" for zs
      using assms(1) that unfolding plan_ok_def by blast
    show "may_start ns (set satisfied \<union> tasks_of xs) (as_task b)"
      using cases
    proof cases
      case old
      then show ?thesis using inv by blast
    next
      case new
      then show ?thesis using assms(3) ok(3) a(2) by simp
    qed
    show "depth_of depths u \<le> depth_of depths (as_task b)"
      if u: "u \<in> tasks_of ys \<or> u \<in> set (ps_remaining ?st)" "may_start ns (set satisfied \<union> tasks_of xs) u" for u
      using cases
    proof cases
      case (old zs)
      then have "u \<in> tasks_of zs \<or> u \<in> set (ps_remaining st)"
        using u(1) assms(2) a(2) by (auto simp: tasks_of_def)
      then show ?thesis using inv[OF old(1)] u(2) by blast
    next
      case new
      then show ?thesis using assms(4)[of u] u ok(3) a(2) by (auto simp: tasks_of_def)
    qed
    have reuse: "lane_session xs (as_lane b) = Some s \<and> as_lane b \<noteq> [] \<and> sc_reuse sched
        \<and> (case map_of occupancy (as_lane b) of None \<Rightarrow> 0 | Some p \<Rightarrow> p) < sc_ceiling sched" if s: "as_reuse b = Some s" for s
      using cases
    proof cases
      case (old zs)
      then show ?thesis using inv[OF old(1)] s by blast
    next
      case new
      then show ?thesis using a(4) s unfolding ok(4) by blast
    qed
    fix s
    assume "as_reuse b = Some s"
    from reuse[OF this] show "lane_session xs (as_lane b) = Some s" "as_lane b \<noteq> []" "sc_reuse sched"
      "(case map_of occupancy (as_lane b) of None \<Rightarrow> 0 | Some p \<Rightarrow> p) < sc_ceiling sched"
      by blast+
  qed
qed

lemma sort_key_head: "sort_key f xs = c # cs \<Longrightarrow> x \<in> set xs \<Longrightarrow> f c \<le> f x"
proof -
  assume head: "sort_key f xs = c # cs" and x: "x \<in> set xs"
  have "sorted (map f (c # cs))" using sorted_sort_key[of f xs] by (simp only: head)
  moreover have "x \<in> set (c # cs)" using x by (simp only: head[symmetric] set_sort)
  ultimately show ?thesis by auto
qed

lemma best_first_depth: "best_first ns depths warm ts = c # cs \<Longrightarrow> t \<in> set ts \<Longrightarrow> depth_of depths t \<le> depth_of depths c"
  unfolding best_first_def depth_of_def by (drule sort_key_head[where x = t]) auto

lemma candidates_may_start:
  assumes "plan_ok sched occupancy ns order satisfied depths st"
  shows "t \<in> set (candidates_of ns order st) \<and> can_start ns t \<longleftrightarrow> t \<in> set (ps_remaining st) \<and> may_start ns (set (ps_finished st)) t"
proof -
  have "set (ps_remaining st) \<subseteq> set order" "set (ps_remaining st) \<inter> set (ps_finished st) = {}"
    using assms by (auto simp: plan_ok_def tasks_of_def)
  then show ?thesis
    by (auto simp: candidates_of_def ready_among_def can_start_def may_start_def split: option.split)
qed

definition plan_done ::
  "scheduling \<Rightarrow> (string \<times> rat) list \<Rightarrow> task_graph \<Rightarrow> string list \<Rightarrow> string list \<Rightarrow> (string \<Rightarrow> int option)
   \<Rightarrow> plan_state \<Rightarrow> bool" where
  \<comment> \<open>the invariant, with nothing left over and nothing deferred that could start\<close>
  "plan_done sched occupancy ns order satisfied depths st \<longleftrightarrow>
     plan_ok sched occupancy ns order satisfied depths (st\<lparr>ps_remaining := []\<rparr>)
   \<and> (\<forall>t\<in>set (map fst (ps_deferred st)). \<not> may_start ns (set satisfied \<union> tasks_of (ps_order st)) t)"

definition never_starts :: "task_graph \<Rightarrow> string \<Rightarrow> bool" where
  "never_starts ns t \<longleftrightarrow> (\<forall>have. \<not> may_start ns have t)"

lemma blocked_never_starts: "\<not> can_start ns t \<Longrightarrow> never_starts ns t"
  by (auto simp: can_start_def never_starts_def may_start_def split: option.splits)

lemma fold_defer_deferred: "map fst (ps_deferred (fold (defer_blocked ns) ts st)) = map fst (ps_deferred st) @ ts"
  by (induction ts arbitrary: st) simp_all

lemma plan_done_rest:
  assumes "plan_ok sched occupancy ns order satisfied depths st" and "list_all (never_starts ns) (map fst (ps_deferred st))"
    and "candidates_of ns order st = []"
  shows "plan_done sched occupancy ns order satisfied depths (defer_rest ns st)"
proof -
  have rows: "map fst (ps_deferred (defer_rest ns st)) = map fst (ps_deferred st) @ sort (ps_remaining st)"
      "ps_order (defer_rest ns st) = ps_order st" "ps_lanes (defer_rest ns st) = ps_lanes st"
      "ps_finished (defer_rest ns st) = ps_finished st"
    by (simp_all add: defer_rest_def Let_def comp_def)
  have "\<not> may_start ns (set (ps_finished st)) t" if "t \<in> set (ps_remaining st)" for t
    using candidates_may_start[OF assms(1), of t] assms(3) that by simp
  moreover have "set (ps_finished st) = set satisfied \<union> tasks_of (ps_order st)" using assms(1) by (simp add: plan_ok_def)
  ultimately have "\<forall>t\<in>set (map fst (ps_deferred (defer_rest ns st))). \<not> may_start ns (set satisfied \<union> tasks_of (ps_order st)) t"
    unfolding rows using assms(2) by (auto simp: never_starts_def list_all_iff)
  moreover have "plan_ok sched occupancy ns order satisfied depths (defer_rest ns st\<lparr>ps_remaining := []\<rparr>)"
    using assms(1) by (auto simp: plan_ok_def rows)
  ultimately show ?thesis by (simp add: plan_done_def rows)
qed

lemma plan_loop_done:
  "plan_ok sched occupancy ns order satisfied depths st \<Longrightarrow> distinct order \<Longrightarrow>
   list_all (never_starts ns) (map fst (ps_deferred st)) \<Longrightarrow>
   plan_done sched occupancy ns order satisfied depths (plan_loop sched occupancy ns order depths st)"
proof (induction sched occupancy ns order depths st rule: plan_loop.induct)
  case (1 sched occupancy ns order depths st)
  let ?cands = "candidates_of ns order st"
  let ?blocked = "filter (\<lambda>t. \<not> can_start ns t) ?cands"
  let ?st1 = "fold (defer_blocked ns) ?blocked st"
  let ?best = "best_first ns depths (warmth sched occupancy ?st1) (filter (can_start ns) ?cands)"
  have step: "plan_loop sched occupancy ns order depths st =
     (if ps_remaining st = [] then st else if ?cands = [] then defer_rest ns st
      else case ?best of [] \<Rightarrow> plan_loop sched occupancy ns order depths ?st1
        | chosen # _ \<Rightarrow> plan_loop sched occupancy ns order depths (assign_task sched occupancy ns chosen ?st1))"
    by (subst plan_loop.simps) (simp add: Let_def)
  have "distinct ?cands" using "1.prems"(2) by (simp add: candidates_of_def ready_among_def)
  then have ok1: "plan_ok sched occupancy ns order satisfied depths ?st1"
    using candidates_remaining[of ns order st] by (intro plan_ok_defer_all "1.prems"(1)) auto
  have deferred1: "list_all (never_starts ns) (map fst (ps_deferred ?st1))"
    using "1.prems"(3) unfolding fold_defer_deferred by (auto simp: list_all_iff intro: blocked_never_starts)
  show ?case
  proof (cases "ps_remaining st = [] \<or> ?cands = []")
    case True
    then show ?thesis
    proof (cases "ps_remaining st = []")
      case True
      then have "plan_ok sched occupancy ns order satisfied depths (st\<lparr>ps_remaining := []\<rparr>)"
        using "1.prems"(1) by (simp add: plan_ok_def)
      then show ?thesis using True "1.prems"(3) by (simp add: step plan_done_def list_all_iff never_starts_def)
    next
      case False
      with True show ?thesis using plan_done_rest[OF "1.prems"(1,3)] by (simp add: step)
    qed
  next
    case going: False
    show ?thesis
    proof (cases ?best)
      case Nil
      then have eq: "plan_loop sched occupancy ns order depths st = plan_loop sched occupancy ns order depths ?st1"
        unfolding step Nil list.case using going by (simp del: plan_loop.simps)
      show ?thesis unfolding eq
        by (rule "1.IH"(1)[OF refl refl _ _ Nil ok1 "1.prems"(2) deferred1]) (use going in simp_all)
    next
      case (Cons chosen rest)
      have chosen: "chosen \<in> set ?cands" "can_start ns chosen" using best_first_head[OF Cons] by simp_all
      have open_tasks: "t \<in> set (filter (can_start ns) ?cands)"
        if "t \<in> set (ps_remaining ?st1)" "may_start ns (set (ps_finished ?st1)) t" for t
        using candidates_may_start[OF "1.prems"(1), of t] that by auto
      have "plan_ok sched occupancy ns order satisfied depths (assign_task sched occupancy ns chosen ?st1)"
      proof (rule plan_ok_assign[OF ok1])
        show "chosen \<in> set (ps_remaining ?st1)" "may_start ns (set (ps_finished ?st1)) chosen"
          using candidates_may_start[OF "1.prems"(1), of chosen] chosen by auto
        show "depth_of depths u \<le> depth_of depths chosen"
          if "u \<in> set (ps_remaining ?st1)" "may_start ns (set (ps_finished ?st1)) u" for u
          by (rule best_first_depth[OF Cons open_tasks[OF that]])
      qed
      moreover have "list_all (never_starts ns) (map fst (ps_deferred (assign_task sched occupancy ns chosen ?st1)))"
        using deferred1 by (simp add: assign_frame(2))
      moreover have eq: "plan_loop sched occupancy ns order depths st
          = plan_loop sched occupancy ns order depths (assign_task sched occupancy ns chosen ?st1)"
        unfolding step Cons list.case using going by (simp del: plan_loop.simps)
      ultimately show ?thesis unfolding eq
        by (intro "1.IH"(2)[OF refl refl _ _ Cons _ "1.prems"(2)]) (use going in simp_all)
    qed
  qed
qed

lemma plan_start:
  "distinct order \<Longrightarrow> plan_ok sched occupancy ns order satisfied depths
     \<lparr>ps_order = [], ps_deferred = [], ps_infra = [], ps_lanes = (\<lambda>_. None), ps_last = None,
      ps_finished = satisfied, ps_remaining = filter (\<lambda>t. t \<notin> set satisfied) order\<rparr>"
  by (auto simp: plan_ok_def tasks_of_def lane_session_def fun_eq_iff)

lemma plan_outcome:
  assumes "plan ns target satisfied mode occupancy = Inr p"
  obtains order st where "closure ns target = Inr order" "scheduler_policy mode = Inr (pl_policy p)"
    "plan_done (pl_policy p) occupancy ns order satisfied (depths_of ns target order) st"
    "pl_order p = ps_order st" "pl_deferred p = ps_deferred st"
proof -
  obtain sched where sched: "scheduler_policy mode = Inr sched" using assms by (auto simp: plan_def and_then_def split: sum.splits)
  then obtain order where order: "closure ns target = Inr order" using assms by (auto simp: plan_def and_then_def split: sum.splits)
  have "distinct order" using closure_order(1)[OF order] by (simp add: settled_def)
  from plan_loop_done[OF plan_start[OF this] this] that[OF order] sched order assms
  show ?thesis by (force simp: plan_def and_then_def Let_def)
qed

lemma policy_reuses:
  "scheduler_policy mode = Inr sched \<Longrightarrow> sc_reuse sched \<Longrightarrow> mode \<noteq> ''speed_first'' \<and> sc_ceiling sched = 85"
  by (auto simp: scheduler_policy_def split: if_splits)

section \<open>Properties\<close>

text \<open>
  C32: The closure of a target is exact and ends on every graph. It is an order without repetition of just the
  tasks the target transitively needs, each after all it depends on, the target last; or it is an error that
  names a genuine cycle of dependencies the target leads to.
\<close>

theorem closure_exact:
  "case closure ns target of
     Inr order \<Rightarrow> settled ns order \<and> set order = {t. (target, t) \<in> (needs ns)\<^sup>*} \<and> last order = target
   | Inl e \<Rightarrow> \<exists>c. e = DependencyCycle c \<and> descends ns c \<and> 2 \<le> length c \<and> hd c = last c
       \<and> (target, hd c) \<in> (needs ns)\<^sup>*"
proof (cases "visit ns [] target []")
  case (Inl c)
  have "descends ns ([] @ [target])" by (simp add: descends_def)
  from visit_cycle(1)[OF Inl this]
  have cycle: "descends ns c \<and> 2 \<le> length c \<and> hd c = last c \<and> (target, hd c) \<in> (needs ns)\<^sup>*"
    unfolding append_Nil list.sel .
  have "closure ns target = Inl (DependencyCycle c)" by (simp only: closure_def Inl sum.case)
  then show ?thesis unfolding \<open>closure ns target = Inl (DependencyCycle c)\<close> sum.case
    by (intro exI[of _ c] conjI[OF refl cycle])
next
  case (Inr order)
  then have "closure ns target = Inr order" by (simp add: closure_def)
  from closure_order[OF this] this show ?thesis by simp
qed

text \<open>
  The depth of a task is the length of the longest chain of dependencies from the target down to it, and
  just the tasks the target needs have one.
\<close>

theorem depth_is_longest_route:
  assumes "depth_to ns target = Inr depth"
  shows "if (target, t) \<in> (needs ns)\<^sup>* then \<exists>n. depth t = Some n \<and> longest_route ns target t n else depth t = None"
proof -
  obtain order where order: "closure ns target = Inr order" "depth = depths_of ns target order"
    using assms by (auto simp: depth_to_def and_then_def split: sum.splits)
  show ?thesis using depths_longest[OF order(1), of t] closure_order(2)[OF order(1)] by (simp add: order(2))
qed

text \<open>
  C33: A plan accounts for every task and fakes none. The tasks the target needs and that are not satisfied are
  each ordered once or deferred once. An ordered task can be started by then: it is in the graph, needs no
  human and no missing tool, and all it depends on is satisfied or ordered before. A deferred task cannot be
  started even after everything that is ordered.
\<close>

theorem plan_accounts_for_every_task:
  assumes "plan ns target satisfied mode occupancy = Inr p"
  shows "distinct (map as_task (pl_order p) @ map fst (pl_deferred p))
    \<and> set (map as_task (pl_order p) @ map fst (pl_deferred p)) = {t. (target, t) \<in> (needs ns)\<^sup>*} - set satisfied
    \<and> (\<forall>xs a ys. pl_order p = xs @ a # ys \<longrightarrow> may_start ns (set satisfied \<union> tasks_of xs) (as_task a))
    \<and> (\<forall>t\<in>set (map fst (pl_deferred p)). \<not> may_start ns (set satisfied \<union> tasks_of (pl_order p)) t)"
proof -
  obtain order st where st: "closure ns target = Inr order"
    "plan_done (pl_policy p) occupancy ns order satisfied (depths_of ns target order) st"
    "pl_order p = ps_order st" "pl_deferred p = ps_deferred st"
    using plan_outcome[OF assms] by blast
  then show ?thesis
    unfolding plan_done_def plan_ok_def closure_order(2)[OF st(1), symmetric] by simp
qed

text \<open>
  C34: The critical path comes first. When a task is ordered, no task that is ordered later and could have been
  started then has a longer chain of dependencies down from the target.
\<close>

theorem plan_follows_critical_path:
  assumes "plan ns target satisfied mode occupancy = Inr p" and "pl_order p = xs @ a # ys" and "b \<in> set ys"
    and "may_start ns (set satisfied \<union> tasks_of xs) (as_task b)"
  shows "\<exists>m n. longest_route ns target (as_task b) m \<and> longest_route ns target (as_task a) n \<and> m \<le> n"
proof -
  obtain order st where st: "closure ns target = Inr order"
    "plan_done (pl_policy p) occupancy ns order satisfied (depths_of ns target order) st" "pl_order p = ps_order st"
    using plan_outcome[OF assms(1)] by blast
  have ok: "plan_ok (pl_policy p) occupancy ns order satisfied (depths_of ns target order) (st\<lparr>ps_remaining := []\<rparr>)"
    using st(2) by (simp add: plan_done_def)
  then have le: "depth_of (depths_of ns target order) (as_task b) \<le> depth_of (depths_of ns target order) (as_task a)"
    using assms(2-4) st(3) by (auto simp: plan_ok_def tasks_of_def)
  have "set (map as_task (ps_order st)) \<subseteq> set order" using ok by (auto simp: plan_ok_def)
  then have "as_task a \<in> set order" "as_task b \<in> set order" using assms(2,3) st(3) by auto
  then obtain m n where "depths_of ns target order (as_task b) = Some m" "longest_route ns target (as_task b) m"
    "depths_of ns target order (as_task a) = Some n" "longest_route ns target (as_task a) n"
    using depths_longest(1)[OF st(1)] by blast
  with le show ?thesis by (intro exI[of _ m] exI[of _ n]) (simp add: depth_of_def)
qed

text \<open>
  C35: A session is carried on only inside its lane. A task that inherits a session gets the one of the task last
  ordered in its own, named lane, in a mode that reuses sessions and while the lane is below the ceiling.
\<close>

theorem plan_reuses_lane_session:
  assumes "plan ns target satisfied mode occupancy = Inr p" and "pl_order p = xs @ a # ys" and "as_reuse a = Some s"
  shows "lane_session xs (as_lane a) = Some s \<and> as_lane a \<noteq> [] \<and> mode \<noteq> ''speed_first''
    \<and> (case map_of occupancy (as_lane a) of None \<Rightarrow> 0 | Some q \<Rightarrow> q) < 85"
proof -
  obtain order st where st: "scheduler_policy mode = Inr (pl_policy p)"
    "plan_done (pl_policy p) occupancy ns order satisfied (depths_of ns target order) st" "pl_order p = ps_order st"
    using plan_outcome[OF assms(1)] by blast
  have "plan_ok (pl_policy p) occupancy ns order satisfied (depths_of ns target order) (st\<lparr>ps_remaining := []\<rparr>)"
    using st(2) by (simp add: plan_done_def)
  moreover have "ps_order (st\<lparr>ps_remaining := []\<rparr>) = xs @ a # ys" using st(3) assms(2) by simp
  ultimately have reuse: "lane_session xs (as_lane a) = Some s" "as_lane a \<noteq> []" "sc_reuse (pl_policy p)"
      "(case map_of occupancy (as_lane a) of None \<Rightarrow> 0 | Some q \<Rightarrow> q) < sc_ceiling (pl_policy p)"
    using assms(3) unfolding plan_ok_def by blast+
  have "mode \<noteq> ''speed_first'' \<and> sc_ceiling (pl_policy p) = 85"
    by (rule policy_reuses[OF st(1) reuse(3)])
  then show ?thesis using reuse by simp
qed

section \<open>Witnesses\<close>

definition sample_node :: "string list \<Rightarrow> task_node" where
  "sample_node deps = \<lparr>tn_lane = ''l'', tn_priority = ''P1'', tn_depends = deps, tn_autonomous = True, tn_reason = None,
     tn_mode = None, tn_infra = None\<rparr>"

definition sample_graph :: task_graph where
  "sample_graph = [(''a'', sample_node [''b'', ''c'']), (''b'', sample_node [''c'']), (''c'', sample_node [])]"

lemma sample_routes:
  "(case depth_to sample_graph ''a'' of Inl e \<Rightarrow> [] | Inr d \<Rightarrow> map d [''a'', ''b'', ''c'', ''d''])
   = [Some 0, Some 1, Some 2, None]"
  by code_simp

lemma sample_needs: "(''a'', ''c'') \<in> (needs sample_graph)\<^sup>*"
  by (rule r_into_rtrancl) (simp add: needs_def node_depends_def sample_graph_def sample_node_def)

theorem depth_is_longest_route_witness:
  "\<exists>n. (case depth_to sample_graph ''a'' of Inl e \<Rightarrow> None | Inr d \<Rightarrow> d ''c'') = Some n
     \<and> longest_route sample_graph ''a'' ''c'' n \<and> n = 2"
proof (cases "depth_to sample_graph ''a''")
  case (Inr d)
  then show ?thesis
    using depth_is_longest_route[OF Inr, of "''c''"] sample_needs sample_routes by auto
qed (use sample_routes in simp)

lemma sample_plan:
  "(case plan sample_graph ''a'' [] ''cost_first'' [] of Inl e \<Rightarrow> []
     | Inr p \<Rightarrow> map (\<lambda>a. (as_task a, as_reuse a)) (pl_order p))
   = [(''c'', None), (''b'', Some ''c''), (''a'', Some ''b'')]"
  by code_simp

lemma sample_planned:
  obtains p a b c where "plan sample_graph ''a'' [] ''cost_first'' [] = Inr p" "pl_order p = [c, b, a]"
    "as_task c = ''c''" "as_task b = ''b''" "as_task a = ''a''" "as_reuse b = Some ''c''"
  using sample_plan by (cases "plan sample_graph ''a'' [] ''cost_first'' []") (auto simp: map_eq_Cons_conv)

theorem plan_accounts_for_every_task_witness:
  "\<exists>p. plan sample_graph ''a'' [] ''cost_first'' [] = Inr p
     \<and> set (map as_task (pl_order p) @ map fst (pl_deferred p)) = {t. (''a'', t) \<in> (needs sample_graph)\<^sup>*}"
proof -
  obtain p where "plan sample_graph ''a'' [] ''cost_first'' [] = Inr p" by (rule sample_planned)
  then show ?thesis using plan_accounts_for_every_task[of sample_graph "''a''" "[]" "''cost_first''" "[]" p] by simp
qed

text \<open>Two tasks that can start at once: the deeper one is first.\<close>

definition fork_graph :: task_graph where
  "fork_graph = [(''a'', sample_node [''b'', ''d'']), (''b'', sample_node [''c'']), (''c'', sample_node []), (''d'', sample_node [])]"

lemma fork_plan:
  "(case plan fork_graph ''a'' [] ''cost_first'' [] of Inl e \<Rightarrow> [] | Inr p \<Rightarrow> map as_task (pl_order p))
   = [''c'', ''b'', ''d'', ''a'']"
  by code_simp

theorem plan_follows_critical_path_witness:
  "\<exists>m n. longest_route fork_graph ''a'' ''d'' m \<and> longest_route fork_graph ''a'' ''c'' n \<and> m \<le> n"
proof -
  obtain p a b c d where p: "plan fork_graph ''a'' [] ''cost_first'' [] = Inr p" "pl_order p = [] @ c # [b, d, a]"
    "as_task c = ''c''" "as_task d = ''d''"
    using fork_plan by (cases "plan fork_graph ''a'' [] ''cost_first'' []") (auto simp: map_eq_Cons_conv)
  have "may_start fork_graph (set [] \<union> tasks_of []) (as_task d)"
    by (simp add: p(4) may_start_def fork_graph_def sample_node_def startable_def)
  from plan_follows_critical_path[OF p(1,2) _ this] show ?thesis by (simp add: p(3,4))
qed

theorem plan_reuses_lane_session_witness:
  "\<exists>p c b ys. plan sample_graph ''a'' [] ''cost_first'' [] = Inr p \<and> pl_order p = [c] @ b # ys
     \<and> lane_session [c] (as_lane b) = Some ''c''"
proof -
  obtain p a b c where p: "plan sample_graph ''a'' [] ''cost_first'' [] = Inr p" "pl_order p = [c, b, a]"
    "as_reuse b = Some ''c''" by (rule sample_planned)
  then have order: "pl_order p = [c] @ b # [a]" by simp
  from plan_reuses_lane_session[OF p(1) this p(3)] p(1) order show ?thesis by blast
qed

end
