(* ===== verification/Spec2Isabelle.thy ===== *)
theory Spec2Isabelle
  imports AiReview EventDelivery Lease HarnessService HarnessScheduler
begin

text \<open>
  A verification library for terminal-mcp, a controller that drives coding agents in terminal
  sessions from durable stores. The library models the part of the program that decides: the SQLite stores
  with their state machines, and the orchestrator and the scheduler that work on them. All files named below are
  under \<open>src/terminal_mcp/\<close>; a definition has the name of the function, method or table it translates.

  \<^bold>\<open>The parts and how they interact.\<close>
  A task is a row of the queue (\<open>queue_store.py\<close>). It is bound to a lane and to a runtime session,
  claimed, started on evidence, verified and settled, and every change of its status goes through one function,
  \<open>_transition_locked\<close>, which logs an event, marks the worktree for cleanup and tells an event sink. The
  completion gate is the requirement contract (\<open>requirement_contract.py\<close>); a verifier's verdict
  comes from the verification queue (\<open>verify_queue.py\<close>), which settles its own row and the task's in
  one transaction and matches jobs with workers by capability (\<open>capability_profile.py\<close>). The
  event bus (\<open>event_bus.py\<close>) delivers what was published, and the leases (\<open>lease.py\<close>)
  keep two senders off one pane. The harness (\<open>harness_*.py\<close>) executes a task as a run: a contract is
  planned and frozen, iterations are built and evaluated against it, and a run becomes MERGE_READY, is revised,
  or asks a human. Its store mirrors the queue's discipline with one chokepoint, \<open>advance\<close>; the
  orchestrator \<open>harness_engine.py\<close> writes only through the store, and the service \<open>harness_service.py\<close>
  joins it with the queue.

  \<^bold>\<open>The theories.\<close>
  \<^item> \<open>Prelude\<close>: decoded JSON, Python dictionaries, truthiness and text operations; the named collections and
    the generic lemmas. \<open>JsonText\<close>: \<open>json.dumps\<close>.
  \<^item> \<open>TaskStatus\<close>, \<open>WorktreeCleanup\<close>, \<open>QueueModel\<close>, \<open>QueueTransition\<close>: the status table,
    the cleanup record (\<open>worktree_cleanup.py\<close>), the rows and transactions, and the chokepoint.
    \<open>QueueEvolution\<close>: the abstract specification of a row (\<open>row_step\<close>) and of the table
    (\<open>evolves\<close>), and the locales \<open>store_writes\<close> and \<open>store_relation\<close>: what holds of the primitive writes
    holds of the operations built from them. A write to a row and the event that records it are one law
    there; \<open>separate_writes\<close> and \<open>separate_relation\<close> are the case where the two can be looked at apart.
    They are interpreted on the model for the audit log, its explanation of every row, the event sink, lanes,
    exclusive sessions, request keys and verification jobs.
  \<^item> \<open>QueueLanes\<close>, \<open>QueueCrud\<close>, \<open>QueueClaims\<close>, \<open>QueueProjects\<close>, \<open>QueueRouting\<close>,
    \<open>QueueDeps\<close>, \<open>QueueEvidence\<close>, \<open>QueueCompletion\<close>: the operations of \<open>queue_store.py\<close>, by
    subject, each with its behaviour on every branch. \<open>QueueMachine\<close>: all of them as one step relation
    and what every reachable store satisfies; the log replays to every row.
  \<^item> \<open>RequirementContract\<close>, \<open>AiReview\<close> (\<open>ai_review.py\<close>: who owns stuck work), \<open>Capability\<close>.
  \<^item> \<open>VerifyJobs\<close>, \<open>VerifyQueue\<close>, \<open>VerifyVerdicts\<close>: the job table, its operations, what a verdict
    and the recovery sweep guarantee.
  \<^item> \<open>EventBus\<close>, \<open>EventDelivery\<close>: publishing, claims and observers; exclusivity, the delivery budget and
    the order of observation, with the locale \<open>cursor_stream\<close>.
  \<^item> \<open>Lease\<close>: the pane and the resource locks, both on the locale \<open>lease_table\<close>.
  \<^item> \<open>HarnessState\<close> (\<open>harness_state.py\<close>, \<open>harness_policy.py\<close>), \<open>HarnessContract\<close>,
    \<open>HarnessStore\<close> and \<open>HarnessHistory\<close> (\<open>harness_store.py\<close>, \<open>harness_schema.py\<close>: operations, and
    what any history of calls keeps), \<open>HarnessContext\<close> (skills, packs and prompts).
  \<^item> \<open>HarnessChecks\<close>, \<open>HarnessEngine\<close>, \<open>HarnessRuns\<close>, \<open>HarnessOutcomes\<close>: the declared checks, the
    orchestrator, its operations as histories of store calls, and what its steps answer for.
  \<^item> \<open>HarnessService\<close> (\<open>harness_service.py\<close>): the two stores together. The service starts, resumes,
    cancels and reviews runs, and its projection is the only way from a run to the status of a task; it moves
    a task along the queue's own table or notes why not, and it never settles one.
  \<^item> \<open>HarnessScheduler\<close> (\<open>harness_scheduler.py\<close>): dependency closure, critical path and plan.

  \<^bold>\<open>What the lemmas show.\<close>
  Every component has an invariant that its operations keep, and the functional behaviour of each operation
  with its refusals. Above that stand the properties of histories: an invariant of every reachable queue; the
  log of a task replays from QUEUED to the status and the attempts of its row, that of a run from INIT to its
  stage; claims and leases exclude each other until they expire; a completion, an accepted verdict and a
  MERGE_READY are each earned; the searches for cycles are exact; a plan loses no task. Some theorems state what
  the code does where its comments say otherwise, such as an engine that uses up an iteration of a run it does
  not hold, or a write that overwrites what another process committed after the reading.

  \<^bold>\<open>How the code is represented.\<close>
  A table is a list of rows in insertion order, and a row is a record with its columns. One SQLite transaction is one
  definition, of type \<open>store \<Rightarrow> (error + 'a) \<times> store\<close>: an exception is an \<open>Inl\<close>, and what was written
  before it is rolled back. An event sink is told after the commit, and a process may lose what it had to tell.
  An operation reads the clock once, and the time is an integer argument.
  A random identifier is the next unused number. JSON values are decoded data without floats; text is ASCII
  where its case is folded. What the program calls and is not under \<open>src/\<close>, or does outside the process,
  is an argument: the agent runner (which may call the store itself), the shell and the programs on the machine, the
  SHA-256 function, the classifier, the file system. Laws are assumed of them only where a theorem says so.

  \<^bold>\<open>Overlapping processes.\<close>
  Interleaving of processes is the order of calls in a history (\<open>reachable\<close>, \<open>harness_after\<close>,
  lists of calls of the bus and of the leases): the calls of a history do not overlap. Where the code takes the
  write lock before it reads (\<open>BEGIN IMMEDIATE\<close>) that is what SQLite enforces: binding, observing and
  recovering, claims, lease renewal, release and hand-off, the resolved preflight, the correction of a false completion,
  reassignment, renaming, every writing operation of the verification queue and of the event bus,
  \<open>acquire_many\<close>; a single lease is taken, renewed or released by one conditional statement. The other
  operations read first and take the lock with their first write. Where a settlement or an exclusion rests
  on that reading, the overlapping call is a definition of its own, with the store each statement runs on, or
  the row it has read, as an argument: \<open>transition_overlapped\<close>, \<open>completion_overlapped\<close>,
  \<open>force_release_overlapped\<close>, and \<open>advance_from\<close>, \<open>acquire_from\<close> and \<open>release_from\<close> of the harness
  store; the rest (lane reports, contracts, edits of a row) are modelled undisturbed only.
  A lemma says of each that it is the plain definition when nothing is committed in between
  (\<open>..._undisturbed\<close>). The projection of the service is built on \<open>transition_overlapped\<close>: a \<open>tick\<close> is
  the clock together with what other processes commit before each of the three statements. What overlap can do is
  stated there and in \<open>HarnessHistory\<close>; theorems about histories are about calls that do not overlap.

  \<^bold>\<open>Termination and bounds.\<close>
  No definition has fuel. The cycle search of the queue ends by the nodes not yet seen, that of the scheduler
  by the nodes off the path, the plan by the tasks that remain, the causation chain by its limit, the regular
  expression matcher and the splitter of command lines by the text left. \<open>drive\<close> makes as many steps as it has
  clock readings, which is its argument \<open>max_steps\<close>. Python's integers are unbounded, and so are
  the model's.

  \<^bold>\<open>Not modelled.\<close>
  The terminal backends and the engines that type into sessions (\<open>core.py\<close>, \<open>supervisor.py\<close>,
  \<open>controller.py\<close>, \<open>queue_engine.py\<close>, \<open>queue_loop.py\<close>, \<open>windows_*.py\<close>): what they
  do is the timing and the text of other programs; their durable effects are the calls of the stores, in any order.
  The web and tool surfaces (\<open>dashboard.py\<close>, \<open>mcp_app.py\<close>, \<open>compact_tools.py\<close>) and
  \<open>config.py\<close>: rendering, routing of requests and reading of settings. Of the harness, the process runner, the
  choice of a node, the migration of old databases, the pilot, the trust reports and the summaries for the board. The
  queue's own reading of the table of harness runs, which guards retries, is a column of the queue's store and is
  not tied to the tables of the harness. Of the stores, schema creation and migration, file
  permissions and connections. The redaction of secrets is an argument where a store applies it.
  The stores of notes, telemetry, integration, fleet and projects stand beside the queue and are not modelled.
\<close>

end
